(* ===== verification/Prelude.thy ===== *)
theory Prelude
  imports Main "HOL-Library.Word" "HOL-Library.Monad_Syntax" "HOL-Library.Signed_Division"
begin

unbundle bit_operations_syntax

text \<open>
  Shared vocabulary of the development: the C integer types of the i686 target as
  machine words, fallible array access, the C \<open>int\<close> arithmetic, the loops that the
  components share (first free slot, marking a range of slots), and the contract
  \<open>op_system\<close> of a component whose operations keep an invariant.

  Conventions.  \<open>size_t\<close>, \<open>uintptr_t\<close> and \<open>unsigned\<close> are 32 bits wide and wrap.  A
  C \<open>int\<close> whose overflow matters is a HOL \<open>int\<close> kept in range by \<open>wrap32\<close>.
  \<open>None\<close> in a result of type \<open>'a option\<close> named as fallible means that the C code
  has no defined result there (an access out of bounds, a \<open>NULL\<close> dereference, a
  failed assertion); error codes that the code itself returns are ordinary values.
\<close>

section \<open>Machine types\<close>

type_synonym u8 = "8 word"
type_synonym u16 = "16 word"
type_synonym u32 = "32 word"
type_synonym u64 = "64 word"

named_theorems access_simps \<open>reading and writing arrays in range\<close>
named_theorems inv_intros \<open>operations that keep their component's invariant\<close>

section \<open>Array access\<close>

definition rd :: "'a list \<Rightarrow> nat \<Rightarrow> 'a option" where
  "rd xs i = (if i < length xs then Some (xs ! i) else None)"

definition wr :: "'a list \<Rightarrow> nat \<Rightarrow> 'a \<Rightarrow> 'a list option" where
  "wr xs i v = (if i < length xs then Some (xs[i := v]) else None)"

lemma rd_in [access_simps]: "i < length xs \<Longrightarrow> rd xs i = Some (xs ! i)"
  by (simp add: rd_def)

lemma wr_in [access_simps]: "i < length xs \<Longrightarrow> wr xs i v = Some (xs[i := v])"
  by (simp add: wr_def)

lemma rd_Some: "rd xs i = Some x \<longleftrightarrow> i < length xs \<and> x = xs ! i"
  by (auto simp: rd_def)

lemma wr_Some: "wr xs i v = Some ys \<longleftrightarrow> i < length xs \<and> ys = xs[i := v]"
  by (auto simp: wr_def)

section \<open>C integer arithmetic\<close>

definition wrap32 :: "int \<Rightarrow> int" where
  "wrap32 x = signed_take_bit 31 x"

definition int32_range :: "int \<Rightarrow> bool" where
  "int32_range x \<longleftrightarrow> - (2 ^ 31) \<le> x \<and> x < 2 ^ 31"

lemma wrap32_id [simp]: "int32_range x \<Longrightarrow> wrap32 x = x"
  by (simp add: wrap32_def int32_range_def signed_take_bit_int_eq_self)

lemma wrap32_range [simp]: "int32_range (wrap32 x)"
  using signed_take_bit_int_greater_eq_minus_exp [of 31 x]
    signed_take_bit_int_less_exp [of 31 x]
  by (simp add: wrap32_def int32_range_def)

section \<open>Loops\<close>

text \<open>
  A C \<open>for\<close> loop over an index range whose body updates a state: the indices are
  visited in order and the loop has no result as soon as one body has none.
\<close>

fun for_each :: "('i \<Rightarrow> 's \<Rightarrow> 's option) \<Rightarrow> 'i list \<Rightarrow> 's \<Rightarrow> 's option" where
  "for_each f [] s = Some s"
| "for_each f (i # is) s = do { t \<leftarrow> f i s; for_each f is t }"

text \<open>A loop that returns early with \<open>False\<close> at the first index that fails its test.\<close>

fun for_all :: "('i \<Rightarrow> bool option) \<Rightarrow> 'i list \<Rightarrow> bool option" where
  "for_all p [] = Some True"
| "for_all p (i # is) = do { b \<leftarrow> p i; if b then for_all p is else Some False }"

text \<open>A loop that counts the indices passing its test.\<close>

fun for_count :: "('i \<Rightarrow> bool option) \<Rightarrow> 'i list \<Rightarrow> nat option" where
  "for_count p [] = Some 0"
| "for_count p (i # is) = do { b \<leftarrow> p i; n \<leftarrow> for_count p is; Some (if b then Suc n else n) }"

text \<open>The first index that passes its test.\<close>

fun find_first :: "('i \<Rightarrow> bool) \<Rightarrow> 'i list \<Rightarrow> 'i option" where
  "find_first p [] = None"
| "find_first p (i # is) = (if p i then Some i else find_first p is)"

lemma for_all_total:
  "\<forall>i \<in> set is. p i = Some (q i) \<Longrightarrow> for_all p is = Some (\<forall>i \<in> set is. q i)"
  by (induction "is") auto

lemma for_count_total:
  "\<forall>i \<in> set is. p i = Some (q i) \<Longrightarrow> for_count p is = Some (length (filter q is))"
  by (induction "is") auto

lemma for_each_inv:
  assumes "\<And>i s. i \<in> set is \<Longrightarrow> P s \<Longrightarrow> \<exists>t. f i s = Some t \<and> P t"
    and "P s"
  shows "\<exists>t. for_each f is s = Some t \<and> P t"
  using assms
proof (induction "is" arbitrary: s)
  case Nil
  then show ?case by simp
next
  case (Cons i "is")
  from Cons.prems obtain t where t: "f i s = Some t" "P t"
    by (meson list.set_intros(1))
  then have "\<exists>u. for_each f is t = Some u \<and> P u"
    using Cons.IH [of t] Cons.prems(1) by auto
  with t show ?case by simp
qed

lemma for_each_map: "for_each f (map g is) s = for_each (\<lambda>i. f (g i)) is s"
  by (induction "is" arbitrary: s) (auto split: bind_splits)

lemma for_each_append:
  "for_each f (xs @ ys) s = do { t \<leftarrow> for_each f xs s; for_each f ys t }"
  by (induction xs arbitrary: s) (auto split: bind_splits)

text \<open>A loop that updates the entries \<open>i, \<dots>, i + n - 1\<close> of an array, one after the other.\<close>

definition update_range :: "nat \<Rightarrow> nat \<Rightarrow> (nat \<Rightarrow> 'a \<Rightarrow> 'a) \<Rightarrow> 'a list \<Rightarrow> 'a list" where
  "update_range i n g xs =
     map (\<lambda>k. if i \<le> k \<and> k < i + n then g (k - i) (xs ! k) else xs ! k) [0..<length xs]"

lemma length_update_range [simp]: "length (update_range i n g xs) = length xs"
  by (simp add: update_range_def)

lemma nth_update_range:
  "k < length xs \<Longrightarrow>
   update_range i n g xs ! k = (if i \<le> k \<and> k < i + n then g (k - i) (xs ! k) else xs ! k)"
  by (simp add: update_range_def)

lemma update_range_0 [simp]: "update_range i 0 g xs = xs"
  by (rule nth_equalityI) (auto simp: nth_update_range)

lemma update_range_Suc:
  "i + n < length xs \<Longrightarrow>
   update_range i (Suc n) g xs = (update_range i n g xs)[i + n := g n (xs ! (i + n))]"
  by (rule nth_equalityI) (auto simp: nth_update_range nth_list_update less_Suc_eq)

lemma for_each_update_range:
  assumes "i + n \<le> length xs"
    and "\<And>j ys. j < n \<Longrightarrow> length ys = length xs \<Longrightarrow> f j ys = Some (ys[i + j := g j (ys ! (i + j))])"
  shows "for_each f [0..<n] xs = Some (update_range i n g xs)"
  using assms
proof (induction n)
  case 0
  then show ?case by simp
next
  case (Suc n)
  then have "for_each f [0..<n] xs = Some (update_range i n g xs)" by simp
  with Suc.prems show ?case
    by (simp add: for_each_append update_range_Suc nth_update_range)
qed

lemma for_all_map: "for_all p (map g is) = for_all (\<lambda>i. p (g i)) is"
  by (induction "is") (auto split: bind_splits)

lemma for_each_cong:
  "is = js \<Longrightarrow> (\<And>i s. i \<in> set js \<Longrightarrow> f i s = g i s) \<Longrightarrow> for_each f is s = for_each g js s"
  by (induction js arbitrary: "is" s) (auto split: bind_splits)

lemma find_first_Some:
  "find_first p is = Some i \<Longrightarrow> i \<in> set is \<and> p i"
  by (induction "is") (auto split: if_splits)

lemma find_first_None: "find_first p is = None \<longleftrightarrow> (\<forall>i \<in> set is. \<not> p i)"
  by (induction "is") auto

lemma find_first_cong: "(\<And>i. i \<in> set is \<Longrightarrow> p i = q i) \<Longrightarrow> find_first p is = find_first q is"
  by (induction "is") auto

lemma find_first_append:
  "find_first p (xs @ ys) = (case find_first p xs of Some i \<Rightarrow> Some i | None \<Rightarrow> find_first p ys)"
  by (induction xs) auto

lemma find_first_upt:
  "find_first p [a..<b] = Some i \<longleftrightarrow> a \<le> i \<and> i < b \<and> p i \<and> (\<forall>j. a \<le> j \<and> j < i \<longrightarrow> \<not> p j)"
proof (induction "b - a" arbitrary: a)
  case 0
  then show ?case by simp
next
  case (Suc n)
  then have "a < b" and n: "n = b - Suc a" by simp_all
  then have "[a..<b] = a # [Suc a..<b]" by (simp add: upt_conv_Cons)
  moreover have "(\<forall>j. a \<le> j \<and> j < i \<longrightarrow> \<not> p j) \<longleftrightarrow>
      (a < i \<longrightarrow> \<not> p a) \<and> (\<forall>j. Suc a \<le> j \<and> j < i \<longrightarrow> \<not> p j)"
    by (metis Suc_leD Suc_leI le_neq_implies_less order_refl)
  ultimately show ?case
    using Suc.hyps(1) [OF n] \<open>a < b\<close>
    by (auto simp: Suc_le_eq nat_less_le)
qed

section \<open>Invariants of components\<close>

text \<open>Running a list of operations; \<open>None\<close> as soon as one of them has no result.\<close>

fun run_ops :: "('op \<Rightarrow> 's \<Rightarrow> 's option) \<Rightarrow> 'op list \<Rightarrow> 's \<Rightarrow> 's option" where
  "run_ops stp [] s = Some s"
| "run_ops stp (x # xs) s = do { t \<leftarrow> stp x s; run_ops stp xs t }"

locale op_system =
  fixes stp :: "'op \<Rightarrow> 's \<Rightarrow> 's option"
    and ok :: "'op \<Rightarrow> bool"
    and inv :: "'s \<Rightarrow> bool"
  assumes stp_total: "inv s \<Longrightarrow> ok x \<Longrightarrow> stp x s \<noteq> None"
    and stp_inv: "inv s \<Longrightarrow> stp x s = Some t \<Longrightarrow> ok x \<Longrightarrow> inv t"
begin

lemma run_safe:
  "inv s \<Longrightarrow> \<forall>x \<in> set xs. ok x \<Longrightarrow> \<exists>t. run_ops stp xs s = Some t \<and> inv t"
proof (induction xs arbitrary: s)
  case Nil
  then show ?case by simp
next
  case (Cons x xs)
  then obtain t where t: "stp x s = Some t"
    using stp_total [of s x] by auto
  with Cons.prems have "inv t" by (auto intro: stp_inv)
  with Cons.IH [of t] Cons.prems t show ?case by simp
qed

end

text \<open>
  The weaker contract of operations that may have no result: whenever a run has one, the
  invariant holds at its end.
\<close>

locale inv_system =
  fixes stp :: "'op \<Rightarrow> 's \<Rightarrow> 's option"
    and inv :: "'s \<Rightarrow> bool"
  assumes step_inv: "inv s \<Longrightarrow> stp x s = Some t \<Longrightarrow> inv t"
begin

lemma run_inv: "inv s \<Longrightarrow> run_ops stp xs s = Some t \<Longrightarrow> inv t"
  by (induction xs arbitrary: s) (auto split: bind_splits intro: step_inv)

lemma run_append:
  "run_ops stp (xs @ ys) s = do { t \<leftarrow> run_ops stp xs s; run_ops stp ys t }"
  by (induction xs arbitrary: s) (auto split: bind_splits)

end

end
