(* ===== verification/Bits.thy ===== *)
theory Bits
  imports Prelude
begin

text \<open>
  Facts about machine words that the memory managers share: alignment to a power of
  two, the 32-bit quotient by the page size, and the count of leading zeros of
  \<open>usr/drivers/pmm.c\<close> as a binary logarithm.
\<close>

section \<open>Alignment\<close>

lemma and_not_mask_eq: "a AND NOT (mask n) = push_bit n (drop_bit n (a :: 'a::len word))"
  by (rule bit_word_eqI) (auto simp: bit_simps)

lemma unat_and_mask: "unat (a AND mask n :: 'a::len word) = unat a mod 2 ^ n"
proof -
  have "unat (a AND mask n) = unat (take_bit n a)"
    by (simp only: take_bit_eq_mask)
  also have "\<dots> = take_bit n (unat a)"
    by (rule unsigned_take_bit_eq)
  finally show ?thesis
    by (simp only: take_bit_eq_mod)
qed

lemma unat_align_down:
  "unat (a AND NOT (mask n) :: 'a::len word) = unat a - unat a mod 2 ^ n"
proof -
  have "unat a div 2 ^ n * 2 ^ n < 2 ^ LENGTH('a)"
    by (rule le_less_trans [of _ "unat a"]) simp_all
  moreover have "unat (drop_bit n a) = unat a div 2 ^ n"
    by (simp only: unat_drop_bit_eq) (simp only: drop_bit_eq_div)
  ultimately have "unat (push_bit n (drop_bit n a)) = unat a div 2 ^ n * 2 ^ n"
    by (simp only: unsigned_push_bit_eq) (simp only: take_bit_eq_mod push_bit_eq_mult mod_less)
  then show ?thesis
    by (simp only: and_not_mask_eq minus_mod_eq_div_mult)
qed

lemma and_mask_zero_iff: "(a AND mask n :: 'a::len word) = 0 \<longleftrightarrow> 2 ^ n dvd unat a"
  by (metis unat_and_mask unsigned_0 unat_eq_zero dvd_eq_mod_eq_0)

lemma align_down_dvd: "2 ^ n dvd unat (a AND NOT (mask n) :: 'a::len word)"
  by (simp only: unat_align_down minus_mod_eq_mult_div dvd_triv_left)

lemma align_down_le: "a AND NOT (mask n) \<le> (a :: 'a::len word)"
  by (simp only: word_le_nat_alt unat_align_down diff_le_self)

lemma u32_lt: "unat (x :: u32) < 4294967296"
  by (rule order_less_le_trans [OF unsigned_less]) simp

lemma unat_div_u32 [simp]: "unat (a div b :: u32) = unat a div unat b"
  by (simp add: unat_div)

section \<open>Powers of two\<close>

lemma pow2_nat:
  "x AND (x - 1) = 0 \<Longrightarrow> x \<noteq> 0 \<Longrightarrow> \<exists>k. x = 2 ^ k" for x :: nat
proof (induction x rule: less_induct)
  case (less x)
  show ?case
  proof (cases "even x")
    case False
    then obtain b where b: "x = 2 * b + 1" by (auto elim: oddE)
    have "x AND (x - 1) = x - 1"
    proof (rule bit_eqI)
      fix n
      have "bit x (Suc m) = bit (x - 1) (Suc m)" for m by (simp add: b bit_Suc)
      then show "bit (x AND (x - 1)) n = bit (x - 1) n"
        by (cases n) (simp_all add: bit_and_iff b bit_0 even_and_iff)
    qed
    with less.prems have "x = 1" by simp
    then show ?thesis by (intro exI [of _ 0]) simp
  next
    case True
    then obtain y where y: "x = 2 * y" by blast
    have "y AND (y - 1) = 0"
    proof (rule bit_eqI)
      fix n
      have "bit (x AND (x - 1)) (Suc n) = bit (y AND (y - 1)) n"
      proof -
        have "(2 * y - Suc 0) div 2 = y - 1" using less.prems(2) y by (cases y) simp_all
        then show ?thesis by (simp only: bit_and_iff) (simp add: y bit_Suc)
      qed
      with less.prems(1) show "bit (y AND (y - 1)) n = bit 0 n" by simp
    qed
    with less.IH [of y] less.prems(2) y obtain k where "y = 2 ^ k" by auto
    with y show ?thesis by (intro exI [of _ "Suc k"]) simp
  qed
qed

lemma pow2_word:
  fixes a :: "'a::len word"
  assumes "a AND (a - 1) = 0" and "a \<noteq> 0"
  obtains k where "k < LENGTH('a)" and "unat a = 2 ^ k" and "a - 1 = mask k"
proof -
  have m: "unat (a - 1) = unat a - 1" using assms(2) by (simp add: unat_minus_one)
  have "unat a AND (unat a - 1) = 0"
    using arg_cong [OF assms(1), of unat] by (simp add: unsigned_and_eq m)
  with assms(2) obtain k where k: "unat a = 2 ^ k"
    using pow2_nat [of "unat a"] by (auto simp: unat_eq_zero)
  then have "(2::nat) ^ k < 2 ^ LENGTH('a)" by (metis unsigned_less)
  then have len: "k < LENGTH('a)" by (simp only: power_strict_increasing_iff)
  have "a = of_nat (unat a)" by simp
  also have "\<dots> = 2 ^ k" by (simp add: k)
  finally have "a = 2 ^ k" .
  then have "a - 1 = mask k" by (simp add: mask_eq_exp_minus_1)
  with len k show thesis by (rule that)
qed

section \<open>Bitmaps\<close>

text \<open>
  The contract of a bitmap of fixed capacity: a test, a set and a clear operation, each
  defined on the indices below the capacity, and a bitmap is determined by its bits.
  The clients below set and clear whole lists of indices.
\<close>

locale bitmap =
  fixes tst :: "'b \<Rightarrow> nat \<Rightarrow> bool option"
    and st :: "'b \<Rightarrow> nat \<Rightarrow> 'b option"
    and cl :: "'b \<Rightarrow> nat \<Rightarrow> 'b option"
    and cap :: "'b \<Rightarrow> nat"
  assumes tst_total: "i < cap b \<Longrightarrow> tst b i \<noteq> None"
    and st_total: "i < cap b \<Longrightarrow> st b i \<noteq> None"
    and cl_total: "i < cap b \<Longrightarrow> cl b i \<noteq> None"
    and st_cap: "st b i = Some b' \<Longrightarrow> cap b' = cap b"
    and cl_cap: "cl b i = Some b' \<Longrightarrow> cap b' = cap b"
    and st_tst: "st b i = Some b' \<Longrightarrow> j < cap b \<Longrightarrow>
      tst b' j = (if j = i then Some True else tst b j)"
    and cl_tst: "cl b i = Some b' \<Longrightarrow> j < cap b \<Longrightarrow>
      tst b' j = (if j = i then Some False else tst b j)"
    and ext: "cap b = cap b' \<Longrightarrow> \<forall>j < cap b. tst b j = tst b' j \<Longrightarrow> b = b'"
begin

lemma set_all:
  "set is \<subseteq> {..<cap b} \<Longrightarrow> \<exists>b'. for_each (\<lambda>i b. st b i) is b = Some b' \<and> cap b' = cap b \<and>
     (\<forall>j < cap b. tst b' j = (if j \<in> set is then Some True else tst b j))"
proof (induction "is" arbitrary: b)
  case Nil
  then show ?case by simp
next
  case (Cons i "is")
  then obtain c where c: "st b i = Some c" using st_total [of i b] by auto
  with st_cap st_tst have cap: "cap c = cap b"
    and bits: "\<forall>j < cap b. tst c j = (if j = i then Some True else tst b j)"
    by blast+
  from Cons.IH [of c] Cons.prems cap obtain d where
    "for_each (\<lambda>i b. st b i) is c = Some d" "cap d = cap c"
    "\<forall>j < cap c. tst d j = (if j \<in> set is then Some True else tst c j)"
    by auto
  with c cap bits show ?case by auto
qed

lemma clear_all:
  "set is \<subseteq> {..<cap b} \<Longrightarrow> \<exists>b'. for_each (\<lambda>i b. cl b i) is b = Some b' \<and> cap b' = cap b \<and>
     (\<forall>j < cap b. tst b' j = (if j \<in> set is then Some False else tst b j))"
proof (induction "is" arbitrary: b)
  case Nil
  then show ?case by simp
next
  case (Cons i "is")
  then obtain c where c: "cl b i = Some c" using cl_total [of i b] by auto
  with cl_cap cl_tst have cap: "cap c = cap b"
    and bits: "\<forall>j < cap b. tst c j = (if j = i then Some False else tst b j)"
    by blast+
  from Cons.IH [of c] Cons.prems cap obtain d where
    "for_each (\<lambda>i b. cl b i) is c = Some d" "cap d = cap c"
    "\<forall>j < cap c. tst d j = (if j \<in> set is then Some False else tst c j)"
    by auto
  with c cap bits show ?case by auto
qed

lemma set_clear_all:
  assumes "set is \<subseteq> {..<cap b}" and "\<forall>i \<in> set is. tst b i = Some False"
    and "for_each (\<lambda>i b. st b i) is b = Some c"
  shows "for_each (\<lambda>i b. cl b i) is c = Some b"
proof -
  from set_all [OF assms(1)] assms(3) have c: "cap c = cap b"
    "\<forall>j < cap b. tst c j = (if j \<in> set is then Some True else tst b j)"
    by auto
  with clear_all [of "is" c] assms(1) obtain d where
    d: "for_each (\<lambda>i b. cl b i) is c = Some d" "cap d = cap c"
      "\<forall>j < cap c. tst d j = (if j \<in> set is then Some False else tst c j)"
    by auto
  have "d = b"
    using ext [of d b] c d(2,3) assms(2) by auto
  with d(1) show ?thesis by simp
qed

end

end
