(* ===== verification/Pmm.thy ===== *)
theory Pmm
  imports Bits
begin

text \<open>
  The physical memory manager, \<open>usr/drivers/pmm.c\<close> and \<open>usr/include/pmm.h\<close>: a list of
  regions, each with a bitmap of 64-bit words in which a set bit marks a page in use.

  State: \<open>pmm_regions\<close> (the linked list, its head first) and \<open>pmm_initialized\<close>.  A
  \<open>void*\<close> result is a 32-bit address and 0 is \<open>NULL\<close>.  The two calls of the heap
  allocator in \<open>pmm_add_region\<close> are given by their outcome (\<open>mok\<close>, \<open>cok\<close>: whether
  \<open>malloc\<close> and \<open>calloc\<close> return a block).  Console output is not modelled.
\<close>

section \<open>Data\<close>

datatype pmm_zone = PMM_ZONE_DMA | PMM_ZONE_NORMAL | PMM_ZONE_HIGH

record pmm_region =
  rg_base :: u32
  rg_pages :: u32
  rg_bitmap :: "u64 list"
  rg_bitmap_size :: u32
  rg_last_alloc :: u32
  rg_zone :: pmm_zone

record pmm =
  pmm_regions :: "pmm_region list"
  pmm_initialized :: bool

abbreviation PMM_PAGE_SIZE :: u32 where
  "PMM_PAGE_SIZE \<equiv> 4096"

section \<open>Page alignment\<close>

definition pmm_is_page_aligned :: "u32 \<Rightarrow> bool" where
  "pmm_is_page_aligned addr \<longleftrightarrow> addr AND (PMM_PAGE_SIZE - 1) = 0"

definition pmm_page_align_down :: "u32 \<Rightarrow> u32" where
  "pmm_page_align_down addr = addr AND NOT (PMM_PAGE_SIZE - 1)"

definition pmm_page_align_up :: "u32 \<Rightarrow> u32" where
  "pmm_page_align_up addr = (addr + PMM_PAGE_SIZE - 1) AND NOT (PMM_PAGE_SIZE - 1)"

section \<open>Bitmaps\<close>

definition clz64 :: "u64 \<Rightarrow> nat" where
  "clz64 x =
    (if x = 0 then 64 else
       let (n, x) = (0, x);
           (n, x) = (if x \<le> 0x00000000FFFFFFFF then (n + 32, push_bit 32 x) else (n, x));
           (n, x) = (if x \<le> 0x0000FFFFFFFFFFFF then (n + 16, push_bit 16 x) else (n, x));
           (n, x) = (if x \<le> 0x00FFFFFFFFFFFFFF then (n + 8, push_bit 8 x) else (n, x));
           (n, x) = (if x \<le> 0x0FFFFFFFFFFFFFFF then (n + 4, push_bit 4 x) else (n, x));
           (n, x) = (if x \<le> 0x3FFFFFFFFFFFFFFF then (n + 2, push_bit 2 x) else (n, x))
       in (if x \<le> 0x7FFFFFFFFFFFFFFF then n + 1 else n))"

text \<open>The bit argument is the value of a \<open>size_t\<close>.\<close>

definition set_bit_64 :: "u64 list \<Rightarrow> nat \<Rightarrow> u64 list option" where
  "set_bit_64 bm b = do { w \<leftarrow> rd bm (b div 64); wr bm (b div 64) (w OR push_bit (b mod 64) 1) }"

definition clear_bit_64 :: "u64 list \<Rightarrow> nat \<Rightarrow> u64 list option" where
  "clear_bit_64 bm b =
     do { w \<leftarrow> rd bm (b div 64); wr bm (b div 64) (w AND NOT (push_bit (b mod 64) 1)) }"

definition test_bit_64 :: "u64 list \<Rightarrow> nat \<Rightarrow> bool option" where
  "test_bit_64 bm b = do { w \<leftarrow> rd bm (b div 64); Some (drop_bit (b mod 64) w AND 1 \<noteq> 0) }"

definition find_first_zero_bit_64 :: "u64 \<Rightarrow> nat" where
  "find_first_zero_bit_64 word = clz64 (NOT word)"

section \<open>Regions\<close>

text \<open>The region holding an address, as its position in the list.\<close>

fun find_region_for_addr :: "pmm_region list \<Rightarrow> u32 \<Rightarrow> nat option" where
  "find_region_for_addr [] addr = None"
| "find_region_for_addr (r # rs) addr =
     (if rg_base r \<le> addr \<and> addr < rg_base r + rg_pages r * PMM_PAGE_SIZE then Some 0
      else map_option Suc (find_region_for_addr rs addr))"

definition pmm_init :: "pmm \<Rightarrow> pmm \<times> int" where
  "pmm_init s =
     (if pmm_initialized s then (s, -1)
      else (s\<lparr>pmm_regions := [], pmm_initialized := True\<rparr>, 0))"

definition pmm_add_region :: "bool \<Rightarrow> bool \<Rightarrow> u32 \<Rightarrow> u32 \<Rightarrow> pmm_zone \<Rightarrow> pmm \<Rightarrow> pmm \<times> int" where
  "pmm_add_region mok cok base sz zone s =
     (if \<not> pmm_initialized s then (s, -1)
      else
        let aligned_base = pmm_page_align_up base;
            aligned_size = pmm_page_align_down (sz - (aligned_base - base));
            pages = aligned_size div PMM_PAGE_SIZE
        in if pages = 0 then (s, -1)
           else if \<not> mok then (s, -1)
           else
             let bitmap_size = (pages + 63) div 64
             in if \<not> cok then (s, -1)
                else (s\<lparr>pmm_regions :=
                          \<lparr>rg_base = aligned_base, rg_pages = pages,
                           rg_bitmap = replicate (unat bitmap_size) 0,
                           rg_bitmap_size = bitmap_size, rg_last_alloc = 0, rg_zone = zone\<rparr>
                          # pmm_regions s\<rparr>, 0))"

text \<open>
  One turn of the loop of \<open>pmm_reserve_range\<close>.  The addresses it visits are the page
  starts from \<open>aligned_start\<close> below \<open>aligned_end\<close>; both bounds are page aligned, so the
  addition of the page size never passes the end.
\<close>

definition reserve_page :: "u32 \<Rightarrow> pmm_region list \<Rightarrow> pmm_region list option" where
  "reserve_page addr rs =
     (case find_region_for_addr rs addr of
        None \<Rightarrow> Some rs
      | Some k \<Rightarrow>
          let r = rs ! k; page_idx = (addr - rg_base r) div PMM_PAGE_SIZE
          in if page_idx < rg_pages r
             then do { bm \<leftarrow> set_bit_64 (rg_bitmap r) (unat page_idx);
                       Some (rs[k := r\<lparr>rg_bitmap := bm\<rparr>]) }
             else Some rs)"

definition page_range :: "u32 \<Rightarrow> u32 \<Rightarrow> u32 list" where
  "page_range a e = map (\<lambda>i. a + of_nat i * PMM_PAGE_SIZE) [0..<(unat e - unat a) div 4096]"

definition pmm_reserve_range :: "u32 \<Rightarrow> u32 \<Rightarrow> pmm \<Rightarrow> (pmm \<times> int) option" where
  "pmm_reserve_range start e s =
     (if \<not> pmm_initialized s then Some (s, -1)
      else do { rs \<leftarrow> for_each reserve_page
                        (page_range (pmm_page_align_down start) (pmm_page_align_up e))
                        (pmm_regions s);
                Some (s\<lparr>pmm_regions := rs\<rparr>, 0) })"

section \<open>Allocation\<close>

text \<open>
  The body shared by the two scanning loops of \<open>alloc_page_from_region\<close>, over the word
  indices the loop visits; \<open>None\<close> inside the fallible result is a loop that ended
  without returning.
\<close>

fun scan_words :: "pmm_region \<Rightarrow> nat list \<Rightarrow> (pmm_region \<times> u32) option option" where
  "scan_words r [] = Some None"
| "scan_words r (word_idx # ws) =
     do { word \<leftarrow> rd (rg_bitmap r) word_idx;
          if word \<noteq> NOT 0 then
            let bit_offset = find_first_zero_bit_64 word in
            if bit_offset < 64 then
              let page_idx = of_nat word_idx * 64 + of_nat bit_offset in
              if page_idx < rg_pages r then
                do { bm \<leftarrow> set_bit_64 (rg_bitmap r) (unat page_idx);
                     Some (Some (r\<lparr>rg_bitmap := bm, rg_last_alloc := page_idx\<rparr>,
                                 rg_base r + page_idx * PMM_PAGE_SIZE)) }
              else scan_words r ws
            else scan_words r ws
          else scan_words r ws }"

definition alloc_page_from_region :: "pmm_region \<Rightarrow> (pmm_region \<times> u32) option" where
  "alloc_page_from_region r =
     (let start_word = unat (rg_last_alloc r div 64) in
      do { found \<leftarrow> scan_words r [start_word..<unat (rg_bitmap_size r)];
           case found of
             Some res \<Rightarrow> Some res
           | None \<Rightarrow>
               do { found \<leftarrow> scan_words r [0..<start_word];
                    case found of Some res \<Rightarrow> Some res | None \<Rightarrow> Some (r, 0) } })"

text \<open>The walk over the region list, restricted to the regions that pass \<open>P\<close>.\<close>

fun try_regions :: "(pmm_region \<Rightarrow> bool) \<Rightarrow> pmm_region list \<Rightarrow> (pmm_region list \<times> u32) option" where
  "try_regions P [] = Some ([], 0)"
| "try_regions P (r # rs) =
     (if P r then
        do { (r', page) \<leftarrow> alloc_page_from_region r;
             if page \<noteq> 0 then Some (r' # rs, page)
             else do { (rs', page) \<leftarrow> try_regions P rs; Some (r' # rs', page) } }
      else do { (rs', page) \<leftarrow> try_regions P rs; Some (r # rs', page) })"

definition pmm_alloc_page_zone :: "pmm_zone \<Rightarrow> pmm \<Rightarrow> (pmm \<times> u32) option" where
  "pmm_alloc_page_zone z s =
     (if \<not> pmm_initialized s then Some (s, 0)
      else do { (rs, page) \<leftarrow> try_regions (\<lambda>r. rg_zone r = z) (pmm_regions s);
                if page \<noteq> 0 then Some (s\<lparr>pmm_regions := rs\<rparr>, page)
                else do { (rs, page) \<leftarrow> try_regions (\<lambda>_. True) rs;
                          Some (s\<lparr>pmm_regions := rs\<rparr>, page) } })"

definition pmm_alloc_page :: "pmm \<Rightarrow> (pmm \<times> u32) option" where
  "pmm_alloc_page s = pmm_alloc_page_zone PMM_ZONE_NORMAL s"

text \<open>
  The search for \<open>count\<close> consecutive free pages: \<open>consecutive\<close> pages ending just before the
  current one are free, the first of them is \<open>start_page\<close>.
\<close>

fun find_run :: "u64 list \<Rightarrow> nat \<Rightarrow> nat list \<Rightarrow> nat \<Rightarrow> nat \<Rightarrow> nat option option" where
  "find_run bm count [] consecutive start_page = Some None"
| "find_run bm count (i # is) consecutive start_page =
     do { used \<leftarrow> test_bit_64 bm i;
          if \<not> used then
            let start_page = (if consecutive = 0 then i else start_page);
                consecutive = Suc consecutive
            in if consecutive = count then Some (Some start_page)
               else find_run bm count is consecutive start_page
          else find_run bm count is 0 start_page }"

fun alloc_run :: "nat \<Rightarrow> pmm_zone \<Rightarrow> pmm_region list \<Rightarrow> (pmm_region list \<times> u32) option" where
  "alloc_run count z [] = Some ([], 0)"
| "alloc_run count z (r # rs) =
     (if rg_zone r \<noteq> z then do { (rs', page) \<leftarrow> alloc_run count z rs; Some (r # rs', page) }
      else
        do { run \<leftarrow> find_run (rg_bitmap r) count [0..<unat (rg_pages r)] 0 0;
             case run of
               Some start_page \<Rightarrow>
                 do { bm \<leftarrow> for_each (\<lambda>j bm. set_bit_64 bm j) [start_page..<start_page + count]
                              (rg_bitmap r);
                      Some (r\<lparr>rg_bitmap := bm\<rparr> # rs,
                            rg_base r + of_nat start_page * PMM_PAGE_SIZE) }
             | None \<Rightarrow> do { (rs', page) \<leftarrow> alloc_run count z rs; Some (r # rs', page) } })"

definition pmm_alloc_pages_zone :: "u32 \<Rightarrow> pmm_zone \<Rightarrow> pmm \<Rightarrow> (pmm \<times> u32) option" where
  "pmm_alloc_pages_zone count z s =
     (if \<not> pmm_initialized s \<or> count = 0 then Some (s, 0)
      else do { (rs, page) \<leftarrow> alloc_run (unat count) z (pmm_regions s);
                Some (s\<lparr>pmm_regions := rs\<rparr>, page) })"


section \<open>Release\<close>

definition pmm_free_pages :: "u32 \<Rightarrow> u32 \<Rightarrow> pmm \<Rightarrow> (pmm \<times> int) option" where
  "pmm_free_pages addr count s =
     (if \<not> pmm_initialized s \<or> addr = 0 \<or> count = 0 then Some (s, -1)
      else if \<not> pmm_is_page_aligned addr then Some (s, -1)
      else case find_region_for_addr (pmm_regions s) addr of
        None \<Rightarrow> Some (s, -1)
      | Some k \<Rightarrow>
          let r = pmm_regions s ! k;
              start_page = (addr - rg_base r) div PMM_PAGE_SIZE
          in if start_page + count > rg_pages r then Some (s, -1)
             else
               do { allocated \<leftarrow> for_all (\<lambda>i. test_bit_64 (rg_bitmap r) (unat (start_page + of_nat i)))
                                   [0..<unat count];
                    if \<not> allocated then Some (s, -1)
                    else
                      do { bm \<leftarrow> for_each (\<lambda>i bm. clear_bit_64 bm (unat (start_page + of_nat i)))
                                   [0..<unat count] (rg_bitmap r);
                           let r = r\<lparr>rg_bitmap := bm\<rparr>;
                               r = (if start_page < rg_last_alloc r
                                    then r\<lparr>rg_last_alloc := start_page\<rparr> else r)
                           in Some (s\<lparr>pmm_regions := (pmm_regions s)[k := r]\<rparr>, 0) } })"


section \<open>Queries\<close>

definition pmm_is_page_allocated :: "u32 \<Rightarrow> pmm \<Rightarrow> bool option" where
  "pmm_is_page_allocated addr s =
     (if \<not> pmm_initialized s \<or> addr = 0 then Some False
      else case find_region_for_addr (pmm_regions s) addr of
        None \<Rightarrow> Some False
      | Some k \<Rightarrow>
          let r = pmm_regions s ! k
          in test_bit_64 (rg_bitmap r) (unat ((addr - rg_base r) div PMM_PAGE_SIZE)))"

record pmm_stats =
  total_pages :: u32
  free_pages :: u32
  allocated_pages :: u32
  reserved_pages :: u32
  zones_pages :: "pmm_zone \<Rightarrow> u32"
  zones_free :: "pmm_zone \<Rightarrow> u32"

definition stats_zero :: pmm_stats where
  "stats_zero = \<lparr>total_pages = 0, free_pages = 0, allocated_pages = 0, reserved_pages = 0,
                 zones_pages = (\<lambda>_. 0), zones_free = (\<lambda>_. 0)\<rparr>"

definition stats_add_region :: "pmm_region \<Rightarrow> pmm_stats \<Rightarrow> pmm_stats option" where
  "stats_add_region r st =
     do { n \<leftarrow> for_count (test_bit_64 (rg_bitmap r)) [0..<unat (rg_pages r)];
          let allocated = of_nat n; free = rg_pages r - allocated
          in Some (st\<lparr>total_pages := total_pages st + rg_pages r,
                     zones_pages := (zones_pages st)
                       (rg_zone r := zones_pages st (rg_zone r) + rg_pages r),
                     allocated_pages := allocated_pages st + allocated,
                     free_pages := free_pages st + free,
                     zones_free := (zones_free st)
                       (rg_zone r := zones_free st (rg_zone r) + free)\<rparr>) }"

definition pmm_get_stats :: "pmm \<Rightarrow> pmm_stats option" where
  "pmm_get_stats s =
     (if \<not> pmm_initialized s then Some stats_zero
      else for_each stats_add_region (pmm_regions s) stats_zero)"

section \<open>The bitmap operations are a bitmap\<close>

lemma test_bit_64_eq:
  "b < 64 * length bm \<Longrightarrow> test_bit_64 bm b = Some (bit (bm ! (b div 64)) (b mod 64))"
  by (simp add: test_bit_64_def rd_def less_mult_imp_div_less mult.commute
      bit_iff_and_drop_bit_eq_1 and_one_eq odd_iff_mod_2_eq_one)

lemma div64_less: "b < 64 * n \<Longrightarrow> b div 64 < (n::nat)"
  by (simp add: less_mult_imp_div_less mult.commute)

lemma set_bit_64_eq:
  "b < 64 * length bm \<Longrightarrow>
   set_bit_64 bm b = Some (bm[b div 64 := bm ! (b div 64) OR push_bit (b mod 64) 1])"
  by (simp add: set_bit_64_def access_simps div64_less)

lemma clear_bit_64_eq:
  "b < 64 * length bm \<Longrightarrow>
   clear_bit_64 bm b = Some (bm[b div 64 := bm ! (b div 64) AND NOT (push_bit (b mod 64) 1)])"
  by (simp add: clear_bit_64_def access_simps div64_less)

lemma same_bit: "j div 64 = i div 64 \<Longrightarrow> j mod 64 = i mod 64 \<longleftrightarrow> j = (i::nat)"
  by (metis div_mult_mod_eq)

interpretation bm: bitmap test_bit_64 set_bit_64 clear_bit_64 "\<lambda>bm. 64 * length bm"
proof unfold_locales
  fix i :: nat and b b' :: "u64 list" and j :: nat
  show "i < 64 * length b \<Longrightarrow> test_bit_64 b i \<noteq> None" by (simp add: test_bit_64_eq)
  show "i < 64 * length b \<Longrightarrow> set_bit_64 b i \<noteq> None" by (simp add: set_bit_64_eq)
  show "i < 64 * length b \<Longrightarrow> clear_bit_64 b i \<noteq> None" by (simp add: clear_bit_64_eq)
  show "set_bit_64 b i = Some b' \<Longrightarrow> 64 * length b' = 64 * length b"
    by (auto simp: set_bit_64_def rd_def wr_def split: if_splits)
  show "clear_bit_64 b i = Some b' \<Longrightarrow> 64 * length b' = 64 * length b"
    by (auto simp: clear_bit_64_def rd_def wr_def split: if_splits)
  show "set_bit_64 b i = Some b' \<Longrightarrow> j < 64 * length b \<Longrightarrow>
      test_bit_64 b' j = (if j = i then Some True else test_bit_64 b j)"
    by (auto simp: set_bit_64_def rd_def wr_def test_bit_64_eq nth_list_update bit_simps
        div64_less same_bit split: if_splits)
  show "clear_bit_64 b i = Some b' \<Longrightarrow> j < 64 * length b \<Longrightarrow>
      test_bit_64 b' j = (if j = i then Some False else test_bit_64 b j)"
    by (auto simp: clear_bit_64_def rd_def wr_def test_bit_64_eq nth_list_update bit_simps
        div64_less same_bit split: if_splits)
  assume len: "64 * length b = 64 * length b'"
    and bits: "\<forall>j < 64 * length b. test_bit_64 b j = test_bit_64 b' j"
  show "b = b'"
  proof (rule nth_equalityI)
    show "length b = length b'" using len by simp
    fix k
    assume k: "k < length b"
    show "b ! k = b' ! k"
    proof (rule bit_word_eqI)
      fix n
      assume n: "n < LENGTH(64)"
      with k have "64 * k + n < 64 * length b" by simp
      moreover from n have "(64 * k + n) div 64 = k" "(64 * k + n) mod 64 = n" by simp_all
      ultimately show "bit (b ! k) n = bit (b' ! k) n"
        using bits [rule_format, of "64 * k + n"] len by (simp add: test_bit_64_eq)
    qed
  qed
qed

section \<open>The region invariant\<close>

definition region_wf :: "pmm_region \<Rightarrow> bool" where
  "region_wf r \<longleftrightarrow>
     length (rg_bitmap r) = unat (rg_bitmap_size r) \<and>
     rg_bitmap_size r = (rg_pages r + 63) div 64 \<and>
     0 < rg_pages r \<and> unat (rg_pages r) < 2 ^ 20 \<and>
     rg_last_alloc r < rg_pages r \<and>
     pmm_is_page_aligned (rg_base r)"

definition pmm_wf :: "pmm \<Rightarrow> bool" where
  "pmm_wf s \<longleftrightarrow> (\<forall>r \<in> set (pmm_regions s). region_wf r)"

lemma page_mask: "(4095 :: u32) = mask 12"
  by (simp add: mask_eq_exp_minus_1)

lemma aligned_iff: "pmm_is_page_aligned a \<longleftrightarrow> 4096 dvd unat a"
  using and_mask_zero_iff [of a 12]
  by (simp only: pmm_is_page_aligned_def page_mask [symmetric]) simp

lemma unat_page_align_down: "unat (pmm_page_align_down a) = unat a - unat a mod 4096"
  using unat_align_down [of a 12]
  by (simp only: pmm_page_align_down_def page_mask [symmetric]) simp

lemma aligned_align_down [simp]: "pmm_is_page_aligned (pmm_page_align_down a)"
  using align_down_dvd [of 12 a]
  by (simp only: aligned_iff pmm_page_align_down_def page_mask [symmetric]) simp

lemma align_up_down: "pmm_page_align_up a = pmm_page_align_down (a + 4095)"
  by (simp add: pmm_page_align_up_def pmm_page_align_down_def add.commute)

lemma aligned_align_up [simp]: "pmm_is_page_aligned (pmm_page_align_up a)"
  by (simp add: align_up_down)

lemma bitmap_words:
  "region_wf r \<Longrightarrow> length (rg_bitmap r) = (unat (rg_pages r) + 63) div 64"
  by (auto simp: region_wf_def unat_word_ariths)

lemma pages_in_bitmap:
  assumes "region_wf r" and "i < unat (rg_pages r)"
  shows "i < 64 * length (rg_bitmap r)"
proof -
  have "n \<le> 64 * ((n + 63) div 64)" for n :: nat by presburger
  from this [of "unat (rg_pages r)"] assms show ?thesis by (simp add: bitmap_words)
qed

lemma pages_le_bitmap: "region_wf r \<Longrightarrow> unat (rg_pages r) \<le> 64 * length (rg_bitmap r)"
  using pages_in_bitmap [of r "unat (rg_pages r) - 1"]
  by (simp add: region_wf_def word_gt_0 unat_gt_0)

lemma words_bound:
  "region_wf r \<Longrightarrow> w < unat (rg_bitmap_size r) \<Longrightarrow> w < 2 ^ 14"
  by (auto simp: region_wf_def unat_word_ariths)

lemma page_number:
  assumes "w < 2 ^ 14" and "b < 64"
  shows "unat (of_nat w * 64 + of_nat b :: u32) = 64 * w + b"
proof -
  have "(of_nat w * 64 + of_nat b :: u32) = of_nat (64 * w + b)"
    by (simp add: mult.commute)
  moreover from assms have "64 * w + b < 2 ^ 32" by simp
  ultimately show ?thesis by (simp only: unat_of_nat) simp
qed

lemma region_wf_bitmap:
  "region_wf r \<Longrightarrow> length bm = length (rg_bitmap r) \<Longrightarrow> region_wf (r\<lparr>rg_bitmap := bm\<rparr>)"
  by (simp add: region_wf_def)

lemma region_wf_last:
  "region_wf r \<Longrightarrow> p < rg_pages r \<Longrightarrow> region_wf (r\<lparr>rg_last_alloc := p\<rparr>)"
  by (simp add: region_wf_def)

lemma find_region_Some:
  "find_region_for_addr rs a = Some k \<Longrightarrow>
   k < length rs \<and> rg_base (rs ! k) \<le> a \<and> a < rg_base (rs ! k) + rg_pages (rs ! k) * PMM_PAGE_SIZE"
  by (induction rs arbitrary: k) (auto split: if_splits)

lemma pmm_wf_update:
  "pmm_wf s \<Longrightarrow> region_wf r \<Longrightarrow> pmm_wf (s\<lparr>pmm_regions := (pmm_regions s)[k := r]\<rparr>)"
  unfolding pmm_wf_def by (auto dest: set_update_subset_insert [THEN subsetD])

lemma pmm_wf_nth: "pmm_wf s \<Longrightarrow> k < length (pmm_regions s) \<Longrightarrow> region_wf (pmm_regions s ! k)"
  by (simp add: pmm_wf_def)

lemma pmm_init_wf [inv_intros]: "pmm_wf s \<Longrightarrow> pmm_wf (fst (pmm_init s))"
  by (simp add: pmm_init_def pmm_wf_def)

lemma pmm_add_region_wf [inv_intros]:
  assumes "pmm_wf s"
  shows "pmm_wf (fst (pmm_add_region mok cok base sz z s))"
proof -
  have "unat (x div PMM_PAGE_SIZE :: u32) < 2 ^ 20" for x
  proof -
    have "unat x < 2 ^ 32" by (rule order_less_le_trans [OF unsigned_less]) simp
    then show ?thesis by simp
  qed
  with assms show ?thesis
    by (auto simp: pmm_add_region_def pmm_wf_def region_wf_def Let_def word_gt_0)
qed

section \<open>Scanning for one page\<close>








section \<open>Scanning for a run of pages\<close>

text \<open>The pages \<open>t, \<dots>, t + count - 1\<close> of a bitmap are free.\<close>

definition free_run :: "u64 list \<Rightarrow> nat \<Rightarrow> nat \<Rightarrow> bool" where
  "free_run bm count t \<longleftrightarrow> (\<forall>i \<in> {t..<t + count}. test_bit_64 bm i = Some False)"

lemma find_run_spec:
  assumes "n \<le> 64 * length bm" and "c < count" and "c \<le> k" and "k \<le> n"
    and "c > 0 \<longrightarrow> st = k - c"
    and "\<forall>i \<in> {k - c..<k}. test_bit_64 bm i = Some False"
    and "c < k \<longrightarrow> test_bit_64 bm (k - c - 1) = Some True"
    and "\<forall>t. t + count \<le> k \<longrightarrow> \<not> free_run bm count t"
  shows "(\<exists>t. find_run bm count [k..<n] c st = Some (Some t) \<and> t + count \<le> n \<and> free_run bm count t) \<or>
    (find_run bm count [k..<n] c st = Some None \<and> (\<forall>t. t + count \<le> n \<longrightarrow> \<not> free_run bm count t))"
  using assms
proof (induction "n - k" arbitrary: k c st)
  case 0
  then show ?case by simp
next
  case (Suc m)
  then have kn: "k < n" and m: "m = n - Suc k" by simp_all
  then have upt: "[k..<n] = k # [Suc k..<n]" by (simp add: upt_conv_Cons)
  from kn Suc.prems(1) obtain b where b: "test_bit_64 bm k = Some b"
    by (simp add: test_bit_64_eq)
  show ?case
  proof (cases b)
    case True
    have new: "\<not> free_run bm count t" if "t + count \<le> Suc k" for t
    proof (cases "t + count \<le> k")
      case True
      with Suc.prems(8) show ?thesis by simp
    next
      case False
      with that Suc.prems(2) have "k \<in> {t..<t + count}" by auto
      with b \<open>b\<close> show ?thesis unfolding free_run_def by force
    qed
    have "find_run bm count [k..<n] c st = find_run bm count [Suc k..<n] 0 st"
      using b True upt by simp
    with Suc.hyps(1) [OF m, of 0 st] Suc.prems(1,2) kn b True new show ?thesis
      by auto
  next
    case False
    let ?st = "if c = 0 then k else st"
    have st: "?st = k - c" using Suc.prems(5) by auto
    have frees: "\<forall>i \<in> {k - c..<Suc k}. test_bit_64 bm i = Some False"
      using Suc.prems(3,6) b False by (auto simp: less_Suc_eq)
    show ?thesis
    proof (cases "Suc c = count")
      case True
      then have "find_run bm count [k..<n] c st = Some (Some (k - c))"
        using b False upt st by simp
      moreover have "k - c + count = Suc k" using True Suc.prems(3) by simp
      ultimately show ?thesis
        using frees kn by (auto simp: free_run_def)
    next
      case ne: False
      have eq: "find_run bm count [k..<n] c st = find_run bm count [Suc k..<n] (Suc c) (k - c)"
        using b False upt st ne by simp
      have new: "\<not> free_run bm count t" if "t + count \<le> Suc k" for t
      proof (cases "t + count \<le> k")
        case True
        with Suc.prems(8) show ?thesis by simp
      next
        case False
        with that ne Suc.prems(2,3) have "k - c - 1 \<in> {t..<t + count}" "c < k" by auto
        with Suc.prems(7) show ?thesis by (force simp: free_run_def)
      qed
      show ?thesis
        unfolding eq
        using Suc.hyps(1) [OF m, of "Suc c" "k - c"] Suc.prems(1,2,3,7) kn frees new ne
        by auto
    qed
  qed
qed

lemma find_run_pages:
  assumes "region_wf r" and "0 < count"
  shows "(\<exists>t. find_run (rg_bitmap r) count [0..<unat (rg_pages r)] 0 0 = Some (Some t) \<and>
       t + count \<le> unat (rg_pages r) \<and> free_run (rg_bitmap r) count t) \<or>
    (find_run (rg_bitmap r) count [0..<unat (rg_pages r)] 0 0 = Some None \<and>
       (\<forall>t. t + count \<le> unat (rg_pages r) \<longrightarrow> \<not> free_run (rg_bitmap r) count t))"
  by (rule find_run_spec) (use assms pages_le_bitmap in auto)

text \<open>\<open>bm'\<close> is \<open>bm\<close> with the pages \<open>t, \<dots>, t + count - 1\<close> in use.\<close>

definition run_marked :: "u64 list \<Rightarrow> nat \<Rightarrow> nat \<Rightarrow> u64 list \<Rightarrow> bool" where
  "run_marked bm count t bm' \<longleftrightarrow>
     length bm' = length bm \<and>
     (\<forall>j < 64 * length bm. test_bit_64 bm' j =
        (if j \<in> {t..<t + count} then Some True else test_bit_64 bm j))"

lemma set_run:
  assumes "t + count \<le> 64 * length bm"
  shows "\<exists>bm'. for_each (\<lambda>j bm. set_bit_64 bm j) [t..<t + count] bm = Some bm' \<and>
    run_marked bm count t bm'"
proof -
  from assms have "set [t..<t + count] \<subseteq> {..<64 * length bm}" by auto
  from bm.set_all [OF this] show ?thesis
    unfolding run_marked_def by simp
qed

lemma alloc_run_spec:
  assumes "\<forall>r \<in> set rs. region_wf r" and "0 < count"
  shows "(\<exists>k t bm. k < length rs \<and> rg_zone (rs ! k) = z \<and>
       t + count \<le> unat (rg_pages (rs ! k)) \<and> free_run (rg_bitmap (rs ! k)) count t \<and>
       for_each (\<lambda>j bm. set_bit_64 bm j) [t..<t + count] (rg_bitmap (rs ! k)) = Some bm \<and>
       run_marked (rg_bitmap (rs ! k)) count t bm \<and>
       alloc_run count z rs = Some (rs[k := (rs ! k)\<lparr>rg_bitmap := bm\<rparr>],
         rg_base (rs ! k) + of_nat t * PMM_PAGE_SIZE)) \<or>
    (alloc_run count z rs = Some (rs, 0) \<and>
       (\<forall>r \<in> set rs. rg_zone r = z \<longrightarrow>
          (\<forall>t. t + count \<le> unat (rg_pages r) \<longrightarrow> \<not> free_run (rg_bitmap r) count t)))"
  (is "(\<exists>k t bm. ?found rs k t bm) \<or> ?none rs")
  using assms(1)
proof (induction rs)
  case Nil
  then show ?case by simp
next
  case (Cons r rs)
  then have IH: "(\<exists>k t bm. ?found rs k t bm) \<or> ?none rs" and r: "region_wf r" by auto
  have later: ?case if eq: "\<And>rs' a. alloc_run count z rs = Some (rs', a) \<Longrightarrow>
      alloc_run count z (r # rs) = Some (r # rs', a)"
    and full: "rg_zone r = z \<longrightarrow>
      (\<forall>t. t + count \<le> unat (rg_pages r) \<longrightarrow> \<not> free_run (rg_bitmap r) count t)"
    using IH
  proof
    assume "\<exists>k t bm. ?found rs k t bm"
    then obtain k t bm where "?found rs k t bm" by blast
    with eq have "?found (r # rs) (Suc k) t bm" by simp
    then show ?case by blast
  next
    assume "?none rs"
    with eq full have "?none (r # rs)" by simp
    then show ?case by blast
  qed
  show ?case
  proof (cases "rg_zone r = z")
    case False
    then show ?thesis by (intro later) simp_all
  next
    case True
    from find_run_pages [OF r assms(2)] show ?thesis
    proof
      assume "\<exists>t. find_run (rg_bitmap r) count [0..<unat (rg_pages r)] 0 0 = Some (Some t) \<and>
        t + count \<le> unat (rg_pages r) \<and> free_run (rg_bitmap r) count t"
      then obtain t where t: "find_run (rg_bitmap r) count [0..<unat (rg_pages r)] 0 0 = Some (Some t)"
        "t + count \<le> unat (rg_pages r)" "free_run (rg_bitmap r) count t" by blast
      with pages_le_bitmap [OF r] have "t + count \<le> 64 * length (rg_bitmap r)" by simp
      from set_run [OF this] obtain bm where
        "for_each (\<lambda>j bm. set_bit_64 bm j) [t..<t + count] (rg_bitmap r) = Some bm"
        "run_marked (rg_bitmap r) count t bm" by blast
      with t True have "?found (r # rs) 0 t bm" by simp
      then show ?thesis by blast
    qed (rule later, use True in simp_all)
  qed
qed


section \<open>Releasing pages\<close>

lemma in_region:
  assumes "region_wf r" and "rg_base r \<le> a" and "a < rg_base r + rg_pages r * PMM_PAGE_SIZE"
  shows "unat a < unat (rg_base r) + unat (rg_pages r) * 4096"
    and "unat (a - rg_base r) = unat a - unat (rg_base r)"
    and "(a - rg_base r) div PMM_PAGE_SIZE < rg_pages r"
proof -
  have pages: "unat (rg_pages r) * 4096 < 2 ^ 32" using assms(1) by (simp add: region_wf_def)
  show diff: "unat (a - rg_base r) = unat a - unat (rg_base r)"
    using assms(2) by (simp add: unat_sub word_le_nat_alt)
  have "unat a < (unat (rg_base r) + unat (rg_pages r) * 4096) mod 2 ^ 32"
    using assms(3) pages by (simp add: word_less_nat_alt unat_word_ariths)
  then show lt: "unat a < unat (rg_base r) + unat (rg_pages r) * 4096"
    by (meson less_le_trans mod_less_eq_dividend)
  from lt assms(2) have "(unat a - unat (rg_base r)) div 4096 < unat (rg_pages r)"
    by (simp add: less_mult_imp_div_less word_le_nat_alt)
  with diff show "(a - rg_base r) div PMM_PAGE_SIZE < rg_pages r"
    by (simp add: word_less_nat_alt)
qed

lemma index_shift:
  fixes start count :: u32
  assumes "unat start + unat count < 2 ^ 32"
  shows "map (\<lambda>i. unat (start + of_nat i)) [0..<unat count] = [unat start..<unat start + unat count]"
proof -
  have "unat (start + of_nat i) = i + unat start" if "i < unat count" for i
  proof -
    have "unat (of_nat i :: u32) = i"
      using that u32_lt [of count] by (simp add: unat_of_nat)
    then show ?thesis using that assms by (simp add: unat_word_ariths)
  qed
  then have "map (\<lambda>i. unat (start + of_nat i)) [0..<unat count] = map (\<lambda>i. i + unat start) [0..<unat count]"
    by simp
  then show ?thesis by (simp add: map_add_upt add.commute)
qed

lemma free_range_fits:
  fixes start count pages :: u32
  assumes "start < pages" and "unat pages < 2 ^ 20" and "unat count < 2 ^ 31"
    and "\<not> start + count > pages"
  shows "unat start + unat count \<le> unat pages"
  using assms by (simp add: word_less_nat_alt unat_word_ariths)

text \<open>
  The two loops of \<open>pmm_free_pages\<close> once its guards are passed, over the page numbers
  they visit.
\<close>

lemma pmm_free_pages_found:
  assumes "pmm_wf s" and "pmm_initialized s" and "a \<noteq> 0" and "count \<noteq> 0" and "pmm_is_page_aligned a"
    and "find_region_for_addr (pmm_regions s) a = Some k"
    and "r = pmm_regions s ! k" and "start = (a - rg_base r) div PMM_PAGE_SIZE"
    and "unat start + unat count \<le> unat (rg_pages r)"
  shows "pmm_free_pages a count s =
    (if \<forall>i \<in> {unat start..<unat start + unat count}. test_bit_64 (rg_bitmap r) i = Some True then
       do { bm \<leftarrow> for_each (\<lambda>i bm. clear_bit_64 bm i) [unat start..<unat start + unat count] (rg_bitmap r);
            Some (s\<lparr>pmm_regions := (pmm_regions s)
              [k := r\<lparr>rg_bitmap := bm, rg_last_alloc := min start (rg_last_alloc r)\<rparr>]\<rparr>, 0) }
     else Some (s, -1))"
proof -
  from find_region_Some [OF assms(6)] assms(1,7) have r: "region_wf r"
    by (auto simp: pmm_wf_nth)
  have lt: "unat start + unat count < 2 ^ 32"
    using assms(9) u32_lt [of "rg_pages r"] by simp
  have "unat (start + count) = unat start + unat count"
    using lt by (simp add: unat_word_ariths)
  with assms(9) have guard: "\<not> start + count > rg_pages r"
    by (simp add: word_less_nat_alt)
  let ?idx = "[unat start..<unat start + unat count]"
  have all: "for_all (\<lambda>i. test_bit_64 (rg_bitmap r) (unat (start + of_nat i))) [0..<unat count] =
      for_all (test_bit_64 (rg_bitmap r)) ?idx"
    by (simp add: index_shift [OF lt, symmetric] for_all_map)
  have each: "for_each (\<lambda>i bm. clear_bit_64 bm (unat (start + of_nat i))) [0..<unat count] bm =
      for_each (\<lambda>i bm. clear_bit_64 bm i) ?idx bm" for bm
    by (simp add: index_shift [OF lt, symmetric] for_each_map)
  have "\<forall>i \<in> set ?idx. test_bit_64 (rg_bitmap r) i = Some (test_bit_64 (rg_bitmap r) i = Some True)"
    using assms(9) pages_in_bitmap [OF r] by (auto simp: test_bit_64_eq)
  from for_all_total [OF this] have
    "for_all (test_bit_64 (rg_bitmap r)) ?idx = Some (\<forall>i \<in> set ?idx. test_bit_64 (rg_bitmap r) i = Some True)" .
  then show ?thesis
    using assms(2-6) guard
    by (simp add: pmm_free_pages_def Let_def assms(7,8) [symmetric] all each min_def not_less
        cong: if_cong) (auto split: bind_splits)
qed

lemma pmm_free_pages_wf [inv_intros]:
  assumes "pmm_wf s" and "unat count < 2 ^ 31"
  shows "\<exists>s' e. pmm_free_pages a count s = Some (s', e) \<and> pmm_wf s'"
proof (cases "pmm_initialized s \<and> a \<noteq> 0 \<and> count \<noteq> 0 \<and> pmm_is_page_aligned a")
  case False
  with assms show ?thesis by (auto simp: pmm_free_pages_def)
next
  case True
  show ?thesis
  proof (cases "find_region_for_addr (pmm_regions s) a")
    case None
    with True assms show ?thesis by (simp add: pmm_free_pages_def)
  next
    case (Some k)
    define r where "r = pmm_regions s ! k"
    define start where "start = (a - rg_base r) div PMM_PAGE_SIZE"
    from find_region_Some [OF Some] have k: "k < length (pmm_regions s)" by simp
    with assms(1) have r: "region_wf r" by (simp add: r_def pmm_wf_nth)
    from in_region(3) [OF r] find_region_Some [OF Some] have start: "start < rg_pages r"
      by (simp add: r_def start_def)
    show ?thesis
    proof (cases "start + count > rg_pages r")
      case True
      with Some assms(1) show ?thesis
        by (auto simp: pmm_free_pages_def Let_def r_def start_def)
    next
      case False
      from r have "unat (rg_pages r) < 2 ^ 20" by (simp add: region_wf_def)
      from free_range_fits [OF start this assms(2) False]
      have fits: "unat start + unat count \<le> unat (rg_pages r)" .
      then have "set [unat start..<unat start + unat count] \<subseteq> {..<64 * length (rg_bitmap r)}"
        using pages_le_bitmap [OF r] by auto
      from bm.clear_all [OF this] obtain bm where
        bm: "for_each (\<lambda>i bm. clear_bit_64 bm i) [unat start..<unat start + unat count] (rg_bitmap r) = Some bm"
        "length bm = length (rg_bitmap r)" by auto
      have "min start (rg_last_alloc r) < rg_pages r"
        using start by (simp add: min_less_iff_disj)
      from region_wf_last [OF region_wf_bitmap [OF r bm(2)]] this
      have "region_wf (r\<lparr>rg_bitmap := bm, rg_last_alloc := min start (rg_last_alloc r)\<rparr>)" by simp
      with assms(1) pmm_free_pages_found [OF assms(1) _ _ _ _ Some r_def start_def fits] True bm(1)
      show ?thesis by (auto intro: pmm_wf_update)
    qed
  qed
qed



section \<open>Runs of the memory manager\<close>




definition pmm_boot :: pmm where
  "pmm_boot = \<lparr>pmm_regions = [], pmm_initialized = False\<rparr>"



section \<open>Leading zeros\<close>

text \<open>
  One halving step of \<open>clz64\<close>: if the top \<open>k\<close> bits are clear they are counted and shifted
  out.  \<open>clz_inv v n x\<close>: \<open>x\<close> is the value \<open>v\<close> shifted left by \<open>n\<close> with no bit lost.
\<close>

definition clz_inv :: "nat \<Rightarrow> nat \<Rightarrow> nat \<Rightarrow> u64 \<Rightarrow> bool" where
  "clz_inv v h n x \<longleftrightarrow> unat x = v * 2 ^ n \<and> 2 ^ (64 - h) \<le> unat x"

lemma u64_lt: "unat (x :: u64) < 2 ^ 64"
  by (rule order_less_le_trans [OF unsigned_less]) simp

lemma clz_shift:
  fixes x :: u64
  assumes "unat x = v * 2 ^ n" and "unat x < 2 ^ (64 - k)" and "k \<le> 64"
  shows "unat (push_bit k x) = v * 2 ^ (n + k)"
proof -
  from assms(2) have "unat x * 2 ^ k < 2 ^ (64 - k) * 2 ^ k" by simp
  also have "\<dots> = (2::nat) ^ 64" using assms(3) by (simp flip: power_add)
  finally have "unat x * 2 ^ k < 2 ^ 64" .
  moreover have "unat (push_bit k x) = take_bit 64 (push_bit k (unat x))"
    by (simp only: unsigned_push_bit_eq) simp
  ultimately have "unat (push_bit k x) = unat x * 2 ^ k"
    by (simp only: take_bit_eq_mod push_bit_eq_mult mod_less)
  then show ?thesis
    using assms(1) by (simp add: power_add)
qed

lemma clz_step:
  fixes x m :: u64
  assumes "clz_inv v (2 * k) n x" and "unat m = 2 ^ (64 - k) - 1" and "2 * k \<le> 64"
  shows "case (if x \<le> m then (n + k, push_bit k x) else (n, x)) of (n', x') \<Rightarrow> clz_inv v k n' x'"
proof (cases "x \<le> m")
  case True
  have "(0::nat) < 2 ^ (64 - k)" by simp
  with True assms(2) have lt: "unat x < 2 ^ (64 - k)"
    unfolding word_le_nat_alt by linarith
  have shift: "unat (push_bit k x) = v * 2 ^ (n + k)"
    using assms by (intro clz_shift [OF _ lt]) (simp_all add: clz_inv_def)
  have "(2::nat) ^ (64 - 2 * k) * 2 ^ k \<le> unat x * 2 ^ k"
    using assms(1) by (simp add: clz_inv_def)
  moreover have "(2::nat) ^ (64 - 2 * k) * 2 ^ k = 2 ^ (64 - k)"
    using assms(3) by (simp flip: power_add)
  moreover have "unat x * 2 ^ k = v * 2 ^ (n + k)"
    using assms(1) by (simp add: clz_inv_def power_add)
  ultimately show ?thesis using True shift by (simp add: clz_inv_def)
next
  case False
  then have "2 ^ (64 - k) \<le> unat x"
    using assms(2) unfolding word_le_nat_alt by linarith
  with False assms(1) show ?thesis by (simp add: clz_inv_def)
qed

lemma clz64_spec_aux:
  assumes "x \<noteq> 0"
  shows "2 ^ 63 \<le> unat x * 2 ^ clz64 x \<and> unat x * 2 ^ clz64 x < 2 ^ 64"
proof -
  from assms have "clz_inv (unat x) 64 0 x"
    by (simp add: clz_inv_def Suc_le_eq unat_gt_0)
  then have "clz_inv (unat x) (2 * 32) 0 x" by simp
  from clz_step [OF this, where m = "0x00000000FFFFFFFF"] obtain n1 x1 where
    1: "(if x \<le> 0x00000000FFFFFFFF then (0 + 32, push_bit 32 x) else (0, x)) = (n1, x1)"
    "clz_inv (unat x) (2 * 16) n1 x1"
    by (cases "x \<le> 0x00000000FFFFFFFF") simp_all
  from clz_step [OF 1(2), where m = "0x0000FFFFFFFFFFFF"] obtain n2 x2 where
    2: "(if x1 \<le> 0x0000FFFFFFFFFFFF then (n1 + 16, push_bit 16 x1) else (n1, x1)) = (n2, x2)"
    "clz_inv (unat x) (2 * 8) n2 x2"
    by (cases "x1 \<le> 0x0000FFFFFFFFFFFF") simp_all
  from clz_step [OF 2(2), where m = "0x00FFFFFFFFFFFFFF"] obtain n3 x3 where
    3: "(if x2 \<le> 0x00FFFFFFFFFFFFFF then (n2 + 8, push_bit 8 x2) else (n2, x2)) = (n3, x3)"
    "clz_inv (unat x) (2 * 4) n3 x3"
    by (cases "x2 \<le> 0x00FFFFFFFFFFFFFF") simp_all
  from clz_step [OF 3(2), where m = "0x0FFFFFFFFFFFFFFF"] obtain n4 x4 where
    4: "(if x3 \<le> 0x0FFFFFFFFFFFFFFF then (n3 + 4, push_bit 4 x3) else (n3, x3)) = (n4, x4)"
    "clz_inv (unat x) (2 * 2) n4 x4"
    by (cases "x3 \<le> 0x0FFFFFFFFFFFFFFF") simp_all
  from clz_step [OF 4(2), where m = "0x3FFFFFFFFFFFFFFF"] obtain n5 x5 where
    5: "(if x4 \<le> 0x3FFFFFFFFFFFFFFF then (n4 + 2, push_bit 2 x4) else (n4, x4)) = (n5, x5)"
    "clz_inv (unat x) (2 * 1) n5 x5"
    by (cases "x4 \<le> 0x3FFFFFFFFFFFFFFF") simp_all
  from clz_step [OF 5(2), where m = "0x7FFFFFFFFFFFFFFF"] obtain n6 x6 where
    6: "(if x5 \<le> 0x7FFFFFFFFFFFFFFF then (n5 + 1, push_bit 1 x5) else (n5, x5)) = (n6, x6)"
    "clz_inv (unat x) 1 n6 x6"
    by (cases "x5 \<le> 0x7FFFFFFFFFFFFFFF") simp_all
  have "clz64 x = n6"
    using assms 6(1) unfolding clz64_def Let_def
    by (simp only: if_False prod.case 1(1) 2(1) 3(1) 4(1) 5(1)) (auto split: if_splits)
  with 6(2) u64_lt [of x6] show ?thesis by (simp add: clz_inv_def)
qed

section \<open>Regions that do not overlap\<close>

definition region_end :: "pmm_region \<Rightarrow> nat" where
  "region_end r = unat (rg_base r) + unat (rg_pages r) * 4096"

definition regions_disjoint :: "pmm_region list \<Rightarrow> bool" where
  "regions_disjoint rs \<longleftrightarrow>
     (\<forall>r \<in> set rs. region_end r < 2 ^ 32 \<and> rg_base r \<noteq> 0) \<and>
     sorted_wrt (\<lambda>r r'. region_end r \<le> unat (rg_base r') \<or> region_end r' \<le> unat (rg_base r)) rs"

lemma region_test:
  assumes "region_end r < 2 ^ 32"
  shows "rg_base r \<le> a \<and> a < rg_base r + rg_pages r * PMM_PAGE_SIZE \<longleftrightarrow>
    unat (rg_base r) \<le> unat a \<and> unat a < region_end r"
proof -
  have "unat (rg_base r + rg_pages r * PMM_PAGE_SIZE) = region_end r"
    using assms by (simp add: region_end_def unat_word_ariths)
  then show ?thesis by (simp only: word_less_nat_alt word_le_nat_alt)
qed

lemma find_region_disjoint:
  assumes "regions_disjoint rs" and "k < length rs"
    and "unat (rg_base (rs ! k)) \<le> unat a" and "unat a < region_end (rs ! k)"
  shows "find_region_for_addr rs a = Some k"
  using assms
proof (induction rs arbitrary: k)
  case Nil
  then show ?case by simp
next
  case (Cons r rs)
  have r: "region_end r < 2 ^ 32" using Cons.prems(1) by (simp add: regions_disjoint_def)
  show ?case
  proof (cases k)
    case 0
    with region_test [OF r] Cons.prems show ?thesis by simp
  next
    case (Suc j)
    with Cons.prems have j: "rs ! j \<in> set rs" by simp
    with Cons.prems(1) have "region_end r \<le> unat (rg_base (rs ! j)) \<or> region_end (rs ! j) \<le> unat (rg_base r)"
      by (simp add: regions_disjoint_def)
    moreover have "unat (rg_base (rs ! j)) \<le> unat a" "unat a < region_end (rs ! j)"
      using Cons.prems(3,4) Suc by simp_all
    ultimately have "\<not> (unat (rg_base r) \<le> unat a \<and> unat a < region_end r)" by linarith
    with region_test [OF r]
    have "\<not> (rg_base r \<le> a \<and> a < rg_base r + rg_pages r * PMM_PAGE_SIZE)" by simp
    moreover from Suc Cons have "find_region_for_addr rs a = Some j"
      by (simp add: regions_disjoint_def)
    ultimately show ?thesis using Suc by simp
  qed
qed

lemma regions_disjoint_update:
  assumes "regions_disjoint rs" and "k < length rs"
    and "rg_base r = rg_base (rs ! k)" and "rg_pages r = rg_pages (rs ! k)"
  shows "regions_disjoint (rs[k := r])"
proof -
  have "region_end (rs[k := r] ! i) = region_end (rs ! i) \<and> rg_base (rs[k := r] ! i) = rg_base (rs ! i)"
    if "i < length rs" for i
    using assms(2-4) that by (cases "i = k") (simp_all add: region_end_def)
  with assms(1) show ?thesis
    by (simp add: regions_disjoint_def sorted_wrt_iff_nth_less all_set_conv_all_nth)
qed

lemma page_address:
  assumes "region_wf r" and "region_end r < 2 ^ 32" and "t < unat (rg_pages r)"
  defines "a \<equiv> rg_base r + of_nat t * PMM_PAGE_SIZE"
  shows "unat a = unat (rg_base r) + t * 4096" and "(a - rg_base r) div PMM_PAGE_SIZE = of_nat t"
    and "pmm_is_page_aligned a" and "unat (of_nat t :: u32) = t"
proof -
  from assms(1,3) have t: "t < 2 ^ 20" by (simp add: region_wf_def)
  then show ut: "unat (of_nat t :: u32) = t" by (simp add: unat_of_nat)
  have "t * 4096 < unat (rg_pages r) * 4096" using assms(3) by simp
  with assms(2) have "unat (rg_base r) + t * 4096 < 2 ^ 32" by (simp add: region_end_def)
  then show ua: "unat a = unat (rg_base r) + t * 4096"
    using t by (simp add: a_def unat_word_ariths unat_of_nat)
  have "unat (of_nat t * PMM_PAGE_SIZE :: u32) = t * 4096"
    using t by (simp add: unat_word_ariths unat_of_nat)
  then have "unat ((a - rg_base r) div PMM_PAGE_SIZE) = t"
    by (simp add: a_def)
  with ut show "(a - rg_base r) div PMM_PAGE_SIZE = of_nat t"
    by (simp add: word_unat_eq_iff)
  show "pmm_is_page_aligned a"
    using assms(1) ua by (simp add: aligned_iff region_wf_def)
qed

section \<open>Lemmas for the properties\<close>

lemma find_region_update:
  assumes "k < length rs" and "rg_base r = rg_base (rs ! k)" and "rg_pages r = rg_pages (rs ! k)"
  shows "find_region_for_addr (rs[k := r]) a = find_region_for_addr rs a"
  using assms
proof (induction rs arbitrary: k)
  case Nil
  then show ?case by simp
next
  case (Cons q qs)
  then show ?case by (cases k) simp_all
qed

text \<open>What a successful \<open>pmm_free_pages\<close> says of its state.\<close>

lemma pmm_free_pages_success:
  assumes "pmm_wf s" and "unat count < 2 ^ 31" and "pmm_free_pages a count s = Some (s', 0)"
  obtains k r start bm where "pmm_initialized s" "a \<noteq> 0" "count \<noteq> 0" "pmm_is_page_aligned a"
    "find_region_for_addr (pmm_regions s) a = Some k" "r = pmm_regions s ! k"
    "k < length (pmm_regions s)" "start = (a - rg_base r) div PMM_PAGE_SIZE"
    "unat start + unat count \<le> unat (rg_pages r)"
    "for_each (\<lambda>i bm. clear_bit_64 bm i) [unat start..<unat start + unat count] (rg_bitmap r) = Some bm"
    "s' = s\<lparr>pmm_regions := (pmm_regions s)
       [k := r\<lparr>rg_bitmap := bm, rg_last_alloc := min start (rg_last_alloc r)\<rparr>]\<rparr>"
proof -
  from assms(3) have g: "pmm_initialized s" "a \<noteq> 0" "count \<noteq> 0" "pmm_is_page_aligned a"
    by (auto simp: pmm_free_pages_def split: if_splits)
  from assms(3) g obtain k where k: "find_region_for_addr (pmm_regions s) a = Some k"
    by (auto simp: pmm_free_pages_def split: option.splits)
  define r where "r = pmm_regions s ! k"
  define start where "start = (a - rg_base r) div PMM_PAGE_SIZE"
  from find_region_Some [OF k] assms(1) have r: "region_wf r" and len: "k < length (pmm_regions s)"
    by (auto simp: r_def pmm_wf_nth)
  have "start < rg_pages r"
    using in_region(3) [OF r] find_region_Some [OF k] by (simp add: r_def start_def)
  moreover have "\<not> start + count > rg_pages r"
    using assms(3) g k by (auto simp: pmm_free_pages_def Let_def r_def start_def)
  moreover have "unat (rg_pages r) < 2 ^ 20" using r by (simp add: region_wf_def)
  ultimately have fits: "unat start + unat count \<le> unat (rg_pages r)"
    using assms(2) by (intro free_range_fits)
  from pmm_free_pages_found [OF assms(1) g k r_def start_def fits] assms(3)
  obtain bm where "for_each (\<lambda>i bm. clear_bit_64 bm i) [unat start..<unat start + unat count] (rg_bitmap r) = Some bm"
    "s' = s\<lparr>pmm_regions := (pmm_regions s)
       [k := r\<lparr>rg_bitmap := bm, rg_last_alloc := min start (rg_last_alloc r)\<rparr>]\<rparr>"
    by (auto split: if_splits bind_splits)
  with g k r_def len start_def fits show thesis by (rule that)
qed

lemma first_zero_top_clear:
  assumes "\<not> bit w 63"
  shows "find_first_zero_bit_64 w = 0"
proof -
  let ?x = "NOT w"
  have b: "bit ?x 63" using assms by (simp add: bit_simps)
  then have nz: "?x \<noteq> 0" by (metis bit_0_eq bot_apply bot_bool_def)
  have "bit (unat ?x) 63" using b by (simp only: bit_unsigned_iff) simp
  then have "odd (unat ?x div 2 ^ 63)" unfolding bit_iff_odd .
  then have "2 ^ 63 \<le> unat ?x" by (metis div_less even_zero not_le)
  then have "2 ^ 63 * 2 ^ clz64 ?x \<le> unat ?x * 2 ^ clz64 ?x" by simp
  with clz64_spec_aux [OF nz] have lt: "(2::nat) ^ 63 * 2 ^ clz64 ?x < 2 ^ 64" by linarith
  have "clz64 ?x < 1"
  proof (rule ccontr)
    assume "\<not> clz64 ?x < 1"
    then have "(2::nat) ^ 1 \<le> 2 ^ clz64 ?x" by (intro power_increasing) simp_all
    with lt show False by simp
  qed
  then show ?thesis by (simp add: find_first_zero_bit_64_def)
qed

text \<open>
  A region whose first bitmap word has its top bit clear hands out its first page, whether
  or not that page is in use, and stays such a region.
\<close>

definition first_word_open :: "pmm_region \<Rightarrow> bool" where
  "first_word_open r \<longleftrightarrow>
     region_wf r \<and> rg_base r \<noteq> 0 \<and> rg_last_alloc r < 64 \<and> \<not> bit (rg_bitmap r ! 0) 63"

lemma first_word_open_page:
  assumes "first_word_open r"
  shows "\<exists>r'. alloc_page_from_region r = Some (r', rg_base r) \<and> first_word_open r' \<and>
    rg_base r' = rg_base r \<and> rg_zone r' = rg_zone r"
proof -
  let ?w = "rg_bitmap r ! 0"
  from assms have r: "region_wf r" and b: "\<not> bit ?w 63" by (simp_all add: first_word_open_def)
  from r have pages: "0 < rg_pages r" and len: "length (rg_bitmap r) = unat (rg_bitmap_size r)"
    by (simp_all add: region_wf_def)
  have "0 < length (rg_bitmap r)" using bitmap_words [OF r] pages by (simp add: word_less_nat_alt)
  then have up: "[0..<unat (rg_bitmap_size r)] = 0 # [Suc 0..<unat (rg_bitmap_size r)]"
    and rd: "rd (rg_bitmap r) 0 = Some ?w"
    using len by (simp_all add: upt_conv_Cons rd_in)
  have start: "unat (rg_last_alloc r) div 64 = 0"
    using assms by (simp add: first_word_open_def word_less_nat_alt)
  have ne: "?w \<noteq> NOT 0"
  proof
    assume "?w = NOT 0"
    then have "bit ?w 63" by (simp only: bit_not_iff_eq) simp
    with b show False ..
  qed
  obtain bm where bm: "set_bit_64 (rg_bitmap r) 0 = Some bm"
    using bm.st_total [of 0 "rg_bitmap r"] \<open>0 < length (rg_bitmap r)\<close> by auto
  let ?r' = "r\<lparr>rg_bitmap := bm, rg_last_alloc := 0\<rparr>"
  have "scan_words r [0..<unat (rg_bitmap_size r)] = Some (Some (?r', rg_base r))"
    unfolding up using rd ne first_zero_top_clear [OF b] pages bm by (simp add: Let_def)
  then have "alloc_page_from_region r = Some (?r', rg_base r)"
    by (simp add: alloc_page_from_region_def start Let_def)
  moreover have "bm ! 0 = ?w OR 1"
    using bm \<open>0 < length (rg_bitmap r)\<close> by (auto simp: set_bit_64_eq)
  moreover have "length bm = length (rg_bitmap r)" using bm.st_cap [OF bm] by simp
  ultimately show ?thesis
    using assms pages by (auto simp: first_word_open_def bit_simps intro!: region_wf_last region_wf_bitmap)
qed

text \<open>
  The calls of \<open>main\<close> in \<open>sbin/init/init.c\<close>, with the outcomes of the two heap
  calls, and a run of \<open>n\<close> page allocations.
\<close>

definition pmm_kernel_boot :: "bool \<Rightarrow> bool \<Rightarrow> pmm option" where
  "pmm_kernel_boot mok cok =
     (let (s, _) = pmm_init pmm_boot;
          (s, _) = pmm_add_region mok cok 0x00100000 0x07F00000 PMM_ZONE_NORMAL s
      in map_option fst (pmm_reserve_range 0x00000000 0x00100000 s))"

fun alloc_n :: "nat \<Rightarrow> pmm \<Rightarrow> u32 list option" where
  "alloc_n 0 s = Some []"
| "alloc_n (Suc n) s = do { (s, a) \<leftarrow> pmm_alloc_page s; as \<leftarrow> alloc_n n s; Some (a # as) }"

lemma alloc_n_open:
  assumes "pmm_initialized s" and "pmm_regions s = [r]" and "first_word_open r"
    and "rg_zone r = PMM_ZONE_NORMAL"
  shows "alloc_n n s = Some (replicate n (rg_base r))"
  using assms
proof (induction n arbitrary: s r)
  case 0
  then show ?case by simp
next
  case (Suc n)
  from first_word_open_page [OF Suc.prems(3)] obtain r' where
    r': "alloc_page_from_region r = Some (r', rg_base r)" "first_word_open r'"
      "rg_base r' = rg_base r" "rg_zone r' = rg_zone r" by blast
  have "rg_base r \<noteq> 0" using Suc.prems(3) by (simp add: first_word_open_def)
  with r' Suc.prems have "pmm_alloc_page s = Some (s\<lparr>pmm_regions := [r']\<rparr>, rg_base r)"
    by (simp add: pmm_alloc_page_def pmm_alloc_page_zone_def)
  with Suc.IH [of "s\<lparr>pmm_regions := [r']\<rparr>" r'] Suc.prems r' show ?case by simp
qed

lemma page_range_lt:
  assumes "a \<in> set (page_range 0 e)"
  shows "a < e"
proof -
  from assms obtain i where i: "i < unat e div 4096" "a = of_nat i * PMM_PAGE_SIZE"
    by (auto simp: page_range_def)
  then have "i * 4096 < unat e" by (simp add: less_mult_imp_div_less)
  with i u32_lt [of e] show ?thesis
    by (simp add: word_less_nat_alt unat_word_ariths unat_of_nat)
qed

definition boot_region :: pmm_region where
  "boot_region = \<lparr>rg_base = 0x00100000, rg_pages = 0x7F00, rg_bitmap = replicate 508 0,
     rg_bitmap_size = 508, rg_last_alloc = 0, rg_zone = PMM_ZONE_NORMAL\<rparr>"

lemma pmm_kernel_boot_eq:
  "pmm_kernel_boot True True = Some \<lparr>pmm_regions = [boot_region], pmm_initialized = True\<rparr>"
proof -
  have add: "pmm_add_region True True 0x00100000 0x07F00000 PMM_ZONE_NORMAL
      \<lparr>pmm_regions = [], pmm_initialized = True\<rparr> =
      (\<lparr>pmm_regions = [boot_region], pmm_initialized = True\<rparr>, 0)"
    by (simp add: pmm_add_region_def boot_region_def pmm_page_align_up_def
        pmm_page_align_down_def Let_def)
  have "reserve_page a [boot_region] = Some [boot_region]"
    if "a \<in> set (page_range 0 0x00100000)" for a
    using page_range_lt [OF that] by (auto simp: reserve_page_def boot_region_def not_le [symmetric])
  then have "for_each reserve_page (page_range 0 0x00100000) [boot_region] = Some [boot_region]"
    using for_each_inv [of "page_range 0 0x00100000" "\<lambda>rs. rs = [boot_region]" reserve_page] by blast
  moreover have "pmm_page_align_down 0 = 0" "pmm_page_align_up 0x00100000 = 0x00100000"
    by (simp_all add: pmm_page_align_down_def pmm_page_align_up_def)
  ultimately show ?thesis
    by (simp add: pmm_kernel_boot_def pmm_init_def pmm_boot_def add pmm_reserve_range_def)
qed

lemma boot_region_open: "first_word_open boot_region"
  by (simp add: first_word_open_def region_wf_def boot_region_def pmm_is_page_aligned_def)

text \<open>A state with one region of four pages, for concrete runs.\<close>

definition one_region :: "u64 list \<Rightarrow> pmm" where
  "one_region bm = \<lparr>pmm_regions = [\<lparr>rg_base = 0x1000, rg_pages = 4, rg_bitmap = bm,
     rg_bitmap_size = 1, rg_last_alloc = 0, rg_zone = PMM_ZONE_DMA\<rparr>], pmm_initialized = True\<rparr>"

lemma one_region_wf:
  "length bm = 1 \<Longrightarrow> pmm_wf (one_region bm) \<and> regions_disjoint (pmm_regions (one_region bm))"
  by (simp add: one_region_def pmm_wf_def region_wf_def pmm_is_page_aligned_def regions_disjoint_def
      region_end_def)

text \<open>The pages of a region in use, and what the loop of \<open>pmm_get_stats\<close> adds up.\<close>

definition used_pages :: "pmm_region \<Rightarrow> u32" where
  "used_pages r =
     of_nat (length (filter (\<lambda>i. test_bit_64 (rg_bitmap r) i = Some True) [0..<unat (rg_pages r)]))"

definition stats_sum :: "pmm_region list \<Rightarrow> pmm_stats \<Rightarrow> pmm_stats \<Rightarrow> bool" where
  "stats_sum rs st st' \<longleftrightarrow>
     total_pages st' = total_pages st + sum_list (map rg_pages rs) \<and>
     allocated_pages st' = allocated_pages st + sum_list (map used_pages rs) \<and>
     free_pages st' = free_pages st + sum_list (map (\<lambda>r. rg_pages r - used_pages r) rs) \<and>
     reserved_pages st' = reserved_pages st \<and>
     (\<forall>z. zones_pages st' z = zones_pages st z +
        sum_list (map rg_pages (filter (\<lambda>r. rg_zone r = z) rs))) \<and>
     (\<forall>z. zones_free st' z = zones_free st z +
        sum_list (map (\<lambda>r. rg_pages r - used_pages r) (filter (\<lambda>r. rg_zone r = z) rs)))"

lemma stats_add_region_eq:
  assumes "region_wf r"
  shows "stats_add_region r st = Some (st\<lparr>total_pages := total_pages st + rg_pages r,
    zones_pages := (zones_pages st)(rg_zone r := zones_pages st (rg_zone r) + rg_pages r),
    allocated_pages := allocated_pages st + used_pages r,
    free_pages := free_pages st + (rg_pages r - used_pages r),
    zones_free := (zones_free st)
      (rg_zone r := zones_free st (rg_zone r) + (rg_pages r - used_pages r))\<rparr>)"
proof -
  have "\<forall>i \<in> set [0..<unat (rg_pages r)]. test_bit_64 (rg_bitmap r) i =
      Some (test_bit_64 (rg_bitmap r) i = Some True)"
    using pages_in_bitmap [OF assms] by (auto simp: test_bit_64_eq)
  from for_count_total [OF this] show ?thesis
    by (simp add: stats_add_region_def used_pages_def Let_def)
qed

lemma stats_loop:
  "\<forall>r \<in> set rs. region_wf r \<Longrightarrow> \<exists>st'. for_each stats_add_region rs st = Some st' \<and> stats_sum rs st st'"
proof (induction rs arbitrary: st)
  case Nil
  then show ?case by (simp add: stats_sum_def)
next
  case (Cons r rs)
  then have "region_wf r" by simp
  note step = stats_add_region_eq [OF this, of st]
  from Cons.IH [of "the (stats_add_region r st)"] Cons.prems obtain st' where
    "for_each stats_add_region rs (the (stats_add_region r st)) = Some st'"
    "stats_sum rs (the (stats_add_region r st)) st'" by auto
  then show ?case by (auto simp: step stats_sum_def add.assoc)
qed

section \<open>Properties\<close>



text \<open>C3.  \<open>pmm_alloc_pages_zone\<close> finds a run of free pages whenever a region of the zone
  has one: it marks exactly the pages of that run as in use, changes nothing else and
  returns the address of the first; it returns \<open>NULL\<close> with the state unchanged only when
  no region of the zone has such a run.\<close>

theorem pmm_alloc_pages_zone_complete:
  assumes "pmm_wf s" and "pmm_initialized s" and "count \<noteq> 0"
  shows "(\<exists>k t bm. k < length (pmm_regions s) \<and> rg_zone (pmm_regions s ! k) = z \<and>
       t + unat count \<le> unat (rg_pages (pmm_regions s ! k)) \<and>
       free_run (rg_bitmap (pmm_regions s ! k)) (unat count) t \<and>
       run_marked (rg_bitmap (pmm_regions s ! k)) (unat count) t bm \<and>
       pmm_alloc_pages_zone count z s =
         Some (s\<lparr>pmm_regions := (pmm_regions s)[k := (pmm_regions s ! k)\<lparr>rg_bitmap := bm\<rparr>]\<rparr>,
               rg_base (pmm_regions s ! k) + of_nat t * PMM_PAGE_SIZE)) \<or>
    (pmm_alloc_pages_zone count z s = Some (s, 0) \<and>
       (\<forall>r \<in> set (pmm_regions s). rg_zone r = z \<longrightarrow>
          (\<forall>t. t + unat count \<le> unat (rg_pages r) \<longrightarrow> \<not> free_run (rg_bitmap r) (unat count) t)))"
proof -
  have eq: "pmm_alloc_pages_zone count z s = map_option (\<lambda>(rs, a). (s\<lparr>pmm_regions := rs\<rparr>, a))
      (alloc_run (unat count) z (pmm_regions s))"
    using assms(2,3) by (auto simp: pmm_alloc_pages_zone_def split: bind_splits)
  from assms have "\<forall>r \<in> set (pmm_regions s). region_wf r" "0 < unat count"
    by (simp_all add: pmm_wf_def unat_gt_0)
  from alloc_run_spec [OF this, of z] show ?thesis
    unfolding eq by (elim disjE exE conjE) auto
qed

theorem pmm_alloc_pages_zone_complete_witness:
  "let s = \<lparr>pmm_regions = [\<lparr>rg_base = 0x1000, rg_pages = 4, rg_bitmap = [0b0101],
      rg_bitmap_size = 1, rg_last_alloc = 0, rg_zone = PMM_ZONE_DMA\<rparr>], pmm_initialized = True\<rparr>
   in \<forall>r \<in> set (pmm_regions s). \<forall>t. t + 2 \<le> 4 \<longrightarrow> \<not> free_run (rg_bitmap r) 2 t"
proof -
  let ?s = "\<lparr>pmm_regions = [\<lparr>rg_base = 0x1000, rg_pages = 4, rg_bitmap = [0b0101],
      rg_bitmap_size = 1, rg_last_alloc = 0, rg_zone = PMM_ZONE_DMA\<rparr>], pmm_initialized = True\<rparr>"
  have "pmm_wf ?s"
    by (simp add: pmm_wf_def region_wf_def pmm_is_page_aligned_def)
  moreover have "pmm_alloc_pages_zone 2 PMM_ZONE_DMA ?s = Some (?s, 0)"
    by (simp add: pmm_alloc_pages_zone_def upt_rec test_bit_64_def rd_def Let_def)
  moreover have "0x1000 + of_nat t * PMM_PAGE_SIZE \<noteq> 0" if "t + 2 \<le> 4" for t
  proof -
    from that consider "t = 0" | "t = 1" | "t = 2" by linarith
    then show ?thesis by cases simp_all
  qed
  ultimately show ?thesis
    using pmm_alloc_pages_zone_complete [of ?s 2 PMM_ZONE_DMA] by (auto simp: Let_def)
qed

text \<open>C2.  Freeing what \<open>pmm_alloc_pages_zone\<close> returned undoes it: when the regions do not
  overlap and do not touch the end of the address space, the call succeeds and every
  bitmap is again what it was before the allocation.\<close>

theorem pmm_alloc_free_roundtrip:
  assumes "pmm_wf s" and "regions_disjoint (pmm_regions s)"
    and "pmm_alloc_pages_zone count z s = Some (s', a)" and "a \<noteq> 0"
  shows "\<exists>s''. pmm_free_pages a count s' = Some (s'', 0) \<and>
    map rg_bitmap (pmm_regions s'') = map rg_bitmap (pmm_regions s)"
proof -
  let ?rs = "pmm_regions s" and ?n = "unat count"
  from assms(3,4) have init: "pmm_initialized s" "count \<noteq> 0"
    by (auto simp: pmm_alloc_pages_zone_def split: if_splits)
  from assms(1) init have "\<forall>r \<in> set ?rs. region_wf r" "0 < ?n"
    by (simp_all add: pmm_wf_def unat_gt_0)
  from alloc_run_spec [OF this, of z] assms(3,4) init obtain k t bm where
    k: "k < length ?rs" and fits: "t + ?n \<le> unat (rg_pages (?rs ! k))"
    and free: "free_run (rg_bitmap (?rs ! k)) ?n t"
    and bm: "for_each (\<lambda>j bm. set_bit_64 bm j) [t..<t + ?n] (rg_bitmap (?rs ! k)) = Some bm"
    and mark: "run_marked (rg_bitmap (?rs ! k)) ?n t bm"
    and s': "s' = s\<lparr>pmm_regions := ?rs[k := (?rs ! k)\<lparr>rg_bitmap := bm\<rparr>]\<rparr>"
    and a: "a = rg_base (?rs ! k) + of_nat t * PMM_PAGE_SIZE"
    by (auto simp: pmm_alloc_pages_zone_def)
  let ?r = "?rs ! k" and ?r' = "(?rs ! k)\<lparr>rg_bitmap := bm\<rparr>"
  have r: "region_wf ?r" and re: "region_end ?r < 2 ^ 32"
    using assms(1,2) k by (simp_all add: pmm_wf_nth regions_disjoint_def)
  have t: "t < unat (rg_pages ?r)" using fits init by (metis less_le_trans less_add_same_cancel1 unat_gt_0)
  note addr = page_address [OF r re t, folded a]
  have wf': "pmm_wf s'"
    unfolding s' by (intro pmm_wf_update region_wf_bitmap assms(1) r)
      (use mark in \<open>simp add: run_marked_def\<close>)
  have found: "find_region_for_addr (pmm_regions s') a = Some k"
    using find_region_disjoint [OF assms(2) k, of a] t
    by (simp add: s' find_region_update k addr(1) region_end_def)
  have words: "set [t..<t + ?n] \<subseteq> {..<64 * length (rg_bitmap ?r)}"
    using fits pages_le_bitmap [OF r] by auto
  have restored: "for_each (\<lambda>i bm. clear_bit_64 bm i) [t..<t + ?n] bm = Some (rg_bitmap ?r)"
    by (rule bm.set_clear_all [OF words _ bm]) (use free in \<open>simp add: free_run_def\<close>)
  have used: "\<forall>i \<in> {t..<t + ?n}. test_bit_64 bm i = Some True"
  proof
    fix i
    assume i: "i \<in> {t..<t + ?n}"
    with words have "i < 64 * length (rg_bitmap ?r)" by auto
    with i mark show "test_bit_64 bm i = Some True" by (simp add: run_marked_def)
  qed
  let ?new = "?r'\<lparr>rg_bitmap := rg_bitmap ?r, rg_last_alloc := min (of_nat t) (rg_last_alloc ?r)\<rparr>"
  have "pmm_initialized s'" and r': "pmm_regions s' ! k = ?r'" using init k by (simp_all add: s')
  have "pmm_free_pages a count s' = Some (s'\<lparr>pmm_regions := (pmm_regions s')[k := ?new]\<rparr>, 0)"
    using pmm_free_pages_found [OF wf' \<open>pmm_initialized s'\<close> assms(4) init(2) addr(3) found r' [symmetric],
        of "of_nat t"] fits
    by (simp add: addr(2,4) used restored)
  moreover have "map rg_bitmap ((pmm_regions s')[k := ?new]) = map rg_bitmap ?rs"
    using k list_update_id [of "map rg_bitmap ?rs" k] by (simp add: s' map_update)
  ultimately show ?thesis by auto
qed

theorem pmm_alloc_free_roundtrip_witness:
  "\<exists>s''. pmm_free_pages 0x1000 2 (one_region [0b0111]) = Some (s'', 0) \<and>
     map rg_bitmap (pmm_regions s'') = [[0b0100]]"
proof -
  have "pmm_alloc_pages_zone 2 PMM_ZONE_DMA (one_region [0b0100]) = Some (one_region [0b0111], 0x1000)"
    by (simp add: one_region_def pmm_alloc_pages_zone_def upt_rec test_bit_64_def set_bit_64_def
        rd_def wr_def Let_def)
  from pmm_alloc_free_roundtrip [OF _ _ this] show ?thesis
    using one_region_wf by (simp add: one_region_def)
qed

text \<open>A second \<open>pmm_free_pages\<close> of the same range is rejected: it returns -1 and leaves
  the state as the first call left it.\<close>

theorem pmm_double_free:
  assumes "pmm_wf s" and "unat count < 2 ^ 31" and "pmm_free_pages a count s = Some (s', 0)"
  shows "pmm_free_pages a count s' = Some (s', -1)"
  using assms
proof (rule pmm_free_pages_success)
  fix k r start bm
  assume g: "pmm_initialized s" "a \<noteq> 0" "count \<noteq> 0" "pmm_is_page_aligned a"
    and k: "find_region_for_addr (pmm_regions s) a = Some k" and r: "r = pmm_regions s ! k"
    and len: "k < length (pmm_regions s)"
    and start: "start = (a - rg_base r) div PMM_PAGE_SIZE"
    and fits: "unat start + unat count \<le> unat (rg_pages r)"
    and bm: "for_each (\<lambda>i bm. clear_bit_64 bm i) [unat start..<unat start + unat count] (rg_bitmap r) = Some bm"
    and s': "s' = s\<lparr>pmm_regions := (pmm_regions s)
       [k := r\<lparr>rg_bitmap := bm, rg_last_alloc := min start (rg_last_alloc r)\<rparr>]\<rparr>"
  let ?r' = "r\<lparr>rg_bitmap := bm, rg_last_alloc := min start (rg_last_alloc r)\<rparr>"
  have wf: "region_wf r" using assms(1) len r by (simp add: pmm_wf_nth)
  have words: "set [unat start..<unat start + unat count] \<subseteq> {..<64 * length (rg_bitmap r)}"
    using fits pages_le_bitmap [OF wf] by auto
  have n: "0 < unat count" using g(3) by (simp add: unat_gt_0)
  then have "unat start < 64 * length (rg_bitmap r)"
    using fits pages_le_bitmap [OF wf] by linarith
  with bm.clear_all [OF words] bm n have "test_bit_64 bm (unat start) = Some False" by auto
  then have "\<not> (\<forall>i \<in> {unat start..<unat start + unat count}. test_bit_64 (rg_bitmap ?r') i = Some True)"
    using n by (auto intro!: bexI [of _ "unat start"])
  note unused = this [THEN iffD2 [OF eq_False]]
  have wf': "pmm_wf s'" using pmm_free_pages_wf [OF assms(1,2), of a] assms(3) by auto
  have init': "pmm_initialized s'" and found': "find_region_for_addr (pmm_regions s') a = Some k"
    and r': "?r' = pmm_regions s' ! k" and start': "start = (a - rg_base ?r') div PMM_PAGE_SIZE"
    and fits': "unat start + unat count \<le> unat (rg_pages ?r')"
    using g(1) k len start fits by (simp_all add: s' find_region_update r)
  show ?thesis
    by (simp only: pmm_free_pages_found [OF wf' init' g(2-4) found' r' start' fits'] unused if_False)
qed

theorem pmm_double_free_witness:
  "pmm_free_pages 0x2000 1 (one_region [0b0101]) = Some (one_region [0b0101], -1)"
proof -
  have "pmm_free_pages 0x2000 1 (one_region [0b0111]) = Some (one_region [0b0101], 0)"
    by (simp add: one_region_def pmm_free_pages_def pmm_is_page_aligned_def test_bit_64_def
        clear_bit_64_def rd_def wr_def Let_def)
  from pmm_double_free [OF _ _ this] show ?thesis
    using one_region_wf by simp
qed

text \<open>\<open>clz64\<close> counts the leading zeros: shifting a non-zero word left by the count puts
  its highest set bit in position 63, and the count of the zero word is 64.\<close>

theorem clz64_spec:
  "(x \<noteq> 0 \<longrightarrow> 2 ^ 63 \<le> unat x * 2 ^ clz64 x \<and> unat x * 2 ^ clz64 x < 2 ^ 64) \<and> clz64 0 = 64"
  using clz64_spec_aux [of x] by (simp add: clz64_def)

theorem clz64_spec_witness: "2 ^ 63 \<le> (5::nat) * 2 ^ clz64 5 \<and> clz64 0 = 64"
  using clz64_spec [of 5] by simp

text \<open>The free-page search takes the count of leading ones of a bitmap word for the
  position of a free page.  After the boot sequence of \<open>init.c\<close> every call of
  \<open>pmm_alloc_page\<close> therefore returns the same page, the one at 0x00100000, however many
  calls have returned it before.\<close>

theorem pmm_alloc_page_repeats:
  "pmm_kernel_boot True True \<bind> alloc_n n = Some (replicate n 0x00100000)"
  using alloc_n_open [of "\<lparr>pmm_regions = [boot_region], pmm_initialized = True\<rparr>" boot_region n]
  by (simp add: pmm_kernel_boot_eq boot_region_open) (simp add: boot_region_def)

text \<open>The statistics partition the managed pages: the total is the sum of the regions'
  sizes, free and allocated pages add up to it, each zone has the pages of its regions and
  the free ones among them; no page is ever counted as reserved, because
  \<open>pmm_reserve_range\<close> marks pages the way an allocation does.\<close>

theorem pmm_stats_partition:
  assumes "pmm_wf s" and "pmm_initialized s"
  shows "\<exists>st. pmm_get_stats s = Some st \<and> stats_sum (pmm_regions s) stats_zero st \<and>
    free_pages st + allocated_pages st = total_pages st \<and> reserved_pages st = 0"
proof -
  from assms stats_loop [of "pmm_regions s" stats_zero] obtain st where
    st: "pmm_get_stats s = Some st" "stats_sum (pmm_regions s) stats_zero st"
    by (auto simp: pmm_get_stats_def pmm_wf_def)
  moreover have "sum_list (map (\<lambda>r. rg_pages r - used_pages r) rs) + sum_list (map used_pages rs) =
      sum_list (map rg_pages rs)" for rs
    by (induction rs) (simp_all add: algebra_simps)
  ultimately show ?thesis by (auto simp: stats_sum_def stats_zero_def)
qed

theorem pmm_stats_partition_witness:
  "\<exists>st. pmm_get_stats (one_region [0b0101]) = Some st \<and> free_pages st + allocated_pages st = 4"
proof -
  have "pmm_initialized (one_region [0b0101])" by (simp add: one_region_def)
  from pmm_stats_partition [OF _ this] obtain st where
    "pmm_get_stats (one_region [0b0101]) = Some st" "free_pages st + allocated_pages st = total_pages st"
    "stats_sum (pmm_regions (one_region [0b0101])) stats_zero st"
    using one_region_wf by auto
  then show ?thesis by (simp add: one_region_def stats_sum_def stats_zero_def)
qed

text \<open>A region smaller than the bytes lost in aligning its base is accepted with more than
  a million pages: the remaining size is computed by an unsigned subtraction that wraps.\<close>

theorem pmm_add_region_wraps:
  "map rg_pages (pmm_regions (fst (pmm_add_region True True 0x1001 10 PMM_ZONE_DMA
     (fst (pmm_init pmm_boot))))) = [0xFFFFF]"
  by (simp add: pmm_add_region_def pmm_init_def pmm_boot_def pmm_page_align_up_def
      pmm_page_align_down_def Let_def)

end
