(* ===== verification/Vmm.thy ===== *)
theory Vmm
  imports Bits
begin

text \<open>
  The virtual memory manager, \<open>usr/drivers/vmm.c\<close> and \<open>usr/include/vmm.h\<close>: a table of
  1024 pages of 4096 bytes from \<open>0x100000\<close>, handed out in runs of free pages.

  State: \<open>page_table\<close> and \<open>vmm_initialized\<close>.  Page indices stay below \<open>2 ^ 22\<close> and are
  natural numbers; sizes and addresses are 32-bit words.  A failed \<open>assert\<close> is \<open>None\<close>.
\<close>

section \<open>Data\<close>

datatype vmm_page_state = VMM_PAGE_FREE | VMM_PAGE_USED | VMM_PAGE_RESERVED

record vmm_page =
  pg_base_addr :: u32
  pg_size :: u32
  pg_state :: vmm_page_state
  pg_alloc_pages :: nat
  pg_tag :: u32
  pg_is_kernel :: bool

record vmm =
  page_table :: "vmm_page list"
  vmm_initialized :: bool

abbreviation VMM_PAGE_SIZE :: u32 where "VMM_PAGE_SIZE \<equiv> 4096"
abbreviation VMM_MAX_PAGES :: nat where "VMM_MAX_PAGES \<equiv> 1024"
abbreviation VMM_BASE_ADDRESS :: u32 where "VMM_BASE_ADDRESS \<equiv> 0x100000"
abbreviation VMM_TAG_KERNEL :: u32 where "VMM_TAG_KERNEL \<equiv> 0xDEAD0000"

text \<open>The static table before \<open>vmm_init\<close> is all zero.\<close>

definition vmm_boot :: vmm where
  "vmm_boot = \<lparr>page_table = replicate VMM_MAX_PAGES
     \<lparr>pg_base_addr = 0, pg_size = 0, pg_state = VMM_PAGE_FREE, pg_alloc_pages = 0, pg_tag = 0,
      pg_is_kernel = False\<rparr>, vmm_initialized = False\<rparr>"

definition free_page :: "nat \<Rightarrow> vmm_page" where
  "free_page i = \<lparr>pg_base_addr = VMM_BASE_ADDRESS + of_nat i * VMM_PAGE_SIZE,
     pg_size = VMM_PAGE_SIZE, pg_state = VMM_PAGE_FREE, pg_alloc_pages = 0, pg_tag = 0,
     pg_is_kernel = False\<rparr>"

definition vmm_init :: "vmm \<Rightarrow> vmm" where
  "vmm_init s =
     (if vmm_initialized s then s
      else \<lparr>page_table = map free_page [0..<VMM_MAX_PAGES], vmm_initialized = True\<rparr>)"

section \<open>Reservation\<close>

definition reserve_one :: "u32 \<Rightarrow> u32 \<Rightarrow> vmm_page \<Rightarrow> vmm_page" where
  "reserve_one start e p =
     (if start \<le> pg_base_addr p \<and> pg_base_addr p < e
      then p\<lparr>pg_state := VMM_PAGE_RESERVED, pg_tag := VMM_TAG_KERNEL, pg_is_kernel := True\<rparr>
      else p)"

definition vmm_reserve_range :: "u32 \<Rightarrow> u32 \<Rightarrow> vmm \<Rightarrow> vmm option" where
  "vmm_reserve_range start e s =
     (if \<not> vmm_initialized s then None
      else let start = start AND NOT (VMM_PAGE_SIZE - 1);
               e = (e + VMM_PAGE_SIZE - 1) AND NOT (VMM_PAGE_SIZE - 1)
           in Some (s\<lparr>page_table := map (reserve_one start e) (page_table s)\<rparr>))"

section \<open>Allocation\<close>

text \<open>The first page of \<open>i, i + 1, \<dots>\<close> (offsets \<open>js\<close>) that is not free.\<close>

fun first_busy :: "vmm_page list \<Rightarrow> nat \<Rightarrow> nat list \<Rightarrow> nat option option" where
  "first_busy pt i [] = Some None"
| "first_busy pt i (j # js) =
     do { p \<leftarrow> rd pt (i + j);
          if pg_state p \<noteq> VMM_PAGE_FREE then Some (Some j) else first_busy pt i js }"

definition mark_used :: "nat \<Rightarrow> u32 \<Rightarrow> bool \<Rightarrow> nat \<Rightarrow> nat \<Rightarrow> vmm_page list \<Rightarrow> vmm_page list option" where
  "mark_used n tag kern i j pt =
     do { p \<leftarrow> rd pt (i + j);
          wr pt (i + j) (p\<lparr>pg_state := VMM_PAGE_USED, pg_alloc_pages := (if j = 0 then n else 0),
                          pg_tag := tag, pg_is_kernel := kern\<rparr>) }"

text \<open>
  The search loop of \<open>vmm_alloc_internal\<close> from index \<open>i\<close>.  Its index jumps: past a
  reserved page, to the next aligned page (\<open>i += offset_pages - 1\<close> and the loop's own
  increment), past a page in use.  It is a partial function: \<open>None\<close> also stands for a loop
  that does not end, and the lemmas below show that it does.
\<close>

partial_function (option) alloc_loop ::
    "nat \<Rightarrow> u32 \<Rightarrow> u32 \<Rightarrow> bool \<Rightarrow> vmm_page list \<Rightarrow> nat \<Rightarrow> (vmm_page list \<times> u32) option" where
  "alloc_loop n align tag kern pt i =
     (if i \<le> VMM_MAX_PAGES - n then
        do { p \<leftarrow> rd pt i;
             if pg_state p = VMM_PAGE_RESERVED then alloc_loop n align tag kern pt (i + 1)
             else
               let base = pg_base_addr p;
                   aligned_addr = (base + align - 1) AND NOT (align - 1)
               in if VMM_PAGE_SIZE < align \<and> aligned_addr \<noteq> base then
                    let offset_pages = unat ((aligned_addr - base) div VMM_PAGE_SIZE)
                    in if i + offset_pages + n > VMM_MAX_PAGES
                       then alloc_loop n align tag kern pt (i + 1)
                       else alloc_loop n align tag kern pt (i + offset_pages)
                  else
                    do { busy \<leftarrow> first_busy pt i [0..<n];
                         case busy of
                           Some j \<Rightarrow> alloc_loop n align tag kern pt (i + j + 1)
                         | None \<Rightarrow>
                             do { pt \<leftarrow> for_each (mark_used n tag kern i) [0..<n] pt;
                                  p \<leftarrow> rd pt i;
                                  Some (pt, pg_base_addr p) } } }
      else Some (pt, 0))"

definition vmm_alloc_internal ::
    "nat \<Rightarrow> u32 \<Rightarrow> u32 \<Rightarrow> bool \<Rightarrow> vmm \<Rightarrow> (vmm \<times> u32) option" where
  "vmm_alloc_internal n align tag kern s =
     (if \<not> vmm_initialized s then None
      else if \<not> (0 < n \<and> n \<le> VMM_MAX_PAGES) then None
      else map_option (\<lambda>(pt, a). (s\<lparr>page_table := pt\<rparr>, a))
             (alloc_loop n align tag kern (page_table s) 0))"

definition pages_for :: "u32 \<Rightarrow> nat" where
  "pages_for sz = unat ((sz + VMM_PAGE_SIZE - 1) div VMM_PAGE_SIZE)"

definition vmm_alloc :: "u32 \<Rightarrow> vmm \<Rightarrow> (vmm \<times> u32) option" where
  "vmm_alloc sz s =
     (if sz = 0 then Some (s, 0)
      else if pages_for sz > VMM_MAX_PAGES then Some (s, 0)
      else vmm_alloc_internal (pages_for sz) VMM_PAGE_SIZE 0 False s)"

definition vmm_alloc_aligned :: "u32 \<Rightarrow> u32 \<Rightarrow> vmm \<Rightarrow> (vmm \<times> u32) option" where
  "vmm_alloc_aligned sz align s =
     (if sz = 0 then Some (s, 0)
      else if align AND (align - 1) \<noteq> 0 \<or> align = 0 then Some (s, 0)
      else if pages_for sz > VMM_MAX_PAGES then Some (s, 0)
      else vmm_alloc_internal (pages_for sz) align 0 False s)"

definition vmm_alloc_tagged :: "u32 \<Rightarrow> u32 \<Rightarrow> bool \<Rightarrow> vmm \<Rightarrow> (vmm \<times> u32) option" where
  "vmm_alloc_tagged sz tag kern s =
     (if sz = 0 then Some (s, 0)
      else if pages_for sz > VMM_MAX_PAGES then Some (s, 0)
      else vmm_alloc_internal (pages_for sz) VMM_PAGE_SIZE tag kern s)"

section \<open>Release, tags and queries\<close>

text \<open>The lookup loop shared by \<open>vmm_free\<close>, \<open>vmm_set_tag\<close> and \<open>vmm_get_tag\<close>.\<close>

fun find_page :: "vmm_page list \<Rightarrow> u32 \<Rightarrow> nat option" where
  "find_page [] target = None"
| "find_page (p # ps) target =
     (if pg_base_addr p \<le> target \<and> target < pg_base_addr p + pg_size p then Some 0
      else map_option Suc (find_page ps target))"

text \<open>The freeing loop stops at the first page that is not in use.\<close>

fun free_pages_loop :: "nat \<Rightarrow> nat list \<Rightarrow> vmm_page list \<Rightarrow> vmm_page list option" where
  "free_pages_loop i [] pt = Some pt"
| "free_pages_loop i (j # js) pt =
     do { p \<leftarrow> rd pt (i + j);
          if pg_state p \<noteq> VMM_PAGE_USED then Some pt
          else do { pt \<leftarrow> wr pt (i + j) (p\<lparr>pg_state := VMM_PAGE_FREE, pg_alloc_pages := 0,
                                           pg_tag := 0, pg_is_kernel := False\<rparr>);
                    free_pages_loop i js pt } }"

definition vmm_free :: "u32 \<Rightarrow> vmm \<Rightarrow> vmm option" where
  "vmm_free addr s =
     (if addr = 0 \<or> \<not> vmm_initialized s then Some s
      else case find_page (page_table s) addr of
        None \<Rightarrow> Some s
      | Some i \<Rightarrow>
          let p = page_table s ! i
          in if pg_state p \<noteq> VMM_PAGE_USED then Some s
             else
               let pages = pg_alloc_pages p
               in if pages = 0 \<or> i + pages > VMM_MAX_PAGES then Some s
                  else do { pt \<leftarrow> free_pages_loop i [0..<pages] (page_table s);
                            Some (s\<lparr>page_table := pt\<rparr>) })"

definition vmm_set_tag :: "u32 \<Rightarrow> u32 \<Rightarrow> vmm \<Rightarrow> vmm" where
  "vmm_set_tag addr tag s =
     (if addr = 0 then s
      else case find_page (page_table s) addr of
        None \<Rightarrow> s
      | Some i \<Rightarrow>
          let p = page_table s ! i
          in if pg_state p = VMM_PAGE_USED
             then s\<lparr>page_table := (page_table s)[i := p\<lparr>pg_tag := tag\<rparr>]\<rparr> else s)"

definition vmm_get_tag :: "u32 \<Rightarrow> vmm \<Rightarrow> u32" where
  "vmm_get_tag addr s =
     (if addr = 0 then 0
      else case find_page (page_table s) addr of
        None \<Rightarrow> 0
      | Some i \<Rightarrow> pg_tag (page_table s ! i))"

text \<open>
  The counting loop of \<open>vmm_stats\<close> (and of \<open>vmm_dump_state\<close>): a page with a positive
  \<open>alloc_pages\<close> accounts for that many pages and the index skips them.  The result is
  (used, free, reserved) in pages.
\<close>

function count_loop ::
    "vmm_page list \<Rightarrow> nat \<Rightarrow> nat \<times> nat \<times> nat \<Rightarrow> (nat \<times> nat \<times> nat) option" where
  "count_loop pt i (used, free, reserved) =
     (if i < VMM_MAX_PAGES then
        do { p \<leftarrow> rd pt i;
             let n = (if pg_alloc_pages p > 0 then pg_alloc_pages p else 1)
             in count_loop pt (i + n)
                  (case pg_state p of
                     VMM_PAGE_USED \<Rightarrow> (used + n, free, reserved)
                   | VMM_PAGE_RESERVED \<Rightarrow> (used, free, reserved + n)
                   | VMM_PAGE_FREE \<Rightarrow> (used, free + n, reserved)) }
      else Some (used, free, reserved))"
  by pat_completeness auto
termination by (relation "measure (\<lambda>(pt, i, _). VMM_MAX_PAGES - i)") auto

definition vmm_stats :: "vmm \<Rightarrow> (u32 \<times> u32 \<times> u32) option" where
  "vmm_stats s =
     map_option (\<lambda>(used, free, reserved).
         (of_nat used * VMM_PAGE_SIZE div 1024, of_nat free * VMM_PAGE_SIZE div 1024,
          of_nat reserved * VMM_PAGE_SIZE div 1024))
       (count_loop (page_table s) 0 (0, 0, 0))"

definition vmm_get_total_memory :: u32 where
  "vmm_get_total_memory = of_nat VMM_MAX_PAGES * VMM_PAGE_SIZE"

fun largest_free :: "vmm_page list \<Rightarrow> nat \<Rightarrow> nat \<Rightarrow> nat" where
  "largest_free [] max_free current_free = max_free"
| "largest_free (p # ps) max_free current_free =
     (if pg_state p = VMM_PAGE_FREE then
        let current_free = current_free + 1
        in largest_free ps (if current_free > max_free then current_free else max_free) current_free
      else largest_free ps max_free 0)"

definition vmm_get_largest_free_block :: "vmm \<Rightarrow> u32" where
  "vmm_get_largest_free_block s = of_nat (largest_free (page_table s) 0 0) * VMM_PAGE_SIZE"

section \<open>The table invariant\<close>

text \<open>
  Page \<open>i\<close> keeps its address and size, and a free page is as \<open>vmm_init\<close> left it.
\<close>

definition page_ok :: "nat \<Rightarrow> vmm_page \<Rightarrow> bool" where
  "page_ok i p \<longleftrightarrow> pg_base_addr p = pg_base_addr (free_page i) \<and> pg_size p = VMM_PAGE_SIZE \<and>
     (pg_state p = VMM_PAGE_FREE \<longrightarrow> p = free_page i)"

definition table_ok :: "vmm_page list \<Rightarrow> bool" where
  "table_ok pt \<longleftrightarrow> length pt = VMM_MAX_PAGES \<and> (\<forall>i < VMM_MAX_PAGES. page_ok i (pt ! i))"

text \<open>
  An allocation recorded at page \<open>i\<close> ends inside the table, and its other pages carry no
  record of their own and are not free.
\<close>

definition block_ok :: "vmm_page list \<Rightarrow> nat \<Rightarrow> bool" where
  "block_ok pt i \<longleftrightarrow> i + pg_alloc_pages (pt ! i) \<le> VMM_MAX_PAGES \<and>
     (\<forall>k. i < k \<and> k < i + pg_alloc_pages (pt ! i) \<longrightarrow>
        pg_alloc_pages (pt ! k) = 0 \<and> pg_state (pt ! k) \<noteq> VMM_PAGE_FREE)"

definition vmm_wf :: "vmm \<Rightarrow> bool" where
  "vmm_wf s \<longleftrightarrow> vmm_initialized s \<and> table_ok (page_table s) \<and>
     (\<forall>i < VMM_MAX_PAGES. block_ok (page_table s) i)"

lemma table_length: "table_ok pt \<Longrightarrow> length pt = VMM_MAX_PAGES"
  by (simp add: table_ok_def)

lemma table_page: "table_ok pt \<Longrightarrow> i < VMM_MAX_PAGES \<Longrightarrow> page_ok i (pt ! i)"
  by (simp add: table_ok_def)

lemma free_page_unfold [simp]:
  "pg_size (free_page i) = VMM_PAGE_SIZE" "pg_state (free_page i) = VMM_PAGE_FREE"
  "pg_alloc_pages (free_page i) = 0" "pg_tag (free_page i) = 0" "\<not> pg_is_kernel (free_page i)"
  "pg_base_addr (free_page i) = VMM_BASE_ADDRESS + of_nat i * VMM_PAGE_SIZE"
  by (simp_all add: free_page_def)

lemma page_free: "table_ok pt \<Longrightarrow> i < VMM_MAX_PAGES \<Longrightarrow> pg_state (pt ! i) = VMM_PAGE_FREE \<Longrightarrow>
  pt ! i = free_page i"
  using table_page [of pt i] by (simp add: page_ok_def)

lemma page_base: "table_ok pt \<Longrightarrow> i < VMM_MAX_PAGES \<Longrightarrow>
  pg_base_addr (pt ! i) = VMM_BASE_ADDRESS + of_nat i * VMM_PAGE_SIZE"
  using table_page [of pt i] by (simp add: page_ok_def)

lemma unat_page_base:
  "i < VMM_MAX_PAGES \<Longrightarrow> unat (VMM_BASE_ADDRESS + of_nat i * VMM_PAGE_SIZE) = 0x100000 + i * 4096"
  by (simp add: unat_word_ariths unat_of_nat)

lemma vmm_init_wf: "vmm_wf (vmm_init vmm_boot)"
  by (simp add: vmm_init_def vmm_boot_def vmm_wf_def table_ok_def page_ok_def block_ok_def)

section \<open>Reservation keeps the invariant\<close>

lemma vmm_reserve_range_wf [inv_intros]:
  assumes "vmm_wf s"
  shows "\<exists>s'. vmm_reserve_range a b s = Some s' \<and> vmm_wf s'"
proof -
  have "table_ok (map (reserve_one u v) pt)" if "table_ok pt" for u v pt
    using that by (auto simp: table_ok_def page_ok_def reserve_one_def)
  moreover have "block_ok (map (reserve_one u v) pt) i"
    if "table_ok pt" "block_ok pt i" "i < VMM_MAX_PAGES" for u v pt i
  proof -
    have "pg_alloc_pages (map (reserve_one u v) pt ! k) = pg_alloc_pages (pt ! k)"
      "pg_state (pt ! k) \<noteq> VMM_PAGE_FREE \<Longrightarrow> pg_state (map (reserve_one u v) pt ! k) \<noteq> VMM_PAGE_FREE"
      if "k < VMM_MAX_PAGES" for k
      using that \<open>table_ok pt\<close> by (auto simp: reserve_one_def table_length)
    with that(2,3) show ?thesis by (simp add: block_ok_def)
  qed
  ultimately show ?thesis
    using assms by (simp add: vmm_reserve_range_def vmm_wf_def Let_def)
qed

section \<open>The search loop\<close>

definition all_free :: "vmm_page list \<Rightarrow> nat \<Rightarrow> nat \<Rightarrow> bool" where
  "all_free pt i n \<longleftrightarrow> (\<forall>j < n. pg_state (pt ! (i + j)) = VMM_PAGE_FREE)"

text \<open>An index where a run of \<open>n\<close> pages with the alignment can start.\<close>

definition suitable :: "vmm_page list \<Rightarrow> nat \<Rightarrow> u32 \<Rightarrow> nat \<Rightarrow> bool" where
  "suitable pt n align i \<longleftrightarrow> i + n \<le> VMM_MAX_PAGES \<and>
     (4096 < unat align \<longrightarrow> unat align dvd 0x100000 + i * 4096) \<and> all_free pt i n"

lemma first_busy_spec:
  "\<forall>j \<in> set js. i + j < length pt \<Longrightarrow>
   first_busy pt i js = Some (find_first (\<lambda>j. pg_state (pt ! (i + j)) \<noteq> VMM_PAGE_FREE) js)"
  by (induction js) (auto simp: rd_in)

definition used_page :: "nat \<Rightarrow> u32 \<Rightarrow> bool \<Rightarrow> nat \<Rightarrow> vmm_page \<Rightarrow> vmm_page" where
  "used_page n tag kern j p = p\<lparr>pg_state := VMM_PAGE_USED,
     pg_alloc_pages := (if j = 0 then n else 0), pg_tag := tag, pg_is_kernel := kern\<rparr>"

lemma mark_used_loop:
  "i + n \<le> length pt \<Longrightarrow>
   for_each (mark_used n tag kern i) [0..<n] pt = Some (update_range i n (used_page n tag kern) pt)"
  by (rule for_each_update_range) (simp_all add: mark_used_def used_page_def rd_in wr_in)

lemma unat_align_up:
  fixes a align :: u32
  assumes "unat align = 2 ^ k" and "align - 1 = mask k" and "unat a + 2 ^ k \<le> 2 ^ 32"
  shows "unat ((a + align - 1) AND NOT (align - 1)) = (unat a + (2 ^ k - 1)) div 2 ^ k * 2 ^ k"
proof -
  have pos: "(0::nat) < 2 ^ k" by simp
  have "unat (align - 1) = 2 ^ k - 1"
    using assms(1) pos by (simp add: unat_minus_one unat_eq_zero [symmetric] del: unat_eq_zero)
  then have "unat (a + (align - 1)) = unat a + (2 ^ k - 1)"
    using assms(3) pos by (subst unat_add_lem [THEN iffD1]) simp_all
  moreover have "a + align - 1 = a + (align - 1)" by simp
  ultimately show ?thesis
    unfolding assms(2) by (simp only: unat_align_down minus_mod_eq_div_mult)
qed

lemma div_add_less: "r < A \<Longrightarrow> (A * c + r) div A = (c :: nat)"
  by simp

lemma pow2_pred: "2 ^ k - 1 < (2 :: nat) ^ k"
  by simp

lemma align_index:
  fixes k m i :: nat
  assumes "12 < k"
  defines "b \<equiv> 0x100000 + i * 4096"
  defines "off \<equiv> ((b + (2 ^ k - 1)) div 2 ^ k * 2 ^ k - b) div 4096"
  assumes "\<not> 2 ^ k dvd b"
  shows "0 < off" and "2 ^ k dvd 0x100000 + (i + off) * 4096"
    and "i \<le> j \<Longrightarrow> j < i + off \<Longrightarrow> \<not> 2 ^ k dvd 0x100000 + j * 4096"
proof -
  let ?A = "2 ^ k :: nat" and ?r = "b mod 2 ^ k" and ?q = "b div 2 ^ k"
  have r: "0 < ?r" "?r < ?A" using assms(4) by (simp_all add: dvd_eq_mod_eq_0)
  have b: "b = ?A * ?q + ?r" by simp
  have "(?q + 1) * ?A = ?A * ?q + ?A" by (simp add: algebra_simps)
  with r b have "b + (?A - 1) = (?r - 1) + (?q + 1) * ?A" by linarith
  moreover have "(?r - 1 + (?q + 1) * ?A) div ?A = ?q + 1"
  proof -
    have "(?r - 1) div ?A = 0" using r by (intro div_less) linarith
    moreover have "(?r - 1 + (?q + 1) * ?A) div ?A = (?q + 1) + (?r - 1) div ?A"
      by (rule div_mult_self1) simp
    ultimately show ?thesis by (simp only: add_0_right)
  qed
  ultimately have "(b + (?A - 1)) div ?A = ?q + 1" by (simp only:)
  then have "(b + (?A - 1)) div ?A * ?A = ?A * ?q + ?A" by (simp only: algebra_simps)
  with b r have up: "(b + (?A - 1)) div ?A * ?A - b = ?A - ?r" by linarith
  have "?A * (?q + 1) = ?A * ?q + ?A" by (simp only: algebra_simps)
  with b r have next_A: "b + (?A - ?r) = ?A * (?q + 1)" by linarith
  have "?A = 4096 * 2 ^ (k - 12)"
    using assms(1) power_add [of "2::nat" 12 "k - 12"] by simp
  then have A: "4096 dvd ?A" by (metis dvd_triv_left)
  have "4096 dvd b" by (simp add: b_def)
  with A have "4096 dvd ?r" by (simp add: dvd_mod)
  with A r have "4096 dvd ?A - ?r" by (simp add: dvd_diff_nat)
  then have off: "off * 4096 = ?A - ?r" unfolding off_def up by (rule dvd_div_mult_self)
  with r show "0 < off" by (metis mult_is_0 not_gr_zero zero_less_diff)
  have plus: "0x100000 + (i + off) * 4096 = b + off * 4096" by (simp add: b_def)
  then have "0x100000 + (i + off) * 4096 = ?A * (?q + 1)" by (simp only: off next_A)
  then show "2 ^ k dvd 0x100000 + (i + off) * 4096" by (metis dvd_triv_left)
  assume j: "i \<le> j" "j < i + off"
  show "\<not> 2 ^ k dvd 0x100000 + j * 4096"
  proof
    assume "2 ^ k dvd 0x100000 + j * 4096"
    then obtain c where c: "0x100000 + j * 4096 = ?A * c" by blast
    have "b \<le> ?A * c" using j(1) c by (simp add: b_def)
    with b r have "?A * ?q < ?A * c" by linarith
    moreover have "0x100000 + j * 4096 < 0x100000 + (i + off) * 4096" using j(2) by simp
    then have "?A * c < ?A * (?q + 1)" by (simp only: plus off next_A c)
    ultimately have "?q < c" "c < ?q + 1" by (simp_all only: mult_less_cancel1)
    then show False by simp
  qed
qed

text \<open>One turn of the loop, branch by branch.\<close>

abbreviation aligned_at :: "nat \<Rightarrow> u32 \<Rightarrow> u32" where
  "aligned_at i align \<equiv>
     (VMM_BASE_ADDRESS + of_nat i * VMM_PAGE_SIZE + align - 1) AND NOT (align - 1)"

abbreviation offset_at :: "nat \<Rightarrow> u32 \<Rightarrow> nat" where
  "offset_at i align \<equiv>
     unat ((aligned_at i align - (VMM_BASE_ADDRESS + of_nat i * VMM_PAGE_SIZE)) div VMM_PAGE_SIZE)"

abbreviation misaligned :: "nat \<Rightarrow> u32 \<Rightarrow> bool" where
  "misaligned i align \<equiv>
     VMM_PAGE_SIZE < align \<and> aligned_at i align \<noteq> VMM_BASE_ADDRESS + of_nat i * VMM_PAGE_SIZE"

lemma alloc_loop_end:
  "\<not> i \<le> VMM_MAX_PAGES - n \<Longrightarrow> alloc_loop n align tag kern pt i = Some (pt, 0)"
  by (subst alloc_loop.simps) (simp only: if_False)

lemma alloc_loop_turn:
  assumes t: "table_ok pt" and i: "i < VMM_MAX_PAGES" and le: "i \<le> VMM_MAX_PAGES - n"
  shows "alloc_loop n align tag kern pt i =
    (if pg_state (pt ! i) = VMM_PAGE_RESERVED then alloc_loop n align tag kern pt (i + 1)
     else if misaligned i align then
       (if i + offset_at i align + n > VMM_MAX_PAGES then alloc_loop n align tag kern pt (i + 1)
        else alloc_loop n align tag kern pt (i + offset_at i align))
     else
       do { busy \<leftarrow> first_busy pt i [0..<n];
            case busy of
              Some j \<Rightarrow> alloc_loop n align tag kern pt (i + j + 1)
            | None \<Rightarrow> do { pt \<leftarrow> for_each (mark_used n tag kern i) [0..<n] pt;
                           p \<leftarrow> rd pt i; Some (pt, pg_base_addr p) } })"
proof -
  have rd: "rd pt i = Some (pt ! i)" using i table_length [OF t] by (simp only: rd_in)
  show ?thesis
    by (subst alloc_loop.simps)
      (simp only: le if_True rd bind.bind_lunit Let_def page_base [OF t i])
qed

lemma unat_diff_div:
  fixes a b :: u32
  assumes "b \<le> a"
  shows "unat ((a - b) div VMM_PAGE_SIZE) = (unat a - unat b) div 4096"
  using assms by (simp add: unat_div unat_sub word_le_nat_alt)

lemma suitable_skip:
  assumes "\<forall>i' < i. \<not> suitable pt n align i'"
    and "\<And>i'. i \<le> i' \<Longrightarrow> i' < i + d \<Longrightarrow> \<not> suitable pt n align i'"
  shows "\<forall>i' < i + d. \<not> suitable pt n align i'"
  using assms by (metis not_le)

lemma alloc_loop_spec:
  assumes "table_ok pt" and "0 < n" and "n \<le> VMM_MAX_PAGES"
    and "align AND (align - 1) = 0" and "align \<noteq> 0"
    and "\<forall>i' < i. \<not> suitable pt n align i'"
  shows "(\<exists>m. suitable pt n align m \<and> (\<forall>i' < m. \<not> suitable pt n align i') \<and>
       alloc_loop n align tag kern pt i =
         Some (update_range m n (used_page n tag kern) pt, VMM_BASE_ADDRESS + of_nat m * VMM_PAGE_SIZE)) \<or>
    ((\<forall>m. \<not> suitable pt n align m) \<and> alloc_loop n align tag kern pt i = Some (pt, 0))"
  (is "?spec i")
  using assms(6)
proof (induction "Suc VMM_MAX_PAGES - i" arbitrary: i rule: less_induct)
  case less
  from pow2_word [OF assms(4,5)] obtain k where
    k: "k < 32" "unat align = 2 ^ k" "align - 1 = mask k" by auto
  show ?case
  proof (cases "i \<le> VMM_MAX_PAGES - n")
    case False
    with less.prems have "\<not> suitable pt n align m" for m
      using assms(3) by (cases "m < i") (auto simp: suitable_def)
    with alloc_loop_end [OF False] show ?thesis by simp
  next
    case True
    then have i: "i < VMM_MAX_PAGES" and fits: "i + n \<le> VMM_MAX_PAGES" using assms(2,3) by simp_all
    let ?p = "pt ! i" and ?base = "VMM_BASE_ADDRESS + of_nat i * VMM_PAGE_SIZE :: u32"
    note turn = alloc_loop_turn [OF assms(1) i True] and ubase = unat_page_base [OF i]
    have jump: "?spec i" if d: "0 < d"
      and eq: "alloc_loop n align tag kern pt i = alloc_loop n align tag kern pt (i + d)"
      and bad: "\<And>i'. i \<le> i' \<Longrightarrow> i' < i + d \<Longrightarrow> \<not> suitable pt n align i'" for d
      unfolding eq
    proof (rule less.hyps)
      show "Suc VMM_MAX_PAGES - (i + d) < Suc VMM_MAX_PAGES - i" using d i by simp
      show "\<forall>i' < i + d. \<not> suitable pt n align i'"
        using less.prems bad by (rule suitable_skip)
    qed
    have jump1: "?spec i"
      if "alloc_loop n align tag kern pt i = alloc_loop n align tag kern pt (i + 1)"
      and bad: "\<not> suitable pt n align i"
    proof (rule jump [of 1])
      fix i'
      assume "i \<le> i'" "i' < i + 1"
      then have "i' = i" by simp
      with bad show "\<not> suitable pt n align i'" by simp
    qed (use that in simp_all)
    let ?aligned = "(?base + align - 1) AND NOT (align - 1)"
    have small: "(2::nat) ^ k \<le> 2 ^ 31" using k(1) by (intro power_increasing) simp_all
    then have "unat ?base + 2 ^ k \<le> 2 ^ 32" unfolding ubase using i by simp
    from unat_align_up [OF k(2,3) this]
    have al: "unat ?aligned = (unat ?base + (2 ^ k - 1)) div 2 ^ k * 2 ^ k" .
    show ?thesis
    proof (cases "pg_state ?p = VMM_PAGE_RESERVED")
      case True
      then have "alloc_loop n align tag kern pt i = alloc_loop n align tag kern pt (i + 1)"
        by (subst turn) (simp only: simp_thms if_True)
      moreover have "\<not> suitable pt n align i"
        using True assms(2) by (auto simp: suitable_def all_free_def intro!: exI [of _ 0])
      ultimately show ?thesis by (rule jump1)
    next
      case not_reserved: False
      show ?thesis
      proof (cases "VMM_PAGE_SIZE < align \<and> ?aligned \<noteq> ?base")
        case True
        have k12: "12 < k"
        proof (rule ccontr)
          assume "\<not> 12 < k"
          then have "(2::nat) ^ k \<le> 2 ^ 12" by (intro power_increasing) simp_all
          moreover from True have "4096 < unat align" by (simp add: word_less_nat_alt)
          ultimately show False using k(2) by simp
        qed
        have nd: "\<not> 2 ^ k dvd 0x100000 + i * 4096"
        proof
          assume "2 ^ k dvd 0x100000 + i * 4096"
          then obtain c where "unat ?base = 2 ^ k * c" unfolding ubase by blast
          then have "unat ?aligned = unat ?base"
            unfolding al by (simp only: div_add_less [OF pow2_pred]) (simp only: mult.commute)
          with True show False by (simp only: word_unat_eq_iff simp_thms)
        qed
        let ?off = "((0x100000 + i * 4096 + (2 ^ k - 1)) div 2 ^ k * 2 ^ k - (0x100000 + i * 4096)) div 4096"
        note off = align_index [OF k12 nd]
        from off(1) have "unat ?base < unat ?aligned"
          unfolding al ubase by (metis diff_is_0_eq div_0 less_irrefl not_le)
        then have "?base \<le> ?aligned" unfolding word_le_nat_alt by (rule less_imp_le)
        then have offset: "offset_at i align = ?off"
          by (simp only: unat_diff_div al ubase)
        have bad: "\<not> suitable pt n align i'" if "i \<le> i'" "i' < i + ?off" for i'
        proof -
          have "4096 < unat align" using True by (simp add: word_less_nat_alt)
          then show ?thesis using off(3) [OF that] by (simp add: suitable_def k(2))
        qed
        show ?thesis
        proof (cases "i + ?off + n > VMM_MAX_PAGES")
          case far: True
          with not_reserved True have
            "alloc_loop n align tag kern pt i = alloc_loop n align tag kern pt (i + 1)"
            by (subst turn) (simp only: offset if_True if_False simp_thms)
          moreover have "\<not> suitable pt n align i" using bad [of i] off(1) by simp
          ultimately show ?thesis by (rule jump1)
        next
          case near: False
          with not_reserved True have
            "alloc_loop n align tag kern pt i = alloc_loop n align tag kern pt (i + ?off)"
            by (subst turn) (simp only: offset if_True if_False simp_thms)
          then show ?thesis using off(1) bad by (intro jump [of ?off]) simp_all
        qed
      next
        case aligned: False
        have "\<forall>j \<in> set [0..<n]. i + j < length pt" using fits table_length [OF assms(1)] by simp
        note busy = first_busy_spec [OF this]
        show ?thesis
        proof (cases "find_first (\<lambda>j. pg_state (pt ! (i + j)) \<noteq> VMM_PAGE_FREE) [0..<n]")
          case (Some j)
          with busy not_reserved aligned have
            "alloc_loop n align tag kern pt i = alloc_loop n align tag kern pt (i + (j + 1))"
            by (subst turn) (simp only: if_False bind.bind_lunit option.case add.assoc)
          moreover from Some have j: "j < n" "pg_state (pt ! (i + j)) \<noteq> VMM_PAGE_FREE"
            by (auto simp: find_first_upt)
          have "\<not> suitable pt n align i'" if "i \<le> i'" "i' < i + (j + 1)" for i'
            using that j by (auto simp: suitable_def all_free_def intro!: exI [of _ "i + j - i'"])
          ultimately show ?thesis by (intro jump [of "j + 1"]) simp_all
        next
          case None
          then have free: "all_free pt i n" by (auto simp: find_first_None all_free_def)
          have "unat align dvd 0x100000 + i * 4096" if "4096 < unat align"
          proof -
            from that have "VMM_PAGE_SIZE < align" by (simp add: word_less_nat_alt)
            with aligned have "?aligned = ?base" by blast
            then have "unat ?aligned = unat ?base" by (rule arg_cong)
            then show ?thesis using al k(2) ubase by (metis dvd_triv_right)
          qed
          with fits free have "suitable pt n align i" by (simp add: suitable_def)
          moreover have "alloc_loop n align tag kern pt i =
              Some (update_range i n (used_page n tag kern) pt, ?base)"
          proof -
            let ?pt = "update_range i n (used_page n tag kern) pt"
            have "rd ?pt i = Some (used_page n tag kern 0 (pt ! i))"
              using i assms(2) table_length [OF assms(1)] by (simp add: rd_in nth_update_range)
            moreover have "pg_base_addr (used_page n tag kern 0 (pt ! i)) = ?base"
              using page_base [OF assms(1) i] by (simp add: used_page_def)
            moreover have "for_each (mark_used n tag kern i) [0..<n] pt = Some ?pt"
              using fits table_length [OF assms(1)] by (intro mark_used_loop) simp
            ultimately show ?thesis
              using None busy not_reserved aligned
              by (subst turn) (simp only: if_False bind.bind_lunit option.case)
          qed
          ultimately show ?thesis using less.prems by blast
        qed
      qed
    qed
  qed
qed
section \<open>Allocation keeps the invariant\<close>

lemma table_ok_update:
  assumes "table_ok pt" and "\<And>j p. i + j < VMM_MAX_PAGES \<Longrightarrow> page_ok (i + j) p \<Longrightarrow> page_ok (i + j) (g j p)"
  shows "table_ok (update_range i n g pt)"
proof -
  have "page_ok k (update_range i n g pt ! k)" if "k < VMM_MAX_PAGES" for k
  proof (cases "i \<le> k \<and> k < i + n")
    case True
    then have "i + (k - i) = k" by simp
    with assms(2) [of "k - i" "pt ! k"] table_page [OF assms(1) that] True table_length [OF assms(1)] that
    show ?thesis by (simp add: nth_update_range)
  next
    case False
    with table_page [OF assms(1) that] table_length [OF assms(1)] that
    show ?thesis by (auto simp: nth_update_range)
  qed
  then show ?thesis using table_length [OF assms(1)] by (simp add: table_ok_def)
qed

lemma alloc_update_wf:
  assumes "vmm_wf s" and "suitable (page_table s) n align i" and "0 < n"
  shows "vmm_wf (s\<lparr>page_table := update_range i n (used_page n tag kern) (page_table s)\<rparr>)"
proof -
  let ?pt = "page_table s" and ?pt' = "update_range i n (used_page n tag kern) (page_table s)"
  from assms(1) have t: "table_ok ?pt" and blocks: "\<And>k. k < VMM_MAX_PAGES \<Longrightarrow> block_ok ?pt k"
    by (simp_all add: vmm_wf_def)
  from assms(2) have fits: "i + n \<le> VMM_MAX_PAGES"
    and "\<forall>j < n. pg_state (?pt ! (i + j)) = VMM_PAGE_FREE"
    by (auto simp: suitable_def all_free_def)
  then have free: "pg_state (?pt ! k) = VMM_PAGE_FREE" if "i \<le> k" "k < i + n" for k
    using that by (metis le_add_diff_inverse nat_add_left_cancel_less)
  have nth: "?pt' ! k = (if i \<le> k \<and> k < i + n then used_page n tag kern (k - i) (?pt ! k) else ?pt ! k)"
    if "k < VMM_MAX_PAGES" for k
    using that table_length [OF t] by (simp add: nth_update_range)
  have "table_ok ?pt'"
    using t by (rule table_ok_update) (simp add: page_ok_def used_page_def)
  moreover have "block_ok ?pt' k" if k: "k < VMM_MAX_PAGES" for k
  proof (cases "i \<le> k \<and> k < i + n")
    case True
    then show ?thesis
      using fits k by (auto simp: block_ok_def nth used_page_def)
  next
    case False
    then have eq: "pg_alloc_pages (?pt' ! k) = pg_alloc_pages (?pt ! k)" using nth [OF k] by auto
    have "\<not> (i \<le> l \<and> l < i + n)" if "k < l" "l < k + pg_alloc_pages (?pt ! k)" for l
      using blocks [OF k] free that by (auto simp: block_ok_def)
    with blocks [OF k] nth show ?thesis by (auto simp: block_ok_def eq)
  qed
  ultimately show ?thesis using assms(1) by (simp add: vmm_wf_def)
qed

lemma vmm_alloc_internal_spec:
  assumes "vmm_wf s" and "0 < n" and "n \<le> VMM_MAX_PAGES"
    and "align AND (align - 1) = 0" and "align \<noteq> 0"
  shows "(\<exists>i. suitable (page_table s) n align i \<and> (\<forall>k < i. \<not> suitable (page_table s) n align k) \<and>
       vmm_alloc_internal n align tag kern s =
         Some (s\<lparr>page_table := update_range i n (used_page n tag kern) (page_table s)\<rparr>,
               VMM_BASE_ADDRESS + of_nat i * VMM_PAGE_SIZE)) \<or>
    ((\<forall>i. \<not> suitable (page_table s) n align i) \<and> vmm_alloc_internal n align tag kern s = Some (s, 0))"
proof -
  from assms(1) have "table_ok (page_table s)" and init: "vmm_initialized s" by (simp_all add: vmm_wf_def)
  from alloc_loop_spec [OF this(1) assms(2-5), of 0 tag kern] show ?thesis
    using assms(2,3) init by (auto simp: vmm_alloc_internal_def)
qed

lemma vmm_alloc_internal_wf:
  assumes "vmm_wf s" and "0 < n" and "n \<le> VMM_MAX_PAGES"
    and "align AND (align - 1) = 0" and "align \<noteq> 0"
  shows "\<exists>s' a. vmm_alloc_internal n align tag kern s = Some (s', a) \<and> vmm_wf s'"
  using vmm_alloc_internal_spec [OF assms, of tag kern] alloc_update_wf [OF assms(1) _ assms(2)] assms(1)
  by (elim disjE exE conjE) auto

lemma page_size_pow2: "VMM_PAGE_SIZE AND (VMM_PAGE_SIZE - 1) = 0" "VMM_PAGE_SIZE \<noteq> 0"
  by simp_all

text \<open>Below the last page of the address space the rounding of a size does not wrap.\<close>

lemma pages_for_pos:
  assumes "sz \<noteq> 0" and "sz \<le> 0xFFFFF000"
  shows "0 < pages_for sz" and "pages_for sz = (unat sz + 4095) div 4096"
proof -
  have "unat sz \<le> 0xFFFFF000" using assms(2) by (simp add: word_le_nat_alt)
  then have "unat (sz + 4095) = unat sz + 4095" by (simp add: unat_word_ariths)
  moreover have "sz + VMM_PAGE_SIZE - 1 = sz + 4095" by simp
  moreover have "unat VMM_PAGE_SIZE = 4096" by simp
  ultimately show eq: "pages_for sz = (unat sz + 4095) div 4096"
    by (simp only: pages_for_def unat_div_u32)
  have "0 < unat sz" using assms(1) by (simp add: unat_gt_0)
  then show "0 < pages_for sz" unfolding eq by simp
qed

lemma vmm_alloc_wf [inv_intros]:
  assumes "vmm_wf s" and "sz \<le> 0xFFFFF000"
  shows "\<exists>s' a. vmm_alloc sz s = Some (s', a) \<and> vmm_wf s'"
    and "\<exists>s' a. vmm_alloc_aligned sz align s = Some (s', a) \<and> vmm_wf s'"
    and "\<exists>s' a. vmm_alloc_tagged sz tag kern s = Some (s', a) \<and> vmm_wf s'"
  using vmm_alloc_internal_wf [OF assms(1) pages_for_pos(1) [OF _ assms(2)]] assms(1) page_size_pow2
  by (auto simp: vmm_alloc_def vmm_alloc_aligned_def vmm_alloc_tagged_def not_less)

section \<open>Release and tags keep the invariant\<close>

definition freed_page :: "nat \<Rightarrow> vmm_page \<Rightarrow> vmm_page" where
  "freed_page j p = p\<lparr>pg_state := VMM_PAGE_FREE, pg_alloc_pages := 0, pg_tag := 0,
     pg_is_kernel := False\<rparr>"

lemma freed_page_eq: "page_ok k p \<Longrightarrow> freed_page j p = free_page k"
  by (simp add: freed_page_def page_ok_def free_page_def)

lemma free_pages_loop_spec:
  assumes "i + n \<le> length pt" and "j \<le> n"
  shows "\<exists>m. j \<le> m \<and> m \<le> n \<and>
    free_pages_loop i [j..<n] (update_range i j freed_page pt) = Some (update_range i m freed_page pt) \<and>
    ((\<forall>l. j \<le> l \<and> l < n \<longrightarrow> pg_state (pt ! (i + l)) = VMM_PAGE_USED) \<longrightarrow> m = n)"
  using assms(2)
proof (induction "n - j" arbitrary: j)
  case 0
  then show ?case by auto
next
  case (Suc d)
  then have jn: "j < n" and d: "d = n - Suc j" by simp_all
  then have upt: "[j..<n] = j # [Suc j..<n]" by (simp add: upt_conv_Cons)
  let ?pt = "update_range i j freed_page pt"
  have nth: "?pt ! (i + j) = pt ! (i + j)" using jn assms(1) by (simp add: nth_update_range)
  have step: "?pt[i + j := freed_page j (pt ! (i + j))] = update_range i (Suc j) freed_page pt"
    using jn assms(1) by (simp add: update_range_Suc)
  show ?case
  proof (cases "pg_state (pt ! (i + j)) = VMM_PAGE_USED")
    case False
    with jn assms(1) have "free_pages_loop i [j..<n] ?pt = Some ?pt"
      by (simp add: upt rd_in nth)
    with False jn show ?thesis by (intro exI [of _ j]) auto
  next
    case True
    with jn assms(1) step have "free_pages_loop i [j..<n] ?pt =
        free_pages_loop i [Suc j..<n] (update_range i (Suc j) freed_page pt)"
      by (simp add: upt rd_in wr_in nth freed_page_def)
    with Suc.hyps(1) [OF d] jn obtain m where m: "Suc j \<le> m" "m \<le> n"
      "free_pages_loop i [j..<n] ?pt = Some (update_range i m freed_page pt)"
      "(\<forall>l. Suc j \<le> l \<and> l < n \<longrightarrow> pg_state (pt ! (i + l)) = VMM_PAGE_USED) \<longrightarrow> m = n"
      by auto
    then show ?thesis by (intro exI [of _ m]) auto
  qed
qed

lemma free_update_wf:
  assumes "vmm_wf s" and "i < VMM_MAX_PAGES" and "m \<le> pg_alloc_pages (page_table s ! i)"
  shows "vmm_wf (s\<lparr>page_table := update_range i m freed_page (page_table s)\<rparr>)"
proof -
  let ?pt = "page_table s" and ?pt' = "update_range i m freed_page (page_table s)"
  from assms(1) have t: "table_ok ?pt" and blocks: "\<And>k. k < VMM_MAX_PAGES \<Longrightarrow> block_ok ?pt k"
    by (simp_all add: vmm_wf_def)
  have nth: "?pt' ! k = (if i \<le> k \<and> k < i + m then free_page k else ?pt ! k)"
    if "k < VMM_MAX_PAGES" for k
    using that table_length [OF t] table_page [OF t that]
    by (simp add: nth_update_range freed_page_eq)
  have "table_ok ?pt'"
    using t
  proof (rule table_ok_update)
    fix j p
    assume "page_ok (i + j) p"
    then show "page_ok (i + j) (freed_page j p)" by (simp only: freed_page_eq) (simp add: page_ok_def)
  qed
  moreover have "block_ok ?pt' k" if k: "k < VMM_MAX_PAGES" for k
  proof (cases "i \<le> k \<and> k < i + m")
    case True
    then show ?thesis using k by (simp add: block_ok_def nth)
  next
    case False
    then have eq: "pg_alloc_pages (?pt' ! k) = pg_alloc_pages (?pt ! k)" using nth [OF k] by auto
    have "\<not> (i \<le> l \<and> l < i + m)" if l: "k < l" "l < k + pg_alloc_pages (?pt ! k)" for l
    proof
      assume il: "i \<le> l \<and> l < i + m"
      with False l have "k < i \<or> i + m \<le> k" by auto
      then have ki: "k < i" using il l by auto
      with il l have "i < k + pg_alloc_pages (?pt ! k)" by simp
      with blocks [OF k] ki have "pg_alloc_pages (?pt ! i) = 0" by (simp add: block_ok_def)
      with assms(3) il show False by simp
    qed
    with blocks [OF k] nth show ?thesis by (auto simp: block_ok_def eq)
  qed
  ultimately show ?thesis using assms(1) by (simp add: vmm_wf_def)
qed

lemma find_page_Some: "find_page ps a = Some i \<Longrightarrow> i < length ps"
  by (induction ps arbitrary: i) (auto split: if_splits)

lemma vmm_free_wf [inv_intros]:
  assumes "vmm_wf s"
  shows "\<exists>s'. vmm_free a s = Some s' \<and> vmm_wf s'"
proof (cases "find_page (page_table s) a")
  case None
  with assms show ?thesis by (simp add: vmm_free_def)
next
  case (Some i)
  from assms have t: "table_ok (page_table s)" by (simp add: vmm_wf_def)
  with find_page_Some [OF Some] have i: "i < VMM_MAX_PAGES" by (simp add: table_length)
  let ?n = "pg_alloc_pages (page_table s ! i)"
  have "i + ?n \<le> length (page_table s)"
    using assms i table_length [OF t] by (simp add: vmm_wf_def block_ok_def)
  from free_pages_loop_spec [OF this, of 0] obtain m where "m \<le> ?n"
    "free_pages_loop i [0..<?n] (page_table s) = Some (update_range i m freed_page (page_table s))"
    by auto
  with free_update_wf [OF assms i] Some assms show ?thesis
    by (auto simp: vmm_free_def Let_def)
qed

lemma block_ok_same:
  assumes "\<And>k. k < VMM_MAX_PAGES \<Longrightarrow> pg_alloc_pages (pt' ! k) = pg_alloc_pages (pt ! k) \<and>
      pg_state (pt' ! k) = pg_state (pt ! k)"
    and "block_ok pt i" and "i < VMM_MAX_PAGES"
  shows "block_ok pt' i"
  using assms(2,3) assms(1) [of i] by (auto simp: block_ok_def assms(1))

lemma vmm_set_tag_wf [inv_intros]:
  assumes "vmm_wf s"
  shows "vmm_wf (vmm_set_tag a tag s)"
proof -
  have "vmm_wf (s\<lparr>page_table := (page_table s)[i := (page_table s ! i)\<lparr>pg_tag := tag\<rparr>]\<rparr>)"
    if "pg_state (page_table s ! i) = VMM_PAGE_USED" "i < VMM_MAX_PAGES" for i
  proof -
    let ?pt = "page_table s" and ?pt' = "(page_table s)[i := (page_table s ! i)\<lparr>pg_tag := tag\<rparr>]"
    from assms have t: "table_ok ?pt" by (simp add: vmm_wf_def)
    have same: "pg_alloc_pages (?pt' ! k) = pg_alloc_pages (?pt ! k) \<and> pg_state (?pt' ! k) = pg_state (?pt ! k)"
      if "k < VMM_MAX_PAGES" for k
      using that table_length [OF t] by (cases "k = i") simp_all
    have "table_ok ?pt'"
      using t that by (auto simp: table_ok_def nth_list_update page_ok_def)
    moreover have "block_ok ?pt' k" if "k < VMM_MAX_PAGES" for k
      using same by (rule block_ok_same) (use assms that in \<open>simp_all add: vmm_wf_def\<close>)
    ultimately show ?thesis using assms by (simp add: vmm_wf_def)
  qed
  then show ?thesis
    using assms find_page_Some [of "page_table s" a]
    by (auto simp: vmm_set_tag_def Let_def vmm_wf_def table_length split: option.splits)
qed

section \<open>Runs of the virtual memory manager\<close>

datatype vmm_op =
    Vmm_init
  | Vmm_reserve_range u32 u32
  | Vmm_alloc u32
  | Vmm_alloc_aligned u32 u32
  | Vmm_alloc_tagged u32 u32 bool
  | Vmm_free u32
  | Vmm_set_tag u32 u32

fun vmm_step :: "vmm_op \<Rightarrow> vmm \<Rightarrow> vmm option" where
  "vmm_step Vmm_init s = Some (vmm_init s)"
| "vmm_step (Vmm_reserve_range a b) s = vmm_reserve_range a b s"
| "vmm_step (Vmm_alloc sz) s = map_option fst (vmm_alloc sz s)"
| "vmm_step (Vmm_alloc_aligned sz al) s = map_option fst (vmm_alloc_aligned sz al s)"
| "vmm_step (Vmm_alloc_tagged sz tag k) s = map_option fst (vmm_alloc_tagged sz tag k s)"
| "vmm_step (Vmm_free a) s = vmm_free a s"
| "vmm_step (Vmm_set_tag a tag) s = Some (vmm_set_tag a tag s)"

fun vmm_op_ok :: "vmm_op \<Rightarrow> bool" where
  "vmm_op_ok (Vmm_alloc sz) \<longleftrightarrow> sz \<le> 0xFFFFF000"
| "vmm_op_ok (Vmm_alloc_aligned sz al) \<longleftrightarrow> sz \<le> 0xFFFFF000"
| "vmm_op_ok (Vmm_alloc_tagged sz tag k) \<longleftrightarrow> sz \<le> 0xFFFFF000"
| "vmm_op_ok _ \<longleftrightarrow> True"

lemma vmm_step_wf:
  assumes "vmm_wf s" and "vmm_op_ok x"
  shows "\<exists>t. vmm_step x s = Some t \<and> vmm_wf t"
proof (cases x)
  case Vmm_init
  with assms show ?thesis by (simp add: vmm_init_def vmm_wf_def)
next
  case (Vmm_alloc sz)
  with vmm_alloc_wf(1) [OF assms(1), of sz] assms(2) show ?thesis by auto
next
  case (Vmm_alloc_aligned sz al)
  with vmm_alloc_wf(2) [OF assms(1), of sz al] assms(2) show ?thesis by auto
next
  case (Vmm_alloc_tagged sz tag k)
  with vmm_alloc_wf(3) [OF assms(1), of sz tag k] assms(2) show ?thesis by auto
qed (use assms(1) in \<open>simp_all add: inv_intros\<close>)

interpretation vmm_sys: op_system vmm_step vmm_op_ok vmm_wf
  by unfold_locales (use vmm_step_wf in fastforce)+

section \<open>Lemmas for the properties\<close>

lemma page_test:
  assumes "table_ok pt" and "i < VMM_MAX_PAGES"
  shows "pg_base_addr (pt ! i) \<le> a \<and> a < pg_base_addr (pt ! i) + pg_size (pt ! i) \<longleftrightarrow>
    0x100000 + i * 4096 \<le> unat a \<and> unat a < 0x100000 + (i + 1) * 4096"
proof -
  have "pg_size (pt ! i) = VMM_PAGE_SIZE" using table_page [OF assms] by (simp add: page_ok_def)
  moreover have "unat (VMM_BASE_ADDRESS + of_nat i * VMM_PAGE_SIZE + VMM_PAGE_SIZE) =
      0x100000 + (i + 1) * 4096"
    using unat_page_base [OF assms(2)] assms(2) by (simp add: unat_word_ariths unat_of_nat)
  ultimately show ?thesis
    by (simp only: page_base [OF assms] word_le_nat_alt word_less_nat_alt unat_page_base [OF assms(2)])
qed

lemma find_page_nth:
  assumes "i < length ps" and "pg_base_addr (ps ! i) \<le> a \<and> a < pg_base_addr (ps ! i) + pg_size (ps ! i)"
    and "\<And>k. k < i \<Longrightarrow> \<not> (pg_base_addr (ps ! k) \<le> a \<and> a < pg_base_addr (ps ! k) + pg_size (ps ! k))"
  shows "find_page ps a = Some i"
  using assms
proof (induction ps arbitrary: i)
  case Nil
  then show ?case by simp
next
  case (Cons p ps)
  show ?case
  proof (cases i)
    case 0
    with Cons.prems show ?thesis by simp
  next
    case (Suc j)
    have "find_page ps a = Some j"
    proof (rule Cons.IH)
      fix k
      assume "k < j"
      then show "\<not> (pg_base_addr (ps ! k) \<le> a \<and> a < pg_base_addr (ps ! k) + pg_size (ps ! k))"
        using Cons.prems(3) [of "Suc k"] Suc by simp
    qed (use Cons.prems Suc in simp_all)
    with Cons.prems(3) [of 0] Suc show ?thesis by simp
  qed
qed

text \<open>An address inside page \<open>i\<close> is found at \<open>i\<close>.\<close>

lemma find_page_at:
  assumes "table_ok pt" and "i < VMM_MAX_PAGES"
    and "0x100000 + i * 4096 \<le> unat a" and "unat a < 0x100000 + (i + 1) * 4096"
  shows "find_page pt a = Some i"
proof (rule find_page_nth)
  show "i < length pt" using assms by (simp add: table_length)
  show "pg_base_addr (pt ! i) \<le> a \<and> a < pg_base_addr (pt ! i) + pg_size (pt ! i)"
    using assms page_test by blast
  fix k
  assume k: "k < i"
  then have "\<not> unat a < 0x100000 + (k + 1) * 4096" using assms(3) by simp
  with page_test [OF assms(1)] k assms(2)
  show "\<not> (pg_base_addr (pt ! k) \<le> a \<and> a < pg_base_addr (pt ! k) + pg_size (pt ! k))"
    by (meson order.strict_trans)
qed

lemma freed_used:
  assumes "table_ok pt" and "suitable pt n align i"
  shows "update_range i n freed_page (update_range i n (used_page n tag kern) pt) = pt"
proof (rule nth_equalityI)
  fix k
  assume "k < length (update_range i n freed_page (update_range i n (used_page n tag kern) pt))"
  then have k: "k < VMM_MAX_PAGES" by (simp add: table_length [OF assms(1)])
  show "update_range i n freed_page (update_range i n (used_page n tag kern) pt) ! k = pt ! k"
  proof (cases "i \<le> k \<and> k < i + n")
    case True
    then have "pg_state (pt ! (i + (k - i))) = VMM_PAGE_FREE"
      using assms(2) unfolding suitable_def all_free_def by (metis le_add_diff_inverse nat_add_left_cancel_less)
    then have "pt ! k = free_page k" using True page_free [OF assms(1) k] by simp
    then show ?thesis
      using True k by (simp add: nth_update_range table_length [OF assms(1)] freed_page_def used_page_def
        free_page_def)
  next
    case False
    then show ?thesis using k by (auto simp: nth_update_range table_length [OF assms(1)])
  qed
qed simp

lemma count_loop_total:
  assumes "length pt = VMM_MAX_PAGES" and "\<And>k. k < VMM_MAX_PAGES \<Longrightarrow> block_ok pt k"
    and "i \<le> VMM_MAX_PAGES" and "u + f + r = i"
  shows "\<exists>u' f' r'. count_loop pt i (u, f, r) = Some (u', f', r') \<and> u' + f' + r' = VMM_MAX_PAGES"
  using assms(3,4)
proof (induction "VMM_MAX_PAGES - i" arbitrary: i u f r rule: less_induct)
  case less
  show ?case
  proof (cases "i < VMM_MAX_PAGES")
    case False
    with less.prems show ?thesis by (subst count_loop.simps) simp
  next
    case True
    define n where "n = (if pg_alloc_pages (pt ! i) > 0 then pg_alloc_pages (pt ! i) else 1)"
    have n: "0 < n" "i + n \<le> VMM_MAX_PAGES"
      using assms(2) [OF True] True by (auto simp: n_def block_ok_def)
    obtain u' f' r' where u': "(case pg_state (pt ! i) of VMM_PAGE_USED \<Rightarrow> (u + n, f, r)
        | VMM_PAGE_RESERVED \<Rightarrow> (u, f, r + n) | VMM_PAGE_FREE \<Rightarrow> (u, f + n, r)) = (u', f', r')"
      and sum: "u' + f' + r' = i + n"
      using less.prems by (cases "pg_state (pt ! i)") auto
    have "count_loop pt i (u, f, r) = count_loop pt (i + n) (u', f', r')"
    proof -
      have "rd pt i = Some (pt ! i)" using True assms(1) by (simp add: rd_in)
      then show ?thesis
        by (subst count_loop.simps)
          (simp only: True if_True bind.bind_lunit Let_def n_def [symmetric] u')
    qed
    with less.hyps [of "i + n" u' f' r'] n sum True show ?thesis by simp
  qed
qed

lemma first_zero: "P 0 \<Longrightarrow> (\<forall>k < i. \<not> P k) \<longleftrightarrow> i = (0 :: nat)"
  by auto

section \<open>Properties\<close>

text \<open>C4.  From \<open>vmm_init\<close> on, no sequence of calls makes an assertion fail or an index
  leave the table, as long as no requested size is within a page of \<open>2 ^ 32\<close>; the table keeps
  its addresses, a free page carries no tag, owner or allocation record, and recorded
  allocations stay inside the table and never overlap.\<close>

theorem vmm_ops_safe:
  "\<forall>x \<in> set xs. vmm_op_ok x \<Longrightarrow> \<exists>t. run_ops vmm_step xs (vmm_init vmm_boot) = Some t \<and> vmm_wf t"
  by (rule vmm_sys.run_safe [OF vmm_init_wf])

theorem vmm_ops_safe_witness:
  "\<exists>t. run_ops vmm_step [Vmm_alloc 5000, Vmm_reserve_range 0x101000 0x102000, Vmm_free 0x100000]
     (vmm_init vmm_boot) = Some t \<and> vmm_wf t"
  by (rule vmm_ops_safe) simp

text \<open>C5.  \<open>vmm_alloc_aligned\<close> is first fit: it always returns; it hands out the lowest
  aligned run of free pages that is long enough, marks exactly those pages and records the
  length at the first; and it returns \<open>NULL\<close>, with the table unchanged, only when there is
  no such run.\<close>

theorem vmm_alloc_aligned_first_fit:
  assumes "vmm_wf s" and "sz \<noteq> 0" and "sz \<le> 0xFFFFF000" and "pages_for sz \<le> VMM_MAX_PAGES"
    and "align AND (align - 1) = 0" and "align \<noteq> 0"
  shows "(\<exists>i. suitable (page_table s) (pages_for sz) align i \<and>
       (\<forall>k < i. \<not> suitable (page_table s) (pages_for sz) align k) \<and>
       vmm_alloc_aligned sz align s =
         Some (s\<lparr>page_table := update_range i (pages_for sz) (used_page (pages_for sz) 0 False)
                   (page_table s)\<rparr>,
               VMM_BASE_ADDRESS + of_nat i * VMM_PAGE_SIZE)) \<or>
    ((\<forall>i. \<not> suitable (page_table s) (pages_for sz) align i) \<and> vmm_alloc_aligned sz align s = Some (s, 0))"
proof -
  have "vmm_alloc_aligned sz align s = vmm_alloc_internal (pages_for sz) align 0 False s"
    using assms(2,4-6) by (simp add: vmm_alloc_aligned_def)
  then show ?thesis
    using vmm_alloc_internal_spec [OF assms(1) pages_for_pos(1) [OF assms(2,3)] assms(4-6), of 0 False]
    by simp
qed

theorem vmm_alloc_aligned_first_fit_witness:
  "\<exists>s'. vmm_alloc_aligned 5000 0x10000 (vmm_init vmm_boot) = Some (s', 0x100000)"
proof -
  let ?pt = "page_table (vmm_init vmm_boot)"
  have two: "pages_for 5000 = 2" by (simp add: pages_for_def)
  have "suitable ?pt 2 0x10000 0"
    by (simp add: suitable_def all_free_def vmm_init_def vmm_boot_def)
  note first = first_zero [of "suitable ?pt 2 0x10000", OF this] and this
  with vmm_alloc_aligned_first_fit [OF vmm_init_wf, of 5000 "0x10000"]
  show ?thesis by (auto simp: two first)
qed

text \<open>\<open>vmm_free\<close> of the address that \<open>vmm_alloc_tagged\<close> returned restores the whole
  state: the table is again what it was before the allocation.\<close>

theorem vmm_alloc_free_roundtrip:
  assumes "vmm_wf s" and "sz \<le> 0xFFFFF000"
    and "vmm_alloc_tagged sz tag kern s = Some (s', a)" and "a \<noteq> 0"
  shows "vmm_free a s' = Some s"
proof -
  let ?n = "pages_for sz" and ?pt = "page_table s"
  from assms(3,4) have sz: "sz \<noteq> 0" and n: "?n \<le> VMM_MAX_PAGES"
    and internal: "vmm_alloc_internal ?n VMM_PAGE_SIZE tag kern s = Some (s', a)"
    by (auto simp: vmm_alloc_tagged_def split: if_splits)
  from pages_for_pos(1) [OF sz assms(2)] have pos: "0 < ?n" .
  from vmm_alloc_internal_spec [OF assms(1) pos n page_size_pow2, of tag kern] internal assms(4)
  obtain i where i: "suitable ?pt ?n VMM_PAGE_SIZE i"
    and s': "s' = s\<lparr>page_table := update_range i ?n (used_page ?n tag kern) ?pt\<rparr>"
    and a: "a = VMM_BASE_ADDRESS + of_nat i * VMM_PAGE_SIZE" by auto
  from assms(1) have t: "table_ok ?pt" and init: "vmm_initialized s" by (simp_all add: vmm_wf_def)
  have "vmm_wf s'" unfolding s' using assms(1) i pos by (rule alloc_update_wf)
  then have t': "table_ok (page_table s')" by (simp add: vmm_wf_def)
  from i have fits: "i + ?n \<le> VMM_MAX_PAGES" by (simp add: suitable_def)
  with pos have im: "i < VMM_MAX_PAGES" by simp
  have ua: "unat a = 0x100000 + i * 4096" unfolding a by (rule unat_page_base [OF im])
  have found: "find_page (page_table s') a = Some i"
    by (rule find_page_at [OF t' im]) (simp_all add: ua)
  have nth: "page_table s' ! k = used_page ?n tag kern (k - i) (?pt ! k)" if "i \<le> k" "k < i + ?n" for k
    using that fits table_length [OF t] by (simp add: s' nth_update_range)
  then have head: "page_table s' ! i = used_page ?n tag kern 0 (?pt ! i)" using pos by simp
  have "i + ?n \<le> length (page_table s')" using fits table_length [OF t'] by simp
  from free_pages_loop_spec [OF this, of 0] nth obtain m where
    "free_pages_loop i [0..<?n] (page_table s') = Some (update_range i m freed_page (page_table s'))"
    "m = ?n" by (auto simp: used_page_def)
  moreover have "update_range i ?n freed_page (page_table s') = ?pt"
    using freed_used [OF t i] by (simp add: s')
  ultimately have "free_pages_loop i [0..<?n] (page_table s') = Some ?pt" by simp
  then show ?thesis
    using assms(4) init found head pos fits by (simp add: vmm_free_def s' used_page_def Let_def)
qed

theorem vmm_alloc_free_roundtrip_witness:
  "\<exists>s' a. vmm_alloc_tagged 5000 7 True (vmm_init vmm_boot) = Some (s', a) \<and>
     vmm_free a s' = Some (vmm_init vmm_boot)"
proof -
  let ?s = "vmm_init vmm_boot"
  have two: "pages_for 5000 = 2" by (simp add: pages_for_def)
  have free: "suitable (page_table ?s) 2 VMM_PAGE_SIZE 0"
    by (simp add: suitable_def all_free_def vmm_init_def vmm_boot_def)
  have "\<exists>s'. vmm_alloc_tagged 5000 7 True ?s = Some (s', VMM_BASE_ADDRESS)"
    using vmm_alloc_internal_spec [OF vmm_init_wf _ _ page_size_pow2, of 2 7 True] free
    by (auto simp: vmm_alloc_tagged_def two first_zero [of "suitable (page_table ?s) 2 VMM_PAGE_SIZE", OF free])
  then obtain s' where s': "vmm_alloc_tagged 5000 7 True ?s = Some (s', VMM_BASE_ADDRESS)" ..
  with vmm_alloc_free_roundtrip [OF vmm_init_wf _ s'] show ?thesis by auto
qed

text \<open>The counting loop of \<open>vmm_stats\<close> ends, stays inside the table and accounts for
  every page exactly once: used, free and reserved kilobytes add up to 4096.\<close>

theorem vmm_stats_total:
  assumes "vmm_wf s"
  shows "\<exists>u f r. vmm_stats s = Some (u, f, r) \<and> unat u + unat f + unat r = 4096"
proof -
  from assms have "length (page_table s) = VMM_MAX_PAGES"
    "\<And>k. k < VMM_MAX_PAGES \<Longrightarrow> block_ok (page_table s) k" by (simp_all add: vmm_wf_def table_ok_def)
  from count_loop_total [OF this, of 0 0 0 0] obtain u f r where
    eq: "count_loop (page_table s) 0 (0, 0, 0) = Some (u, f, r)" "u + f + r = VMM_MAX_PAGES" by auto
  have "unat (of_nat n * VMM_PAGE_SIZE div 1024 :: u32) = n * 4" if "n \<le> VMM_MAX_PAGES" for n
    using that by (simp add: unat_word_ariths unat_of_nat)
  with eq show ?thesis by (simp add: vmm_stats_def)
qed

theorem vmm_stats_total_witness:
  "\<exists>u f r. vmm_stats (vmm_init vmm_boot) = Some (u, f, r) \<and> unat u + unat f + unat r = 4096"
  by (rule vmm_stats_total [OF vmm_init_wf])

text \<open>A size within a page of \<open>2 ^ 32\<close> rounds up to zero pages, passes the check for
  requests that are too large and runs into the assertion of \<open>vmm_alloc_internal\<close>: the
  kernel stops instead of returning \<open>NULL\<close>.\<close>

theorem vmm_alloc_huge_asserts: "0xFFFFF000 < sz \<Longrightarrow> vmm_alloc sz s = None"
proof -
  assume "0xFFFFF000 < sz"
  then have "0xFFFFF000 < unat sz" by (simp add: word_less_nat_alt)
  then have "(unat sz + 4095) mod 2 ^ 32 = (unat sz + 4095 - 2 ^ 32) mod 2 ^ 32"
    by (intro le_mod_geq) simp
  also have "\<dots> \<le> unat sz + 4095 - 2 ^ 32" by (rule mod_less_eq_dividend)
  also have "\<dots> < 4096" using u32_lt [of sz] by simp
  finally have "unat (sz + 4095) < 4096" by (simp add: unat_word_ariths)
  moreover have "sz + VMM_PAGE_SIZE - 1 = sz + 4095" by simp
  moreover have "unat VMM_PAGE_SIZE = 4096" by simp
  ultimately have "pages_for sz = 0" by (simp only: pages_for_def unat_div_u32 div_less)
  moreover have "sz \<noteq> 0" using \<open>0xFFFFF000 < unat sz\<close> by auto
  ultimately show ?thesis by (simp add: vmm_alloc_def vmm_alloc_internal_def)
qed

theorem vmm_alloc_huge_asserts_witness: "vmm_alloc 0xFFFFFFFF (vmm_init vmm_boot) = None"
  by (rule vmm_alloc_huge_asserts) simp

end
