(* ===== verification/Fs.thy ===== *)
theory Fs
  imports Prelude
begin

text \<open>
  The in-memory file system, \<open>usr/drivers/fs.c\<close> and \<open>usr/include/sys/fs.h\<close>: an array of 64
  files and directories linked to their parents, a list of free slots, and the current
  directory.

  State: \<open>root_fs\<close> and \<open>current_dir\<close>.  A \<open>File*\<close> is the index of the file in the array, or
  \<open>None\<close> for \<open>NULL\<close>; a \<open>const char*\<close> is a string without its terminating zero, or \<open>None\<close>.
  The heap (\<open>malloc\<close>, \<open>realloc\<close>) is the argument \<open>alloc\<close>: asked for a number of bytes, it
  answers with the block's initial contents or \<open>None\<close>.  The clock is the argument \<open>now\<close>.
  Sizes are natural numbers; the one addition that can wrap is written out modulo \<open>2 ^ 32\<close>.
\<close>

section \<open>Data\<close>

type_synonym alloc = "nat \<Rightarrow> u8 list option"

record fs_file =
  f_name :: string
  f_data :: "u8 list option"
  f_size :: nat
  f_allocated :: nat
  f_is_open :: bool
  f_position :: nat
  f_is_dir :: bool
  f_permissions :: u8
  f_inode :: u32
  f_parent :: "nat option"
  f_created :: u64
  f_modified :: u64

record fs =
  fs_files :: "fs_file list"
  fs_count :: nat
  fs_next_inode :: u32
  fs_free :: "bool list"
  fs_cwd :: "nat option"

abbreviation MAX_FILES :: nat where "MAX_FILES \<equiv> 64"
abbreviation MAX_FILENAME_LEN :: nat where "MAX_FILENAME_LEN \<equiv> 32"
abbreviation MAX_FILE_SIZE :: nat where "MAX_FILE_SIZE \<equiv> 8192"
abbreviation FS_BLOCK_SIZE :: nat where "FS_BLOCK_SIZE \<equiv> 512"

abbreviation FS_SUCCESS :: int where "FS_SUCCESS \<equiv> 0"
abbreviation FS_ERR_FULL :: int where "FS_ERR_FULL \<equiv> -1"
abbreviation FS_ERR_NAME_TOO_LONG :: int where "FS_ERR_NAME_TOO_LONG \<equiv> -2"
abbreviation FS_ERR_EXISTS :: int where "FS_ERR_EXISTS \<equiv> -3"
abbreviation FS_ERR_NOT_FOUND :: int where "FS_ERR_NOT_FOUND \<equiv> -4"
abbreviation FS_ERR_NO_MEMORY :: int where "FS_ERR_NO_MEMORY \<equiv> -5"
abbreviation FS_ERR_FILE_OPEN :: int where "FS_ERR_FILE_OPEN \<equiv> -6"
abbreviation FS_ERR_NOT_OPEN :: int where "FS_ERR_NOT_OPEN \<equiv> -7"
abbreviation FS_ERR_NOT_EMPTY :: int where "FS_ERR_NOT_EMPTY \<equiv> -8"
abbreviation FS_ERR_INVALID_PATH :: int where "FS_ERR_INVALID_PATH \<equiv> -9"
abbreviation FS_ERR_SEEK_BOUNDS :: int where "FS_ERR_SEEK_BOUNDS \<equiv> -10"

abbreviation FS_PERM_READ :: u8 where "FS_PERM_READ \<equiv> 1"
abbreviation FS_PERM_WRITE :: u8 where "FS_PERM_WRITE \<equiv> 2"
abbreviation FS_PERM_EXEC :: u8 where "FS_PERM_EXEC \<equiv> 4"
abbreviation FS_PERM_DEFAULT :: u8 where "FS_PERM_DEFAULT \<equiv> FS_PERM_READ OR FS_PERM_WRITE"

text \<open>The file that \<open>memset\<close> with zero leaves.\<close>

definition zero_file :: fs_file where
  "zero_file = \<lparr>f_name = [], f_data = None, f_size = 0, f_allocated = 0, f_is_open = False,
     f_position = 0, f_is_dir = False, f_permissions = 0, f_inode = 0, f_parent = None,
     f_created = 0, f_modified = 0\<rparr>"

text \<open>\<open>memcpy\<close> of \<open>n\<close> bytes into a block; out of either block it has no result.\<close>

definition copy_into :: "u8 list \<Rightarrow> nat \<Rightarrow> u8 list \<Rightarrow> nat \<Rightarrow> u8 list option" where
  "copy_into dst pos src n =
     (if pos + n \<le> length dst \<and> n \<le> length src
      then Some (take pos dst @ take n src @ drop (pos + n) dst) else None)"

section \<open>Slots, names and lookup\<close>

definition fs_find_free_slot :: "fs \<Rightarrow> nat" where
  "fs_find_free_slot s =
     (case find_first (\<lambda>i. fs_free s ! i) [0..<MAX_FILES] of Some i \<Rightarrow> i | None \<Rightarrow> MAX_FILES)"

definition fs_has_perm :: "fs_file \<Rightarrow> u8 \<Rightarrow> bool" where
  "fs_has_perm fl perm \<longleftrightarrow> f_permissions fl AND perm = perm"

definition fs_init :: "u64 \<Rightarrow> fs" where
  "fs_init now =
     \<lparr>fs_files = (replicate MAX_FILES zero_file)
        [0 := zero_file\<lparr>f_name := ''/'', f_is_dir := True,
                        f_permissions := FS_PERM_READ OR FS_PERM_WRITE OR FS_PERM_EXEC,
                        f_inode := 1, f_created := now, f_modified := now\<rparr>],
      fs_count = 1, fs_next_inode = 2, fs_free = (replicate MAX_FILES True)[0 := False],
      fs_cwd = Some 0\<rparr>"

definition fs_is_valid_path_char :: "char \<Rightarrow> bool" where
  "fs_is_valid_path_char c \<longleftrightarrow>
     (let c = of_char c :: nat in
      (of_char CHR ''a'' \<le> c \<and> c \<le> of_char CHR ''z'') \<or>
      (of_char CHR ''A'' \<le> c \<and> c \<le> of_char CHR ''Z'') \<or>
      (of_char CHR ''0'' \<le> c \<and> c \<le> of_char CHR ''9'') \<or>
      c = of_char CHR ''-'' \<or> c = of_char CHR ''_'' \<or> c = of_char CHR ''.'')"

definition fs_validate_filename :: "string option \<Rightarrow> int" where
  "fs_validate_filename filename =
     (case filename of
        None \<Rightarrow> FS_ERR_INVALID_PATH
      | Some nm \<Rightarrow>
          if length nm = 0 then FS_ERR_INVALID_PATH
          else if length nm \<ge> MAX_FILENAME_LEN then FS_ERR_NAME_TOO_LONG
          else if \<not> list_all fs_is_valid_path_char nm then FS_ERR_INVALID_PATH
          else if nm = ''.'' \<or> nm = ''..'' then FS_ERR_INVALID_PATH
          else FS_SUCCESS)"

definition fs_find_file_in_dir :: "string option \<Rightarrow> nat option \<Rightarrow> fs \<Rightarrow> nat option" where
  "fs_find_file_in_dir filename dir s =
     (case (filename, dir) of
        (Some nm, Some d) \<Rightarrow>
          find_first (\<lambda>i. \<not> fs_free s ! i \<and> f_parent (fs_files s ! i) = Some d \<and>
                          f_name (fs_files s ! i) = nm) [0..<fs_count s]
      | _ \<Rightarrow> None)"

definition fs_find_file :: "string option \<Rightarrow> fs \<Rightarrow> nat option" where
  "fs_find_file filename s = fs_find_file_in_dir filename (fs_cwd s) s"

definition set_file :: "nat \<Rightarrow> fs_file \<Rightarrow> fs \<Rightarrow> fs" where
  "set_file i f s = s\<lparr>fs_files := (fs_files s)[i := f]\<rparr>"

section \<open>Creation and deletion\<close>

text \<open>A \<open>realloc\<close> keeps the old bytes and takes the rest from the new block.\<close>

definition fs_resize_file :: "alloc \<Rightarrow> u64 \<Rightarrow> nat option \<Rightarrow> nat \<Rightarrow> fs \<Rightarrow> fs \<times> int" where
  "fs_resize_file alloc now fl new_size s =
     (case fl of
        None \<Rightarrow> (s, FS_ERR_INVALID_PATH)
      | Some i \<Rightarrow>
          let f = fs_files s ! i in
          if f_is_dir f then (s, FS_ERR_INVALID_PATH)
          else
            let new_size = (if new_size > MAX_FILE_SIZE then MAX_FILE_SIZE else new_size) in
            if new_size > f_allocated f then
              let new_allocated = (new_size + FS_BLOCK_SIZE - 1) div FS_BLOCK_SIZE * FS_BLOCK_SIZE
              in case alloc new_allocated of
                   None \<Rightarrow> (s, FS_ERR_NO_MEMORY)
                 | Some blk \<Rightarrow>
                     let old = (case f_data f of None \<Rightarrow> [] | Some d \<Rightarrow> d) in
                     (set_file i (f\<lparr>f_data := Some (old @ drop (length old) blk),
                                    f_allocated := new_allocated, f_size := new_size,
                                    f_modified := now\<rparr>) s, FS_SUCCESS)
            else (set_file i (f\<lparr>f_size := new_size, f_modified := now\<rparr>) s, FS_SUCCESS))"

definition fs_create_with_perms ::
    "alloc \<Rightarrow> u64 \<Rightarrow> string option \<Rightarrow> u8 \<Rightarrow> fs \<Rightarrow> fs \<times> int" where
  "fs_create_with_perms alloc now filename permissions s =
     (let res = fs_validate_filename filename in
      if res \<noteq> FS_SUCCESS then (s, res)
      else if fs_find_file filename s \<noteq> None then (s, FS_ERR_EXISTS)
      else
        let slot = fs_find_free_slot s in
        if slot = MAX_FILES then (s, FS_ERR_FULL)
        else
          let fl = fs_files s ! slot;
              fl = fl\<lparr>f_name := take (MAX_FILENAME_LEN - 1) (the filename),
                          f_allocated := FS_BLOCK_SIZE\<rparr>
          in case alloc FS_BLOCK_SIZE of
               None \<Rightarrow> (set_file slot (fl\<lparr>f_data := None\<rparr>) s, FS_ERR_NO_MEMORY)
             | Some blk \<Rightarrow>
                 let fl = fl\<lparr>f_data := Some blk, f_size := 0, f_is_open := False,
                       f_is_dir := False, f_parent := fs_cwd s, f_position := 0,
                       f_permissions := permissions, f_inode := fs_next_inode s,
                       f_created := now, f_modified := now\<rparr>
                 in ((set_file slot fl s)
                       \<lparr>fs_free := (fs_free s)[slot := False],
                        fs_next_inode := fs_next_inode s + 1,
                        fs_count := fs_count s + 1\<rparr>, FS_SUCCESS))"

definition fs_create :: "alloc \<Rightarrow> u64 \<Rightarrow> string option \<Rightarrow> fs \<Rightarrow> fs \<times> int" where
  "fs_create alloc now filename s = fs_create_with_perms alloc now filename FS_PERM_DEFAULT s"

definition fs_delete :: "string option \<Rightarrow> fs \<Rightarrow> fs \<times> int" where
  "fs_delete filename s =
     (case fs_find_file filename s of
        None \<Rightarrow> (s, FS_ERR_NOT_FOUND)
      | Some i \<Rightarrow>
          let fl = fs_files s ! i in
          if f_is_open fl then (s, FS_ERR_FILE_OPEN)
          else if i = 0 then (s, FS_ERR_INVALID_PATH)
          else if f_is_dir fl \<and>
                  (\<exists>k \<in> set [0..<MAX_FILES]. \<not> fs_free s ! k \<and> f_parent (fs_files s ! k) = Some i)
               then (s, FS_ERR_NOT_EMPTY)
          else
            let s = (if f_is_dir fl \<and> fs_cwd s = Some i then s\<lparr>fs_cwd := f_parent fl\<rparr> else s)
            in ((set_file i zero_file s)
                  \<lparr>fs_free := (fs_free s)[i := True], fs_count := fs_count s - 1\<rparr>, FS_SUCCESS))"

definition fs_mkdir :: "u64 \<Rightarrow> string option \<Rightarrow> fs \<Rightarrow> fs \<times> int" where
  "fs_mkdir now dirname s =
     (let res = fs_validate_filename dirname in
      if res \<noteq> FS_SUCCESS then (s, res)
      else if fs_find_file dirname s \<noteq> None then (s, FS_ERR_EXISTS)
      else case find_first (\<lambda>i. fs_free s ! i) [0..<MAX_FILES] of
        None \<Rightarrow> (s, FS_ERR_FULL)
      | Some slot \<Rightarrow>
          let new_dir = (fs_files s ! slot)
                \<lparr>f_name := take (MAX_FILENAME_LEN - 1) (the dirname), f_is_dir := True,
                 f_data := None, f_size := 0, f_allocated := 0, f_is_open := False,
                 f_position := 0, f_parent := fs_cwd s,
                 f_permissions := FS_PERM_READ OR FS_PERM_WRITE OR FS_PERM_EXEC,
                 f_inode := fs_next_inode s, f_created := now, f_modified := now\<rparr>
          in ((set_file slot new_dir s)
                \<lparr>fs_free := (fs_free s)[slot := False], fs_next_inode := fs_next_inode s + 1,
                 fs_count := fs_count s + 1\<rparr>, FS_SUCCESS))"

section \<open>Open files\<close>

definition fs_open :: "string option \<Rightarrow> fs \<Rightarrow> fs \<times> int" where
  "fs_open filename s =
     (case fs_find_file filename s of
        None \<Rightarrow> (s, FS_ERR_NOT_FOUND)
      | Some i \<Rightarrow>
          let fl = fs_files s ! i in
          if f_is_dir fl then (s, FS_ERR_INVALID_PATH)
          else if f_is_open fl then (s, FS_ERR_FILE_OPEN)
          else (set_file i (fl\<lparr>f_is_open := True, f_position := 0\<rparr>) s, FS_SUCCESS))"

definition fs_close :: "string option \<Rightarrow> fs \<Rightarrow> fs \<times> int" where
  "fs_close filename s =
     (case fs_find_file filename s of
        None \<Rightarrow> (s, FS_ERR_NOT_FOUND)
      | Some i \<Rightarrow>
          let fl = fs_files s ! i in
          if \<not> f_is_open fl then (s, FS_ERR_NOT_OPEN)
          else (set_file i (fl\<lparr>f_is_open := False\<rparr>) s, FS_SUCCESS))"

text \<open>
  The result of \<open>fs_read\<close> is the list of bytes copied to the buffer, its length the
  returned count; \<open>buf\<close> says whether the buffer pointer is not \<open>NULL\<close>.
\<close>

definition fs_read :: "string option \<Rightarrow> bool \<Rightarrow> nat \<Rightarrow> fs \<Rightarrow> (fs \<times> u8 list) option" where
  "fs_read filename buf sz s =
     (if \<not> buf \<or> sz = 0 then Some (s, [])
      else case fs_find_file filename s of
        None \<Rightarrow> Some (s, [])
      | Some i \<Rightarrow>
          let fl = fs_files s ! i in
          if \<not> f_is_open fl \<or> f_is_dir fl then Some (s, [])
          else if f_permissions fl AND FS_PERM_READ = 0 then Some (s, [])
          else
            let bytes_available = (if f_size fl > f_position fl
                                   then f_size fl - f_position fl else 0);
                bytes_to_read = (if sz < bytes_available then sz else bytes_available)
            in if bytes_to_read > 0 then
                 do { d \<leftarrow> f_data fl;
                      bs \<leftarrow> (if f_position fl + bytes_to_read \<le> length d
                            then Some (take bytes_to_read (drop (f_position fl) d)) else None);
                      Some (set_file i (fl\<lparr>f_position := f_position fl + bytes_to_read\<rparr>) s, bs) }
               else Some (s, []))"

text \<open>The part of \<open>fs_write\<close> that follows its guards, for the file in slot \<open>i\<close>.\<close>

definition fs_write_at :: "alloc \<Rightarrow> u64 \<Rightarrow> nat \<Rightarrow> u8 list \<Rightarrow> nat \<Rightarrow> fs \<Rightarrow> (fs \<times> nat) option" where
  "fs_write_at alloc now i buf sz s =
     (let fl = fs_files s ! i;
          required_size = (f_position fl + sz) mod 2 ^ 32;
          (s, res) = (if required_size > f_size fl
                      then fs_resize_file alloc now (Some i) required_size s
                      else (s, FS_SUCCESS));
          fl = fs_files s ! i;
          available = (if f_allocated fl > f_position fl
                       then f_allocated fl - f_position fl else 0)
      in if res \<noteq> FS_SUCCESS \<and> available = 0 then Some (s, 0)
         else
           let sz = (if res \<noteq> FS_SUCCESS then (if sz < available then sz else available) else sz)
           in do { d \<leftarrow> f_data fl;
                   d \<leftarrow> copy_into d (f_position fl) buf sz;
                   let pos = f_position fl + sz
                   in Some (set_file i (fl\<lparr>f_data := Some d, f_position := pos,
                        f_size := (if pos > f_size fl then pos else f_size fl),
                        f_modified := now\<rparr>) s, sz) })"

definition fs_write ::
    "alloc \<Rightarrow> u64 \<Rightarrow> string option \<Rightarrow> u8 list option \<Rightarrow> nat \<Rightarrow> fs \<Rightarrow> (fs \<times> nat) option" where
  "fs_write alloc now filename buffer sz s =
     (case buffer of None \<Rightarrow> Some (s, 0) | Some buf \<Rightarrow>
      if sz = 0 then Some (s, 0)
      else case fs_find_file filename s of
        None \<Rightarrow> Some (s, 0)
      | Some i \<Rightarrow>
          let fl = fs_files s ! i in
          if \<not> f_is_open fl \<or> f_is_dir fl then Some (s, 0)
          else if \<not> fs_has_perm fl FS_PERM_WRITE then Some (s, 0)
          else fs_write_at alloc now i buf sz s)"

definition fs_seek :: "string option \<Rightarrow> nat \<Rightarrow> fs \<Rightarrow> fs \<times> int" where
  "fs_seek filename offset s =
     (case fs_find_file filename s of
        None \<Rightarrow> (s, FS_ERR_NOT_FOUND)
      | Some i \<Rightarrow>
          let fl = fs_files s ! i in
          if \<not> f_is_open fl then (s, FS_ERR_NOT_OPEN)
          else if offset > f_size fl then (s, FS_ERR_SEEK_BOUNDS)
          else (set_file i (fl\<lparr>f_position := offset\<rparr>) s, FS_SUCCESS))"

definition fs_tell :: "string option \<Rightarrow> fs \<Rightarrow> nat" where
  "fs_tell filename s =
     (case fs_find_file filename s of
        None \<Rightarrow> 0
      | Some i \<Rightarrow> if f_is_open (fs_files s ! i) then f_position (fs_files s ! i) else 0)"

section \<open>Directories\<close>

definition fs_chdir :: "string option \<Rightarrow> fs \<Rightarrow> (fs \<times> int) option" where
  "fs_chdir dirname s =
     (case dirname of
        None \<Rightarrow> None
      | Some nm \<Rightarrow>
          if nm = ''..'' then
            (case fs_cwd s of
               None \<Rightarrow> None
             | Some d \<Rightarrow>
                 (case f_parent (fs_files s ! d) of
                    Some p \<Rightarrow> Some (s\<lparr>fs_cwd := Some p\<rparr>, FS_SUCCESS)
                  | None \<Rightarrow> Some (s, FS_ERR_INVALID_PATH)))
          else
            (case fs_find_file dirname s of
               None \<Rightarrow> Some (s, FS_ERR_NOT_FOUND)
             | Some i \<Rightarrow>
                 if \<not> f_is_dir (fs_files s ! i) then Some (s, FS_ERR_INVALID_PATH)
                 else Some (s\<lparr>fs_cwd := Some i\<rparr>, FS_SUCCESS)))"

text \<open>
  The walk to the root; \<open>fuel\<close> is the number of entries left in the local array (the loop
  stops when it is full).  The innermost directory comes first.
\<close>

fun walk_up :: "fs_file list \<Rightarrow> nat \<Rightarrow> nat option \<Rightarrow> nat list" where
  "walk_up files fuel None = []"
| "walk_up files 0 (Some d) = []"
| "walk_up files (Suc fuel) (Some d) = d # walk_up files fuel (f_parent (files ! d))"

text \<open>
  The second loop, over the directories from the root inwards, building the path; \<open>None\<close>
  is the early return of \<open>NULL\<close>.
\<close>

fun build_path :: "fs_file list \<Rightarrow> nat \<Rightarrow> nat list \<Rightarrow> string \<Rightarrow> string option" where
  "build_path files sz [] path = Some path"
| "build_path files sz (d # ds) path =
     (if f_parent (files ! d) = None then Some (if path = [] then ''/'' else path)
      else if length path + 1 + length (f_name (files ! d)) \<ge> sz then None
      else build_path files sz ds (path @ ''/'' @ f_name (files ! d)))"

text \<open>The result is the string in the buffer, or \<open>None\<close> for \<open>NULL\<close>.\<close>

definition fs_getcwd :: "bool \<Rightarrow> nat \<Rightarrow> fs \<Rightarrow> string option" where
  "fs_getcwd buf sz s =
     (if \<not> buf \<or> sz = 0 then None
      else build_path (fs_files s) sz (rev (walk_up (fs_files s) MAX_FILES (fs_cwd s))) [])"

section \<open>Listings\<close>

text \<open>The slots that \<open>fs_list\<close> prints and the sums that \<open>fs_print_stats\<close> prints.\<close>

definition fs_list :: "fs \<Rightarrow> (string \<times> bool \<times> nat \<times> string \<times> u64) list" where
  "fs_list s =
     map (\<lambda>i. let f = fs_files s ! i in
            (f_name f, f_is_dir f, f_size f,
             [if f_permissions f AND FS_PERM_READ \<noteq> 0 then CHR ''r'' else CHR ''-'',
              if f_permissions f AND FS_PERM_WRITE \<noteq> 0 then CHR ''w'' else CHR ''-'',
              if f_permissions f AND FS_PERM_EXEC \<noteq> 0 then CHR ''x'' else CHR ''-''],
             f_modified f))
       (filter (\<lambda>i. \<not> fs_free s ! i \<and> f_parent (fs_files s ! i) = fs_cwd s) [0..<MAX_FILES])"

definition fs_print_stats :: "fs \<Rightarrow> nat \<times> nat \<times> nat \<times> u32" where
  "fs_print_stats s =
     (let used = filter (\<lambda>i. \<not> fs_free s ! i) [0..<MAX_FILES] in
      (length used, sum_list (map (\<lambda>i. f_size (fs_files s ! i)) used),
       sum_list (map (\<lambda>i. f_allocated (fs_files s ! i)) used), fs_next_inode s))"

section \<open>The invariant\<close>

text \<open>The contract of the heap: a block has the size that was asked for.\<close>

definition alloc_ok :: "alloc \<Rightarrow> bool" where
  "alloc_ok alloc \<longleftrightarrow> (\<forall>n b. alloc n = Some b \<longrightarrow> length b = n)"

definition file_ok :: "fs_file \<Rightarrow> bool" where
  "file_ok f \<longleftrightarrow>
     (if f_is_dir f then f_data f = None \<and> f_size f = 0 \<and> f_allocated f = 0 \<and> \<not> f_is_open f
      else (\<exists>d. f_data f = Some d \<and> length d = f_allocated f) \<and> f_size f \<le> f_allocated f \<and>
           f_position f \<le> f_allocated f \<and> f_allocated f \<le> MAX_FILE_SIZE)"

definition used :: "fs \<Rightarrow> nat \<Rightarrow> bool" where
  "used s i \<longleftrightarrow> i < MAX_FILES \<and> \<not> fs_free s ! i"

definition dir_at :: "fs \<Rightarrow> nat \<Rightarrow> bool" where
  "dir_at s i \<longleftrightarrow> used s i \<and> f_is_dir (fs_files s ! i)"

text \<open>
  Slot 0 is the root; every other slot in use holds a well-formed file or directory whose
  parent is a directory in use; the current directory is one; \<open>file_count\<close> counts the
  slots in use.
\<close>

definition fs_wf :: "fs \<Rightarrow> bool" where
  "fs_wf s \<longleftrightarrow> length (fs_files s) = MAX_FILES \<and> length (fs_free s) = MAX_FILES \<and>
     fs_count s = card {i. used s i} \<and>
     dir_at s 0 \<and> f_parent (fs_files s ! 0) = None \<and>
     (\<forall>i. used s i \<longrightarrow> file_ok (fs_files s ! i) \<and>
        (i \<noteq> 0 \<longrightarrow> (\<exists>p. f_parent (fs_files s ! i) = Some p \<and> dir_at s p))) \<and>
     (\<exists>d. fs_cwd s = Some d \<and> dir_at s d)"

lemma fs_wf_dest:
  assumes "fs_wf s"
  shows "length (fs_files s) = MAX_FILES" "length (fs_free s) = MAX_FILES"
    "fs_count s = card {i. used s i}" "dir_at s 0" "f_parent (fs_files s ! 0) = None"
    "used s i \<Longrightarrow> file_ok (fs_files s ! i)"
    "used s i \<Longrightarrow> i \<noteq> 0 \<Longrightarrow> \<exists>p. f_parent (fs_files s ! i) = Some p \<and> dir_at s p"
    "\<exists>d. fs_cwd s = Some d \<and> dir_at s d"
  using assms unfolding fs_wf_def by blast+

lemma finite_used [simp]: "finite {i. used s i}"
  by (rule finite_subset [of _ "{..<MAX_FILES}"]) (auto simp: used_def)

lemma count_le: "fs_wf s \<Longrightarrow> fs_count s \<le> MAX_FILES"
  using card_mono [of "{..<MAX_FILES}" "{i. used s i}"] fs_wf_dest(3) [of s]
  by (auto simp: used_def subset_eq)

lemma find_file_Some:
  assumes "fs_wf s" and "fs_find_file nm s = Some i"
  shows "used s i" "i \<noteq> 0" "f_parent (fs_files s ! i) = fs_cwd s" "Some (f_name (fs_files s ! i)) = nm"
    "i < fs_count s"
proof -
  from assms(2) obtain n d where nd: "nm = Some n" "fs_cwd s = Some d"
    by (auto simp: fs_find_file_def fs_find_file_in_dir_def split: option.splits)
  with assms(2) have "find_first (\<lambda>i. \<not> fs_free s ! i \<and> f_parent (fs_files s ! i) = Some d \<and>
      f_name (fs_files s ! i) = n) [0..<fs_count s] = Some i"
    by (simp add: fs_find_file_def fs_find_file_in_dir_def)
  then have i: "i < fs_count s" "\<not> fs_free s ! i" "f_parent (fs_files s ! i) = Some d"
    "f_name (fs_files s ! i) = n" by (auto dest: find_first_Some)
  then show "i \<noteq> 0" using fs_wf_dest(5) [OF assms(1)] by (metis option.distinct(1))
  from i count_le [OF assms(1)] nd
  show "used s i" "f_parent (fs_files s ! i) = fs_cwd s" "Some (f_name (fs_files s ! i)) = nm"
    "i < fs_count s" by (simp_all add: used_def)
qed

lemma set_file_simps [simp]:
  "fs_count (set_file i f s) = fs_count s" "fs_free (set_file i f s) = fs_free s"
  "fs_cwd (set_file i f s) = fs_cwd s" "fs_next_inode (set_file i f s) = fs_next_inode s"
  "fs_files (set_file i f s) = (fs_files s)[i := f]" "used (set_file i f s) = used s"
  by (simp_all add: set_file_def used_def fun_eq_iff)

lemma set_file_twice [simp]: "set_file i f (set_file i g s) = set_file i f s"
  by (simp add: set_file_def)

text \<open>Changing a file in use, its kind and parent kept.\<close>

lemma wf_set_file:
  assumes "fs_wf s" and "used s i" and "file_ok f"
    and "f_is_dir f = f_is_dir (fs_files s ! i)" and "f_parent f = f_parent (fs_files s ! i)"
  shows "fs_wf (set_file i f s)"
proof -
  have len: "i < length (fs_files s)" using assms(1,2) fs_wf_dest(1) [OF assms(1)] by (simp add: used_def)
  have dir: "dir_at (set_file i f s) = dir_at s"
    using len assms(4) by (auto simp: dir_at_def fun_eq_iff nth_list_update)
  have "f_parent (fs_files (set_file i f s) ! k) = f_parent (fs_files s ! k)" for k
    using len assms(5) by (simp add: nth_list_update)
  moreover have "file_ok (fs_files (set_file i f s) ! k)" if "used s k" for k
    using len assms(1,3) that fs_wf_dest(6) [OF assms(1)] by (simp add: nth_list_update)
  ultimately show ?thesis
    using assms(1) unfolding fs_wf_def dir by simp
qed

text \<open>Filling a free slot with a file whose parent is the current directory.\<close>

lemma wf_add_file:
  assumes "fs_wf s" and "i < MAX_FILES" and "fs_free s ! i" and "file_ok f" and "f_parent f = fs_cwd s"
    and "s' = (set_file i f s)\<lparr>fs_free := (fs_free s)[i := False], fs_next_inode := n,
      fs_count := Suc (fs_count s)\<rparr>"
  shows "fs_wf s'" and "used s' k \<longleftrightarrow> k = i \<or> used s k"
proof -
  note wf = fs_wf_dest [OF assms(1)]
  have used': "used s' k \<longleftrightarrow> k = i \<or> used s k" for k
    using assms(2,6) wf(2) by (auto simp: used_def nth_list_update)
  then show "used s' k \<longleftrightarrow> k = i \<or> used s k" .
  have ni: "\<not> used s i" using assms(3) by (simp add: used_def)
  have "{k. used s' k} = insert i {k. used s k}" by (auto simp: used')
  then have "card {k. used s' k} = Suc (card {k. used s k})"
    using ni by (simp add: card_insert_disjoint)
  then have count: "fs_count s' = card {k. used s' k}" using assms(6) wf(3) by simp
  have nth: "fs_files s' ! k = (if k = i then f else fs_files s ! k)" for k
    using assms(2,6) wf(1) by (simp add: nth_list_update)
  have dir: "dir_at s' k" if "dir_at s k" for k
    using that ni by (auto simp: dir_at_def used' nth)
  have i0: "i \<noteq> 0" using ni wf(4) by (metis dir_at_def)
  have cwd: "fs_cwd s' = fs_cwd s" using assms(6) by simp
  from wf(8) obtain d where d: "fs_cwd s = Some d" "dir_at s d" by blast
  have "file_ok (fs_files s' ! k) \<and> (k \<noteq> 0 \<longrightarrow> (\<exists>p. f_parent (fs_files s' ! k) = Some p \<and> dir_at s' p))"
    if "used s' k" for k
  proof (cases "k = i")
    case True
    with d dir assms(4,5) show ?thesis by (auto simp: nth)
  next
    case False
    with that have "used s k" by (simp add: used')
    with False wf(6,7) [of k] dir show ?thesis by (auto simp: nth)
  qed
  moreover have "length (fs_files s') = MAX_FILES" "length (fs_free s') = MAX_FILES"
    using assms(6) wf(1,2) by simp_all
  moreover have "f_parent (fs_files s' ! 0) = None" using i0 wf(5) by (simp add: nth)
  ultimately show "fs_wf s'"
    unfolding fs_wf_def using count dir wf(4) d cwd by auto
qed

text \<open>A free slot's contents do not matter.\<close>

lemma wf_free_slot:
  assumes "fs_wf s" and "fs_free s ! i"
  shows "fs_wf (set_file i f s)"
proof -
  have nth: "fs_files (set_file i f s) ! k = fs_files s ! k" if "used s k" for k
    using that assms(2) by (cases "k = i") (simp_all add: used_def)
  have dir: "dir_at (set_file i f s) = dir_at s"
    using nth by (auto simp: dir_at_def fun_eq_iff)
  have "used s 0" using fs_wf_dest(4) [OF assms(1)] by (simp add: dir_at_def)
  with assms(1) nth show ?thesis unfolding fs_wf_def dir by simp
qed

text \<open>Emptying a slot that no file in use has as its parent.\<close>

lemma wf_remove_file:
  assumes "fs_wf s" and "used s i" and "i \<noteq> 0" and "fs_cwd s \<noteq> Some i"
    and "\<And>k. used s k \<Longrightarrow> f_parent (fs_files s ! k) \<noteq> Some i"
    and "s' = (set_file i f s)\<lparr>fs_free := (fs_free s)[i := True], fs_count := fs_count s - 1\<rparr>"
  shows "fs_wf s'" and "used s' k \<longleftrightarrow> k \<noteq> i \<and> used s k"
proof -
  note wf = fs_wf_dest [OF assms(1)]
  have used': "used s' k \<longleftrightarrow> k \<noteq> i \<and> used s k" for k
    using assms(2,6) wf(2) by (auto simp: used_def nth_list_update)
  then show "used s' k \<longleftrightarrow> k \<noteq> i \<and> used s k" .
  have "{k. used s' k} = {k. used s k} - {i}" by (auto simp: used')
  then have count: "fs_count s' = card {k. used s' k}" using assms(2,6) wf(3) by simp
  have nth: "k \<noteq> i \<Longrightarrow> fs_files s' ! k = fs_files s ! k" for k
    using assms(6) by simp
  have dir: "dir_at s' k" if "dir_at s k" "k \<noteq> i" for k
    using that by (auto simp: dir_at_def used' nth)
  from wf(8) obtain d where d: "fs_cwd s = Some d" "dir_at s d" by blast
  have "file_ok (fs_files s' ! k) \<and> (k \<noteq> 0 \<longrightarrow> (\<exists>p. f_parent (fs_files s' ! k) = Some p \<and> dir_at s' p))"
    if "used s' k" for k
  proof -
    from that have k: "k \<noteq> i" "used s k" by (simp_all add: used')
    with wf(6,7) [of k] assms(5) [of k] dir show ?thesis by (fastforce simp: nth)
  qed
  moreover have "length (fs_files s') = MAX_FILES" "length (fs_free s') = MAX_FILES"
    using assms(6) wf(1,2) by simp_all
  moreover have "f_parent (fs_files s' ! 0) = None" using assms(3) wf(5) by (simp add: nth)
  moreover have "fs_cwd s' = Some d" "dir_at s' d" using assms(4,6) d dir [of d] by auto
  ultimately show "fs_wf s'"
    unfolding fs_wf_def using count dir wf(4) assms(3) by auto
qed

section \<open>Every operation keeps the invariant\<close>

text \<open>A file found by name, with what the invariant says of it.\<close>

lemma found_file:
  assumes "fs_wf s" and "fs_find_file nm s = Some i"
  shows "used s i" "file_ok (fs_files s ! i)"
  using find_file_Some [OF assms] fs_wf_dest(6) [OF assms(1)] by simp_all

lemma fs_init_wf: "fs_wf (fs_init now)"
proof -
  have used: "used (fs_init now) i \<longleftrightarrow> i = 0" for i
    by (auto simp: used_def fs_init_def nth_list_update)
  have root: "fs_files (fs_init now) ! 0 = zero_file\<lparr>f_name := ''/'', f_is_dir := True,
      f_permissions := FS_PERM_READ OR FS_PERM_WRITE OR FS_PERM_EXEC,
      f_inode := 1, f_created := now, f_modified := now\<rparr>" by (simp add: fs_init_def)
  have "card {i. used (fs_init now) i} = 1" by (simp add: used)
  then show ?thesis
    unfolding fs_wf_def dir_at_def used root
    by (simp add: fs_init_def zero_file_def file_ok_def)
qed

lemma round_up_block:
  assumes "n \<le> MAX_FILE_SIZE"
  shows "n \<le> (n + FS_BLOCK_SIZE - 1) div FS_BLOCK_SIZE * FS_BLOCK_SIZE"
    and "(n + FS_BLOCK_SIZE - 1) div FS_BLOCK_SIZE * FS_BLOCK_SIZE \<le> MAX_FILE_SIZE"
proof -
  have "(n + 511) mod 512 < 512" by simp
  with div_mult_mod_eq [of "n + 511" 512] have "n \<le> (n + 511) div 512 * 512" by linarith
  moreover have "(n + 511) div 512 \<le> (8192 + 511) div 512" using assms by (intro div_le_mono) simp
  then have "(n + 511) div 512 * 512 \<le> 8192" by simp
  ultimately show "n \<le> (n + FS_BLOCK_SIZE - 1) div FS_BLOCK_SIZE * FS_BLOCK_SIZE"
    and "(n + FS_BLOCK_SIZE - 1) div FS_BLOCK_SIZE * FS_BLOCK_SIZE \<le> MAX_FILE_SIZE" by simp_all
qed

text \<open>
  \<open>fs_resize_file\<close> of a file in use: on success the size is the new one, cut at the
  maximum, the block is large enough for it and the old bytes are kept.
\<close>

lemma fs_resize_file_spec:
  assumes "fs_wf s" and "alloc_ok alloc" and "used s i" and "\<not> f_is_dir (fs_files s ! i)"
  shows "fs_resize_file alloc now (Some i) n s = (s, FS_ERR_NO_MEMORY) \<and>
       (\<exists>k. alloc k = None \<and> k \<le> MAX_FILE_SIZE) \<and> f_allocated (fs_files s ! i) < min n MAX_FILE_SIZE \<or>
    (\<exists>d a. fs_resize_file alloc now (Some i) n s =
       (set_file i ((fs_files s ! i)\<lparr>f_data := Some d, f_allocated := a, f_size := min n MAX_FILE_SIZE,
          f_modified := now\<rparr>) s, FS_SUCCESS) \<and>
       length d = a \<and> f_allocated (fs_files s ! i) \<le> a \<and> a \<le> MAX_FILE_SIZE \<and> min n MAX_FILE_SIZE \<le> a \<and>
       take (f_allocated (fs_files s ! i)) d = the (f_data (fs_files s ! i)))"
proof -
  let ?f = "fs_files s ! i" and ?n = "min n MAX_FILE_SIZE"
  let ?a = "(?n + FS_BLOCK_SIZE - 1) div FS_BLOCK_SIZE * FS_BLOCK_SIZE"
  from fs_wf_dest(6) [OF assms(1,3)] assms(4) obtain d where
    d: "f_data ?f = Some d" "length d = f_allocated ?f" "f_allocated ?f \<le> MAX_FILE_SIZE"
    by (auto simp: file_ok_def)
  have n: "(if n > MAX_FILE_SIZE then MAX_FILE_SIZE else n) = ?n" by simp
  have "?n \<le> MAX_FILE_SIZE" by simp
  note up = round_up_block [OF this]
  show ?thesis
  proof (cases "?n > f_allocated ?f")
    case False
    then have "fs_resize_file alloc now (Some i) n s =
        (set_file i (?f\<lparr>f_size := ?n, f_modified := now\<rparr>) s, FS_SUCCESS)"
      using assms(4) by (simp only: fs_resize_file_def n Let_def option.case if_False)
    moreover have "?f\<lparr>f_size := ?n, f_modified := now\<rparr> =
        ?f\<lparr>f_data := Some d, f_allocated := f_allocated ?f, f_size := ?n, f_modified := now\<rparr>"
      using d(1) by (cases ?f) simp
    moreover have "?n \<le> f_allocated ?f" using False by (simp only: not_less)
    ultimately show ?thesis
      using d by (intro disjI2 exI [of _ d] exI [of _ "f_allocated ?f"]) (simp only:, simp)
  next
    case True
    show ?thesis
    proof (cases "alloc ?a")
      case None
      with True assms(4) have "fs_resize_file alloc now (Some i) n s = (s, FS_ERR_NO_MEMORY)"
        by (simp only: fs_resize_file_def n Let_def option.case if_True if_False)
      with None True up(2) show ?thesis by blast
    next
      case (Some blk)
      let ?d = "d @ drop (length d) blk"
      have blk: "length blk = ?a" using Some assms(2) unfolding alloc_ok_def by blast
      have le: "f_allocated ?f \<le> ?a" using True up(1) by linarith
      have "fs_resize_file alloc now (Some i) n s =
          (set_file i (?f\<lparr>f_data := Some ?d, f_allocated := ?a, f_size := ?n, f_modified := now\<rparr>) s,
           FS_SUCCESS)"
        using True assms(4) Some d(1) by (simp only: fs_resize_file_def n Let_def option.case if_True if_False)
      with up le blk d show ?thesis
        by (intro disjI2 exI [of _ ?d] exI [of _ ?a]) (simp only: length_append length_drop take_append, simp)
    qed
  qed
qed

lemma fs_resize_file_wf:
  assumes "fs_wf s" and "alloc_ok alloc" and "\<forall>i. fl = Some i \<longrightarrow> used s i"
  shows "fs_wf (fst (fs_resize_file alloc now fl n s))"
proof (cases "\<exists>i. fl = Some i \<and> \<not> f_is_dir (fs_files s ! i)")
  case False
  with assms(1) show ?thesis by (auto simp: fs_resize_file_def Let_def split: option.splits)
next
  case True
  then obtain i where i: "fl = Some i" "\<not> f_is_dir (fs_files s ! i)" by blast
  with assms(3) have "used s i" by simp
  with fs_resize_file_spec [OF assms(1,2) this i(2), of now n] i assms(1)
    fs_wf_dest(6) [OF assms(1), of i]
  show ?thesis by (auto simp: file_ok_def intro!: wf_set_file)
qed

lemma free_slot_find:
  "fs_find_free_slot s \<noteq> MAX_FILES \<Longrightarrow> fs_find_free_slot s < MAX_FILES \<and> fs_free s ! fs_find_free_slot s"
  by (auto simp: fs_find_free_slot_def find_first_upt split: option.splits)

lemma fs_create_wf:
  assumes "fs_wf s" and "alloc_ok alloc"
  shows "fs_wf (fst (fs_create_with_perms alloc now nm perms s))"
proof -
  define slot where "slot = fs_find_free_slot s"
  note slot = free_slot_find [of s, folded slot_def]
  show ?thesis
  proof (cases "fs_validate_filename nm = FS_SUCCESS \<and> fs_find_file nm s = None \<and> slot \<noteq> MAX_FILES")
    case False
    with assms(1) show ?thesis by (auto simp: fs_create_with_perms_def Let_def slot_def)
  next
    case True
    show ?thesis
    proof (cases "alloc FS_BLOCK_SIZE")
      case None
      with True slot assms(1) show ?thesis
        by (simp add: fs_create_with_perms_def Let_def wf_free_slot flip: slot_def)
    next
      case (Some blk)
      with assms(2) have "length blk = FS_BLOCK_SIZE" unfolding alloc_ok_def by blast
      with True slot Some show ?thesis
        by (simp add: fs_create_with_perms_def Let_def flip: slot_def)
          (rule wf_add_file(1) [OF assms(1) _ _ _ _ refl]; simp add: file_ok_def)
    qed
  qed
qed

lemma fs_mkdir_wf:
  assumes "fs_wf s"
  shows "fs_wf (fst (fs_mkdir now nm s))"
proof (cases "fs_validate_filename nm = FS_SUCCESS \<and> fs_find_file nm s = None")
  case False
  with assms show ?thesis by (auto simp: fs_mkdir_def Let_def)
next
  case True
  show ?thesis
  proof (cases "find_first (\<lambda>i. fs_free s ! i) [0..<MAX_FILES]")
    case None
    with True assms show ?thesis by (simp add: fs_mkdir_def Let_def)
  next
    case (Some slot)
    then have "slot < MAX_FILES" "fs_free s ! slot" by (auto simp: find_first_upt)
    with True Some show ?thesis
      by (simp add: fs_mkdir_def Let_def)
        (rule wf_add_file(1) [OF assms _ _ _ _ refl]; simp add: file_ok_def)
  qed
qed

text \<open>A directory is never its own parent's child when it is the current one.\<close>

lemma fs_delete_wf:
  assumes "fs_wf s"
  shows "fs_wf (fst (fs_delete nm s))"
proof (cases "fs_find_file nm s")
  case None
  with assms show ?thesis by (simp add: fs_delete_def)
next
  case (Some i)
  note i = find_file_Some [OF assms Some]
  show ?thesis
  proof (cases "f_is_open (fs_files s ! i) \<or> f_is_dir (fs_files s ! i) \<and>
      (\<exists>k \<in> set [0..<MAX_FILES]. \<not> fs_free s ! k \<and> f_parent (fs_files s ! k) = Some i)")
    case True
    with Some assms i(2) show ?thesis by (auto simp: fs_delete_def Let_def)
  next
    case False
    have kids: "f_parent (fs_files s ! k) \<noteq> Some i" if k: "used s k" for k
    proof (cases "f_is_dir (fs_files s ! i)")
      case True
      with False k show ?thesis by (auto simp: used_def)
    next
      case nodir: False
      show ?thesis
      proof
        assume p: "f_parent (fs_files s ! k) = Some i"
        then have "k \<noteq> 0" using fs_wf_dest(5) [OF assms] by (metis option.distinct(1))
        with fs_wf_dest(7) [OF assms k] p nodir show False by (auto simp: dir_at_def)
      qed
    qed
    have cwd: "fs_cwd s \<noteq> Some i"
      using kids [OF i(1)] i(3) by simp
    have "fst (fs_delete nm s) =
        (set_file i zero_file s)\<lparr>fs_free := (fs_free s)[i := True], fs_count := fs_count s - 1\<rparr>"
      using Some False i(2) cwd by (auto simp: fs_delete_def Let_def)
    then show ?thesis using wf_remove_file(1) [OF assms i(1,2) cwd kids] by metis
  qed
qed

lemma fs_open_close_wf:
  assumes "fs_wf s"
  shows "fs_wf (fst (fs_open nm s))" and "fs_wf (fst (fs_close nm s))" and "fs_wf (fst (fs_seek nm n s))"
proof -
  have *: "fs_wf (set_file i f s)" if "fs_find_file nm s = Some i"
    "file_ok (fs_files s ! i) \<Longrightarrow> file_ok f" "f_is_dir f = f_is_dir (fs_files s ! i)"
    "f_parent f = f_parent (fs_files s ! i)" for i f
    using found_file [OF assms that(1)] that(2-4) by (intro wf_set_file [OF assms])
  show "fs_wf (fst (fs_open nm s))"
    using assms by (auto simp: fs_open_def Let_def file_ok_def split: option.splits intro!: *)
  show "fs_wf (fst (fs_close nm s))"
    using assms by (auto simp: fs_close_def Let_def file_ok_def split: option.splits intro!: *)
  show "fs_wf (fst (fs_seek nm n s))"
    using assms by (auto simp: fs_seek_def Let_def file_ok_def split: option.splits if_splits intro!: *)
qed

lemma fs_chdir_wf:
  assumes "fs_wf s" and "fs_chdir nm s = Some (s', e)"
  shows "fs_wf s'"
proof -
  have move: "fs_wf (s\<lparr>fs_cwd := Some d\<rparr>)" if "dir_at s d" for d
    using assms(1) that by (simp add: fs_wf_def dir_at_def used_def)
  obtain d where d: "fs_cwd s = Some d" "dir_at s d" using fs_wf_dest(8) [OF assms(1)] by blast
  show ?thesis
  proof (cases "nm = Some ''..''")
    case True
    show ?thesis
    proof (cases "f_parent (fs_files s ! d)")
      case None
      with True assms d show ?thesis by (simp add: fs_chdir_def)
    next
      case (Some p)
      then have "d \<noteq> 0" using fs_wf_dest(5) [OF assms(1)] by (metis option.distinct(1))
      with fs_wf_dest(7) [OF assms(1), of d] d Some have "dir_at s p" by (auto simp: dir_at_def)
      with Some True assms(2) d move show ?thesis by (auto simp: fs_chdir_def)
    qed
  next
    case False
    with assms move found_file [OF assms(1), of nm] show ?thesis
      by (auto simp: fs_chdir_def dir_at_def split: option.splits if_splits)
  qed
qed

lemma fs_read_wf:
  assumes "fs_wf s"
  shows "\<exists>s' bs. fs_read nm buf n s = Some (s', bs) \<and> fs_wf s'"
proof (cases "fs_find_file nm s")
  case None
  with assms show ?thesis by (simp add: fs_read_def)
next
  case (Some i)
  let ?f = "fs_files s ! i"
  from found_file [OF assms Some] have i: "used s i" "file_ok ?f" .
  define avail where "avail = (if f_size ?f > f_position ?f then f_size ?f - f_position ?f else 0)"
  define m where "m = (if n < avail then n else avail)"
  show ?thesis
  proof (cases "\<not> buf \<or> n = 0 \<or> \<not> f_is_open ?f \<or> f_is_dir ?f \<or> f_permissions ?f AND FS_PERM_READ = 0 \<or> m = 0")
    case True
    with Some assms show ?thesis by (auto simp: fs_read_def Let_def m_def avail_def)
  next
    case False
    have "m \<le> avail" by (simp add: m_def)
    moreover have "0 < avail" using False by (auto simp: m_def split: if_splits)
    ultimately have "f_position ?f + m \<le> f_size ?f" by (auto simp: avail_def split: if_splits)
    with False i(2) obtain d where d: "f_data ?f = Some d" "length d = f_allocated ?f"
      "f_size ?f \<le> f_allocated ?f" "f_position ?f + m \<le> f_allocated ?f" "f_allocated ?f \<le> MAX_FILE_SIZE"
      by (auto simp: file_ok_def)
    with False Some have "fs_read nm buf n s =
        Some (set_file i (?f\<lparr>f_position := f_position ?f + m\<rparr>) s, take m (drop (f_position ?f) d))"
      by (simp add: fs_read_def Let_def flip: avail_def m_def)
    moreover have "fs_wf (set_file i (?f\<lparr>f_position := f_position ?f + m\<rparr>) s)"
      using d False by (intro wf_set_file [OF assms i(1)]) (simp_all add: file_ok_def)
    ultimately show ?thesis by blast
  qed
qed

text \<open>
  What \<open>fs_write\<close> does once its guards are passed, when the write ends within the maximal
  file size and the heap does not fail: the bytes land at the position, the rest of the
  file is kept, the size grows to the end of the write and the position moves there.
\<close>

lemma copy_into_length: "copy_into dst pos src n = Some d \<Longrightarrow> length d = length dst"
  by (auto simp: copy_into_def split: if_splits)

lemma fs_write_at_eq:
  assumes "(if (f_position (fs_files s ! i) + n) mod 2 ^ 32 > f_size (fs_files s ! i)
      then fs_resize_file alloc now (Some i) ((f_position (fs_files s ! i) + n) mod 2 ^ 32) s
      else (s, FS_SUCCESS)) = (t, res)"
    and "g = fs_files t ! i"
    and "avail = (if f_allocated g > f_position g then f_allocated g - f_position g else 0)"
    and "k = (if res \<noteq> FS_SUCCESS then (if n < avail then n else avail) else n)"
  shows "fs_write_at alloc now i buf n s =
      (if res \<noteq> FS_SUCCESS \<and> avail = 0 then Some (t, 0)
       else do { d \<leftarrow> f_data g; d \<leftarrow> copy_into d (f_position g) buf k;
                 Some (set_file i (g\<lparr>f_data := Some d, f_position := f_position g + k,
                   f_size := (if f_position g + k > f_size g then f_position g + k else f_size g),
                   f_modified := now\<rparr>) t, k) })"
  by (simp only: fs_write_at_def Let_def assms(1) prod.case assms(2) [symmetric]
      assms(3) [symmetric] assms(4) [symmetric])

lemma fs_write_at_wf:
  assumes "fs_wf s" and "alloc_ok alloc" and i: "used s i" "\<not> f_is_dir (fs_files s ! i)"
    and "fs_write_at alloc now i buf n s = Some (s', m)"
  shows "fs_wf s'"
proof -
  let ?f = "fs_files s ! i"
  define r where "r = (f_position ?f + n) mod 2 ^ 32"
  define sr where "sr = (if r > f_size ?f then fs_resize_file alloc now (Some i) r s else (s, FS_SUCCESS))"
  obtain t res where t: "sr = (t, res)" by (cases sr)
  have wt: "fs_wf t"
    using fs_resize_file_wf [OF assms(1,2), of "Some i" now r] i assms(1) t
    by (auto simp: sr_def split: if_splits)
  have ut: "used t i" and dt: "\<not> f_is_dir (fs_files t ! i)"
    using fs_resize_file_spec [OF assms(1,2) i, of now r] t i fs_wf_dest(1) [OF assms(1)]
    by (auto simp: sr_def used_def split: if_splits)
  define g where "g = fs_files t ! i"
  define avail where "avail = (if f_allocated g > f_position g then f_allocated g - f_position g else 0)"
  define k where "k = (if res \<noteq> FS_SUCCESS then (if n < avail then n else avail) else n)"
  note eq = fs_write_at_eq [OF t [unfolded sr_def r_def] g_def avail_def k_def, of buf]
  show ?thesis
  proof (cases "res \<noteq> FS_SUCCESS \<and> avail = 0")
    case True
    with assms(5) eq wt show ?thesis by simp
  next
    case False
    from fs_wf_dest(6) [OF wt ut] dt obtain d0 where d0: "f_data g = Some d0" "length d0 = f_allocated g"
      "f_size g \<le> f_allocated g" "f_allocated g \<le> MAX_FILE_SIZE" by (auto simp: file_ok_def g_def)
    with False assms(5) eq obtain d where d: "copy_into d0 (f_position g) buf k = Some d"
      "s' = set_file i (g\<lparr>f_data := Some d, f_position := f_position g + k,
         f_size := (if f_position g + k > f_size g then f_position g + k else f_size g),
         f_modified := now\<rparr>) t" by (auto split: bind_splits)
    then have "f_position g + k \<le> length d0" "length d = length d0"
      by (auto simp: copy_into_def split: if_splits)
    then show ?thesis
      unfolding d(2) using d0 dt by (intro wf_set_file [OF wt ut]) (auto simp: file_ok_def g_def)
  qed
qed

lemma fs_write_wf:
  assumes "fs_wf s" and "alloc_ok alloc" and "fs_write alloc now nm buffer n s = Some (s', m)"
  shows "fs_wf s'"
  using assms(3) fs_write_at_wf [OF assms(1,2)] found_file [OF assms(1), of nm] assms(1)
  by (auto simp: fs_write_def Let_def split: option.splits if_splits)

section \<open>Runs of the file system\<close>

datatype fs_op =
    Fs_create u64 "string option" u8
  | Fs_delete "string option"
  | Fs_mkdir u64 "string option"
  | Fs_open "string option"
  | Fs_close "string option"
  | Fs_read "string option" bool nat
  | Fs_write u64 "string option" "u8 list option" nat
  | Fs_seek "string option" nat
  | Fs_chdir "string option"

fun fs_step :: "alloc \<Rightarrow> fs_op \<Rightarrow> fs \<Rightarrow> fs option" where
  "fs_step alloc (Fs_create now nm perms) s = Some (fst (fs_create_with_perms alloc now nm perms s))"
| "fs_step alloc (Fs_delete nm) s = Some (fst (fs_delete nm s))"
| "fs_step alloc (Fs_mkdir now nm) s = Some (fst (fs_mkdir now nm s))"
| "fs_step alloc (Fs_open nm) s = Some (fst (fs_open nm s))"
| "fs_step alloc (Fs_close nm) s = Some (fst (fs_close nm s))"
| "fs_step alloc (Fs_read nm buf n) s = map_option fst (fs_read nm buf n s)"
| "fs_step alloc (Fs_write now nm buffer n) s = map_option fst (fs_write alloc now nm buffer n s)"
| "fs_step alloc (Fs_seek nm n) s = Some (fst (fs_seek nm n s))"
| "fs_step alloc (Fs_chdir nm) s = map_option fst (fs_chdir nm s)"

fun_cases fs_step_writeE: "fs_step alloc (Fs_write now nm buffer n) s = None"

lemma fs_step_inv:
  assumes "fs_wf s" and "alloc_ok alloc" and "fs_step alloc x s = Some t"
  shows "fs_wf t"
proof (cases x)
  case (Fs_read nm buf n)
  with fs_read_wf [OF assms(1), of nm buf n] assms(3) show ?thesis by auto
next
  case (Fs_write now nm buffer n)
  with fs_write_wf [OF assms(1,2)] assms(3) show ?thesis by auto
next
  case (Fs_chdir nm)
  with fs_chdir_wf [OF assms(1)] assms(3) show ?thesis by auto
qed (use assms in \<open>auto simp: fs_create_wf fs_delete_wf fs_mkdir_wf fs_open_close_wf\<close>)

interpretation fs_sys: inv_system "fs_step alloc" "\<lambda>s. alloc_ok alloc \<longrightarrow> fs_wf s" for alloc
  by unfold_locales (blast intro: fs_step_inv)

section \<open>Lemmas for the properties\<close>

lemma find_set_file:
  assumes "i < length (fs_files s)" and "f_name f = f_name (fs_files s ! i)"
    and "f_parent f = f_parent (fs_files s ! i)"
  shows "fs_find_file nm (set_file i f s) = fs_find_file nm s"
proof -
  have "f_name ((fs_files s)[i := f] ! k) = f_name (fs_files s ! k) \<and>
      f_parent ((fs_files s)[i := f] ! k) = f_parent (fs_files s ! k)" for k
    using assms by (cases "k = i") simp_all
  then show ?thesis
    by (simp add: fs_find_file_def fs_find_file_in_dir_def split: option.splits)
qed

text \<open>A heap that serves every request up to the maximal file size.\<close>

definition alloc_full :: "alloc \<Rightarrow> bool" where
  "alloc_full alloc \<longleftrightarrow> (\<forall>n \<le> MAX_FILE_SIZE. alloc n \<noteq> None)"

lemma fs_write_at_ok:
  assumes "(if (f_position (fs_files s ! i) + n) mod 2 ^ 32 > f_size (fs_files s ! i)
      then fs_resize_file alloc now (Some i) ((f_position (fs_files s ! i) + n) mod 2 ^ 32) s
      else (s, FS_SUCCESS)) = (t, FS_SUCCESS)"
    and "g = fs_files t ! i" and "f_data g = Some d"
  shows "fs_write_at alloc now i buf n s =
    map_option (\<lambda>d. (set_file i (g\<lparr>f_data := Some d, f_position := f_position g + n,
        f_size := (if f_position g + n > f_size g then f_position g + n else f_size g),
        f_modified := now\<rparr>) t, n)) (copy_into d (f_position g) buf n)"
proof -
  have "fs_write_at alloc now i buf n s =
      do { d \<leftarrow> f_data g; d \<leftarrow> copy_into d (f_position g) buf n;
           Some (set_file i (g\<lparr>f_data := Some d, f_position := f_position g + n,
             f_size := (if f_position g + n > f_size g then f_position g + n else f_size g),
             f_modified := now\<rparr>) t, n) }"
    by (simp only: fs_write_at_eq [OF assms(1,2) refl refl] simp_thms if_False)
  with assms(3) show ?thesis by (simp add: map_option_bind map_conv_bind_option comp_def)
qed

text \<open>
  A write inside the address space, on a heap that does not fail: the data block \<open>d\<close> into
  which the bytes are copied extends the old one, and has room up to the end of the write
  or the maximal file size, whichever is less.
\<close>

lemma fs_write_at_resized:
  fixes s i n
  defines "f \<equiv> fs_files s ! i"
  assumes "fs_wf s" and "alloc_ok alloc" and "alloc_full alloc" and "used s i" and "\<not> f_is_dir f"
    and "f_position f + n < 2 ^ 32" and d0: "f_data f = Some d0"
  shows "\<exists>d. take (length d0) d = d0 \<and> length d \<le> MAX_FILE_SIZE \<and>
    min (f_position f + n) MAX_FILE_SIZE \<le> length d \<and>
    fs_write_at alloc now i buf n s =
      map_option (\<lambda>d'. (set_file i (f\<lparr>f_data := Some d', f_allocated := length d,
        f_position := f_position f + n, f_size := max (f_size f) (f_position f + n),
        f_modified := now\<rparr>) s, n)) (copy_into d (f_position f) buf n)"
proof -
  let ?r = "f_position f + n"
  have i: "i < length (fs_files s)" using assms(2,5) fs_wf_dest(1) [OF assms(2)] by (simp add: used_def)
  from fs_wf_dest(6) [OF assms(2,5)] assms(6) d0 have len: "length d0 = f_allocated f"
    "f_size f \<le> f_allocated f" "f_allocated f \<le> MAX_FILE_SIZE" by (auto simp: file_ok_def f_def)
  have r: "?r mod 2 ^ 32 = ?r" using assms(7) by simp
  show ?thesis
  proof (cases "?r > f_size f")
    case False
    then have "(if ?r mod 2 ^ 32 > f_size f then fs_resize_file alloc now (Some i) (?r mod 2 ^ 32) s
        else (s, FS_SUCCESS)) = (s, FS_SUCCESS)" by (simp only: r if_False)
    from fs_write_at_ok [OF this [unfolded f_def] f_def [THEN meta_eq_to_obj_eq] d0]
    have "fs_write_at alloc now i buf n s = map_option (\<lambda>d. (set_file i (f\<lparr>f_data := Some d,
        f_position := ?r, f_size := f_size f, f_modified := now\<rparr>) s, n)) (copy_into d0 (f_position f) buf n)"
      using False by simp
    moreover have "f\<lparr>f_data := Some d, f_position := p, f_size := z, f_modified := now\<rparr> =
        f\<lparr>f_data := Some d, f_allocated := length d0, f_position := p, f_size := z, f_modified := now\<rparr>"
      for d p z using len(1) by (cases f) simp
    ultimately show ?thesis
      using False len by (intro exI [of _ d0]) (simp add: max_def min_def)
  next
    case True
    have no: "alloc k \<noteq> None" if "k \<le> MAX_FILE_SIZE" for k
      using assms(4) that unfolding alloc_full_def by blast
    from fs_resize_file_spec [OF assms(2,3,5) assms(6) [unfolded f_def], of now ?r] no obtain d a where
      d: "fs_resize_file alloc now (Some i) ?r s =
       (set_file i (f\<lparr>f_data := Some d, f_allocated := a, f_size := min ?r MAX_FILE_SIZE,
          f_modified := now\<rparr>) s, FS_SUCCESS)" "length d = a" "f_allocated f \<le> a" "a \<le> MAX_FILE_SIZE"
       "min ?r MAX_FILE_SIZE \<le> a" "take (f_allocated f) d = the (f_data f)"
      unfolding f_def by blast
    let ?g = "f\<lparr>f_data := Some d, f_allocated := a, f_size := min ?r MAX_FILE_SIZE, f_modified := now\<rparr>"
    have res: "(if ?r mod 2 ^ 32 > f_size f then fs_resize_file alloc now (Some i) (?r mod 2 ^ 32) s
        else (s, FS_SUCCESS)) = (set_file i ?g s, FS_SUCCESS)"
      by (simp only: r d(1) True if_True)
    have g: "?g = fs_files (set_file i ?g s) ! i" using i by simp
    have "f_data ?g = Some d" by simp
    from fs_write_at_ok [OF res [unfolded f_def] g [unfolded f_def] this [unfolded f_def]]
    have w: "fs_write_at alloc now i buf n s = map_option (\<lambda>d'. (set_file i (?g\<lparr>f_data := Some d',
        f_position := f_position ?g + n,
        f_size := (if f_position ?g + n > f_size ?g then f_position ?g + n else f_size ?g),
        f_modified := now\<rparr>) (set_file i ?g s), n)) (copy_into d (f_position ?g) buf n)"
      unfolding f_def [symmetric] .
    have upd: "?g\<lparr>f_data := Some d', f_position := f_position ?g + n,
        f_size := (if f_position ?g + n > f_size ?g then f_position ?g + n else f_size ?g),
        f_modified := now\<rparr> = f\<lparr>f_data := Some d', f_allocated := a, f_position := ?r,
        f_size := ?r, f_modified := now\<rparr>" for d'
      by (cases f) (simp add: min_def)
    have "f_position ?g = f_position f" by simp
    with w [unfolded upd set_file_twice] have
      "fs_write_at alloc now i buf n s = map_option (\<lambda>d'. (set_file i (f\<lparr>f_data := Some d',
        f_allocated := a, f_position := ?r, f_size := ?r, f_modified := now\<rparr>) s, n))
        (copy_into d (f_position f) buf n)"
      by (simp only:)
    with True d len d0 show ?thesis
      by (intro exI [of _ d]) (simp add: max_def)
  qed
qed

text \<open>The files occupy the slots below \<open>file_count\<close>, without holes.\<close>

definition compact :: "fs \<Rightarrow> bool" where
  "compact s \<longleftrightarrow> (\<forall>i. used s i \<longleftrightarrow> i < fs_count s)"

lemma compact_free_slot:
  assumes "compact s" and "fs_find_free_slot s \<noteq> MAX_FILES"
  shows "fs_find_free_slot s = fs_count s" and "fs_count s < MAX_FILES"
proof -
  have ge: "fs_count s \<le> fs_find_free_slot s"
  proof (rule ccontr)
    assume "\<not> fs_count s \<le> fs_find_free_slot s"
    then have "used s (fs_find_free_slot s)" using assms(1) by (simp add: compact_def)
    with free_slot_find [OF assms(2)] show False by (simp add: used_def)
  qed
  then show lt: "fs_count s < MAX_FILES" using free_slot_find [OF assms(2)] by simp
  have "\<not> used s (fs_count s)" using assms(1) by (simp add: compact_def)
  with lt have free: "fs_free s ! fs_count s" by (simp add: used_def)
  have "\<not> fs_free s ! j" if "j < fs_count s" for j
    using assms(1) that by (auto simp: compact_def used_def)
  with free lt have "find_first (\<lambda>i. fs_free s ! i) [0..<MAX_FILES] = Some (fs_count s)"
    by (simp add: find_first_upt)
  then show "fs_find_free_slot s = fs_count s" by (simp add: fs_find_free_slot_def)
qed

text \<open>What evaluates the operations on a concrete file system.\<close>

lemmas fs_simps = fs_find_file_def fs_find_file_in_dir_def fs_find_free_slot_def fs_validate_filename_def
  fs_is_valid_path_char_def set_file_def Let_def upt_conv_Cons nth_list_update

text \<open>Heaps for concrete runs: one that serves everything with zeroed blocks.\<close>

definition zero_heap :: alloc where
  "zero_heap n = Some (replicate n 0)"

lemma zero_heap_ok: "alloc_ok zero_heap" "alloc_full zero_heap"
  by (auto simp: alloc_ok_def alloc_full_def zero_heap_def)

text \<open>A state with one open, empty file \<open>a\<close>, and one inside a directory \<open>a\<close>.\<close>

definition demo_fs :: fs where
  "demo_fs = fst (fs_open (Some ''a'') (fst (fs_create_with_perms zero_heap 0 (Some ''a'') 3 (fs_init 0))))"

definition demo_sub :: fs where
  "demo_sub = fst (the (fs_chdir (Some ''a'') (fst (fs_mkdir 0 (Some ''a'') (fs_init 0)))))"

lemma demo_fs_wf: "fs_wf demo_fs"
  unfolding demo_fs_def by (intro fs_open_close_wf fs_create_wf fs_init_wf zero_heap_ok)

lemma demo_fs_file:
  "fs_find_file (Some ''a'') demo_fs = Some 1 \<and> f_is_open (fs_files demo_fs ! 1) \<and>
   \<not> f_is_dir (fs_files demo_fs ! 1) \<and> fs_has_perm (fs_files demo_fs ! 1) 3 \<and>
   fs_has_perm (fs_files demo_fs ! 1) 2 \<and> f_position (fs_files demo_fs ! 1) = 0"
  unfolding demo_fs_def by code_simp

section \<open>Properties\<close>

text \<open>C6.  Whatever a client does after \<open>fs_init\<close>, with any contents of fresh memory and any
  allocation failures, the file system stays a forest of well-formed slots: the parent of
  every file in use is a directory in use, the current directory is one, the root is in
  place, \<open>file_count\<close> counts the slots in use, and every file's size and position lie
  inside its data block of at most 8192 bytes.\<close>

theorem fs_ops_inv:
  assumes "alloc_ok alloc" and "run_ops (fs_step alloc) xs (fs_init now) = Some t"
  shows "fs_wf t"
  using fs_sys.run_inv [OF _ assms(2)] fs_init_wf assms(1) by blast

theorem fs_ops_inv_witness:
  "\<exists>t. run_ops (fs_step zero_heap) [Fs_mkdir 0 (Some ''a''), Fs_create 0 (Some ''b'') 3, Fs_delete (Some ''a'')]
     (fs_init 0) = Some t \<and> fs_wf t"
  using fs_ops_inv [OF zero_heap_ok(1), of "[Fs_mkdir 0 (Some ''a''), Fs_create 0 (Some ''b'') 3,
    Fs_delete (Some ''a'')]" 0] by simp

text \<open>The only calls that can leave the data block of a file are \<open>fs_write\<close>; every other
  operation always has a defined result (\<open>fs_chdir\<close> of a \<open>NULL\<close> name apart).\<close>

theorem fs_only_write_faults:
  assumes "fs_wf s" and "fs_step alloc x s = None"
  shows "(\<exists>now nm buf n. x = Fs_write now nm (Some buf) n \<and> n \<noteq> 0) \<or> x = Fs_chdir None"
proof (cases x)
  case (Fs_read nm buf n)
  with fs_read_wf [OF assms(1), of nm buf n] assms(2) show ?thesis by auto
next
  case (Fs_write now nm buffer n)
  with assms(2) show ?thesis by (cases buffer; cases "n = 0") (auto simp: fs_write_def)
next
  case (Fs_chdir nm)
  obtain d where "fs_cwd s = Some d" using fs_wf_dest(8) [OF assms(1)] by blast
  with Fs_chdir assms(2) show ?thesis by (auto simp: fs_chdir_def split: option.splits if_splits)
qed (use assms(2) in simp_all)

theorem fs_only_write_faults_witness: "Fs_chdir None = Fs_chdir None \<and> fs_step zero_heap (Fs_chdir None) (fs_init 0) = None"
proof -
  have none: "fs_step zero_heap (Fs_chdir None) (fs_init 0) = None" by (simp add: fs_chdir_def)
  from fs_only_write_faults [OF fs_init_wf this] none show ?thesis by simp
qed

text \<open>C7.  What \<open>fs_write\<close> puts into a file, \<open>fs_read\<close> gives back: for an open file with both
  permissions and a write that ends within the maximal file size, writing \<open>buf\<close> succeeds in
  full, and seeking back to where it started and reading as many bytes returns \<open>buf\<close>.\<close>

theorem fs_write_read_roundtrip:
  assumes "fs_wf s" and "alloc_ok alloc" and "alloc_full alloc" and "fs_find_file nm s = Some i"
    and "f_is_open (fs_files s ! i)" and "\<not> f_is_dir (fs_files s ! i)"
    and "fs_has_perm (fs_files s ! i) (FS_PERM_READ OR FS_PERM_WRITE)"
    and "f_position (fs_files s ! i) + length buf \<le> MAX_FILE_SIZE" and "buf \<noteq> []"
  shows "\<exists>s1 s2 s3. fs_write alloc now nm (Some buf) (length buf) s = Some (s1, length buf) \<and>
    fs_seek nm (f_position (fs_files s ! i)) s1 = (s2, FS_SUCCESS) \<and>
    fs_read nm True (length buf) s2 = Some (s3, buf)"
proof -
  define f where "f = fs_files s ! i"
  let ?n = "length buf" and ?p = "f_position f"
  note i = found_file [OF assms(1,4)]
  have len: "i < length (fs_files s)" using i(1) fs_wf_dest(1) [OF assms(1)] by (simp add: used_def)
  have perm: "fs_has_perm f FS_PERM_WRITE" "f_permissions f AND FS_PERM_READ \<noteq> 0"
  proof -
    have "f_permissions f AND 3 = 3" using assms(7) by (simp add: fs_has_perm_def f_def)
    then have "f_permissions f AND (3 AND 2) = 3 AND 2" "f_permissions f AND (3 AND 1) = 3 AND 1"
      by (metis and.assoc)+
    then show "fs_has_perm f FS_PERM_WRITE" "f_permissions f AND FS_PERM_READ \<noteq> 0"
      by (simp_all add: fs_has_perm_def)
  qed
  from i(2) assms(6) obtain d0 where d0: "f_data f = Some d0" "length d0 = f_allocated f"
    "f_size f \<le> f_allocated f" by (auto simp: file_ok_def f_def)
  have "?p + ?n < 2 ^ 32" using assms(8) by (simp add: f_def)
  from fs_write_at_resized [OF assms(1-3) i(1) assms(6) this [unfolded f_def] d0(1) [unfolded f_def],
      of now buf, folded f_def] obtain d where
    d: "length d \<le> MAX_FILE_SIZE" "min (?p + ?n) MAX_FILE_SIZE \<le> length d" and
    w: "fs_write_at alloc now i buf ?n s = map_option (\<lambda>d'. (set_file i (f\<lparr>f_data := Some d',
        f_allocated := length d, f_position := ?p + ?n, f_size := max (f_size f) (?p + ?n),
        f_modified := now\<rparr>) s, ?n)) (copy_into d ?p buf ?n)" by blast
  have room: "?p + ?n \<le> length d" using d(2) assms(8) by (simp add: f_def)
  let ?d = "take ?p d @ buf @ drop (?p + ?n) d"
  let ?g = "f\<lparr>f_data := Some ?d, f_allocated := length d, f_position := ?p + ?n,
    f_size := max (f_size f) (?p + ?n), f_modified := now\<rparr>"
  have copy: "copy_into d ?p buf ?n = Some ?d" using room by (simp add: copy_into_def)
  have "fs_write alloc now nm (Some buf) ?n s = fs_write_at alloc now i buf ?n s"
    using assms(4-6,9) perm(1) by (simp add: fs_write_def f_def Let_def)
  with w copy have wrote: "fs_write alloc now nm (Some buf) ?n s = Some (set_file i ?g s, ?n)" by simp
  have find: "fs_find_file nm (set_file i h s) = Some i" if "f_name h = f_name f" "f_parent h = f_parent f" for h
    using find_set_file [OF len, of h] that assms(4) by (simp add: f_def)
  have seek: "fs_seek nm ?p (set_file i ?g s) = (set_file i (?g\<lparr>f_position := ?p\<rparr>) s, FS_SUCCESS)"
    using assms(5) len by (simp add: fs_seek_def find f_def Let_def)
  have "fs_read nm True ?n (set_file i (?g\<lparr>f_position := ?p\<rparr>) s) =
      Some (set_file i (?g\<lparr>f_position := ?p + ?n\<rparr>) s, buf)"
  proof -
    have n: "0 < ?n" using assms(9) by simp
    then have end_pos: "?p < max (f_size f) (?p + ?n)" by (simp add: less_max_iff_disj)
    have "(if ?n < max (f_size f) (?p + ?n) - ?p then ?n else max (f_size f) (?p + ?n) - ?p) = ?n"
      by (auto simp: max_def)
    with end_pos n assms(5,6) len perm(2) room show ?thesis
      by (simp add: fs_read_def find f_def Let_def)
  qed
  with wrote seek show ?thesis unfolding f_def by blast
qed

theorem fs_write_read_roundtrip_witness:
  "\<exists>s1 s2 s3. fs_write zero_heap 7 (Some ''a'') (Some [104, 105]) 2 demo_fs = Some (s1, 2) \<and>
     fs_seek (Some ''a'') 0 s1 = (s2, FS_SUCCESS) \<and> fs_read (Some ''a'') True 2 s2 = Some (s3, [104, 105])"
  using fs_write_read_roundtrip [OF demo_fs_wf zero_heap_ok, of "Some ''a''" 1 "[104, 105]" 7] demo_fs_file
  by (simp add: numeral_2_eq_2)

text \<open>C8.  \<open>fs_write\<close> cuts the size at 8192 bytes but not the copy: with the guards passed and a
  heap that does not fail, a write that would end beyond byte 8192 runs over the end of the
  file's data block.\<close>

theorem fs_write_overflows:
  assumes "fs_wf s" and "alloc_ok alloc" and "alloc_full alloc" and "fs_find_file nm s = Some i"
    and "f_is_open (fs_files s ! i)" and "\<not> f_is_dir (fs_files s ! i)"
    and "fs_has_perm (fs_files s ! i) FS_PERM_WRITE"
    and "f_position (fs_files s ! i) + n > MAX_FILE_SIZE" and "f_position (fs_files s ! i) + n < 2 ^ 32"
    and "n \<noteq> 0"
  shows "fs_write alloc now nm (Some buf) n s = None"
proof -
  note i = found_file [OF assms(1,4)]
  from i(2) assms(6) obtain d0 where "f_data (fs_files s ! i) = Some d0" by (auto simp: file_ok_def)
  from fs_write_at_resized [OF assms(1-3) i(1) assms(6,9) this, of now buf] assms(8)
  have "fs_write_at alloc now i buf n s = None" by (auto simp: copy_into_def)
  then show ?thesis using assms(4-7,10) by (simp add: fs_write_def Let_def)
qed

theorem fs_write_overflows_witness: "fs_write zero_heap 0 (Some ''a'') (Some (replicate 8193 0)) 8193 demo_fs = None"
  using fs_write_overflows [OF demo_fs_wf zero_heap_ok, of "Some ''a''" 1 8193] demo_fs_file by simp

text \<open>A file created without holes: it goes to slot \<open>file_count\<close>, and other names are found as before.\<close>

lemma fs_create_compact:
  assumes "fs_wf s" and "alloc_ok alloc" and "compact s"
    and "fs_create_with_perms alloc now nm perms s = (s', FS_SUCCESS)"
  shows "\<exists>blk n. nm = Some n \<and> length blk = FS_BLOCK_SIZE \<and> fs_count s < MAX_FILES \<and>
    s' = (set_file (fs_count s) ((fs_files s ! fs_count s)\<lparr>f_name := n, f_allocated := FS_BLOCK_SIZE,
      f_data := Some blk, f_size := 0, f_is_open := False, f_is_dir := False, f_parent := fs_cwd s,
      f_position := 0, f_permissions := perms, f_inode := fs_next_inode s, f_created := now,
      f_modified := now\<rparr>) s)\<lparr>fs_free := (fs_free s)[fs_count s := False],
      fs_next_inode := fs_next_inode s + 1, fs_count := Suc (fs_count s)\<rparr> \<and>
    fs_find_file (Some n) s' = Some (fs_count s) \<and> compact s' \<and> fs_validate_filename nm = FS_SUCCESS \<and>
    (\<forall>m. m \<noteq> n \<longrightarrow> fs_find_file (Some m) s' = fs_find_file (Some m) s)"
proof -
  define slot where "slot = fs_find_free_slot s"
  from assms(4) have v: "fs_validate_filename nm = FS_SUCCESS" and new: "fs_find_file nm s = None"
    and ne: "slot \<noteq> MAX_FILES"
    by (auto simp: fs_create_with_perms_def Let_def slot_def split: if_splits)
  from assms(4) v new ne obtain blk where blk: "alloc FS_BLOCK_SIZE = Some blk"
    by (auto simp: fs_create_with_perms_def Let_def slot_def split: option.splits)
  from compact_free_slot [OF assms(3)] ne have slot: "slot = fs_count s" "fs_count s < MAX_FILES"
    by (simp_all add: slot_def)
  from v obtain n where n: "nm = Some n" "length n < MAX_FILENAME_LEN"
    by (auto simp: fs_validate_filename_def split: option.splits if_splits)
  have tk: "take (MAX_FILENAME_LEN - 1) n = n" using n(2) by simp
  let ?f = "(fs_files s ! slot)\<lparr>f_name := n, f_allocated := FS_BLOCK_SIZE,
      f_data := Some blk, f_size := 0, f_is_open := False, f_is_dir := False, f_parent := fs_cwd s,
      f_position := 0, f_permissions := perms, f_inode := fs_next_inode s, f_created := now,
      f_modified := now\<rparr>"
  let ?s = "(set_file slot ?f s)\<lparr>fs_free := (fs_free s)[slot := False],
      fs_next_inode := fs_next_inode s + 1, fs_count := Suc (fs_count s)\<rparr>"
  have s': "s' = ?s"
    using assms(4) v new ne blk n(1) tk by (simp add: fs_create_with_perms_def Let_def flip: slot_def)
  note wf = fs_wf_dest [OF assms(1)]
  have free: "fs_free s ! slot"
    using assms(3) slot unfolding compact_def used_def by blast
  have blk_len: "length blk = FS_BLOCK_SIZE" using assms(2) blk unfolding alloc_ok_def by blast
  then have "file_ok ?f" by (simp add: file_ok_def)
  from wf_add_file(2) [OF assms(1) _ free this _ s'] slot
  have used': "used s' k \<longleftrightarrow> k = slot \<or> used s k" for k by simp
  have parts: "fs_files s' = (fs_files s)[slot := ?f]" "fs_free s' = (fs_free s)[slot := False]"
    "fs_count s' = Suc (fs_count s)" "fs_cwd s' = fs_cwd s"
    unfolding s' by simp_all
  have comp: "compact s'"
    using assms(3) slot(1) by (auto simp: compact_def used' parts(3) less_Suc_eq)
  obtain d where d: "fs_cwd s = Some d" using wf(8) by blast
  have nth: "fs_files s' ! k = (if k = slot then ?f else fs_files s ! k)" for k
    using slot wf(1) by (simp add: parts(1) nth_list_update)
  have freen: "fs_free s' ! k = (if k = slot then False else fs_free s ! k)" for k
    using slot wf(2) by (simp add: parts(2) nth_list_update)
  let ?P = "\<lambda>s i. \<not> fs_free s ! i \<and> f_parent (fs_files s ! i) = Some d \<and> f_name (fs_files s ! i) = n"
  have "find_first (?P s) [0..<fs_count s] = None"
    using new d n(1) by (simp add: fs_find_file_def fs_find_file_in_dir_def)
  then have "\<not> ?P s i" if "i < fs_count s" for i using that by (simp add: find_first_None)
  then have "\<not> ?P s' i" if "i < fs_count s" for i using that slot(1) by (simp add: nth freen)
  moreover have "?P s' slot" using d n(2) by (simp add: nth freen)
  ultimately have "find_first (?P s') [0..<Suc (fs_count s)] = Some slot"
    unfolding find_first_upt using slot(1) by blast
  then have found: "fs_find_file nm s' = Some (fs_count s)"
    using d n(1) slot(1) by (simp add: fs_find_file_def fs_find_file_in_dir_def parts(3,4))
  have "find_first (\<lambda>i. \<not> fs_free s' ! i \<and> f_parent (fs_files s' ! i) = Some d \<and> f_name (fs_files s' ! i) = m)
      [0..<Suc (fs_count s)] =
    find_first (\<lambda>i. \<not> fs_free s ! i \<and> f_parent (fs_files s ! i) = Some d \<and> f_name (fs_files s ! i) = m)
      [0..<fs_count s]" if "m \<noteq> n" for m
  proof -
    have last: "find_first P [0..<Suc k] = find_first P [0..<k]" if "\<not> P k" for P k
      using that by (simp add: find_first_append split: option.split)
    show ?thesis
      using that slot(1) by (subst last) (auto simp: nth freen intro!: find_first_cong)
  qed
  then have "fs_find_file (Some m) s' = fs_find_file (Some m) s" if "m \<noteq> n" for m
    using that d by (simp add: fs_find_file_def fs_find_file_in_dir_def parts(3,4))
  with n(1) blk_len slot s' found comp v show ?thesis by auto
qed

text \<open>Without holes in the slot array, a created file is found under its name, at the
  first free slot, the array still has no holes, and creating the name again is refused.\<close>

theorem fs_create_found:
  assumes "fs_wf s" and "alloc_ok alloc" and "compact s"
    and "fs_create_with_perms alloc now nm perms s = (s', FS_SUCCESS)"
  shows "fs_find_file nm s' = Some (fs_count s) \<and> compact s' \<and>
    fs_create_with_perms alloc now nm perms' s' = (s', FS_ERR_EXISTS)"
  using fs_create_compact [OF assms] by (auto simp: fs_create_with_perms_def Let_def)

theorem fs_create_found_witness:
  "\<exists>s'. fs_create_with_perms zero_heap 0 (Some ''x'') 3 (fs_init 0) = (s', FS_SUCCESS) \<and>
     fs_find_file (Some ''x'') s' = Some 1"
proof -
  obtain s' e where s': "fs_create_with_perms zero_heap 0 (Some ''x'') 3 (fs_init 0) = (s', e)" by fastforce
  have "snd (fs_create_with_perms zero_heap 0 (Some ''x'') 3 (fs_init 0)) = FS_SUCCESS" by code_simp
  with s' have "e = FS_SUCCESS" by simp
  moreover have "compact (fs_init 0)"
    by (auto simp: compact_def used_def fs_init_def nth_list_update)
  ultimately show ?thesis
    using fs_create_found [OF fs_init_wf zero_heap_ok(1), of 0 0 "Some ''x''" 3 s'] s' by (simp add: fs_init_def)
qed

text \<open>A deletion hides other files: after creating \<open>a\<close> and \<open>b\<close> and deleting \<open>a\<close>, the file
  \<open>b\<close> is in use but no lookup finds it, so that it can be created a second time; the search
  stops at \<open>file_count\<close> slots although the slots in use are no longer the first ones.\<close>

theorem fs_delete_hides:
  "case run_ops (fs_step zero_heap)
       [Fs_create 0 (Some ''a'') 3, Fs_create 0 (Some ''b'') 3, Fs_delete (Some ''a'')] (fs_init 0) of
     None \<Rightarrow> False
   | Some s \<Rightarrow> used s 2 \<and> f_name (fs_files s ! 2) = ''b'' \<and> fs_find_file (Some ''b'') s = None \<and>
       snd (fs_create zero_heap 0 (Some ''b'') s) = FS_SUCCESS"
  by code_simp

text \<open>\<open>fs_getcwd\<close> answers \<open>/\<close> in every directory: its second loop starts at the root and
  leaves there.\<close>

theorem fs_getcwd_root:
  assumes "0 \<in> set (walk_up (fs_files s) MAX_FILES (fs_cwd s))" and "f_parent (fs_files s ! 0) = None"
    and "0 < sz"
  shows "fs_getcwd True sz s = Some ''/''"
proof -
  have last: "\<exists>ds. walk_up fl k c = ds @ [0]" if "0 \<in> set (walk_up fl k c)" "f_parent (fl ! 0) = None" for fl k c
    using that
  proof (induction fl k c rule: walk_up.induct)
    case (3 fl k d)
    show ?case
    proof (cases "d = 0")
      case True
      with 3 show ?thesis by (cases k) simp_all
    next
      case False
      with 3 show ?thesis by auto
    qed
  qed simp_all
  from last [OF assms(1,2)] obtain ds where "walk_up (fs_files s) MAX_FILES (fs_cwd s) = ds @ [0]" ..
  with assms(2,3) show ?thesis by (simp add: fs_getcwd_def)
qed

theorem fs_getcwd_root_witness: "fs_cwd demo_sub = Some 1 \<and> fs_getcwd True 256 demo_sub = Some ''/''"
proof -
  have "0 \<in> set (walk_up (fs_files demo_sub) MAX_FILES (fs_cwd demo_sub)) \<and>
      f_parent (fs_files demo_sub ! 0) = None \<and> fs_cwd demo_sub = Some 1"
    unfolding demo_sub_def by code_simp
  then have *: "0 \<in> set (walk_up (fs_files demo_sub) MAX_FILES (fs_cwd demo_sub))"
    "f_parent (fs_files demo_sub ! 0) = None" "fs_cwd demo_sub = Some 1" by blast+
  have "fs_getcwd True 256 demo_sub = Some ''/''" using *(1,2) by (rule fs_getcwd_root) simp
  with *(3) show ?thesis by blast
qed

end
