(* ===== verification/Process.thy ===== *)
theory Process
  imports Prelude
begin

text \<open>
  The process table, \<open>usr/sbin/process/process.c\<close> and \<open>usr/include/sys/process.h\<close>: 32 slots
  and a counter for process identifiers.  A slot goes from unused to running, to zombie
  (\<open>process_kill\<close>) and back to unused (\<open>process_cleanup\<close>).

  State: \<open>process_table\<close> and \<open>next_pid\<close>.  A \<open>const char*\<close> is a string or \<open>None\<close> for \<open>NULL\<close>;
  a \<open>Process*\<close> is a slot number.  The identifier counter is a C \<open>int\<close> and wraps.
\<close>

section \<open>Data\<close>

datatype proc_state =
  PROCESS_UNUSED | PROCESS_RUNNING | PROCESS_SLEEPING | PROCESS_STOPPED | PROCESS_ZOMBIE

record proc =
  p_pid :: int
  p_name :: string
  p_state :: proc_state
  p_ppid :: int
  p_used :: bool

record ptable =
  process_table :: "proc list"
  next_pid :: int

abbreviation MAX_PROCESSES :: nat where "MAX_PROCESSES \<equiv> 32"
abbreviation MAX_PROCESS_NAME :: nat where "MAX_PROCESS_NAME \<equiv> 32"

definition zero_proc :: proc where
  "zero_proc = \<lparr>p_pid = 0, p_name = [], p_state = PROCESS_RUNNING, p_ppid = 0, p_used = False\<rparr>"

text \<open>The static data before \<open>process_init\<close>: all zero, and a zero \<open>state\<close> is \<open>PROCESS_RUNNING\<close>.\<close>

definition ptable_boot :: ptable where
  "ptable_boot = \<lparr>process_table = replicate MAX_PROCESSES zero_proc, next_pid = 100\<rparr>"

section \<open>Operations\<close>

definition process_init :: "ptable \<Rightarrow> ptable" where
  "process_init s =
     s\<lparr>process_table := map (\<lambda>p. p\<lparr>p_used := False, p_state := PROCESS_UNUSED\<rparr>) (process_table s)\<rparr>"

text \<open>The first slot that passes a test; the loops of the operations below.\<close>

definition find_slot :: "(proc \<Rightarrow> bool) \<Rightarrow> ptable \<Rightarrow> nat option" where
  "find_slot P s = find_first (\<lambda>i. P (process_table s ! i)) [0..<MAX_PROCESSES]"

definition set_proc :: "nat \<Rightarrow> proc \<Rightarrow> ptable \<Rightarrow> ptable" where
  "set_proc i p s = s\<lparr>process_table := (process_table s)[i := p]\<rparr>"

definition process_create :: "string option \<Rightarrow> int \<Rightarrow> ptable \<Rightarrow> ptable \<times> int" where
  "process_create name ppid s =
     (case name of
        None \<Rightarrow> (s, -1)
      | Some nm \<Rightarrow>
          if ppid < 0 then (s, -1)
          else case find_slot (\<lambda>p. \<not> p_used p) s of
            None \<Rightarrow> (s, -1)
          | Some i \<Rightarrow>
              let p = (process_table s ! i)\<lparr>p_pid := next_pid s, p_name := take (MAX_PROCESS_NAME - 1) nm,
                        p_state := PROCESS_RUNNING, p_ppid := ppid, p_used := True\<rparr>
              in ((set_proc i p s)\<lparr>next_pid := wrap32 (next_pid s + 1)\<rparr>, p_pid p))"

definition process_kill :: "int \<Rightarrow> ptable \<Rightarrow> ptable \<times> int" where
  "process_kill pid s =
     (if pid < 0 then (s, -1)
      else case find_slot (\<lambda>p. p_used p \<and> p_pid p = pid) s of
        None \<Rightarrow> (s, -1)
      | Some i \<Rightarrow> (set_proc i ((process_table s ! i)\<lparr>p_state := PROCESS_ZOMBIE\<rparr>) s, 0))"

definition process_cleanup :: "int \<Rightarrow> ptable \<Rightarrow> ptable \<times> int" where
  "process_cleanup pid s =
     (if pid < 0 then (s, -1)
      else case find_slot (\<lambda>p. p_used p \<and> p_pid p = pid \<and> p_state p = PROCESS_ZOMBIE) s of
        None \<Rightarrow> (s, -1)
      | Some i \<Rightarrow> (set_proc i (zero_proc\<lparr>p_used := False, p_state := PROCESS_UNUSED\<rparr>) s, 0))"

definition process_get :: "int \<Rightarrow> ptable \<Rightarrow> nat option" where
  "process_get pid s =
     (if pid < 0 then None else find_slot (\<lambda>p. p_used p \<and> p_pid p = pid) s)"

definition process_find :: "string option \<Rightarrow> ptable \<Rightarrow> int" where
  "process_find name s =
     (case name of
        None \<Rightarrow> -1
      | Some nm \<Rightarrow>
          (case find_slot (\<lambda>p. p_used p \<and> p_name p = nm) s of
             None \<Rightarrow> -1
           | Some i \<Rightarrow> p_pid (process_table s ! i)))"

definition process_count :: "ptable \<Rightarrow> nat" where
  "process_count s = length (filter (\<lambda>i. p_used (process_table s ! i)) [0..<MAX_PROCESSES])"

fun state_to_string :: "proc_state \<Rightarrow> string" where
  "state_to_string PROCESS_RUNNING = ''RUNNING''"
| "state_to_string PROCESS_SLEEPING = ''SLEEPING''"
| "state_to_string PROCESS_STOPPED = ''STOPPED''"
| "state_to_string PROCESS_ZOMBIE = ''ZOMBIE''"
| "state_to_string PROCESS_UNUSED = ''UNUSED''"

text \<open>The rows that \<open>process_list\<close> prints.\<close>

definition process_list :: "ptable \<Rightarrow> (int \<times> int \<times> string \<times> string) list" where
  "process_list s =
     map (\<lambda>i. let p = process_table s ! i in (p_pid p, p_ppid p, state_to_string (p_state p), p_name p))
       (filter (\<lambda>i. p_used (process_table s ! i)) [0..<MAX_PROCESSES])"

section \<open>The invariant\<close>

text \<open>
  The identifiers of the slots in use are distinct, and handed out: from 100 up to the
  counter.
\<close>

definition ptable_wf :: "ptable \<Rightarrow> bool" where
  "ptable_wf s \<longleftrightarrow> length (process_table s) = MAX_PROCESSES \<and> 100 \<le> next_pid s \<and> next_pid s < 2 ^ 31 \<and>
     (\<forall>i < MAX_PROCESSES. p_used (process_table s ! i) \<longrightarrow>
        100 \<le> p_pid (process_table s ! i) \<and> p_pid (process_table s ! i) < next_pid s) \<and>
     (\<forall>i < MAX_PROCESSES. \<forall>j < MAX_PROCESSES.
        p_used (process_table s ! i) \<and> p_used (process_table s ! j) \<and>
        p_pid (process_table s ! i) = p_pid (process_table s ! j) \<longrightarrow> i = j)"

lemma find_slot_Some:
  "find_slot P s = Some i \<longleftrightarrow>
   i < MAX_PROCESSES \<and> P (process_table s ! i) \<and> (\<forall>j < i. \<not> P (process_table s ! j))"
  by (auto simp: find_slot_def find_first_upt)

lemma find_slot_None: "find_slot P s = None \<longleftrightarrow> (\<forall>i < MAX_PROCESSES. \<not> P (process_table s ! i))"
  by (auto simp: find_slot_def find_first_None)

lemma set_proc_simps [simp]:
  "process_table (set_proc i p s) = (process_table s)[i := p]" "next_pid (set_proc i p s) = next_pid s"
  by (simp_all add: set_proc_def)

lemma wf_next: "ptable_wf s \<Longrightarrow> next_pid s < 2 ^ 31 - 1 \<Longrightarrow> wrap32 (next_pid s + 1) = next_pid s + 1"
  by (simp add: ptable_wf_def int32_range_def)

text \<open>Filling a slot with the next identifier, or changing one without a new identifier.\<close>

lemma wf_new_proc:
  assumes "ptable_wf s" and "next_pid s < 2 ^ 31 - 1" and "i < MAX_PROCESSES" and "p_pid p = next_pid s"
  shows "ptable_wf ((set_proc i p s)\<lparr>next_pid := next_pid s + 1\<rparr>)"
proof -
  let ?t = "process_table s"
  have nth: "?t[i := p] ! k = (if k = i then p else ?t ! k)" for k
    using assms(1,3) by (simp add: ptable_wf_def nth_list_update)
  with assms show ?thesis
    unfolding ptable_wf_def by (auto simp: nth less_le split: if_splits)
qed

lemma wf_old_proc:
  assumes "ptable_wf s" and "i < MAX_PROCESSES"
    and "p_used p \<longrightarrow> p_used (process_table s ! i) \<and> p_pid p = p_pid (process_table s ! i)"
  shows "ptable_wf (set_proc i p s)"
proof -
  let ?t = "process_table s"
  have nth: "?t[i := p] ! k = (if k = i then p else ?t ! k)" for k
    using assms(1,2) by (simp add: ptable_wf_def nth_list_update)
  with assms show ?thesis
    unfolding ptable_wf_def by (auto simp: nth split: if_splits)
qed

section \<open>Runs\<close>

datatype proc_op =
    Proc_init
  | Proc_create "string option" int
  | Proc_kill int
  | Proc_cleanup int

fun proc_step :: "proc_op \<Rightarrow> ptable \<Rightarrow> ptable option" where
  "proc_step Proc_init s = Some (process_init s)"
| "proc_step (Proc_create nm ppid) s = Some (fst (process_create nm ppid s))"
| "proc_step (Proc_kill pid) s = Some (fst (process_kill pid s))"
| "proc_step (Proc_cleanup pid) s = Some (fst (process_cleanup pid s))"

lemma proc_step_wf:
  assumes "ptable_wf s" and "next_pid s < 2 ^ 31 - 1" and "proc_step x s = Some t"
  shows "ptable_wf t \<and> next_pid t \<le> next_pid s + 1"
proof (cases x)
  case Proc_init
  with assms show ?thesis by (auto simp: process_init_def ptable_wf_def)
next
  case (Proc_create nm ppid)
  with assms show ?thesis
    by (auto simp: process_create_def Let_def wf_next find_slot_Some wf_new_proc split: option.splits)
next
  case (Proc_kill pid)
  with assms show ?thesis
    by (auto simp: process_kill_def find_slot_Some split: option.splits if_splits intro!: wf_old_proc)
next
  case (Proc_cleanup pid)
  with assms show ?thesis
    by (auto simp: process_cleanup_def find_slot_Some split: option.splits if_splits intro!: wf_old_proc)
qed

lemma run_procs_wf:
  assumes "ptable_wf s" and "next_pid s + int (length xs) < 2 ^ 31"
  shows "\<exists>t. run_ops proc_step xs s = Some t \<and> ptable_wf t"
  using assms
proof (induction xs arbitrary: s)
  case Nil
  then show ?case by simp
next
  case (Cons x xs)
  obtain u where u: "proc_step x s = Some u" by (cases x) simp_all
  have "next_pid s < 2 ^ 31 - 1" using Cons.prems(2) by simp
  from proc_step_wf [OF Cons.prems(1) this u] Cons.prems(2) Cons.IH [of u] u
  show ?case by simp
qed

lemma ptable_boot_wf: "ptable_wf ptable_boot"
  by (simp add: ptable_wf_def ptable_boot_def zero_proc_def)

section \<open>Properties\<close>

text \<open>C9.  Process identifiers identify: after any sequence of fewer than \<open>2 ^ 31 - 100\<close> calls
  from boot, no two slots in use carry the same identifier.\<close>

theorem process_pids_unique:
  assumes "int (length xs) < 2 ^ 31 - 100"
  shows "\<exists>t. run_ops proc_step xs ptable_boot = Some t \<and>
    distinct (map (\<lambda>i. p_pid (process_table t ! i))
      (filter (\<lambda>i. p_used (process_table t ! i)) [0..<MAX_PROCESSES]))"
proof -
  from assms have "next_pid ptable_boot + int (length xs) < 2 ^ 31" by (simp add: ptable_boot_def)
  from run_procs_wf [OF ptable_boot_wf this] obtain t where
    t: "run_ops proc_step xs ptable_boot = Some t" "ptable_wf t" by blast
  then have "inj_on (\<lambda>i. p_pid (process_table t ! i))
      (set (filter (\<lambda>i. p_used (process_table t ! i)) [0..<MAX_PROCESSES]))"
    by (auto simp: inj_on_def ptable_wf_def)
  with t(1) show ?thesis by (auto simp: distinct_map)
qed

theorem process_pids_unique_witness:
  "\<exists>t. run_ops proc_step [Proc_init, Proc_create (Some ''init'') 0, Proc_create (Some ''shell'') 1] ptable_boot =
     Some t \<and> distinct (map (\<lambda>i. p_pid (process_table t ! i))
       (filter (\<lambda>i. p_used (process_table t ! i)) [0..<MAX_PROCESSES]))"
  by (rule process_pids_unique) simp

text \<open>The life of a process: \<open>process_create\<close> gives it an identifier under which
  \<open>process_get\<close> finds it running; it cannot be cleaned up before it is killed; after
  \<open>process_kill\<close> it is a zombie, and after \<open>process_cleanup\<close> the identifier is unknown and
  as many processes are counted as before.\<close>

theorem process_life_cycle:
  assumes "ptable_wf s" and "next_pid s < 2 ^ 31 - 1" and "process_create nm ppid s = (s1, pid)" and "pid \<noteq> -1"
  shows "\<exists>i s2 s3. process_get pid s1 = Some i \<and> p_state (process_table s1 ! i) = PROCESS_RUNNING \<and>
    process_cleanup pid s1 = (s1, -1) \<and>
    process_kill pid s1 = (s2, 0) \<and> p_state (process_table s2 ! i) = PROCESS_ZOMBIE \<and>
    process_cleanup pid s2 = (s3, 0) \<and> process_get pid s3 = None \<and> process_count s3 = process_count s"
proof -
  from assms(3,4) obtain n i where n: "nm = Some n" "0 \<le> ppid" and i: "find_slot (\<lambda>p. \<not> p_used p) s = Some i"
    by (auto simp: process_create_def split: option.splits if_splits)
  let ?t = "process_table s"
  let ?p = "(?t ! i)\<lparr>p_pid := next_pid s, p_name := take (MAX_PROCESS_NAME - 1) n,
    p_state := PROCESS_RUNNING, p_ppid := ppid, p_used := True\<rparr>"
  let ?z = "?p\<lparr>p_state := PROCESS_ZOMBIE\<rparr>"
  let ?u = "zero_proc\<lparr>p_used := False, p_state := PROCESS_UNUSED\<rparr>"
  have s1: "s1 = (set_proc i ?p s)\<lparr>next_pid := next_pid s + 1\<rparr>" and pid: "pid = next_pid s"
    using assms(1-3) n i by (auto simp: process_create_def Let_def wf_next)
  from i have i': "i < MAX_PROCESSES" "\<not> p_used (?t ! i)" by (simp_all add: find_slot_Some)
  have len: "length ?t = MAX_PROCESSES" and pos: "0 \<le> pid"
    using assms(1) pid by (simp_all add: ptable_wf_def)
  have fresh: "p_pid (?t ! k) \<noteq> pid" if "k < MAX_PROCESSES" "p_used (?t ! k)" for k
    using assms(1) pid that unfolding ptable_wf_def by (metis less_irrefl)
  have before: "\<forall>j < i. p_pid (?t ! j) = next_pid s \<longrightarrow> \<not> p_used (?t ! j)"
    using fresh pid i'(1) by (metis order.strict_trans)
  let ?s2 = "set_proc i ?z s1" and ?s3 = "set_proc i ?u (set_proc i ?z s1)"
  have nth: "process_table (set_proc i q s1) ! k = (if k = i then q else ?t ! k)" for q k
    using i' len by (simp add: s1 nth_list_update)
  have nth1: "process_table s1 ! k = (if k = i then ?p else ?t ! k)" for k
    using i' len by (simp add: s1 nth_list_update)
  have get: "find_slot (\<lambda>p. p_used p \<and> p_pid p = pid) s1 = Some i"
    using i' before pid by (auto simp: find_slot_Some nth1)
  have zombie: "find_slot (\<lambda>p. p_used p \<and> p_pid p = pid \<and> p_state p = PROCESS_ZOMBIE) ?s2 = Some i"
    using i' before pid by (auto simp: find_slot_Some nth simp del: set_proc_simps)
  have early: "find_slot (\<lambda>p. p_used p \<and> p_pid p = pid \<and> p_state p = PROCESS_ZOMBIE) s1 = None"
    using fresh pid by (auto simp: find_slot_None nth1)
  have s3: "process_table ?s3 ! k = (if k = i then ?u else ?t ! k)" for k
    using i' len by (simp add: s1 nth_list_update)
  have gone: "find_slot (\<lambda>p. p_used p \<and> p_pid p = pid) ?s3 = None"
    unfolding find_slot_None s3 using fresh by (simp add: zero_proc_def)
  have "p_used (process_table ?s3 ! k) = p_used (?t ! k)" for k
    using i'(2) by (simp only: s3) (simp add: zero_proc_def)
  then have "process_count ?s3 = process_count s"
    by (simp only: process_count_def)
  moreover have "process_kill pid s1 = (?s2, 0)"
    using get pos nth1 [of i] by (simp add: process_kill_def)
  moreover have "process_cleanup pid ?s2 = (?s3, 0)"
    using zombie pos by (simp add: process_cleanup_def)
  moreover have "process_get pid s1 = Some i" "process_cleanup pid s1 = (s1, -1)" "process_get pid ?s3 = None"
    using get pos early gone by (simp_all add: process_get_def process_cleanup_def)
  moreover have "p_state (process_table s1 ! i) = PROCESS_RUNNING" by (simp add: nth1)
  moreover have "p_state (process_table ?s2 ! i) = PROCESS_ZOMBIE" by (simp add: nth del: set_proc_simps)
  ultimately show ?thesis
    by (intro exI [of _ i] exI [of _ ?s2] exI [of _ ?s3] conjI)
qed

theorem process_life_cycle_witness:
  "\<exists>s1 i. process_create (Some ''init'') 0 ptable_boot = (s1, 100) \<and> process_get 100 s1 = Some i"
proof -
  have "\<exists>s1. process_create (Some ''init'') 0 ptable_boot = (s1, 100)"
    by (simp add: process_create_def ptable_boot_def find_slot_def upt_rec zero_proc_def Let_def)
  then obtain s1 where s1: "process_create (Some ''init'') 0 ptable_boot = (s1, 100)" ..
  have "next_pid ptable_boot < 2 ^ 31 - 1" by (simp add: ptable_boot_def)
  from process_life_cycle [OF ptable_boot_wf this s1] s1 show ?thesis by auto
qed

end
