(* ===== verification/Kern.thy ===== *)
theory Kern
  imports Prelude
begin

text \<open>
  Small kernel services: reference counts (\<open>kern/refcnt.c\<close>), shared reference pointers
  (\<open>kern/srp.c\<close>), interrupt maps (\<open>kern/intrmap.c\<close>) and \<open>poll\<close> (\<open>kern/poll.c\<close>).

  A pointer to a client object is a value of any type \<open>'p\<close>, \<open>None\<close> is \<open>NULL\<close>.  Calls of a
  destructor are recorded in a list, newest first.
\<close>

section \<open>Reference counts\<close>

record refcnt =
  r_refs :: u32
  r_traceidx :: int

definition refcnt_init :: "refcnt \<Rightarrow> refcnt" where
  "refcnt_init r = r\<lparr>r_refs := 1, r_traceidx := 0\<rparr>"

definition refcnt_init_trace :: "refcnt \<Rightarrow> int \<Rightarrow> refcnt" where
  "refcnt_init_trace r i = r\<lparr>r_refs := 1, r_traceidx := i\<rparr>"

definition refcnt_take :: "refcnt \<Rightarrow> refcnt" where
  "refcnt_take r = r\<lparr>r_refs := r_refs r + 1\<rparr>"

definition refcnt_rele :: "refcnt \<Rightarrow> refcnt \<times> bool" where
  "refcnt_rele r = (let n = r_refs r - 1 in (r\<lparr>r_refs := n\<rparr>, n = 0))"

definition refcnt_rele_wake :: "refcnt \<Rightarrow> refcnt" where
  "refcnt_rele_wake r = fst (refcnt_rele r)"

text \<open>Whether \<open>refcnt_finalize\<close> prints its warning.\<close>

definition refcnt_finalize :: "refcnt \<Rightarrow> bool" where
  "refcnt_finalize r \<longleftrightarrow> r_refs r \<noteq> 0"

definition refcnt_shared :: "refcnt \<Rightarrow> bool" where
  "refcnt_shared r \<longleftrightarrow> r_refs r > 1"

definition refcnt_read :: "refcnt \<Rightarrow> u32" where
  "refcnt_read r = r_refs r"

section \<open>Shared reference pointers\<close>

record 'p srp_gc =
  gc_refcnt :: refcnt
  gc_dtor_calls :: "'p option list"

definition srp_gc_init :: "'p srp_gc \<Rightarrow> 'p srp_gc" where
  "srp_gc_init gc = gc\<lparr>gc_refcnt := refcnt_init (gc_refcnt gc)\<rparr>"

definition srp_init :: "'p option" where
  "srp_init = None"

definition srp_swap_locked :: "'p option \<Rightarrow> 'p option \<Rightarrow> 'p option \<times> 'p option" where
  "srp_swap_locked srp ptr = (ptr, srp)"

definition srp_update_locked :: "'p srp_gc \<Rightarrow> 'p option \<Rightarrow> 'p option \<Rightarrow> 'p srp_gc \<times> 'p option" where
  "srp_update_locked gc srp ptr =
     (let (srp, old) = srp_swap_locked srp ptr;
          gc = (if ptr \<noteq> None then gc\<lparr>gc_refcnt := refcnt_take (gc_refcnt gc)\<rparr> else gc)
      in if old \<noteq> None then
           let (r, last) = refcnt_rele (gc_refcnt gc); gc = gc\<lparr>gc_refcnt := r\<rparr>
           in (if last then gc\<lparr>gc_dtor_calls := old # gc_dtor_calls gc\<rparr> else gc, srp)
         else (gc, srp))"

definition srp_get_locked :: "'p option \<Rightarrow> 'p option" where
  "srp_get_locked srp = srp"

definition srp_gc_finalize :: "'p srp_gc \<Rightarrow> 'p srp_gc" where
  "srp_gc_finalize gc =
     (let (r, last) = refcnt_rele (gc_refcnt gc); gc = gc\<lparr>gc_refcnt := r\<rparr>
      in if last then gc\<lparr>gc_dtor_calls := None # gc_dtor_calls gc\<rparr> else gc)"

text \<open>Several pointers sharing one \<open>srp_gc\<close>: an update of the \<open>i\<close>th.\<close>

definition srp_step ::
    "nat \<times> 'p option \<Rightarrow> 'p srp_gc \<times> 'p option list \<Rightarrow> ('p srp_gc \<times> 'p option list) option" where
  "srp_step u s =
     (case (u, s) of ((i, ptr), (gc, srps)) \<Rightarrow>
        do { old \<leftarrow> rd srps i;
             let (gc, new) = srp_update_locked gc old ptr
             in Some (gc, srps[i := new]) })"

definition live_refs :: "'p option list \<Rightarrow> nat" where
  "live_refs srps = length (filter (\<lambda>p. p \<noteq> None) srps)"

definition srp_inv :: "'p srp_gc \<times> 'p option list \<Rightarrow> bool" where
  "srp_inv s \<longleftrightarrow>
     (case s of (gc, srps) \<Rightarrow> length srps < 2 ^ 32 - 2 \<and>
        unat (r_refs (gc_refcnt gc)) = 1 + live_refs srps \<and> gc_dtor_calls gc = [])"

lemma live_refs_update:
  "i < length srps \<Longrightarrow>
   live_refs (srps[i := p]) + (if srps ! i \<noteq> None then 1 else 0) =
   live_refs srps + (if p \<noteq> None then 1 else 0)"
proof (induction srps arbitrary: i)
  case Nil
  then show ?case by simp
next
  case (Cons q srps)
  show ?case
  proof (cases i)
    case 0
    then show ?thesis by (simp add: live_refs_def)
  next
    case (Suc j)
    with Cons.IH [of j] Cons.prems show ?thesis by (auto simp: live_refs_def split: if_splits)
  qed
qed

lemma live_refs_le: "live_refs srps \<le> length srps"
  by (simp add: live_refs_def)

text \<open>What one update does to the count: one more for a new pointer, one less for the old.\<close>

lemma srp_update_refs:
  assumes "unat (r_refs (gc_refcnt gc)) = Suc k" and "Suc (Suc k) < 2 ^ 32" and "old \<noteq> None \<longrightarrow> 0 < k"
    and "gc_dtor_calls gc = []"
  shows "\<exists>gc'. srp_update_locked gc old ptr = (gc', ptr) \<and> gc_dtor_calls gc' = [] \<and>
    unat (r_refs (gc_refcnt gc')) + (if old \<noteq> None then 1 else 0) = Suc k + (if ptr \<noteq> None then 1 else 0)"
proof -
  let ?r = "r_refs (gc_refcnt gc)"
  have up: "unat (?r + 1) = Suc (Suc k)" using assms(1,2) by (simp add: unat_word_ariths)
  have nz: "?r \<noteq> 0" using assms(1) by auto
  then have down: "unat (?r - 1) = k" using assms(1) by (simp add: unat_minus_one)
  have "?r - 1 = 0 \<longleftrightarrow> k = 0" using down by (metis unat_0 unat_eq_zero)
  with up down assms show ?thesis
    by (cases old; cases ptr)
      (auto simp: srp_update_locked_def srp_swap_locked_def refcnt_take_def refcnt_rele_def Let_def)
qed

lemma srp_step_inv:
  assumes "srp_inv s" and "srp_step u s = Some t"
  shows "srp_inv t"
proof -
  obtain gc srps i ptr where s: "s = (gc, srps)" "u = (i, ptr)" by (cases s; cases u)
  from assms(2) s have i: "i < length srps" by (auto simp: srp_step_def rd_def split: if_splits)
  let ?k = "live_refs srps"
  have pos: "srps ! i \<noteq> None \<longrightarrow> 0 < ?k"
  proof
    assume "srps ! i \<noteq> None"
    with nth_mem [OF i] have "srps ! i \<in> set (filter (\<lambda>p. p \<noteq> None) srps)" by simp
    then show "0 < ?k" unfolding live_refs_def by (rule length_pos_if_in_set)
  qed
  have "Suc (Suc ?k) < 2 ^ 32" using assms(1) s live_refs_le [of srps] by (simp add: srp_inv_def)
  from srp_update_refs [OF _ this pos, of gc ptr] assms(1) s obtain gc' where
    "srp_update_locked gc (srps ! i) ptr = (gc', ptr)" "gc_dtor_calls gc' = []"
    "unat (r_refs (gc_refcnt gc')) + (if srps ! i \<noteq> None then 1 else 0) = Suc ?k + (if ptr \<noteq> None then 1 else 0)"
    by (auto simp: srp_inv_def)
  with live_refs_update [OF i, of ptr] assms s i show ?thesis
    by (auto simp: srp_inv_def srp_step_def rd_in)
qed

interpretation srp_sys: inv_system srp_step srp_inv
  by unfold_locales (rule srp_step_inv)

section \<open>Interrupt maps\<close>

text \<open>
  The heap as the set of live blocks and the number of \<open>malloc\<close> calls so far; the \<open>n\<close>th
  call succeeds if \<open>ok n\<close>, and its block is named \<open>n\<close>.
\<close>

record iheap =
  ih_calls :: nat
  ih_live :: "nat set"

definition ih_malloc :: "(nat \<Rightarrow> bool) \<Rightarrow> iheap \<Rightarrow> iheap \<times> nat option" where
  "ih_malloc ok h =
     (let n = ih_calls h in
      if ok n then (h\<lparr>ih_calls := n + 1, ih_live := insert n (ih_live h)\<rparr>, Some n)
      else (h\<lparr>ih_calls := n + 1\<rparr>, None))"

definition ih_free :: "nat \<Rightarrow> iheap \<Rightarrow> iheap" where
  "ih_free b h = h\<lparr>ih_live := ih_live h - {b}\<rparr>"

text \<open>A \<open>struct cpu_info*\<close> is its block and its \<open>cpu_id\<close>.\<close>

record 'd intrmap =
  im_device :: 'd
  im_flags :: u32
  im_cpu_count :: u32
  im_cpus :: "(nat \<times> u32) list"
  im_block :: nat
  im_cpus_block :: nat

text \<open>
  The loop that fills \<open>im->cpus\<close>, an array of \<open>cap\<close> entries; a failed \<open>malloc\<close> frees what
  was allocated so far.  A write beyond the array has no result.
\<close>

fun alloc_cpus ::
    "(nat \<Rightarrow> bool) \<Rightarrow> u32 \<Rightarrow> nat \<Rightarrow> nat list \<Rightarrow> (nat \<times> u32) list \<Rightarrow> iheap \<Rightarrow> (iheap \<times> (nat \<times> u32) list option) option"
  where
  "alloc_cpus ok base cap [] acc h = Some (h, Some acc)"
| "alloc_cpus ok base cap (i # is) acc h =
     (if i \<ge> cap then None
      else case ih_malloc ok h of
        (h, None) \<Rightarrow> Some (foldr (\<lambda>(b, _). ih_free b) acc h, None)
      | (h, Some b) \<Rightarrow> alloc_cpus ok base cap is (acc @ [(b, base + of_nat i)]) h)"

definition intrmap_create ::
    "(nat \<Rightarrow> bool) \<Rightarrow> 'd \<Rightarrow> u32 \<Rightarrow> u32 \<Rightarrow> u32 \<Rightarrow> iheap \<Rightarrow> (iheap \<times> 'd intrmap option) option" where
  "intrmap_create ok device flags cpu_count cpu_base_id h =
     (case ih_malloc ok h of
        (h, None) \<Rightarrow> Some (h, None)
      | (h, Some im) \<Rightarrow>
          (case ih_malloc ok h of
             (h, None) \<Rightarrow> Some (ih_free im h, None)
           | (h, Some arr) \<Rightarrow>
               do { (h, cpus) \<leftarrow> alloc_cpus ok cpu_base_id (unat (4 * cpu_count) div 4)
                                 [0..<unat cpu_count] [] h;
                    case cpus of
                      None \<Rightarrow> Some (ih_free im (ih_free arr h), None)
                    | Some cpus \<Rightarrow>
                        Some (h, Some \<lparr>im_device = device, im_flags = flags, im_cpu_count = cpu_count,
                                       im_cpus = cpus, im_block = im, im_cpus_block = arr\<rparr>) }))"

definition intrmap_destroy :: "'d intrmap option \<Rightarrow> iheap \<Rightarrow> iheap" where
  "intrmap_destroy im h =
     (case im of
        None \<Rightarrow> h
      | Some im \<Rightarrow>
          ih_free (im_block im) (ih_free (im_cpus_block im) (fold (\<lambda>(b, _). ih_free b) (im_cpus im) h)))"

definition intrmap_count :: "'d intrmap option \<Rightarrow> u32" where
  "intrmap_count im = (case im of None \<Rightarrow> 0 | Some im \<Rightarrow> im_cpu_count im)"

definition intrmap_cpu :: "'d intrmap option \<Rightarrow> u32 \<Rightarrow> (nat \<times> u32) option" where
  "intrmap_cpu im idx =
     (case im of
        None \<Rightarrow> None
      | Some im \<Rightarrow> if idx \<ge> im_cpu_count im then None else Some (im_cpus im ! unat idx))"

lemma foldr_free: "ih_live (foldr (\<lambda>(b, _). ih_free b) acc h) = ih_live h - fst ` set acc"
  by (induction acc) (auto simp: ih_free_def split: prod.splits)

lemma fold_free: "ih_live (fold (\<lambda>(b, _). ih_free b) acc h) = ih_live h - fst ` set acc"
  by (induction acc arbitrary: h) (auto simp: ih_free_def split: prod.splits)

text \<open>
  The blocks of \<open>acc\<close> are the live ones beyond \<open>L\<close>; the loop ends with all of them freed, or
  with one block for each index, and the identifiers in order.
\<close>

lemma alloc_cpus_spec:
  assumes "b \<le> cap" and "a \<le> b" and "ih_live h = L \<union> fst ` set acc" and "L \<inter> fst ` set acc = {}"
    and "\<forall>x \<in> ih_live h. x < ih_calls h" and "map snd acc = map (\<lambda>i. base + of_nat i) [0..<a]"
  shows "(\<exists>h'. alloc_cpus ok base cap [a..<b] acc h = Some (h', None) \<and> ih_live h' = L) \<or>
    (\<exists>h' cpus. alloc_cpus ok base cap [a..<b] acc h = Some (h', Some cpus) \<and>
       ih_live h' = L \<union> fst ` set cpus \<and> L \<inter> fst ` set cpus = {} \<and>
       map snd cpus = map (\<lambda>i. base + of_nat i) [0..<b])"
  using assms
proof (induction "b - a" arbitrary: a acc h)
  case 0
  then show ?case by simp
next
  case (Suc n)
  then have ab: "a < b" and n: "n = b - Suc a" by simp_all
  then have upt: "[a..<b] = a # [Suc a..<b]" by (simp add: upt_conv_Cons)
  let ?h = "h\<lparr>ih_calls := ih_calls h + 1, ih_live := insert (ih_calls h) (ih_live h)\<rparr>"
  let ?acc = "acc @ [(ih_calls h, base + of_nat a)]"
  show ?case
  proof (cases "ok (ih_calls h)")
    case False
    with ab Suc.prems show ?thesis
      by (auto simp: upt ih_malloc_def Let_def foldr_free)
  next
    case True
    have fresh: "ih_calls h \<notin> ih_live h" using Suc.prems(5) by blast
    have "alloc_cpus ok base cap [a..<b] acc h = alloc_cpus ok base cap [Suc a..<b] ?acc ?h"
      using True ab Suc.prems(1) by (simp add: upt ih_malloc_def Let_def)
    moreover have "ih_live ?h = L \<union> fst ` set ?acc" "L \<inter> fst ` set ?acc = {}"
      "map snd ?acc = map (\<lambda>i. base + of_nat i) [0..<Suc a]"
      using Suc.prems(3,4,6) fresh by auto
    moreover have "\<forall>x \<in> ih_live ?h. x < ih_calls ?h"
      using Suc.prems(5) by (auto intro: less_SucI)
    ultimately show ?thesis
      using Suc.hyps(1) [OF n Suc.prems(1), of ?h ?acc] ab by simp
  qed
qed

section \<open>poll\<close>

record pollfd =
  pfd_fd :: int
  pfd_events :: u16
  pfd_revents :: u16

text \<open>\<open>poll\<close> and \<open>ppoll\<close> have the same body; \<open>None\<close> for the array is \<open>NULL\<close>.\<close>

definition poll :: "pollfd list option \<Rightarrow> nat \<Rightarrow> (pollfd list option \<times> int) option" where
  "poll fds nfds =
     (case fds of
        None \<Rightarrow> if nfds > 0 then Some (None, -1) else Some (None, 0)
      | Some xs \<Rightarrow>
          do { xs \<leftarrow> for_each (\<lambda>i xs. do { f \<leftarrow> rd xs i; wr xs i (f\<lparr>pfd_revents := 0\<rparr>) }) [0..<nfds] xs;
               Some (Some xs, 0) })"

lemma poll_clears:
  assumes "nfds \<le> length xs"
  shows "poll (Some xs) nfds =
    Some (Some (update_range 0 nfds (\<lambda>_ f. f\<lparr>pfd_revents := 0\<rparr>) xs), 0)"
proof -
  have "for_each (\<lambda>i xs. do { f \<leftarrow> rd xs i; wr xs i (f\<lparr>pfd_revents := 0\<rparr>) }) [0..<nfds] xs =
      Some (update_range 0 nfds (\<lambda>_ f. f\<lparr>pfd_revents := 0\<rparr>) xs)"
    using assms by (intro for_each_update_range) (simp_all add: rd_in wr_in)
  then show ?thesis by (simp add: poll_def)
qed

section \<open>Properties\<close>

text \<open>C10.  Shared reference pointers under one \<open>srp_gc\<close>: after any updates the count is one
  more than the pointers that are set, so it never reaches zero and the destructor is never
  called for a pointer that an update replaced or cleared.\<close>

theorem srp_updates_never_destroy:
  assumes "length srps < 2 ^ 32 - 2" and "\<forall>p \<in> set srps. p = srp_init"
    and "run_ops srp_step us (srp_gc_init \<lparr>gc_refcnt = r, gc_dtor_calls = []\<rparr>, srps) = Some (gc, srps')"
  shows "unat (refcnt_read (gc_refcnt gc)) = 1 + live_refs srps' \<and> gc_dtor_calls gc = []"
proof -
  have "live_refs srps = 0" using assms(2) by (simp add: live_refs_def srp_init_def)
  then have "srp_inv (srp_gc_init \<lparr>gc_refcnt = r, gc_dtor_calls = []\<rparr>, srps)"
    using assms(1) by (simp add: srp_inv_def srp_gc_init_def refcnt_init_def)
  from srp_sys.run_inv [OF this assms(3)] show ?thesis by (simp add: srp_inv_def refcnt_read_def)
qed

theorem srp_updates_never_destroy_witness:
  "\<exists>gc srps'. run_ops srp_step [(0, Some CHR ''a''), (0, None)]
     (srp_gc_init \<lparr>gc_refcnt = \<lparr>r_refs = 7, r_traceidx = 0\<rparr>, gc_dtor_calls = []\<rparr>, [None]) = Some (gc, srps') \<and>
     gc_dtor_calls gc = []"
proof -
  let ?s = "(srp_gc_init \<lparr>gc_refcnt = \<lparr>r_refs = 7, r_traceidx = 0\<rparr>, gc_dtor_calls = []\<rparr>, [None])"
  obtain gc srps' where run: "run_ops srp_step [(0, Some CHR ''a''), (0, None)] ?s = Some (gc, srps')"
    by (simp add: srp_step_def rd_def srp_update_locked_def srp_swap_locked_def refcnt_take_def
        refcnt_rele_def srp_gc_init_def refcnt_init_def)
  from srp_updates_never_destroy [OF _ _ run] run show ?thesis by (auto simp: srp_init_def)
qed

text \<open>\<open>intrmap_create\<close> leaks nothing: for a CPU count below \<open>2 ^ 30\<close> it stays inside its
  array; if any of its allocations fails, every block it made is freed again; otherwise the
  map has the CPUs numbered from the base and \<open>intrmap_destroy\<close> frees every block.\<close>

theorem intrmap_create_balanced:
  assumes "unat n < 2 ^ 30" and "\<forall>x \<in> ih_live h. x < ih_calls h"
  shows "\<exists>h' r. intrmap_create ok dev flags n base h = Some (h', r) \<and>
    ih_live (intrmap_destroy r h') = ih_live h \<and>
    (\<forall>im k. r = Some im \<longrightarrow> k < n \<longrightarrow> map_option snd (intrmap_cpu r k) = Some (base + k))"
proof -
  define m where "m = ih_calls h"
  have cap: "unat (4 * n) div 4 = unat n" using assms(1) by (simp add: unat_word_ariths)
  let ?h2 = "h\<lparr>ih_calls := Suc (Suc m), ih_live := insert (Suc m) (insert m (ih_live h))\<rparr>"
  have new: "m \<notin> ih_live h" "Suc m \<notin> ih_live h" using assms(2) by (auto simp: m_def)
  consider "\<not> ok m" | "ok m" "\<not> ok (Suc m)" | "ok m" "ok (Suc m)" by blast
  then show ?thesis
  proof cases
    case 1
    then show ?thesis by (simp add: intrmap_create_def ih_malloc_def intrmap_destroy_def Let_def m_def)
  next
    case 2
    with new show ?thesis
      by (simp add: intrmap_create_def ih_malloc_def intrmap_destroy_def ih_free_def Let_def flip: m_def)
  next
    case 3
    then have eq: "intrmap_create ok dev flags n base h =
        do { (h, cpus) \<leftarrow> alloc_cpus ok base (unat n) [0..<unat n] [] ?h2;
             case cpus of
               None \<Rightarrow> Some (ih_free m (ih_free (Suc m) h), None)
             | Some cpus \<Rightarrow> Some (h, Some \<lparr>im_device = dev, im_flags = flags, im_cpu_count = n,
                 im_cpus = cpus, im_block = m, im_cpus_block = Suc m\<rparr>) }"
      by (simp add: intrmap_create_def ih_malloc_def cap Let_def flip: m_def)
    have "\<forall>x \<in> ih_live ?h2. x < ih_calls ?h2" using assms(2) by (force simp: m_def)
    from alloc_cpus_spec [OF order_refl _ _ _ this, of 0 "unat n" "ih_live ?h2" "[]" base ok]
    consider (fail) h' where "alloc_cpus ok base (unat n) [0..<unat n] [] ?h2 = Some (h', None)"
        "ih_live h' = ih_live ?h2"
      | (full) h' cpus where "alloc_cpus ok base (unat n) [0..<unat n] [] ?h2 = Some (h', Some cpus)"
        "ih_live h' = ih_live ?h2 \<union> fst ` set cpus" "ih_live ?h2 \<inter> fst ` set cpus = {}"
        "map snd cpus = map (\<lambda>i. base + of_nat i) [0..<unat n]" by auto
    then show ?thesis
    proof cases
      case fail
      with eq new show ?thesis by (auto simp: ih_free_def intrmap_destroy_def)
    next
      case (full h' cpus)
      have "map snd cpus ! unat k = base + k" if "k < n" for k
        using that by (simp add: full(4) word_less_nat_alt)
      moreover have "length cpus = unat n" using arg_cong [OF full(4), of length] by simp
      ultimately have "\<forall>k. k < n \<longrightarrow> snd (cpus ! unat k) = base + k" by (simp add: word_less_nat_alt)
      then have "\<forall>k. k < n \<longrightarrow> (\<exists>b. cpus ! unat k = (b, base + k))" by (metis prod.collapse)
      moreover have "ih_live h' - fst ` set cpus - {Suc m} - {m} = ih_live h"
        using full(2,3) new by auto
      ultimately show ?thesis
        using eq full(1) by (simp add: intrmap_destroy_def intrmap_cpu_def ih_free_def fold_free not_le [symmetric])
    qed
  qed
qed

theorem intrmap_create_balanced_witness:
  "\<exists>h' r. intrmap_create (\<lambda>i. i \<noteq> 3) (0::nat) 0 4 8 \<lparr>ih_calls = 0, ih_live = {}\<rparr> = Some (h', r) \<and>
     ih_live (intrmap_destroy r h') = {}"
  using intrmap_create_balanced [of 4 "\<lparr>ih_calls = 0, ih_live = {}\<rparr>" "\<lambda>i. i \<noteq> 3" 0 0 8] by auto

end
