(* ===== verification/Pclock.thy ===== *)
theory Pclock
  imports Prelude
begin

text \<open>
  The producer/consumer lock, \<open>kern/pclock.c\<close>: a generation number that is odd while a
  producer changes the data, so that consumers retry.

  State: \<open>pcl_gen\<close>, and for each processor the point it has reached in the function it
  runs, with the values it has read.  One step is one access to the shared word: the read of
  the generation, the \<open>cmpxchg\<close>, the final store.  \<open>atomic_cas_uint\<close>
  (\<open>usr/include/machine/atomic.h\<close>) returns the word's old value.
\<close>

section \<open>The shared word\<close>

record pc_lock = pcl_gen :: u32

definition pc_lock_init :: "pc_lock \<Rightarrow> pc_lock" where
  "pc_lock_init l = l\<lparr>pcl_gen := 0\<rparr>"

text \<open>The new word and the returned value.\<close>

definition atomic_cas_uint :: "u32 \<Rightarrow> u32 \<Rightarrow> u32 \<Rightarrow> u32 \<times> u32" where
  "atomic_cas_uint p e n = (if p = e then (n, p) else (p, p))"

section \<open>Single producer\<close>

definition pc_sprod_enter :: "pc_lock \<Rightarrow> u32" where
  "pc_sprod_enter l = pcl_gen l"

definition pc_sprod_leave :: "u32 \<Rightarrow> pc_lock \<Rightarrow> pc_lock" where
  "pc_sprod_leave gen l = l\<lparr>pcl_gen := gen + 1\<rparr>"

section \<open>Multiple producers\<close>

text \<open>
  A producer: about to read the generation; about to swap the even value it read; inside
  with the generation that \<open>pc_mprod_enter\<close> returned; gone.
\<close>

datatype mprod = MP_read | MP_cas u32 | MP_in u32 | MP_out

fun pc_mprod_enter :: "mprod \<Rightarrow> u32 \<Rightarrow> (mprod \<times> u32) option" where
  "pc_mprod_enter MP_read w = Some (if w AND 1 = 0 then MP_cas w else MP_read, w)"
| "pc_mprod_enter (MP_cas gen) w =
     (let (w, old) = atomic_cas_uint w gen (gen + 1)
      in Some (if old \<noteq> 0 then MP_in (gen + 1) else MP_read, w))"
| "pc_mprod_enter (MP_in gen) w = None"
| "pc_mprod_enter MP_out w = None"

fun pc_mprod_leave :: "mprod \<Rightarrow> u32 \<Rightarrow> (mprod \<times> u32) option" where
  "pc_mprod_leave (MP_in gen) w = Some (MP_out, gen + 1)"
| "pc_mprod_leave p w = None"

text \<open>The system of several producers: any of them takes its next step.\<close>

type_synonym psys = "u32 \<times> mprod list"

inductive psys_step :: "psys \<Rightarrow> psys \<Rightarrow> bool" where
  enter: "i < length ps \<Longrightarrow> pc_mprod_enter (ps ! i) w = Some (p, w') \<Longrightarrow>
    psys_step (w, ps) (w', ps[i := p])"
| leave: "i < length ps \<Longrightarrow> pc_mprod_leave (ps ! i) w = Some (p, w') \<Longrightarrow>
    psys_step (w, ps) (w', ps[i := p])"

inductive_cases psys_stepE: "psys_step (w, ps) t"

inductive psys_reach :: "psys \<Rightarrow> psys \<Rightarrow> bool" for s where
  start: "psys_reach s s"
| step: "psys_reach s t \<Longrightarrow> psys_step t u \<Longrightarrow> psys_reach s u"

section \<open>Consumers\<close>

text \<open>
  A consumer: about to read the generation, about to read it again with the even value read
  first, or inside with the generation stored in \<open>*pgen\<close>.
\<close>

datatype cons_pc = PC_read1 | PC_read2 u32 | PC_in u32

fun pc_cons_enter :: "u32 \<Rightarrow> cons_pc \<Rightarrow> cons_pc" where
  "pc_cons_enter w PC_read1 = (if w AND 1 \<noteq> 0 then PC_read1 else PC_read2 w)"
| "pc_cons_enter w (PC_read2 gen1) = (if gen1 = w \<and> w AND 1 = 0 then PC_in w else PC_read1)"
| "pc_cons_enter w (PC_in gen) = PC_in gen"

text \<open>The new \<open>*pgen\<close> and the result: 1 asks the consumer to retry.\<close>

definition pc_cons_leave :: "pc_lock \<Rightarrow> u32 \<Rightarrow> u32 \<times> int" where
  "pc_cons_leave l pgen = (let gen = pcl_gen l in if gen \<noteq> pgen then (gen, 1) else (pgen, 0))"

section \<open>Lemmas\<close>

text \<open>A list of values of the word, one for each step of the consumer.\<close>

definition cons_run :: "u32 list \<Rightarrow> cons_pc \<Rightarrow> cons_pc" where
  "cons_run ws c = fold pc_cons_enter ws c"

lemma cons_run_in: "cons_run ws (PC_in g) = PC_in g"
  by (induction ws) (simp_all add: cons_run_def)

text \<open>A consumer enters only on two equal even reads in a row.\<close>

lemma cons_run_enters:
  assumes "cons_run ws PC_read1 = PC_in g"
  shows "g AND 1 = 0 \<and> (\<exists>us vs. ws = us @ g # g # vs)"
proof -
  have "(cons_run ws PC_read1 = PC_in g \<longrightarrow> g AND 1 = 0 \<and> (\<exists>us vs. ws = us @ g # g # vs)) \<and>
    (\<forall>h. cons_run ws (PC_read2 h) = PC_in g \<longrightarrow> g AND 1 = 0 \<and>
       ((\<exists>us vs. ws = us @ g # g # vs) \<or> (h = g \<and> (\<exists>vs. ws = g # vs))))"
  proof (induction ws)
    case Nil
    then show ?case by (simp add: cons_run_def)
  next
    case (Cons w ws)
    have step: "cons_run (w # ws) c = cons_run ws (pc_cons_enter w c)" for c
      by (simp add: cons_run_def)
    show ?case
    proof (intro conjI impI allI)
      assume run: "cons_run (w # ws) PC_read1 = PC_in g"
      show "g AND 1 = 0"
        using run Cons.IH by (auto simp: step split: if_splits)
      show "\<exists>us vs. w # ws = us @ g # g # vs"
      proof (cases "w AND 1 = 0")
        case False
        with run Cons.IH obtain us vs where "ws = us @ g # g # vs" by (auto simp: step)
        then have "w # ws = (w # us) @ g # g # vs" by simp
        then show ?thesis by blast
      next
        case True
        with run Cons.IH consider us vs where "ws = us @ g # g # vs" | vs where "w = g" "ws = g # vs"
          by (auto simp: step)
        then show ?thesis
        proof cases
          case 1
          then have "w # ws = (w # us) @ g # g # vs" by simp
          then show ?thesis by blast
        next
          case 2
          then have "w # ws = [] @ g # g # vs" by simp
          then show ?thesis by blast
        qed
      qed
    next
      fix h
      assume run: "cons_run (w # ws) (PC_read2 h) = PC_in g"
      show "g AND 1 = 0"
        using run Cons.IH by (auto simp: step cons_run_in split: if_splits)
      show "(\<exists>us vs. w # ws = us @ g # g # vs) \<or> h = g \<and> (\<exists>vs. w # ws = g # vs)"
      proof (cases "h = w \<and> w AND 1 = 0")
        case True
        with run show ?thesis by (simp add: step cons_run_in)
      next
        case False
        with run Cons.IH obtain us vs where "ws = us @ g # g # vs" by (auto simp: step)
        then have "w # ws = (w # us) @ g # g # vs" by simp
        then show ?thesis by blast
      qed
    qed
  qed
  with assms show ?thesis by blast
qed

lemma odd_blocks:
  "\<forall>w \<in> set ws. w AND 1 \<noteq> 0 \<Longrightarrow> cons_run ws PC_read1 = PC_read1"
  by (induction ws) (simp_all add: cons_run_def)

section \<open>Properties\<close>

text \<open>A consumer that gets in read the same even generation twice in a row, whatever the
  producers did in between, and \<open>pc_cons_leave\<close> lets it go exactly if the generation is
  still that one.\<close>

theorem pc_cons_consistent:
  assumes "cons_run ws PC_read1 = PC_in gen"
  shows "gen AND 1 = 0 \<and> (\<exists>us vs. ws = us @ gen # gen # vs) \<and>
    (snd (pc_cons_leave l gen) = 0 \<longleftrightarrow> pcl_gen l = gen)"
  using cons_run_enters [OF assms] by (simp add: pc_cons_leave_def Let_def)

theorem pc_cons_consistent_witness:
  "cons_run [1, 2, 2] PC_read1 = PC_in 2 \<and> snd (pc_cons_leave \<lparr>pcl_gen = 4\<rparr> 2) \<noteq> 0"
proof -
  have run: "cons_run [1, 2, 2] PC_read1 = PC_in 2" by (simp add: cons_run_def)
  from pc_cons_consistent [OF this, of "\<lparr>pcl_gen = 4\<rparr>"] run show ?thesis by simp
qed

text \<open>On a fresh lock a producer never gets into \<open>pc_mprod_enter\<close>: its swap succeeds, but
  the returned old value 0 is taken for a failure, and from then on the generation is odd and
  it waits for itself.\<close>

theorem pc_mprod_fresh_lock_blocks:
  assumes "psys_reach (pcl_gen (pc_lock_init l), [MP_read]) (w, ps)"
  shows "\<forall>gen. MP_in gen \<notin> set ps"
proof -
  have "t \<in> {(0, [MP_read]), (0, [MP_cas 0]), (1, [MP_read])}"
    if "psys_reach (0, [MP_read]) t" for t
    using that
  proof (induction rule: psys_reach.induct)
    case start
    then show ?case by simp
  next
    case (step t u)
    from step.IH step.hyps(2) show ?case
      by (auto elim!: psys_stepE simp: atomic_cas_uint_def)
  qed
  from this [of "(w, ps)"] assms show ?thesis by (auto simp: pc_lock_init_def)
qed

theorem pc_mprod_fresh_lock_blocks_witness:
  "psys_reach (0, [MP_read]) (1, [MP_read]) \<and> (\<forall>gen. MP_in gen \<notin> set [MP_read])"
proof -
  have s1: "psys_step (0, [MP_read]) (0, [MP_cas 0])"
    using enter [of 0 "[MP_read]" 0 "MP_cas 0" 0] by simp
  have s2: "psys_step (0, [MP_cas 0]) (1, [MP_read])"
    using enter [of 0 "[MP_cas 0]" 0 MP_read 1] by (simp add: atomic_cas_uint_def)
  have r: "psys_reach (0, [MP_read]) (1, [MP_read])"
    by (rule psys_reach.step [OF psys_reach.step [OF psys_reach.start s1] s2])
  with pc_mprod_fresh_lock_blocks [of "\<lparr>pcl_gen = 5\<rparr>" 1 "[MP_read]"] show ?thesis
    by (simp add: pc_lock_init_def)
qed

text \<open>With a generation other than 0 the lock does not exclude: two producers that read the
  same even generation both get in, because the second swap fails with a non-zero old value,
  which counts as success.\<close>

theorem pc_mprod_no_exclusion:
  "psys_reach (2, [MP_read, MP_read]) (3, [MP_in 3, MP_in 3])"
proof -
  have s1: "psys_step (2, [MP_read, MP_read]) (2, [MP_cas 2, MP_read])"
    using enter [of 0 "[MP_read, MP_read]" 2 "MP_cas 2" 2] by simp
  have s2: "psys_step (2, [MP_cas 2, MP_read]) (2, [MP_cas 2, MP_cas 2])"
    using enter [of 1 "[MP_cas 2, MP_read]" 2 "MP_cas 2" 2] by simp
  have s3: "psys_step (2, [MP_cas 2, MP_cas 2]) (3, [MP_in 3, MP_cas 2])"
    using enter [of 0 "[MP_cas 2, MP_cas 2]" 2 "MP_in 3" 3] by (simp add: atomic_cas_uint_def)
  have s4: "psys_step (3, [MP_in 3, MP_cas 2]) (3, [MP_in 3, MP_in 3])"
    using enter [of 1 "[MP_in 3, MP_cas 2]" 3 "MP_in 3" 3] by (simp add: atomic_cas_uint_def)
  show ?thesis
    by (rule psys_reach.step [OF psys_reach.step [OF psys_reach.step [OF psys_reach.step
      [OF psys_reach.start s1] s2] s3] s4])
qed

text \<open>A single producer that enters and leaves once leaves an odd generation behind: as
  long as the word keeps that value, no consumer gets in.\<close>

theorem pc_sprod_blocks_consumers:
  assumes "pcl_gen l AND 1 = 0" and "\<forall>w \<in> set ws. w = pcl_gen (pc_sprod_leave (pc_sprod_enter l) l)"
  shows "cons_run ws PC_read1 = PC_read1"
proof (rule odd_blocks)
  have "even (pcl_gen l)" using assms(1) by (metis and_one_eq even_iff_mod_2_eq_zero)
  then have "odd (pcl_gen l + 1)" by simp
  then have "(pcl_gen l + 1) AND 1 \<noteq> 0" by (metis and_one_eq even_iff_mod_2_eq_zero)
  moreover have "w = pcl_gen l + 1" if "w \<in> set ws" for w
    using assms(2) that by (simp add: pc_sprod_leave_def pc_sprod_enter_def)
  ultimately show "\<forall>w \<in> set ws. w AND 1 \<noteq> 0" by blast
qed

theorem pc_sprod_blocks_consumers_witness: "cons_run [1, 1, 1] PC_read1 = PC_read1"
  by (rule pc_sprod_blocks_consumers [of "\<lparr>pcl_gen = 0\<rparr>"]) (simp_all add: pc_sprod_leave_def pc_sprod_enter_def)

end
