(* ===== verification/Cstring.thy ===== *)
theory Cstring
  imports Prelude
begin

text \<open>
  The string functions, \<open>lib/libc/string.c\<close>, on a memory of bytes: an address is an index,
  an access beyond the memory has no result.  A \<open>char\<close> is its unsigned byte; the code
  compares for equality only, or after a cast to \<open>unsigned char\<close>.  Pointer results are
  addresses, \<open>None\<close> inside the fallible result is \<open>NULL\<close>.
\<close>

type_synonym mem = "u8 list"

lemma rd_less: "rd mem p = Some c \<Longrightarrow> p < length mem"
  by (simp add: rd_Some)

section \<open>Lengths and comparisons\<close>

function strlen_from :: "mem \<Rightarrow> nat \<Rightarrow> nat option" where
  "strlen_from mem s =
     do { c \<leftarrow> rd mem s; if c \<noteq> 0 then strlen_from mem (s + 1) else Some s }"
  by pat_completeness auto
termination by (relation "measure (\<lambda>(mem, s). length mem - s)") (auto dest!: rd_less)

definition strlen :: "mem \<Rightarrow> nat \<Rightarrow> nat option" where
  "strlen mem str = map_option (\<lambda>s. s - str) (strlen_from mem str)"

function strcmp :: "mem \<Rightarrow> nat \<Rightarrow> nat \<Rightarrow> int option" where
  "strcmp mem s1 s2 =
     do { a \<leftarrow> rd mem s1;
          if a \<noteq> 0 then
            do { b \<leftarrow> rd mem s2;
                 if a = b then strcmp mem (s1 + 1) (s2 + 1) else Some (uint a - uint b) }
          else do { b \<leftarrow> rd mem s2; Some (uint a - uint b) } }"
  by pat_completeness auto
termination by (relation "measure (\<lambda>(mem, s, _). length mem - s)") (auto dest!: rd_less)

text \<open>The loop of \<open>strncmp\<close> decrements the count before it looks at the bytes.\<close>

fun strncmp_loop :: "mem \<Rightarrow> nat \<Rightarrow> nat \<Rightarrow> nat \<Rightarrow> int option" where
  "strncmp_loop mem s1 s2 0 = do { a \<leftarrow> rd mem s1; b \<leftarrow> rd mem s2; Some (uint a - uint b) }"
| "strncmp_loop mem s1 s2 (Suc n) =
     do { a \<leftarrow> rd mem s1;
          b \<leftarrow> rd mem s2;
          if a \<noteq> 0 \<and> a = b then strncmp_loop mem (s1 + 1) (s2 + 1) n
          else Some (uint a - uint b) }"

definition strncmp :: "mem \<Rightarrow> nat \<Rightarrow> nat \<Rightarrow> nat \<Rightarrow> int option" where
  "strncmp mem s1 s2 n = (if n = 0 then Some 0 else strncmp_loop mem s1 s2 (n - 1))"

fun memcmp :: "mem \<Rightarrow> nat \<Rightarrow> nat \<Rightarrow> nat \<Rightarrow> int option" where
  "memcmp mem s1 s2 0 = Some 0"
| "memcmp mem s1 s2 (Suc n) =
     do { a \<leftarrow> rd mem s1; b \<leftarrow> rd mem s2;
          if a \<noteq> b then Some (uint a - uint b) else memcmp mem (s1 + 1) (s2 + 1) n }"

section \<open>Copies\<close>

text \<open>
  \<open>strcpy\<close>: the source is read from the memory being written.  The fuel is the number of
  bytes that fit between the destination and the end of the memory; when it is used up, the
  next write is out of bounds.
\<close>

fun strcpy_loop :: "nat \<Rightarrow> nat \<Rightarrow> nat \<Rightarrow> mem \<Rightarrow> mem option" where
  "strcpy_loop 0 dest src mem = None"
| "strcpy_loop (Suc fuel) dest src mem =
     do { c \<leftarrow> rd mem src;
          mem \<leftarrow> wr mem dest c;
          if c \<noteq> 0 then strcpy_loop fuel (dest + 1) (src + 1) mem else Some mem }"

definition strcpy :: "nat \<Rightarrow> nat \<Rightarrow> mem \<Rightarrow> mem option" where
  "strcpy dest src mem = strcpy_loop (length mem - dest) dest src mem"

text \<open>The result of the first loop of \<open>strncpy\<close>: the count left, the destination reached.\<close>

fun strncpy_loop :: "nat \<Rightarrow> nat \<Rightarrow> nat \<Rightarrow> mem \<Rightarrow> (nat \<times> nat \<times> mem) option" where
  "strncpy_loop dest src 0 mem = Some (0, dest, mem)"
| "strncpy_loop dest src (Suc n) mem =
     do { c \<leftarrow> rd mem src;
          mem \<leftarrow> wr mem dest c;
          if c \<noteq> 0 then strncpy_loop (dest + 1) (src + 1) n mem
          else Some (Suc n, dest + 1, mem) }"

fun memset :: "nat \<Rightarrow> u8 \<Rightarrow> nat \<Rightarrow> mem \<Rightarrow> mem option" where
  "memset p c 0 mem = Some mem"
| "memset p c (Suc n) mem = do { mem \<leftarrow> wr mem p c; memset (p + 1) c n mem }"

definition strncpy :: "nat \<Rightarrow> nat \<Rightarrow> nat \<Rightarrow> mem \<Rightarrow> mem option" where
  "strncpy dest src n mem =
     do { (n, dest, mem) \<leftarrow> strncpy_loop dest src n mem; memset dest 0 n mem }"

definition strcat :: "nat \<Rightarrow> nat \<Rightarrow> mem \<Rightarrow> mem option" where
  "strcat dest src mem = do { e \<leftarrow> strlen_from mem dest; strcpy e src mem }"

text \<open>The loop of \<open>strncat\<close>: its result is the destination reached.\<close>

fun strncat_loop :: "nat \<Rightarrow> nat \<Rightarrow> nat \<Rightarrow> mem \<Rightarrow> (nat \<times> mem) option" where
  "strncat_loop dest src 0 mem = Some (dest, mem)"
| "strncat_loop dest src (Suc n) mem =
     do { c \<leftarrow> rd mem src;
          mem \<leftarrow> wr mem dest c;
          if c \<noteq> 0 then strncat_loop (dest + 1) (src + 1) n mem else Some (dest + 1, mem) }"

definition strncat :: "nat \<Rightarrow> nat \<Rightarrow> nat \<Rightarrow> mem \<Rightarrow> mem option" where
  "strncat dest src n mem =
     do { e \<leftarrow> strlen_from mem dest; (d, mem) \<leftarrow> strncat_loop e src n mem; wr mem d 0 }"

fun memcpy :: "nat \<Rightarrow> nat \<Rightarrow> nat \<Rightarrow> mem \<Rightarrow> mem option" where
  "memcpy d s 0 mem = Some mem"
| "memcpy d s (Suc n) mem =
     do { c \<leftarrow> rd mem s; mem \<leftarrow> wr mem d c; memcpy (d + 1) (s + 1) n mem }"

text \<open>The downward loop of \<open>memmove\<close>, with the pointers already past the end.\<close>

fun memmove_down :: "nat \<Rightarrow> nat \<Rightarrow> nat \<Rightarrow> mem \<Rightarrow> mem option" where
  "memmove_down d s 0 mem = Some mem"
| "memmove_down d s (Suc n) mem =
     do { c \<leftarrow> rd mem (s - 1); mem \<leftarrow> wr mem (d - 1) c; memmove_down (d - 1) (s - 1) n mem }"

definition memmove :: "nat \<Rightarrow> nat \<Rightarrow> nat \<Rightarrow> mem \<Rightarrow> mem option" where
  "memmove dest src n mem =
     (if dest < src then memcpy dest src n mem else memmove_down (dest + n) (src + n) n mem)"

section \<open>Searches\<close>

function strchr :: "mem \<Rightarrow> nat \<Rightarrow> u8 \<Rightarrow> nat option option" where
  "strchr mem s c =
     do { x \<leftarrow> rd mem s;
          if x \<noteq> c then (if x = 0 then Some None else strchr mem (s + 1) c) else Some (Some s) }"
  by pat_completeness auto
termination by (relation "measure (\<lambda>(mem, s, _). length mem - s)") (auto dest!: rd_less)

function strrchr_loop :: "mem \<Rightarrow> nat \<Rightarrow> u8 \<Rightarrow> nat option \<Rightarrow> nat option option" where
  "strrchr_loop mem s c lst =
     do { x \<leftarrow> rd mem s;
          let lst = (if x = c then Some s else lst)
          in if x \<noteq> 0 then strrchr_loop mem (s + 1) c lst else Some lst }"
  by pat_completeness auto
termination by (relation "measure (\<lambda>(mem, s, _). length mem - s)") (auto dest!: rd_less)

definition strrchr :: "mem \<Rightarrow> nat \<Rightarrow> u8 \<Rightarrow> nat option option" where
  "strrchr mem s c = strrchr_loop mem s c None"

function strstr_loop :: "mem \<Rightarrow> nat \<Rightarrow> nat \<Rightarrow> nat \<Rightarrow> nat option option" where
  "strstr_loop mem haystack needle len =
     do { x \<leftarrow> rd mem haystack;
          if x \<noteq> 0 then
            do { y \<leftarrow> rd mem needle;
                 hit \<leftarrow> (if x = y then map_option (\<lambda>r. r = 0) (strncmp mem haystack needle len)
                         else Some False);
                 if hit then Some (Some haystack) else strstr_loop mem (haystack + 1) needle len }
          else Some None }"
  by pat_completeness auto
termination by (relation "measure (\<lambda>(mem, s, _). length mem - s)") (auto dest!: rd_less)

definition strstr :: "mem \<Rightarrow> nat \<Rightarrow> nat \<Rightarrow> nat option option" where
  "strstr mem haystack needle =
     do { len \<leftarrow> strlen mem needle;
          if len = 0 then Some (Some haystack) else strstr_loop mem haystack needle len }"

function strcspn_loop :: "mem \<Rightarrow> nat \<Rightarrow> nat \<Rightarrow> nat \<Rightarrow> nat option" where
  "strcspn_loop mem s reject count =
     do { x \<leftarrow> rd mem s;
          if x \<noteq> 0 then
            do { r \<leftarrow> strchr mem reject x;
                 if r \<noteq> None then Some count else strcspn_loop mem (s + 1) reject (count + 1) }
          else Some count }"
  by pat_completeness auto
termination by (relation "measure (\<lambda>(mem, s, _). length mem - s)") (auto dest!: rd_less)

definition strcspn :: "mem \<Rightarrow> nat \<Rightarrow> nat \<Rightarrow> nat option" where
  "strcspn mem s reject = strcspn_loop mem s reject 0"

function strspn_loop :: "mem \<Rightarrow> nat \<Rightarrow> nat \<Rightarrow> nat \<Rightarrow> nat option" where
  "strspn_loop mem s accept count =
     do { x \<leftarrow> rd mem s;
          if x \<noteq> 0 then
            do { r \<leftarrow> strchr mem accept x;
                 if r \<noteq> None then strspn_loop mem (s + 1) accept (count + 1) else Some count }
          else Some count }"
  by pat_completeness auto
termination by (relation "measure (\<lambda>(mem, s, _). length mem - s)") (auto dest!: rd_less)

definition strspn :: "mem \<Rightarrow> nat \<Rightarrow> nat \<Rightarrow> nat option" where
  "strspn mem s accept = strspn_loop mem s accept 0"

section \<open>Tokens\<close>

text \<open>
  \<open>strtok\<close>: \<open>last_token\<close> is the function's static pointer.  The first loop skips delimiters
  and is \<open>strspn\<close> at the start, the second looks for the next one and is \<open>strcspn\<close>.
\<close>

definition strtok ::
    "nat option \<Rightarrow> nat \<Rightarrow> nat option \<times> mem \<Rightarrow> ((nat option \<times> mem) \<times> nat option) option" where
  "strtok str delim st =
     (case st of (last_token, mem) \<Rightarrow>
        let last_token = (if str \<noteq> None then str else last_token) in
        case last_token of
          None \<Rightarrow> Some ((None, mem), None)
        | Some p \<Rightarrow>
            do { c \<leftarrow> rd mem p;
                 if c = 0 then Some ((Some p, mem), None)
                 else
                   do { k \<leftarrow> strspn mem p delim;
                        let start = p + k in
                        do { c \<leftarrow> rd mem start;
                             if c = 0 then Some ((None, mem), None)
                             else
                               do { k \<leftarrow> strcspn mem start delim;
                                    let e = start + k in
                                    do { c \<leftarrow> rd mem e;
                                         if c = 0 then Some ((None, mem), Some start)
                                         else do { mem \<leftarrow> wr mem e 0;
                                                   Some ((Some (e + 1), mem), Some start) } } } } } })"

declare strlen_from.simps [simp del] strcmp.simps [simp del] strchr.simps [simp del]
  strrchr_loop.simps [simp del] strstr_loop.simps [simp del] strcspn_loop.simps [simp del]
  strspn_loop.simps [simp del]

section \<open>Strings in memory\<close>

text \<open>The bytes \<open>s\<close>, none of them zero, lie at \<open>p\<close> and are followed by a zero.\<close>

definition cstr :: "mem \<Rightarrow> nat \<Rightarrow> u8 list \<Rightarrow> bool" where
  "cstr mem p s \<longleftrightarrow> p + length s < length mem \<and> (\<forall>i < length s. mem ! (p + i) = s ! i) \<and>
     mem ! (p + length s) = 0 \<and> 0 \<notin> set s"

lemma cstr_Nil: "cstr mem p [] \<longleftrightarrow> rd mem p = Some 0"
  by (auto simp: cstr_def rd_def)

lemma cstr_Cons: "cstr mem p (c # s) \<longleftrightarrow> c \<noteq> 0 \<and> rd mem p = Some c \<and> cstr mem (p + 1) s"
  by (auto simp: cstr_def rd_def less_Suc_eq_0_disj All_less_Suc2)

lemmas cstr_simps = cstr_Nil cstr_Cons

lemma cstr_end: "cstr mem p s \<Longrightarrow> rd mem (p + length s) = Some 0"
  by (simp add: cstr_def rd_def)

lemma strlen_from_cstr: "cstr mem p s \<Longrightarrow> strlen_from mem p = Some (p + length s)"
proof (induction s arbitrary: p)
  case Nil
  then show ?case by (subst strlen_from.simps) (simp add: cstr_simps)
next
  case (Cons c s)
  then show ?case by (subst strlen_from.simps) (simp add: cstr_simps)
qed

lemma strlen_cstr: "cstr mem p s \<Longrightarrow> strlen mem p = Some (length s)"
  by (simp add: strlen_def strlen_from_cstr)

text \<open>The order of byte strings that \<open>strcmp\<close> computes, by its sign.\<close>

fun bytes_cmp :: "u8 list \<Rightarrow> u8 list \<Rightarrow> int" where
  "bytes_cmp [] [] = 0"
| "bytes_cmp [] (b # t) = - uint b"
| "bytes_cmp (a # s) [] = uint a"
| "bytes_cmp (a # s) (b # t) = (if a = b then bytes_cmp s t else uint a - uint b)"

lemma strcmp_cstr: "cstr mem p s \<Longrightarrow> cstr mem q t \<Longrightarrow> strcmp mem p q = Some (bytes_cmp s t)"
proof (induction s t arbitrary: p q rule: bytes_cmp.induct)
  case (4 a s b t)
  then show ?case by (subst strcmp.simps) (simp add: cstr_simps)
qed (subst strcmp.simps, auto simp: cstr_simps)+

lemma bytes_cmp_eq: "0 \<notin> set s \<Longrightarrow> 0 \<notin> set t \<Longrightarrow> bytes_cmp s t = 0 \<longleftrightarrow> t = s"
proof (induction s t rule: bytes_cmp.induct)
  case (4 a s b t)
  then show ?case by (auto simp: word_uint_eq_iff)
qed (auto simp: unsigned_eq_0_iff)

lemma strcmp_eq:
  assumes "cstr mem p s" "cstr mem q t"
  shows "\<exists>r. strcmp mem p q = Some r \<and> (r = 0 \<longleftrightarrow> s = t)"
  using strcmp_cstr [OF assms] bytes_cmp_eq [of s t] assms by (auto simp: cstr_def)

lemma strncmp_loop_cstr:
  assumes "cstr mem p s" and "cstr mem q t"
  shows "strncmp_loop mem p q n = Some (bytes_cmp (take (Suc n) s) (take (Suc n) t))"
  using assms
proof (induction n arbitrary: p q s t)
  case 0
  then show ?case by (cases s; cases t) (auto simp: cstr_simps)
next
  case (Suc n)
  then show ?case by (cases s; cases t) (auto simp: cstr_simps)
qed

lemma strncmp_cstr:
  "cstr mem p s \<Longrightarrow> cstr mem q t \<Longrightarrow> strncmp mem p q n = Some (bytes_cmp (take n s) (take n t))"
  by (cases n) (simp_all add: strncmp_def strncmp_loop_cstr)

section \<open>What the copies write\<close>

text \<open>\<open>mem'\<close> is \<open>mem\<close> with the bytes \<open>bs\<close> at \<open>d\<close>.\<close>

definition blit :: "nat \<Rightarrow> u8 list \<Rightarrow> mem \<Rightarrow> mem" where
  "blit d bs mem = take d mem @ bs @ drop (d + length bs) mem"

lemma length_blit [simp]: "d + length bs \<le> length mem \<Longrightarrow> length (blit d bs mem) = length mem"
  by (simp add: blit_def)

lemma nth_blit:
  "d + length bs \<le> length mem \<Longrightarrow> i < length mem \<Longrightarrow>
   blit d bs mem ! i = (if d \<le> i \<and> i < d + length bs then bs ! (i - d) else mem ! i)"
  by (auto simp: blit_def nth_append)

lemma blit_Nil [simp]: "blit d [] mem = mem"
  by (simp add: blit_def)

lemma blit_eqI:
  assumes "length mem' = length mem" and "d + length bs \<le> length mem"
    and "\<And>i. i < length bs \<Longrightarrow> mem' ! (d + i) = bs ! i"
    and "\<And>i. i < length mem \<Longrightarrow> i < d \<or> d + length bs \<le> i \<Longrightarrow> mem' ! i = mem ! i"
  shows "mem' = blit d bs mem"
proof (rule nth_equalityI)
  show "length mem' = length (blit d bs mem)" using assms(1,2) by simp
  fix i
  assume "i < length mem'"
  then have i: "i < length mem" using assms(1) by simp
  show "mem' ! i = blit d bs mem ! i"
  proof (cases "d \<le> i \<and> i < d + length bs")
    case True
    then have "i - d < length bs" by linarith
    with assms(3) [of "i - d"] True i assms(2) show ?thesis by (simp add: nth_blit)
  next
    case False
    with assms(4) [OF i] i assms(2) show ?thesis by (auto simp: nth_blit)
  qed
qed

lemma blit_update: "d + length bs < length mem \<Longrightarrow> (blit d bs mem)[d + length bs := c] = blit d (bs @ [c]) mem"
  by (rule blit_eqI) (auto simp: nth_blit nth_list_update nth_append)

lemma memset_blit:
  "p + n \<le> length mem \<Longrightarrow> memset p c n mem = Some (blit p (replicate n c) mem)"
proof (induction n arbitrary: p mem)
  case 0
  then show ?case by simp
next
  case (Suc n)
  then have "memset p c (Suc n) mem = Some (blit (p + 1) (replicate n c) (mem[p := c]))"
    by (simp add: wr_in)
  moreover have "blit (p + 1) (replicate n c) (mem[p := c]) = blit p (replicate (Suc n) c) mem"
    using Suc.prems by (intro blit_eqI) (auto simp: nth_blit nth_list_update nth_Cons split: nat.splits)
  ultimately show ?case by simp
qed

text \<open>The \<open>n\<close> bytes at \<open>s\<close>.\<close>

definition slice :: "mem \<Rightarrow> nat \<Rightarrow> nat \<Rightarrow> u8 list" where
  "slice mem s n = take n (drop s mem)"

lemma length_slice [simp]: "s + n \<le> length mem \<Longrightarrow> length (slice mem s n) = n"
  by (simp add: slice_def)

lemma nth_slice: "s + n \<le> length mem \<Longrightarrow> i < n \<Longrightarrow> slice mem s n ! i = mem ! (s + i)"
  by (simp add: slice_def)

lemma slice_update:
  assumes "s + n \<le> length mem" and "d < s \<or> s + n \<le> d"
  shows "slice (mem[d := c]) s n = slice mem s n"
  using assms by (intro nth_equalityI) (auto simp: nth_slice nth_list_update)

lemma blit_Cons:
  "d + length bs < length mem \<Longrightarrow> blit (Suc d) bs (mem[d := c]) = blit d (c # bs) mem"
  by (intro blit_eqI) (auto simp: nth_blit nth_list_update nth_Cons split: nat.splits)

lemma slice_Suc: "s + n < length mem \<Longrightarrow> slice mem s (Suc n) = mem ! s # slice mem (Suc s) n"
  by (simp add: slice_def flip: Cons_nth_drop_Suc)

lemma memcpy_blit:
  assumes "d + n \<le> length mem" and "s + n \<le> length mem" and "d \<le> s \<or> s + n \<le> d"
  shows "memcpy d s n mem = Some (blit d (slice mem s n) mem)"
  using assms
proof (induction n arbitrary: d s mem)
  case 0
  then show ?case by (simp add: slice_def)
next
  case (Suc n)
  let ?mem = "mem[d := mem ! s]"
  have "memcpy d s (Suc n) mem = memcpy (d + 1) (s + 1) n ?mem"
    using Suc.prems by (simp add: rd_in wr_in)
  also have "\<dots> = Some (blit (d + 1) (slice ?mem (s + 1) n) ?mem)"
    using Suc.prems by (intro Suc.IH) auto
  also have "slice ?mem (s + 1) n = slice mem (s + 1) n"
    using Suc.prems by (intro slice_update) auto
  also have "blit (d + 1) (slice mem (s + 1) n) ?mem = blit d (slice mem s (Suc n)) mem"
    using Suc.prems by (simp add: slice_Suc blit_Cons)
  finally show ?case .
qed

lemma memmove_down_blit:
  assumes "d + n \<le> length mem" and "s + n \<le> length mem" and "s \<le> d"
  shows "memmove_down (d + n) (s + n) n mem = Some (blit d (slice mem s n) mem)"
  using assms
proof (induction n arbitrary: mem)
  case 0
  then show ?case by (simp add: slice_def)
next
  case (Suc n)
  let ?mem = "mem[d + n := mem ! (s + n)]"
  have "memmove_down (d + Suc n) (s + Suc n) (Suc n) mem = memmove_down (d + n) (s + n) n ?mem"
    using Suc.prems by (simp add: rd_in wr_in)
  also have "\<dots> = Some (blit d (slice ?mem s n) ?mem)"
    using Suc.prems by (intro Suc.IH) auto
  also have "slice ?mem s n = slice mem s n"
    using Suc.prems by (intro slice_update) auto
  also have "blit d (slice mem s n) ?mem = blit d (slice mem s (Suc n)) mem"
    using Suc.prems
    by (intro blit_eqI) (auto simp: nth_blit nth_slice nth_list_update less_Suc_eq)
  finally show ?case .
qed

lemma cstr_update:
  assumes "cstr mem p s" and "d < p \<or> p + length s < d"
  shows "cstr (mem[d := c]) p s"
  using assms by (auto simp: cstr_def nth_list_update)

lemma cstr_blit:
  assumes "cstr mem p s" and "d + length bs \<le> length mem" and "d + length bs \<le> p \<or> p + length s < d"
  shows "cstr (blit d bs mem) p s"
  using assms by (auto simp: cstr_def nth_blit)

lemma strncpy_loop_cstr:
  assumes "cstr mem src s" and "dest + n \<le> length mem"
    and "dest + n \<le> src \<or> src + length s < dest"
  shows "strncpy_loop dest src n mem =
    (if length s < n then Some (n - length s, dest + length s + 1, blit dest (s @ [0]) mem)
     else Some (0, dest + n, blit dest (take n s) mem))"
  using assms
proof (induction n arbitrary: dest src s mem)
  case 0
  then show ?case by simp
next
  case (Suc n)
  show ?case
  proof (cases s)
    case Nil
    with Suc.prems blit_Cons [of dest "[]" mem 0] show ?thesis
      by (simp add: cstr_simps wr_in)
  next
    case (Cons c t)
    let ?mem = "mem[dest := c]"
    have c: "c \<noteq> 0" "rd mem src = Some c" "cstr mem (src + 1) t"
      using Suc.prems(1) Cons by (simp_all add: cstr_simps)
    have "strncpy_loop dest src (Suc n) mem = strncpy_loop (dest + 1) (src + 1) n ?mem"
      using c Suc.prems by (simp add: wr_in)
    also have "\<dots> = (if length t < n then Some (n - length t, dest + 1 + length t + 1, blit (dest + 1) (t @ [0]) ?mem)
        else Some (0, dest + 1 + n, blit (dest + 1) (take n t) ?mem))"
      using c Suc.prems Cons by (intro Suc.IH cstr_update) auto
    finally show ?thesis
      using Suc.prems Cons by (simp add: blit_Cons)
  qed
qed

section \<open>Searching\<close>

lemma strchr_cstr:
  assumes "cstr mem p s" and "c \<noteq> 0"
  shows "strchr mem p c = Some (if c \<in> set s then Some (p + length (takeWhile (\<lambda>x. x \<noteq> c) s)) else None)"
  using assms(1)
proof (induction s arbitrary: p)
  case Nil
  with assms(2) show ?case by (subst strchr.simps) (simp add: cstr_simps)
next
  case (Cons a s)
  then show ?case by (subst strchr.simps) (auto simp: cstr_simps)
qed

lemma strcspn_loop_cstr:
  assumes "cstr mem p s" and "cstr mem r ds"
  shows "strcspn_loop mem p r n = Some (n + length (takeWhile (\<lambda>x. x \<notin> set ds) s))"
  using assms(1)
proof (induction s arbitrary: p n)
  case Nil
  then show ?case by (subst strcspn_loop.simps) (simp add: cstr_simps)
next
  case (Cons a s)
  then show ?case using assms(2) by (subst strcspn_loop.simps) (auto simp: cstr_simps strchr_cstr)
qed

lemma strspn_loop_cstr:
  assumes "cstr mem p s" and "cstr mem r ds"
  shows "strspn_loop mem p r n = Some (n + length (takeWhile (\<lambda>x. x \<in> set ds) s))"
  using assms(1)
proof (induction s arbitrary: p n)
  case Nil
  then show ?case by (subst strspn_loop.simps) (simp add: cstr_simps)
next
  case (Cons a s)
  then show ?case using assms(2) by (subst strspn_loop.simps) (auto simp: cstr_simps strchr_cstr)
qed

text \<open>A string falls into a prefix and the rest, each at its place.\<close>

lemma cstr_append: "cstr mem p (s @ t) \<Longrightarrow> cstr mem (p + length s) t"
proof (induction s arbitrary: p)
  case Nil
  then show ?case by simp
next
  case (Cons a s)
  then show ?case using Cons.IH [of "Suc p"] by (simp add: cstr_simps)
qed

lemma cstr_cut:
  assumes "cstr mem p (s @ t)"
  shows "cstr (mem[p + length s := 0]) p s"
  using assms by (auto simp: cstr_def nth_list_update nth_append)

lemma strtok_step:
  assumes "cstr mem p s" and "s \<noteq> []" and "cstr mem r ds"
    and "r + length ds < p \<or> p + length s < r"
    and t_def: "t = dropWhile (\<lambda>x. x \<in> set ds) s"
    and start_def: "start = p + length (takeWhile (\<lambda>x. x \<in> set ds) s)"
    and tok_def: "tok = takeWhile (\<lambda>x. x \<notin> set ds) t"
    and rest_def: "rest = dropWhile (\<lambda>x. x \<notin> set ds) t"
  shows "if t = [] then strtok (Some p) r (lt, mem) = Some ((None, mem), None)
    else \<exists>lt' mem'. strtok (Some p) r (lt, mem) = Some ((lt', mem'), Some start) \<and>
      cstr mem' start tok \<and> cstr mem' r ds \<and>
      (if rest = [] then lt' = None
       else lt' = Some (start + length tok + 1) \<and> cstr mem' (start + length tok + 1) (tl rest))"
proof -
  have s: "s = takeWhile (\<lambda>x. x \<in> set ds) s @ t" and tt: "t = tok @ rest"
    by (simp_all add: t_def tok_def rest_def)
  from assms(1) s have t: "cstr mem start t" unfolding start_def by (metis cstr_append)
  have len: "length (takeWhile (\<lambda>x. x \<in> set ds) s) + length t = length s"
    using arg_cong [OF s, of length] by simp
  have p: "\<exists>c. rd mem p = Some c \<and> c \<noteq> 0"
    using assms(1,2) by (cases s) (auto simp: cstr_simps)
  have k1: "strspn mem p r = Some (length (takeWhile (\<lambda>x. x \<in> set ds) s))"
    using strspn_loop_cstr [OF assms(1,3)] by (simp add: strspn_def)
  show ?thesis
  proof (cases t)
    case Nil
    with t p k1 show ?thesis by (auto simp: strtok_def Let_def start_def cstr_simps)
  next
    case (Cons c u)
    then have c: "rd mem start = Some c" "c \<noteq> 0" using t by (auto simp: cstr_simps)
    have k2: "strcspn mem start r = Some (length tok)"
      using strcspn_loop_cstr [OF t assms(3)] by (simp add: strcspn_def tok_def)
    from t tt have re: "cstr mem (start + length tok) rest" by (metis cstr_append)
    show ?thesis
    proof (cases rest)
      case Nil
      with re have "rd mem (start + length tok) = Some 0" by (simp add: cstr_simps)
      then have "strtok (Some p) r (lt, mem) = Some ((None, mem), Some start)"
        using p k1 k2 c by (auto simp: strtok_def Let_def start_def)
      with t tt Nil Cons assms(3) show ?thesis by auto
    next
      case (Cons d rest')
      with re have d: "rd mem (start + length tok) = Some d" "d \<noteq> 0" "cstr mem (start + length tok + 1) rest'"
        by (simp_all add: cstr_simps)
      let ?mem = "mem[start + length tok := 0]"
      have "strtok (Some p) r (lt, mem) = Some ((Some (start + length tok + 1), ?mem), Some start)"
        using p k1 k2 c d rd_less [OF d(1)] by (auto simp: strtok_def Let_def start_def wr_def)
      moreover have "cstr ?mem start tok" using t tt by (metis cstr_cut)
      moreover have "cstr ?mem (start + length tok + 1) rest'" using d(3) by (intro cstr_update) auto
      moreover have "length t = length tok + length rest" by (metis tt length_append)
      then have "start + length tok \<le> p + length s" "p \<le> start + length tok"
        using len by (simp_all add: start_def)
      then have "cstr ?mem r ds" using assms(3,4) by (intro cstr_update) auto
      ultimately show ?thesis using \<open>t = c # u\<close> Cons by auto
    qed
  qed
qed

section \<open>Properties\<close>

text \<open>\<open>memmove\<close> is right for every overlap: inside the memory it returns, and the
  destination holds the bytes that the source held before, every other byte being kept.\<close>

theorem memmove_overlap:
  assumes "dest + n \<le> length mem" and "src + n \<le> length mem"
  shows "memmove dest src n mem = Some (blit dest (slice mem src n) mem)"
  using memcpy_blit [OF assms] memmove_down_blit [OF assms] by (simp add: memmove_def)

theorem memmove_overlap_witness: "memmove 1 0 3 [10, 20, 30, 40, 50] = Some [10, 10, 20, 30, 50]"
  using memmove_overlap [of 1 3 "[10, 20, 30, 40, 50]" 0] by (simp add: blit_def slice_def)

text \<open>\<open>strncpy\<close> of a string shorter than \<open>n\<close> writes \<open>n + 1\<close> bytes, the string and zeros
  up to and including the byte after the \<open>n\<close> it may use; of a longer string it writes the
  first \<open>n\<close> bytes and no terminating zero.\<close>

theorem strncpy_writes:
  assumes "cstr mem src s" and "dest + n < length mem"
    and "dest + n < src \<or> src + length s < dest"
  shows "strncpy dest src n mem =
    Some (if length s < n then blit dest (s @ replicate (n + 1 - length s) 0) mem
          else blit dest (take n s) mem)"
proof (cases "length s < n")
  case False
  with strncpy_loop_cstr [OF assms(1), of dest n] assms(2,3) show ?thesis
    by (auto simp: strncpy_def)
next
  case True
  have loop: "strncpy_loop dest src n mem = Some (n - length s, dest + length s + 1, blit dest (s @ [0]) mem)"
    using strncpy_loop_cstr [OF assms(1), of dest n] assms(2,3) True by auto
  let ?m = "blit dest (s @ [0]) mem"
  have "memset (dest + length s + 1) 0 (n - length s) ?m =
      Some (blit (dest + length s + 1) (replicate (n - length s) 0) ?m)"
    using True assms(2) by (intro memset_blit) simp
  moreover have "blit (dest + length s + 1) (replicate (n - length s) 0) ?m =
      blit dest (s @ replicate (n + 1 - length s) 0) mem"
    using True assms(2)
    by (intro blit_eqI) (auto simp: nth_blit nth_append less_Suc_eq)
  ultimately show ?thesis
    using True loop by (simp add: strncpy_def)
qed

theorem strncpy_writes_witness:
  "strncpy 4 0 2 [104, 0, 7, 7, 7, 7, 7, 9] = Some [104, 0, 7, 7, 104, 0, 0, 9]"
proof -
  have "cstr [104, 0, 7, 7, 7, 7, 7, 9] 0 [104]" by (simp add: cstr_simps rd_def)
  moreover have "replicate (2 + 1 - length [104 :: u8]) (0 :: u8) = [0, 0]" by (simp add: numeral_2_eq_2)
  ultimately show ?thesis
    using strncpy_writes [of "[104, 0, 7, 7, 7, 7, 7, 9]" 0 "[104]" 4 2] by (simp add: blit_def)
qed

text \<open>One call of \<open>strtok\<close> on a string that does not overlap the delimiters skips leading
  delimiters and cuts off the next token: the returned address holds the longest
  delimiter-free piece as a string of its own, and the next call goes on right after the
  delimiter that ended it; when only delimiters are left the result is \<open>NULL\<close>.\<close>

theorem strtok_next:
  assumes "cstr mem p s" and "s \<noteq> []" and "cstr mem r ds"
    and "r + length ds < p \<or> p + length s < r"
  defines "t \<equiv> dropWhile (\<lambda>x. x \<in> set ds) s"
  defines "start \<equiv> p + length (takeWhile (\<lambda>x. x \<in> set ds) s)"
  defines "tok \<equiv> takeWhile (\<lambda>x. x \<notin> set ds) t"
  defines "rest \<equiv> dropWhile (\<lambda>x. x \<notin> set ds) t"
  shows "if t = [] then strtok (Some p) r (lt, mem) = Some ((None, mem), None)
    else \<exists>lt' mem'. strtok (Some p) r (lt, mem) = Some ((lt', mem'), Some start) \<and>
      cstr mem' start tok \<and> cstr mem' r ds \<and>
      (if rest = [] then lt' = None
       else lt' = Some (start + length tok + 1) \<and> cstr mem' (start + length tok + 1) (tl rest))"
  by (rule strtok_step [OF assms(1-4) t_def [THEN meta_eq_to_obj_eq] start_def [THEN meta_eq_to_obj_eq]
        tok_def [THEN meta_eq_to_obj_eq] rest_def [THEN meta_eq_to_obj_eq]])

text \<open>The string \<open>a b\<close> at 2, the delimiter string of one space at 0.\<close>

theorem strtok_next_witness:
  "\<exists>mem'. strtok (Some 2) 0 (None, [32, 0, 97, 32, 98, 0]) = Some ((Some 4, mem'), Some 2) \<and> cstr mem' 2 [97]"
proof -
  have "cstr [32, 0, 97, 32, 98, 0] 2 [97, 32, 98]" "cstr [32, 0, 97, 32, 98, 0] 0 [32]"
    by (simp_all add: cstr_simps rd_def)
  from strtok_next [OF this(1) _ this(2), of None] show ?thesis by auto
qed

end
