(* ===== verification/Ctype.thy ===== *)
theory Ctype
  imports Prelude
begin

text \<open>
  Character classes (\<open>lib/libc/ctype.c\<close>) and the visual encoding of characters that is
  built on them (\<open>kern/vis.c\<close>, \<open>usr/include/vis.h\<close>).  The argument of a class is a C \<open>int\<close>;
  the functions of \<open>vis.c\<close> work on bytes, and a string is the list of its bytes without the
  terminating zero.  What a function writes through \<open>dst\<close> is its result list.
\<close>

section \<open>The class table\<close>

definition ctype_table :: "u8 list" where
  "ctype_table =
    [0x20, 0x20, 0x20, 0x20, 0x20, 0x20, 0x20, 0x20,
     0x20, 0x28, 0x28, 0x28, 0x28, 0x28, 0x20, 0x20,
     0x20, 0x20, 0x20, 0x20, 0x20, 0x20, 0x20, 0x20,
     0x20, 0x20, 0x20, 0x20, 0x20, 0x20, 0x20, 0x20,
     0x48, 0x10, 0x10, 0x10, 0x10, 0x10, 0x10, 0x10,
     0x10, 0x10, 0x10, 0x10, 0x10, 0x10, 0x10, 0x10,
     0x84, 0x84, 0x84, 0x84, 0x84, 0x84, 0x84, 0x84,
     0x84, 0x84, 0x10, 0x10, 0x10, 0x10, 0x10, 0x10,
     0x10, 0x41, 0x41, 0x41, 0x41, 0x41, 0x41, 0x01,
     0x01, 0x01, 0x01, 0x01, 0x01, 0x01, 0x01, 0x01,
     0x01, 0x01, 0x01, 0x01, 0x01, 0x01, 0x01, 0x01,
     0x01, 0x01, 0x01, 0x10, 0x10, 0x10, 0x10, 0x10,
     0x10, 0x42, 0x42, 0x42, 0x42, 0x42, 0x42, 0x02,
     0x02, 0x02, 0x02, 0x02, 0x02, 0x02, 0x02, 0x02,
     0x02, 0x02, 0x02, 0x02, 0x02, 0x02, 0x02, 0x02,
     0x02, 0x02, 0x02, 0x10, 0x10, 0x10, 0x10, 0x20]"

abbreviation CT_UP :: u8 where "CT_UP \<equiv> 0x01"
abbreviation CT_LOW :: u8 where "CT_LOW \<equiv> 0x02"
abbreviation CT_DIG :: u8 where "CT_DIG \<equiv> 0x04"
abbreviation CT_PUN :: u8 where "CT_PUN \<equiv> 0x10"

definition in_table :: "int \<Rightarrow> u8 \<Rightarrow> bool" where
  "in_table c m \<longleftrightarrow> (0 \<le> c \<and> c < 128) \<and> ctype_table ! nat c AND m \<noteq> 0"

section \<open>Classes\<close>

definition isalnum :: "int \<Rightarrow> bool" where "isalnum c \<longleftrightarrow> in_table c (CT_UP OR CT_LOW OR CT_DIG)"
definition isalpha :: "int \<Rightarrow> bool" where "isalpha c \<longleftrightarrow> in_table c (CT_UP OR CT_LOW)"
definition isblank :: "int \<Rightarrow> bool" where "isblank c \<longleftrightarrow> c = 32 \<or> c = 9"
definition iscntrl :: "int \<Rightarrow> bool" where "iscntrl c \<longleftrightarrow> (0 \<le> c \<and> c < 32) \<or> c = 127"
definition isdigit :: "int \<Rightarrow> bool" where "isdigit c \<longleftrightarrow> 48 \<le> c \<and> c \<le> 57"
definition isgraph :: "int \<Rightarrow> bool" where "isgraph c \<longleftrightarrow> in_table c (CT_UP OR CT_LOW OR CT_DIG OR CT_PUN)"
definition islower :: "int \<Rightarrow> bool" where "islower c \<longleftrightarrow> 97 \<le> c \<and> c \<le> 122"
definition isprint :: "int \<Rightarrow> bool" where "isprint c \<longleftrightarrow> 32 \<le> c \<and> c < 127"
definition ispunct :: "int \<Rightarrow> bool" where "ispunct c \<longleftrightarrow> in_table c CT_PUN"
definition isspace :: "int \<Rightarrow> bool" where
  "isspace c \<longleftrightarrow> c = 32 \<or> c = 9 \<or> c = 10 \<or> c = 13 \<or> c = 12 \<or> c = 11"
definition isupper :: "int \<Rightarrow> bool" where "isupper c \<longleftrightarrow> 65 \<le> c \<and> c \<le> 90"
definition isxdigit :: "int \<Rightarrow> bool" where
  "isxdigit c \<longleftrightarrow> isdigit c \<or> (97 \<le> c \<and> c \<le> 102) \<or> (65 \<le> c \<and> c \<le> 70)"
definition tolower :: "int \<Rightarrow> int" where "tolower c = (if isupper c then c + (97 - 65) else c)"
definition toupper :: "int \<Rightarrow> int" where "toupper c = (if islower c then c - (97 - 65) else c)"
definition isascii :: "int \<Rightarrow> bool" where "isascii c \<longleftrightarrow> 0 \<le> c \<and> c \<le> 127"
definition toascii :: "int \<Rightarrow> int" where "toascii c = c AND 0x7F"

lemmas class_defs = isalnum_def isalpha_def isgraph_def ispunct_def isupper_def islower_def
  isdigit_def isprint_def iscntrl_def

text \<open>The table agrees with the comparisons, entry by entry.\<close>

lemma ctype_table_checked:
  "list_all (\<lambda>c. (in_table c (CT_UP OR CT_LOW) \<longleftrightarrow> isupper c \<or> islower c) \<and>
     (in_table c (CT_UP OR CT_LOW OR CT_DIG) \<longleftrightarrow> isupper c \<or> islower c \<or> isdigit c) \<and>
     (in_table c (CT_UP OR CT_LOW OR CT_DIG OR CT_PUN) \<longleftrightarrow> isprint c \<and> c \<noteq> 32) \<and>
     (in_table c CT_PUN \<longleftrightarrow> isprint c \<and> c \<noteq> 32 \<and> \<not> (isupper c \<or> islower c \<or> isdigit c))) [0..127]"
  by code_simp

lemma ctype_table_spec:
  "in_table c (CT_UP OR CT_LOW) \<longleftrightarrow> isupper c \<or> islower c"
  "in_table c (CT_UP OR CT_LOW OR CT_DIG) \<longleftrightarrow> isupper c \<or> islower c \<or> isdigit c"
  "in_table c (CT_UP OR CT_LOW OR CT_DIG OR CT_PUN) \<longleftrightarrow> isprint c \<and> c \<noteq> 32"
  "in_table c CT_PUN \<longleftrightarrow> isprint c \<and> c \<noteq> 32 \<and> \<not> (isupper c \<or> islower c \<or> isdigit c)"
proof -
  consider "c \<in> set [0..127]" | "c < 0 \<or> 127 < c" by force
  then have "(in_table c (CT_UP OR CT_LOW) \<longleftrightarrow> isupper c \<or> islower c) \<and>
     (in_table c (CT_UP OR CT_LOW OR CT_DIG) \<longleftrightarrow> isupper c \<or> islower c \<or> isdigit c) \<and>
     (in_table c (CT_UP OR CT_LOW OR CT_DIG OR CT_PUN) \<longleftrightarrow> isprint c \<and> c \<noteq> 32) \<and>
     (in_table c CT_PUN \<longleftrightarrow> isprint c \<and> c \<noteq> 32 \<and> \<not> (isupper c \<or> islower c \<or> isdigit c))"
  proof cases
    case 1
    then show ?thesis using ctype_table_checked unfolding list_all_iff by blast
  next
    case 2
    then show ?thesis by (auto simp: in_table_def isupper_def islower_def isdigit_def isprint_def)
  qed
  then show "in_table c (CT_UP OR CT_LOW) \<longleftrightarrow> isupper c \<or> islower c"
    "in_table c (CT_UP OR CT_LOW OR CT_DIG) \<longleftrightarrow> isupper c \<or> islower c \<or> isdigit c"
    "in_table c (CT_UP OR CT_LOW OR CT_DIG OR CT_PUN) \<longleftrightarrow> isprint c \<and> c \<noteq> 32"
    "in_table c CT_PUN \<longleftrightarrow> isprint c \<and> c \<noteq> 32 \<and> \<not> (isupper c \<or> islower c \<or> isdigit c)"
    by blast+
qed

section \<open>Visual encoding\<close>

abbreviation VIS_OCTAL :: u32 where "VIS_OCTAL \<equiv> 0x01"
abbreviation VIS_CSTYLE :: u32 where "VIS_CSTYLE \<equiv> 0x02"
abbreviation VIS_SP :: u32 where "VIS_SP \<equiv> 0x04"
abbreviation VIS_TAB :: u32 where "VIS_TAB \<equiv> 0x08"
abbreviation VIS_NL :: u32 where "VIS_NL \<equiv> 0x10"
abbreviation VIS_WHITE :: u32 where "VIS_WHITE \<equiv> VIS_SP OR VIS_TAB OR VIS_NL"
abbreviation VIS_NOSLASH :: u32 where "VIS_NOSLASH \<equiv> 0x40"
abbreviation VIS_DQ :: u32 where "VIS_DQ \<equiv> 0x200"
abbreviation VIS_ALL :: u32 where "VIS_ALL \<equiv> 0x400"

text \<open>The second characters of the strings of the table \<open>ctl\<close>: \<open>"^^", "^A", \<dots>, "^_"\<close>.\<close>

definition vis_ctl :: "u8 list" where
  "vis_ctl = [94, 65, 66, 67, 68, 69, 70, 71, 72, 73, 74, 75, 76, 77, 78, 79,
              80, 81, 82, 83, 84, 85, 86, 87, 88, 89, 90, 91, 92, 93, 94, 95]"

text \<open>The \<open>switch\<close> of \<open>vis\<close>: the escape it writes, \<open>None\<close> for \<open>break\<close>.\<close>

definition vis_slash :: "u8 \<Rightarrow> u32 \<Rightarrow> u8 list option" where
  "vis_slash c flag =
     (if c = 10 then (if flag AND VIS_NL = 0 then Some [92, 110] else None)
      else if c = 13 then Some [92, 114]
      else if c = 8 then Some [92, 98]
      else if c = 7 then Some [92, 97]
      else if c = 11 then Some [92, 118]
      else if c = 9 then (if flag AND VIS_TAB = 0 then Some [92, 116] else None)
      else if c = 12 then Some [92, 102]
      else if c = 32 then (if flag AND VIS_SP \<noteq> 0 then Some [92, 115] else None)
      else if c = 34 then (if flag AND VIS_DQ \<noteq> 0 then Some [92, 34] else None)
      else if c = 92 then Some [92, 92]
      else None)"

definition vis_octal :: "u8 \<Rightarrow> u8 list" where
  "vis_octal c = [92, (drop_bit 6 c AND 7) + 48, (drop_bit 3 c AND 7) + 48, (c AND 7) + 48]"

definition vis :: "u8 \<Rightarrow> u32 \<Rightarrow> u8 list" where
  "vis c flag =
     (case (if flag AND VIS_NOSLASH = 0 then vis_slash c flag else None) of
        Some bs \<Rightarrow> bs
      | None \<Rightarrow>
          if flag AND VIS_ALL = 0 \<and> isprint (uint c) \<and>
             \<not> (flag AND VIS_WHITE \<noteq> 0 \<and> (c = 32 \<or> c = 9 \<or> c = 10)) then [c]
          else if flag AND VIS_CSTYLE \<noteq> 0 \<and> (c < 0x20 \<or> c = 0x7f) then
            (if c = 0x7f then [92, 63] else [92, vis_ctl ! unat c])
          else if flag AND VIS_OCTAL \<noteq> 0 then vis_octal c
          else vis_octal c)"

definition strvis :: "u8 list \<Rightarrow> u32 \<Rightarrow> u8 list" where
  "strvis src flag = concat (map (\<lambda>c. vis c flag) src)"

text \<open>
  \<open>stravis\<close>: the allocation is given by whether it succeeds; writing more bytes than were
  asked for, or a size that overflows an \<open>int\<close>, has no result.  The C result -1 is \<open>Inl\<close>.
\<close>

definition stravis :: "bool \<Rightarrow> u8 list \<Rightarrow> u32 \<Rightarrow> (int + u8 list) option" where
  "stravis mok src flag =
     (let maxlen = length src * 4 + 1 in
      if \<not> int32_range (int maxlen) then None
      else if \<not> mok then Some (Inl (-1))
      else if length (strvis src flag) + 1 \<le> maxlen then Some (Inr (strvis src flag)) else None)"

text \<open>\<open>strnvis\<close> and \<open>strvisx\<close> bound the number of source bytes; \<open>strvisx\<close> goes past zeros.\<close>

definition strnvis :: "u8 list \<Rightarrow> nat \<Rightarrow> u32 \<Rightarrow> u8 list" where
  "strnvis src n flag = concat (map (\<lambda>c. vis c flag) (take n src))"

definition strvisx :: "u8 list \<Rightarrow> nat \<Rightarrow> u32 \<Rightarrow> u8 list option" where
  "strvisx src n flag =
     (if n \<le> length src then Some (concat (map (\<lambda>c. vis c flag) (take n src))) else None)"

definition strunvis :: "u8 list \<Rightarrow> u8 list" where
  "strunvis src = src"

text \<open>The stored character and \<open>UNVIS_VALID\<close>.\<close>

definition unvis :: "u8 \<Rightarrow> u8 \<times> int" where
  "unvis c = (c, 1)"

definition strnunvis :: "u8 list \<Rightarrow> nat \<Rightarrow> u8 list" where
  "strnunvis src n = take n src"

section \<open>Decoding\<close>

text \<open>
  A decoder for the encoding with no flags, as the manual page of \<open>unvis\<close> describes it: the
  specification against which the encoding is judged.
\<close>

definition letter :: "u8 \<Rightarrow> u8 option" where
  "letter c = map_of [(110, 10), (114, 13), (98, 8), (97, 7), (118, 11), (116, 9), (102, 12), (92, 92)] c"

fun decode :: "u8 list \<Rightarrow> u8 list" where
  "decode [] = []"
| "decode (c # cs) =
     (if c \<noteq> 92 then c # decode cs
      else case cs of
        [] \<Rightarrow> []
      | d # ds \<Rightarrow>
          (case letter d of
             Some x \<Rightarrow> x # decode ds
           | None \<Rightarrow>
               (case ds of
                  e # f # fs \<Rightarrow> ((d - 48) * 64 + (e - 48) * 8 + (f - 48)) # decode fs
                | _ \<Rightarrow> [])))"

text \<open>The 256 bytes, each encoded with no flags and checked.\<close>

definition vis_checked :: "u8 \<Rightarrow> bool" where
  "vis_checked c \<longleftrightarrow>
     (case vis c 0 of
        [a] \<Rightarrow> a = c \<and> a \<noteq> 92
      | [a, b] \<Rightarrow> a = 92 \<and> letter b = Some c
      | [a, d, e, f] \<Rightarrow> a = 92 \<and> letter d = None \<and> (d - 48) * 64 + (e - 48) * 8 + (f - 48) = c
      | _ \<Rightarrow> False)"

lemma four_cases:
  obtains "xs = []" | a where "xs = [a]" | a b where "xs = [a, b]" | a b c where "xs = [a, b, c]"
  | a b c d where "xs = [a, b, c, d]" | a b c d e ys where "xs = a # b # c # d # e # ys"
  by (metis list.exhaust)

lemma vis_checked_all: "list_all (\<lambda>n. vis_checked (of_nat n)) [0..<256]"
  by code_simp

lemma vis_checked: "vis_checked c"
proof -
  have lt: "unat c < 256" by (rule order_less_le_trans [OF unsigned_less]) simp
  have "\<forall>n \<in> set [0..<256]. vis_checked (of_nat n)"
    using vis_checked_all by (simp only: list_all_iff)
  from bspec [OF this, of "unat c"] lt have "vis_checked (of_nat (unat c))" by force
  then show ?thesis by (simp only: of_nat_unat ucast_id)
qed

lemma vis_cases:
  obtains "c \<noteq> 92" "vis c 0 = [c]"
  | b where "vis c 0 = [92, b]" "letter b = Some c"
  | d e f where "vis c 0 = [92, d, e, f]" "letter d = None"
      "(d - 48) * 64 + (e - 48) * 8 + (f - 48) = c"
proof -
  have "vis_checked c" by (rule vis_checked)
  then show thesis
    unfolding vis_checked_def
    by (cases "vis c 0" rule: four_cases) (auto intro: that)
qed

lemma decode_plain: "c \<noteq> 92 \<Longrightarrow> decode (c # cs) = c # decode cs"
  by simp

lemma decode_letter: "letter b = Some c \<Longrightarrow> decode (92 # b # cs) = c # decode cs"
  by simp

lemma decode_octal:
  "letter d = None \<Longrightarrow>
   decode (92 # d # e # f # cs) = ((d - 48) * 64 + (e - 48) * 8 + (f - 48)) # decode cs"
  by simp

lemma decode_vis: "decode (vis c 0 @ rest) = c # decode rest"
  by (cases c rule: vis_cases)
    (simp_all only: append_Cons append_Nil decode_plain decode_letter decode_octal not_False_eq_True)

lemma vis_length: "1 \<le> length (vis c flag) \<and> length (vis c flag) \<le> 4"
  by (auto simp: vis_def vis_slash_def vis_octal_def split: option.splits if_splits)

lemma strvis_length: "length (strvis src flag) \<le> 4 * length src"
proof (induction src)
  case Nil
  then show ?case by (simp add: strvis_def)
next
  case (Cons c src)
  then show ?case using vis_length [of c flag] by (simp add: strvis_def)
qed

section \<open>Properties\<close>

text \<open>The class functions that read the table agree with those that compare, for every
  argument: letters are the upper and lower case ones, the alphanumeric characters are the
  letters and digits, the graphic ones the printable ones except the blank, punctuation what
  is graphic and not alphanumeric; and \<open>toupper\<close> undoes \<open>tolower\<close> on upper case letters.\<close>

theorem ctype_consistent:
  "(isalpha c \<longleftrightarrow> isupper c \<or> islower c) \<and> (isalnum c \<longleftrightarrow> isalpha c \<or> isdigit c) \<and>
   (isgraph c \<longleftrightarrow> isprint c \<and> c \<noteq> 32) \<and> (ispunct c \<longleftrightarrow> isgraph c \<and> \<not> isalnum c) \<and>
   (if isupper c then islower (tolower c) \<and> toupper (tolower c) = c else tolower c = c)"
  unfolding isalpha_def isalnum_def isgraph_def ispunct_def ctype_table_spec
  by (auto simp: tolower_def toupper_def isupper_def islower_def)

text \<open>C11.  The visual encoding without flags loses nothing: a decoder that reads the escapes as
  the manual describes them gets back the original bytes from \<open>strvis\<close>.\<close>

theorem strvis_decodable: "decode (strvis src 0) = src"
proof (induction src)
  case Nil
  then show ?case by (simp add: strvis_def)
next
  case (Cons c src)
  then show ?case by (simp add: strvis_def decode_vis)
qed

text \<open>The buffer of \<open>stravis\<close>, four bytes for each source byte and one for the zero, is large
  enough for every string of up to 512 MB and all flags.\<close>

theorem stravis_fits:
  "length src < 2 ^ 29 \<Longrightarrow> stravis True src flag = Some (Inr (strvis src flag))"
  using strvis_length [of src flag] by (simp add: stravis_def Let_def int32_range_def)

lemma stravis_fits_witness: "stravis True [9, 65, 200] VIS_OCTAL = Some (Inr (strvis [9, 65, 200] VIS_OCTAL))"
  by (rule stravis_fits) simp

text \<open>With \<open>VIS_CSTYLE\<close> the bytes 0 and 30 have the same encoding.\<close>

lemma vis_cstyle_ambiguous: "vis 0 VIS_CSTYLE = vis 30 VIS_CSTYLE"
  by (simp add: vis_def vis_slash_def vis_ctl_def isprint_def)

text \<open>\<open>strunvis\<close> copies the escapes instead of decoding them.\<close>

lemma strunvis_copies: "strunvis (strvis [10] 0) \<noteq> [10]"
  by (simp add: strunvis_def strvis_def vis_def vis_slash_def)

end
