(* ===== verification/Strconv.thy ===== *)
theory Strconv
  imports Prelude
begin

text \<open>
  Numbers and strings in \<open>lib/libc/stdlib.c\<close>: parsing (\<open>atoi\<close>, \<open>strtol\<close> and relatives),
  printing (\<open>itoa\<close>, \<open>ltoa\<close>, \<open>lltoa\<close>), absolute values, quotients and the random number
  generator.  A string is the list of its bytes without the terminating zero; a pointer into
  it is the rest of the list, and the byte at a pointer is \<open>peek\<close>.  \<open>int\<close> and \<open>long\<close> have 32
  bits, \<open>long long\<close> has 64, and both wrap.  The functions on \<open>double\<close> are not modelled.
\<close>

section \<open>Words of two widths\<close>

definition wrap64 :: "int \<Rightarrow> int" where
  "wrap64 x = signed_take_bit 63 x"

lemma wrap64_id [simp]: "- (2 ^ 63) \<le> x \<Longrightarrow> x < 2 ^ 63 \<Longrightarrow> wrap64 x = x"
  by (simp add: wrap64_def signed_take_bit_int_eq_self)

definition peek :: "u8 list \<Rightarrow> u8" where
  "peek p = (case p of [] \<Rightarrow> 0 | c # _ \<Rightarrow> c)"

lemma peek_simps [simp]: "peek [] = 0" "peek (c # p) = c"
  by (simp_all add: peek_def)

section \<open>Parsing\<close>

definition atoi_space :: "u8 \<Rightarrow> bool" where
  "atoi_space c \<longleftrightarrow> c = 32 \<or> c = 9 \<or> c = 10 \<or> c = 13 \<or> c = 12 \<or> c = 11"

text \<open>The optional sign.\<close>

definition read_sign :: "u8 list \<Rightarrow> int \<times> u8 list" where
  "read_sign p = (if peek p = 45 then (-1, tl p) else if peek p = 43 then (1, tl p) else (1, p))"

fun atoi_digits :: "int \<Rightarrow> u8 list \<Rightarrow> int" where
  "atoi_digits result [] = result"
| "atoi_digits result (c # p) =
     (if 48 \<le> c \<and> c \<le> 57 then atoi_digits (wrap32 (result * 10 + (uint c - 48))) p else result)"

definition atoi :: "u8 list \<Rightarrow> int" where
  "atoi str =
     (let (sign, p) = read_sign (dropWhile atoi_space str) in wrap32 (sign * atoi_digits 0 p))"

definition strtol_space :: "u8 \<Rightarrow> bool" where
  "strtol_space c \<longleftrightarrow> c = 32 \<or> c = 9 \<or> c = 10"

text \<open>The base and the prefix \<open>0x\<close>.\<close>

definition read_base :: "int \<Rightarrow> u8 list \<Rightarrow> int \<times> u8 list" where
  "read_base base p =
     (let hex = (peek (tl p) = 120 \<or> peek (tl p) = 88) in
      if base = 0 then
        (if peek p = 48 then (if hex then (16, drop 2 p) else (8, p)) else (10, p))
      else if base = 16 \<and> peek p = 48 \<and> hex then (base, drop 2 p)
      else (base, p))"

definition digit_of :: "u8 \<Rightarrow> int option" where
  "digit_of c =
     (if 48 \<le> c \<and> c \<le> 57 then Some (uint c - 48)
      else if 97 \<le> c \<and> c \<le> 122 then Some (uint c - 97 + 10)
      else if 65 \<le> c \<and> c \<le> 90 then Some (uint c - 65 + 10)
      else None)"

text \<open>The digits; \<open>wrap\<close> is the width of the accumulator, \<open>wrap32\<close> or \<open>wrap64\<close>.\<close>

fun strto_digits :: "(int \<Rightarrow> int) \<Rightarrow> int \<Rightarrow> int \<Rightarrow> u8 list \<Rightarrow> int \<times> u8 list" where
  "strto_digits wrap base result [] = (result, [])"
| "strto_digits wrap base result (c # p) =
     (case digit_of c of
        None \<Rightarrow> (result, c # p)
      | Some digit \<Rightarrow>
          if digit \<ge> base then (result, c # p)
          else strto_digits wrap base (wrap (result * base + digit)) p)"

text \<open>The number and the string that \<open>endptr\<close> is set to.\<close>

definition strto :: "(int \<Rightarrow> int) \<Rightarrow> u8 list \<Rightarrow> int \<Rightarrow> int \<times> u8 list" where
  "strto wrap str base =
     (let (sign, p) = read_sign (dropWhile strtol_space str);
          (base, p) = read_base base p;
          (result, p) = strto_digits wrap base 0 p
      in (wrap (sign * result), p))"

definition strtol :: "u8 list \<Rightarrow> int \<Rightarrow> int \<times> u8 list" where
  "strtol = strto wrap32"

definition strtoll :: "u8 list \<Rightarrow> int \<Rightarrow> int \<times> u8 list" where
  "strtoll = strto wrap64"

definition strtoul :: "u8 list \<Rightarrow> int \<Rightarrow> u32 \<times> u8 list" where
  "strtoul str base = map_prod word_of_int id (strtol str base)"

definition strtoull :: "u8 list \<Rightarrow> int \<Rightarrow> u64 \<times> u8 list" where
  "strtoull str base = map_prod word_of_int id (strtoll str base)"

definition atol :: "u8 list \<Rightarrow> int" where "atol str = fst (strtol str 10)"
definition atoll :: "u8 list \<Rightarrow> int" where "atoll str = fst (strtoll str 10)"

section \<open>Printing\<close>

text \<open>
  The digits in the order they are written, the lowest first.  The remainder has the sign of
  the number, as in C.  The fuel is the width of the number plus one; a loop that does not end
  before (bases 1 and -1) runs over the buffer and has no result, like the division by 0.
\<close>

definition to_digit :: "int \<Rightarrow> u8" where
  "to_digit r = (if r > 9 then word_of_int (r - 10 + 97) else word_of_int (r + 48))"

fun itoa_loop :: "nat \<Rightarrow> int \<Rightarrow> int \<Rightarrow> u8 list option" where
  "itoa_loop 0 num base = (if num = 0 then Some [] else None)"
| "itoa_loop (Suc fuel) num base =
     (if num = 0 then Some []
      else if base = 0 then None
      else do { ds \<leftarrow> itoa_loop fuel (num sdiv base) base;
                Some (to_digit (num smod base) # ds) })"

text \<open>The reversal in place.\<close>

function rev_loop :: "'a list \<Rightarrow> nat \<Rightarrow> nat \<Rightarrow> 'a list" where
  "rev_loop str start stop =
     (if start < stop then
        rev_loop (str[start := str ! stop, stop := str ! start]) (start + 1) (stop - 1)
      else str)"
  by pat_completeness auto
termination by (relation "measure (\<lambda>(_, s, e). e - s)") auto

declare rev_loop.simps [simp del]

definition to_string :: "(int \<Rightarrow> int) \<Rightarrow> nat \<Rightarrow> int \<Rightarrow> int \<Rightarrow> u8 list option" where
  "to_string wrap fuel num base =
     (if num = 0 then Some [48]
      else
        let isNegative = (num < 0 \<and> base = 10);
            num = (if isNegative then wrap (- num) else num)
        in do { ds \<leftarrow> itoa_loop fuel num base;
                let str = (if isNegative then ds @ [45] else ds)
                in Some (rev_loop str 0 (length str - 1)) })"

definition itoa :: "int \<Rightarrow> int \<Rightarrow> u8 list option" where
  "itoa = to_string wrap32 33"

definition ltoa :: "int \<Rightarrow> int \<Rightarrow> u8 list option" where
  "ltoa = to_string wrap32 33"

definition lltoa :: "int \<Rightarrow> int \<Rightarrow> u8 list option" where
  "lltoa = to_string wrap64 65"

section \<open>Arithmetic\<close>

definition abs_int :: "int \<Rightarrow> int" where "abs_int x = (if x < 0 then wrap32 (- x) else x)"
definition labs :: "int \<Rightarrow> int" where "labs x = (if x < 0 then wrap32 (- x) else x)"
definition llabs :: "int \<Rightarrow> int" where "llabs x = (if x < 0 then wrap64 (- x) else x)"

text \<open>A division by zero and the overflowing division by -1 fault.\<close>

definition div_int :: "int \<Rightarrow> int \<Rightarrow> (int \<times> int) option" where
  "div_int numerator denominator =
     (if denominator = 0 \<or> \<not> int32_range (numerator sdiv denominator) then None
      else Some (numerator sdiv denominator, numerator smod denominator))"

definition ldiv :: "int \<Rightarrow> int \<Rightarrow> (int \<times> int) option" where
  "ldiv = div_int"

definition lldiv :: "int \<Rightarrow> int \<Rightarrow> (int \<times> int) option" where
  "lldiv numerator denominator =
     (if denominator = 0 \<or> wrap64 (numerator sdiv denominator) \<noteq> numerator sdiv denominator then None
      else Some (numerator sdiv denominator, numerator smod denominator))"

definition divdi3 :: "int \<Rightarrow> int \<Rightarrow> int option" where
  "divdi3 a b = map_option fst (lldiv a b)"

definition moddi3 :: "int \<Rightarrow> int \<Rightarrow> int option" where
  "moddi3 a b = map_option snd (lldiv a b)"

text \<open>The state is \<open>next_rand\<close>, initially 1.\<close>

definition rand :: "u32 \<Rightarrow> u32 \<times> int" where
  "rand next_rand =
     (let next_rand = next_rand * 1103515245 + 12345
      in (next_rand, uint ((next_rand div 65536) mod 32768)))"

definition srand :: "u32 \<Rightarrow> u32" where
  "srand seed = seed"

section \<open>Lemmas\<close>

lemma length_rev_loop [simp]: "length (rev_loop xs a b) = length xs"
  by (induction xs a b rule: rev_loop.induct) (subst rev_loop.simps, simp)

lemma nth_rev_loop:
  "b < length xs \<Longrightarrow> k < length xs \<Longrightarrow>
   rev_loop xs a b ! k = (if a \<le> k \<and> k \<le> b then xs ! (a + b - k) else xs ! k)"
proof (induction xs a b arbitrary: k rule: rev_loop.induct)
  case (1 xs a b)
  show ?case
  proof (cases "a < b")
    case True
    let ?ys = "xs[a := xs ! b, b := xs ! a]"
    have "rev_loop xs a b ! k = rev_loop ?ys (a + 1) (b - 1) ! k"
      using True by (subst rev_loop.simps) simp
    also have "\<dots> = (if a + 1 \<le> k \<and> k \<le> b - 1 then ?ys ! (a + 1 + (b - 1) - k) else ?ys ! k)"
      using 1 True by simp
    also have "\<dots> = (if a \<le> k \<and> k \<le> b then xs ! (a + b - k) else xs ! k)"
      using True 1(2,3) by (auto simp: nth_list_update)
    finally show ?thesis .
  next
    case False
    then have "a \<le> k \<and> k \<le> b \<longrightarrow> a + b - k = k" by linarith
    with False show ?thesis by (subst rev_loop.simps) auto
  qed
qed

lemma rev_loop_rev: "xs \<noteq> [] \<Longrightarrow> rev_loop xs 0 (length xs - 1) = rev xs"
  by (rule nth_equalityI) (auto simp: nth_rev_loop rev_nth Suc_le_eq [symmetric] Suc_diff_Suc)

text \<open>The value of a list of digits, the lowest first.\<close>

fun digits_val :: "int \<Rightarrow> u8 list \<Rightarrow> int" where
  "digits_val base [] = 0"
| "digits_val base (c # ds) = the (digit_of c) + base * digits_val base ds"

definition good_digit :: "int \<Rightarrow> u8 \<Rightarrow> bool" where
  "good_digit base c \<longleftrightarrow> (\<exists>d. digit_of c = Some d \<and> 0 \<le> d \<and> d < base)"

lemma digit_of_to_digit_checked:
  "list_all (\<lambda>r. digit_of (to_digit r) = Some r \<and> 48 \<le> to_digit r \<and> (to_digit r = 120 \<longrightarrow> r = 33) \<and>
     to_digit r \<noteq> 88) [0..35]"
  by code_simp

lemma digit_of_to_digit:
  assumes "0 \<le> r" "r < 36"
  shows "digit_of (to_digit r) = Some r" "48 \<le> to_digit r" "to_digit r \<noteq> 88" "to_digit r = 120 \<Longrightarrow> r = 33"
  using assms digit_of_to_digit_checked unfolding list_all_iff by (auto simp: Ball_def)

lemma smod_sdiv_nonneg:
  fixes n b :: int
  assumes "0 \<le> n" "0 < b"
  shows "n sdiv b = n div b" "n smod b = n mod b"
  using assms by (cases "n = 0"; simp add: signed_divide_int_def signed_modulo_int_def mult_div_mod_eq [symmetric] minus_mult_div_eq_mod [symmetric])+

lemma good_digit_simps: "good_digit base c \<Longrightarrow> 0 \<le> the (digit_of c) \<and> the (digit_of c) < base"
  by (auto simp: good_digit_def)

lemma digits_val_nonneg: "0 < base \<Longrightarrow> list_all (good_digit base) ds \<Longrightarrow> 0 \<le> digits_val base ds"
  by (induction ds) (auto dest: good_digit_simps)

text \<open>What the digit loop writes for a number that is not negative.\<close>

lemma itoa_loop_digits:
  assumes "0 \<le> num" "num < 2 ^ fuel" "2 \<le> base" "base \<le> 36"
  shows "\<exists>ds. itoa_loop fuel num base = Some ds \<and> digits_val base ds = num \<and>
    list_all (\<lambda>c. \<exists>r. 0 \<le> r \<and> r < base \<and> c = to_digit r) ds \<and> length ds \<le> fuel \<and> (num \<noteq> 0 \<longrightarrow> ds \<noteq> [])"
  using assms(1,2)
proof (induction fuel arbitrary: num)
  case 0
  then show ?case by simp
next
  case (Suc fuel)
  show ?case
  proof (cases "num = 0")
    case True
    then show ?thesis by simp
  next
    case False
    have "num div base \<le> num div 2"
      using Suc.prems(1) assms(3) by (intro zdiv_mono2) simp_all
    also have "\<dots> < 2 ^ fuel" using Suc.prems(2) by simp
    finally have "num div base < 2 ^ fuel" .
    with Suc.IH [of "num div base"] Suc.prems(1) assms(3) obtain ds where
      ds: "itoa_loop fuel (num div base) base = Some ds" "digits_val base ds = num div base"
        "list_all (\<lambda>c. \<exists>r. 0 \<le> r \<and> r < base \<and> c = to_digit r) ds" "length ds \<le> fuel"
      by (auto simp: pos_imp_zdiv_nonneg_iff)
    have r: "0 \<le> num mod base" "num mod base < base" using assms(3) by simp_all
    then have "digit_of (to_digit (num mod base)) = Some (num mod base)"
      using assms(4) by (intro digit_of_to_digit(1)) simp_all
    then show ?thesis
      using False ds r assms(3) Suc.prems(1) by (auto simp: smod_sdiv_nonneg intro!: exI [of _ "num mod base"])
  qed
qed

lemma itoa_loop_Suc: "itoa_loop m num base = Some ds \<Longrightarrow> itoa_loop (Suc m) num base = Some ds"
proof (induction m arbitrary: num ds)
  case 0
  then show ?case by (auto split: if_splits)
next
  case (Suc m)
  from Suc.prems show ?case
    by (subst itoa_loop.simps(2), subst (asm) itoa_loop.simps(2))
      (auto simp del: itoa_loop.simps split: if_splits bind_splits dest: Suc.IH)
qed

lemma itoa_loop_more:
  assumes "itoa_loop m num base = Some ds" "m \<le> n"
  shows "itoa_loop n num base = Some ds"
  using assms(2)
proof (induction rule: dec_induct)
  case base
  then show ?case by (rule assms(1))
next
  case (step k)
  then show ?case by (blast intro: itoa_loop_Suc)
qed

lemma to_digit_good:
  assumes "2 \<le> base" "base \<le> 36"
    and "list_all (\<lambda>c. \<exists>r. 0 \<le> r \<and> r < base \<and> c = to_digit r) ds"
  shows "list_all (good_digit base) ds"
proof -
  have "good_digit base (to_digit r)" if "0 \<le> r" "r < base" for r
    using that digit_of_to_digit(1) [of r] assms(2) by (simp add: good_digit_def)
  then show ?thesis using assms(3) by (auto simp: list_all_iff)
qed

lemma strto_digits_append:
  "list_all (good_digit base) xs \<Longrightarrow>
   strto_digits wrap base r (xs @ ys) = strto_digits wrap base (fst (strto_digits wrap base r xs)) ys"
  by (induction xs arbitrary: r) (auto simp: good_digit_def)

text \<open>\<open>atoi\<close> reads the digits as \<open>strtol\<close> does for base 10.\<close>

lemma digit_of_decimal: "(\<exists>d. digit_of c = Some d \<and> d < 10) \<longleftrightarrow> 48 \<le> c \<and> c \<le> 57"
proof -
  have "uint c \<ge> 97 \<Longrightarrow> \<not> uint c - 97 + 10 < 10" by simp
  then show ?thesis
    by (auto simp: digit_of_def word_le_def)
qed

lemma atoi_digits_strto: "atoi_digits r s = fst (strto_digits wrap32 10 r s)"
proof (induction s arbitrary: r)
  case Nil
  then show ?case by simp
next
  case (Cons c s)
  show ?case
  proof (cases "48 \<le> c \<and> c \<le> 57")
    case True
    then have "digit_of c = Some (uint c - 48)" "uint c - 48 < 10"
      by (simp_all add: digit_of_def word_le_def)
    with True show ?thesis by (simp add: Cons.IH)
  next
    case False
    then have "\<nexists>d. digit_of c = Some d \<and> d < 10" by (simp only: digit_of_decimal simp_thms)
    with False show ?thesis by (auto split: option.splits)
  qed
qed

text \<open>A printed number is read from its first byte on: no blank, no sign, no prefix.\<close>

lemma digit_start:
  assumes "48 \<le> c"
  shows "\<not> strtol_space c" "\<not> atoi_space c" "c \<noteq> 45" "c \<noteq> 43"
  using assms by (auto simp: strtol_space_def atoi_space_def)

lemma digit_string:
  assumes "list_all (\<lambda>c. \<exists>r. 0 \<le> r \<and> r < base \<and> c = to_digit r) s" "2 \<le> base" "base \<le> 36"
  shows "dropWhile strtol_space s = s" "dropWhile atoi_space s = s" "read_sign s = (1, s)"
    "read_base base s = (base, s)"
proof -
  have digit: "48 \<le> c \<and> c \<noteq> 88 \<and> (c = 120 \<longrightarrow> base \<noteq> 16)" if "c \<in> set s" for c
  proof -
    from that assms(1) obtain r where "0 \<le> r" "r < base" "c = to_digit r"
      by (auto simp: list_all_iff)
    with digit_of_to_digit [of r] assms(3) show ?thesis by auto
  qed
  then have hd: "s \<noteq> [] \<Longrightarrow> 48 \<le> hd s" by simp
  show "dropWhile strtol_space s = s" "dropWhile atoi_space s = s" "read_sign s = (1, s)"
    using hd digit_start [of "hd s"] by (cases s; simp add: read_sign_def)+
  have "peek (tl s) \<noteq> 88 \<and> (peek (tl s) = 120 \<longrightarrow> base \<noteq> 16)"
  proof (cases "tl s")
    case Nil
    then show ?thesis by simp
  next
    case (Cons c t)
    then have "c \<in> set s" by (metis list.set_intros(1) list.set_sel(2) tl_Nil neq_Nil_conv)
    with digit Cons show ?thesis by simp
  qed
  then show "read_base base s = (base, s)"
    using assms(2) by (auto simp: read_base_def Let_def)
qed

section \<open>Printing and parsing at both widths\<close>

locale int_width =
  fixes wrap :: "int \<Rightarrow> int" and bits :: nat
  assumes wrap_id: "- (2 ^ (bits - 1)) \<le> x \<Longrightarrow> x < 2 ^ (bits - 1) \<Longrightarrow> wrap x = x"
    and bits_pos: "0 < bits"
begin

lemma strto_digits_val:
  assumes "2 \<le> base" "list_all (good_digit base) ds" "digits_val base ds < 2 ^ (bits - 1)"
  shows "strto_digits wrap base 0 (rev ds) = (digits_val base ds, [])"
  using assms(2,3)
proof (induction ds)
  case Nil
  then show ?case by simp
next
  case (Cons c ds)
  let ?v = "digits_val base ds"
  have d: "good_digit base c" and ds: "list_all (good_digit base) ds" using Cons.prems by simp_all
  have v0: "0 \<le> ?v" using digits_val_nonneg ds assms(1) by simp
  have "1 * ?v \<le> base * ?v" using v0 assms(1) by (intro mult_right_mono) simp_all
  then have "?v < 2 ^ (bits - 1)" using Cons.prems(2) good_digit_simps [OF d] by simp
  then have IH: "strto_digits wrap base 0 (rev ds) = (?v, [])" using Cons.IH ds by simp
  obtain x where x: "digit_of c = Some x" "0 \<le> x" "x < base" using d by (auto simp: good_digit_def)
  have "wrap (?v * base + x) = ?v * base + x"
    using Cons.prems(2) x v0 assms(1)
    by (intro wrap_id) (simp_all add: mult.commute add.commute order.trans [of _ 0])
  then show ?case
    using x ds by (simp add: strto_digits_append IH mult.commute add.commute)
qed

text \<open>What is printed for a positive number.\<close>

lemma to_string_pos:
  assumes "0 < num" "num < 2 ^ (bits - 1)" "2 \<le> base" "base \<le> 36"
  shows "\<exists>ds. ds \<noteq> [] \<and> length ds \<le> bits - 1 \<and> itoa_loop (bits + 1) num base = Some ds \<and>
    list_all (\<lambda>c. \<exists>r. 0 \<le> r \<and> r < base \<and> c = to_digit r) ds \<and>
    strto_digits wrap base 0 (rev ds) = (num, [])"
proof -
  obtain ds where ds: "itoa_loop (bits - 1) num base = Some ds" "digits_val base ds = num"
      "list_all (\<lambda>c. \<exists>r. 0 \<le> r \<and> r < base \<and> c = to_digit r) ds" "length ds \<le> bits - 1" "ds \<noteq> []"
    using itoa_loop_digits [of num "bits - 1" base] assms by auto
  have "itoa_loop (bits + 1) num base = Some ds"
    using itoa_loop_more [OF ds(1), of "bits + 1"] by simp
  moreover have "strto_digits wrap base 0 (rev ds) = (num, [])"
    using strto_digits_val [of base ds] to_digit_good [OF assms(3,4) ds(3)] ds(2) assms by simp
  ultimately show ?thesis using ds by blast
qed

text \<open>Every number but the least is read back as it was printed.\<close>

lemma to_string_strto:
  assumes "\<bar>num\<bar> < 2 ^ (bits - 1)" "2 \<le> base" "base \<le> 36" "0 \<le> num \<or> base = 10"
  shows "\<exists>s. to_string wrap (bits + 1) num base = Some s \<and> length s \<le> bits \<and>
    strto wrap s base = (num, []) \<and>
    (base = 10 \<longrightarrow> (let (sign, p) = read_sign (dropWhile atoi_space s)
                  in sign * fst (strto_digits wrap 10 0 p)) = num)"
proof -
  consider "num = 0" | "0 < num" | "num < 0" by linarith
  then show ?thesis
  proof cases
    case 1
    have "list_all (\<lambda>c. \<exists>r. 0 \<le> r \<and> r < base \<and> c = to_digit r) [48]"
      using assms(2) by (auto simp: to_digit_def intro!: exI [of _ 0])
    note start = digit_string [OF this assms(2,3)]
    have "strto_digits wrap base 0 [48] = (0, [])"
      using strto_digits_val [of base "[48]"] assms(2)
      by (simp add: good_digit_def digit_of_def)
    then have "strto wrap [48] base = (0, [])"
      unfolding strto_def start Let_def using wrap_id [of 0] by (simp add: start)
    moreover have "(let (sign, p) = read_sign (dropWhile atoi_space [48])
        in sign * fst (strto_digits wrap base 0 p)) = 0"
      unfolding start Let_def prod.case by (simp only: \<open>strto_digits wrap base 0 [48] = (0, [])\<close> fst_conv mult_zero_right)
    ultimately show ?thesis
      using 1 bits_pos by (intro exI [of _ "[48]"]) (auto simp: to_string_def simp del: dropWhile.simps)
  next
    case 2
    with to_string_pos [of num base] assms obtain ds where ds: "ds \<noteq> []" "length ds \<le> bits - 1"
        "itoa_loop (bits + 1) num base = Some ds"
        "list_all (\<lambda>c. \<exists>r. 0 \<le> r \<and> r < base \<and> c = to_digit r) ds"
        "strto_digits wrap base 0 (rev ds) = (num, [])" by auto
    then have "list_all (\<lambda>c. \<exists>r. 0 \<le> r \<and> r < base \<and> c = to_digit r) (rev ds)"
      by (simp add: list_all_iff)
    note start = digit_string [OF this assms(2,3)]
    have "to_string wrap (bits + 1) num base = Some (rev ds)"
      using 2 ds rev_loop_rev [OF ds(1)] by (simp add: to_string_def)
    moreover have "strto wrap (rev ds) base = (num, [])"
      using start ds(5) wrap_id [of num] assms(1) 2 by (simp add: strto_def)
    ultimately show ?thesis using start ds(2,5) by auto
  next
    case 3
    then have b: "base = 10" using assms(4) by simp
    have w: "wrap (- num) = - num" "wrap num = num" using assms(1) 3 by (simp_all add: wrap_id)
    from to_string_pos [of "- num" base] assms 3 obtain ds where ds: "ds \<noteq> []" "length ds \<le> bits - 1"
        "itoa_loop (bits + 1) (- num) base = Some ds"
        "list_all (\<lambda>c. \<exists>r. 0 \<le> r \<and> r < base \<and> c = to_digit r) ds"
        "strto_digits wrap base 0 (rev ds) = (- num, [])" by auto
    then have "list_all (\<lambda>c. \<exists>r. 0 \<le> r \<and> r < base \<and> c = to_digit r) (rev ds)"
      by (simp add: list_all_iff)
    note start = digit_string [OF this assms(2,3)]
    have "to_string wrap (bits + 1) num base = Some (45 # rev ds)"
      using 3 b ds rev_loop_rev [of "ds @ [45]"] w by (simp add: to_string_def Let_def)
    moreover have "read_sign (45 # rev ds) = (-1, rev ds)" by (simp add: read_sign_def)
    moreover have "\<not> strtol_space 45" "\<not> atoi_space 45" by (simp_all add: strtol_space_def atoi_space_def)
    ultimately show ?thesis
      using start ds(2,5) w 3 b bits_pos by (auto simp: strto_def)
  qed
qed

end

interpretation w32: int_width wrap32 32
  by unfold_locales (simp_all add: int32_range_def)

interpretation w64: int_width wrap64 64
  by unfold_locales simp_all

lemma itoa_strtol:
  assumes "int32_range num" "num \<noteq> - (2 ^ 31)" "2 \<le> base" "base \<le> 36" "0 \<le> num \<or> base = 10"
  shows "\<exists>s. itoa num base = Some s \<and> length s \<le> 32 \<and> strtol s base = (num, []) \<and>
    (base = 10 \<longrightarrow> atoi s = num)"
proof -
  have "\<bar>num\<bar> < 2 ^ (32 - 1)" using assms(1,2) by (auto simp: int32_range_def)
  from w32.to_string_strto [OF this assms(3-5)] obtain s where
    s: "itoa num base = Some s" "length s \<le> 32" "strtol s base = (num, [])"
      "base = 10 \<longrightarrow> (let (sign, p) = read_sign (dropWhile atoi_space s)
                  in sign * fst (strto_digits wrap32 10 0 p)) = num"
    by (auto simp: itoa_def strtol_def)
  moreover have "base = 10 \<longrightarrow> atoi s = num"
    using s(4) assms(1) by (auto simp: atoi_def atoi_digits_strto split: prod.splits)
  ultimately show ?thesis by blast
qed

lemma itoa_roundtrip_10:
  "int32_range num \<Longrightarrow> num \<noteq> - (2 ^ 31) \<Longrightarrow> \<exists>s. itoa num 10 = Some s \<and> length s \<le> 32 \<and> atoi s = num"
  using itoa_strtol [of num 10] by auto

section \<open>Properties\<close>

text \<open>C12.  What \<open>itoa\<close> prints is read back: for every \<open>int\<close> but the least one, base 10 and every
  base up to 36 for numbers that are not negative, \<open>itoa\<close> ends, writes at most 32 characters
  and the zero, and \<open>strtol\<close> in the same base gives the number and stops at the end; so does
  \<open>atoi\<close> for base 10.\<close>

theorem itoa_roundtrip:
  assumes "int32_range num" "num \<noteq> - (2 ^ 31)" "2 \<le> base" "base \<le> 36" "0 \<le> num \<or> base = 10"
  shows "\<exists>s. itoa num base = Some s \<and> length s \<le> 32 \<and> strtol s base = (num, []) \<and>
    (base = 10 \<longrightarrow> atoi s = num)"
  using assms by (rule itoa_strtol)

lemma itoa_roundtrip_witness:
  "\<exists>s. itoa (-20) 10 = Some s \<and> length s \<le> 32 \<and> strtol s 10 = (-20, []) \<and> atoi s = -20"
  using itoa_roundtrip [of "-20" 10] by (simp add: int32_range_def)

text \<open>The same for \<open>long long\<close>: \<open>lltoa\<close> and \<open>strtoll\<close>, and \<open>strtoull\<close> for numbers that are not
  negative.\<close>

theorem lltoa_roundtrip:
  assumes "\<bar>num\<bar> < 2 ^ 63" "2 \<le> base" "base \<le> 36" "0 \<le> num \<or> base = 10"
  shows "\<exists>s. lltoa num base = Some s \<and> length s \<le> 64 \<and> strtoll s base = (num, []) \<and>
    (0 \<le> num \<longrightarrow> uint (fst (strtoull s base)) = num)"
proof -
  have "\<bar>num\<bar> < 2 ^ (64 - 1)" using assms(1) by simp
  from w64.to_string_strto [OF this assms(2-4)] obtain s where
    s: "lltoa num base = Some s" "length s \<le> 64" "strtoll s base = (num, [])"
    by (auto simp: lltoa_def strtoll_def)
  moreover have "uint (fst (strtoull s base)) = num" if "0 \<le> num"
    using that s(3) assms(1) by (simp add: strtoull_def uint_word_of_int_eq take_bit_int_eq_self)
  ultimately show ?thesis by blast
qed

lemma lltoa_roundtrip_witness:
  "\<exists>s. lltoa 81985529216486895 16 = Some s \<and> length s \<le> 64 \<and>
    strtoll s 16 = (81985529216486895, []) \<and>
    (0 \<le> (81985529216486895 :: int) \<longrightarrow> uint (fst (strtoull s 16)) = 81985529216486895)"
  by (rule lltoa_roundtrip) simp_all

text \<open>A negative number is printed as a minus sign and its negation.\<close>

lemma itoa_neg:
  assumes "num < 0" "int32_range num" "num \<noteq> - (2 ^ 31)"
  shows "itoa num 10 = map_option (\<lambda>s. 45 # s) (itoa (- num) 10)"
proof -
  have w: "wrap32 (- num) = - num" using assms by (intro wrap32_id) (auto simp: int32_range_def)
  have rev: "rev_loop ds 0 (length ds - 1) = rev ds" for ds :: "u8 list"
    using rev_loop_rev [of ds] by (cases "ds = []") (simp_all add: rev_loop.simps)
  show ?thesis
    using assms(1) w rev rev_loop_rev [of "ds @ [45]" for ds :: "u8 list"]
    by (cases "itoa_loop 33 (- num) 10") (simp_all add: itoa_def to_string_def)
qed

text \<open>The least \<open>int\<close> is its own negation, and the characters written for its digits lie below
  the digit 0: \<open>itoa\<close> writes \<open>-./,),(-*,(\<close>.\<close>

lemma itoa_least:
  "itoa (- (2 ^ 31)) 10 = Some [45, 46, 47, 44, 41, 44, 40, 45, 42, 44, 40]"
  by code_simp

lemma itoa_base_1: "itoa 5 1 = None"
  by code_simp

lemma sdiv_overflow:
  assumes "int32_range n" "d \<noteq> 0"
  shows "int32_range (n sdiv d) \<longleftrightarrow> \<not> (n = - (2 ^ 31) \<and> d = -1)"
proof
  show "int32_range (n sdiv d) \<Longrightarrow> \<not> (n = - (2 ^ 31) \<and> d = -1)" by (auto simp: int32_range_def)
next
  assume no: "\<not> (n = - (2 ^ 31) \<and> d = -1)"
  have "n sdiv d \<noteq> 2 ^ 31"
  proof
    assume q: "n sdiv d = 2 ^ 31"
    with sdiv_int_range [of n d] assms(1) have "n = - (2 ^ 31)" by (auto simp: int32_range_def)
    with q int_sdiv_negated_is_minus1 [of n d] no show False by simp
  qed
  with sdiv_int_range [of n d] assms(1) show "int32_range (n sdiv d)"
    by (auto simp: int32_range_def)
qed

text \<open>\<open>div\<close> has a result exactly if the denominator is not zero and it is not the least
  \<open>int\<close> divided by -1, and then quotient and remainder are those of a division that truncates:
  they recompose the numerator, and the remainder is smaller than the denominator and has the
  sign of the numerator.\<close>

theorem div_int_spec:
  assumes "int32_range n"
  shows "case div_int n d of
      None \<Rightarrow> d = 0 \<or> n = - (2 ^ 31) \<and> d = -1
    | Some (q, r) \<Rightarrow> q * d + r = n \<and> \<bar>r\<bar> < \<bar>d\<bar> \<and> (r = 0 \<or> sgn r = sgn n)"
proof (cases "d = 0")
  case True
  then show ?thesis by (simp add: div_int_def)
next
  case False
  have "\<bar>n smod d\<bar> < \<bar>d\<bar>" using smod_int_range [OF False, of n] by auto
  moreover have "n smod d = 0 \<or> sgn (n smod d) = sgn n"
  proof -
    have "0 \<le> \<bar>n\<bar> mod \<bar>d\<bar>" using False by simp
    then have "\<bar>n\<bar> mod \<bar>d\<bar> = 0 \<or> sgn (\<bar>n\<bar> mod \<bar>d\<bar>) = 1" by (auto simp: sgn_if)
    then show ?thesis by (auto simp: smod_int_alt_def sgn_mult)
  qed
  ultimately show ?thesis
    using False sdiv_overflow [OF assms False] by (auto simp: div_int_def sdiv_mult_smod_eq)
qed

lemma div_int_spec_witness:
  "case div_int (-7) 2 of
      None \<Rightarrow> (2 :: int) = 0 \<or> (-7 :: int) = - (2 ^ 31) \<and> (2 :: int) = -1
    | Some (q, r) \<Rightarrow> q * 2 + r = -7 \<and> \<bar>r\<bar> < \<bar>2\<bar> \<and> (r = 0 \<or> sgn r = sgn (-7))"
  by (rule div_int_spec) (simp add: int32_range_def)

text \<open>The result of \<open>rand\<close> is below 32768, and the generator is deterministic from its seed.\<close>

lemma rand_bounds: "0 \<le> snd (rand s) \<and> snd (rand s) \<le> 32767"
proof -
  have "(s * 1103515245 + 12345) div 65536 mod 32768 < 32768" by (rule word_mod_less_divisor) simp
  then show ?thesis by (simp add: rand_def Let_def word_less_def)
qed

text \<open>\<open>abs\<close> is not the absolute value of the least \<open>int\<close>.\<close>

lemma abs_int_abs: "int32_range x \<Longrightarrow> abs_int x = \<bar>x\<bar> \<longleftrightarrow> x \<noteq> - (2 ^ 31)"
  by (cases "x = - (2 ^ 31)")
    (auto simp: abs_int_def int32_range_def wrap32_def signed_take_bit_int_eq_self)

end
