(* ===== verification/Sort.thy ===== *)
theory Sort
  imports Prelude Cstring "HOL-Library.Multiset"
begin

text \<open>
  Searching and sorting in \<open>lib/libc/stdlib.c\<close>: \<open>bsearch\<close> and \<open>qsort\<close>.  An array is the list
  of its elements, an element the list of its bytes; a pointer to an element is its index.
  \<open>compare\<close> is an argument, a function of the bytes of two elements, and what the code relies
  on is the contract \<open>comparator\<close>.  The functions behind \<open>qsort\<close> are called with indices below
  the length of the array only, as \<open>qs_partition_bounds\<close> shows for the recursion; \<open>qsort\<close> itself
  has no result when the caller announces more elements than there are.
\<close>

type_synonym elem = "u8 list"
type_synonym cmp = "elem \<Rightarrow> elem \<Rightarrow> int"

section \<open>Binary search\<close>

function bsearch_loop :: "elem \<Rightarrow> elem list \<Rightarrow> cmp \<Rightarrow> nat \<Rightarrow> nat \<Rightarrow> nat option" where
  "bsearch_loop key base compare low high =
     (if low < high then
        let mid = low + (high - low) div 2;
            cmp = compare key (base ! mid)
        in if cmp = 0 then Some mid
           else if cmp < 0 then bsearch_loop key base compare low mid
           else bsearch_loop key base compare (mid + 1) high
      else None)"
  by pat_completeness auto
termination by (relation "measure (\<lambda>(_, _, _, low, high). high - low)") auto

declare bsearch_loop.simps [simp del]

text \<open>The outer \<open>None\<close>: more elements announced than there are.  The inner one: \<open>NULL\<close>.\<close>

definition bsearch :: "elem \<Rightarrow> elem list \<Rightarrow> nat \<Rightarrow> cmp \<Rightarrow> nat option option" where
  "bsearch key base num compare =
     (if num \<le> length base then Some (bsearch_loop key base compare 0 num) else None)"

section \<open>Quicksort\<close>

text \<open>The bytes of two elements are exchanged one after the other; \<open>a = b\<close> is possible.\<close>

definition swap_byte :: "nat \<Rightarrow> nat \<Rightarrow> nat \<Rightarrow> elem list \<Rightarrow> elem list" where
  "swap_byte a b i base =
     (let temp = base ! a ! i;
          base = base[a := (base ! a)[i := base ! b ! i]]
      in base[b := (base ! b)[i := temp]])"

definition swap_elements :: "nat \<Rightarrow> nat \<Rightarrow> nat \<Rightarrow> elem list \<Rightarrow> elem list" where
  "swap_elements a b sz base = fold (swap_byte a b) [0..<sz] base"

text \<open>The loop over \<open>j\<close> with the index \<open>i\<close> of the next small element.\<close>

definition partition_step :: "nat \<Rightarrow> nat \<Rightarrow> cmp \<Rightarrow> nat \<Rightarrow> nat \<times> elem list \<Rightarrow> nat \<times> elem list" where
  "partition_step high sz compare j st =
     (case st of (i, base) \<Rightarrow>
        if compare (base ! j) (base ! high) < 0 then (i + 1, swap_elements i j sz base)
        else (i, base))"

definition qs_partition :: "nat \<Rightarrow> nat \<Rightarrow> nat \<Rightarrow> cmp \<Rightarrow> elem list \<Rightarrow> nat \<times> elem list" where
  "qs_partition low high sz compare base =
     (let (i, base) = fold (partition_step high sz compare) [low..<high] (low, base)
      in (i, swap_elements i high sz base))"


lemma partition_loop_bounds:
  assumes "low \<le> j"
  shows "low \<le> fst (fold (partition_step high sz compare) [low..<j] (low, base)) \<and>
    fst (fold (partition_step high sz compare) [low..<j] (low, base)) \<le> j"
  using assms
proof (induction rule: dec_induct)
  case base
  then show ?case by simp
next
  case (step j)
  then show ?case by (auto simp: partition_step_def split: prod.splits)
qed

lemma qs_partition_bounds:
  assumes "low \<le> high" "qs_partition low high sz compare base = (p, base')"
  shows "low \<le> p" "p \<le> high"
  using assms partition_loop_bounds [of low high high sz compare base]
  by (auto simp: qs_partition_def split: prod.splits)

lemma quicksort_segments:
  assumes "low < high" "(p, base') = qs_partition low high sz compare base"
  shows "p - Suc low < high - low" "p - 1 - low < high - low" "high - Suc p < high - low"
  using assms qs_partition_bounds [of low high sz compare base p base'] by auto

function quicksort :: "nat \<Rightarrow> nat \<Rightarrow> nat \<Rightarrow> cmp \<Rightarrow> elem list \<Rightarrow> elem list" where
  "quicksort low high sz compare base =
     (if low < high then
        let (p, base) = qs_partition low high sz compare base;
            base = (if p > 0 then quicksort low (p - 1) sz compare base else base)
        in quicksort (p + 1) high sz compare base
      else base)"
  by pat_completeness auto
termination
  by (relation "measure (\<lambda>(low, high, _). high - low)")
    (auto dest: quicksort_segments)

declare quicksort.simps [simp del]

definition qsort :: "elem list \<Rightarrow> nat \<Rightarrow> nat \<Rightarrow> cmp \<Rightarrow> elem list option" where
  "qsort base num sz compare =
     (if num \<le> length base then
        Some (if num > 1 then quicksort 0 (num - 1) sz compare base else base)
      else None)"

section \<open>Exchanging elements\<close>

definition elems :: "nat \<Rightarrow> elem list \<Rightarrow> bool" where
  "elems sz base \<longleftrightarrow> (\<forall>e \<in> set base. length e = sz)"

lemma elems_nth: "elems sz base \<Longrightarrow> k < length base \<Longrightarrow> length (base ! k) = sz"
  by (simp add: elems_def)

lemma mix_update:
  "k < length xs \<Longrightarrow> k < length ys \<Longrightarrow>
   (take k ys @ drop k xs)[k := ys ! k] = take (Suc k) ys @ drop (Suc k) xs"
  by (simp add: list_update_append take_Suc_conv_app_nth Cons_nth_drop_Suc [symmetric])

lemma swap_bytes_prefix:
  assumes "elems sz base" "a < length base" "b < length base" "a \<noteq> b" "k \<le> sz"
  shows "fold (swap_byte a b) [0..<k] base =
    base[a := take k (base ! b) @ drop k (base ! a), b := take k (base ! a) @ drop k (base ! b)]"
  using assms(5)
proof (induction k)
  case 0
  then show ?case by simp
next
  case (Suc k)
  let ?A = "base ! a" and ?B = "base ! b"
  let ?S = "base[a := take k ?B @ drop k ?A, b := take k ?A @ drop k ?B]"
  have len: "length ?A = sz" "length ?B = sz" using assms by (simp_all add: elems_nth)
  have "fold (swap_byte a b) [0..<Suc k] base = swap_byte a b k ?S"
    using Suc by simp
  also have "\<dots> = ?S[a := (take k ?B @ drop k ?A)[k := ?B ! k], b := (take k ?A @ drop k ?B)[k := ?A ! k]]"
    using assms len Suc.prems by (simp add: swap_byte_def Let_def nth_append)
  also have "\<dots> = base[a := take (Suc k) ?B @ drop (Suc k) ?A, b := take (Suc k) ?A @ drop (Suc k) ?B]"
    using assms(4) len Suc.prems
    by (simp add: mix_update list_update_swap [of b a])
  finally show ?case .
qed

lemma swap_byte_same: "swap_byte a a i base = base"
  by (simp add: swap_byte_def)

lemma swap_elements_swap:
  assumes "elems sz base" "a < length base" "b < length base"
  shows "swap_elements a b sz base = base[a := base ! b, b := base ! a]"
proof (cases "a = b")
  case True
  have "fold (swap_byte a a) xs base = base" for xs
    by (induction xs) (simp_all add: swap_byte_same)
  with True show ?thesis by (simp add: swap_elements_def)
next
  case False
  then show ?thesis
    using swap_bytes_prefix [OF assms False, of sz] assms by (simp add: swap_elements_def elems_nth)
qed

text \<open>Exchanges permute.\<close>

lemma swap_elements_mset:
  assumes "elems sz base" "a < length base" "b < length base"
  shows "mset (swap_elements a b sz base) = mset base" "elems sz (swap_elements a b sz base)"
    "length (swap_elements a b sz base) = length base"
proof -
  show m: "mset (swap_elements a b sz base) = mset base"
    using assms by (simp add: swap_elements_swap mset_swap)
  show "elems sz (swap_elements a b sz base)"
    using mset_eq_setD [OF m] assms(1) by (simp add: elems_def)
  show "length (swap_elements a b sz base) = length base"
    using assms by (simp add: swap_elements_swap)
qed


section \<open>Segments\<close>

text \<open>
  A rearrangement of the elements from \<open>low\<close> to \<open>high\<close>: what is outside stays where it is.
\<close>

definition rearranged :: "nat \<Rightarrow> nat \<Rightarrow> elem list \<Rightarrow> elem list \<Rightarrow> bool" where
  "rearranged low high base base' \<longleftrightarrow> length base' = length base \<and> mset base' = mset base \<and>
     (\<forall>k < length base. k < low \<or> high < k \<longrightarrow> base' ! k = base ! k)"

lemma rearranged_refl: "rearranged low high base base"
  by (simp add: rearranged_def)

lemma rearranged_trans:
  "rearranged low high xs ys \<Longrightarrow> rearranged low high ys zs \<Longrightarrow> rearranged low high xs zs"
  by (simp add: rearranged_def)

lemma rearranged_mono:
  "rearranged l h xs ys \<Longrightarrow> low \<le> l \<Longrightarrow> h \<le> high \<Longrightarrow> rearranged low high xs ys"
  by (auto simp: rearranged_def)

lemma rearranged_elems: "rearranged low high xs ys \<Longrightarrow> elems sz xs \<Longrightarrow> elems sz ys"
  unfolding rearranged_def elems_def by (metis mset_eq_setD)

lemma rearranged_swap:
  assumes "elems sz base" "low \<le> a" "a \<le> high" "low \<le> b" "b \<le> high" "high < length base"
  shows "rearranged low high base (swap_elements a b sz base)"
  using assms swap_elements_mset [of sz base a b] by (auto simp: rearranged_def swap_elements_swap)

text \<open>The elements inside are the same as before.\<close>

lemma rearranged_inside:
  assumes "rearranged low high xs ys" "low \<le> k" "k \<le> high" "high < length xs"
  shows "\<exists>m. low \<le> m \<and> m \<le> high \<and> ys ! k = xs ! m"
proof -
  have len: "length ys = length xs" and ms: "mset ys = mset xs"
    and out: "\<And>k. k < length xs \<Longrightarrow> k < low \<or> high < k \<Longrightarrow> ys ! k = xs ! k"
    using assms(1) unfolding rearranged_def by blast+
  let ?seg = "\<lambda>zs. drop low (take (Suc high) zs)"
  have split: "mset zs = mset (take low zs) + mset (?seg zs) + mset (drop (Suc high) zs)"
    if "length zs = length xs" for zs
  proof -
    have "zs = take low (take (Suc high) zs) @ ?seg zs @ drop (Suc high) zs"
      by (simp only: append_assoc [symmetric] append_take_drop_id)
    then have "mset zs = mset (take low (take (Suc high) zs) @ ?seg zs @ drop (Suc high) zs)"
      by (rule arg_cong)
    moreover have "min low (Suc high) = low" using assms(2,3) by simp
    ultimately show ?thesis by (simp only: mset_append take_take add.assoc)
  qed
  have "take low ys = take low xs"
    using assms(2-4) len by - (rule nth_equalityI, auto intro: out)
  moreover have "drop (Suc high) ys = drop (Suc high) xs"
    using assms(4) len by - (rule nth_equalityI, auto intro: out)
  ultimately have "mset (?seg ys) = mset (?seg xs)"
    using split [of xs] split [of ys] len ms by simp
  then have "set (?seg ys) = set (?seg xs)" by (rule mset_eq_setD)
  moreover have "ys ! k \<in> set (?seg ys)"
    unfolding in_set_conv_nth
    using assms(2-4) len by (intro exI [of _ "k - low"]) (simp add: nth_take)
  ultimately obtain i where "i < length (?seg xs)" "?seg xs ! i = ys ! k"
    by (metis in_set_conv_nth)
  then show ?thesis using assms(2-4) by (intro exI [of _ "low + i"]) (auto simp: nth_take)
qed

section \<open>Partition\<close>

text \<open>After \<open>j\<close> the small elements lie before \<open>i\<close> and the others from \<open>i\<close> to \<open>j\<close>.\<close>

lemma partition_loop:
  assumes "elems sz base" "high < length base" "low \<le> j" "j \<le> high"
    and "fold (partition_step high sz compare) [low..<j] (low, base) = (i, base')"
  shows "rearranged low (high - 1) base base' \<and> low \<le> i \<and> i \<le> j \<and>
    (\<forall>k. low \<le> k \<and> k < i \<longrightarrow> compare (base' ! k) (base ! high) < 0) \<and>
    (\<forall>k. i \<le> k \<and> k < j \<longrightarrow> \<not> compare (base' ! k) (base ! high) < 0)"
  using assms(3-5)
proof (induction j arbitrary: i base' rule: dec_induct)
  case base
  then show ?case by (simp add: rearranged_refl)
next
  case (step j)
  obtain i0 base0 where s0: "fold (partition_step high sz compare) [low..<j] (low, base) = (i0, base0)"
    by (cases "fold (partition_step high sz compare) [low..<j] (low, base)") auto
  have IH: "rearranged low (high - 1) base base0" "low \<le> i0" "i0 \<le> j"
      "\<forall>k. low \<le> k \<and> k < i0 \<longrightarrow> compare (base0 ! k) (base ! high) < 0"
      "\<forall>k. i0 \<le> k \<and> k < j \<longrightarrow> \<not> compare (base0 ! k) (base ! high) < 0"
    using step.IH [OF _ s0] step.prems by auto
  have el: "elems sz base0" using IH(1) assms(1) by (rule rearranged_elems)
  have len: "length base0 = length base" and pivot: "base0 ! high = base ! high"
    using IH(1) assms(2) step.prems by (auto simp: rearranged_def)
  from step.prems step.hyps s0 have st: "partition_step high sz compare j (i0, base0) = (i, base')" by simp
  show ?case
  proof (cases "compare (base0 ! j) (base ! high) < 0")
    case True
    with st pivot have i: "i = Suc i0" and b: "base' = swap_elements i0 j sz base0"
      by (simp_all add: partition_step_def)
    have "rearranged low (high - 1) base0 base'"
      unfolding b using el IH(2,3) step len assms(2) by (intro rearranged_swap) auto
    with IH(1) have "rearranged low (high - 1) base base'" by (rule rearranged_trans)
    moreover have "base' = base0[i0 := base0 ! j, j := base0 ! i0]"
      unfolding b using el IH(2,3) step.prems len assms(2) by (intro swap_elements_swap) simp_all
    ultimately show ?thesis
      using True IH(2-5) i step.prems len assms(2)
      by (auto simp: nth_list_update less_Suc_eq)
  next
    case False
    with st pivot have "i = i0" "base' = base0" by (simp_all add: partition_step_def)
    with False IH show ?thesis by (auto simp: less_Suc_eq)
  qed
qed

lemma qs_partition_correct:
  assumes "elems sz base" "high < length base" "low < high"
    and "qs_partition low high sz compare base = (p, base')"
  shows "rearranged low high base base'" "low \<le> p" "p \<le> high"
    "\<And>k. low \<le> k \<Longrightarrow> k < p \<Longrightarrow> compare (base' ! k) (base' ! p) < 0"
    "\<And>k. p < k \<Longrightarrow> k \<le> high \<Longrightarrow> \<not> compare (base' ! k) (base' ! p) < 0"
proof -
  obtain base0 where s0: "fold (partition_step high sz compare) [low..<high] (low, base) = (p, base0)"
      and b: "base' = swap_elements p high sz base0"
    using assms(4) by (auto simp: qs_partition_def split: prod.splits)
  have L: "rearranged low (high - 1) base base0" "low \<le> p" "p \<le> high"
      "\<forall>k. low \<le> k \<and> k < p \<longrightarrow> compare (base0 ! k) (base ! high) < 0"
      "\<forall>k. p \<le> k \<and> k < high \<longrightarrow> \<not> compare (base0 ! k) (base ! high) < 0"
    using partition_loop [OF assms(1,2) _ _ s0] assms(3) by auto
  have el: "elems sz base0" using L(1) assms(1) by (rule rearranged_elems)
  have len: "length base0 = length base" and pivot: "base0 ! high = base ! high"
    using L(1) assms(2,3) by (auto simp: rearranged_def)
  have sw: "base' = base0[p := base0 ! high, high := base0 ! p]"
    unfolding b using el L(3) len assms(2) by (intro swap_elements_swap) simp_all
  have "rearranged low high base base0" using L(1) by (rule rearranged_mono) simp_all
  moreover have "rearranged low high base0 base'"
    unfolding b using el L(2,3) len assms(2,3) by (intro rearranged_swap) auto
  ultimately show "rearranged low high base base'" by (rule rearranged_trans)
  show "low \<le> p" "p \<le> high" by fact+
  show "compare (base' ! k) (base' ! p) < 0" if "low \<le> k" "k < p" for k
    using that L(3,4) pivot len assms(2) by (cases "p = high") (auto simp: sw)
  show "\<not> compare (base' ! k) (base' ! p) < 0" if "p < k" "k \<le> high" for k
    using that L(3,5) pivot len assms(2) by (cases "k = high") (auto simp: sw)
qed


section \<open>The contract of comparisons\<close>

text \<open>What \<open>bsearch\<close> and \<open>qsort\<close> rely on: the signs describe a total preorder.\<close>

locale comparator =
  fixes compare :: "elem \<Rightarrow> elem \<Rightarrow> int"
  assumes flip: "compare a b < 0 \<longleftrightarrow> 0 < compare b a"
    and trans_le: "compare a b \<le> 0 \<Longrightarrow> compare b c \<le> 0 \<Longrightarrow> compare a c \<le> 0"
begin

lemma total: "\<not> compare a b < 0 \<longleftrightarrow> compare b a \<le> 0"
  by (simp add: flip not_less)

lemma refl_le: "compare a a \<le> 0"
  using flip [of a a] by linarith

text \<open>The segment from \<open>low\<close> to \<open>high\<close> is sorted.\<close>

definition seg_sorted :: "nat \<Rightarrow> nat \<Rightarrow> elem list \<Rightarrow> bool" where
  "seg_sorted low high xs \<longleftrightarrow> (\<forall>i j. low \<le> i \<and> i \<le> j \<and> j \<le> high \<longrightarrow> compare (xs ! i) (xs ! j) \<le> 0)"

lemma seg_sorted_single: "high \<le> low \<Longrightarrow> seg_sorted low high xs"
  unfolding seg_sorted_def by (metis refl_le le_antisym le_trans)

lemma seg_sorted_cong:
  assumes "seg_sorted low high xs" "\<And>k. low \<le> k \<Longrightarrow> k \<le> high \<Longrightarrow> ys ! k = xs ! k"
  shows "seg_sorted low high ys"
  unfolding seg_sorted_def
proof (intro allI impI)
  fix i j
  assume "low \<le> i \<and> i \<le> j \<and> j \<le> high"
  then have "ys ! i = xs ! i" "ys ! j = xs ! j" "compare (xs ! i) (xs ! j) \<le> 0"
    using assms by (simp_all add: seg_sorted_def)
  then show "compare (ys ! i) (ys ! j) \<le> 0" by simp
qed

text \<open>Two sorted segments around a pivot.\<close>

lemma seg_sorted_join:
  assumes "p = low \<or> seg_sorted low (p - 1) xs" "seg_sorted (p + 1) high xs"
    and "\<And>k. low \<le> k \<Longrightarrow> k < p \<Longrightarrow> compare (xs ! k) (xs ! p) \<le> 0"
    and "\<And>k. p < k \<Longrightarrow> k \<le> high \<Longrightarrow> compare (xs ! p) (xs ! k) \<le> 0"
    and "low \<le> p"
  shows "seg_sorted low high xs"
  unfolding seg_sorted_def
proof (intro allI impI)
  fix i j
  assume ij: "low \<le> i \<and> i \<le> j \<and> j \<le> high"
  consider "j < p" | "j = p" | "i < p" "p < j" | "i = p" | "p < i" using ij by linarith
  then show "compare (xs ! i) (xs ! j) \<le> 0"
  proof cases
    case 1
    then have "seg_sorted low (p - 1) xs" using assms(1) ij by auto
    with 1 ij show ?thesis by (simp add: seg_sorted_def)
  next
    case 2
    then show ?thesis using assms(3) ij refl_le by (cases "i = p") auto
  next
    case 3
    then show ?thesis using trans_le [OF assms(3) assms(4)] ij by simp
  next
    case 4
    then show ?thesis using assms(4) ij refl_le by (cases "j = p") auto
  next
    case 5
    then show ?thesis using assms(2) ij by (simp add: seg_sorted_def)
  qed
qed

text \<open>One round of the recursion.\<close>

lemma quicksort_step:
  assumes el: "elems sz base" and high: "high < length base" and lt: "low < high"
    and part: "qs_partition low high sz compare base = (p, base1)"
    and left: "base2 = base1 \<and> p = low \<or>
      0 < p \<and> rearranged low (p - 1) base1 base2 \<and> seg_sorted low (p - 1) base2"
    and right: "rearranged (p + 1) high base2 base3" "seg_sorted (p + 1) high base3"
  shows "rearranged low high base base3 \<and> seg_sorted low high base3"
proof -
  note P = qs_partition_correct [OF el high lt part]
  have r12: "rearranged low (p - 1) base1 base2" using left by (auto simp: rearranged_refl)
  have len: "length base1 = length base" "length base2 = length base" "length base3 = length base"
    using P(1) r12 right(1) by (simp_all add: rearranged_def)
  have r13: "rearranged low high base1 base3"
    using rearranged_trans [OF rearranged_mono [OF r12] rearranged_mono [OF right(1)]] P(2,3) by auto
  have below: "base3 ! k = base2 ! k" if "k \<le> p" for k
    using that right(1) P(3) high len by (auto simp: rearranged_def)
  have pivot: "base2 ! p = base1 ! p"
    using left r12 P(3) high len by (auto simp: rearranged_def)
  have above: "base2 ! k = base1 ! k" if "p < k" "k \<le> high" for k
    using that r12 high len by (auto simp: rearranged_def)
  have "seg_sorted low high base3"
  proof (rule seg_sorted_join [of p])
    show "p = low \<or> seg_sorted low (p - 1) base3"
    proof (cases "p = low")
      case False
      then have "seg_sorted low (p - 1) base2" "0 < p" using left P(2) by auto
      moreover have "base3 ! k = base2 ! k" if "k \<le> p - 1" for k using that below by simp
      ultimately show ?thesis by (metis seg_sorted_cong)
    qed simp
    show "compare (base3 ! k) (base3 ! p) \<le> 0" if "low \<le> k" "k < p" for k
    proof -
      have "k \<le> p - 1" "p - 1 < length base1" using that P(3) high len by simp_all
      from rearranged_inside [OF r12 that(1) this] obtain m where
        "m \<le> p - 1" "low \<le> m" "base2 ! k = base1 ! m" by blast
      then have "compare (base2 ! k) (base1 ! p) < 0" using P(4) [of m] that by simp
      then show ?thesis using that below pivot by simp
    qed
    show "compare (base3 ! p) (base3 ! k) \<le> 0" if "p < k" "k \<le> high" for k
    proof -
      have "p + 1 \<le> k" "high < length base2" using that high len by simp_all
      from rearranged_inside [OF right(1) this(1) that(2) this(2)] obtain m where
        "p + 1 \<le> m" "m \<le> high" "base3 ! k = base2 ! m" by blast
      then have "compare (base1 ! p) (base3 ! k) \<le> 0" using P(5) [of m] above total by simp
      then show ?thesis using below [of p] pivot by simp
    qed
  qed (use right P(2) in auto)
  with rearranged_trans [OF P(1) r13] show ?thesis by simp
qed

lemma quicksort_correct:
  assumes "elems sz base" "high < length base"
  shows "rearranged low high base (quicksort low high sz compare base) \<and>
    seg_sorted low high (quicksort low high sz compare base)"
  using assms
proof (induction "high - low" arbitrary: low high base rule: less_induct)
  case less
  show ?case
  proof (cases "low < high")
    case False
    then have "quicksort low high sz compare base = base" by (subst quicksort.simps) simp
    with False show ?thesis by (simp add: rearranged_refl seg_sorted_single)
  next
    case True
    obtain p base1 where part: "qs_partition low high sz compare base = (p, base1)"
      by (cases "qs_partition low high sz compare base") auto
    note P = qs_partition_correct [OF less.prems True part]
    define base2 where "base2 = (if p > 0 then quicksort low (p - 1) sz compare base1 else base1)"
    have eq: "quicksort low high sz compare base = quicksort (p + 1) high sz compare base2"
      using True part by (subst quicksort.simps) (simp add: base2_def)
    have el1: "elems sz base1" using P(1) less.prems(1) by (rule rearranged_elems)
    have len1: "length base1 = length base" using P(1) by (simp add: rearranged_def)
    have left: "0 < p \<Longrightarrow> rearranged low (p - 1) base1 base2 \<and> seg_sorted low (p - 1) base2"
      unfolding base2_def using less.hyps [of "p - 1" low base1] el1 len1 P(3) less.prems(2) True
      by simp
    then have el2: "elems sz base2" and len2: "length base2 = length base"
      using el1 len1 rearranged_elems [of low "p - 1" base1 base2 sz]
      by (cases "0 < p"; simp add: rearranged_def base2_def)+
    have "rearranged (p + 1) high base2 (quicksort (p + 1) high sz compare base2) \<and>
        seg_sorted (p + 1) high (quicksort (p + 1) high sz compare base2)"
      using less.hyps [of high "p + 1" base2] el2 len2 less.prems(2) P(2) True by simp
    moreover have "base2 = base1 \<and> p = low \<or>
        0 < p \<and> rearranged low (p - 1) base1 base2 \<and> seg_sorted low (p - 1) base2"
      using left P(2) by (cases "0 < p") (auto simp: base2_def)
    ultimately show ?thesis
      unfolding eq using quicksort_step [OF less.prems True part] by blast
  qed
qed

lemma qsort_correct:
  assumes "elems sz base" "num = length base"
  shows "\<exists>base'. qsort base num sz compare = Some base' \<and> mset base' = mset base \<and>
    sorted_wrt (\<lambda>a b. compare a b \<le> 0) base'"
proof (cases "num > 1")
  case True
  let ?b = "quicksort 0 (num - 1) sz compare base"
  have q: "rearranged 0 (num - 1) base ?b" "seg_sorted 0 (num - 1) ?b"
    using quicksort_correct [of sz base "num - 1" 0] assms True by auto
  then have "sorted_wrt (\<lambda>a b. compare a b \<le> 0) ?b"
    using assms(2) by (auto simp: sorted_wrt_iff_nth_less seg_sorted_def rearranged_def)
  with q True assms(2) show ?thesis by (simp add: qsort_def rearranged_def)
next
  case False
  then have "length base = 0 \<or> length base = 1" using assms(2) by linarith
  then have "sorted_wrt (\<lambda>a b. compare a b \<le> 0) base"
    by (auto simp: length_Suc_conv)
  with False assms(2) show ?thesis by (simp add: qsort_def)
qed

section \<open>Binary search\<close>

lemma bsearch_loop_correct:
  assumes "sorted_wrt (\<lambda>a b. compare a b \<le> 0) base" "high \<le> length base"
    and "\<And>k. k < length base \<Longrightarrow> compare key (base ! k) = 0 \<Longrightarrow> low \<le> k \<and> k < high"
  shows "(case bsearch_loop key base compare low high of
      Some i \<Rightarrow> i < length base \<and> compare key (base ! i) = 0
    | None \<Rightarrow> \<forall>k < length base. compare key (base ! k) \<noteq> 0)"
  using assms(2,3)
proof (induction "high - low" arbitrary: low high rule: less_induct)
  case less
  show ?case
  proof (cases "low < high")
    case False
    then show ?thesis using less.prems(2) by (subst bsearch_loop.simps) (auto dest: le_less_trans)
  next
    case True
    define mid where "mid = low + (high - low) div 2"
    have mid: "low \<le> mid" "mid < high" using True by (auto simp: mid_def)
    have nth_le: "compare (base ! i) (base ! j) \<le> 0" if "i \<le> j" "j < length base" for i j
      using that assms(1) refl_le by (cases "i = j") (auto simp: sorted_wrt_iff_nth_less)
    have eq: "bsearch_loop key base compare low high =
        (if compare key (base ! mid) = 0 then Some mid
         else if compare key (base ! mid) < 0 then bsearch_loop key base compare low mid
         else bsearch_loop key base compare (mid + 1) high)"
      using True by (subst bsearch_loop.simps) (simp add: Let_def mid_def)
    consider "compare key (base ! mid) = 0" | "compare key (base ! mid) < 0" | "0 < compare key (base ! mid)"
      by linarith
    then show ?thesis
    proof cases
      case 1
      then show ?thesis using eq mid less.prems(1) by simp
    next
      case 2
      have "k < mid" if "k < length base" "compare key (base ! k) = 0" for k
      proof (rule ccontr)
        assume "\<not> k < mid"
        with that have "compare (base ! mid) (base ! k) \<le> 0" by (intro nth_le) simp_all
        moreover have "compare (base ! k) key \<le> 0" using that(2) total [of key "base ! k"] by simp
        ultimately have "compare (base ! mid) key \<le> 0" by (rule trans_le)
        with 2 show False by (simp add: flip)
      qed
      then show ?thesis
        using eq 2 less.hyps [of mid low] less.prems mid by auto
    next
      case 3
      have "mid < k" if "k < length base" "compare key (base ! k) = 0" for k
      proof (rule ccontr)
        assume "\<not> mid < k"
        with mid less.prems(1) have "compare (base ! k) (base ! mid) \<le> 0" by (intro nth_le) simp_all
        with that(2) have "compare key (base ! mid) \<le> 0" using trans_le [of key "base ! k"] by simp
        with 3 show False by simp
      qed
      then show ?thesis
        using eq 3 less.hyps [of high "mid + 1"] less.prems mid by (auto simp: Suc_le_eq)
    qed
  qed
qed

end


section \<open>Comparing with \<open>strcmp\<close>\<close>

text \<open>
  The comparison function that sorts an array of strings: \<open>strcmp\<close>, run on a memory that
  holds the two elements, each with a zero behind it.
\<close>

definition compare_str :: cmp where
  "compare_str a b = the (strcmp (a @ 0 # b @ [0]) 0 (length a + 1))"

text \<open>The string in an element ends at its first zero.\<close>

abbreviation str :: "elem \<Rightarrow> u8 list" where
  "str a \<equiv> takeWhile (\<lambda>c. c \<noteq> 0) a"

lemma cstr_takeWhile: "cstr (pre @ a @ 0 # rest) (length pre) (str a)"
proof (induction a arbitrary: pre)
  case Nil
  then show ?case by (simp add: cstr_Nil rd_def nth_append)
next
  case (Cons c a)
  from Cons [of "pre @ [c]"] show ?case
    by (auto simp: cstr_Nil cstr_Cons rd_def nth_append)
qed

lemma compare_str_bytes: "compare_str a b = bytes_cmp (str a) (str b)"
proof -
  have "cstr (a @ 0 # b @ [0]) 0 (str a)" using cstr_takeWhile [of "[]" a] by simp
  moreover have "cstr (a @ 0 # b @ [0]) (length a + 1) (str b)"
    using cstr_takeWhile [of "a @ [0]" b "[]"] by simp
  ultimately show ?thesis by (simp add: compare_str_def strcmp_cstr)
qed

lemma bytes_cmp_flip: "bytes_cmp s t = - bytes_cmp t s"
  by (induction s t rule: bytes_cmp.induct) auto

lemma bytes_cmp_trans:
  "0 \<notin> set s \<Longrightarrow> 0 \<notin> set t \<Longrightarrow> bytes_cmp s t \<le> 0 \<Longrightarrow> bytes_cmp t u \<le> 0 \<Longrightarrow> bytes_cmp s u \<le> 0"
proof (induction s t arbitrary: u rule: bytes_cmp.induct)
  case 1
  then show ?case by simp
next
  case (2 b t)
  then show ?case by (cases u) auto
next
  case (3 a s)
  then have "uint a = 0" using uint_ge_0 [of a] by simp
  then show ?case using 3 by (simp add: unsigned_eq_0_iff)
next
  case (4 a s b t)
  show ?case
  proof (cases u)
    case Nil
    with 4 have "uint b = 0" using uint_ge_0 [of b] by simp
    with 4 show ?thesis by (simp add: unsigned_eq_0_iff)
  next
    case (Cons c v)
    with 4 show ?thesis by (auto simp: word_uint_eq_iff split: if_splits)
  qed
qed

interpretation by_strcmp: comparator compare_str
proof
  show "compare_str a b < 0 \<longleftrightarrow> 0 < compare_str b a" for a b
    using bytes_cmp_flip [of "str a" "str b"] by (simp add: compare_str_bytes)
  have "0 \<notin> set (str b)" for b :: elem by (auto dest: set_takeWhileD)
  then show "compare_str a b \<le> 0 \<Longrightarrow> compare_str b c \<le> 0 \<Longrightarrow> compare_str a c \<le> 0" for a b c
    unfolding compare_str_bytes by (blast intro: bytes_cmp_trans)
qed

section \<open>Properties\<close>

text \<open>C13.  \<open>qsort\<close> sorts: for every array of elements of one size and every comparison whose signs
  describe a total preorder, it returns a permutation of the array in which every element
  compares less than or equal to all later ones.\<close>

theorem qsort_sorts:
  assumes "\<forall>e \<in> set base. length e = sz"
    and "\<And>a b. compare a b < 0 \<longleftrightarrow> 0 < compare b a"
    and "\<And>a b c. compare a b \<le> 0 \<Longrightarrow> compare b c \<le> 0 \<Longrightarrow> compare a c \<le> 0"
  shows "\<exists>base'. qsort base (length base) sz compare = Some base' \<and> mset base' = mset base \<and>
    sorted_wrt (\<lambda>a b. compare a b \<le> 0) base'"
proof -
  have "comparator compare" using assms(2,3) by unfold_locales blast+
  from comparator.qsort_correct [OF this] assms(1) show ?thesis by (simp add: elems_def)
qed

lemma qsort_sorts_witness:
  "\<exists>base'. qsort [[98, 0], [97, 99], [97, 0]] (length [[98, 0], [97, 99], [97, 0 :: u8]]) 2 compare_str = Some base' \<and>
    mset base' = mset [[98, 0], [97, 99], [97, 0]] \<and> sorted_wrt (\<lambda>a b. compare_str a b \<le> 0) base'"
  by (rule qsort_sorts) (use by_strcmp.flip by_strcmp.trans_le in auto)

text \<open>Sorting strings with \<open>strcmp\<close> and then searching with it: \<open>bsearch\<close> in the sorted array
  finds an element equal to the key exactly if the unsorted array had one.\<close>

theorem bsearch_after_qsort:
  assumes "\<forall>e \<in> set base. length e = sz"
  shows "\<exists>base' r. qsort base (length base) sz compare_str = Some base' \<and>
    bsearch key base' (length base) compare_str = Some r \<and>
    (case r of Some i \<Rightarrow> i < length base \<and> str (base' ! i) = str key
     | None \<Rightarrow> \<forall>e \<in> set base. str e \<noteq> str key)"
proof -
  obtain base' where b: "qsort base (length base) sz compare_str = Some base'" "mset base' = mset base"
      "sorted_wrt (\<lambda>a b. compare_str a b \<le> 0) base'"
    using by_strcmp.qsort_correct [of sz base] assms by (auto simp: elems_def)
  have len: "length base' = length base" and set: "set base' = set base"
    using mset_eq_length [OF b(2)] mset_eq_setD [OF b(2)] by simp_all
  have eq: "compare_str key e = 0 \<longleftrightarrow> str e = str key" for e
    unfolding compare_str_bytes by (rule bytes_cmp_eq) (auto dest: set_takeWhileD)
  have "\<exists>r. bsearch key base' (length base) compare_str = Some r \<and>
      r = bsearch_loop key base' compare_str 0 (length base')"
    using len by (simp add: bsearch_def)
  with by_strcmp.bsearch_loop_correct [OF b(3) order_refl, of key 0] b(1) show ?thesis
    by (auto simp: eq len set [symmetric] in_set_conv_nth split: option.splits)
qed

lemma bsearch_after_qsort_witness:
  "\<exists>base' r. qsort [[98], [97], [99]] (length [[98], [97], [99 :: u8]]) 1 compare_str = Some base' \<and>
    bsearch [99, 0, 7] base' (length [[98], [97], [99 :: u8]]) compare_str = Some r \<and>
    (case r of Some i \<Rightarrow> i < length [[98], [97], [99 :: u8]] \<and> str (base' ! i) = str [99, 0, 7]
     | None \<Rightarrow> \<forall>e \<in> set [[98], [97], [99]]. str e \<noteq> str [99, 0, 7])"
  by (rule bsearch_after_qsort) simp

end
