(* ===== verification/Sha2.thy ===== *)
theory Sha2
  imports Prelude
begin

text \<open>
  The hash function of \<open>usr/drivers/sha2.c\<close> and \<open>usr/include/sha2.h\<close>: the context that is fed
  byte by byte, and a one-shot specification (pad the message, compress its blocks in order)
  that it implements.  Writing beyond the 64 bytes of the buffer has no result.
\<close>

section \<open>Compression\<close>

definition sha_k :: "u32 list" where
  "sha_k = concat
    [[0x428a2f98, 0x71374491, 0xb5c0fbcf, 0xe9b5dba5],
     [0x3956c25b, 0x59f111f1, 0x923f82a4, 0xab1c5ed5],
     [0xd807aa98, 0x12835b01, 0x243185be, 0x550c7dc3],
     [0x72be5d74, 0x80deb1fe, 0x9bdc06a7, 0xc19bf174],
     [0xe49b69c1, 0xefbe4786, 0x0fc19dc6, 0x240ca1cc],
     [0x2de92c6f, 0x4a7484aa, 0x5cb0a9dc, 0x76f988da],
     [0x983e5152, 0xa831c66d, 0xb00327c8, 0xbf597fc7],
     [0xc6e00bf3, 0xd5a79147, 0x06ca6351, 0x14292967],
     [0x27b70a85, 0x2e1b2138, 0x4d2c6dfc, 0x53380d13],
     [0x650a7354, 0x766a0abb, 0x81c2c92e, 0x92722c85],
     [0xa2bfe8a1, 0xa81a664b, 0xc24b8b70, 0xc76c51a3],
     [0xd192e819, 0xd6990624, 0xf40e3585, 0x106aa070],
     [0x19a4c116, 0x1e376c08, 0x2748774c, 0x34b0bcb5],
     [0x391c0cb3, 0x4ed8aa4a, 0x5b9cca4f, 0x682e6ff3],
     [0x748f82ee, 0x78a5636f, 0x84c87814, 0x8cc70208],
     [0x90befffa, 0xa4506ceb, 0xbef9a3f7, 0xc67178f2]]"

definition ROTRIGHT :: "u32 \<Rightarrow> nat \<Rightarrow> u32" where
  "ROTRIGHT w b = drop_bit b w OR push_bit (32 - b) w"

definition CH :: "u32 \<Rightarrow> u32 \<Rightarrow> u32 \<Rightarrow> u32" where
  "CH x y z = (x AND y) XOR (NOT x AND z)"

definition MAJ :: "u32 \<Rightarrow> u32 \<Rightarrow> u32 \<Rightarrow> u32" where
  "MAJ x y z = (x AND y) XOR (x AND z) XOR (y AND z)"

definition EP0 :: "u32 \<Rightarrow> u32" where "EP0 x = ROTRIGHT x 2 XOR ROTRIGHT x 13 XOR ROTRIGHT x 22"
definition EP1 :: "u32 \<Rightarrow> u32" where "EP1 x = ROTRIGHT x 6 XOR ROTRIGHT x 11 XOR ROTRIGHT x 25"
definition SIG0 :: "u32 \<Rightarrow> u32" where "SIG0 x = ROTRIGHT x 7 XOR ROTRIGHT x 18 XOR drop_bit 3 x"
definition SIG1 :: "u32 \<Rightarrow> u32" where "SIG1 x = ROTRIGHT x 17 XOR ROTRIGHT x 19 XOR drop_bit 10 x"

text \<open>The message schedule of the 64 bytes of a block.\<close>

definition schedule :: "u8 list \<Rightarrow> u32 list" where
  "schedule data =
     fold (\<lambda>i m. m @ [SIG1 (m ! (i - 2)) + m ! (i - 7) + SIG0 (m ! (i - 15)) + m ! (i - 16)]) [16..<64]
       (map (\<lambda>i. push_bit 24 (ucast (data ! (i * 4))) OR push_bit 16 (ucast (data ! (i * 4 + 1))) OR
                 push_bit 8 (ucast (data ! (i * 4 + 2))) OR ucast (data ! (i * 4 + 3))) [0..<16])"

text \<open>The working variables \<open>a, \<dots>, h\<close>.\<close>

type_synonym vars = "u32 \<times> u32 \<times> u32 \<times> u32 \<times> u32 \<times> u32 \<times> u32 \<times> u32"

definition sha_round :: "u32 \<Rightarrow> u32 \<Rightarrow> vars \<Rightarrow> vars" where
  "sha_round k m v =
     (case v of (a, b, c, d, e, f, g, h) \<Rightarrow>
        let t1 = h + EP1 e + CH e f g + k + m;
            t2 = EP0 a + MAJ a b c
        in (t1 + t2, a, b, c, d + t1, e, f, g))"

definition sha256_transform :: "u32 list \<Rightarrow> u8 list \<Rightarrow> u32 list" where
  "sha256_transform s data =
     (let m = schedule data in
      case fold (\<lambda>i. sha_round (sha_k ! i) (m ! i)) [0..<64]
        (s ! 0, s ! 1, s ! 2, s ! 3, s ! 4, s ! 5, s ! 6, s ! 7) of
        (a, b, c, d, e, f, g, h) \<Rightarrow>
          [s ! 0 + a, s ! 1 + b, s ! 2 + c, s ! 3 + d, s ! 4 + e, s ! 5 + f, s ! 6 + g, s ! 7 + h])"

section \<open>The context\<close>

record sha256_ctx =
  sha_state :: "u32 list"
  sha_bitlen :: u64
  sha_data :: "u8 list"
  sha_datalen :: nat

definition sha_iv :: "u32 list" where
  "sha_iv = [0x6a09e667, 0xbb67ae85, 0x3c6ef372, 0xa54ff53a, 0x510e527f, 0x9b05688c, 0x1f83d9ab, 0x5be0cd19]"

text \<open>The buffer keeps whatever was on the stack.\<close>

definition sha256_init :: "sha256_ctx \<Rightarrow> sha256_ctx" where
  "sha256_init ctx = ctx\<lparr>sha_datalen := 0, sha_bitlen := 0, sha_state := sha_iv\<rparr>"

definition sha256_update_byte :: "u8 \<Rightarrow> sha256_ctx \<Rightarrow> sha256_ctx option" where
  "sha256_update_byte b ctx =
     do { data \<leftarrow> wr (sha_data ctx) (sha_datalen ctx) b;
          let ctx = ctx\<lparr>sha_data := data, sha_datalen := sha_datalen ctx + 1\<rparr>
          in Some (if sha_datalen ctx = 64 then
                     ctx\<lparr>sha_state := sha256_transform (sha_state ctx) (sha_data ctx),
                         sha_bitlen := sha_bitlen ctx + 512, sha_datalen := 0\<rparr>
                   else ctx) }"

definition sha256_update :: "u8 list \<Rightarrow> sha256_ctx \<Rightarrow> sha256_ctx option" where
  "sha256_update data ctx = for_each sha256_update_byte data ctx"

text \<open>Zeros from \<open>i\<close> up to \<open>n\<close>.\<close>

definition zero_fill :: "nat \<Rightarrow> nat \<Rightarrow> u8 list \<Rightarrow> u8 list option" where
  "zero_fill i n data = for_each (\<lambda>j data. wr data (i + j) 0) [0..<n - i] data"

definition be_length :: "u64 \<Rightarrow> u8 list \<Rightarrow> u8 list option" where
  "be_length bitlen data = for_each (\<lambda>j data. wr data (63 - j) (ucast (drop_bit (8 * j) bitlen))) [0..<8] data"

definition sha_digest :: "u32 list \<Rightarrow> u8 list" where
  "sha_digest s =
     concat (map (\<lambda>i. [ucast (drop_bit 24 (s ! i)), ucast (drop_bit 16 (s ! i)),
                        ucast (drop_bit 8 (s ! i)), ucast (s ! i)]) [0..<8])"

definition sha256_final :: "sha256_ctx \<Rightarrow> (sha256_ctx \<times> u8 list) option" where
  "sha256_final ctx =
     do { data \<leftarrow> wr (sha_data ctx) (sha_datalen ctx) 0x80;
          ctx \<leftarrow> (if sha_datalen ctx < 56 then
                   do { data \<leftarrow> zero_fill (sha_datalen ctx + 1) 56 data; Some (ctx\<lparr>sha_data := data\<rparr>) }
                 else
                   do { data \<leftarrow> zero_fill (sha_datalen ctx + 1) 64 data;
                        let s = sha256_transform (sha_state ctx) data
                        in do { data \<leftarrow> zero_fill 0 56 data;
                                Some (ctx\<lparr>sha_state := s, sha_data := data\<rparr>) } });
          let ctx = ctx\<lparr>sha_bitlen := sha_bitlen ctx + of_nat (sha_datalen ctx * 8)\<rparr>
          in do { data \<leftarrow> be_length (sha_bitlen ctx) (sha_data ctx);
                  let ctx = ctx\<lparr>sha_data := data, sha_state := sha256_transform (sha_state ctx) data\<rparr>
                  in Some (ctx, sha_digest (sha_state ctx)) } }"

definition sha256 :: "sha256_ctx \<Rightarrow> u8 list \<Rightarrow> u8 list option" where
  "sha256 stack data =
     do { ctx \<leftarrow> sha256_update data (sha256_init stack); map_option snd (sha256_final ctx) }"

section \<open>Specification\<close>

text \<open>The blocks of 64 bytes of a message, the padding, and the chain of compressions.\<close>

definition blocks :: "u8 list \<Rightarrow> u8 list list" where
  "blocks xs = map (\<lambda>i. take 64 (drop (64 * i) xs)) [0..<length xs div 64]"

definition be64 :: "u64 \<Rightarrow> u8 list" where
  "be64 w = map (\<lambda>j. ucast (drop_bit (8 * (7 - j)) w)) [0..<8]"

definition pad :: "u8 list \<Rightarrow> u8 list" where
  "pad xs = xs @ [0x80] @ replicate ((119 - length xs mod 64) mod 64) 0 @ be64 (of_nat (8 * length xs))"

definition chain :: "u8 list list \<Rightarrow> u32 list" where
  "chain bs = fold (\<lambda>b s. sha256_transform s b) bs sha_iv"

definition sha256_spec :: "u8 list \<Rightarrow> u8 list" where
  "sha256_spec xs = sha_digest (chain (blocks (pad xs)))"

lemma length_transform [simp]: "length (sha256_transform s b) = 8"
  by (simp add: sha256_transform_def Let_def split: prod.splits)

lemma blocks_short: "length xs < 64 \<Longrightarrow> blocks xs = []"
  by (simp add: blocks_def)

lemma blocks_one: "length xs = 64 \<Longrightarrow> blocks xs = [xs]"
  by (simp add: blocks_def)

lemma blocks_append:
  assumes "64 dvd length xs"
  shows "blocks (xs @ ys) = blocks xs @ blocks ys"
proof -
  obtain q where q: "length xs = 64 * q" using assms by (auto elim: dvdE)
  have split: "[0..<q + n] = [0..<q] @ map (\<lambda>i. i + q) [0..<n]" for n
    using upt_add_eq_append [of 0 q n] map_add_upt [of q n] by (simp add: add.commute)
  have "(64 * q + length ys) div 64 = q + length ys div 64" by simp
  then have "blocks (xs @ ys) = map (\<lambda>i. take 64 (drop (64 * i) (xs @ ys))) [0..<q] @
      map (\<lambda>i. take 64 (drop (64 * (i + q)) (xs @ ys))) [0..<length ys div 64]"
    unfolding blocks_def length_append q by (simp only: split map_append map_map o_def)
  moreover have "map (\<lambda>i. take 64 (drop (64 * i) (xs @ ys))) [0..<q] =
      map (\<lambda>i. take 64 (drop (64 * i) xs)) [0..<q]"
    using q by (intro map_cong) auto
  ultimately show ?thesis using q by (simp add: blocks_def algebra_simps)
qed

text \<open>The full blocks and the rest.\<close>

lemma blocks_take: "blocks (take (64 * (length xs div 64)) xs) = blocks xs"
  unfolding blocks_def by (auto simp: take_drop intro!: map_cong)


lemma chain_append: "chain (bs @ cs) = fold (\<lambda>b s. sha256_transform s b) cs (chain bs)"
  by (simp add: chain_def)

lemma chain_snoc: "chain (bs @ [b]) = sha256_transform (chain bs) b"
  by (simp add: chain_def)

section \<open>Feeding the context\<close>

text \<open>What the context holds after the bytes \<open>xs\<close>.\<close>

definition absorbed :: "u8 list \<Rightarrow> sha256_ctx \<Rightarrow> bool" where
  "absorbed xs ctx \<longleftrightarrow> length (sha_data ctx) = 64 \<and> sha_datalen ctx = length xs mod 64 \<and>
     sha_state ctx = chain (blocks xs) \<and> sha_bitlen ctx = of_nat (512 * (length xs div 64)) \<and>
     take (sha_datalen ctx) (sha_data ctx) = drop (64 * (length xs div 64)) xs"

lemma absorbed_init: "length (sha_data stack) = 64 \<Longrightarrow> absorbed [] (sha256_init stack)"
  by (simp add: absorbed_def sha256_init_def blocks_def chain_def)

lemma absorbed_byte:
  assumes "absorbed xs ctx"
  shows "\<exists>ctx'. sha256_update_byte b ctx = Some ctx' \<and> absorbed (xs @ [b]) ctx'"
proof -
  let ?q = "length xs div 64" and ?d = "sha_datalen ctx"
  let ?data = "(sha_data ctx)[?d := b]"
  have A: "length (sha_data ctx) = 64" "?d = length xs mod 64" "sha_state ctx = chain (blocks xs)"
      "sha_bitlen ctx = of_nat (512 * ?q)" "take ?d (sha_data ctx) = drop (64 * ?q) xs"
    using assms unfolding absorbed_def by blast+
  have d: "?d < 64" by (simp add: A(2))
  have len: "length xs = 64 * ?q + ?d" by (simp add: A(2))
  have new: "take (?d + 1) ?data = drop (64 * ?q) (xs @ [b])"
    using A(1,5) d len by (simp add: take_Suc_conv_app_nth)
  have "xs @ [b] = take (64 * ?q) xs @ drop (64 * ?q) (xs @ [b])" using len by simp
  then have bl: "blocks (xs @ [b]) = blocks xs @ blocks (drop (64 * ?q) (xs @ [b]))"
    using blocks_append [of "take (64 * ?q) xs" "drop (64 * ?q) (xs @ [b])"] blocks_take [of xs]
    by (metis dvd_triv_left length_take min.absorb2 times_div_less_eq_dividend)
  show ?thesis
  proof (cases "?d + 1 = 64")
    case True
    then have "?data = drop (64 * ?q) (xs @ [b])" using new A(1) by simp
    moreover have "length ?data = 64" using A(1) by simp
    ultimately have "blocks (xs @ [b]) = blocks xs @ [?data]" using bl by (simp add: blocks_one)
    moreover have l: "Suc (length xs) = 64 * (?q + 1)" using len True by simp
    then have "Suc (length xs) div 64 = ?q + 1" "Suc (length xs) mod 64 = 0"
      unfolding l by (simp_all only: nonzero_mult_div_cancel_left mod_mult_self1_is_0 zero_neq_numeral not_False_eq_True)
    ultimately show ?thesis
      using True A d by (auto simp: sha256_update_byte_def absorbed_def wr_in chain_snoc Let_def algebra_simps)
  next
    case False
    then have "length (drop (64 * ?q) (xs @ [b])) < 64" using d len by simp
    then have "blocks (xs @ [b]) = blocks xs" using bl by (simp add: blocks_short)
    moreover have l: "Suc (length xs) = 64 * ?q + Suc ?d" using len by simp
    have "Suc ?d < 64" using False d by simp
    then have "Suc (length xs) div 64 = ?q" "Suc (length xs) mod 64 = Suc ?d"
      unfolding l by (simp_all only: mod_mult_self4 mod_less div_mult_self4 div_less add_0_right
          zero_neq_numeral not_False_eq_True)
    ultimately show ?thesis
      using False A d new by (auto simp: sha256_update_byte_def absorbed_def wr_in Let_def)
  qed
qed

lemma absorbed_update:
  "absorbed xs ctx \<Longrightarrow> \<exists>ctx'. sha256_update ys ctx = Some ctx' \<and> absorbed (xs @ ys) ctx'"
proof (induction ys arbitrary: xs ctx)
  case Nil
  then show ?case by (simp add: sha256_update_def)
next
  case (Cons y ys)
  from absorbed_byte [OF Cons.prems, of y] obtain c where
    "sha256_update_byte y ctx = Some c" "absorbed (xs @ [y]) c" by auto
  with Cons.IH [of "xs @ [y]" c] show ?case by (simp add: sha256_update_def)
qed

section \<open>The padding\<close>

lemma zero_fill_eq:
  assumes "i \<le> n" "n \<le> length data"
  shows "zero_fill i n data = Some (take i data @ replicate (n - i) 0 @ drop n data)"
proof -
  have "zero_fill i n data = Some (update_range i (n - i) (\<lambda>_ _. 0) data)"
    unfolding zero_fill_def using assms by (intro for_each_update_range) (simp_all add: wr_in)
  also have "update_range i (n - i) (\<lambda>_ _. 0) data = take i data @ replicate (n - i) 0 @ drop n data"
    using assms by (intro nth_equalityI) (auto simp: nth_update_range nth_append)
  finally show ?thesis .
qed

lemma be_length_eq:
  assumes "length data = 64"
  shows "be_length w data = Some (take 56 data @ be64 w)"
proof -
  have "[0..<8] = [0, 1, 2, 3, 4, 5, 6, 7 :: nat]" by (simp add: upt_rec numeral_eq_Suc)
  then have "be_length w data = Some (data[63 := ucast w, 62 := ucast (drop_bit 8 w),
      61 := ucast (drop_bit 16 w), 60 := ucast (drop_bit 24 w), 59 := ucast (drop_bit 32 w),
      58 := ucast (drop_bit 40 w), 57 := ucast (drop_bit 48 w), 56 := ucast (drop_bit 56 w)])"
    using assms by (simp add: be_length_def wr_in)
  also have "\<dots> = Some (take 56 data @ be64 w)"
  proof -
    have "k = 56 \<or> k = 57 \<or> k = 58 \<or> k = 59 \<or> k = 60 \<or> k = 61 \<or> k = 62 \<or> k = 63"
      if "k < 64" "\<not> k < 56" for k :: nat using that by linarith
    then show ?thesis
      using assms by (intro arg_cong [of _ _ Some] nth_equalityI) (auto simp: nth_append nth_list_update be64_def)
  qed
  finally show ?thesis .
qed

text \<open>The last one or two blocks.\<close>

lemma absorbed_final:
  assumes "absorbed xs ctx"
  shows "\<exists>ctx'. sha256_final ctx = Some (ctx', sha256_spec xs)"
proof -
  let ?q = "length xs div 64" and ?d = "sha_datalen ctx"
  let ?rest = "drop (64 * ?q) xs" and ?len = "be64 (of_nat (8 * length xs))"
  have A: "length (sha_data ctx) = 64" "?d = length xs mod 64" "sha_state ctx = chain (blocks xs)"
      "sha_bitlen ctx = of_nat (512 * ?q)" "take ?d (sha_data ctx) = ?rest"
    using assms unfolding absorbed_def by blast+
  have d: "?d < 64" by (simp add: A(2))
  have len: "length xs = 64 * ?q + ?d" by (simp add: A(2))
  have bits: "sha_bitlen ctx + of_nat (?d * 8) = of_nat (8 * length xs)"
    unfolding A(4) of_nat_add [symmetric] by (subst (2) len) (simp add: algebra_simps)
  have b64: "length (be64 w) = 8" for w by (simp add: be64_def)
  define z where "z = (119 - ?d) mod 64"
  define suffix where "suffix = ?rest @ [0x80] @ replicate z 0 @ ?len"
  have "pad xs = take (64 * ?q) xs @ suffix"
    by (simp add: pad_def suffix_def z_def A(2))
  then have pad: "blocks (pad xs) = blocks xs @ blocks suffix"
    using blocks_append [of "take (64 * ?q) xs" suffix] blocks_take [of xs]
    by (metis dvd_triv_left length_take min.absorb2 times_div_less_eq_dividend)
  have tk: "take (?d + 1) ((sha_data ctx)[?d := 0x80]) = ?rest @ [0x80]"
    using A(1,5) d by (simp add: take_Suc_conv_app_nth)
  show ?thesis
  proof (cases "?d < 56")
    case True
    then have z: "z = 55 - ?d" by (simp add: z_def mod_if)
    have e: "56 - ?d = Suc (55 - ?d)" using True by simp
    have rl: "length ?rest = ?d" using len by simp
    let ?data = "(?rest @ [0x80]) @ replicate (55 - ?d) 0 @ drop 56 (sha_data ctx)"
    have "zero_fill (?d + 1) 56 ((sha_data ctx)[?d := 0x80]) = Some ?data"
      using True A(1) tk by (subst zero_fill_eq) (simp_all add: drop_update_swap)
    moreover have "length ?data = 64" using True A(1) rl by simp
    moreover have "take 56 ?data @ ?len = suffix"
      unfolding take_append append_assoc rl e suffix_def z using True rl by (simp del: length_drop)
    moreover have "length suffix = 64" using True len by (simp add: suffix_def z b64)
    ultimately show ?thesis
      using True A d pad bits
      by (simp add: sha256_final_def wr_in Let_def be_length_eq sha256_spec_def chain_snoc blocks_one)
  next
    case False
    then have z: "z = (63 - ?d) + 56" using d by (simp add: z_def mod_if)
    let ?data = "(?rest @ [0x80]) @ replicate (63 - ?d) 0"
    have l: "length ?data = 64" using False d len by simp
    have "zero_fill (?d + 1) 64 ((sha_data ctx)[?d := 0x80]) = Some ?data"
      using False d A(1) tk by (subst zero_fill_eq) simp_all
    moreover have "zero_fill 0 56 ?data = Some (replicate 56 0 @ drop 56 ?data)"
      using l by (subst zero_fill_eq) simp_all
    moreover have "be_length w (replicate 56 0 @ drop 56 ?data) = Some (replicate 56 0 @ be64 w)" for w
      using l by (subst be_length_eq) simp_all
    moreover have "suffix = ?data @ (replicate 56 0 @ ?len)"
      unfolding suffix_def z by (simp add: replicate_add)
    then have "blocks suffix = [?data, replicate 56 0 @ ?len]"
      using blocks_append [of ?data] l by (simp add: blocks_one b64 del: append_assoc append.simps)
    ultimately show ?thesis
      using False A d pad bits chain_append [of "blocks xs"]
      by (simp add: sha256_final_def wr_in Let_def sha256_spec_def del: append_assoc append.simps replicate.simps)
  qed
qed

section \<open>Properties\<close>

text \<open>C14.  The streaming code computes the hash of its specification: for every message, split
  into two calls of \<open>sha256_update\<close> in any way and fed to a context with arbitrary old
  contents, no byte is written outside the buffer, and the digest is that of padding the whole
  message and compressing its blocks in order.\<close>

theorem sha256_streaming:
  assumes "length (sha_data stack) = 64"
  shows "do { ctx \<leftarrow> sha256_update xs (sha256_init stack); ctx \<leftarrow> sha256_update ys ctx;
              map_option snd (sha256_final ctx) } = Some (sha256_spec (xs @ ys))"
proof -
  obtain c1 where c1: "sha256_update xs (sha256_init stack) = Some c1" "absorbed xs c1"
    using absorbed_update [OF absorbed_init [OF assms], of xs] by auto
  obtain c2 where c2: "sha256_update ys c1 = Some c2" "absorbed (xs @ ys) c2"
    using absorbed_update [OF c1(2), of ys] by auto
  from absorbed_final [OF c2(2)] obtain c3 where "sha256_final c2 = Some (c3, sha256_spec (xs @ ys))" ..
  with c1(1) c2(1) show ?thesis by simp
qed

lemma sha256_streaming_witness:
  "do { ctx \<leftarrow> sha256_update [97] (sha256_init (sha256_ctx.make [] 0 (replicate 64 7) 3));
        ctx \<leftarrow> sha256_update [98, 99] ctx;
        map_option snd (sha256_final ctx) } = Some (sha256_spec ([97] @ [98, 99]))"
  by (rule sha256_streaming) (simp add: sha256_ctx.make_def)

end
