(* ===== verification/Arc4.thy ===== *)
theory Arc4
  imports Prelude "HOL-Library.Multiset"
begin

text \<open>
  The stream cipher of \<open>usr/drivers/crypto/arc4.c\<close>.  The state array has 256 entries and is
  indexed by bytes, so no access to it is out of bounds; the key is read at the byte \<open>x\<close>, which
  has no result beyond its end, and a key length of zero divides by zero.
\<close>

section \<open>The cipher\<close>

record rc4_ctx =
  rc_x :: u8
  rc_y :: u8
  rc_state :: "u8 list"

definition rc4swap :: "u8 \<Rightarrow> u8 \<Rightarrow> u8 list \<Rightarrow> u8 list" where
  "rc4swap x y s = (let t = s ! unat x; s = s[unat x := s ! unat y] in s[unat y := t])"

text \<open>One round of the key schedule, on the state, \<open>x\<close> and \<open>y\<close>.\<close>

definition rc4_key_round ::
    "u8 list \<Rightarrow> u32 \<Rightarrow> nat \<Rightarrow> u8 list \<times> u8 \<times> u8 \<Rightarrow> (u8 list \<times> u8 \<times> u8) option" where
  "rc4_key_round key klen i st =
     (case st of (s, x, y) \<Rightarrow>
        do { c \<leftarrow> rd key (unat x);
             let y = c + s ! i + y;
                 s = rc4swap (of_nat i) y s
             in if klen = 0 then None else Some (s, ucast ((ucast x + 1) mod klen), y) })"

definition rc4_keysetup :: "u8 list \<Rightarrow> u32 \<Rightarrow> rc4_ctx option" where
  "rc4_keysetup key klen =
     do { (s, _, _) \<leftarrow> for_each (rc4_key_round key klen) [0..<256] (map of_nat [0..<256], 0, 0);
          Some (rc4_ctx.make 0 0 s) }"

text \<open>The common part of the three loops: the next state, and the byte that the state gives.\<close>

definition rc4_step :: "rc4_ctx \<Rightarrow> rc4_ctx" where
  "rc4_step ctx =
     (let x = rc_x ctx + 1;
          y = rc_state ctx ! unat x + rc_y ctx
      in ctx\<lparr>rc_x := x, rc_y := y, rc_state := rc4swap x y (rc_state ctx)\<rparr>)"

definition rc4_byte :: "rc4_ctx \<Rightarrow> u8" where
  "rc4_byte ctx =
     rc_state ctx ! unat (rc_state ctx ! unat (rc_x ctx) + rc_state ctx ! unat (rc_y ctx))"

fun rc4_crypt :: "rc4_ctx \<Rightarrow> u8 list \<Rightarrow> rc4_ctx \<times> u8 list" where
  "rc4_crypt ctx [] = (ctx, [])"
| "rc4_crypt ctx (b # src) =
     (let ctx = rc4_step ctx;
          (ctx', dst) = rc4_crypt ctx src
      in (ctx', (b XOR rc4_byte ctx) # dst))"

fun rc4_getbytes :: "rc4_ctx \<Rightarrow> nat \<Rightarrow> rc4_ctx \<times> u8 list" where
  "rc4_getbytes ctx 0 = (ctx, [])"
| "rc4_getbytes ctx (Suc len) =
     (let ctx = rc4_step ctx;
          (ctx', dst) = rc4_getbytes ctx len
      in (ctx', rc4_byte ctx # dst))"

fun rc4_skip :: "rc4_ctx \<Rightarrow> nat \<Rightarrow> rc4_ctx" where
  "rc4_skip ctx 0 = ctx"
| "rc4_skip ctx (Suc len) = rc4_skip (rc4_step ctx) len"

section \<open>Key streams\<close>

text \<open>What a stream cipher promises, for any generator of bytes.\<close>

locale keystream =
  fixes stp :: "'s \<Rightarrow> 's" and out :: "'s \<Rightarrow> u8"
    and inv :: "'s \<Rightarrow> bool"
    and crypt :: "'s \<Rightarrow> u8 list \<Rightarrow> 's \<times> u8 list"
  assumes stp_inv: "inv s \<Longrightarrow> inv (stp s)"
    and crypt_Nil: "crypt s [] = (s, [])"
    and crypt_Cons: "crypt s (b # bs) =
      (fst (crypt (stp s) bs), (b XOR out (stp s)) # snd (crypt (stp s) bs))"
begin

definition stream :: "'s \<Rightarrow> nat \<Rightarrow> u8 list" where
  "stream s n = map (\<lambda>i. out ((stp ^^ Suc i) s)) [0..<n]"

lemma stream_Suc: "stream s (Suc n) = out (stp s) # stream (stp s) n"
  by (simp add: stream_def upt_conv_Cons map_Suc_upt [symmetric] funpow_swap1 del: upt_Suc)

lemma crypt_stream:
  "crypt s bs = ((stp ^^ length bs) s, map2 (XOR) bs (stream s (length bs)))"
proof (induction bs arbitrary: s)
  case Nil
  then show ?case by (simp add: crypt_Nil)
next
  case (Cons b bs)
  then show ?case by (simp add: crypt_Cons stream_Suc funpow_swap1 del: funpow.simps) (simp add: funpow_swap1)
qed

lemma length_stream [simp]: "length (stream s n) = n"
  by (simp add: stream_def)

lemma crypt_twice: "snd (crypt s (snd (crypt s bs))) = bs"
  unfolding crypt_stream by (auto intro: nth_equalityI simp: xor.assoc)

lemma inv_crypt: "inv s \<Longrightarrow> inv (fst (crypt s bs))"
proof -
  assume "inv s"
  then have "inv ((stp ^^ n) s)" for n by (induction n) (simp_all add: stp_inv)
  then show ?thesis by (simp add: crypt_stream)
qed

lemma crypt_append:
  "crypt s (as @ bs) =
    (let (t, xs) = crypt s as; (u, ys) = crypt t bs in (u, xs @ ys))"
  by (induction as arbitrary: s) (auto simp: crypt_Nil crypt_Cons split: prod.splits)

end

section \<open>The state is a permutation\<close>

definition rc4_wf :: "u8 list \<Rightarrow> bool" where
  "rc4_wf s \<longleftrightarrow> mset s = mset (map of_nat [0..<256])"

lemma rc4_wf_length: "rc4_wf s \<Longrightarrow> length s = 256"
  unfolding rc4_wf_def by (drule mset_eq_length) simp

lemma u8_lt: "unat (x :: u8) < 256"
  by (rule order_less_le_trans [OF unsigned_less]) simp

lemma rc4swap_wf: "rc4_wf s \<Longrightarrow> rc4_wf (rc4swap x y s)"
  using rc4_wf_length [of s] u8_lt [of x] u8_lt [of y]
  by (auto simp: rc4_wf_def rc4swap_def Let_def mset_swap)

lemma rc4_step_wf: "rc4_wf (rc_state ctx) \<Longrightarrow> rc4_wf (rc_state (rc4_step ctx))"
  by (simp add: rc4_step_def Let_def rc4swap_wf)

interpretation rc4: keystream rc4_step rc4_byte "\<lambda>ctx. rc4_wf (rc_state ctx)" rc4_crypt
  by unfold_locales (simp_all add: rc4_step_wf Let_def split: prod.splits)

lemma rc4_getbytes_crypt: "rc4_getbytes ctx n = rc4_crypt ctx (replicate n 0)"
  by (induction n arbitrary: ctx) (simp_all add: Let_def)

lemma rc4_skip_crypt: "rc4_skip ctx n = fst (rc4_crypt ctx (replicate n 0))"
  by (induction n arbitrary: ctx) (simp_all add: Let_def split: prod.splits)

lemma key_round_total:
  assumes "0 < klen" "unat klen \<le> length key" "rc4_wf s" "unat x < unat klen" "i < 256"
  shows "\<exists>s' x' y'. rc4_key_round key klen i (s, x, y) = Some (s', x', y') \<and> rc4_wf s' \<and> unat x' < unat klen"
proof -
  let ?x = "(ucast x + 1) mod klen"
  have "?x < klen" using assms(1) by (rule word_mod_less_divisor)
  moreover have "unat (ucast ?x :: u8) \<le> unat ?x"
    by (simp only: unsigned_ucast_eq unsigned_take_bit_eq take_bit_nat_less_eq_self)
  ultimately have "unat (ucast ?x :: u8) < unat klen" by (simp add: word_less_nat_alt)
  with assms show ?thesis
    by (auto simp: rc4_key_round_def rd_def Let_def rc4swap_wf)
qed


lemma rc4_keysetup_total:
  assumes "0 < klen" "unat klen \<le> length key"
  shows "\<exists>ctx. rc4_keysetup key klen = Some ctx \<and> rc4_wf (rc_state ctx)"
proof -
  let ?P = "\<lambda>(s, x, y :: u8). rc4_wf s \<and> unat (x :: u8) < unat klen"
  have "\<exists>t. for_each (rc4_key_round key klen) [0..<256] (map of_nat [0..<256], 0, 0) = Some t \<and> ?P t"
  proof (rule for_each_inv)
    fix i and st :: "u8 list \<times> u8 \<times> u8"
    assume "i \<in> set [0..<256]" "?P st"
    then show "\<exists>t. rc4_key_round key klen i st = Some t \<and> ?P t"
      using key_round_total [OF assms, of "fst st" "fst (snd st)" i "snd (snd st)"]
      by (cases st) fastforce
  next
    show "?P (map of_nat [0..<256], 0, 0)"
      using assms(1) by (simp add: rc4_wf_def unat_gt_0)
  qed
  then show ?thesis by (auto simp: rc4_keysetup_def rc4_ctx.make_def)
qed

section \<open>Properties\<close>

text \<open>C15.  Decryption: for every key and every key length between one and the number of key
  bytes, the key schedule stays inside the key and leaves a permutation of the 256 bytes;
  encrypting in one piece or in two gives the same, the state stays a permutation, and a second
  context set up with the same key decrypts what the first has encrypted.\<close>

theorem rc4_decrypts:
  assumes "0 < klen" "unat klen \<le> length key"
  shows "\<exists>ctx. rc4_keysetup key klen = Some ctx \<and>
    rc4_wf (rc_state (fst (rc4_crypt ctx (as @ bs)))) \<and>
    snd (rc4_crypt ctx (as @ bs)) =
      snd (rc4_crypt ctx as) @ snd (rc4_crypt (fst (rc4_crypt ctx as)) bs) \<and>
    snd (rc4_crypt ctx (snd (rc4_crypt ctx (as @ bs)))) = as @ bs"
proof -
  obtain ctx where ctx: "rc4_keysetup key klen = Some ctx" "rc4_wf (rc_state ctx)"
    using rc4_keysetup_total [OF assms] by blast
  then show ?thesis
    using rc4.inv_crypt [of ctx "as @ bs"] rc4.crypt_append [of ctx as bs] rc4.crypt_twice [of ctx "as @ bs"]
    by (auto split: prod.splits)
qed

lemma rc4_decrypts_witness:
  "\<exists>ctx. rc4_keysetup [75, 101, 121] 3 = Some ctx \<and>
    rc4_wf (rc_state (fst (rc4_crypt ctx ([80, 108] @ [97])))) \<and>
    snd (rc4_crypt ctx ([80, 108] @ [97])) =
      snd (rc4_crypt ctx [80, 108]) @ snd (rc4_crypt (fst (rc4_crypt ctx [80, 108])) [97]) \<and>
    snd (rc4_crypt ctx (snd (rc4_crypt ctx ([80, 108] @ [97])))) = [80, 108] @ [97]"
  by (rule rc4_decrypts) simp_all

text \<open>\<open>rc4_getbytes\<close> writes the bytes that \<open>rc4_crypt\<close> would combine with the data, and
  \<open>rc4_skip\<close> passes over them: the three loops advance the same generator.\<close>

theorem rc4_loops_agree:
  "rc4_getbytes ctx n = (rc4_skip ctx n, snd (rc4_crypt ctx (replicate n 0))) \<and>
   snd (rc4_crypt ctx bs) = map2 (XOR) bs (snd (rc4_getbytes ctx (length bs)))"
proof -
  have "map2 (XOR) (replicate n (0 :: u8)) (rc4.stream ctx n) = rc4.stream ctx n" for n
    by (rule nth_equalityI) simp_all
  then show ?thesis
    by (simp add: rc4_getbytes_crypt rc4_skip_crypt rc4.crypt_stream)
qed

lemma rc4_zero_length: "rc4_keysetup key 0 = None"
proof -
  have "[0..<256] = 0 # [Suc 0..<256]" by (simp add: upt_conv_Cons)
  then show ?thesis
    by (simp add: rc4_keysetup_def rc4_key_round_def Let_def bind_eq_None_conv)
qed

end
