(* ===== verification/Stdio.thy ===== *)
theory Stdio
  imports Prelude Strconv
begin

text \<open>
  Formatted output, \<open>lib/libc/stdio.c\<close>: \<open>vprintf\<close> with flags, width and precision, and the two
  smaller formatters \<open>vsprintf\<close> and \<open>vsnprintf\<close>.  A string is the list of its bytes without the
  terminating zero.  What is sent to \<open>vga_putchar\<close> is the output list; what the formatters store
  is the list of the stored bytes, without the final zero.  The variable arguments are a list
  of words (\<open>int\<close>, \<open>long\<close>, \<open>size_t\<close> and pointers are all 32 bits wide) and strings; an argument
  that is missing or of the other kind has no result.  The conversions \<open>%f\<close> and \<open>%F\<close>, which use
  \<open>double\<close>, are not modelled and have no result either.
\<close>

definition ch :: "char \<Rightarrow> u8" where "ch c = of_char c"

definition bytes :: "string \<Rightarrow> u8 list" where "bytes s = map ch s"

datatype arg = Num u32 | Str "u8 list option"

fun va_num :: "arg list \<Rightarrow> (u32 \<times> arg list) option" where
  "va_num (Num w # args) = Some (w, args)"
| "va_num _ = None"

text \<open>A string argument; the null pointer prints as \<open>(null)\<close>.\<close>

fun va_str :: "arg list \<Rightarrow> (u8 list \<times> arg list) option" where
  "va_str (Str s # args) = Some (case s of None \<Rightarrow> bytes ''(null)'' | Some s \<Rightarrow> s, args)"
| "va_str _ = None"

definition fmt_digit :: "u8 \<Rightarrow> bool" where
  "fmt_digit c \<longleftrightarrow> ch CHR ''0'' \<le> c \<and> c \<le> ch CHR ''9''"

section \<open>The directives of \<open>vprintf\<close>\<close>

record spec =
  left_align :: bool
  zero_pad :: bool
  show_sign :: bool
  space_pad :: bool
  alternate :: bool
  width :: int
  precision :: int

definition spec0 :: spec where
  "spec0 = \<lparr>left_align = False, zero_pad = False, show_sign = False, space_pad = False,
     alternate = False, width = 0, precision = -1\<rparr>"

fun parse_flags :: "u8 list \<Rightarrow> spec \<Rightarrow> spec \<times> u8 list" where
  "parse_flags [] sp = (sp, [])"
| "parse_flags (c # p) sp =
     (if c = ch CHR ''-'' then parse_flags p (sp\<lparr>left_align := True\<rparr>)
      else if c = ch CHR ''0'' then
        parse_flags p (if left_align sp then sp else sp\<lparr>zero_pad := True\<rparr>)
      else if c = ch CHR ''+'' then parse_flags p (sp\<lparr>show_sign := True\<rparr>)
      else if c = ch CHR '' '' then parse_flags p (sp\<lparr>space_pad := True\<rparr>)
      else if c = ch CHR ''#'' then parse_flags p (sp\<lparr>alternate := True\<rparr>)
      else (sp, c # p))"

fun parse_number :: "int \<Rightarrow> u8 list \<Rightarrow> int \<times> u8 list" where
  "parse_number n [] = (n, [])"
| "parse_number n (c # p) =
     (if fmt_digit c then parse_number (wrap32 (n * 10 + (uint c - 48))) p else (n, c # p))"

definition parse_width :: "u8 list \<Rightarrow> arg list \<Rightarrow> spec \<Rightarrow> (spec \<times> u8 list \<times> arg list) option" where
  "parse_width p args sp =
     (if peek p = ch CHR ''*'' then
        do { (w, args) \<leftarrow> va_num args;
             let sp = (if sint w < 0 then sp\<lparr>left_align := True, width := wrap32 (- sint w)\<rparr>
                       else sp\<lparr>width := sint w\<rparr>)
             in Some (sp, tl p, args) }
      else let (n, p) = parse_number 0 p in Some (sp\<lparr>width := n\<rparr>, p, args))"

definition parse_precision :: "u8 list \<Rightarrow> arg list \<Rightarrow> spec \<Rightarrow> (spec \<times> u8 list \<times> arg list) option" where
  "parse_precision p args sp =
     (if peek p = ch CHR ''.'' then
        let p = tl p in
        if peek p = ch CHR ''*'' then
          do { (w, args) \<leftarrow> va_num args;
               Some (sp\<lparr>precision := (if sint w < 0 then -1 else sint w)\<rparr>, tl p, args) }
        else let (n, p) = parse_number 0 p in Some (sp\<lparr>precision := n\<rparr>, p, args)
      else Some (sp, p, args))"

text \<open>The length modifiers change nothing where all integers are 32 bits wide.\<close>

definition skip_length :: "u8 list \<Rightarrow> u8 list" where
  "skip_length p = (if peek p = ch CHR ''l'' \<or> peek p = ch CHR ''h'' then tl p else p)"

section \<open>Output\<close>

definition pad_output :: "int \<Rightarrow> u8 \<Rightarrow> u8 list" where
  "pad_output count pad_char = replicate (nat count) pad_char"

definition output_with_format :: "u8 list \<Rightarrow> int \<Rightarrow> int \<Rightarrow> bool \<Rightarrow> bool \<Rightarrow> u8 list" where
  "output_with_format str wid prec left zero =
     (let len = int (length str);
          len = (if prec \<ge> 0 \<and> len > prec then prec else len);
          pad_count = (if wid > len then wid - len else 0);
          pad_char = (if zero \<and> \<not> left then ch CHR ''0'' else ch CHR '' '')
      in (if \<not> left \<and> pad_count > 0 then pad_output pad_count pad_char else []) @
         take (nat len) str @
         (if left \<and> pad_count > 0 then pad_output pad_count (ch CHR '' '') else []))"

definition max_width :: "int \<Rightarrow> u8 list \<Rightarrow> int" where
  "max_width w str = (if w > int (length str) then w else int (length str))"

text \<open>The conversions: the output and what is added to \<open>chars_written\<close>.\<close>

definition conv_str :: "spec \<Rightarrow> u8 list \<Rightarrow> u8 list \<times> int" where
  "conv_str sp s =
     (let len = int (length s);
          len = (if precision sp \<ge> 0 \<and> len > precision sp then precision sp else len)
      in (output_with_format s (width sp) (precision sp) (left_align sp) False,
          if width sp > len then width sp else len))"

definition conv_dec :: "spec \<Rightarrow> u32 \<Rightarrow> (u8 list \<times> int) option" where
  "conv_dec sp w =
     (let num = sint w;
          sign_char = (if num < 0 then Some (ch CHR ''-'')
                       else if show_sign sp then Some (ch CHR ''+'')
                       else if space_pad sp then Some (ch CHR '' '') else None);
          num = (if num < 0 then wrap32 (- num) else num)
      in do { str \<leftarrow> itoa num 10;
              case sign_char of
                Some c \<Rightarrow>
                  if zero_pad sp \<and> \<not> left_align sp \<and> width sp > 0 then
                    Some (c # pad_output (wrap32 (width sp - int (length str) - 1)) (ch CHR ''0'') @ str,
                          width sp)
                  else
                    let temp = c # str in
                    Some (output_with_format temp (width sp) (precision sp) (left_align sp) (zero_pad sp),
                          max_width (width sp) temp)
              | None \<Rightarrow>
                  Some (output_with_format str (width sp) (precision sp) (left_align sp) (zero_pad sp),
                        max_width (width sp) str) })"

definition conv_hex :: "spec \<Rightarrow> u32 \<Rightarrow> (u8 list \<times> int) option" where
  "conv_hex sp w =
     do { str \<leftarrow> itoa (sint w) 16;
          let len = int (length str);
              prefix = (if alternate sp \<and> w \<noteq> 0 then bytes ''0x'' else []);
              wid = (if alternate sp \<and> w \<noteq> 0 then wrap32 (width sp - 2) else width sp);
              zeros = (if precision sp \<ge> 0 \<and> precision sp > len then precision sp - len
                       else if zero_pad sp \<and> \<not> left_align sp \<and> wid > len then wid - len else 0);
              blanks = (if left_align sp \<and> wid > len then wid - len else 0)
          in Some (prefix @ pad_output zeros (ch CHR ''0'') @ str @ pad_output blanks (ch CHR '' ''),
                   int (length prefix) + zeros + len + blanks) }"

definition conv_oct :: "spec \<Rightarrow> u32 \<Rightarrow> (u8 list \<times> int) option" where
  "conv_oct sp w =
     do { str \<leftarrow> itoa (sint w) 8;
          let str = (if alternate sp \<and> w \<noteq> 0 then ch CHR ''0'' # str else str)
          in Some (output_with_format str (width sp) (precision sp) (left_align sp) (zero_pad sp),
                   max_width (width sp) str) }"

definition conv_char :: "spec \<Rightarrow> u8 \<Rightarrow> u8 list \<times> int" where
  "conv_char sp c =
     (if width sp > 1 then
        (if left_align sp then c # pad_output (width sp - 1) (ch CHR '' '')
         else pad_output (width sp - 1) (ch CHR '' '') @ [c], width sp)
      else ([c], 1))"

definition conv_uns :: "spec \<Rightarrow> u32 \<Rightarrow> (u8 list \<times> int) option" where
  "conv_uns sp w =
     do { str \<leftarrow> itoa (sint w) 10;
          Some (output_with_format str (width sp) (precision sp) (left_align sp) (zero_pad sp),
                max_width (width sp) str) }"

text \<open>\<open>%zu\<close> compares the width as a \<open>size_t\<close>.\<close>

definition conv_size :: "spec \<Rightarrow> u32 \<Rightarrow> (u8 list \<times> int) option" where
  "conv_size sp w =
     do { str \<leftarrow> itoa (sint w) 10;
          Some (output_with_format str (width sp) (precision sp) (left_align sp) (zero_pad sp),
                if word_of_int (width sp) > (of_nat (length str) :: u32) then width sp else int (length str)) }"

definition conv_ptr :: "u32 \<Rightarrow> (u8 list \<times> int) option" where
  "conv_ptr w = do { str \<leftarrow> itoa (sint w) 16; Some (bytes ''0x'' @ str, 2 + int (length str)) }"

text \<open>
  One directive, at its conversion character \<open>k\<close>: output, count, arguments left and format left.
\<close>

definition directive ::
    "spec \<Rightarrow> u8 \<Rightarrow> u8 list \<Rightarrow> arg list \<Rightarrow> (u8 list \<times> int \<times> arg list \<times> u8 list) option" where
  "directive sp k p args =
     (if k = ch CHR ''z'' then
        if peek p = ch CHR ''u'' then
          do { (w, args) \<leftarrow> va_num args; (out, n) \<leftarrow> conv_size sp w; Some (out, n, args, tl p) }
        else Some ([], 0, args, p)
      else if k = ch CHR ''s'' then
        do { (s, args) \<leftarrow> va_str args; let (out, n) = conv_str sp s in Some (out, n, args, p) }
      else if k = ch CHR ''d'' \<or> k = ch CHR ''i'' then
        do { (w, args) \<leftarrow> va_num args; (out, n) \<leftarrow> conv_dec sp w; Some (out, n, args, p) }
      else if k = ch CHR ''x'' \<or> k = ch CHR ''X'' then
        do { (w, args) \<leftarrow> va_num args; (out, n) \<leftarrow> conv_hex sp w; Some (out, n, args, p) }
      else if k = ch CHR ''o'' then
        do { (w, args) \<leftarrow> va_num args; (out, n) \<leftarrow> conv_oct sp w; Some (out, n, args, p) }
      else if k = ch CHR ''f'' \<or> k = ch CHR ''F'' then None
      else if k = ch CHR ''c'' then
        do { (w, args) \<leftarrow> va_num args; let (out, n) = conv_char sp (ucast w) in Some (out, n, args, p) }
      else if k = ch CHR ''u'' then
        do { (w, args) \<leftarrow> va_num args; (out, n) \<leftarrow> conv_uns sp w; Some (out, n, args, p) }
      else if k = ch CHR ''p'' then
        do { (w, args) \<leftarrow> va_num args; (out, n) \<leftarrow> conv_ptr w; Some (out, n, args, p) }
      else if k = ch CHR ''%'' then Some ([ch CHR ''%''], 1, args, p)
      else Some ([ch CHR ''%'', k], 2, args, p))"

text \<open>
  The part of a directive before its conversion character.  A format that ends inside a
  directive makes the loop step over the terminating zero: no result.
\<close>

definition read_directive :: "u8 list \<Rightarrow> arg list \<Rightarrow> (u8 list \<times> int \<times> arg list \<times> u8 list) option" where
  "read_directive p args =
     (let (sp, p) = parse_flags p spec0 in
      do { (sp, p, args) \<leftarrow> parse_width p args sp;
           (sp, p, args) \<leftarrow> parse_precision p args sp;
           case skip_length p of [] \<Rightarrow> None | k # p \<Rightarrow> directive sp k p args })"

lemma parse_flags_length: "length (snd (parse_flags p sp)) \<le> length p"
  by (induction p sp rule: parse_flags.induct) (auto simp: le_Suc_eq)

lemma parse_number_length: "length (snd (parse_number n p)) \<le> length p"
  by (induction n p rule: parse_number.induct) (auto simp: le_Suc_eq)

lemma parse_width_length: "parse_width p args sp = Some (sp', p', args') \<Longrightarrow> length p' \<le> length p"
  using parse_number_length [of 0 p]
  by (auto simp: parse_width_def split: if_splits bind_splits prod.splits)

lemma parse_precision_length: "parse_precision p args sp = Some (sp', p', args') \<Longrightarrow> length p' \<le> length p"
  using parse_number_length [of 0 "tl p"]
  by (auto simp: parse_precision_def Let_def split: if_splits bind_splits prod.splits)

lemma directive_length:
  "directive sp k p args = Some (out, n, args', p') \<Longrightarrow> length p' \<le> length p"
  by (auto simp: directive_def Let_def split: if_splits bind_splits prod.splits)

lemma read_directive_length:
  "read_directive p args = Some (out, n, args', p') \<Longrightarrow> length p' < length p"
proof -
  assume r: "read_directive p args = Some (out, n, args', p')"
  obtain sp1 p1 where 1: "parse_flags p spec0 = (sp1, p1)" by (cases "parse_flags p spec0")
  with r obtain sp2 p2 a2 sp3 p3 a3 where
    2: "parse_width p1 args sp1 = Some (sp2, p2, a2)" and
    3: "parse_precision p2 a2 sp2 = Some (sp3, p3, a3)" and
    4: "(case skip_length p3 of [] \<Rightarrow> None | k # p \<Rightarrow> directive sp3 k p a3) = Some (out, n, args', p')"
    by (auto simp: read_directive_def split: bind_splits)
  have "length (skip_length p3) \<le> length p3" by (simp add: skip_length_def)
  with 4 have "length p' < length p3"
    by (auto split: list.splits dest!: directive_length)
  with parse_flags_length [of p spec0] 1 parse_width_length [OF 2] parse_precision_length [OF 3]
  show ?thesis by simp
qed

text \<open>The output and the count that is returned.\<close>

function vprintf_loop :: "u8 list \<Rightarrow> arg list \<Rightarrow> int \<Rightarrow> (u8 list \<times> int) option" where
  "vprintf_loop [] args chars_written = Some ([], chars_written)"
| "vprintf_loop (c # p) args chars_written =
     (if c = ch CHR ''%'' \<and> p \<noteq> [] then
        do { (out, n, args, p) \<leftarrow> read_directive p args;
             (outs, r) \<leftarrow> vprintf_loop p args (wrap32 (chars_written + n));
             Some (out @ outs, r) }
      else
        do { (outs, r) \<leftarrow> vprintf_loop p args (wrap32 (chars_written + 1));
             Some (c # outs, r) })"
  by pat_completeness auto
termination
  by (relation "measure (\<lambda>(p, _, _). length p)") (auto dest: read_directive_length)

definition vprintf :: "u8 list \<Rightarrow> arg list \<Rightarrow> (u8 list \<times> int) option" where
  "vprintf format args = vprintf_loop format args 0"


section \<open>The count that \<open>vprintf\<close> returns\<close>

text \<open>
  A conversion is counted right if the count is the length of the output.  Without a precision
  and without the flag \<open>0\<close> every directive is.
\<close>

definition counted :: "u8 list \<times> int \<Rightarrow> bool" where
  "counted r \<longleftrightarrow> snd r = int (length (fst r))"

definition plain_spec :: "spec \<Rightarrow> bool" where
  "plain_spec sp \<longleftrightarrow> \<not> zero_pad sp \<and> precision sp = -1 \<and> int32_range (width sp)"

lemma output_with_format_length:
  "int (length (output_with_format str wid (-1) left zero)) = max_width wid str"
  by (auto simp: output_with_format_def Let_def pad_output_def max_width_def)


lemma output_counted: "precision sp = -1 \<Longrightarrow>
    counted (output_with_format str (width sp) (precision sp) left zero, max_width (width sp) str)"
  by (simp add: counted_def output_with_format_length)

lemma conv_counted:
  assumes "plain_spec sp"
  shows "counted (conv_str sp s)" "conv_dec sp w = Some r \<Longrightarrow> counted r" "conv_hex sp w = Some r \<Longrightarrow> counted r"
    "conv_oct sp w = Some r \<Longrightarrow> counted r" "counted (conv_char sp c)"
    "conv_uns sp w = Some r \<Longrightarrow> counted r" "conv_ptr w = Some r \<Longrightarrow> counted r"
  using assms output_with_format_length [of s "width sp" "left_align sp" False]
  by (auto simp: plain_spec_def conv_str_def conv_dec_def conv_hex_def conv_oct_def conv_char_def
      conv_uns_def conv_ptr_def output_counted counted_def pad_output_def max_width_def bytes_def
      output_with_format_length Let_def split: bind_splits if_splits option.splits)

lemma directive_counted:
  assumes "plain_spec sp" "k \<noteq> ch CHR ''z''" "directive sp k p args = Some (out, n, args', p')"
  shows "n = int (length out)"
  using assms(2,3) conv_counted [OF assms(1), unfolded counted_def]
  by (auto simp: directive_def case_prod_beta split: if_splits bind_splits)

lemma parse_flags_plain:
  "ch CHR ''0'' \<notin> set p \<Longrightarrow> zero_pad (fst (parse_flags p sp)) = zero_pad sp \<and>
     precision (fst (parse_flags p sp)) = precision sp \<and> set (snd (parse_flags p sp)) \<subseteq> set p"
  by (induction p sp rule: parse_flags.induct) auto

lemma parse_number_set: "set (snd (parse_number n p)) \<subseteq> set p"
  by (induction n p rule: parse_number.induct) auto

lemma parse_number_range: "int32_range n \<Longrightarrow> int32_range (fst (parse_number n p))"
  by (induction n p rule: parse_number.induct) auto

lemma sint_range: "int32_range (sint (w :: u32))"
  using sint_range_size [of w] by (simp add: int32_range_def word_size)

lemma parse_width_plain:
  assumes "parse_width p args sp = Some (sp', p', args')"
  shows "zero_pad sp' = zero_pad sp" "precision sp' = precision sp" "int32_range (width sp')" "set p' \<subseteq> set p"
proof -
  have "int32_range (fst (parse_number 0 p))" by (rule parse_number_range) (simp add: int32_range_def)
  then show "zero_pad sp' = zero_pad sp" "precision sp' = precision sp" "int32_range (width sp')" "set p' \<subseteq> set p"
    using assms parse_number_set [of 0 p] list.set_sel(2) [of p] sint_range
    by (cases p; auto simp: parse_width_def Let_def split: if_splits bind_splits prod.splits)+
qed

lemma skip_length_set: "set (skip_length p) \<subseteq> set p"
  by (cases p) (auto simp: skip_length_def)

lemma directive_set: "directive sp k p args = Some (out, n, args', p') \<Longrightarrow> set p' \<subseteq> set p"
  by (cases p) (auto simp: directive_def split: if_splits bind_splits prod.splits)

lemma read_directive_counted:
  assumes r: "read_directive p args = Some (out, n, args', p')"
    and plain: "ch CHR ''0'' \<notin> set p" "ch CHR ''.'' \<notin> set p" "ch CHR ''z'' \<notin> set p"
  shows "n = int (length out)" "set p' \<subseteq> set p"
proof -
  obtain sp1 p1 where 1: "parse_flags p spec0 = (sp1, p1)" by (cases "parse_flags p spec0")
  with r obtain sp2 p2 a2 sp3 p3 a3 where
    2: "parse_width p1 args sp1 = Some (sp2, p2, a2)" and
    3: "parse_precision p2 a2 sp2 = Some (sp3, p3, a3)" and
    4: "(case skip_length p3 of [] \<Rightarrow> None | k # p \<Rightarrow> directive sp3 k p a3) = Some (out, n, args', p')"
    by (auto simp: read_directive_def split: bind_splits)
  have sp1: "\<not> zero_pad sp1" "precision sp1 = -1" "set p1 \<subseteq> set p"
    using parse_flags_plain [OF plain(1), of spec0] 1 by (simp_all add: spec0_def)
  note sp2 = parse_width_plain [OF 2]
  have "peek p2 \<noteq> ch CHR ''.''"
    using sp2(4) sp1(3) plain(2) by (cases p2) (auto simp: ch_def)
  with 3 have 3: "sp3 = sp2" "p3 = p2" by (simp_all add: parse_precision_def)
  obtain k q where kq: "skip_length p3 = k # q" "directive sp3 k q a3 = Some (out, n, args', p')"
    using 4 by (auto split: list.splits)
  have sub: "set (k # q) \<subseteq> set p"
    using skip_length_set [of p3] kq(1) 3 sp2(4) sp1(3) by auto
  then have "k \<noteq> ch CHR ''z''" using plain(3) by auto
  moreover have "plain_spec sp3" using sp1 sp2 3 by (simp add: plain_spec_def)
  ultimately show "n = int (length out)" using kq(2) by (intro directive_counted)
  show "set p' \<subseteq> set p" using directive_set [OF kq(2)] sub by auto
qed

lemma wrap32_add: "wrap32 (wrap32 a + b) = wrap32 (a + b)"
  unfolding wrap32_def by (metis signed_take_bit_add signed_take_bit_signed_take_bit min.idem)

lemma vprintf_loop_counted:
  assumes "ch CHR ''0'' \<notin> set p" "ch CHR ''.'' \<notin> set p" "ch CHR ''z'' \<notin> set p"
    and "vprintf_loop p args (wrap32 m) = Some (out, r)"
  shows "r = wrap32 (m + int (length out))"
  using assms
proof (induction "length p" arbitrary: p args out r m rule: less_induct)
  case less
  show ?case
  proof (cases p)
    case Nil
    with less.prems show ?thesis by simp
  next
    case (Cons c q)
    show ?thesis
    proof (cases "c = ch CHR ''%'' \<and> q \<noteq> []")
      case True
      with less.prems(4) Cons obtain o1 n1 a1 p1 o2 where d: "read_directive q args = Some (o1, n1, a1, p1)"
          "vprintf_loop p1 a1 (wrap32 (m + n1)) = Some (o2, r)" "out = o1 @ o2"
        by (auto simp: wrap32_add split: bind_splits)
      note rd = read_directive_counted [OF d(1)] and len = read_directive_length [OF d(1)]
      have "r = wrap32 ((m + n1) + int (length o2))"
        using less.hyps [OF _ _ _ _ d(2)] len rd(2) less.prems(1-3) Cons by auto
      moreover have "n1 = int (length o1)" using rd(1) less.prems(1-3) Cons by simp
      ultimately show ?thesis using d(3) by (simp add: algebra_simps)
    next
      case False
      with less.prems(4) Cons obtain o2 where d: "vprintf_loop q args (wrap32 (m + 1)) = Some (o2, r)" "out = c # o2"
        by (auto simp: wrap32_add split: bind_splits if_splits)
      have "r = wrap32 ((m + 1) + int (length o2))"
        using less.hyps [OF _ _ _ _ d(1)] less.prems(1-3) Cons by auto
      then show ?thesis using d(2) by (simp add: algebra_simps)
    qed
  qed
qed

section \<open>The formatters into a buffer\<close>

text \<open>What the conversion character \<open>k\<close> stores, and the arguments left.\<close>

definition small_conv :: "u8 \<Rightarrow> arg list \<Rightarrow> (u8 list \<times> arg list) option" where
  "small_conv k args =
     (if k = ch CHR ''s'' then va_str args
      else if k = ch CHR ''d'' \<or> k = ch CHR ''i'' \<or> k = ch CHR ''u'' then
        do { (w, args) \<leftarrow> va_num args; str \<leftarrow> itoa (sint w) 10; Some (str, args) }
      else if k = ch CHR ''x'' \<or> k = ch CHR ''X'' then
        do { (w, args) \<leftarrow> va_num args; str \<leftarrow> itoa (sint w) 16; Some (str, args) }
      else if k = ch CHR ''c'' then do { (w, args) \<leftarrow> va_num args; Some ([ucast w], args) }
      else if k = ch CHR ''p'' then
        do { (w, args) \<leftarrow> va_num args; str \<leftarrow> itoa (sint w) 16; Some (bytes ''0x'' @ str, args) }
      else if k = ch CHR ''%'' then Some ([ch CHR ''%''], args)
      else Some ([ch CHR ''%'', k], args))"

text \<open>\<open>vsprintf\<close> reads a width and ignores it.\<close>

function vsprintf :: "u8 list \<Rightarrow> arg list \<Rightarrow> u8 list option" where
  "vsprintf [] args = Some []"
| "vsprintf (c # p) args =
     (if c \<noteq> ch CHR ''%'' \<or> p = [] then do { out \<leftarrow> vsprintf p args; Some (c # out) }
      else case snd (parse_number 0 p) of
        [] \<Rightarrow> None
      | k # p' \<Rightarrow>
          do { (s, args) \<leftarrow> small_conv k args; out \<leftarrow> vsprintf p' args; Some (s @ out) })"
  by pat_completeness auto
termination
proof (relation "measure (\<lambda>(p, _). length p)", goal_cases)
  case (3 c p args k p')
  then show ?case using parse_number_length [of 0 p] by simp
qed auto

text \<open>\<open>vsnprintf\<close>; \<open>space\<close> is the distance to \<open>end\<close>, the place of the final zero.\<close>

fun vsnprintf_loop :: "nat \<Rightarrow> u8 list \<Rightarrow> arg list \<Rightarrow> u8 list option" where
  "vsnprintf_loop space [] args = Some []"
| "vsnprintf_loop space (c # p) args =
     (if space = 0 then Some []
      else if c \<noteq> ch CHR ''%'' then
        do { out \<leftarrow> vsnprintf_loop (space - 1) p args; Some (c # out) }
      else case p of
        [] \<Rightarrow> Some [c]
      | k # p \<Rightarrow>
          do { (s, args) \<leftarrow> small_conv k args;
               let s = (if k = ch CHR ''p'' \<and> space \<le> 2 then [] else take space s)
               in do { out \<leftarrow> vsnprintf_loop (space - length s) p args; Some (s @ out) } })"

text \<open>With \<open>n = 0\<close> the loop does not start and nothing is stored.\<close>

definition vsnprintf :: "nat \<Rightarrow> u8 list \<Rightarrow> arg list \<Rightarrow> u8 list option" where
  "vsnprintf n format args = (if n = 0 then Some [] else vsnprintf_loop (n - 1) format args)"

lemma vsnprintf_loop_bound: "vsnprintf_loop space p args = Some out \<Longrightarrow> length out \<le> space"
proof (induction space p args arbitrary: out rule: vsnprintf_loop.induct)
  case (1 space args)
  then show ?case by simp
next
  case (2 space c p args)
  then show ?case by (fastforce simp: Let_def split: if_splits list.splits bind_splits prod.splits)
qed

lemma vsnprintf_loop_prefix:
  assumes "list_all (\<lambda>c. \<not> fmt_digit c \<and> c \<noteq> ch CHR ''p'') p" "vsprintf p args = Some out"
  shows "vsnprintf_loop space p args = Some (take space out)"
  using assms
proof (induction space p args arbitrary: out rule: vsnprintf_loop.induct)
  case (1 space args)
  then show ?case by simp
next
  case (2 space c p args)
  show ?case
  proof (cases "space = 0 \<or> c \<noteq> ch CHR ''%'' \<or> p = []")
    case True
    with 2 show ?thesis by (cases space) (auto split: if_splits bind_splits list.splits)
  next
    case False
    then obtain k q where p: "p = k # q" by (auto simp: neq_Nil_conv)
    with 2(3) have "\<not> fmt_digit k" "k \<noteq> ch CHR ''p''" by simp_all
    with 2(4) False p obtain s a out' where s: "small_conv k args = Some (s, a)"
        "vsprintf q a = Some out'" "out = s @ out'"
      by (auto split: bind_splits)
    have "vsnprintf_loop (space - length (take space s)) q a = Some (take (space - length s) out')"
      using 2(2) [of k q "(s, a)" s a "take space s" out'] False p s 2(3) by (simp add: min_def)
    then show ?thesis using False p s \<open>k \<noteq> ch CHR ''p''\<close> by (simp add: Let_def)
  qed
qed

lemma ch_minus: "ch CHR ''-'' = 45"
  by code_simp

lemma ch_d: "ch CHR ''d'' = 100" "ch CHR ''%'' = 37"
  by code_simp+

lemma d_plain:
  "parse_flags [100] sp = (sp, [100])" "\<not> fmt_digit 100" "ch CHR ''*'' \<noteq> 100" "ch CHR ''.'' \<noteq> 100"
  "ch CHR ''l'' \<noteq> 100" "ch CHR ''h'' \<noteq> 100" "ch CHR ''z'' \<noteq> 100" "ch CHR ''s'' \<noteq> 100"
  by code_simp+

lemma vprintf_d:
  "vprintf (bytes ''%d'') [Num w] = map_option (\<lambda>(out, n). (out, wrap32 n)) (conv_dec spec0 w)"
proof -
  have "spec0\<lparr>width := 0\<rparr> = spec0" by (simp add: spec0_def)
  then have "read_directive [100] [Num w] = do { (out, n) \<leftarrow> conv_dec spec0 w; Some (out, n, [], []) }"
    using d_plain by (simp add: read_directive_def parse_width_def parse_precision_def skip_length_def
        directive_def ch_d eq_commute [of "100 :: u8"])
  then show ?thesis
    by (cases "conv_dec spec0 w") (auto simp: vprintf_def bytes_def ch_d)
qed

lemma sint_least: "w \<noteq> 0x80000000 \<Longrightarrow> sint (w :: u32) \<noteq> - (2 ^ 31)"
proof
  assume w: "w \<noteq> 0x80000000" "sint w = - (2 ^ 31)"
  then have "sint w = sint (0x80000000 :: u32)" by simp
  then have "w = 0x80000000" by (rule signed_word_eqI)
  with w show False by simp
qed

lemma itoa_word:
  assumes "w \<noteq> 0x80000000"
  shows "\<exists>s. itoa (sint (w :: u32)) 10 = Some s \<and> length s \<le> 32 \<and> atoi s = sint w"
  using itoa_roundtrip_10 [OF sint_range sint_least [OF assms]] by blast

section \<open>Properties\<close>

text \<open>The count that \<open>vprintf\<close> returns is the number of characters it has sent to the
  screen, for every format without precisions, \<open>0\<close> flags or widths with the digit 0, and
  \<open>%zu\<close>, and all arguments (modulo the width of an \<open>int\<close>).\<close>

theorem vprintf_count:
  assumes "\<forall>c \<in> set format. c \<noteq> ch CHR ''0'' \<and> c \<noteq> ch CHR ''.'' \<and> c \<noteq> ch CHR ''z''"
    and "vprintf format args = Some (out, r)"
  shows "r = wrap32 (int (length out))"
proof -
  have "vprintf_loop format args (wrap32 0) = Some (out, r)"
    using assms(2) by (simp add: vprintf_def int32_range_def)
  with vprintf_loop_counted [of format args 0 out r] assms(1) show ?thesis by auto
qed

lemma vprintf_count_witness:
  "4 = wrap32 (int (length (bytes ''  -7'')))"
proof (rule vprintf_count)
  show "vprintf (bytes ''%4d'') [Num (-7)] = Some (bytes ''  -7'', 4)" by code_simp
  show "\<forall>c \<in> set (bytes ''%4d''). c \<noteq> ch CHR ''0'' \<and> c \<noteq> ch CHR ''.'' \<and> c \<noteq> ch CHR ''z''" by code_simp
qed

text \<open>What \<open>%d\<close> prints is read back by \<open>atoi\<close>, for every \<open>int\<close> but the least.\<close>

theorem vprintf_decimal:
  assumes "w \<noteq> 0x80000000"
  shows "\<exists>s. vprintf (bytes ''%d'') [Num w] = Some (s, int (length s)) \<and> atoi s = sint w"
proof -
  let ?n = "sint w"
  have range: "int32_range ?n" by (rule sint_range)
  have least: "?n \<noteq> - (2 ^ 31)" using assms by (rule sint_least)
  obtain s where s: "itoa ?n 10 = Some s" "length s \<le> 32" "atoi s = ?n"
    using itoa_word [OF assms] by blast
  have "conv_dec spec0 w = Some (s, int (length s))"
  proof (cases "?n < 0")
    case True
    have w: "wrap32 (- ?n) = - ?n"
      using True range least by (intro wrap32_id) (auto simp: int32_range_def)
    from itoa_neg [OF True range least] s(1) obtain t where
      "itoa (- ?n) 10 = Some t" "s = 45 # t" by (cases "itoa (- ?n) 10") auto
    with True w show ?thesis
      by (simp add: conv_dec_def spec0_def output_with_format_def max_width_def ch_minus)
  next
    case False
    with s(1) show ?thesis
      by (simp add: conv_dec_def spec0_def output_with_format_def max_width_def)
  qed
  then have "vprintf (bytes ''%d'') [Num w] = Some (s, wrap32 (int (length s)))"
    by (simp add: vprintf_d)
  moreover have "wrap32 (int (length s)) = int (length s)"
    using s(2) by (intro wrap32_id) (simp add: int32_range_def)
  ultimately show ?thesis using s(3) by auto
qed

lemma vprintf_decimal_witness:
  "\<exists>s. vprintf (bytes ''%d'') [Num 0xFFFFFF85] = Some (s, int (length s)) \<and> atoi s = sint (0xFFFFFF85 :: u32)"
  by (rule vprintf_decimal) simp

text \<open>\<open>vsnprintf\<close> never stores more than \<open>n\<close> bytes with the final zero, for every format.\<close>

lemma vsnprintf_bounded: "vsnprintf n format args = Some out \<Longrightarrow> length out \<le> n - 1"
  using vsnprintf_loop_bound [of "n - 1" format args out] by (auto simp: vsnprintf_def split: if_splits)

text \<open>On a format without digits and \<open>%p\<close>, \<open>vsnprintf\<close> agrees with \<open>vsprintf\<close>: it stores the
  same characters, cut to \<open>n - 1\<close> of them.\<close>

theorem vsnprintf_truncates:
  assumes "0 < n" "\<forall>c \<in> set format. \<not> fmt_digit c \<and> c \<noteq> ch CHR ''p''"
    and "vsprintf format args = Some out"
  shows "vsnprintf n format args = Some (take (n - 1) out)"
  using vsnprintf_loop_prefix [of format args out "n - 1"] assms
  by (simp add: vsnprintf_def list_all_iff)

lemma vsnprintf_truncates_witness:
  "vsnprintf 5 (bytes ''<%d|%s>'') [Num (-12), Str (Some [65])] = Some (take (5 - 1) (bytes ''<-12|A>''))"
proof (rule vsnprintf_truncates)
  show "vsprintf (bytes ''<%d|%s>'') [Num (-12), Str (Some [65])] = Some (bytes ''<-12|A>'')" by code_simp
  show "\<forall>c \<in> set (bytes ''<%d|%s>''). \<not> fmt_digit c \<and> c \<noteq> ch CHR ''p''" by code_simp
qed simp

section \<open>Where the output differs from the standard\<close>

text \<open>Unsigned numbers from 2147483648 on are printed as negative ones, and in base 16 or 8 with
  characters below the digit 0.\<close>

lemma vprintf_unsigned: "vprintf (bytes ''%u'') [Num 0xFFFFFFFF] = Some (bytes ''-1'', 2)"
  by code_simp

lemma vprintf_hex_high: "vprintf (bytes ''%x'') [Num 0x80000000] = Some (bytes ''(0000000'', 8)"
  by code_simp

text \<open>A precision cuts the digits of a number.\<close>

lemma vprintf_precision_cuts: "vprintf (bytes ''%.2d'') [Num 2025] = Some (bytes ''20'', 4)"
  by code_simp

text \<open>A sign with zero padding is counted as the width even if the number is longer.\<close>

lemma vprintf_miscount: "vprintf (bytes ''%03d'') [Num (-12345)] = Some (bytes ''-12345'', 3)"
  by code_simp

text \<open>A format that ends after a width runs past its end.\<close>

lemma vprintf_cut_directive: "vprintf (bytes ''%5'') [] = None"
  by code_simp

end
