(* ===== verification/Scan.thy ===== *)
theory Scan
  imports Prelude Stdio
begin

text \<open>
  Input in \<open>lib/libc/stdio.c\<close>: the line editor behind \<open>getchar\<close>, \<open>ungetc\<close>, \<open>gets\<close>, \<open>fgets\<close> and
  \<open>scanf\<close>, and \<open>sscanf\<close> on a string.  The keys that \<open>kb_getchar\<close> will return are a list of C
  \<open>int\<close>s, part of the state; waiting for a key that never comes has no result.  What is echoed
  to the screen is collected in the state.  The pointers that the scanning functions store
  through are not modelled: the result is the list of the stored values, in argument order.
\<close>

abbreviation EOF :: int where "EOF \<equiv> -1"

definition io_isdigit :: "int \<Rightarrow> bool" where
  "io_isdigit c \<longleftrightarrow> 48 \<le> c \<and> c \<le> 57"

definition io_isspace :: "int \<Rightarrow> bool" where
  "io_isspace c \<longleftrightarrow> c = 32 \<or> c = 9 \<or> c = 10 \<or> c = 13 \<or> c = 12 \<or> c = 11"

definition io_isxdigit :: "int \<Rightarrow> bool" where
  "io_isxdigit c \<longleftrightarrow> io_isdigit c \<or> (97 \<le> c \<and> c \<le> 102) \<or> (65 \<le> c \<and> c \<le> 70)"

definition io_tolower :: "int \<Rightarrow> int" where
  "io_tolower c = (if 65 \<le> c \<and> c \<le> 90 then c + (97 - 65) else c)"

section \<open>The line editor\<close>

record stdin =
  unget_char :: int
  input_buffer :: "u8 list"
  input_pos :: nat
  input_len :: nat
  input_valid :: bool
  keys :: "int list"
  screen :: "u8 list"

definition stdin0 :: "int list \<Rightarrow> stdin" where
  "stdin0 ks = \<lparr>unget_char = EOF, input_buffer = replicate 256 0, input_pos = 0, input_len = 0,
     input_valid = False, keys = ks, screen = []\<rparr>"

text \<open>The loop that reads a line; it returns with the key that ended it.\<close>

fun edit_line :: "int list \<Rightarrow> stdin \<Rightarrow> (int \<times> stdin) option" where
  "edit_line [] s = None"
| "edit_line (c # ks) s =
     (let s = s\<lparr>keys := ks\<rparr> in
      if \<not> (c \<noteq> 10 \<and> c \<noteq> EOF \<and> input_len s < 255) then Some (c, s)
      else if c = 8 \<or> c = 127 then
        edit_line ks (if input_len s > 0
          then s\<lparr>input_len := input_len s - 1, screen := screen s @ [8, 32, 8]\<rparr> else s)
      else if 32 \<le> c \<and> c \<le> 126 then
        do { buf \<leftarrow> wr (input_buffer s) (input_len s) (word_of_int c);
             edit_line ks (s\<lparr>input_buffer := buf, input_len := input_len s + 1,
                             screen := screen s @ [word_of_int c]\<rparr>) }
      else edit_line ks s)"

definition read_line :: "stdin \<Rightarrow> stdin option" where
  "read_line s =
     do { (c, s) \<leftarrow> edit_line (keys s) (s\<lparr>input_pos := 0, input_len := 0, input_valid := False\<rparr>);
          s \<leftarrow> (if c = 10 then
                 do { buf \<leftarrow> wr (input_buffer s) (input_len s) 10;
                      Some (s\<lparr>input_buffer := buf, input_len := input_len s + 1, screen := screen s @ [10]\<rparr>) }
               else Some s);
          buf \<leftarrow> wr (input_buffer s) (input_len s) 0;
          Some (s\<lparr>input_buffer := buf, input_valid := True\<rparr>) }"

definition next_char :: "stdin \<Rightarrow> (int \<times> stdin) option" where
  "next_char s =
     do { b \<leftarrow> rd (input_buffer s) (input_pos s);
          Some (sint b, s\<lparr>input_pos := input_pos s + 1\<rparr>) }"

definition getchar :: "stdin \<Rightarrow> (int \<times> stdin) option" where
  "getchar s =
     (if unget_char s \<noteq> EOF then Some (unget_char s, s\<lparr>unget_char := EOF\<rparr>)
      else if input_valid s \<and> input_pos s < input_len s then next_char s
      else do { s \<leftarrow> read_line s;
                if input_pos s < input_len s then next_char s else Some (EOF, s) })"

definition ungetc :: "int \<Rightarrow> stdin \<Rightarrow> int \<times> stdin" where
  "ungetc c s =
     (if unget_char s \<noteq> EOF then (EOF, s) else (c, if c \<noteq> EOF then s\<lparr>unget_char := c\<rparr> else s))"

section \<open>How much input is left\<close>

text \<open>The measure that every \<open>getchar\<close> decreases.\<close>

definition input_left :: "stdin \<Rightarrow> nat" where
  "input_left s = length (keys s) + (if input_valid s then input_len s - input_pos s else 0) +
     (if unget_char s \<noteq> EOF then 1 else 0)"

lemma edit_line_left:
  "edit_line ks s = Some (c, t) \<Longrightarrow>
   length (keys t) + input_len t < length ks + input_len s \<and> unget_char t = unget_char s \<and>
   input_pos t = input_pos s"
proof (induction ks arbitrary: s)
  case Nil
  then show ?case by simp
next
  case (Cons k ks)
  from Cons.prems show ?case
    by (fastforce simp: Let_def split: if_splits bind_splits dest: Cons.IH)
qed

lemma getchar_left: "getchar s = Some (c, t) \<Longrightarrow> input_left t < input_left s"
proof -
  assume g: "getchar s = Some (c, t)"
  consider "unget_char s \<noteq> EOF" | "unget_char s = EOF" "input_valid s \<and> input_pos s < input_len s"
    | "unget_char s = EOF" "\<not> (input_valid s \<and> input_pos s < input_len s)" by blast
  then show ?thesis
  proof cases
    case 1
    with g show ?thesis by (auto simp: getchar_def input_left_def)
  next
    case 2
    with g show ?thesis by (auto simp: getchar_def input_left_def next_char_def split: bind_splits)
  next
    case 3
    then obtain k u v where e: "edit_line (keys s) (s\<lparr>input_pos := 0, input_len := 0, input_valid := False\<rparr>) = Some (k, u)"
        and v: "read_line s = Some v" "keys v = keys u" "input_len v \<le> input_len u + 1" "input_pos v = 0"
          "unget_char v = EOF" "input_valid v"
        and t: "(if input_pos v < input_len v then next_char v else Some (EOF, v)) = Some (c, t)"
      using g by (fastforce simp: getchar_def read_line_def dest: edit_line_left split: bind_splits if_splits)
    from edit_line_left [OF e] have "length (keys u) + input_len u < length (keys s)" by simp
    with v t 3 show ?thesis
      by (auto simp: input_left_def next_char_def split: bind_splits if_splits)
  qed
qed


section \<open>Lines\<close>

function skip_spaces :: "stdin \<Rightarrow> (int \<times> stdin) option" where
  "skip_spaces s =
     do { (c, s) \<leftarrow> getchar s; if io_isspace c then skip_spaces s else Some (c, s) }"
  by pat_completeness auto
termination by (relation "measure input_left") (auto dest: getchar_left)

text \<open>The characters up to a newline or the end: the key that ended the loop, what is stored.\<close>

function gets_loop :: "stdin \<Rightarrow> (int \<times> u8 list \<times> stdin) option" where
  "gets_loop s =
     do { (c, s) \<leftarrow> getchar s;
          if c \<noteq> 10 \<and> c \<noteq> EOF then
            do { (e, cs, s) \<leftarrow> gets_loop s; Some (e, word_of_int c # cs, s) }
          else Some (c, [], s) }"
  by pat_completeness auto
termination by (relation "measure input_left") (auto dest: getchar_left)

text \<open>The inner \<open>None\<close> is the \<open>NULL\<close> that is returned at the end of the input.\<close>

definition gets :: "stdin \<Rightarrow> (u8 list option \<times> stdin) option" where
  "gets s =
     do { (c, cs, s) \<leftarrow> gets_loop s; Some (if c = EOF \<and> cs = [] then None else Some cs, s) }"

fun fgets_loop :: "nat \<Rightarrow> int \<Rightarrow> stdin \<Rightarrow> (int \<times> u8 list \<times> stdin) option" where
  "fgets_loop 0 c s = Some (c, [], s)"
| "fgets_loop (Suc n) _ s =
     do { (c, s) \<leftarrow> getchar s;
          if c \<noteq> 10 \<and> c \<noteq> EOF then
            do { (e, cs, s) \<leftarrow> fgets_loop n c s; Some (e, word_of_int c # cs, s) }
          else Some (c, [], s) }"

text \<open>With a size of 1 or less the loop does not run and \<open>c\<close> is read before it is set.\<close>

definition fgets :: "int \<Rightarrow> stdin \<Rightarrow> (u8 list option \<times> stdin) option" where
  "fgets n s =
     (if n \<le> 1 then None
      else do { (c, cs, s) \<leftarrow> fgets_loop (nat (n - 1)) 0 s;
                let cs = (if c = 10 then cs @ [10] else cs)
                in Some (if c = EOF \<and> cs = [] then None else Some cs, s) })"

section \<open>\<open>scanf\<close>\<close>

datatype stored = SInt int | SUInt u32 | SChar u8 | SStr "u8 list"

function scan_dec :: "int \<Rightarrow> int \<Rightarrow> stdin \<Rightarrow> (int \<times> int \<times> stdin) option" where
  "scan_dec v c s =
     (if io_isdigit c then
        do { (c', s) \<leftarrow> getchar s; scan_dec (wrap32 (v * 10 + (c - 48))) c' s }
      else Some (v, c, s))"
  by pat_completeness auto
termination by (relation "measure (\<lambda>(_, _, s). input_left s)") (auto dest: getchar_left)

function scan_uns :: "u32 \<Rightarrow> int \<Rightarrow> stdin \<Rightarrow> (u32 \<times> int \<times> stdin) option" where
  "scan_uns v c s =
     (if io_isdigit c then
        do { (c', s) \<leftarrow> getchar s; scan_uns (v * 10 + word_of_int (c - 48)) c' s }
      else Some (v, c, s))"
  by pat_completeness auto
termination by (relation "measure (\<lambda>(_, _, s). input_left s)") (auto dest: getchar_left)

definition hex_value :: "int \<Rightarrow> int" where
  "hex_value c = (if io_isdigit c then c - 48 else io_tolower c - 97 + 10)"

function scan_hex :: "int \<Rightarrow> int \<Rightarrow> stdin \<Rightarrow> (int \<times> int \<times> stdin) option" where
  "scan_hex v c s =
     (if io_isxdigit c then
        do { (c', s) \<leftarrow> getchar s; scan_hex (wrap32 (v * 16 + hex_value c)) c' s }
      else Some (v, c, s))"
  by pat_completeness auto
termination by (relation "measure (\<lambda>(_, _, s). input_left s)") (auto dest: getchar_left)

function scan_word :: "int \<Rightarrow> stdin \<Rightarrow> (u8 list \<times> int \<times> stdin) option" where
  "scan_word c s =
     (if \<not> io_isspace c \<and> c \<noteq> EOF then
        do { (c', s) \<leftarrow> getchar s; (cs, e, s) \<leftarrow> scan_word c' s; Some (word_of_int c # cs, e, s) }
      else Some ([], c, s))"
  by pat_completeness auto
termination by (relation "measure (\<lambda>(_, s). input_left s)") (auto dest: getchar_left)

declare skip_spaces.simps [simp del] gets_loop.simps [simp del] scan_dec.simps [simp del]
  scan_uns.simps [simp del] scan_hex.simps [simp del] scan_word.simps [simp del]

abbreviation unget :: "int \<Rightarrow> stdin \<Rightarrow> stdin" where
  "unget c s \<equiv> snd (ungetc c s)"

text \<open>
  One conversion: whether to go on with the format, what is added to the count, what is stored.
  \<open>%d\<close>, \<open>%u\<close> and \<open>%x\<close> store a zero before they look at the input.
\<close>

definition scan_conv :: "u8 \<Rightarrow> stdin \<Rightarrow> (bool \<times> int \<times> stored list \<times> stdin) option" where
  "scan_conv k s =
     (if k = ch CHR ''d'' \<or> k = ch CHR ''i'' then
        do { (c, s) \<leftarrow> getchar s;
             (sign, c, s) \<leftarrow> (if c = 45 then do { (c, s) \<leftarrow> getchar s; Some (-1, c, s) }
                             else if c = 43 then do { (c, s) \<leftarrow> getchar s; Some (1, c, s) }
                             else Some (1, c, s));
             if \<not> io_isdigit c then Some (False, 0, [SInt 0], unget c s)
             else do { (v, c, s) \<leftarrow> scan_dec 0 c s;
                       Some (True, 1, [SInt (wrap32 (v * sign))], unget c s) } }
      else if k = ch CHR ''u'' then
        do { (c, s) \<leftarrow> getchar s;
             if \<not> io_isdigit c then Some (False, 0, [SUInt 0], unget c s)
             else do { (v, c, s) \<leftarrow> scan_uns 0 c s; Some (True, 1, [SUInt v], unget c s) } }
      else if k = ch CHR ''x'' \<or> k = ch CHR ''X'' then
        do { (c, s) \<leftarrow> getchar s;
             (c, s) \<leftarrow> (if c = 48 then
                         do { (c, s) \<leftarrow> getchar s;
                              if c = 120 \<or> c = 88 then getchar s else Some (48, unget c s) }
                       else Some (c, s));
             if \<not> io_isxdigit c then Some (False, 0, [SInt 0], unget c s)
             else do { (v, c, s) \<leftarrow> scan_hex 0 c s; Some (True, 1, [SInt v], unget c s) } }
      else if k = ch CHR ''c'' then
        do { (c, s) \<leftarrow> getchar s;
             Some (if c = EOF then (False, 0, [], s) else (True, 1, [SChar (word_of_int c)], s)) }
      else if k = ch CHR ''s'' then
        do { (c, s) \<leftarrow> skip_spaces s;
             if c = EOF then Some (False, 0, [], s)
             else do { (cs, c, s) \<leftarrow> scan_word c s; Some (True, 1, [SStr cs], unget c s) } }
      else if k = ch CHR ''%'' then
        do { (c, s) \<leftarrow> getchar s;
             Some (if c \<noteq> 37 then (False, 0, [], unget c s) else (True, 0, [], s)) }
      else Some (False, 0, [], s))"

text \<open>The count, the stored values and the input left.\<close>

function scanf :: "u8 list \<Rightarrow> stdin \<Rightarrow> (int \<times> stored list \<times> stdin) option" where
  "scanf format s =
     (if format = [] then Some (0, [], s)
      else case dropWhile atoi_space format of
        [] \<Rightarrow> do { (c, s) \<leftarrow> getchar s; if c \<noteq> 0 then Some (0, [], unget c s) else None }
      | f # p \<Rightarrow>
          if f = ch CHR ''%'' then
            do { (c, s) \<leftarrow> skip_spaces s;
                 case skip_length p of
                   [] \<Rightarrow> Some (0, [], unget c s)
                 | k # p \<Rightarrow>
                     do { (go, n, vs, s) \<leftarrow> scan_conv k (unget c s);
                          if go then
                            do { (m, ws, s) \<leftarrow> scanf p s; Some (n + m, vs @ ws, s) }
                          else Some (n, vs, s) } }
          else
            do { (c, s) \<leftarrow> getchar s;
                 if c \<noteq> sint f then Some (0, [], unget c s) else scanf p s })"
  by pat_completeness auto
termination
proof -
  have dw: "dropWhile P xs = y # ys \<Longrightarrow> length ys < length xs" for P and xs :: "u8 list" and y ys
    using length_dropWhile_le [of P xs] by simp
  have sl: "skip_length p = k # q \<Longrightarrow> length q < length p" for p k q
    by (auto simp: skip_length_def split: if_splits dest: arg_cong [of _ _ length])
  show ?thesis
    by (relation "measure (\<lambda>(p, _). length p)") (auto dest: dw sl intro: less_trans [OF sl dw])
qed

section \<open>\<open>sscanf\<close>\<close>

text \<open>Digits, at most \<open>w\<close> of them unless \<open>w\<close> is zero: the value, how many, the string left.\<close>

fun ss_dec :: "int \<Rightarrow> int \<Rightarrow> int \<Rightarrow> u8 list \<Rightarrow> int \<times> int \<times> u8 list" where
  "ss_dec w num digits [] = (num, digits, [])"
| "ss_dec w num digits (c # p) =
     (if io_isdigit (sint c) \<and> (w = 0 \<or> digits < w)
      then ss_dec w (wrap32 (num * 10 + (sint c - 48))) (digits + 1) p
      else (num, digits, c # p))"

fun ss_uns :: "int \<Rightarrow> u32 \<Rightarrow> int \<Rightarrow> u8 list \<Rightarrow> u32 \<times> int \<times> u8 list" where
  "ss_uns w num digits [] = (num, digits, [])"
| "ss_uns w num digits (c # p) =
     (if io_isdigit (sint c) \<and> (w = 0 \<or> digits < w)
      then ss_uns w (num * 10 + word_of_int (sint c - 48)) (digits + 1) p
      else (num, digits, c # p))"

fun ss_hex :: "int \<Rightarrow> int \<Rightarrow> int \<Rightarrow> u8 list \<Rightarrow> int \<times> int \<times> u8 list" where
  "ss_hex w num digits [] = (num, digits, [])"
| "ss_hex w num digits (c # p) =
     (if io_isxdigit (sint c) \<and> (w = 0 \<or> digits < w)
      then ss_hex w (wrap32 (num * 16 + hex_value (sint c))) (digits + 1) p
      else (num, digits, c # p))"

fun ss_word :: "int \<Rightarrow> int \<Rightarrow> u8 list \<Rightarrow> u8 list \<times> int \<times> u8 list" where
  "ss_word w chars [] = ([], chars, [])"
| "ss_word w chars (c # p) =
     (if \<not> io_isspace (sint c) \<and> (w = 0 \<or> chars < w)
      then let (cs, n, p) = ss_word w (chars + 1) p in (c # cs, n, p)
      else ([], chars, c # p))"

definition ss_skip :: "u8 list \<Rightarrow> u8 list" where
  "ss_skip p = dropWhile (\<lambda>c. io_isspace (sint c)) p"

text \<open>One conversion: whether to go on, what is added to the count, what is stored, the rest.\<close>

definition ss_conv :: "u8 \<Rightarrow> int \<Rightarrow> u8 list \<Rightarrow> bool \<times> int \<times> stored list \<times> u8 list" where
  "ss_conv k w p =
     (if k = ch CHR ''d'' \<or> k = ch CHR ''i'' then
        let (sign, p) = read_sign (ss_skip p);
            (num, digits, p) = ss_dec w 0 0 p
        in if digits = 0 then (False, 0, [], p) else (True, 1, [SInt (wrap32 (num * sign))], p)
      else if k = ch CHR ''u'' then
        let (num, digits, p) = ss_uns w 0 0 (ss_skip p)
        in if digits = 0 then (False, 0, [], p) else (True, 1, [SUInt num], p)
      else if k = ch CHR ''x'' \<or> k = ch CHR ''X'' then
        let p = ss_skip p;
            p = (if peek p = 48 \<and> (peek (tl p) = 120 \<or> peek (tl p) = 88) then drop 2 p else p);
            (num, digits, p) = ss_hex w 0 0 p
        in if digits = 0 then (False, 0, [], p) else (True, 1, [SInt num], p)
      else if k = ch CHR ''c'' then
        (case p of [] \<Rightarrow> (False, 0, [], p) | c # p \<Rightarrow> (True, 1, [SChar c], p))
      else if k = ch CHR ''s'' then
        let (cs, chars, p) = ss_word w 0 (ss_skip p)
        in if chars = 0 then (False, 0, [], p) else (True, 1, [SStr cs], p)
      else if k = ch CHR ''%'' then (if peek p \<noteq> 37 then (False, 0, [], p) else (True, 0, [], tl p))
      else (False, 0, [], p))"

text \<open>The count and the stored values.\<close>

function sscanf :: "u8 list \<Rightarrow> u8 list \<Rightarrow> int \<times> stored list" where
  "sscanf str format =
     (if format = [] \<or> str = [] then (0, [])
      else case dropWhile atoi_space format of
        [] \<Rightarrow> (0, [])
      | f # p \<Rightarrow>
          if f = ch CHR ''%'' then
            let (w, p) = parse_number 0 p in
            case p of
              [] \<Rightarrow> (0, [])
            | k # p \<Rightarrow>
                (case ss_conv k w str of
                   (go, n, vs, str) \<Rightarrow>
                     if go then let (m, ws) = sscanf str p in (n + m, vs @ ws) else (n, vs))
          else if hd str \<noteq> f then (0, []) else sscanf (tl str) p)"
  by pat_completeness auto
termination
proof -
  have dw: "dropWhile P xs = y # ys \<Longrightarrow> length ys < length xs" for P and xs :: "u8 list" and y ys
    using length_dropWhile_le [of P xs] by simp
  have pn: "(w, k # q) = parse_number n p \<Longrightarrow> length q < length p" for w k q n p
    using parse_number_length [of n p] by (cases "parse_number n p") auto
  show ?thesis
    by (relation "measure (\<lambda>(_, p). length p)") (auto dest: dw intro: less_trans [OF pn dw])
qed

declare scanf.simps [simp del] sscanf.simps [simp del]


section \<open>Reading a line\<close>

definition printable :: "int \<Rightarrow> bool" where
  "printable c \<longleftrightarrow> 32 \<le> c \<and> c \<le> 126"

lemma edit_line_printable:
  assumes "list_all printable cs" "length (input_buffer s) = 256" "input_len s + length cs \<le> 255"
  shows "\<exists>t. edit_line (cs @ 10 # ks) s = Some (10, t) \<and> keys t = ks \<and> input_pos t = input_pos s \<and>
    input_len t = input_len s + length cs \<and> length (input_buffer t) = 256 \<and> unget_char t = unget_char s \<and>
    take (input_len t) (input_buffer t) = take (input_len s) (input_buffer s) @ map word_of_int cs"
  using assms
proof (induction cs arbitrary: s)
  case Nil
  then show ?case by simp
next
  case (Cons c cs)
  let ?s = "s\<lparr>keys := cs @ 10 # ks, input_buffer := (input_buffer s)[input_len s := word_of_int c],
    input_len := input_len s + 1, screen := screen s @ [word_of_int c]\<rparr>"
  have "edit_line ((c # cs) @ 10 # ks) s = edit_line (cs @ 10 # ks) ?s"
    using Cons.prems by (simp add: printable_def wr_def Let_def)
  with Cons.IH [of ?s] Cons.prems show ?case
    by (auto simp: take_Suc_conv_app_nth)
qed

lemma read_line_printable:
  assumes "list_all printable cs" "length (input_buffer s) = 256" "length cs \<le> 254"
    "keys s = cs @ 10 # ks" "unget_char s = EOF"
  shows "\<exists>t. read_line s = Some t \<and> keys t = ks \<and> input_pos t = 0 \<and> input_len t = length cs + 1 \<and>
    input_valid t \<and> length (input_buffer t) = 256 \<and> unget_char t = EOF \<and>
    take (input_len t) (input_buffer t) = map word_of_int (cs @ [10])"
proof -
  obtain t where t: "edit_line (cs @ 10 # ks) (s\<lparr>input_pos := 0, input_len := 0, input_valid := False\<rparr>) = Some (10, t)"
      "keys t = ks" "input_pos t = 0" "input_len t = length cs" "length (input_buffer t) = 256"
      "unget_char t = EOF" "take (length cs) (input_buffer t) = map word_of_int cs"
    using edit_line_printable [of cs "s\<lparr>input_pos := 0, input_len := 0, input_valid := False\<rparr>" ks] assms
    by auto
  then show ?thesis
    using assms by (auto simp: read_line_def wr_def take_Suc_conv_app_nth)
qed

text \<open>A line of 255 characters: the newline takes the last byte of the buffer, the zero the next.\<close>

lemma read_line_overflow:
  assumes "list_all printable cs" "length (input_buffer s) = 256" "length cs = 255"
    "keys s = cs @ 10 # ks"
  shows "read_line s = None"
proof -
  obtain t where t: "edit_line (cs @ 10 # ks) (s\<lparr>input_pos := 0, input_len := 0, input_valid := False\<rparr>) = Some (10, t)"
      "input_len t = 255" "length (input_buffer t) = 256"
    using edit_line_printable [of cs "s\<lparr>input_pos := 0, input_len := 0, input_valid := False\<rparr>" ks] assms
    by auto
  then show ?thesis using assms by (simp add: read_line_def wr_def)
qed

lemma printable_char:
  assumes "printable c"
  shows "sint (word_of_int c :: u8) = c" "c \<noteq> 10" "c \<noteq> EOF"
proof -
  show "sint (word_of_int c :: u8) = c"
    using assms unfolding printable_def by transfer (simp add: signed_take_bit_int_eq_self)
  show "c \<noteq> 10" "c \<noteq> EOF" using assms by (auto simp: printable_def)
qed

lemma drop_take_nth: "drop p (take l b) = x # xs \<Longrightarrow> p < l \<Longrightarrow> b ! p = x"
  using nth_via_drop [of p "take l b" x xs] by simp

text \<open>Reading what the buffer still holds.\<close>

lemma gets_loop_buffer:
  assumes "list_all printable cs" "unget_char s = EOF" "input_valid s"
    and "input_pos s + length cs + 1 = input_len s" "input_len s \<le> length (input_buffer s)"
    and "drop (input_pos s) (take (input_len s) (input_buffer s)) = map word_of_int (cs @ [10])"
  shows "\<exists>t. gets_loop s = Some (10, map word_of_int cs, t) \<and> keys t = keys s"
  using assms
proof (induction cs arbitrary: s)
  case Nil
  have "input_buffer s ! input_pos s = 10"
    using Nil.prems(4) by (intro drop_take_nth [OF Nil.prems(6) [simplified]]) simp
  then show ?case
    using Nil.prems by (subst gets_loop.simps) (simp add: getchar_def next_char_def rd_def)
next
  case (Cons c cs)
  let ?s = "s\<lparr>input_pos := input_pos s + 1\<rparr>"
  have "input_buffer s ! input_pos s = word_of_int c"
    using Cons.prems(4) by (intro drop_take_nth [OF Cons.prems(6) [simplified]]) simp
  moreover have "drop (input_pos s + 1) (take (input_len s) (input_buffer s)) = map word_of_int (cs @ [10])"
    using arg_cong [OF Cons.prems(6), of tl] by (simp add: tl_drop drop_Suc)
  ultimately show ?case
    using Cons.prems Cons.IH [of ?s] printable_char [of c]
    by (subst gets_loop.simps) (auto simp: getchar_def next_char_def rd_def)
qed

section \<open>\<open>sscanf\<close> and \<open>atoi\<close>\<close>






section \<open>Properties\<close>

text \<open>A line typed without corrections is read back: for every line of at most 254 printable
  characters and whatever is typed after it, \<open>gets\<close> returns the line and leaves the rest.\<close>

theorem gets_line:
  assumes "list_all printable cs" "length cs \<le> 254"
  shows "\<exists>t. gets (stdin0 (cs @ 10 # ks)) = Some (Some (map word_of_int cs), t) \<and> keys t = ks"
proof -
  let ?s = "stdin0 (cs @ 10 # ks)"
  obtain t where t: "read_line ?s = Some t" "keys t = ks" "input_pos t = 0" "input_len t = length cs + 1"
      "input_valid t" "length (input_buffer t) = 256" "unget_char t = EOF"
      "take (input_len t) (input_buffer t) = map word_of_int (cs @ [10])"
    using read_line_printable [of cs ?s ks] assms by (auto simp: stdin0_def)
  then have "getchar ?s = getchar t" by (simp add: getchar_def stdin0_def)
  then have "gets_loop ?s = gets_loop t" by (subst (1 2) gets_loop.simps) simp
  with gets_loop_buffer [of cs t] t assms show ?thesis by (auto simp: gets_def)
qed

lemma gets_line_witness:
  "\<exists>t. gets (stdin0 ([108, 115] @ 10 # [112])) = Some (Some (map word_of_int [108, 115]), t) \<and> keys t = [112]"
  by (rule gets_line) (simp_all add: printable_def)

text \<open>A line of exactly 255 printable characters overruns the buffer of 256 bytes: the newline
  is stored in its last byte and the zero behind it.\<close>

theorem getchar_line_overflow:
  assumes "list_all printable cs" "length cs = 255"
  shows "getchar (stdin0 (cs @ 10 # ks)) = None"
  using read_line_overflow [of cs "stdin0 (cs @ 10 # ks)" ks] assms
  by (simp add: getchar_def stdin0_def)

lemma getchar_line_overflow_witness: "getchar (stdin0 (replicate 255 97 @ 10 # [])) = None"
  by (rule getchar_line_overflow) (simp_all add: list_all_iff printable_def)



end
