(* ===== verification/Timelib.thy ===== *)
theory Timelib
  imports Prelude Stdio
begin

text \<open>
  Time in \<open>lib/libc/time.c\<close>.  \<open>time_t\<close> and the fields of \<open>struct tm\<close> are integers, with the
  32-bit wrap-around of \<open>int\<close> written out; the static counters are parts of the state.
  \<open>difftime\<close>, which returns a \<open>double\<close>, is not modelled.
\<close>

record tm =
  tm_sec :: int
  tm_min :: int
  tm_hour :: int
  tm_mday :: int
  tm_mon :: int
  tm_year :: int
  tm_wday :: int
  tm_yday :: int
  tm_isdst :: int
  tm_nsec :: int

record timespec =
  tv_sec :: int
  tv_nsec :: int

section \<open>Calendar\<close>

text \<open>\<open>time\<close>: the static \<open>current_time\<close> and the result.\<close>

definition time :: "int \<Rightarrow> int \<times> int" where
  "time current_time = (let current_time = wrap64 (current_time + 1) in (current_time, current_time))"

definition tm_of :: "int \<Rightarrow> tm" where
  "tm_of t =
     \<lparr>tm_sec = t smod 60, tm_min = (t sdiv 60) smod 60, tm_hour = (t sdiv 3600) smod 24,
      tm_mday = (t sdiv 86400) smod 31 + 1, tm_mon = (t sdiv 2678400) smod 12,
      tm_year = wrap32 (t sdiv 32140800 + 70), tm_wday = (t sdiv 86400) smod 7,
      tm_yday = (t sdiv 86400) smod 365, tm_isdst = -1, tm_nsec = 0\<rparr>"

text \<open>A null pointer asks for the current time.\<close>

definition gmtime :: "int option \<Rightarrow> int \<Rightarrow> int \<times> tm" where
  "gmtime timer current_time =
     (case timer of
        Some t \<Rightarrow> (current_time, tm_of t)
      | None \<Rightarrow> let (current_time, t) = time current_time in (current_time, tm_of t))"

definition localtime :: "int option \<Rightarrow> int \<Rightarrow> int \<times> tm" where
  "localtime = gmtime"

definition mktime :: "tm \<Rightarrow> int" where
  "mktime tm =
     wrap32 (tm_sec tm + tm_min tm * 60 + tm_hour tm * 3600 + tm_mday tm * 86400 + tm_mon tm * 2678400 +
             (tm_year tm - 70) * 32140800)"

section \<open>Formatting\<close>

definition wday_names :: "string list" where
  "wday_names = [''Sun'', ''Mon'', ''Tue'', ''Wed'', ''Thu'', ''Fri'', ''Sat'']"

definition mon_names :: "string list" where
  "mon_names = [''Jan'', ''Feb'', ''Mar'', ''Apr'', ''May'', ''Jun'',
                ''Jul'', ''Aug'', ''Sep'', ''Oct'', ''Nov'', ''Dec'']"

text \<open>A name outside its table is read out of bounds.\<close>

definition name_at :: "string list \<Rightarrow> int \<Rightarrow> arg option" where
  "name_at names i =
     (if i < 0 then None else do { n \<leftarrow> rd names (nat i); Some (Str (Some (bytes n))) })"

abbreviation num :: "int \<Rightarrow> arg" where
  "num i \<equiv> Num (word_of_int i)"

definition asctime :: "tm \<Rightarrow> u8 list option" where
  "asctime tm =
     do { wday \<leftarrow> name_at wday_names (tm_wday tm);
          mon \<leftarrow> name_at mon_names (tm_mon tm);
          vsnprintf 26 (bytes ''%.3s %.3s%3d %.2d:%.2d:%.2d %d'' @ [10])
            [wday, mon, num (tm_mday tm), num (tm_hour tm), num (tm_min tm), num (tm_sec tm),
             num (1900 + tm_year tm)] }"

definition ctime :: "int option \<Rightarrow> int \<Rightarrow> (int \<times> u8 list) option" where
  "ctime timer current_time =
     (let (current_time, tm) = gmtime timer current_time
      in do { s \<leftarrow> asctime tm; Some (current_time, s) })"

text \<open>The stored string and the result; the format argument is not used.\<close>

definition strftime :: "nat \<Rightarrow> u8 list \<Rightarrow> tm \<Rightarrow> (u8 list \<times> nat) option" where
  "strftime n format tm =
     do { s \<leftarrow> vsnprintf n (bytes ''%04d-%02d-%02d %02d:%02d:%02d'')
            [num (1900 + tm_year tm), num (tm_mon tm + 1), num (tm_mday tm),
             num (tm_hour tm), num (tm_min tm), num (tm_sec tm)];
          Some (s, length s) }"

section \<open>Delays and clocks\<close>

text \<open>The loop of \<open>delay\<close>: a 32-bit counter against a 64-bit bound; it may run forever.\<close>

partial_function (option) delay_loop :: "u32 \<Rightarrow> u64 \<Rightarrow> u32 option" where
  "delay_loop i bound = (if ucast i < bound then delay_loop (i + 1) bound else Some i)"

definition delay :: "u64 \<Rightarrow> u32 option" where
  "delay ms = delay_loop 0 (ms * 10000)"

text \<open>\<open>nanosleep\<close>: what is stored through \<open>rem\<close> when it is not null, and the result.\<close>

definition nanosleep :: "timespec \<Rightarrow> bool \<Rightarrow> (timespec option \<times> int) option" where
  "nanosleep req rem =
     (let ms = word_of_int (tv_sec req * 1000) + word_of_int (tv_nsec req sdiv 1000000) :: u32
      in do { _ \<leftarrow> delay (ucast ms);
              Some (if rem then Some \<lparr>tv_sec = 0, tv_nsec = 0\<rparr> else None, 0) })"

text \<open>The static \<open>counter\<close>, what is stored, and the result.\<close>

definition clock_gettime :: "bool \<Rightarrow> u32 \<Rightarrow> u32 \<times> timespec option \<times> int" where
  "clock_gettime tp counter =
     (if \<not> tp then (counter, None, -1)
      else (counter + 1,
            Some \<lparr>tv_sec = uint (counter div 10), tv_nsec = uint ((counter mod 10) * 100000000)\<rparr>, 0))"

definition clock_settime :: int where "clock_settime = -1"

definition clock_getres :: "bool \<Rightarrow> timespec option \<times> int" where
  "clock_getres res = (if \<not> res then (None, -1) else (Some \<lparr>tv_sec = 0, tv_nsec = 1000000\<rparr>, 0))"

section \<open>Lemmas\<close>

lemma sdiv_smod_nonneg:
  "0 \<le> t \<Longrightarrow> 0 < b \<Longrightarrow> t sdiv b = t div b" "0 \<le> t \<Longrightarrow> 0 < b \<Longrightarrow> t smod b = t mod b" for t b :: int
  by (simp_all add: smod_sdiv_nonneg)

text \<open>Seconds, minutes, hours, days, months of 31 days and years of 372 days.\<close>

lemma time_parts:
  fixes t :: int
  shows "t = t mod 60 + (t div 60) mod 60 * 60 + (t div 3600) mod 24 * 3600 +
    (t div 86400) mod 31 * 86400 + (t div 2678400) mod 12 * 2678400 + t div 32140800 * 32140800"
proof -
  have step: "t div a = (t div (a * b)) * b + (t div a) mod b" if "0 < b" for a b :: int
    using zdiv_zmult2_eq [of b t a] that div_mult_mod_eq [of "t div a" b] by simp
  have 1: "t = t div 60 * 60 + t mod 60" by simp
  have 2: "t div 60 = (t div 3600) * 60 + (t div 60) mod 60" using step [of 60 60] by simp
  have 3: "t div 3600 = (t div 86400) * 24 + (t div 3600) mod 24" using step [of 24 3600] by simp
  have 4: "t div 86400 = (t div 2678400) * 31 + (t div 86400) mod 31" using step [of 31 86400] by simp
  have 5: "t div 2678400 = (t div 32140800) * 12 + (t div 2678400) mod 12" using step [of 12 2678400] by simp
  show ?thesis using 1 2 3 4 5 by linarith
qed

lemma unat_widen: "unat (ucast (w :: u32) :: u64) = unat w"
proof -
  have "unat w < 2 ^ 32" using unsigned_less [of w] by simp
  then have "take_bit 64 (unat w) = unat w" by (simp add: take_bit_nat_eq_self_iff)
  then show ?thesis by (simp add: unsigned_ucast_eq)
qed

lemma unat_u32: "k < 2 ^ 32 \<Longrightarrow> unat (of_nat k :: u32) = k"
  by (simp add: unat_of_nat take_bit_nat_eq_self)

lemma delay_loop_end:
  assumes "k \<le> unat bound" "unat bound < 2 ^ 32"
  shows "delay_loop (of_nat k) bound = Some (of_nat (unat bound))"
  using assms(1)
proof (induction "unat bound - k" arbitrary: k)
  case 0
  then have k: "k = unat bound" by simp
  have "unat (of_nat k :: u32) = k" using assms(2) k by (intro unat_u32) simp
  then have "\<not> ucast (of_nat k :: u32) < bound"
    unfolding word_less_nat_alt unat_widen using k by simp
  then show ?case by (subst delay_loop.simps) (simp only: k if_False)
next
  case (Suc n)
  then have k: "k < unat bound" by simp
  have "unat (of_nat k :: u32) = k" using assms(2) k by (intro unat_u32) simp
  then have "ucast (of_nat k :: u32) < bound" using k by (simp add: word_less_nat_alt unat_widen)
  moreover have "delay_loop (of_nat (Suc k)) bound = Some (of_nat (unat bound))"
    using Suc k by (intro Suc.hyps(1)) simp_all
  ultimately show ?case by (subst delay_loop.simps) (simp add: add.commute)
qed

lemma delay_loop_diverges: "delay_loop i bound = Some r \<Longrightarrow> unat bound < 2 ^ 32"
proof (rule delay_loop.raw_induct [where P = "\<lambda>i b r. unat b < 2 ^ 32"])
  fix f and i :: u32 and b :: u64 and r
  assume IH: "\<And>i b r. f i b = Some r \<Longrightarrow> unat b < 2 ^ 32"
    and body: "(if ucast i < b then f (i + 1) b else Some i) = Some r"
  show "unat b < 2 ^ 32"
  proof (cases "ucast i < b")
    case True
    with body show ?thesis by (intro IH [of "i + 1" b r]) simp
  next
    case False
    then have "unat b \<le> unat (ucast i :: u64)" by (simp only: word_less_nat_alt not_less)
    then have "unat b \<le> unat i" by (simp only: unat_widen)
    moreover have "unat i < 2 ^ 32" using unsigned_less [of i] by simp
    ultimately show ?thesis by simp
  qed
qed

lemma delay_returns: "delay ms \<noteq> None \<longleftrightarrow> unat (ms * 10000) < 2 ^ 32"
  using delay_loop_end [of 0 "ms * 10000"] delay_loop_diverges [of 0 "ms * 10000"]
  by (auto simp: delay_def)

lemma length_bytes: "length (bytes s) = length s"
  by (simp add: bytes_def)

lemma time_format_literal:
  "vsnprintf 26 (bytes ''%.3s %.3s%3d %.2d:%.2d:%.2d %d'' @ [10]) args =
    Some (bytes ''%.3s %.3s%3d %.2d:%.2d:%.'')"
  "vsnprintf 30 (bytes ''%04d-%02d-%02d %02d:%02d:%02d'') args =
    Some (bytes ''%04d-%02d-%02d %02d:%02d:%02d'')"
  by code_simp+

section \<open>Properties\<close>

text \<open>\<open>mktime\<close> is a day off: for every time from the epoch to a day before the end of the
  32-bit range, converting to a calendar date and back gives the time one day later, because
  \<open>gmtime\<close> counts the days of a month from 1 and \<open>mktime\<close> from 0.\<close>

theorem mktime_day_late:
  assumes "0 \<le> t" "t < 2 ^ 31 - 86400"
  shows "mktime (snd (gmtime (Some t) c)) = t + 86400"
proof -
  have "t div 32140800 \<le> (2 ^ 31 - 86400) div 32140800"
    using assms by (intro zdiv_mono1) simp_all
  moreover have "0 \<le> t div 32140800" using assms(1) by (simp add: pos_imp_zdiv_nonneg_iff)
  ultimately have year: "wrap32 (t div 32140800 + 70) = t div 32140800 + 70"
    by (intro wrap32_id) (simp add: int32_range_def)
  have "tm_sec tm + tm_min tm * 60 + tm_hour tm * 3600 + tm_mday tm * 86400 + tm_mon tm * 2678400 +
      (tm_year tm - 70) * 32140800 = t + 86400" if "tm = tm_of t" for tm
    using time_parts [of t] assms(1) unfolding that by (simp add: tm_of_def sdiv_smod_nonneg year pos_imp_zdiv_nonneg_iff)
  then show ?thesis
    using assms by (simp add: gmtime_def mktime_def int32_range_def)
qed

lemma mktime_day_late_witness: "mktime (snd (gmtime (Some 1000000000) 0)) = 1000000000 + 86400"
  by (rule mktime_day_late) simp_all

text \<open>\<open>nanosleep\<close> comes back exactly if the loop bound fits the 32-bit loop counter, that is,
  for delays up to 429496 milliseconds; a longer one never ends.\<close>

theorem nanosleep_returns:
  "nanosleep req rem \<noteq> None \<longleftrightarrow>
     unat (word_of_int (tv_sec req * 1000) + word_of_int (tv_nsec req sdiv 1000000) :: u32) \<le> 429496"
proof -
  let ?ms = "word_of_int (tv_sec req * 1000) + word_of_int (tv_nsec req sdiv 1000000) :: u32"
  have "unat ?ms < 2 ^ 32" using unsigned_less [of ?ms] by simp
  then have eq: "unat (ucast ?ms * 10000 :: u64) = unat ?ms * 10000"
    by (simp only: unat_word_ariths unat_widen unat_numeral len_bit0 len_num1) simp
  have "delay (ucast ?ms) \<noteq> None \<longleftrightarrow> unat ?ms \<le> 429496"
    unfolding delay_returns eq by (auto simp del: of_int_add of_int_mult)
  then show ?thesis by (cases "delay (ucast ?ms)") (simp_all add: nanosleep_def Let_def)
qed

text \<open>The formatters of dates do not show the date: \<open>vsnprintf\<close> knows no precision and no
  padding, so \<open>asctime\<close> gives its own format, cut to 25 characters, for every date whose names
  exist, and \<open>strftime\<close> the fixed format for every date.\<close>

theorem dates_not_formatted:
  assumes "0 \<le> tm_wday d" "tm_wday d < 7" "0 \<le> tm_mon d" "tm_mon d < 12"
  shows "asctime d = Some (bytes ''%.3s %.3s%3d %.2d:%.2d:%.'') \<and>
    strftime 30 f d = Some (bytes ''%04d-%02d-%02d %02d:%02d:%02d'', 29)"
proof -
  have "\<exists>a. name_at wday_names (tm_wday d) = Some a" "\<exists>a. name_at mon_names (tm_mon d) = Some a"
    using assms by (simp_all add: name_at_def rd_def wday_names_def mon_names_def)
  then show ?thesis
    by (auto simp: asctime_def strftime_def time_format_literal length_bytes)
qed

lemma dates_not_formatted_witness:
  "asctime (tm_of 1000000000) = Some (bytes ''%.3s %.3s%3d %.2d:%.2d:%.'') \<and>
    strftime 30 [] (tm_of 1000000000) = Some (bytes ''%04d-%02d-%02d %02d:%02d:%02d'', 29)"
  by (rule dates_not_formatted) (simp_all add: tm_of_def)

end
