(* ===== verification/Fnmatch.thy ===== *)
theory Fnmatch
  imports Prelude Stdio "HOL-Library.Sublist"
begin

text \<open>
  Pattern matching, \<open>lib/libc/fnmatch.c\<close>.  Pattern and string are the bytes from the pointer to
  the terminating zero; the byte at the end is 0, and reading behind it has no result.  The
  result of \<open>match\<close> is 0 or \<open>FNM_NOMATCH\<close>.
\<close>

abbreviation FNM_NOMATCH :: int where "FNM_NOMATCH \<equiv> 1"
abbreviation FNM_NOESCAPE :: u32 where "FNM_NOESCAPE \<equiv> 0x01"
abbreviation FNM_PATHNAME :: u32 where "FNM_PATHNAME \<equiv> 0x02"
abbreviation FNM_PERIOD :: u32 where "FNM_PERIOD \<equiv> 0x04"

definition flag :: "u32 \<Rightarrow> u32 \<Rightarrow> bool" where
  "flag flags m \<longleftrightarrow> flags AND m \<noteq> 0"

section \<open>Bracket expressions\<close>

text \<open>
  The loop of \<open>rangematch\<close>: \<open>Inl (-1)\<close> for an expression without its bracket, else whether the
  character is in it, and the pattern behind it.  An escape at the end of the pattern is
  followed by a read behind the terminating zero.
\<close>

definition read_escape :: "u8 \<Rightarrow> u8 list \<Rightarrow> u32 \<Rightarrow> (u8 \<times> u8 list) option" where
  "read_escape c p flags =
     (if c = 92 \<and> \<not> flag flags FNM_NOESCAPE then (case p of [] \<Rightarrow> None | d # q \<Rightarrow> Some (d, q))
      else Some (c, p))"

lemma read_escape_length: "read_escape c p flags = Some (d, q) \<Longrightarrow> length q \<le> length p"
  by (auto simp: read_escape_def split: if_splits list.splits)

function range_loop :: "u8 list \<Rightarrow> u8 \<Rightarrow> u32 \<Rightarrow> bool \<Rightarrow> (int + bool \<times> u8 list) option" where
  "range_loop [] test flags ok = Some (Inl (-1))"
| "range_loop (c # p) test flags ok =
     (if c = 93 then Some (Inr (ok, p))
      else do { (c, p) \<leftarrow> read_escape c p flags;
                if peek p = 45 \<and> peek (tl p) \<noteq> 93 \<and> peek (tl p) \<noteq> 0 then
                  do { (c2, p) \<leftarrow> read_escape (peek (tl p)) (drop 2 p) flags;
                       range_loop p test flags (ok \<or> sint c \<le> sint test \<and> sint test \<le> sint c2) }
                else range_loop p test flags (ok \<or> c = test) })"
  by pat_completeness auto
termination
  by (relation "measure (\<lambda>(p, _). length p)") (auto dest!: read_escape_length)

definition rangematch :: "u8 list \<Rightarrow> u8 \<Rightarrow> u32 \<Rightarrow> (int \<times> u8 list option) option" where
  "rangematch p test flags =
     (let negate = (peek p = 33 \<or> peek p = 94) in
      do { r \<leftarrow> range_loop (if negate then tl p else p) test flags False;
           Some (case r of
               Inl e \<Rightarrow> (e, None)
             | Inr (ok, q) \<Rightarrow> (if (if negate then \<not> ok else ok) then 1 else 0, Some q)) })"

lemma range_loop_length:
  "range_loop p test flags ok = Some (Inr (b, q)) \<Longrightarrow> length q < length p"
proof (induction p test flags ok rule: range_loop.induct)
  case 1
  then show ?case by simp
next
  case (2 c p test flags ok)
  then show ?case
    by (fastforce dest!: read_escape_length split: if_splits bind_splits prod.splits)
qed

lemma rangematch_length: "rangematch p test flags = Some (r, Some q) \<Longrightarrow> length q < length p"
  unfolding rangematch_def Let_def
  by (auto dest!: range_loop_length split: bind_splits sum.splits if_splits simp del: range_loop.simps)

section \<open>Patterns\<close>

text \<open>
  \<open>at_start\<close> is the test whether a leading period counts: the string is where \<open>match\<close> was
  called, or a slash is before it and \<open>FNM_PATHNAME\<close> is set; \<open>start\<close> and \<open>prev\<close> are that
  position and the byte before.
\<close>

definition leading_period :: "u32 \<Rightarrow> bool \<Rightarrow> u8 \<Rightarrow> u8 list \<Rightarrow> bool" where
  "leading_period flags start prev s \<longleftrightarrow>
     flag flags FNM_PERIOD \<and> peek s = 46 \<and> (start \<or> flag flags FNM_PATHNAME \<and> prev = 47)"

definition pattern_char :: "u8 \<Rightarrow> u8 list \<Rightarrow> u32 \<Rightarrow> u8 \<times> u8 list" where
  "pattern_char c p flags =
     (if c = 92 \<and> \<not> flag flags FNM_NOESCAPE \<and> p \<noteq> [] then (hd p, tl p) else (c, p))"

lemma pattern_char_length: "(d, q) = pattern_char c p flags \<Longrightarrow> length q \<le> length p"
  by (auto simp: pattern_char_def split: if_splits)

text \<open>
  The loop of \<open>match\<close> and the one of the star.  After a bracket expression the pointer is
  advanced to what follows it, and then by one more.
\<close>

function (sequential) match :: "u8 list \<Rightarrow> u8 list \<Rightarrow> u32 \<Rightarrow> bool \<Rightarrow> u8 \<Rightarrow> int option"
  and match_star :: "u8 list \<Rightarrow> u8 list \<Rightarrow> u32 \<Rightarrow> int option" where
  "match [] s flags start prev = Some (if s = [] then 0 else FNM_NOMATCH)"
| "match (c # p) s flags start prev =
     (if c = 63 then
        (if s = [] \<or> flag flags FNM_PATHNAME \<and> peek s = 47 \<or> leading_period flags start prev s
         then Some FNM_NOMATCH else match p (tl s) flags False (peek s))
      else if c = 42 then
        (let p = dropWhile (\<lambda>c. c = 42) p in
         if p = [] then Some (if flag flags FNM_PATHNAME \<and> 47 \<in> set s then FNM_NOMATCH else 0)
         else match_star p s flags)
      else if c = 91 then
        (if s = [] \<or> flag flags FNM_PATHNAME \<and> peek s = 47 \<or> leading_period flags start prev s
         then Some FNM_NOMATCH
         else do { (r, q) \<leftarrow> rangematch p (peek s) flags;
                   if r = 0 then Some FNM_NOMATCH
                   else case q of
                     None \<Rightarrow> match p (tl s) flags False (peek s)
                   | Some [] \<Rightarrow> None
                   | Some (_ # q) \<Rightarrow> match q (tl s) flags False (peek s) })
      else
        (let (c, p) = pattern_char c p flags
         in if peek s \<noteq> c then Some FNM_NOMATCH else match p (tl s) flags False (peek s)))"
| "match_star p [] flags = Some FNM_NOMATCH"
| "match_star p (x # s) flags =
     (if \<not> flag flags FNM_PATHNAME \<or> x \<noteq> 47 then
        do { r \<leftarrow> match p (x # s) flags True 0; if r = 0 then Some 0 else match_star p s flags }
      else match_star p s flags)"
  by pat_completeness auto
termination
  by (relation "inv_image (less_than <*lex*> less_than <*lex*> less_than)
      (\<lambda>x. case x of Inl (p, s, _) \<Rightarrow> (length p, length s, 0) | Inr (p, s, _) \<Rightarrow> (length p, length s, 1 :: nat))")
    (auto simp: less_Suc_eq_le length_dropWhile_le dest!: rangematch_length pattern_char_length)

definition fnmatch :: "u8 list option \<Rightarrow> u8 list option \<Rightarrow> u32 \<Rightarrow> int option" where
  "fnmatch pattern string flags =
     (case (pattern, string) of (Some p, Some s) \<Rightarrow> match p s flags True 0 | _ \<Rightarrow> Some FNM_NOMATCH)"


declare range_loop.simps [simp del] match.simps(2) [simp del] match_star.simps(2) [simp del]

section \<open>Specification\<close>

text \<open>What the manual says of \<open>?\<close>, \<open>*\<close> and ordinary characters.\<close>

inductive glob :: "u8 list \<Rightarrow> u8 list \<Rightarrow> bool" where
  glob_nil: "glob [] []"
| glob_any: "glob p s \<Longrightarrow> glob (63 # p) (c # s)"
| glob_star: "glob p s \<Longrightarrow> glob (42 # p) (t @ s)"
| glob_char: "c \<noteq> 63 \<Longrightarrow> c \<noteq> 42 \<Longrightarrow> glob p s \<Longrightarrow> glob (c # p) (c # s)"

inductive_simps glob_nil_iff: "glob [] s"
inductive_simps glob_cons_iff: "glob (c # p) s"

lemma glob_star_iff: "glob (42 # p) s \<longleftrightarrow> (\<exists>t u. s = t @ u \<and> glob p u)"
  by (subst glob_cons_iff) auto

lemma glob_star_star: "glob (42 # 42 # p) s \<longleftrightarrow> glob (42 # p) s"
  by (auto simp: glob_star_iff) (metis append_assoc)+

lemma glob_stars: "glob (42 # p) s \<longleftrightarrow> glob (42 # dropWhile (\<lambda>c. c = 42) p) s"
  by (induction p) (auto simp: glob_star_star)

lemma glob_nonempty: "p \<noteq> [] \<Longrightarrow> hd p \<noteq> 42 \<Longrightarrow> \<not> glob p []"
  by (cases p) (auto simp: glob_cons_iff)

lemma glob_ordinary: "c \<noteq> 63 \<Longrightarrow> c \<noteq> 42 \<Longrightarrow> glob (c # p) s \<longleftrightarrow> (\<exists>u. s = c # u \<and> glob p u)"
  by (subst glob_cons_iff) auto

lemma glob_question: "glob (63 # p) s \<longleftrightarrow> (\<exists>c u. s = c # u \<and> glob p u)"
  by (subst glob_cons_iff) auto

section \<open>\<open>match\<close> implements it\<close>

lemma no_flag [simp]: "\<not> flag 0 m"
  by (simp add: flag_def)

lemma match_star_glob:
  assumes "\<And>s start prev. match p s 0 start prev = Some (if glob p s then 0 else FNM_NOMATCH)"
  shows "match_star p s 0 = Some (if \<exists>t u. s = t @ u \<and> u \<noteq> [] \<and> glob p u then 0 else FNM_NOMATCH)"
proof (induction s)
  case Nil
  then show ?case by simp
next
  case (Cons x s)
  have split: "(\<exists>t u. x # s = t @ u \<and> u \<noteq> [] \<and> glob p u) \<longleftrightarrow>
      glob p (x # s) \<or> (\<exists>t u. s = t @ u \<and> u \<noteq> [] \<and> glob p u)"
    by (auto simp: Cons_eq_append_conv)
  show ?case by (subst match_star.simps) (simp add: assms Cons.IH split)
qed

text \<open>One step of the loop, without flags.\<close>

lemma match_question: "match (63 # q) s 0 start prev =
    (if s = [] then Some FNM_NOMATCH else match q (tl s) 0 False (peek s))"
  by (subst match.simps(2)) (simp add: leading_period_def)

lemma match_ordinary:
  assumes "c \<noteq> 63" "c \<noteq> 42" "c \<noteq> 91" "c \<noteq> 92"
  shows "match (c # q) s 0 start prev =
    (if peek s \<noteq> c then Some FNM_NOMATCH else match q (tl s) 0 False (peek s))"
  using assms by (subst match.simps(2)) (simp add: pattern_char_def)

lemma match_stars:
  "match (42 # q) s 0 start prev =
    (if dropWhile (\<lambda>c. c = 42) q = [] then Some 0 else match_star (dropWhile (\<lambda>c. c = 42) q) s 0)"
  by (subst match.simps(2)) (simp add: Let_def del: dropWhile_eq_Nil_conv)

lemma match_glob_star:
  assumes "\<And>s start prev. match (dropWhile (\<lambda>c. c = 42) q) s 0 start prev =
      Some (if glob (dropWhile (\<lambda>c. c = 42) q) s then 0 else FNM_NOMATCH)"
  shows "match (42 # q) s 0 start prev = Some (if glob (42 # q) s then 0 else FNM_NOMATCH)"
proof -
  define r where "r = dropWhile (\<lambda>c. c = 42) q"
  have g: "glob (42 # q) s \<longleftrightarrow> (\<exists>t u. s = t @ u \<and> glob r u)"
    using glob_stars [of q s] by (simp only: glob_star_iff r_def)
  show ?thesis
  proof (cases "r = []")
    case True
    then have "\<exists>t u. s = t @ u \<and> glob r u" using glob_nil by blast
    then show ?thesis using g True by (simp only: match_stars r_def [symmetric] simp_thms if_True)
  next
    case False
    then have hd: "hd r \<noteq> 42" unfolding r_def by (rule hd_dropWhile)
    have "\<not> glob r []" by (rule glob_nonempty [OF False hd])
    then have "(\<exists>t u. s = t @ u \<and> glob r u) \<longleftrightarrow> (\<exists>t u. s = t @ u \<and> u \<noteq> [] \<and> glob r u)"
      by blast
    moreover have "match (42 # q) s 0 start prev = match_star r s 0"
      using False by (simp only: match_stars r_def [symmetric] if_False)
    moreover have "match_star r s 0 =
        Some (if \<exists>t u. s = t @ u \<and> u \<noteq> [] \<and> glob r u then 0 else FNM_NOMATCH)"
      unfolding r_def by (rule match_star_glob [OF assms])
    ultimately show ?thesis by (simp only: g)
  qed
qed

lemma match_glob:
  assumes "\<forall>c \<in> set p. c \<noteq> 91 \<and> c \<noteq> 92 \<and> c \<noteq> 0"
  shows "match p s 0 start prev = Some (if glob p s then 0 else FNM_NOMATCH)"
  using assms
proof (induction "length p" arbitrary: p s start prev rule: less_induct)
  case less
  show ?case
  proof (cases p)
    case Nil
    then show ?thesis by (simp add: glob_nil_iff)
  next
    case (Cons c q)
    have IH: "match r s 0 start prev = Some (if glob r s then 0 else FNM_NOMATCH)"
      if "length r \<le> length q" "set r \<subseteq> set q" for r s start prev
    proof -
      have "\<forall>c \<in> set r. c \<noteq> 91 \<and> c \<noteq> 92 \<and> c \<noteq> 0" using less.prems that(2) Cons by auto
      moreover have "length r < length p" using that(1) Cons by simp
      ultimately show ?thesis using less.hyps by blast
    qed
    note q = IH [OF order_refl subset_refl]
    consider "c = 63" | "c = 42" | "c \<noteq> 63" "c \<noteq> 42" by blast
    then show ?thesis
    proof cases
      case 1
      then show ?thesis unfolding Cons 1 match_question glob_question q by (cases s) simp_all
    next
      case 2
      have "match (dropWhile (\<lambda>c. c = 42) q) s 0 start prev =
          Some (if glob (dropWhile (\<lambda>c. c = 42) q) s then 0 else FNM_NOMATCH)" for s start prev
        by (rule IH) (auto simp: length_dropWhile_le dest: set_dropWhileD)
      then show ?thesis unfolding Cons 2 by (rule match_glob_star)
    next
      case 3
      then have c: "c \<noteq> 91" "c \<noteq> 92" "c \<noteq> 0" using less.prems Cons by auto
      show ?thesis
        unfolding Cons match_ordinary [OF 3 c(1,2)] glob_ordinary [OF 3] q
        using c(3) by (cases s) auto
    qed
  qed
qed

section \<open>Properties\<close>

text \<open>C17.  Without flags, \<open>fnmatch\<close> returns for every pattern of ordinary characters, \<open>?\<close> and \<open>*\<close>
  and every string, stays inside both, and gives 0 exactly if the pattern matches the string
  as the manual defines it.\<close>

theorem fnmatch_glob:
  assumes "\<forall>c \<in> set p. c \<noteq> 91 \<and> c \<noteq> 92 \<and> c \<noteq> 0"
  shows "fnmatch (Some p) (Some s) 0 = Some (if glob p s then 0 else FNM_NOMATCH)"
  using match_glob [OF assms] by (simp add: fnmatch_def)

lemma fnmatch_glob_witness:
  "fnmatch (Some (bytes ''*.?'')) (Some (bytes ''ab.c'')) 0 =
    Some (if glob (bytes ''*.?'') (bytes ''ab.c'') then 0 else FNM_NOMATCH)"
  by (rule fnmatch_glob) code_simp

text \<open>A bracket expression swallows the pattern character behind it: \<open>[a]b\<close> does not match
  \<open>ab\<close> but matches \<open>a\<close>, and a pattern that ends with a bracket expression is read behind its
  terminating zero.\<close>

theorem fnmatch_bracket_skips:
  "fnmatch (Some (bytes ''[a]b'')) (Some (bytes ''ab'')) 0 = Some FNM_NOMATCH \<and>
   fnmatch (Some (bytes ''[a]b'')) (Some (bytes ''a'')) 0 = Some 0 \<and>
   fnmatch (Some (bytes ''[a]'')) (Some (bytes ''a'')) 0 = None"
  by code_simp

text \<open>With \<open>FNM_PATHNAME\<close> a star crosses slashes, and cannot be followed by one.\<close>

lemma fnmatch_star_slash:
  "fnmatch (Some (bytes ''a*c'')) (Some (bytes ''a/b/c'')) FNM_PATHNAME = Some 0"
  "fnmatch (Some (bytes ''*/c'')) (Some (bytes ''b/c'')) FNM_PATHNAME = Some FNM_NOMATCH"
  by code_simp+

end
