(* ===== verification/Vga.thy ===== *)
theory Vga
  imports Prelude Stdio
begin

text \<open>
  The text screen, \<open>usr/drivers/vga.c\<close> and \<open>usr/include/vga.h\<close>: 25 rows of 80 cells of 16 bits.
  The pointer \<open>vga_buffer\<close> is the \<open>target\<close>: none before the initialisation, the video memory, the
  double buffer, or a buffer of the caller.  A write outside the target has no result.  The
  ports of the cursor are the two fields \<open>hw_cursor\<close> and \<open>hw_cursor_on\<close>.
\<close>

section \<open>State\<close>

datatype target = NoBuffer | Memory | Double | Custom

record vga =
  vga_row :: nat
  vga_column :: nat
  vga_color :: u8
  vga_target :: target
  vga_initialized :: bool
  vga_memory :: "u16 list"
  vga_double :: "u16 list"
  vga_custom :: "u16 list"
  hw_cursor :: u16
  hw_cursor_on :: bool

abbreviation VGA_WIDTH :: nat where "VGA_WIDTH \<equiv> 80"
abbreviation VGA_HEIGHT :: nat where "VGA_HEIGHT \<equiv> 25"

definition cells :: "vga \<Rightarrow> u16 list" where
  "cells v = (case vga_target v of
      NoBuffer \<Rightarrow> [] | Memory \<Rightarrow> vga_memory v | Double \<Rightarrow> vga_double v | Custom \<Rightarrow> vga_custom v)"

definition set_cells :: "u16 list \<Rightarrow> vga \<Rightarrow> vga" where
  "set_cells b v = (case vga_target v of
      NoBuffer \<Rightarrow> v | Memory \<Rightarrow> v\<lparr>vga_memory := b\<rparr> | Double \<Rightarrow> v\<lparr>vga_double := b\<rparr>
    | Custom \<Rightarrow> v\<lparr>vga_custom := b\<rparr>)"

definition put_cell :: "nat \<Rightarrow> u16 \<Rightarrow> vga \<Rightarrow> vga option" where
  "put_cell i e v = do { b \<leftarrow> wr (cells v) i e; Some (set_cells b v) }"

text \<open>\<open>memmove\<close> of \<open>n\<close> cells.\<close>

definition move_cells :: "nat \<Rightarrow> nat \<Rightarrow> nat \<Rightarrow> vga \<Rightarrow> vga option" where
  "move_cells dst src n v =
     (let b = cells v in
      if dst + n \<le> length b \<and> src + n \<le> length b
      then Some (set_cells (take dst b @ take n (drop src b) @ drop (dst + n) b) v) else None)"

definition vga_entry :: "u8 \<Rightarrow> u8 \<Rightarrow> u16" where
  "vga_entry uc color = ucast uc OR push_bit 8 (ucast color)"

definition vga_entry_color :: "u8 \<Rightarrow> u8 \<Rightarrow> u8" where
  "vga_entry_color fg bg = fg OR push_bit 4 bg"

definition vga_entry_color_attr :: "u8 \<Rightarrow> u8 \<Rightarrow> bool \<Rightarrow> bool \<Rightarrow> u8" where
  "vga_entry_color_attr fg bg blink bright =
     (let color = fg OR push_bit 4 bg;
          color = (if blink then color OR 0x80 else color)
      in if bright \<and> fg < 8 then color OR 0x08 else color)"

definition vga_bounds_check :: "int \<Rightarrow> int \<Rightarrow> bool" where
  "vga_bounds_check x y \<longleftrightarrow> 0 \<le> x \<and> x < int VGA_WIDTH \<and> 0 \<le> y \<and> y < int VGA_HEIGHT"

section \<open>Cursor and colour\<close>

definition vga_update_cursor :: "int \<Rightarrow> int \<Rightarrow> vga \<Rightarrow> vga" where
  "vga_update_cursor x y v =
     (if vga_target v = NoBuffer \<or> \<not> vga_bounds_check x y then v
      else v\<lparr>vga_column := nat x, vga_row := nat y, hw_cursor := word_of_int (y * 80 + x)\<rparr>)"

definition sync_cursor :: "vga \<Rightarrow> vga" where
  "sync_cursor v = vga_update_cursor (int (vga_column v)) (int (vga_row v)) v"

definition vga_enable_cursor :: "vga \<Rightarrow> vga" where "vga_enable_cursor v = v\<lparr>hw_cursor_on := True\<rparr>"
definition vga_disable_cursor :: "vga \<Rightarrow> vga" where "vga_disable_cursor v = v\<lparr>hw_cursor_on := False\<rparr>"

definition vga_set_color :: "u8 \<Rightarrow> u8 \<Rightarrow> vga \<Rightarrow> vga" where
  "vga_set_color fg bg v = v\<lparr>vga_color := vga_entry_color fg bg\<rparr>"

definition vga_set_color_attr :: "u8 \<Rightarrow> u8 \<Rightarrow> bool \<Rightarrow> bool \<Rightarrow> vga \<Rightarrow> vga" where
  "vga_set_color_attr fg bg blink bright v = v\<lparr>vga_color := vga_entry_color_attr fg bg blink bright\<rparr>"

definition vga_get_color :: "vga \<Rightarrow> u8" where "vga_get_color v = vga_color v"

definition vga_move_cursor :: "int \<Rightarrow> int \<Rightarrow> vga \<Rightarrow> vga" where
  "vga_move_cursor x y v =
     (if vga_bounds_check x y
      then vga_update_cursor x y (v\<lparr>vga_column := nat x, vga_row := nat y\<rparr>) else v)"

definition vga_get_cursor :: "vga \<Rightarrow> int \<times> int" where
  "vga_get_cursor v = (int (vga_column v), int (vga_row v))"

section \<open>Clearing and scrolling\<close>

definition blank :: "vga \<Rightarrow> u16" where
  "blank v = vga_entry 32 (vga_color v)"

definition vga_clear :: "vga \<Rightarrow> vga option" where
  "vga_clear v =
     (if vga_target v = NoBuffer then Some v
      else do { v \<leftarrow> for_each (\<lambda>i v. put_cell i (blank v) v) [0..<VGA_HEIGHT * VGA_WIDTH] v;
                Some (vga_update_cursor 0 0 (v\<lparr>vga_row := 0, vga_column := 0\<rparr>)) })"

text \<open>Blanks from column 0 to 79 of a row, and of several rows.\<close>

definition clear_row :: "nat \<Rightarrow> vga \<Rightarrow> vga option" where
  "clear_row line v = for_each (\<lambda>col v. put_cell (line * VGA_WIDTH + col) (blank v) v) [0..<VGA_WIDTH] v"

definition vga_scroll_internal :: "int \<Rightarrow> vga \<Rightarrow> vga option" where
  "vga_scroll_internal lines v =
     (if vga_target v = NoBuffer \<or> lines \<le> 0 then Some v
      else if lines \<ge> int VGA_HEIGHT then vga_clear v
      else
        let n = nat lines in
        do { v \<leftarrow> move_cells 0 (VGA_WIDTH * n) (VGA_WIDTH * (VGA_HEIGHT - n)) v;
             v \<leftarrow> for_each clear_row [VGA_HEIGHT - n..<VGA_HEIGHT] v;
             Some (if vga_row v \<ge> n then v\<lparr>vga_row := vga_row v - n\<rparr>
                   else v\<lparr>vga_row := 0, vga_column := 0\<rparr>) })"

definition vga_scroll_up :: "int \<Rightarrow> vga \<Rightarrow> vga option" where
  "vga_scroll_up lines v = map_option sync_cursor (vga_scroll_internal lines v)"

definition vga_scroll_down :: "int \<Rightarrow> vga \<Rightarrow> vga option" where
  "vga_scroll_down lines v =
     (if vga_target v = NoBuffer \<or> lines \<le> 0 then Some v
      else if lines \<ge> int VGA_HEIGHT then vga_clear v
      else
        let n = nat lines in
        do { v \<leftarrow> move_cells (VGA_WIDTH * n) 0 (VGA_WIDTH * (VGA_HEIGHT - n)) v;
             v \<leftarrow> for_each clear_row [0..<n] v;
             Some (sync_cursor (v\<lparr>vga_row :=
               (if vga_row v + n < VGA_HEIGHT then vga_row v + n else VGA_HEIGHT - 1)\<rparr>)) })"

definition vga_initialize :: "vga \<Rightarrow> vga option" where
  "vga_initialize v =
     do { v \<leftarrow> vga_clear (v\<lparr>vga_color := 7, vga_target := Memory, vga_row := 0, vga_column := 0,
                           vga_initialized := True\<rparr>);
          Some (vga_enable_cursor v) }"

definition vga_shutdown :: "vga \<Rightarrow> vga" where
  "vga_shutdown v = (vga_disable_cursor v)\<lparr>vga_initialized := False\<rparr>"

definition vga_is_initialized :: "vga \<Rightarrow> bool" where
  "vga_is_initialized v = vga_initialized v"

section \<open>Characters\<close>

text \<open>The end of a row: the cursor goes to the next one, and the screen scrolls at the bottom.\<close>

definition next_row :: "vga \<Rightarrow> vga option" where
  "next_row v =
     (let v = v\<lparr>vga_column := 0, vga_row := vga_row v + 1\<rparr>
      in if vga_row v \<ge> VGA_HEIGHT then vga_scroll_internal 1 v else Some v)"

definition put_here :: "u16 \<Rightarrow> vga \<Rightarrow> vga option" where
  "put_here e v = put_cell (vga_row v * VGA_WIDTH + vga_column v) e v"

definition tab_step :: "nat \<Rightarrow> vga \<Rightarrow> vga option" where
  "tab_step _ v =
     do { v \<leftarrow> put_here (blank v) v; Some (v\<lparr>vga_column := vga_column v + 1\<rparr>) }"

definition vga_putchar :: "u8 \<Rightarrow> vga \<Rightarrow> vga option" where
  "vga_putchar c v =
     (if vga_target v = NoBuffer then Some v
      else map_option sync_cursor
        (if c = 10 then next_row v
         else if c = 13 then Some (v\<lparr>vga_column := 0\<rparr>)
         else if c = 8 then
           let v = (if vga_column v > 0 then v\<lparr>vga_column := vga_column v - 1\<rparr>
                    else if vga_row v > 0 then v\<lparr>vga_row := vga_row v - 1, vga_column := VGA_WIDTH - 1\<rparr>
                    else v)
           in put_here (blank v) v
         else if c = 9 then
           let next_tab = (vga_column v + 4) div 4 * 4
           in do { v \<leftarrow> for_each tab_step [vga_column v..<min next_tab VGA_WIDTH] v;
                   if vga_column v \<ge> VGA_WIDTH then next_row v else Some v }
         else if 32 \<le> c \<and> c \<le> 126 then
           do { v \<leftarrow> put_here (vga_entry c (vga_color v)) v;
                let v = v\<lparr>vga_column := vga_column v + 1\<rparr>
                in if vga_column v \<ge> VGA_WIDTH then next_row v else Some v }
         else Some v))"

definition vga_puts :: "u8 list \<Rightarrow> vga \<Rightarrow> vga option" where
  "vga_puts str v = for_each vga_putchar str v"

text \<open>The digits of \<open>vga_putdec\<close>, the lowest first, at most 11 of them.\<close>

fun putdec_digits :: "nat \<Rightarrow> u32 \<Rightarrow> u8 list" where
  "putdec_digits 0 value = []"
| "putdec_digits (Suc room) value =
     (if value = 0 then [] else (48 + ucast (value mod 10)) # putdec_digits room (value div 10))"

definition vga_putdec :: "u32 \<Rightarrow> nat \<Rightarrow> vga \<Rightarrow> vga option" where
  "vga_putdec value digits v =
     (let buffer = (if value = 0 then [48] else putdec_digits 11 value);
          buffer = buffer @ replicate (min digits 11 - length buffer) 48
      in for_each vga_putchar (rev buffer) v)"

definition hex_char :: "u32 \<Rightarrow> u8" where
  "hex_char d = (if d < 10 then 48 + ucast d else 55 + ucast d)"

definition vga_puthex :: "u32 \<Rightarrow> vga \<Rightarrow> vga option" where
  "vga_puthex num v =
     do { v \<leftarrow> vga_puts [48, 120] v;
          for_each (\<lambda>i v. vga_putchar (hex_char (drop_bit (28 - 4 * i) num AND 0xF)) v) [0..<8] v }"

text \<open>The directives of \<open>vga_printf\<close>: the screen, the count and the arguments left.\<close>

definition vga_directive :: "u8 \<Rightarrow> arg list \<Rightarrow> vga \<Rightarrow> (vga \<times> int \<times> arg list) option" where
  "vga_directive k args v =
     (if k = ch CHR ''d'' then
        do { (w, args) \<leftarrow> va_num args;
             if sint w < 0 then
               do { v \<leftarrow> vga_putchar 45 v; v \<leftarrow> vga_putdec (- w) 1 v; Some (v, 2, args) }
             else do { v \<leftarrow> vga_putdec w 1 v; Some (v, 1, args) } }
      else if k = ch CHR ''x'' then
        do { (w, args) \<leftarrow> va_num args; v \<leftarrow> vga_puthex w v; Some (v, 1, args) }
      else if k = ch CHR ''s'' then
        (case args of
           Str (Some s) # args \<Rightarrow> do { v \<leftarrow> vga_puts s v; Some (v, 1, args) }
         | Str None # args \<Rightarrow> Some (v, 0, args)
         | _ \<Rightarrow> None)
      else if k = ch CHR ''c'' then
        do { (w, args) \<leftarrow> va_num args; v \<leftarrow> vga_putchar (ucast w) v; Some (v, 1, args) }
      else if k = ch CHR ''%'' then do { v \<leftarrow> vga_putchar 37 v; Some (v, 1, args) }
      else do { v \<leftarrow> vga_putchar 37 v; v \<leftarrow> vga_putchar k v; Some (v, 2, args) })"

fun vga_printf :: "u8 list \<Rightarrow> arg list \<Rightarrow> vga \<Rightarrow> (vga \<times> int) option" where
  "vga_printf [] args v = Some (v, 0)"
| "vga_printf [c] args v = do { v \<leftarrow> vga_putchar c v; Some (v, 1) }"
| "vga_printf (c # k # p) args v =
     (if c = ch CHR ''%'' then
        do { (v, n, args) \<leftarrow> vga_directive k args v; (v, m) \<leftarrow> vga_printf p args v; Some (v, n + m) }
      else do { v \<leftarrow> vga_putchar c v; (v, m) \<leftarrow> vga_printf (k # p) args v; Some (v, 1 + m) })"


section \<open>Areas\<close>

definition cell_at :: "int \<Rightarrow> int \<Rightarrow> nat" where
  "cell_at x y = nat (y * 80 + x)"

text \<open>A write that is checked against the bounds of the screen.\<close>

definition plot :: "int \<Rightarrow> int \<Rightarrow> u16 \<Rightarrow> vga \<Rightarrow> vga option" where
  "plot x y e v = (if vga_bounds_check x y then put_cell (cell_at x y) e v else Some v)"

definition vga_putchar_at :: "u8 \<Rightarrow> int \<Rightarrow> int \<Rightarrow> vga \<Rightarrow> vga option" where
  "vga_putchar_at c x y v =
     (if vga_target v = NoBuffer then Some v else plot x y (vga_entry c (vga_color v)) v)"

fun puts_at_loop :: "u8 list \<Rightarrow> int \<Rightarrow> int \<Rightarrow> int \<Rightarrow> vga \<Rightarrow> vga option" where
  "puts_at_loop [] orig_x x y v = Some v"
| "puts_at_loop (c # str) orig_x x y v =
     (if y \<ge> int VGA_HEIGHT then Some v
      else if c = 10 then puts_at_loop str orig_x orig_x (y + 1) v
      else if vga_bounds_check x y then
        do { v \<leftarrow> vga_putchar_at c x y v; puts_at_loop str orig_x (x + 1) y v }
      else puts_at_loop str orig_x x y v)"

definition vga_puts_at :: "u8 list option \<Rightarrow> int \<Rightarrow> int \<Rightarrow> vga \<Rightarrow> vga option" where
  "vga_puts_at str x y v =
     (case str of None \<Rightarrow> Some v
      | Some s \<Rightarrow> if vga_target v = NoBuffer then Some v else puts_at_loop s x x y v)"

definition vga_fill_area :: "int \<Rightarrow> int \<Rightarrow> int \<Rightarrow> int \<Rightarrow> u8 \<Rightarrow> u8 \<Rightarrow> vga \<Rightarrow> vga option" where
  "vga_fill_area x y wid hei c color v =
     (if vga_target v = NoBuffer then Some v
      else for_each (\<lambda>row. for_each (\<lambda>col. plot col row (vga_entry c color))
                              [x..min (wrap32 (x + wid)) (int VGA_WIDTH) - 1])
             [y..min (wrap32 (y + hei)) (int VGA_HEIGHT) - 1] v)"

definition vga_clear_area :: "int \<Rightarrow> int \<Rightarrow> int \<Rightarrow> int \<Rightarrow> vga \<Rightarrow> vga option" where
  "vga_clear_area x y wid hei v = vga_fill_area x y wid hei 32 (vga_color v) v"

definition vga_draw_box :: "int \<Rightarrow> int \<Rightarrow> int \<Rightarrow> int \<Rightarrow> u8 \<Rightarrow> vga \<Rightarrow> vga option" where
  "vga_draw_box x y wid hei color v =
     (if vga_target v = NoBuffer \<or> wid < 2 \<or> hei < 2 then Some v
      else
        let right = wrap32 (x + wid - 1); bottom = wrap32 (y + hei - 1);
            edge = (\<lambda>col. vga_entry (if col = x \<or> col = right then 43 else 45) color)
        in do { v \<leftarrow> for_each (\<lambda>col v. do { v \<leftarrow> plot col y (edge col) v; plot col bottom (edge col) v })
                       [x..wrap32 (x + wid) - 1] v;
                for_each (\<lambda>row v. do { v \<leftarrow> plot x row (vga_entry 124 color) v;
                                       plot right row (vga_entry 124 color) v })
                  [wrap32 (y + 1)..bottom - 1] v })"

section \<open>Buffers and lines\<close>

definition vga_swap_buffers :: "vga \<Rightarrow> vga" where
  "vga_swap_buffers v = v\<lparr>vga_memory := vga_double v\<rparr>"

text \<open>A buffer of the caller, if it is not null.\<close>

definition vga_set_buffer :: "u16 list option \<Rightarrow> vga \<Rightarrow> vga" where
  "vga_set_buffer buffer v =
     (case buffer of None \<Rightarrow> v | Some b \<Rightarrow> v\<lparr>vga_target := Custom, vga_custom := b\<rparr>)"

definition vga_init_double_buffer :: "vga \<Rightarrow> vga option" where
  "vga_init_double_buffer v = vga_clear (v\<lparr>vga_target := Double\<rparr>)"

definition vga_save_screen :: "u16 list \<Rightarrow> vga \<Rightarrow> u16 list option" where
  "vga_save_screen buffer v =
     (if vga_target v = NoBuffer then Some buffer
      else if length buffer \<ge> VGA_HEIGHT * VGA_WIDTH \<and> length (cells v) \<ge> VGA_HEIGHT * VGA_WIDTH
      then Some (take (VGA_HEIGHT * VGA_WIDTH) (cells v) @ drop (VGA_HEIGHT * VGA_WIDTH) buffer) else None)"

definition vga_restore_screen :: "u16 list \<Rightarrow> vga \<Rightarrow> vga option" where
  "vga_restore_screen buffer v =
     (if vga_target v = NoBuffer then Some v
      else if length buffer \<ge> VGA_HEIGHT * VGA_WIDTH \<and> length (cells v) \<ge> VGA_HEIGHT * VGA_WIDTH
      then Some (set_cells (take (VGA_HEIGHT * VGA_WIDTH) buffer @ drop (VGA_HEIGHT * VGA_WIDTH) (cells v)) v)
      else None)"

fun line_length :: "u16 list \<Rightarrow> nat \<Rightarrow> nat \<Rightarrow> nat option" where
  "line_length b y 0 = Some 0"
| "line_length b y (Suc n) =
     do { e \<leftarrow> rd b (y * VGA_WIDTH + n);
          if e AND 0xFF \<noteq> 32 then Some (Suc n) else line_length b y n }"

definition off_screen :: "int \<Rightarrow> vga \<Rightarrow> bool" where
  "off_screen y v \<longleftrightarrow> vga_target v = NoBuffer \<or> y < 0 \<or> y \<ge> int VGA_HEIGHT"

definition vga_get_line_length :: "int \<Rightarrow> vga \<Rightarrow> nat option" where
  "vga_get_line_length y v = (if off_screen y v then Some 0 else line_length (cells v) (nat y) VGA_WIDTH)"

definition vga_delete_line :: "int \<Rightarrow> vga \<Rightarrow> vga option" where
  "vga_delete_line y v =
     (if off_screen y v then Some v
      else
        let n = nat y in
        do { v \<leftarrow> (if n < VGA_HEIGHT - 1
                  then move_cells (n * VGA_WIDTH) ((n + 1) * VGA_WIDTH) (VGA_WIDTH * (VGA_HEIGHT - n - 1)) v
                  else Some v);
             clear_row (VGA_HEIGHT - 1) v })"

definition vga_insert_line :: "int \<Rightarrow> vga \<Rightarrow> vga option" where
  "vga_insert_line y v =
     (if off_screen y v then Some v
      else
        let n = nat y in
        do { v \<leftarrow> (if n < VGA_HEIGHT - 1
                  then move_cells ((n + 1) * VGA_WIDTH) (n * VGA_WIDTH) (VGA_WIDTH * (VGA_HEIGHT - n - 1)) v
                  else Some v);
             clear_row n v })"

section \<open>No write leaves the screen\<close>

text \<open>The cursor is on the screen and the target has room for 25 rows of 80 cells.\<close>

definition vga_inv :: "vga \<Rightarrow> bool" where
  "vga_inv v \<longleftrightarrow> vga_row v < VGA_HEIGHT \<and> vga_column v < VGA_WIDTH \<and>
     length (vga_memory v) = 2000 \<and> length (vga_double v) = 2000 \<and> length (vga_custom v) = 2000"

text \<open>The same without the cursor, in the middle of an operation.\<close>

definition vga_sized :: "target \<Rightarrow> nat \<Rightarrow> nat \<Rightarrow> vga \<Rightarrow> bool" where
  "vga_sized tg row col v \<longleftrightarrow> vga_target v = tg \<and> vga_row v = row \<and> vga_column v = col \<and>
     length (vga_memory v) = 2000 \<and> length (vga_double v) = 2000 \<and> length (vga_custom v) = 2000"

named_theorems vga_ok \<open>operations that do not leave the screen\<close>

lemma vga_sized_self: "vga_inv v \<Longrightarrow> vga_sized (vga_target v) (vga_row v) (vga_column v) v"
  by (simp add: vga_inv_def vga_sized_def)

lemma vga_sized_inv: "vga_sized tg row col v \<Longrightarrow> row < VGA_HEIGHT \<Longrightarrow> col < VGA_WIDTH \<Longrightarrow> vga_inv v"
  by (simp add: vga_inv_def vga_sized_def)

lemma length_cells: "vga_sized tg row col v \<Longrightarrow> tg \<noteq> NoBuffer \<Longrightarrow> length (cells v) = 2000"
  by (cases tg) (auto simp: cells_def vga_sized_def)

lemma set_cells_sized: "vga_sized tg row col v \<Longrightarrow> length b = 2000 \<Longrightarrow> vga_sized tg row col (set_cells b v)"
  by (cases tg) (auto simp: set_cells_def vga_sized_def)

lemma put_cell_sized:
  "vga_sized tg row col v \<Longrightarrow> tg \<noteq> NoBuffer \<Longrightarrow> i < 2000 \<Longrightarrow>
   \<exists>w. put_cell i e v = Some w \<and> vga_sized tg row col w"
  by (auto simp: put_cell_def wr_def length_cells intro: set_cells_sized)

lemma move_cells_sized:
  "vga_sized tg row col v \<Longrightarrow> tg \<noteq> NoBuffer \<Longrightarrow> dst + n \<le> 2000 \<Longrightarrow> src + n \<le> 2000 \<Longrightarrow>
   \<exists>w. move_cells dst src n v = Some w \<and> vga_sized tg row col w"
  by (auto simp: move_cells_def Let_def length_cells intro!: set_cells_sized)

lemma clear_row_sized:
  assumes "vga_sized tg row col v" "tg \<noteq> NoBuffer" "line < VGA_HEIGHT"
  shows "\<exists>w. clear_row line v = Some w \<and> vga_sized tg row col w"
  unfolding clear_row_def
  using assms by (intro for_each_inv put_cell_sized) auto

lemma clear_rows_sized:
  assumes "vga_sized tg row col v" "tg \<noteq> NoBuffer" "b \<le> VGA_HEIGHT"
  shows "\<exists>w. for_each clear_row [a..<b] v = Some w \<and> vga_sized tg row col w"
  using assms by (intro for_each_inv clear_row_sized) auto

lemma vga_clear_sized:
  assumes "vga_sized tg row col v" "tg \<noteq> NoBuffer"
  shows "\<exists>w. vga_clear v = Some w \<and> vga_sized tg 0 0 w"
proof -
  have "\<exists>w. for_each (\<lambda>i v. put_cell i (blank v) v) [0..<VGA_HEIGHT * VGA_WIDTH] v = Some w \<and> vga_sized tg row col w"
    using assms by (intro for_each_inv put_cell_sized) auto
  then show ?thesis
    using assms by (auto simp: vga_clear_def vga_sized_def vga_update_cursor_def vga_bounds_check_def)
qed

text \<open>Scrolling keeps a cursor that is on the screen or one row below it.\<close>

lemma scroll_sized:
  assumes "vga_sized tg row col v" "tg \<noteq> NoBuffer" "row \<le> VGA_HEIGHT" "col < VGA_WIDTH" "0 < lines \<or> row < VGA_HEIGHT"
  shows "\<exists>w. vga_scroll_internal lines v = Some w \<and> vga_inv w \<and> vga_target w = tg"
proof -
  consider "lines \<le> 0" | "int VGA_HEIGHT \<le> lines" | "0 < lines" "lines < int VGA_HEIGHT" by linarith
  then show ?thesis
  proof cases
    case 1
    with assms show ?thesis
      by (auto simp: vga_scroll_internal_def intro: vga_sized_inv) (auto simp: vga_sized_def)
  next
    case 2
    with vga_clear_sized [OF assms(1,2)] assms obtain w where "vga_clear v = Some w" "vga_sized tg 0 0 w" by blast
    with 2 assms show ?thesis
      by (auto simp: vga_scroll_internal_def vga_sized_def vga_inv_def)
  next
    case 3
    define n where "n = nat lines"
    have n: "0 < n" "n < VGA_HEIGHT" using 3 by (simp_all add: n_def)
    obtain w where w: "move_cells 0 (VGA_WIDTH * n) (VGA_WIDTH * (VGA_HEIGHT - n)) v = Some w" "vga_sized tg row col w"
      using move_cells_sized [OF assms(1,2), of 0 "VGA_WIDTH * (VGA_HEIGHT - n)" "VGA_WIDTH * n"] n
      by (auto simp: algebra_simps)
    obtain u where u: "for_each clear_row [VGA_HEIGHT - n..<VGA_HEIGHT] w = Some u" "vga_sized tg row col u"
      using clear_rows_sized [OF w(2) assms(2)] by blast
    have "vga_scroll_internal lines v =
        Some (if row \<ge> n then u\<lparr>vga_row := row - n\<rparr> else u\<lparr>vga_row := 0, vga_column := 0\<rparr>)"
      using 3 w u assms(1,2) by (auto simp: vga_scroll_internal_def Let_def n_def vga_sized_def)
    then show ?thesis using u(2) n assms(3,4) by (auto simp: vga_sized_def vga_inv_def)
  qed
qed

lemma sync_cursor_inv: "vga_inv v \<Longrightarrow> vga_inv (sync_cursor v) \<and> vga_target (sync_cursor v) = vga_target v"
  by (auto simp: sync_cursor_def vga_update_cursor_def vga_inv_def vga_bounds_check_def)

text \<open>The state of the driver before \<open>vga_initialize\<close>.\<close>

definition vga0 :: vga where
  "vga0 = \<lparr>vga_row = 0, vga_column = 0, vga_color = 7, vga_target = NoBuffer, vga_initialized = False,
     vga_memory = replicate 2000 0, vga_double = replicate 2000 0, vga_custom = replicate 2000 0,
     hw_cursor = 0, hw_cursor_on = False\<rparr>"

lemma vga0_inv: "vga_inv vga0"
  by (simp add: vga0_def vga_inv_def)

text \<open>What each operation keeps: the invariant and the target.\<close>

definition on_screen :: "target \<Rightarrow> vga \<Rightarrow> bool" where
  "on_screen tg v \<longleftrightarrow> vga_inv v \<and> vga_target v = tg"

lemma on_screen_sized: "on_screen tg v \<Longrightarrow> vga_sized tg (vga_row v) (vga_column v) v"
  by (auto simp: on_screen_def dest: vga_sized_self)

lemma on_screen_bounds: "on_screen tg v \<Longrightarrow> vga_row v < VGA_HEIGHT \<and> vga_column v < VGA_WIDTH"
  by (simp add: on_screen_def vga_inv_def)

lemma sized_on_screen: "vga_sized tg row col v \<Longrightarrow> row < VGA_HEIGHT \<Longrightarrow> col < VGA_WIDTH \<Longrightarrow> on_screen tg v"
  by (auto simp: on_screen_def vga_sized_def vga_inv_def)

lemma sync_cursor_on_screen: "on_screen tg v \<Longrightarrow> on_screen tg (sync_cursor v)"
  by (simp add: on_screen_def sync_cursor_inv)

lemma next_row_on_screen:
  assumes "vga_sized tg row col v" "tg \<noteq> NoBuffer" "row < VGA_HEIGHT"
  shows "\<exists>w. next_row v = Some w \<and> on_screen tg w"
proof -
  let ?u = "v\<lparr>vga_column := 0, vga_row := vga_row v + 1\<rparr>"
  have u: "vga_sized tg (Suc row) 0 ?u" using assms(1) by (simp add: vga_sized_def)
  show ?thesis
  proof (cases "vga_row ?u \<ge> VGA_HEIGHT")
    case True
    have "\<exists>w. vga_scroll_internal 1 ?u = Some w \<and> vga_inv w \<and> vga_target w = tg"
      using assms(3) by (intro scroll_sized [OF u assms(2)]) simp_all
    with True show ?thesis by (auto simp: next_row_def Let_def on_screen_def)
  next
    case False
    then have "Suc row < VGA_HEIGHT" using u by (simp add: vga_sized_def)
    then have "on_screen tg ?u" using sized_on_screen [OF u] by simp
    with False show ?thesis by (simp add: next_row_def Let_def)
  qed
qed

lemma put_here_sized:
  assumes "vga_sized tg row col v" "tg \<noteq> NoBuffer" "row < VGA_HEIGHT" "col < VGA_WIDTH"
  shows "\<exists>w. put_here e v = Some w \<and> vga_sized tg row col w"
proof -
  have "vga_row v = row" "vga_column v = col" using assms(1) by (simp_all add: vga_sized_def)
  with assms(3,4) show ?thesis
    unfolding put_here_def by (intro put_cell_sized [OF assms(1,2)]) simp
qed

lemma tab_steps_sized:
  "vga_sized tg row col v \<Longrightarrow> tg \<noteq> NoBuffer \<Longrightarrow> row < VGA_HEIGHT \<Longrightarrow> col + length xs \<le> VGA_WIDTH \<Longrightarrow>
   \<exists>w. for_each tab_step xs v = Some w \<and> vga_sized tg row (col + length xs) w"
proof (induction xs arbitrary: v col)
  case Nil
  then show ?case by simp
next
  case (Cons x xs)
  then obtain u where u: "put_here (blank v) v = Some u" "vga_sized tg row col u"
    using put_here_sized [of tg row col v "blank v"] by auto
  then have "vga_sized tg row (Suc col) (u\<lparr>vga_column := vga_column u + 1\<rparr>)" by (simp add: vga_sized_def)
  from Cons.IH [OF this] Cons.prems u show ?case by (simp add: tab_step_def)
qed

lemma advance_on_screen:
  assumes "vga_sized tg row col v" "tg \<noteq> NoBuffer" "row < VGA_HEIGHT" "col \<le> VGA_WIDTH"
  shows "\<exists>w. (if vga_column v \<ge> VGA_WIDTH then next_row v else Some v) = Some w \<and> on_screen tg w"
proof (cases "col = VGA_WIDTH")
  case True
  then show ?thesis
    using next_row_on_screen [OF assms(1-3)] assms(1) by (simp add: vga_sized_def)
next
  case False
  then have "on_screen tg v" using sized_on_screen [OF assms(1)] assms(3,4) by simp
  moreover have "vga_column v = col" using assms(1) by (simp add: vga_sized_def)
  ultimately show ?thesis using False assms(4) by simp
qed

text \<open>A character: every branch of the switch keeps the cursor on the screen.\<close>

lemma vga_putchar_on_screen:
  assumes "on_screen tg v"
  shows "\<exists>w. vga_putchar c v = Some w \<and> on_screen tg w"
proof (cases "tg = NoBuffer")
  case True
  with assms show ?thesis by (auto simp: vga_putchar_def on_screen_def)
next
  case False
  note z = on_screen_sized [OF assms]
  note b = on_screen_bounds [OF assms]
  have tg: "vga_target v \<noteq> NoBuffer" using assms False by (simp add: on_screen_def)
  have lift: "\<exists>w. map_option sync_cursor r = Some w \<and> on_screen tg w" if "\<exists>w. r = Some w \<and> on_screen tg w" for r
    using that sync_cursor_on_screen by auto
  consider "c = 10" | "c = 13" | "c = 8" | "c = 9"
    | "c \<noteq> 10" "c \<noteq> 13" "c \<noteq> 8" "c \<noteq> 9" "32 \<le> c" "c \<le> 126"
    | "c \<noteq> 10" "c \<noteq> 13" "c \<noteq> 8" "c \<noteq> 9" "\<not> (32 \<le> c \<and> c \<le> 126)" by blast
  then show ?thesis
  proof cases
    case 1
    then show ?thesis
      using tg lift [OF next_row_on_screen [OF z False]] b by (simp add: vga_putchar_def)
  next
    case 2
    have "on_screen tg (v\<lparr>vga_column := 0\<rparr>)" using assms by (simp add: on_screen_def vga_inv_def)
    with 2 tg show ?thesis by (simp add: vga_putchar_def sync_cursor_on_screen)
  next
    case 3
    let ?u = "if vga_column v > 0 then v\<lparr>vga_column := vga_column v - 1\<rparr>
       else if vga_row v > 0 then v\<lparr>vga_row := vga_row v - 1, vga_column := VGA_WIDTH - 1\<rparr> else v"
    have u: "on_screen tg ?u" using assms by (auto simp: on_screen_def vga_inv_def)
    obtain w where w: "put_here (blank ?u) ?u = Some w" "vga_sized tg (vga_row ?u) (vga_column ?u) w"
      using put_here_sized [OF on_screen_sized [OF u] False] on_screen_bounds [OF u] by blast
    have "on_screen tg w" using sized_on_screen [OF w(2)] on_screen_bounds [OF u] by blast
    with w(1) have "\<exists>w. put_here (blank ?u) ?u = Some w \<and> on_screen tg w" by blast
    from lift [OF this] 3 tg show ?thesis by (simp add: vga_putchar_def Let_def)
  next
    case 4
    let ?xs = "[vga_column v..<min ((vga_column v + 4) div 4 * 4) VGA_WIDTH]"
    obtain w where w: "for_each tab_step ?xs v = Some w" "vga_sized tg (vga_row v) (vga_column v + length ?xs) w"
      using tab_steps_sized [OF z False, of ?xs] b by auto
    have "vga_column v + length ?xs \<le> VGA_WIDTH" using b by auto
    from lift [OF advance_on_screen [OF w(2) False _ this]] b w(1) 4 tg show ?thesis
      by (simp add: vga_putchar_def Let_def)
  next
    case 5
    obtain w where w: "put_here (vga_entry c (vga_color v)) v = Some w" "vga_sized tg (vga_row v) (vga_column v) w"
      using put_here_sized [OF z False] b by blast
    then have "vga_sized tg (vga_row v) (vga_column v + 1) (w\<lparr>vga_column := vga_column w + 1\<rparr>)"
      by (simp add: vga_sized_def)
    note z' = this
    have "vga_row v < VGA_HEIGHT" "vga_column v + 1 \<le> VGA_WIDTH" using b by simp_all
    then have "\<exists>u. (if vga_column (w\<lparr>vga_column := vga_column w + 1\<rparr>) \<ge> VGA_WIDTH
        then next_row (w\<lparr>vga_column := vga_column w + 1\<rparr>)
        else Some (w\<lparr>vga_column := vga_column w + 1\<rparr>)) = Some u \<and> on_screen tg u"
      by (rule advance_on_screen [OF z' False])
    moreover have "vga_putchar c v = map_option sync_cursor
       (if vga_column (w\<lparr>vga_column := vga_column w + 1\<rparr>) \<ge> VGA_WIDTH
        then next_row (w\<lparr>vga_column := vga_column w + 1\<rparr>)
        else Some (w\<lparr>vga_column := vga_column w + 1\<rparr>))"
      using 5 tg w(1) by (simp add: vga_putchar_def Let_def)
    ultimately show ?thesis using lift by presburger
  next
    case 6
    then have "vga_putchar c v = Some (sync_cursor v)" using tg by (auto simp: vga_putchar_def)
    with assms show ?thesis by (simp add: sync_cursor_on_screen)
  qed
qed

text \<open>Strings and numbers are characters one after the other.\<close>

lemma vga_chars_on_screen:
  assumes "on_screen tg v"
  shows "\<exists>w. for_each (\<lambda>i. vga_putchar (g i)) xs v = Some w \<and> on_screen tg w"
  using assms by (intro for_each_inv vga_putchar_on_screen)

lemma vga_puts_on_screen: "on_screen tg v \<Longrightarrow> \<exists>w. vga_puts str v = Some w \<and> on_screen tg w"
  unfolding vga_puts_def by (rule vga_chars_on_screen [where g = "\<lambda>c. c"])

lemma vga_putdec_on_screen: "on_screen tg v \<Longrightarrow> \<exists>w. vga_putdec value digits v = Some w \<and> on_screen tg w"
  unfolding vga_putdec_def Let_def by (rule vga_chars_on_screen [where g = "\<lambda>c. c"])

lemma vga_puthex_on_screen:
  assumes "on_screen tg v"
  shows "\<exists>w. vga_puthex num v = Some w \<and> on_screen tg w"
proof -
  obtain u where u: "vga_puts [48, 120] v = Some u" "on_screen tg u"
    using vga_puts_on_screen [OF assms] by blast
  then show ?thesis using vga_chars_on_screen [OF u(2)] by (simp add: vga_puthex_def)
qed

text \<open>Single cells and areas.\<close>

lemma put_cell_on_screen:
  "on_screen tg v \<Longrightarrow> tg \<noteq> NoBuffer \<Longrightarrow> i < 2000 \<Longrightarrow> \<exists>w. put_cell i e v = Some w \<and> on_screen tg w"
  using put_cell_sized [OF on_screen_sized] sized_on_screen on_screen_bounds by blast

lemma plot_on_screen:
  assumes "on_screen tg v" "tg \<noteq> NoBuffer"
  shows "\<exists>w. plot x y e v = Some w \<and> on_screen tg w"
proof (cases "vga_bounds_check x y")
  case True
  then have "y * 80 + x < 2000" by (simp add: vga_bounds_check_def)
  then have "cell_at x y < 2000" unfolding cell_at_def by (cases "0 \<le> y * 80 + x") (simp_all add: nat_less_iff)
  then show ?thesis using put_cell_on_screen [OF assms] True by (simp add: plot_def)
next
  case False
  with assms show ?thesis by (simp add: plot_def)
qed

lemma plot_two_on_screen:
  assumes "on_screen tg v" "tg \<noteq> NoBuffer"
  shows "\<exists>w. do { v \<leftarrow> plot x y e v; plot x' y' e' v } = Some w \<and> on_screen tg w"
proof -
  obtain u where "plot x y e v = Some u" "on_screen tg u" using plot_on_screen [OF assms] by blast
  then show ?thesis using plot_on_screen [OF _ assms(2)] by simp
qed

lemma plot_pairs_on_screen:
  assumes "on_screen tg v" "tg \<noteq> NoBuffer"
  shows "\<exists>w. for_each (\<lambda>i v. do { v \<leftarrow> plot (f i) (g i) (e i) v; plot (f' i) (g' i) (e' i) v }) xs v = Some w \<and>
    on_screen tg w"
  using assms by (intro for_each_inv plot_two_on_screen)

lemma vga_putchar_at_on_screen: "on_screen tg v \<Longrightarrow> \<exists>w. vga_putchar_at c x y v = Some w \<and> on_screen tg w"
  unfolding vga_putchar_at_def
  by (cases "tg = NoBuffer") (auto simp: on_screen_def intro: plot_on_screen [unfolded on_screen_def])

lemma puts_at_loop_on_screen:
  "on_screen tg v \<Longrightarrow> \<exists>w. puts_at_loop str ox x y v = Some w \<and> on_screen tg w"
proof (induction str ox x y v rule: puts_at_loop.induct)
  case (2 c str ox x y v)
  obtain u where "vga_putchar_at c x y v = Some u" "on_screen tg u"
    using vga_putchar_at_on_screen [OF "2.prems"] by blast
  with 2 show ?case by simp
qed simp

lemma vga_puts_at_on_screen: "on_screen tg v \<Longrightarrow> \<exists>w. vga_puts_at str x y v = Some w \<and> on_screen tg w"
  using puts_at_loop_on_screen by (auto simp: vga_puts_at_def split: option.splits)

lemma vga_fill_area_on_screen:
  assumes "on_screen tg v"
  shows "\<exists>w. vga_fill_area x y wid hei c color v = Some w \<and> on_screen tg w"
proof (cases "tg = NoBuffer")
  case True
  with assms show ?thesis by (auto simp: vga_fill_area_def on_screen_def)
next
  case False
  then have "vga_target v \<noteq> NoBuffer" using assms by (simp add: on_screen_def)
  then show ?thesis
    unfolding vga_fill_area_def using assms False
    by (simp only: if_False) (intro for_each_inv plot_on_screen)
qed

lemma vga_draw_box_on_screen:
  assumes "on_screen tg v"
  shows "\<exists>w. vga_draw_box x y wid hei color v = Some w \<and> on_screen tg w"
proof (cases "vga_target v = NoBuffer \<or> wid < 2 \<or> hei < 2")
  case True
  with assms show ?thesis by (auto simp: vga_draw_box_def)
next
  case False
  then have tg: "tg \<noteq> NoBuffer" using assms by (simp add: on_screen_def)
  let ?right = "wrap32 (x + wid - 1)" and ?bottom = "wrap32 (y + hei - 1)"
  let ?edge = "\<lambda>col. vga_entry (if col = x \<or> col = ?right then 43 else 45) color"
  obtain u where u: "for_each (\<lambda>col v. do { v \<leftarrow> plot col y (?edge col) v; plot col ?bottom (?edge col) v })
      [x..wrap32 (x + wid) - 1] v = Some u" "on_screen tg u"
    using plot_pairs_on_screen [OF assms tg, of "\<lambda>col. col" "\<lambda>_. y" ?edge "\<lambda>col. col" "\<lambda>_. ?bottom" ?edge]
    by blast
  obtain w where w: "for_each (\<lambda>row v. do { v \<leftarrow> plot x row (vga_entry 124 color) v; plot ?right row (vga_entry 124 color) v })
      [wrap32 (y + 1)..?bottom - 1] u = Some w" "on_screen tg w"
    using plot_pairs_on_screen [OF u(2) tg, of "\<lambda>_. x" "\<lambda>row. row" "\<lambda>_. vga_entry 124 color" "\<lambda>_. ?right" "\<lambda>row. row"
        "\<lambda>_. vga_entry 124 color"]
    by blast
  have "vga_draw_box x y wid hei color v = Some w"
    unfolding vga_draw_box_def Let_def using False u(1) w(1) by (simp only: if_False bind.bind_lunit)
  with w(2) show ?thesis by blast
qed

text \<open>Scrolling, clearing, inserting and deleting lines.\<close>

lemma clear_row_on_screen:
  "on_screen tg v \<Longrightarrow> tg \<noteq> NoBuffer \<Longrightarrow> line < VGA_HEIGHT \<Longrightarrow> \<exists>w. clear_row line v = Some w \<and> on_screen tg w"
  using clear_row_sized [OF on_screen_sized] sized_on_screen on_screen_bounds by blast

lemma move_cells_on_screen:
  "on_screen tg v \<Longrightarrow> tg \<noteq> NoBuffer \<Longrightarrow> dst + n \<le> 2000 \<Longrightarrow> src + n \<le> 2000 \<Longrightarrow>
   \<exists>w. move_cells dst src n v = Some w \<and> on_screen tg w"
  using move_cells_sized [OF on_screen_sized] sized_on_screen on_screen_bounds by blast

lemma vga_clear_on_screen:
  assumes "vga_sized tg row col v" "tg = NoBuffer \<longrightarrow> on_screen tg v"
  shows "\<exists>w. vga_clear v = Some w \<and> on_screen tg w"
proof (cases "tg = NoBuffer")
  case True
  with assms show ?thesis by (auto simp: vga_clear_def vga_sized_def)
next
  case False
  obtain w where "vga_clear v = Some w" "vga_sized tg 0 0 w"
    using vga_clear_sized [OF assms(1) False] by blast
  then show ?thesis using sized_on_screen by force
qed

lemma vga_scroll_up_on_screen:
  assumes "on_screen tg v"
  shows "\<exists>w. vga_scroll_up lines v = Some w \<and> on_screen tg w"
proof (cases "tg = NoBuffer")
  case True
  with assms show ?thesis
    by (auto simp: vga_scroll_up_def vga_scroll_internal_def on_screen_def sync_cursor_inv)
next
  case False
  obtain w where "vga_scroll_internal lines v = Some w" "vga_inv w" "vga_target w = tg"
    using scroll_sized [OF on_screen_sized [OF assms] False] on_screen_bounds [OF assms]
    by (metis less_imp_le)
  then show ?thesis by (simp add: vga_scroll_up_def on_screen_def sync_cursor_inv)
qed

lemma vga_scroll_down_on_screen:
  assumes "on_screen tg v"
  shows "\<exists>w. vga_scroll_down lines v = Some w \<and> on_screen tg w"
proof -
  consider "tg = NoBuffer \<or> lines \<le> 0" | "tg \<noteq> NoBuffer" "int VGA_HEIGHT \<le> lines"
    | "tg \<noteq> NoBuffer" "0 < lines" "lines < int VGA_HEIGHT" by linarith
  then show ?thesis
  proof cases
    case 1
    with assms show ?thesis by (auto simp: vga_scroll_down_def on_screen_def)
  next
    case 2
    with assms show ?thesis
      using vga_clear_on_screen [OF on_screen_sized [OF assms]]
      by (auto simp: vga_scroll_down_def on_screen_def)
  next
    case 3
    define n where "n = nat lines"
    have n: "0 < n" "n < VGA_HEIGHT" using 3 by (simp_all add: n_def)
    obtain u where u: "move_cells (VGA_WIDTH * n) 0 (VGA_WIDTH * (VGA_HEIGHT - n)) v = Some u" "on_screen tg u"
      using move_cells_on_screen [OF assms 3(1), of "VGA_WIDTH * n" "VGA_WIDTH * (VGA_HEIGHT - n)" 0] n
      by (auto simp: algebra_simps)
    obtain w where w: "for_each clear_row [0..<n] u = Some w" "on_screen tg w"
      using for_each_inv [of "[0..<n]" "on_screen tg" clear_row u] clear_row_on_screen [OF _ 3(1)] n u(2)
      by fastforce
    have tg: "vga_target v = tg" using assms by (simp add: on_screen_def)
    let ?r = "if vga_row w + n < VGA_HEIGHT then vga_row w + n else VGA_HEIGHT - 1"
    have "on_screen tg (w\<lparr>vga_row := ?r\<rparr>)" using w(2) by (simp add: on_screen_def vga_inv_def)
    then have "on_screen tg (sync_cursor (w\<lparr>vga_row := ?r\<rparr>))" by (rule sync_cursor_on_screen)
    moreover have "vga_scroll_down lines v = Some (sync_cursor (w\<lparr>vga_row := ?r\<rparr>))"
      using 3 tg u(1) w(1) by (simp add: vga_scroll_down_def Let_def n_def [symmetric])
    ultimately show ?thesis by blast
  qed
qed

lemma vga_delete_line_on_screen:
  assumes "on_screen tg v"
  shows "\<exists>w. vga_delete_line y v = Some w \<and> on_screen tg w"
proof (cases "off_screen y v")
  case True
  with assms show ?thesis by (simp add: vga_delete_line_def)
next
  case False
  then have tg: "tg \<noteq> NoBuffer" and y: "nat y < VGA_HEIGHT"
    using assms by (auto simp: off_screen_def on_screen_def)
  let ?m = "if nat y < VGA_HEIGHT - 1
    then move_cells (nat y * VGA_WIDTH) ((nat y + 1) * VGA_WIDTH) (VGA_WIDTH * (VGA_HEIGHT - nat y - 1)) v
    else Some v"
  have "\<exists>u. ?m = Some u \<and> on_screen tg u"
  proof (cases "nat y < VGA_HEIGHT - 1")
    case True
    then show ?thesis unfolding if_P [OF True]
      by (intro move_cells_on_screen [OF assms tg]) (simp_all add: algebra_simps)
  next
    case False
    with assms show ?thesis by simp
  qed
  then obtain u where u: "?m = Some u" "on_screen tg u" by blast
  obtain w where w: "clear_row (VGA_HEIGHT - 1) u = Some w" "on_screen tg w"
    using clear_row_on_screen [OF u(2) tg, of "VGA_HEIGHT - 1"] by auto
  have "vga_delete_line y v = ?m \<bind> clear_row (VGA_HEIGHT - 1)"
    unfolding vga_delete_line_def Let_def using False by (simp only: if_False)
  then have "vga_delete_line y v = Some w" unfolding u(1) using w(1) by (simp only: bind.bind_lunit)
  with w(2) show ?thesis by blast
qed

lemma vga_insert_line_on_screen:
  assumes "on_screen tg v"
  shows "\<exists>w. vga_insert_line y v = Some w \<and> on_screen tg w"
proof (cases "off_screen y v")
  case True
  with assms show ?thesis by (simp add: vga_insert_line_def)
next
  case False
  then have tg: "tg \<noteq> NoBuffer" and y: "nat y < VGA_HEIGHT"
    using assms by (auto simp: off_screen_def on_screen_def)
  let ?m = "if nat y < VGA_HEIGHT - 1
    then move_cells ((nat y + 1) * VGA_WIDTH) (nat y * VGA_WIDTH) (VGA_WIDTH * (VGA_HEIGHT - nat y - 1)) v
    else Some v"
  have "\<exists>u. ?m = Some u \<and> on_screen tg u"
  proof (cases "nat y < VGA_HEIGHT - 1")
    case True
    then show ?thesis unfolding if_P [OF True]
      by (intro move_cells_on_screen [OF assms tg]) (simp_all add: algebra_simps)
  next
    case False
    with assms show ?thesis by simp
  qed
  then obtain u where u: "?m = Some u" "on_screen tg u" by blast
  obtain w where w: "clear_row (nat y) u = Some w" "on_screen tg w"
    using clear_row_on_screen [OF u(2) tg y] by auto
  have "vga_insert_line y v = ?m \<bind> clear_row (nat y)"
    unfolding vga_insert_line_def Let_def using False by (simp only: if_False)
  then have "vga_insert_line y v = Some w" unfolding u(1) using w(1) by (simp only: bind.bind_lunit)
  with w(2) show ?thesis by blast
qed

section \<open>Every sequence of operations\<close>

datatype vga_op =
    VInit | VShutdown | VClear | VDouble | VSwap | VSetBuffer "u16 list option" | VRestore "u16 list"
  | VColor u8 u8 | VColorAttr u8 u8 bool bool | VMove int int | VCursorOn | VCursorOff
  | VPutchar u8 | VPuts "u8 list" | VPutdec u32 nat | VPuthex u32 | VPrintf "u8 list" "arg list"
  | VPutcharAt u8 int int | VPutsAt "u8 list option" int int | VFill int int int int u8 u8
  | VClearArea int int int int | VBox int int int int u8
  | VScrollUp int | VScrollDown int | VDelete int | VInsert int

fun vga_step :: "vga_op \<Rightarrow> vga \<Rightarrow> vga option" where
  "vga_step VInit v = vga_initialize v"
| "vga_step VShutdown v = Some (vga_shutdown v)"
| "vga_step VClear v = vga_clear v"
| "vga_step VDouble v = vga_init_double_buffer v"
| "vga_step VSwap v = Some (vga_swap_buffers v)"
| "vga_step (VSetBuffer b) v = Some (vga_set_buffer b v)"
| "vga_step (VRestore b) v = vga_restore_screen b v"
| "vga_step (VColor fg bg) v = Some (vga_set_color fg bg v)"
| "vga_step (VColorAttr fg bg bl br) v = Some (vga_set_color_attr fg bg bl br v)"
| "vga_step (VMove x y) v = Some (vga_move_cursor x y v)"
| "vga_step VCursorOn v = Some (vga_enable_cursor v)"
| "vga_step VCursorOff v = Some (vga_disable_cursor v)"
| "vga_step (VPutchar c) v = vga_putchar c v"
| "vga_step (VPuts s) v = vga_puts s v"
| "vga_step (VPutdec n d) v = vga_putdec n d v"
| "vga_step (VPuthex n) v = vga_puthex n v"
| "vga_step (VPrintf f args) v = map_option fst (vga_printf f args v)"
| "vga_step (VPutcharAt c x y) v = vga_putchar_at c x y v"
| "vga_step (VPutsAt s x y) v = vga_puts_at s x y v"
| "vga_step (VFill x y w h c col) v = vga_fill_area x y w h c col v"
| "vga_step (VClearArea x y w h) v = vga_clear_area x y w h v"
| "vga_step (VBox x y w h col) v = vga_draw_box x y w h col v"
| "vga_step (VScrollUp n) v = vga_scroll_up n v"
| "vga_step (VScrollDown n) v = vga_scroll_down n v"
| "vga_step (VDelete y) v = vga_delete_line y v"
| "vga_step (VInsert y) v = vga_insert_line y v"

text \<open>
  What the caller must respect: a buffer it provides has the size of the screen, and a format
  has the arguments its directives take.
\<close>

fun good_format :: "u8 list \<Rightarrow> arg list \<Rightarrow> bool" where
  "good_format [] args \<longleftrightarrow> True"
| "good_format [c] args \<longleftrightarrow> True"
| "good_format (c # k # p) args \<longleftrightarrow>
     (if c \<noteq> 37 then good_format (k # p) args
      else if k = ch CHR ''s'' then (case args of Str _ # args \<Rightarrow> good_format p args | _ \<Rightarrow> False)
      else if k \<in> {ch CHR ''d'', ch CHR ''x'', ch CHR ''c''}
      then (case args of Num _ # args \<Rightarrow> good_format p args | _ \<Rightarrow> False)
      else good_format p args)"

fun vga_op_ok :: "vga_op \<Rightarrow> bool" where
  "vga_op_ok (VSetBuffer (Some b)) \<longleftrightarrow> length b = 2000"
| "vga_op_ok (VRestore b) \<longleftrightarrow> length b = 2000"
| "vga_op_ok (VPrintf f args) \<longleftrightarrow> good_format f args"
| "vga_op_ok _ \<longleftrightarrow> True"

lemma vga_directive_on_screen:
  assumes "good_format (37 # k # p) args" "on_screen tg v"
  shows "\<exists>w n args'. vga_directive k args v = Some (w, n, args') \<and> on_screen tg w \<and> good_format p args'"
proof -
  note put = vga_putchar_on_screen [OF assms(2)]
  consider "k = ch CHR ''d''" | "k = ch CHR ''x''" | "k = ch CHR ''s''" | "k = ch CHR ''c''"
    | "k \<notin> {ch CHR ''d'', ch CHR ''x'', ch CHR ''s'', ch CHR ''c''}" by blast
  then show ?thesis
  proof cases
    case 1
    then obtain w r where a: "args = Num w # r" "good_format p r"
      using assms(1) by (auto simp: ch_def split: list.splits arg.splits)
    obtain u where u: "vga_putchar 45 v = Some u" "on_screen tg u" using put by blast
    obtain x where "vga_putdec (- w) 1 u = Some x" "on_screen tg x" using vga_putdec_on_screen [OF u(2)] by blast
    moreover obtain y where "vga_putdec w 1 v = Some y" "on_screen tg y"
      using vga_putdec_on_screen [OF assms(2)] by blast
    ultimately show ?thesis using 1 a u by (simp add: vga_directive_def)
  next
    case 2
    then obtain w r where a: "args = Num w # r" "good_format p r"
      using assms(1) by (auto simp: ch_def split: list.splits arg.splits)
    obtain x where "vga_puthex w v = Some x" "on_screen tg x" using vga_puthex_on_screen [OF assms(2)] by blast
    with 2 a show ?thesis by (simp add: vga_directive_def ch_def)
  next
    case 3
    then obtain s r where a: "args = Str s # r" "good_format p r"
      using assms(1) by (auto split: list.splits arg.splits)
    show ?thesis
    proof (cases s)
      case None
      with 3 a assms(2) show ?thesis by (simp add: vga_directive_def ch_def)
    next
      case (Some str)
      obtain x where "vga_puts str v = Some x" "on_screen tg x" using vga_puts_on_screen [OF assms(2)] by blast
      with 3 a Some show ?thesis by (simp add: vga_directive_def ch_def)
    qed
  next
    case 4
    then obtain w r where a: "args = Num w # r" "good_format p r"
      using assms(1) by (auto simp: ch_def split: list.splits arg.splits)
    obtain x where "vga_putchar (ucast w) v = Some x" "on_screen tg x" using put by blast
    with 4 a show ?thesis by (simp add: vga_directive_def ch_def)
  next
    case 5
    then have a: "good_format p args" using assms(1) by auto
    obtain u where u: "vga_putchar 37 v = Some u" "on_screen tg u" using put by blast
    obtain x where "vga_putchar k u = Some x" "on_screen tg x" using vga_putchar_on_screen [OF u(2)] by blast
    with 5 a u show ?thesis by (simp add: vga_directive_def)
  qed
qed

lemma vga_printf_on_screen:
  "good_format f args \<Longrightarrow> on_screen tg v \<Longrightarrow> \<exists>w n. vga_printf f args v = Some (w, n) \<and> on_screen tg w"
proof (induction f args v rule: vga_printf.induct)
  case (1 args v)
  then show ?case by simp
next
  case (2 c args v)
  obtain w where "vga_putchar c v = Some w" "on_screen tg w" using vga_putchar_on_screen [OF "2.prems"(2)] by blast
  then show ?case by simp
next
  case (3 c k p args v)
  show ?case
  proof (cases "c = ch CHR ''%''")
    case True
    then have c: "c = 37" by (simp add: ch_def)
    obtain u n r where u: "vga_directive k args v = Some (u, n, r)" "on_screen tg u" "good_format p r"
      using vga_directive_on_screen "3.prems" c by blast
    from "3.IH"(1) [OF True u(1) refl refl u(3,2)] u(1) True show ?thesis by auto
  next
    case False
    then have c: "c \<noteq> 37" by (simp add: ch_def)
    obtain u where u: "vga_putchar c v = Some u" "on_screen tg u"
      using vga_putchar_on_screen [OF "3.prems"(2)] by blast
    have "good_format (k # p) args" using "3.prems"(1) c by simp
    from "3.IH"(2) [OF False u(1) this u(2)] u(1) False show ?thesis by auto
  qed
qed

lemma vga_clear_inv: "vga_inv v \<Longrightarrow> \<exists>w. vga_clear v = Some w \<and> vga_inv w"
  using vga_clear_on_screen [OF vga_sized_self] by (fastforce simp: on_screen_def)

text \<open>One lemma for the operations that keep the target, and the others one by one.\<close>

lemma on_screen_step: "\<exists>w. r = Some w \<and> on_screen tg w \<Longrightarrow> \<exists>w. r = Some w \<and> vga_inv w"
  by (auto simp: on_screen_def)

lemmas screen_ops = vga_putchar_on_screen vga_puts_on_screen vga_putdec_on_screen vga_puthex_on_screen
  vga_putchar_at_on_screen vga_puts_at_on_screen vga_fill_area_on_screen vga_draw_box_on_screen
  vga_scroll_up_on_screen vga_scroll_down_on_screen vga_delete_line_on_screen vga_insert_line_on_screen

lemma vga_step_inv:
  assumes "vga_inv v" "vga_op_ok x"
  shows "\<exists>w. vga_step x v = Some w \<and> vga_inv w"
proof -
  have o: "on_screen (vga_target v) v" using assms(1) by (simp add: on_screen_def)
  note run = screen_ops [OF o, THEN on_screen_step]
  show ?thesis
  proof (cases x)
    case VInit
    have "vga_inv (v\<lparr>vga_color := 7, vga_target := Memory, vga_row := 0, vga_column := 0, vga_initialized := True\<rparr>)"
      using assms(1) by (simp add: vga_inv_def)
    from vga_clear_inv [OF this] VInit show ?thesis
      by (auto simp: vga_initialize_def vga_enable_cursor_def vga_inv_def)
  next
    case VDouble
    have "vga_inv (v\<lparr>vga_target := Double\<rparr>)" using assms(1) by (simp add: vga_inv_def)
    from vga_clear_inv [OF this] VDouble show ?thesis by (simp add: vga_init_double_buffer_def)
  next
    case (VPrintf f args)
    then have "good_format f args" using assms(2) by simp
    from vga_printf_on_screen [OF this o] VPrintf show ?thesis by (auto simp: on_screen_def)
  next
    case (VRestore b)
    then show ?thesis
      using assms length_cells [OF vga_sized_self [OF assms(1)]]
      by (auto simp: vga_restore_screen_def vga_inv_def set_cells_def split: target.splits)
  next
    case (VSetBuffer b)
    with assms show ?thesis by (cases b) (simp_all add: vga_set_buffer_def vga_inv_def)
  qed (use assms(1) run vga_clear_inv in \<open>simp_all add: vga_shutdown_def vga_disable_cursor_def vga_enable_cursor_def
      vga_swap_buffers_def vga_set_color_def vga_set_color_attr_def vga_move_cursor_def vga_update_cursor_def
      vga_bounds_check_def vga_clear_area_def\<close>, (auto simp: vga_inv_def)?)
qed

interpretation screen: op_system vga_step vga_op_ok vga_inv
  by unfold_locales (use vga_step_inv in fastforce)+

section \<open>What appears on the screen\<close>

lemma cells_sync [simp]: "cells (sync_cursor v) = cells v"
  by (simp add: sync_cursor_def vga_update_cursor_def cells_def split: target.splits)

lemma cells_fields [simp]:
  "cells (v\<lparr>vga_column := x\<rparr>) = cells v" "cells (v\<lparr>vga_row := y\<rparr>) = cells v"
  "cells (v\<lparr>hw_cursor := h\<rparr>) = cells v" "cells (v\<lparr>vga_color := k\<rparr>) = cells v"
  by (simp_all add: cells_def split: target.splits)

lemma cells_set [simp]: "vga_target v \<noteq> NoBuffer \<Longrightarrow> cells (set_cells b v) = b"
  by (simp add: cells_def set_cells_def split: target.splits)

lemma set_cells_fields [simp]:
  "vga_row (set_cells b v) = vga_row v" "vga_column (set_cells b v) = vga_column v"
  "vga_color (set_cells b v) = vga_color v" "vga_target (set_cells b v) = vga_target v"
  by (simp_all add: set_cells_def split: target.splits)

text \<open>A printable character inside a row.\<close>

lemma vga_putchar_inside:
  assumes "on_screen tg v" "tg \<noteq> NoBuffer" "32 \<le> c" "c \<le> 126" "vga_column v + 1 < VGA_WIDTH"
  shows "\<exists>w. vga_putchar c v = Some w \<and> on_screen tg w \<and> vga_row w = vga_row v \<and>
    vga_column w = vga_column v + 1 \<and> vga_color w = vga_color v \<and>
    cells w = (cells v)[vga_row v * VGA_WIDTH + vga_column v := vga_entry c (vga_color v)] \<and>
    hw_cursor w = of_nat (vga_row v * VGA_WIDTH + vga_column v + 1)"
proof -
  let ?i = "vga_row v * VGA_WIDTH + vga_column v" and ?e = "vga_entry c (vga_color v)"
  have c: "c \<noteq> 10" "c \<noteq> 13" "c \<noteq> 8" "c \<noteq> 9" using assms(3) by auto
  have len: "length (cells v) = 2000" by (rule length_cells [OF on_screen_sized [OF assms(1)] assms(2)])
  have row: "vga_row v < VGA_HEIGHT" using on_screen_bounds [OF assms(1)] by simp
  have i: "?i < 2000" using row assms(5) by simp
  have tg: "vga_target v \<noteq> NoBuffer" using assms(1,2) by (simp add: on_screen_def)
  let ?w = "(set_cells ((cells v)[?i := ?e]) v)\<lparr>vga_column := vga_column v + 1\<rparr>"
  have w: "vga_putchar c v = Some (sync_cursor ?w)"
    using c tg assms(3-5) i len
    by (simp add: vga_putchar_def put_here_def put_cell_def wr_def Let_def)
  have inv: "on_screen tg (sync_cursor ?w)" using vga_putchar_on_screen [OF assms(1), of c] w by simp
  have "sync_cursor ?w = ?w\<lparr>vga_column := vga_column v + 1, vga_row := vga_row v,
      hw_cursor := of_nat (?i + 1)\<rparr>"
    using tg row assms(5) by (simp add: sync_cursor_def vga_update_cursor_def vga_bounds_check_def nat_add_distrib algebra_simps)
  then show ?thesis using w inv tg
    by (intro exI [of _ "sync_cursor ?w"]) (auto simp: cells_def set_cells_def split: target.splits)
qed

text \<open>Properties.\<close>

text \<open>C18.  From the state of the driver before its initialisation, every sequence of calls of the
  driver ends without an access outside the buffer and leaves the cursor on the screen, whatever
  the coordinates, the characters and the counts are, if the buffers of the caller have the size
  of the screen and formats have their arguments.\<close>

theorem vga_ops_safe:
  assumes "\<forall>x \<in> set xs. vga_op_ok x"
  shows "\<exists>v. run_ops vga_step xs vga0 = Some v \<and> vga_inv v"
  by (rule screen.run_safe [OF vga0_inv assms])

lemma vga_ops_safe_witness:
  "\<exists>v. run_ops vga_step [VInit, VPuts (bytes ''ab''), VMove 79 24, VPutchar 120, VDelete 24] vga0 = Some v \<and>
    vga_inv v"
  by (rule vga_ops_safe) simp

text \<open>Printable characters that fit into the rest of the row appear in the cells behind the
  cursor in the current colour, no other cell changes, and the cursor, on the screen and in the
  hardware, stands behind them.\<close>

theorem vga_puts_shows:
  assumes "vga_inv v" "vga_target v \<noteq> NoBuffer" "s \<noteq> []" "\<forall>c \<in> set s. 32 \<le> c \<and> c \<le> 126"
    and "vga_column v + length s < VGA_WIDTH"
  shows "\<exists>w. vga_puts s v = Some w \<and> vga_row w = vga_row v \<and> vga_column w = vga_column v + length s \<and>
    cells w = update_range (vga_row v * VGA_WIDTH + vga_column v) (length s)
      (\<lambda>j _. vga_entry (s ! j) (vga_color v)) (cells v) \<and>
    hw_cursor w = of_nat (vga_row v * VGA_WIDTH + vga_column v + length s)"
proof -
  have step: "\<exists>w. vga_puts s v = Some w \<and> on_screen tg w \<and> vga_row w = vga_row v \<and>
      vga_column w = vga_column v + length s \<and> vga_color w = vga_color v \<and>
      cells w = update_range (vga_row v * VGA_WIDTH + vga_column v) (length s)
        (\<lambda>j _. vga_entry (s ! j) (vga_color v)) (cells v) \<and>
      hw_cursor w = (if s = [] then hw_cursor v else of_nat (vga_row v * VGA_WIDTH + vga_column v + length s))"
    if "on_screen tg v" "tg \<noteq> NoBuffer" "\<forall>c \<in> set s. 32 \<le> c \<and> c \<le> 126"
      "vga_column v + length s < VGA_WIDTH" for s tg
    using that
  proof (induction s rule: rev_induct)
    case Nil
    then show ?case by (simp add: vga_puts_def)
  next
    case (snoc c s)
    then obtain u where u: "vga_puts s v = Some u" "on_screen tg u" "vga_row u = vga_row v"
      "vga_column u = vga_column v + length s" "vga_color u = vga_color v"
      "cells u = update_range (vga_row v * VGA_WIDTH + vga_column v) (length s)
        (\<lambda>j _. vga_entry (s ! j) (vga_color v)) (cells v)" by auto
    have "32 \<le> c" "c \<le> 126" "vga_column u + 1 < VGA_WIDTH" using snoc.prems u(4) by auto
    from vga_putchar_inside [OF u(2) snoc.prems(2) this] obtain w where
      w: "vga_putchar c u = Some w" "on_screen tg w" "vga_row w = vga_row u" "vga_column w = vga_column u + 1"
        "vga_color w = vga_color u" "cells w = (cells u)[vga_row u * VGA_WIDTH + vga_column u := vga_entry c (vga_color u)]"
        "hw_cursor w = of_nat (vga_row u * VGA_WIDTH + vga_column u + 1)" by blast
    have puts: "vga_puts (s @ [c]) v = Some w" using u(1) w(1) by (simp add: vga_puts_def for_each_append)
    have len: "length (cells v) = 2000"
      by (rule length_cells [OF on_screen_sized [OF snoc.prems(1)] snoc.prems(2)])
    have "vga_row v < VGA_HEIGHT" using on_screen_bounds [OF snoc.prems(1)] by simp
    then have "vga_row v * VGA_WIDTH + vga_column v + length s < length (cells v)"
      using len snoc.prems(4) by simp
    then have "cells w = update_range (vga_row v * VGA_WIDTH + vga_column v) (length (s @ [c]))
        (\<lambda>j _. vga_entry ((s @ [c]) ! j) (vga_color v)) (cells v)"
      unfolding w(6) u(6) u(3-5)
      by (intro nth_equalityI) (auto simp: nth_update_range nth_list_update nth_append)
    with puts w(2-5,7) u(3-5) show ?case by (simp add: add.assoc)
  qed
  have "on_screen (vga_target v) v" using assms(1) by (simp add: on_screen_def)
  from step [OF this assms(2,4,5)] assms(3) show ?thesis by auto
qed

definition vga1 :: vga where "vga1 = vga0\<lparr>vga_target := Memory\<rparr>"

lemma vga_puts_shows_witness:
  "\<exists>w. vga_puts [72, 105] vga1 = Some w \<and> vga_row w = vga_row vga1 \<and>
    vga_column w = vga_column vga1 + length [72 :: u8, 105] \<and>
    cells w = update_range (vga_row vga1 * VGA_WIDTH + vga_column vga1) (length [72 :: u8, 105])
      (\<lambda>j _. vga_entry ([72, 105] ! j) (vga_color vga1)) (cells vga1) \<and>
    hw_cursor w = of_nat (vga_row vga1 * VGA_WIDTH + vga_column vga1 + length [72 :: u8, 105])"
  by (rule vga_puts_shows) (simp_all add: vga1_def vga0_def vga_inv_def)

text \<open>A backspace blanks the cell it moves onto: it is no movement of the cursor alone.\<close>

lemma vga_backspace_erases:
  assumes "vga_inv v" "vga_target v \<noteq> NoBuffer" "vga_column v > 0"
  shows "\<exists>w. vga_putchar 8 v = Some w \<and> vga_column w = vga_column v - 1 \<and>
    cells w ! (vga_row v * VGA_WIDTH + vga_column v - 1) = blank v"
proof -
  let ?u = "v\<lparr>vga_column := vga_column v - 1\<rparr>"
  let ?i = "vga_row v * VGA_WIDTH + (vga_column v - 1)"
  have len: "length (cells v) = 2000" by (rule length_cells [OF vga_sized_self [OF assms(1)] assms(2)])
  have i: "?i < 2000" using assms(1) by (auto simp: vga_inv_def)
  have "vga_putchar 8 v = Some (sync_cursor (set_cells ((cells v)[?i := blank v]) ?u))"
    using assms i len by (simp add: vga_putchar_def put_here_def put_cell_def wr_def Let_def blank_def)
  moreover have "?i = vga_row v * VGA_WIDTH + vga_column v - 1" using assms(3) by simp
  ultimately show ?thesis
    using assms i len by (auto simp: sync_cursor_def vga_update_cursor_def vga_bounds_check_def vga_inv_def)
qed

end
