(* ===== verification/Keyboard.thy ===== *)
theory Keyboard
  imports Prelude Stdio
begin

text \<open>
  The keyboard driver, \<open>dev/keyboard/keyboard.c\<close> and \<open>usr/include/keyboard.h\<close>.  The answers of
  the ports are a list of bytes: every \<open>inb\<close> takes the next one.  A function that waits for
  more than the list holds has no result.  \<open>kb_sent\<close> is what \<open>outb\<close> wrote, with its port.
\<close>

section \<open>State\<close>

record kb_state =
  shift_pressed :: bool
  ctrl_pressed :: bool
  alt_pressed :: bool
  caps_lock :: bool
  num_lock :: bool
  scroll_lock :: bool
  input_enabled :: bool
  boot_complete :: bool
  left_shift_pressed :: bool
  right_shift_pressed :: bool
  left_ctrl_pressed :: bool
  right_ctrl_pressed :: bool
  left_alt_pressed :: bool
  right_alt_pressed :: bool
  extended_scancode :: bool
  kb_sent :: "(u16 \<times> u8) list"

definition kb_state0 :: kb_state where
  "kb_state0 = \<lparr>shift_pressed = False, ctrl_pressed = False, alt_pressed = False, caps_lock = False,
     num_lock = False, scroll_lock = False, input_enabled = False, boot_complete = False,
     left_shift_pressed = False, right_shift_pressed = False, left_ctrl_pressed = False,
     right_ctrl_pressed = False, left_alt_pressed = False, right_alt_pressed = False,
     extended_scancode = False, kb_sent = []\<rparr>"

text \<open>The two tables, 93 entries each that are written out and zeros behind them.\<close>

definition kb_scancode_to_ascii :: "u8 list" where
  "kb_scancode_to_ascii =
     [0, 27] @ bytes ''1234567890-='' @ [8, 9] @ bytes ''qwertyuiop[]'' @ [10, 0] @
     bytes ''asdfghjkl;'' @ [39, 96, 0, 92] @ bytes ''zxcvbnm,./'' @ [0, 42, 0, 32, 0, 0] @
     replicate 16 0 @ [45, 0, 0, 0, 43, 0] @ replicate 11 0 @ replicate 163 0"

definition kb_shift_scancode_to_ascii :: "u8 list" where
  "kb_shift_scancode_to_ascii =
     [0, 27] @ bytes ''!@#$%^&*()_+'' @ [8, 9] @ bytes ''QWERTYUIOP{}'' @ [10, 0] @
     bytes ''ASDFGHJKL:'' @ [34, 126, 0, 124] @ bytes ''ZXCVBNM<>?'' @ [0, 42, 0, 32, 0, 0] @
     replicate 16 0 @ [45, 0, 0, 0, 43, 0] @ replicate 11 0 @ replicate 163 0"

section \<open>The controller\<close>

definition outb :: "u16 \<Rightarrow> u8 \<Rightarrow> kb_state \<Rightarrow> kb_state" where
  "outb port v st = st\<lparr>kb_sent := kb_sent st @ [(port, v)]\<rparr>"

text \<open>At most 10000 polls of the status port.\<close>

fun wait_input_buffer_empty :: "nat \<Rightarrow> u8 list \<Rightarrow> (bool \<times> u8 list) option" where
  "wait_input_buffer_empty 0 ports = Some (False, ports)"
| "wait_input_buffer_empty (Suc retries) [] = None"
| "wait_input_buffer_empty (Suc retries) (status # ports) =
     (if status AND 0x02 = 0 then Some (True, ports) else wait_input_buffer_empty retries ports)"

fun wait_for_ack :: "nat \<Rightarrow> u8 list \<Rightarrow> (bool \<times> u8 list) option" where
  "wait_for_ack 0 ports = Some (False, ports)"
| "wait_for_ack (Suc retries) [] = None"
| "wait_for_ack (Suc retries) (status # ports) =
     (if status AND 0x01 \<noteq> 0 then
        (case ports of
           [] \<Rightarrow> None
         | d # ports \<Rightarrow> if d = 0xFA then Some (True, ports) else wait_for_ack retries ports)
      else wait_for_ack retries ports)"

abbreviation max_retries :: nat where "max_retries \<equiv> 10000"

definition kb_set_leds :: "u8 \<Rightarrow> kb_state \<Rightarrow> u8 list \<Rightarrow> (kb_state \<times> u8 list) option" where
  "kb_set_leds led_state st ports =
     (let led_state = led_state AND 7 in
      do { (ok, ports) \<leftarrow> wait_input_buffer_empty max_retries ports;
           if \<not> ok then Some (st, ports)
           else let st = outb 0x64 0xED st in
             do { (ok, ports) \<leftarrow> wait_for_ack max_retries ports;
                  if \<not> ok then Some (st, ports)
                  else do { (ok, ports) \<leftarrow> wait_input_buffer_empty max_retries ports;
                            if \<not> ok then Some (st, ports)
                            else let st = outb 0x60 led_state st in
                              do { (ok, ports) \<leftarrow> wait_for_ack max_retries ports;
                                   if \<not> ok then Some (st, ports)
                                   else Some (st\<lparr>caps_lock := led_state AND 4 \<noteq> 0,
                                                 num_lock := led_state AND 2 \<noteq> 0,
                                                 scroll_lock := led_state AND 1 \<noteq> 0\<rparr>, ports) } } } })"

definition leds_of :: "kb_state \<Rightarrow> u8" where
  "leds_of st = (if caps_lock st then 4 else 0) OR (if num_lock st then 2 else 0) OR
     (if scroll_lock st then 1 else 0)"

definition update_leds :: "kb_state \<Rightarrow> u8 list \<Rightarrow> (kb_state \<times> u8 list) option" where
  "update_leds st ports = kb_set_leds (leds_of st) st ports"

fun kb_flush :: "u8 list \<Rightarrow> u8 list option" where
  "kb_flush [] = None"
| "kb_flush [status] = (if status AND 0x01 = 0 then Some [] else None)"
| "kb_flush (status # d # ports) = (if status AND 0x01 = 0 then Some (d # ports) else kb_flush ports)"

definition kb_init :: "kb_state \<Rightarrow> u8 list \<Rightarrow> (kb_state \<times> u8 list) option" where
  "kb_init st ports =
     do { ports \<leftarrow> kb_flush ports;
          let st = kb_state0\<lparr>num_lock := True, kb_sent := kb_sent st\<rparr> in
          kb_set_leds (leds_of st) st ports }"

definition kb_enable_input :: "bool \<Rightarrow> kb_state \<Rightarrow> kb_state" where
  "kb_enable_input enable st = st\<lparr>input_enabled := enable\<rparr>"

definition kb_set_boot_complete :: "bool \<Rightarrow> kb_state \<Rightarrow> kb_state" where
  "kb_set_boot_complete complete st = st\<lparr>boot_complete := complete\<rparr>"

section \<open>Keys\<close>

definition scancode_to_ascii :: "u8 \<Rightarrow> kb_state \<Rightarrow> u8" where
  "scancode_to_ascii scancode st =
     (let base_char = kb_scancode_to_ascii ! unat scancode;
          shift = (if 97 \<le> base_char \<and> base_char \<le> 122 \<and> caps_lock st then \<not> shift_pressed st
                   else shift_pressed st)
      in if shift then kb_shift_scancode_to_ascii ! unat scancode else base_char)"

definition update_shift :: "kb_state \<Rightarrow> kb_state" where
  "update_shift st = st\<lparr>shift_pressed := left_shift_pressed st \<or> right_shift_pressed st\<rparr>"

definition update_ctrl :: "bool \<Rightarrow> kb_state \<Rightarrow> kb_state" where
  "update_ctrl pressed st =
     (let st = (if extended_scancode st then st\<lparr>right_ctrl_pressed := pressed\<rparr>
                else st\<lparr>left_ctrl_pressed := pressed\<rparr>)
      in st\<lparr>ctrl_pressed := left_ctrl_pressed st \<or> right_ctrl_pressed st\<rparr>)"

definition update_alt :: "bool \<Rightarrow> kb_state \<Rightarrow> kb_state" where
  "update_alt pressed st =
     (let st = (if extended_scancode st then st\<lparr>right_alt_pressed := pressed\<rparr>
                else st\<lparr>left_alt_pressed := pressed\<rparr>)
      in st\<lparr>alt_pressed := left_alt_pressed st \<or> right_alt_pressed st\<rparr>)"

definition handle_key_release :: "u8 \<Rightarrow> kb_state \<Rightarrow> kb_state" where
  "handle_key_release scancode st =
     (if \<not> boot_complete st then st
      else
        (if scancode = 0x2A then update_shift (st\<lparr>left_shift_pressed := False\<rparr>)
         else if scancode = 0x36 then update_shift (st\<lparr>right_shift_pressed := False\<rparr>)
         else if scancode = 0x1D then update_ctrl False st
         else if scancode = 0x38 then update_alt False st
         else st)\<lparr>extended_scancode := False\<rparr>)"

definition handle_key_press :: "u8 \<Rightarrow> kb_state \<Rightarrow> u8 list \<Rightarrow> (kb_state \<times> u8 list) option" where
  "handle_key_press scancode st ports =
     (if \<not> boot_complete st then Some (st, ports)
      else
        do { (st, ports) \<leftarrow>
               (if scancode = 0x2A then Some (st\<lparr>left_shift_pressed := True, shift_pressed := True\<rparr>, ports)
                else if scancode = 0x36 then Some (st\<lparr>right_shift_pressed := True, shift_pressed := True\<rparr>, ports)
                else if scancode = 0x1D then Some (update_ctrl True st, ports)
                else if scancode = 0x38 then Some (update_alt True st, ports)
                else if scancode = 0x3A then update_leds (st\<lparr>caps_lock := \<not> caps_lock st\<rparr>) ports
                else if scancode = 0x45 then update_leds (st\<lparr>num_lock := \<not> num_lock st\<rparr>) ports
                else if scancode = 0x46 then update_leds (st\<lparr>scroll_lock := \<not> scroll_lock st\<rparr>) ports
                else Some (st, ports));
             Some (st\<lparr>extended_scancode := False\<rparr>, ports) })"

lemma wait_input_buffer_empty_length:
  "wait_input_buffer_empty n ports = Some (ok, rest) \<Longrightarrow> length rest \<le> length ports"
  by (induction n ports rule: wait_input_buffer_empty.induct) (auto split: if_splits)

lemma wait_for_ack_length: "wait_for_ack n ports = Some (ok, rest) \<Longrightarrow> length rest \<le> length ports"
  by (induction n ports rule: wait_for_ack.induct) (auto split: if_splits list.splits)

lemma kb_set_leds_length: "kb_set_leds led st ports = Some (u, rest) \<Longrightarrow> length rest \<le> length ports"
  unfolding kb_set_leds_def Let_def
  by (auto dest!: wait_input_buffer_empty_length wait_for_ack_length split: bind_splits if_splits)

lemma handle_key_press_length:
  "handle_key_press scancode st ports = Some (u, rest) \<Longrightarrow> length rest \<le> length ports"
  by (auto simp: handle_key_press_def update_leds_def dest!: kb_set_leds_length split: bind_splits if_splits)

text \<open>The loop of \<open>kb_getchar\<close>: polls of the status, and a scancode when there is one.\<close>

function getchar_loop :: "kb_state \<Rightarrow> u8 list \<Rightarrow> (u8 \<times> kb_state \<times> u8 list) option" where
  "getchar_loop st [] = None"
| "getchar_loop st (status # ports) =
     (if status AND 0x01 = 0 then getchar_loop st ports
      else case ports of
        [] \<Rightarrow> None
      | scancode # ports \<Rightarrow>
          if scancode = 0xE0 then getchar_loop (st\<lparr>extended_scancode := True\<rparr>) ports
          else if scancode AND 0x80 \<noteq> 0 then getchar_loop (handle_key_release (scancode AND 0x7F) st) ports
          else do { (st, ports) \<leftarrow> handle_key_press scancode st ports;
                    let c = scancode_to_ascii scancode st in
                    if c \<noteq> 0 then Some (c, st, ports) else getchar_loop st ports })"
  by pat_completeness auto
termination
  by (relation "measure (\<lambda>(_, ports). length ports)") (auto dest!: handle_key_press_length)

declare getchar_loop.simps(2) [simp del]

definition kb_getchar :: "kb_state \<Rightarrow> u8 list \<Rightarrow> (u8 \<times> kb_state \<times> u8 list) option" where
  "kb_getchar st ports = (if \<not> input_enabled st then Some (0, st, ports) else getchar_loop st ports)"

definition kb_check_escape :: "u8 list \<Rightarrow> (bool \<times> u8 list) option" where
  "kb_check_escape ports =
     (case ports of
        [] \<Rightarrow> None
      | status # ports \<Rightarrow>
          if status AND 0x01 = 0 then Some (False, ports)
          else case ports of [] \<Rightarrow> None | d # ports \<Rightarrow> Some (d = 0x01, ports))"

definition kb_shift_pressed :: "kb_state \<Rightarrow> bool" where "kb_shift_pressed st = shift_pressed st"
definition kb_ctrl_pressed :: "kb_state \<Rightarrow> bool" where "kb_ctrl_pressed st = ctrl_pressed st"
definition kb_alt_pressed :: "kb_state \<Rightarrow> bool" where "kb_alt_pressed st = alt_pressed st"
definition kb_caps_lock_on :: "kb_state \<Rightarrow> bool" where "kb_caps_lock_on st = caps_lock st"
definition kb_num_lock_on :: "kb_state \<Rightarrow> bool" where "kb_num_lock_on st = num_lock st"
definition kb_scroll_lock_on :: "kb_state \<Rightarrow> bool" where "kb_scroll_lock_on st = scroll_lock st"
definition kb_is_extended :: "u8 \<Rightarrow> bool" where "kb_is_extended scancode \<longleftrightarrow> scancode = 0xE0"
definition kb_is_release :: "u8 \<Rightarrow> bool" where "kb_is_release scancode \<longleftrightarrow> scancode AND 0x80 \<noteq> 0"

section \<open>What a key gives\<close>

text \<open>The characters of the two tables: a backspace, a tabulator, a newline, an escape, or printable.\<close>

definition key_char :: "u8 \<Rightarrow> bool" where
  "key_char c \<longleftrightarrow> c \<in> {8, 9, 10, 27} \<or> 32 \<le> c \<and> c \<le> 126"

lemma table_lengths: "length kb_scancode_to_ascii = 256" "length kb_shift_scancode_to_ascii = 256"
  by code_simp+

lemma table_chars:
  "list_all (\<lambda>c. c = 0 \<or> key_char c) kb_scancode_to_ascii"
  "list_all (\<lambda>c. c = 0 \<or> key_char c) kb_shift_scancode_to_ascii"
  by code_simp+

lemma scancode_to_ascii_char: "scancode_to_ascii scancode st \<noteq> 0 \<Longrightarrow> key_char (scancode_to_ascii scancode st)"
proof -
  have "unat scancode < 2 ^ LENGTH(8)" by (rule unsigned_less)
  then have "unat scancode < 256" by simp
  then have "kb_scancode_to_ascii ! unat scancode = 0 \<or> key_char (kb_scancode_to_ascii ! unat scancode)"
    and "kb_shift_scancode_to_ascii ! unat scancode = 0 \<or> key_char (kb_shift_scancode_to_ascii ! unat scancode)"
    using table_chars by (simp_all add: list_all_length table_lengths)
  then show "scancode_to_ascii scancode st \<noteq> 0 \<Longrightarrow> key_char (scancode_to_ascii scancode st)"
    by (auto simp: scancode_to_ascii_def Let_def split: if_splits)
qed

lemma getchar_loop_char: "getchar_loop st ports = Some (c, u, rest) \<Longrightarrow> key_char c"
proof (induction st ports rule: getchar_loop.induct)
  case (1 st)
  then show ?case by simp
next
  case (2 st status ports)
  show ?case
    using "2.prems" "2.IH" scancode_to_ascii_char
    by (subst (asm) getchar_loop.simps)
      (auto simp: Let_def split: if_splits list.splits bind_splits prod.splits)
qed

section \<open>Modifiers\<close>

text \<open>The state of a modifier is that of its two keys.\<close>

definition kb_inv :: "kb_state \<Rightarrow> bool" where
  "kb_inv st \<longleftrightarrow> shift_pressed st = (left_shift_pressed st \<or> right_shift_pressed st) \<and>
     ctrl_pressed st = (left_ctrl_pressed st \<or> right_ctrl_pressed st) \<and>
     alt_pressed st = (left_alt_pressed st \<or> right_alt_pressed st)"

lemma outb_inv [simp]: "kb_inv (outb port v st) = kb_inv st"
  by (simp add: outb_def kb_inv_def)

lemma kb_set_leds_inv [inv_intros]: "kb_set_leds led st ports = Some (u, rest) \<Longrightarrow> kb_inv st \<Longrightarrow> kb_inv u"
  unfolding kb_set_leds_def Let_def
  by (auto split: bind_splits if_splits) (auto simp: kb_inv_def outb_def)

lemma handle_key_release_inv [inv_intros]: "kb_inv st \<Longrightarrow> kb_inv (handle_key_release scancode st)"
  by (simp add: kb_inv_def handle_key_release_def update_shift_def update_ctrl_def update_alt_def Let_def)

lemma kb_inv_irrelevant [simp]:
  "kb_inv (st\<lparr>caps_lock := b\<rparr>) = kb_inv st" "kb_inv (st\<lparr>num_lock := b\<rparr>) = kb_inv st"
  "kb_inv (st\<lparr>scroll_lock := b\<rparr>) = kb_inv st" "kb_inv (st\<lparr>extended_scancode := b\<rparr>) = kb_inv st"
  "kb_inv (st\<lparr>input_enabled := b\<rparr>) = kb_inv st" "kb_inv (st\<lparr>boot_complete := b\<rparr>) = kb_inv st"
  by (simp_all add: kb_inv_def)

lemma handle_key_press_inv [inv_intros]:
  assumes "handle_key_press scancode st ports = Some (u, rest)" "kb_inv st"
  shows "kb_inv u"
proof -
  have mods: "kb_inv (st\<lparr>left_shift_pressed := True, shift_pressed := True\<rparr>)"
    "kb_inv (st\<lparr>right_shift_pressed := True, shift_pressed := True\<rparr>)"
    "kb_inv (update_ctrl True st)" "kb_inv (update_alt True st)"
    using assms(2) by (simp_all add: kb_inv_def update_ctrl_def update_alt_def Let_def)
  from assms show ?thesis
    unfolding handle_key_press_def update_leds_def
    by (auto split: bind_splits if_splits simp: mods dest!: kb_set_leds_inv)
qed

lemma getchar_loop_inv: "getchar_loop st ports = Some (c, u, rest) \<Longrightarrow> kb_inv st \<Longrightarrow> kb_inv u"
proof (induction st ports rule: getchar_loop.induct)
  case (1 st)
  then show ?case by simp
next
  case (2 st status ports)
  show ?case
    using "2.prems" "2.IH" handle_key_release_inv handle_key_press_inv
    by (subst (asm) getchar_loop.simps)
      (auto simp: Let_def split: if_splits list.splits bind_splits prod.splits)
qed

text \<open>The operations of the driver that change its state.\<close>

datatype kb_op = KInit | KEnable bool | KBoot bool | KLeds u8 | KGetchar

fun kb_step :: "kb_op \<Rightarrow> kb_state \<times> u8 list \<Rightarrow> (kb_state \<times> u8 list) option" where
  "kb_step KInit (st, ports) = kb_init st ports"
| "kb_step (KEnable b) (st, ports) = Some (kb_enable_input b st, ports)"
| "kb_step (KBoot b) (st, ports) = Some (kb_set_boot_complete b st, ports)"
| "kb_step (KLeds v) (st, ports) = kb_set_leds v st ports"
| "kb_step KGetchar (st, ports) = map_option snd (kb_getchar st ports)"

lemma kb_step_inv:
  assumes "kb_inv st" "kb_step x (st, ports) = Some (u, rest)"
  shows "kb_inv u"
proof (cases x)
  case KInit
  have "kb_inv (kb_state0\<lparr>num_lock := True, kb_sent := kb_sent st\<rparr>)" by (simp add: kb_inv_def kb_state0_def)
  with KInit assms show ?thesis
    by (auto simp: kb_init_def Let_def split: bind_splits intro: kb_set_leds_inv)
next
  case KGetchar
  with assms show ?thesis
    by (auto simp: kb_getchar_def intro: getchar_loop_inv split: if_splits)
qed (use assms in \<open>auto simp: kb_enable_input_def kb_set_boot_complete_def intro: kb_set_leds_inv\<close>)

interpretation keyboard: inv_system kb_step "\<lambda>(st, ports). kb_inv st"
  by unfold_locales (auto intro: kb_step_inv)

section \<open>Typing a character\<close>

text \<open>The first key that gives a character, without or with shift.\<close>

definition key_for :: "u8 \<Rightarrow> (bool \<times> nat) option" where
  "key_for c =
     (case find_first (\<lambda>i. kb_scancode_to_ascii ! i = c) [0..<128] of
        Some i \<Rightarrow> Some (False, i)
      | None \<Rightarrow> map_option (Pair True) (find_first (\<lambda>i. kb_shift_scancode_to_ascii ! i = c) [0..<128]))"

definition key_ports :: "bool \<times> nat \<Rightarrow> u8 list" where
  "key_ports k = (if fst k then [1, 0x2A] else []) @ [1, of_nat (snd k)]"

definition plain_key :: "nat \<Rightarrow> bool" where
  "plain_key i \<longleftrightarrow> i < 128 \<and> i \<notin> {0x2A, 0x36, 0x1D, 0x38, 0x3A, 0x45, 0x46}"

lemma keys_in_tables:
  "list_all (\<lambda>n. List.member (take 81 kb_scancode_to_ascii @ take 81 kb_shift_scancode_to_ascii) (of_nat n))
   [32..<127]"
  by code_simp

lemma modifier_chars:
  "list_all (\<lambda>i. kb_scancode_to_ascii ! i = 0 \<and> kb_shift_scancode_to_ascii ! i = 0)
   [0x2A, 0x36, 0x1D, 0x38, 0x3A, 0x45, 0x46]"
  by code_simp

lemma char_plain_key:
  assumes "i < 128" "(if sh then kb_shift_scancode_to_ascii else kb_scancode_to_ascii) ! i \<noteq> 0"
  shows "plain_key i"
  using assms modifier_chars by (auto simp: plain_key_def split: if_splits)

lemma key_for_printable:
  assumes "32 \<le> c" "c \<le> 126"
  obtains sh i where "key_for c = Some (sh, i)" "plain_key i"
    "(if sh then kb_shift_scancode_to_ascii else kb_scancode_to_ascii) ! i = c"
proof -
  have c: "of_nat (unat c) = c" and c0: "c \<noteq> 0" using assms by auto
  have "32 \<le> unat c" "unat c \<le> 126" using assms by (simp_all add: word_le_nat_alt)
  then have "unat c \<in> set [32..<127]" unfolding set_upt atLeastLessThan_iff by linarith
  then have "List.member (take 81 kb_scancode_to_ascii @ take 81 kb_shift_scancode_to_ascii) (of_nat (unat c))"
    using keys_in_tables unfolding list_all_iff by blast
  then have mem: "c \<in> set (take 81 kb_scancode_to_ascii) \<or> c \<in> set (take 81 kb_shift_scancode_to_ascii)"
    unfolding c by simp
  let ?p = "\<lambda>t. find_first (\<lambda>i. t ! i = c) [0..<128]"
  have found: "?p t \<noteq> None" if "c \<in> set (take 81 t)" "length t = 256" for t
    using that by (auto simp: find_first_None in_set_conv_nth)
  show thesis
  proof (cases "?p kb_scancode_to_ascii")
    case None
    then have "c \<in> set (take 81 kb_shift_scancode_to_ascii)"
      using mem found [of kb_scancode_to_ascii] table_lengths by blast
    then obtain i where i: "?p kb_shift_scancode_to_ascii = Some i"
      using found [of kb_shift_scancode_to_ascii] table_lengths by blast
    from find_first_Some [OF this] have "i < 128" "kb_shift_scancode_to_ascii ! i = c" by simp_all
    with i None c0 show thesis using that [of True i] char_plain_key [of i True] by (simp add: key_for_def)
  next
    case (Some i)
    from find_first_Some [OF this] have "i < 128" "kb_scancode_to_ascii ! i = c" by simp_all
    with Some c0 show thesis using that [of False i] char_plain_key [of i False] by (simp add: key_for_def)
  qed
qed

lemma plain_key_code:
  assumes "plain_key i"
  shows "(of_nat i :: u8) \<noteq> 0xE0" "(of_nat i :: u8) AND 0x80 = 0" "unat (of_nat i :: u8) = i"
    "(of_nat i :: u8) \<notin> {0x2A, 0x36, 0x1D, 0x38, 0x3A, 0x45, 0x46}"
proof -
  have "list_all (\<lambda>i. plain_key i \<longrightarrow> (of_nat i :: u8) \<noteq> 0xE0 \<and> (of_nat i :: u8) AND 0x80 = 0 \<and>
      unat (of_nat i :: u8) = i \<and> (of_nat i :: u8) \<notin> {0x2A, 0x36, 0x1D, 0x38, 0x3A, 0x45, 0x46}) [0..<128]"
    by code_simp
  moreover have "i \<in> set [0..<128]" using assms by (simp add: plain_key_def)
  ultimately show "(of_nat i :: u8) \<noteq> 0xE0" "(of_nat i :: u8) AND 0x80 = 0" "unat (of_nat i :: u8) = i"
    "(of_nat i :: u8) \<notin> {0x2A, 0x36, 0x1D, 0x38, 0x3A, 0x45, 0x46}"
    using assms unfolding list_all_iff by blast+
qed

lemma plain_press:
  assumes "plain_key i"
  shows "handle_key_press (of_nat i) st ports =
    Some (if boot_complete st then st\<lparr>extended_scancode := False\<rparr> else st, ports)"
  using plain_key_code(4) [OF assms] by (simp add: handle_key_press_def)

lemma getchar_plain:
  assumes "plain_key i" "\<not> caps_lock st" "boot_complete st"
    and "(if shift_pressed st then kb_shift_scancode_to_ascii else kb_scancode_to_ascii) ! i = c" "c \<noteq> 0"
  shows "getchar_loop st [1, of_nat i] = Some (c, st\<lparr>extended_scancode := False\<rparr>, [])"
proof -
  have "scancode_to_ascii (of_nat i) (st\<lparr>extended_scancode := False\<rparr>) = c"
    using assms plain_key_code(3) [OF assms(1)] by (auto simp: scancode_to_ascii_def Let_def)
  with assms(3,5) show ?thesis
    using plain_key_code(1,2) [OF assms(1)] plain_press [OF assms(1), of st "[]"]
    by (subst getchar_loop.simps(2)) (simp add: Let_def)
qed

lemma getchar_shift:
  assumes "boot_complete st"
  shows "getchar_loop st (1 # 0x2A # ports) =
    getchar_loop (st\<lparr>left_shift_pressed := True, shift_pressed := True, extended_scancode := False\<rparr>) ports"
proof -
  have "scancode_to_ascii 0x2A u = 0" for u
    using plain_key_def by (simp add: scancode_to_ascii_def Let_def) code_simp
  with assms show ?thesis
    by (subst getchar_loop.simps(2)) (simp add: handle_key_press_def Let_def)
qed

section \<open>Properties\<close>

text \<open>C19.  Every printable character can be typed: without caps lock and shift, one key, after a
  press of the left shift key where it is in the second table, makes \<open>kb_getchar\<close> return it.\<close>

theorem kb_types_printable:
  assumes "input_enabled st" "boot_complete st" "\<not> caps_lock st" "\<not> shift_pressed st" "32 \<le> c" "c \<le> 126"
  shows "\<exists>sh i u. key_for c = Some (sh, i) \<and> kb_getchar st (key_ports (sh, i)) = Some (c, u, []) \<and>
    shift_pressed u = sh"
proof -
  obtain sh i where k: "key_for c = Some (sh, i)" "plain_key i"
    "(if sh then kb_shift_scancode_to_ascii else kb_scancode_to_ascii) ! i = c"
    using key_for_printable [OF assms(5,6)] by blast
  have c: "c \<noteq> 0" using assms(5) by auto
  show ?thesis
  proof (cases sh)
    case False
    have "getchar_loop st [1, of_nat i] = Some (c, st\<lparr>extended_scancode := False\<rparr>, [])"
      using False assms k(3) c by (intro getchar_plain [OF k(2)]) simp_all
    with False assms(1,4) k(1) show ?thesis by (auto simp: kb_getchar_def key_ports_def)
  next
    case True
    let ?st = "st\<lparr>left_shift_pressed := True, shift_pressed := True, extended_scancode := False\<rparr>"
    have "getchar_loop ?st [1, of_nat i] = Some (c, ?st\<lparr>extended_scancode := False\<rparr>, [])"
      using True assms k(3) c by (intro getchar_plain [OF k(2)]) simp_all
    with True assms(1,2) k(1) show ?thesis by (auto simp: kb_getchar_def key_ports_def getchar_shift)
  qed
qed

definition kb_ready :: kb_state where
  "kb_ready = kb_state0\<lparr>input_enabled := True, boot_complete := True\<rparr>"

lemma kb_types_printable_witness:
  "\<exists>sh i u. key_for 65 = Some (sh, i) \<and> kb_getchar kb_ready (key_ports (sh, i)) = Some (65, u, []) \<and>
    shift_pressed u = sh"
  by (rule kb_types_printable) (simp_all add: kb_ready_def kb_state0_def)

text \<open>Whatever the keys are, the character that \<open>kb_getchar\<close> returns, with the input enabled,
  is a backspace, a tabulator, a newline, an escape or printable: the control key has no effect
  on it, so the characters 3 and 4 that the shell tests for cannot be typed.\<close>

theorem kb_getchar_no_control:
  assumes "input_enabled st" "kb_getchar st ports = Some (c, u, rest)"
  shows "key_char c \<and> c \<noteq> 3 \<and> c \<noteq> 4"
proof -
  have "key_char c" using assms getchar_loop_char by (simp add: kb_getchar_def)
  then show ?thesis by (auto simp: key_char_def)
qed

lemma kb_getchar_no_control_witness:
  "kb_getchar kb_ready [1, 0x1D, 1, 0x2E] = Some (99, update_ctrl True kb_ready, []) \<and>
   key_char 99 \<and> (99 :: u8) \<noteq> 3 \<and> (99 :: u8) \<noteq> 4"
proof -
  have g: "kb_getchar kb_ready [1, 0x1D, 1, 0x2E] = Some (99, update_ctrl True kb_ready, [])" by code_simp
  have "input_enabled kb_ready" by (simp add: kb_ready_def)
  from kb_getchar_no_control [OF this g] g show ?thesis by blast
qed

text \<open>
  Over every sequence of operations the modifier states are those of their keys.
\<close>

lemma kb_ops_inv:
  assumes "run_ops kb_step xs (kb_state0, ports) = Some (st, rest)"
  shows "kb_inv st"
  using keyboard.run_inv [OF _ assms] by (simp add: kb_inv_def kb_state0_def)

text \<open>
  The arrow keys send an extended code, which the translation ignores: the up key gives no
  character, and the down key the plus sign that stands at its index.
\<close>

lemma kb_arrow_keys:
  "map_option fst (kb_getchar kb_ready [1, 0xE0, 1, 0x48]) = None"
  "map_option fst (kb_getchar kb_ready [1, 0xE0, 1, 0x50]) = Some 43"
  by code_simp+

end
