(* ===== verification/Shell.thy ===== *)
theory Shell
  imports Prelude Cstring Stdio Vga
begin

text \<open>
  The command shell, \<open>dev/shell/shell.c\<close> and \<open>usr/include/shell.h\<close>: the line editor, the
  history, the splitting of a line into arguments, and the search for a command.

  What the shell sends to the screen is a list of operations of \<open>Vga\<close>.  The characters that
  \<open>kb_getchar\<close> returns are the input list; waiting for more has no result.  A history entry is
  its address and its command; \<open>history_current\<close> is an address.  The commands of the table that
  other files define, the directory of the prompt and the answers of \<open>malloc\<close> are arguments.
\<close>

section \<open>State\<close>

abbreviation SHELL_MAX_INPUT_LENGTH :: nat where "SHELL_MAX_INPUT_LENGTH \<equiv> 256"
abbreviation SHELL_MAX_ARGS :: nat where "SHELL_MAX_ARGS \<equiv> 32"
abbreviation SHELL_HISTORY_SIZE :: nat where "SHELL_HISTORY_SIZE \<equiv> 16"

type_synonym entry = "u32 \<times> u8 list"

record shell =
  input_buffer :: "u8 list"
  input_length :: nat
  running :: bool
  history :: "entry list"
  history_count :: nat
  history_current :: "u32 option"
  cursor_pos :: nat
  insert_mode :: bool
  last_exit_status :: int

definition shell_init :: "shell \<times> vga_op list" where
  "shell_init =
     (\<lparr>input_buffer = replicate SHELL_MAX_INPUT_LENGTH 0, input_length = 0, running = True, history = [],
       history_count = 0, history_current = None, cursor_pos = 0, insert_mode = True, last_exit_status = 0\<rparr>,
      [VColor 15 0, VPuts (bytes ''Type 'help' for available commands, 'exit' to quit.'' @ [10, 10])])"

definition shell_cleanup :: "shell \<Rightarrow> shell" where
  "shell_cleanup ctx = ctx\<lparr>history := [], history_count := 0, history_current := None\<rparr>"

text \<open>The string in a buffer from an index on; a buffer without a zero has none.\<close>

definition string_at :: "u8 list \<Rightarrow> nat \<Rightarrow> u8 list option" where
  "string_at b i = (if 0 \<in> set (drop i b) then Some (takeWhile (\<lambda>c. c \<noteq> 0) (drop i b)) else None)"

section \<open>Numbers\<close>

text \<open>The digits of \<open>int_to_str\<close>, the lowest first, at most as many as there is room for.\<close>

fun int_digits :: "nat \<Rightarrow> int \<Rightarrow> u8 list" where
  "int_digits 0 value = []"
| "int_digits (Suc room) value =
     (48 + word_of_int (value smod 10)) # (if value sdiv 10 > 0 then int_digits room (value sdiv 10) else [])"

definition int_to_str :: "int \<Rightarrow> nat \<Rightarrow> u8 list" where
  "int_to_str value buf_size =
     (let negative = (value < 0);
          value = (if negative then wrap32 (- value) else value);
          buf = int_digits (buf_size - 1) value;
          buf = (if negative \<and> length buf < buf_size - 1 then buf @ [45] else buf)
      in rev_loop buf 0 (length buf - 1))"

section \<open>History\<close>

text \<open>\<open>strncpy\<close> of a command into an array of 256 bytes, and the zero at its end.\<close>

definition copy_command :: "u8 list \<Rightarrow> u8 list \<Rightarrow> u8 list option" where
  "copy_command b command =
     do { m \<leftarrow> strncpy 0 SHELL_MAX_INPUT_LENGTH (SHELL_MAX_INPUT_LENGTH - 1) (b @ command @ [0]);
          wr (take SHELL_MAX_INPUT_LENGTH m) (SHELL_MAX_INPUT_LENGTH - 1) 0 }"

definition shell_add_to_history :: "(entry list \<Rightarrow> (u32 \<times> u8 list) option) \<Rightarrow> u8 list \<Rightarrow> shell \<Rightarrow> shell option" where
  "shell_add_to_history alloc command ctx =
     (if command = [] then Some ctx
      else if history ctx \<noteq> [] \<and> snd (last (history ctx)) = command then Some ctx
      else
        do { ctx \<leftarrow> (if history_count ctx \<ge> SHELL_HISTORY_SIZE
                    then (case history ctx of
                            [] \<Rightarrow> None
                          | _ # rest \<Rightarrow> Some (ctx\<lparr>history := rest, history_count := history_count ctx - 1\<rparr>))
                    else Some ctx);
             case alloc (history ctx) of
               None \<Rightarrow> Some ctx
             | Some (a, b) \<Rightarrow>
                 do { b \<leftarrow> copy_command b command;
                      s \<leftarrow> string_at b 0;
                      Some (ctx\<lparr>history := history ctx @ [(a, s)], history_count := history_count ctx + 1\<rparr>) } })"

text \<open>The place of an entry; a pointer that is not in the queue dangles.\<close>

fun entry_index :: "entry list \<Rightarrow> u32 \<Rightarrow> nat option" where
  "entry_index [] a = None"
| "entry_index (e # es) a = (if fst e = a then Some 0 else map_option Suc (entry_index es a))"

definition older :: "shell \<Rightarrow> u32 option option" where
  "older ctx =
     (case history_current ctx of
        None \<Rightarrow> Some (Some (fst (last (history ctx))))
      | Some a \<Rightarrow> do { i \<leftarrow> entry_index (history ctx) a;
                       Some (Some (if i > 0 then fst (history ctx ! (i - 1)) else a)) })"

definition newer :: "shell \<Rightarrow> u32 option option" where
  "newer ctx =
     (case history_current ctx of
        None \<Rightarrow> Some None
      | Some a \<Rightarrow> do { i \<leftarrow> entry_index (history ctx) a;
                       Some (if i + 1 < length (history ctx) then Some (fst (history ctx ! (i + 1))) else None) })"

definition backspaces :: "nat \<Rightarrow> vga_op list" where "backspaces n = replicate n (VPutchar 8)"
definition spaces :: "nat \<Rightarrow> vga_op list" where "spaces n = replicate n (VPutchar 32)"

text \<open>The characters of the buffer from one index to the one before another.\<close>

definition put_range :: "nat \<Rightarrow> nat \<Rightarrow> u8 list \<Rightarrow> vga_op list option" where
  "put_range i j b = (if i < j \<and> length b < j then None else Some (map VPutchar (take (j - i) (drop i b))))"

definition shell_clear_input_line :: "shell \<Rightarrow> vga_op list" where
  "shell_clear_input_line ctx =
     backspaces (cursor_pos ctx) @ spaces (input_length ctx) @ backspaces (input_length ctx)"

definition shell_redraw_input :: "shell \<Rightarrow> vga_op list option" where
  "shell_redraw_input ctx =
     do { out \<leftarrow> put_range 0 (input_length ctx) (input_buffer ctx);
          Some (out @ backspaces (input_length ctx - cursor_pos ctx)) }"

definition shell_navigate_history :: "int \<Rightarrow> shell \<Rightarrow> (shell \<times> vga_op list) option" where
  "shell_navigate_history direction ctx =
     (if history ctx = [] then Some (ctx, [])
      else
        do { current \<leftarrow> (if direction > 0 then older ctx else newer ctx);
             let erase = backspaces (cursor_pos ctx) @ spaces (input_length ctx) @ backspaces (input_length ctx);
                 ctx = ctx\<lparr>history_current := current, cursor_pos := 0\<rparr>
             in do { b \<leftarrow> (case current of
                            Some a \<Rightarrow> do { i \<leftarrow> entry_index (history ctx) a;
                                           copy_command (input_buffer ctx) (snd (history ctx ! i)) }
                          | None \<Rightarrow> wr (input_buffer ctx) 0 0);
                     s \<leftarrow> string_at b 0;
                     Some (ctx\<lparr>input_buffer := b, input_length := length s, cursor_pos := length s\<rparr>,
                           erase @ [VPuts s]) } })"

section \<open>The line editor\<close>

definition insert_char :: "u8 \<Rightarrow> shell \<Rightarrow> (shell \<times> vga_op list) option" where
  "insert_char c ctx =
     (let cur = cursor_pos ctx; len = input_length ctx in
      do { b \<leftarrow> for_each (\<lambda>i b. do { x \<leftarrow> rd b (i - 1); wr b i x }) (rev [cur + 1..<len + 1]) (input_buffer ctx);
           b \<leftarrow> wr b cur c;
           out \<leftarrow> put_range cur (len + 1) b;
           Some (ctx\<lparr>input_buffer := b, input_length := len + 1, cursor_pos := cur + 1\<rparr>,
                 out @ backspaces (len + 1 - (cur + 1))) })"

definition erase_char :: "shell \<Rightarrow> (shell \<times> vga_op list) option" where
  "erase_char ctx =
     (let cur = cursor_pos ctx; len = input_length ctx in
      do { b \<leftarrow> for_each (\<lambda>i b. do { x \<leftarrow> rd b (i + 1); wr b i x }) [cur - 1..<len - 1] (input_buffer ctx);
           out \<leftarrow> put_range (cur - 1) (len - 1) b;
           Some (ctx\<lparr>input_buffer := b, input_length := len - 1, cursor_pos := cur - 1\<rparr>,
                 VPutchar 8 # out @ [VPutchar 32] @ backspaces (len - 1 + 1 - (cur - 1))) })"

definition move_right :: "shell \<Rightarrow> (shell \<times> vga_op list) option" where
  "move_right ctx =
     (if cursor_pos ctx < input_length ctx
      then do { c \<leftarrow> rd (input_buffer ctx) (cursor_pos ctx);
                Some (ctx\<lparr>cursor_pos := cursor_pos ctx + 1\<rparr>, [VPutchar c]) }
      else Some (ctx, []))"

definition move_left :: "shell \<Rightarrow> (shell \<times> vga_op list) option" where
  "move_left ctx =
     (if cursor_pos ctx > 0 then Some (ctx\<lparr>cursor_pos := cursor_pos ctx - 1\<rparr>, [VPutchar 8])
      else Some (ctx, []))"

text \<open>The two characters behind an escape.\<close>

definition escape :: "u8 \<Rightarrow> u8 \<Rightarrow> shell \<Rightarrow> (shell \<times> vga_op list) option" where
  "escape next1 next2 ctx =
     (if next1 = ch CHR ''['' then
        if next2 = ch CHR ''A'' then shell_navigate_history 1 ctx
        else if next2 = ch CHR ''B'' then shell_navigate_history (-1) ctx
        else if next2 = ch CHR ''C'' then move_right ctx
        else if next2 = ch CHR ''D'' then move_left ctx
        else Some (ctx, [])
      else Some (ctx, []))"

text \<open>What a key does to the loop: more keys, the end of the line, or the end of the shell.\<close>

datatype key_end = More | LineEnd | Stop

definition shell_key ::
    "u8 \<Rightarrow> u8 list \<Rightarrow> shell \<Rightarrow> (key_end \<times> shell \<times> vga_op list \<times> u8 list) option" where
  "shell_key c input ctx =
     (let more = map_option (\<lambda>(ctx, out). (More, ctx, out, input)) in
      if c = 10 then Some (LineEnd, ctx, [VPutchar 10], input)
      else if c = 4 then
        (if input_length ctx = 0 then Some (Stop, ctx\<lparr>running := False\<rparr>, [VPuts [10]], input)
         else Some (More, ctx, [], input))
      else if c = 3 then
        Some (LineEnd, ctx\<lparr>input_length := 0, cursor_pos := 0\<rparr>, [VPuts [94, 67, 10]], input)
      else if c = 8 \<and> cursor_pos ctx > 0 then more (erase_char ctx)
      else if c = 27 then
        (case input of
           next1 # next2 # input \<Rightarrow> map_option (\<lambda>(ctx, out). (More, ctx, out, input)) (escape next1 next2 ctx)
         | _ \<Rightarrow> None)
      else if c = 9 then Some (More, ctx, [], input)
      else if 32 \<le> c \<and> c \<le> 126 \<and> input_length ctx < SHELL_MAX_INPUT_LENGTH - 1 then more (insert_char c ctx)
      else Some (More, ctx, [], input))"

lemma shell_key_input: "shell_key c input ctx = Some (e, ctx', out, input') \<Longrightarrow> length input' \<le> length input"
  by (auto simp: shell_key_def Let_def split: if_splits list.splits)

function line_loop :: "u8 list \<Rightarrow> shell \<Rightarrow> (key_end \<times> shell \<times> vga_op list \<times> u8 list) option" where
  "line_loop [] ctx = None"
| "line_loop (c # input) ctx =
     do { (e, ctx, out, input) \<leftarrow> shell_key c input ctx;
          if e = More
          then do { (e, ctx, out', input) \<leftarrow> line_loop input ctx; Some (e, ctx, out @ out', input) }
          else Some (e, ctx, out, input) }"
  by pat_completeness auto
termination
  by (relation "measure (\<lambda>(input, _). length input)") (auto dest!: shell_key_input)

declare line_loop.simps(2) [simp del]

section \<open>Arguments\<close>

definition blank_char :: "u8 \<Rightarrow> bool" where "blank_char c \<longleftrightarrow> c = 32 \<or> c = 9"

function skip_blanks :: "u8 list \<Rightarrow> nat \<Rightarrow> nat option" where
  "skip_blanks b p = do { c \<leftarrow> rd b p; if blank_char c then skip_blanks b (p + 1) else Some p }"
  by pat_completeness auto
termination by (relation "measure (\<lambda>(b, p). length b - p)") (auto dest!: rd_less)

function token_end :: "u8 list \<Rightarrow> nat \<Rightarrow> nat option" where
  "token_end b p =
     do { c \<leftarrow> rd b p; if c \<noteq> 0 \<and> \<not> blank_char c then token_end b (p + 1) else Some p }"
  by pat_completeness auto
termination by (relation "measure (\<lambda>(b, p). length b - p)") (auto dest!: rd_less)

declare skip_blanks.simps [simp del] token_end.simps [simp del]

text \<open>The loop that splits the buffer: \<open>room\<close> more arguments are allowed.\<close>

fun split_args :: "nat \<Rightarrow> nat \<Rightarrow> u8 list \<Rightarrow> (u8 list \<times> nat list) option" where
  "split_args 0 p b = do { c \<leftarrow> rd b p; Some (b, []) }"
| "split_args (Suc room) p b =
     do { c \<leftarrow> rd b p;
          if c = 0 then Some (b, [])
          else do { p \<leftarrow> skip_blanks b p;
                    c \<leftarrow> rd b p;
                    if c = 0 then Some (b, [])
                    else do { e \<leftarrow> token_end b p;
                              c \<leftarrow> rd b e;
                              (b, argv) \<leftarrow> (if c \<noteq> 0 then split_args room (e + 1) (b[e := 0])
                                          else split_args room e b);
                              Some (b, p # argv) } } }"

text \<open>The loop of \<open>shell_process_input\<close> with \<open>strtok\<close>; the delimiters lie behind the buffer.\<close>

fun strtok_args :: "nat \<Rightarrow> nat option \<Rightarrow> nat option \<times> u8 list \<Rightarrow> (u8 list \<times> nat list) option" where
  "strtok_args room str st =
     do { (st, token) \<leftarrow> strtok str SHELL_MAX_INPUT_LENGTH st;
          case (token, room) of
            (Some p, Suc room) \<Rightarrow>
              do { (b, argv) \<leftarrow> strtok_args room None st; Some (b, p # argv) }
          | _ \<Rightarrow> Some (snd st, []) }"

section \<open>Commands\<close>

text \<open>
  A command of the table: from its arguments, the shell, the keys that follow and the rest of
  the system to its exit status, what it puts on the screen, and those three.
\<close>

type_synonym 'w main =
  "u8 list list \<Rightarrow> shell \<Rightarrow> u8 list \<Rightarrow> 'w \<Rightarrow> (int \<times> vga_op list \<times> shell \<times> u8 list \<times> 'w) option"

type_synonym 'w command = "u8 list \<times> u8 list \<times> 'w main"

definition shell_print_not_found :: "u8 list \<Rightarrow> vga_op list" where
  "shell_print_not_found command = [VPuts (bytes ''shell: ''), VPuts command, VPuts (bytes '': command not found'' @ [10])]"

definition shell_execute :: "'w command list \<Rightarrow> 'w main" where
  "shell_execute commands argv ctx input w =
     (case argv of
        [] \<Rightarrow> Some (0, [], ctx, input, w)
      | name # _ \<Rightarrow>
          (case find (\<lambda>c. fst c = name) commands of
             Some (_, _, func) \<Rightarrow> func argv ctx input w
           | None \<Rightarrow> Some (127, shell_print_not_found name, ctx, input, w)))"

definition shell_print_prompt :: "u8 list \<Rightarrow> shell \<Rightarrow> vga_op list" where
  "shell_print_prompt cwd ctx =
     (if last_exit_status ctx \<noteq> 0
      then [VPuts [91], VPuts (int_to_str (last_exit_status ctx) 12), VPuts [93, 32]] else []) @
     [VColor 12 0, VPuts (bytes ''root''), VColor 15 0, VPuts (bytes ''@unics:''), VPuts cwd, VPuts (bytes '' # '')]"

section \<open>The commands of the shell itself\<close>

definition print_padded :: "u8 list \<Rightarrow> nat \<Rightarrow> vga_op list" where
  "print_padded text wid = VPuts text # replicate (wid - length text) (VPutchar 32)"

definition help_border :: "vga_op list" where
  "help_border = VPutchar 43 # replicate 18 (VPutchar 45) @ VPutchar 43 # replicate 45 (VPutchar 45) @
     [VPuts [43, 10]]"

definition help_row :: "u8 list \<Rightarrow> u8 list \<Rightarrow> vga_op list" where
  "help_row a b = VPuts [124, 32] # print_padded a 16 @ VPuts [32, 124, 32] # print_padded b 43 @
     [VPuts [32, 124, 10]]"

definition help_number :: "nat \<Rightarrow> vga_op list" where
  "help_number n = (if n \<ge> 10 then [VPutchar (48 + of_nat (n div 10))] else []) @
     [VPutchar (48 + of_nat (n mod 10))]"

abbreviation COMMANDS_PER_PAGE :: nat where "COMMANDS_PER_PAGE \<equiv> 10"

definition total_pages :: "(u8 list \<times> u8 list) list \<Rightarrow> nat" where
  "total_pages table = (length table + COMMANDS_PER_PAGE - 1) div COMMANDS_PER_PAGE"

definition help_page :: "(u8 list \<times> u8 list) list \<Rightarrow> nat \<Rightarrow> vga_op list" where
  "help_page table page =
     VPuts (bytes ''Available commands:'' @ [10, 10]) # help_border @
     help_row (bytes ''Command'') (bytes ''Description'') @ help_border @
     concat (map (\<lambda>i. help_row (fst (table ! i)) (snd (table ! i)))
       [page * COMMANDS_PER_PAGE..<min (page * COMMANDS_PER_PAGE + COMMANDS_PER_PAGE) (length table)]) @
     help_border @
     (if length table > COMMANDS_PER_PAGE
      then VPuts (10 # bytes ''Page '') # help_number (page + 1) @ VPuts [47] # help_number (total_pages table) @
        [VPuts (bytes '' - [N]ext, [P]revious, [Q]uit'' @ [10])]
      else [VPuts (10 # bytes ''Press any key to continue...'' @ [10])])"

fun help_loop :: "(u8 list \<times> u8 list) list \<Rightarrow> nat \<Rightarrow> u8 list \<Rightarrow> (vga_op list \<times> u8 list) option" where
  "help_loop table page [] = None"
| "help_loop table page (c # input) =
     (let out = help_page table page @ [VPutchar 10];
          key = (if 65 \<le> c \<and> c \<le> 90 then c + 32 else c);
          again = (\<lambda>page msg. map_option (\<lambda>(out', rest). (out @ msg @ VPuts [10] # out', rest)) (help_loop table page input))
      in if length table \<le> COMMANDS_PER_PAGE then Some (out, input)
         else if key = ch CHR ''n'' then
           (if page < total_pages table - 1 then again (page + 1) [VClear]
            else again page [VPuts (bytes ''Already on last page.'' @ [10])])
         else if key = ch CHR ''p'' then
           (if page > 0 then again (page - 1) [VClear]
            else again page [VPuts (bytes ''Already on first page.'' @ [10])])
         else if key = ch CHR ''q'' then Some (out, input)
         else again page [VPuts (bytes ''Invalid option. Use N/P/Q for navigation.'' @ [10])])"

definition help_main :: "(u8 list \<times> u8 list) list \<Rightarrow> 'w main" where
  "help_main table argv ctx input w =
     map_option (\<lambda>(out, rest). (0, out, ctx, rest, w)) (help_loop table 0 input)"

text \<open>The digits of a positive number, the highest first.\<close>

fun index_digits :: "nat \<Rightarrow> u8 list" where
  "index_digits n = (if n < 10 then [48 + of_nat n] else index_digits (n div 10) @ [48 + of_nat (n mod 10)])"

declare index_digits.simps [simp del]

definition history_main :: "'w main" where
  "history_main argv ctx input w =
     Some (0, VPuts (bytes ''Command history:'' @ [10]) #
       concat (map (\<lambda>(i, e). [VPuts [32, 32], VPuts (index_digits i), VPuts [32, 32], VPuts (snd e), VPutchar 10])
         (enumerate 1 (history ctx))), ctx, input, w)"

fun exit_digits :: "int \<Rightarrow> u8 list \<Rightarrow> int" where
  "exit_digits code [] = code"
| "exit_digits code (c # str) =
     (if 48 \<le> c \<and> c \<le> 57 then exit_digits (wrap32 (code * 10 + (uint c - 48))) str else code)"

definition exit_main :: "'w main" where
  "exit_main argv ctx input w =
     (let code = (case argv of
                    _ # str # _ \<Rightarrow>
                      (if peek str = 45 then wrap32 (- exit_digits 0 (tl str)) else exit_digits 0 str)
                  | _ \<Rightarrow> 0)
      in Some (code, [VPuts (bytes ''Goodbye!'' @ [10])], ctx\<lparr>running := False\<rparr>, input, w))"

text \<open>The arguments of a line, from the addresses the splitting gives.\<close>

definition arguments :: "u8 list \<Rightarrow> nat list \<Rightarrow> u8 list list option" where
  "arguments b argv = those (map (string_at b) argv)"

definition run_args :: "'w command list \<Rightarrow> nat list \<Rightarrow> shell \<Rightarrow> u8 list \<Rightarrow> 'w \<Rightarrow>
    (vga_op list \<times> shell \<times> u8 list \<times> 'w) option" where
  "run_args commands argv ctx input w =
     (if argv = [] then Some ([], ctx, input, w)
      else do { args \<leftarrow> arguments (input_buffer ctx) argv;
                (status, out, ctx, input, w) \<leftarrow> shell_execute commands args ctx input w;
                Some (out, ctx\<lparr>last_exit_status := status\<rparr>, input, w) })"

definition shell_process_input :: "'w command list \<Rightarrow> shell \<Rightarrow> u8 list \<Rightarrow> 'w \<Rightarrow>
    (vga_op list \<times> shell \<times> u8 list \<times> 'w) option" where
  "shell_process_input commands ctx input w =
     (if input_length ctx = 0 then Some ([], ctx, input, w)
      else do { (b, argv) \<leftarrow> strtok_args (SHELL_MAX_ARGS - 1) (Some 0) (None, input_buffer ctx @ [32, 9, 0]);
                run_args commands argv (ctx\<lparr>input_buffer := take SHELL_MAX_INPUT_LENGTH b\<rparr>) input w })"

text \<open>What follows a line: the history, the arguments, the command.\<close>

definition finish_line :: "'w command list \<Rightarrow> (entry list \<Rightarrow> (u32 \<times> u8 list) option) \<Rightarrow> shell \<Rightarrow> u8 list \<Rightarrow> 'w \<Rightarrow>
    (vga_op list \<times> shell \<times> u8 list \<times> 'w) option" where
  "finish_line commands alloc ctx input w =
     do { b \<leftarrow> wr (input_buffer ctx) (input_length ctx) 0;
          let ctx = ctx\<lparr>input_buffer := b\<rparr> in
          if input_length ctx > 0 then
            do { line \<leftarrow> string_at b 0;
                 ctx \<leftarrow> shell_add_to_history alloc line ctx;
                 (b, argv) \<leftarrow> split_args (SHELL_MAX_ARGS - 1) 0 b;
                 run_args commands argv (ctx\<lparr>input_buffer := b\<rparr>) input w }
          else Some ([], ctx, input, w) }"

definition reset_line :: "shell \<Rightarrow> shell option" where
  "reset_line ctx =
     do { b \<leftarrow> wr (input_buffer ctx) 0 0;
          Some (ctx\<lparr>input_length := 0, cursor_pos := 0, history_current := None, input_buffer := b\<rparr>) }"

text \<open>One round of the main loop, and the loop; \<open>cwd\<close> is read from the system.\<close>

definition shell_round :: "'w command list \<Rightarrow> (entry list \<Rightarrow> (u32 \<times> u8 list) option) \<Rightarrow> ('w \<Rightarrow> u8 list) \<Rightarrow>
    shell \<Rightarrow> u8 list \<Rightarrow> 'w \<Rightarrow> (vga_op list \<times> shell \<times> u8 list \<times> 'w) option" where
  "shell_round commands alloc cwd ctx input w =
     (let prompt = shell_print_prompt (cwd w) ctx in
      do { ctx \<leftarrow> reset_line ctx;
           (e, ctx, typed, input) \<leftarrow> line_loop input ctx;
           if e = Stop then Some (prompt @ typed, ctx, input, w)
           else do { (out, ctx, input, w) \<leftarrow> finish_line commands alloc ctx input w;
                     Some (prompt @ typed @ out, ctx, input, w) } })"

partial_function (option) shell_run :: "'w command list \<Rightarrow> (entry list \<Rightarrow> (u32 \<times> u8 list) option) \<Rightarrow>
    ('w \<Rightarrow> u8 list) \<Rightarrow> shell \<Rightarrow> u8 list \<Rightarrow> 'w \<Rightarrow> (vga_op list \<times> shell \<times> u8 list \<times> 'w) option" where
  "shell_run commands alloc cwd ctx input w =
     (if running ctx then
        do { (out, ctx, input, w) \<leftarrow> shell_round commands alloc cwd ctx input w;
             (out', ctx, input, w) \<leftarrow> shell_run commands alloc cwd ctx input w;
             Some (out @ out', ctx, input, w) }
      else Some ([], ctx, input, w))"

section \<open>Buffers\<close>

lemma copy_down:
  assumes "cur \<le> len" "len < length b"
  shows "for_each (\<lambda>i b. do { x \<leftarrow> rd b (i - 1); wr b i x }) (rev [cur + 1..<len + 1]) b =
    Some (take (cur + 1) b @ take (len - cur) (drop cur b) @ drop (len + 1) b)"
  using assms
proof (induction "len - cur" arbitrary: cur)
  case 0
  then have "len = cur" by simp
  then show ?case by simp
next
  case (Suc n)
  then have c: "cur < len" "n = len - Suc cur" by simp_all
  let ?f = "\<lambda>i b. do { x \<leftarrow> rd b (i - 1); wr b i x }"
  let ?m = "take (Suc cur + 1) b @ take (len - Suc cur) (drop (Suc cur) b) @ drop (len + 1) b"
  have up: "rev [cur + 1..<len + 1] = rev [Suc cur + 1..<len + 1] @ [cur + 1]"
    using c(1) by (simp add: upt_conv_Cons)
  have IH: "for_each ?f (rev [Suc cur + 1..<len + 1]) b = Some ?m"
    using Suc.hyps(1) [OF c(2)] c(1) Suc.prems by simp
  have "?m ! cur = b ! cur" "length ?m = length b" using c(1) Suc.prems by (auto simp: nth_append)
  then have "for_each ?f (rev [cur + 1..<len + 1]) b = Some (?m[cur + 1 := b ! cur])"
    unfolding up for_each_append IH using c(1) Suc.prems by (simp add: rd_def wr_def)
  moreover have e: "Suc (i - 2) = i - Suc 0" if "\<not> i < cur" "i \<noteq> cur" "i \<noteq> Suc cur" for i
    using that by linarith
  have "?m[cur + 1 := b ! cur] = take (cur + 1) b @ take (len - cur) (drop cur b) @ drop (len + 1) b"
    using c(1) Suc.prems
    by (intro nth_equalityI) (auto simp: nth_append nth_list_update nth_Cons' less_Suc_eq min_def e split: if_splits)
  ultimately show ?case by simp
qed

lemma copy_up:
  assumes "cur \<le> len" "len < length b"
  shows "for_each (\<lambda>i b. do { x \<leftarrow> rd b (i + 1); wr b i x }) [cur..<len] b =
    Some (take cur b @ take (len - cur) (drop (cur + 1) b) @ drop len b)"
  using assms
proof (induction "len - cur" arbitrary: cur b)
  case 0
  then have "len = cur" by simp
  then show ?case by simp
next
  case (Suc n)
  then have c: "cur < len" "n = len - Suc cur" by simp_all
  let ?f = "\<lambda>i b. do { x \<leftarrow> rd b (i + 1); wr b i x }"
  let ?b = "b[cur := b ! (cur + 1)]"
  have "for_each ?f [cur..<len] b = for_each ?f [Suc cur..<len] ?b"
    using c(1) Suc.prems by (simp add: upt_conv_Cons rd_def wr_def)
  also have "\<dots> = Some (take (Suc cur) ?b @ take (len - Suc cur) (drop (Suc cur + 1) ?b) @ drop len ?b)"
    using Suc.hyps(1) [OF c(2), of ?b] c(1) Suc.prems by simp
  also have "take (Suc cur) ?b @ take (len - Suc cur) (drop (Suc cur + 1) ?b) @ drop len ?b =
      take cur b @ take (len - cur) (drop (cur + 1) b) @ drop len b"
    using c(1) Suc.prems
    by (intro nth_equalityI) (auto simp: nth_append nth_list_update nth_Cons' less_Suc_eq min_def
        intro!: arg_cong [where f = "(!) b"] split: if_splits)
  finally show ?case .
qed

section \<open>Well-formedness\<close>

definition shell_inv :: "shell \<Rightarrow> bool" where
  "shell_inv ctx \<longleftrightarrow> length (input_buffer ctx) = SHELL_MAX_INPUT_LENGTH \<and>
     cursor_pos ctx \<le> input_length ctx \<and> input_length ctx < SHELL_MAX_INPUT_LENGTH \<and>
     0 \<notin> set (take (input_length ctx) (input_buffer ctx)) \<and>
     history_count ctx = length (history ctx) \<and> history_count ctx \<le> SHELL_HISTORY_SIZE \<and>
     distinct (map fst (history ctx)) \<and>
     (\<forall>e \<in> set (history ctx). snd e \<noteq> [] \<and> length (snd e) < SHELL_MAX_INPUT_LENGTH \<and> 0 \<notin> set (snd e)) \<and>
     (\<forall>a. history_current ctx = Some a \<longrightarrow> a \<in> fst ` set (history ctx))"

text \<open>The line before and behind the cursor.\<close>

definition zipper :: "shell \<Rightarrow> u8 list \<times> u8 list" where
  "zipper ctx = (take (cursor_pos ctx) (input_buffer ctx),
     take (input_length ctx - cursor_pos ctx) (drop (cursor_pos ctx) (input_buffer ctx)))"

lemma zipper_upd:
  "zipper (ctx\<lparr>input_buffer := b, input_length := n, cursor_pos := k\<rparr>) = (take k b, take (n - k) (drop k b))"
  by (simp add: zipper_def)

lemma zipper_lengths:
  assumes "shell_inv ctx" "zipper ctx = (l, r)"
  shows "length l = cursor_pos ctx" "length l + length r = input_length ctx"
  using assms by (auto simp: shell_inv_def zipper_def)

lemma zipper_line: "zipper ctx = (l, r) \<Longrightarrow> cursor_pos ctx \<le> input_length ctx \<Longrightarrow> l @ r = take (input_length ctx) (input_buffer ctx)"
  by (auto simp: zipper_def) (metis le_add_diff_inverse take_add)

lemma put_range_in: "j \<le> length b \<Longrightarrow> put_range i j b \<noteq> None"
  by (auto simp: put_range_def)

text \<open>Inserting and erasing a character in terms of the two halves.\<close>

lemma insert_char_zipper:
  assumes inv: "shell_inv ctx" and room: "input_length ctx < SHELL_MAX_INPUT_LENGTH - 1" and "c \<noteq> 0"
    and z: "zipper ctx = (l, r)"
  shows "\<exists>ctx' out. insert_char c ctx = Some (ctx', out) \<and> shell_inv ctx' \<and> zipper ctx' = (l @ [c], r) \<and>
    history ctx' = history ctx \<and> running ctx' = running ctx"
proof -
  let ?b = "input_buffer ctx" and ?cur = "cursor_pos ctx" and ?len = "input_length ctx"
  have len: "length ?b = 256" "?cur \<le> ?len" "?len < 255" using inv room by (simp_all add: shell_inv_def)
  let ?m = "take (?cur + 1) ?b @ take (?len - ?cur) (drop ?cur ?b) @ drop (?len + 1) ?b"
  let ?n = "take ?cur ?b @ [c] @ take (?len - ?cur) (drop ?cur ?b) @ drop (?len + 1) ?b"
  have m: "for_each (\<lambda>i b. do { x \<leftarrow> rd b (i - 1); wr b i x }) (rev [?cur + 1..<?len + 1]) ?b = Some ?m"
    using len by (intro copy_down) simp_all
  have n: "wr ?m ?cur c = Some ?n"
    using len by (auto simp: wr_def take_Suc_conv_app_nth list_update_append)
  obtain out where out: "put_range ?cur (?len + 1) ?n = Some out"
    using put_range_in [of "?len + 1" ?n ?cur] len by fastforce
  let ?ctx = "ctx\<lparr>input_buffer := ?n, input_length := ?len + 1, cursor_pos := ?cur + 1\<rparr>"
  have res: "insert_char c ctx = Some (?ctx, out @ backspaces (?len + 1 - (?cur + 1)))"
    unfolding insert_char_def Let_def m using n out by (simp only: bind.bind_lunit)
  have lr: "l = take ?cur ?b" "r = take (?len - ?cur) (drop ?cur ?b)" using z by (simp_all add: zipper_def)
  have n': "?n = l @ [c] @ r @ drop (?len + 1) ?b" by (simp add: lr)
  have ll: "length l = ?cur" "length r = ?len - ?cur" using len by (simp_all add: lr)
  have "l @ r = take ?len ?b" using zipper_line [OF z] len by simp
  then have nz: "0 \<notin> set l" "0 \<notin> set r" using inv by (metis Un_iff set_append shell_inv_def)+
  have "zipper ?ctx = (l @ [c], r)" unfolding zipper_upd n' using ll len by simp
  moreover have "0 \<notin> set (take (?len + 1) ?n)" unfolding n' using ll len nz assms(3) by (auto simp: take_Cons')
  then have "shell_inv ?ctx" using inv len ll by (simp add: shell_inv_def)
  ultimately show ?thesis using res by auto
qed

lemma erase_char_zipper:
  assumes inv: "shell_inv ctx" and pos: "cursor_pos ctx > 0" and z: "zipper ctx = (l, r)"
  shows "\<exists>ctx' out. erase_char ctx = Some (ctx', out) \<and> shell_inv ctx' \<and> zipper ctx' = (butlast l, r) \<and>
    history ctx' = history ctx \<and> running ctx' = running ctx"
proof -
  let ?b = "input_buffer ctx" and ?cur = "cursor_pos ctx" and ?len = "input_length ctx"
  have len: "length ?b = 256" "?cur \<le> ?len" "?len < 256" using inv by (simp_all add: shell_inv_def)
  let ?m = "take (?cur - 1) ?b @ take (?len - 1 - (?cur - 1)) (drop (?cur - 1 + 1) ?b) @ drop (?len - 1) ?b"
  have m: "for_each (\<lambda>i b. do { x \<leftarrow> rd b (i + 1); wr b i x }) [?cur - 1..<?len - 1] ?b = Some ?m"
    using len pos by (intro copy_up) simp_all
  obtain out where out: "put_range (?cur - 1) (?len - 1) ?m = Some out"
    using put_range_in [of "?len - 1" ?m "?cur - 1"] len pos by fastforce
  let ?ctx = "ctx\<lparr>input_buffer := ?m, input_length := ?len - 1, cursor_pos := ?cur - 1\<rparr>"
  have res: "erase_char ctx =
      Some (?ctx, VPutchar 8 # out @ [VPutchar 32] @ backspaces (?len - 1 + 1 - (?cur - 1)))"
    unfolding erase_char_def Let_def m using out by (simp only: bind.bind_lunit)
  have lr: "l = take ?cur ?b" "r = take (?len - ?cur) (drop ?cur ?b)" using z by (simp_all add: zipper_def)
  have bl: "butlast l = take (?cur - 1) ?b" using len pos by (simp add: lr butlast_take)
  have r: "r = take (?len - 1 - (?cur - 1)) (drop (?cur - 1 + 1) ?b)" using pos by (simp add: lr)
  have m': "?m = butlast l @ r @ drop (?len - 1) ?b" by (simp only: bl r)
  have ll: "length (butlast l) = ?cur - 1" "length r = ?len - ?cur" using len by (simp_all add: lr)
  have "l @ r = take ?len ?b" using zipper_line [OF z] len by simp
  then have nz: "0 \<notin> set (butlast l)" "0 \<notin> set r"
    using inv by (metis Un_iff in_set_butlastD set_append shell_inv_def)+
  have "zipper ?ctx = (butlast l, r)" unfolding zipper_upd m' using ll len pos by simp
  moreover have "0 \<notin> set (take (?len - 1) ?m)" unfolding m' using ll len nz pos by auto
  then have "shell_inv ?ctx" using inv len ll pos by (auto simp: shell_inv_def)
  ultimately show ?thesis using res by auto
qed

end
