(* ===== verification/Shellrun.thy ===== *)
theory Shellrun
  imports Shell Keyboard
begin

text \<open>
  What the shell does with the keys it gets: the line editor refines a line with a cursor, every
  sequence of keys keeps the shell well formed, the two ways to split a line agree, and what
  the editor shows on the screen.
\<close>

section \<open>Copying commands\<close>

lemma copy_command_zeros:
  assumes "length b = SHELL_MAX_INPUT_LENGTH" "length command < SHELL_MAX_INPUT_LENGTH" "0 \<notin> set command"
  shows "copy_command b command = Some (command @ replicate (SHELL_MAX_INPUT_LENGTH - length command) 0)"
proof -
  let ?mem = "b @ command @ [0]"
  have c: "cstr ?mem 256 command" using assms by (simp add: cstr_def nth_append)
  have m: "strncpy 0 256 255 ?mem =
      Some (if length command < 255 then blit 0 (command @ replicate (255 + 1 - length command) 0) ?mem
            else blit 0 (take 255 command) ?mem)"
    using assms by (intro strncpy_writes [OF c]) simp_all
  show ?thesis
  proof (cases "length command < 255")
    case True
    let ?r = "command @ replicate (256 - length command) 0"
    have "take 256 (blit 0 ?r ?mem) = ?r" using True by (simp add: blit_def)
    moreover have "wr ?r 255 0 = Some ?r"
      using True by (auto simp: wr_def list_update_append intro!: nth_equalityI simp: nth_list_update)
    ultimately show ?thesis using m True by (simp add: copy_command_def)
  next
    case False
    then have l: "length command = 255" using assms(2) by simp
    have "length (take 1 (drop 255 b)) = 1" using assms(1) by simp
    then obtain x where x: "take 1 (drop 255 b) = [x]" by (metis One_nat_def length_0_conv length_Suc_conv)
    have "take 256 (blit 0 command ?mem) = command @ take 1 (drop 255 b)"
      using l assms(1) by (simp add: blit_def)
    moreover have "wr (command @ [x]) 255 0 = Some (command @ [0])"
      using l by (simp add: wr_def list_update_append)
    moreover have "take 255 command = command" using l by simp
    ultimately show ?thesis using m l x by (simp add: copy_command_def)
  qed
qed

lemma string_at_zeros: "0 \<notin> set s \<Longrightarrow> 0 < n \<Longrightarrow> string_at (s @ replicate n 0) 0 = Some s"
proof -
  assume s: "0 \<notin> set s" and n: "0 < n"
  have "takeWhile (\<lambda>c. c \<noteq> 0) (s @ replicate n 0) = s @ takeWhile (\<lambda>c. c \<noteq> 0) (replicate n 0)"
    using s by (intro takeWhile_append2) metis
  with n show ?thesis by (cases n) (simp_all add: string_at_def)
qed

section \<open>The history\<close>

lemma entry_index_in: "a \<in> fst ` set es \<Longrightarrow> \<exists>i. entry_index es a = Some i \<and> i < length es"
  by (induction es) auto

lemma older_in:
  assumes "shell_inv ctx" "history ctx \<noteq> []"
  shows "\<exists>a. older ctx = Some (Some a) \<and> a \<in> fst ` set (history ctx)"
proof (cases "history_current ctx")
  case None
  with assms(2) show ?thesis by (simp add: older_def)
next
  case (Some a)
  then have a: "a \<in> fst ` set (history ctx)" using assms(1) by (simp add: shell_inv_def)
  then obtain i where "entry_index (history ctx) a = Some i" "i < length (history ctx)"
    using entry_index_in by blast
  with Some a show ?thesis by (auto simp: older_def)
qed

lemma newer_in:
  assumes "shell_inv ctx" "history ctx \<noteq> []"
  shows "\<exists>r. newer ctx = Some r \<and> (\<forall>a. r = Some a \<longrightarrow> a \<in> fst ` set (history ctx))"
proof (cases "history_current ctx")
  case None
  then show ?thesis by (simp add: newer_def)
next
  case (Some a)
  then have "a \<in> fst ` set (history ctx)" using assms(1) by (simp add: shell_inv_def)
  then obtain i where "entry_index (history ctx) a = Some i" "i < length (history ctx)"
    using entry_index_in by blast
  with Some show ?thesis by (auto simp: newer_def)
qed

text \<open>The line becomes the command of the entry, or empty behind the newest one.\<close>

lemma navigate_line:
  assumes inv: "shell_inv ctx" and h: "history ctx \<noteq> []"
    and cur: "(if direction > 0 then older ctx else newer ctx) = Some current"
    and mem: "\<forall>a. current = Some a \<longrightarrow> a \<in> fst ` set (history ctx)"
  shows "\<exists>ctx' out. shell_navigate_history direction ctx = Some (ctx', out) \<and> shell_inv ctx' \<and>
    history_current ctx' = current \<and> history ctx' = history ctx \<and> running ctx' = running ctx \<and>
    zipper ctx' = (case current of None \<Rightarrow> []
      | Some a \<Rightarrow> snd (history ctx ! the (entry_index (history ctx) a)), [])"
proof -
  let ?b = "input_buffer ctx"
  have len: "length ?b = 256" using inv by (simp add: shell_inv_def)
  define s where "s = (case current of None \<Rightarrow> []
      | Some a \<Rightarrow> snd (history ctx ! the (entry_index (history ctx) a)))"
  have s: "length s < 256" "0 \<notin> set s"
  proof -
    have "length s < 256 \<and> 0 \<notin> set s"
    proof (cases current)
      case None
      then show ?thesis by (simp add: s_def)
    next
      case (Some a)
      then obtain i where "entry_index (history ctx) a = Some i" "i < length (history ctx)"
        using entry_index_in mem by blast
      with Some inv show ?thesis by (simp add: s_def shell_inv_def)
    qed
    then show "length s < 256" "0 \<notin> set s" by simp_all
  qed
  have "\<exists>b. (case current of Some a \<Rightarrow> do { i \<leftarrow> entry_index (history ctx) a; copy_command ?b (snd (history ctx ! i)) }
      | None \<Rightarrow> wr ?b 0 0) = Some b \<and> length b = 256 \<and> string_at b 0 = Some s \<and> take (length s) b = s"
  proof (cases current)
    case None
    then show ?thesis using len by (cases ?b) (simp_all add: s_def wr_def string_at_def)
  next
    case (Some a)
    then obtain i where "entry_index (history ctx) a = Some i" "i < length (history ctx)"
      using entry_index_in mem by blast
    with Some len s string_at_zeros [OF s(2)] show ?thesis by (simp add: s_def copy_command_zeros)
  qed
  then obtain b where b: "(case current of Some a \<Rightarrow> do { i \<leftarrow> entry_index (history ctx) a;
      copy_command ?b (snd (history ctx ! i)) } | None \<Rightarrow> wr ?b 0 0) = Some b" "length b = 256"
    "string_at b 0 = Some s" "take (length s) b = s" by blast
  let ?ctx = "ctx\<lparr>history_current := current, cursor_pos := length s, input_buffer := b, input_length := length s\<rparr>"
  have "shell_inv ?ctx" using inv b s mem by (simp add: shell_inv_def)
  moreover have "zipper ?ctx = (s, [])" using b by (simp add: zipper_def)
  moreover have "\<exists>out. shell_navigate_history direction ctx = Some (?ctx, out)"
    using h cur b by (cases current) (simp_all add: shell_navigate_history_def Let_def)
  ultimately show ?thesis by (auto simp: s_def)
qed

lemma navigate_inv:
  assumes "shell_inv ctx"
  shows "\<exists>ctx' out. shell_navigate_history direction ctx = Some (ctx', out) \<and> shell_inv ctx' \<and>
    running ctx' = running ctx"
proof (cases "history ctx = []")
  case True
  with assms show ?thesis by (simp add: shell_navigate_history_def)
next
  case False
  obtain current where "(if direction > 0 then older ctx else newer ctx) = Some current"
    "\<forall>a. current = Some a \<longrightarrow> a \<in> fst ` set (history ctx)"
    using older_in [OF assms False] newer_in [OF assms False] by (cases "direction > 0") auto
  from navigate_line [OF assms False this] show ?thesis by blast
qed

section \<open>Keys\<close>

lemma move_zipper:
  assumes "shell_inv ctx" "zipper ctx = (l, r)"
  shows "\<exists>ctx' out. move_left ctx = Some (ctx', out) \<and> shell_inv ctx' \<and>
      zipper ctx' = (if l = [] then (l, r) else (butlast l, last l # r)) \<and>
      history ctx' = history ctx \<and> running ctx' = running ctx"
    and "\<exists>ctx' out. move_right ctx = Some (ctx', out) \<and> shell_inv ctx' \<and>
      zipper ctx' = (case r of [] \<Rightarrow> (l, r) | c # r \<Rightarrow> (l @ [c], r)) \<and>
      history ctx' = history ctx \<and> running ctx' = running ctx"
proof -
  let ?b = "input_buffer ctx" and ?cur = "cursor_pos ctx" and ?len = "input_length ctx"
  have len: "length ?b = 256" "?cur \<le> ?len" "?len < 256" using assms(1) by (simp_all add: shell_inv_def)
  have lr: "l = take ?cur ?b" "r = take (?len - ?cur) (drop ?cur ?b)" using assms(2) by (simp_all add: zipper_def)
  show "\<exists>ctx' out. move_left ctx = Some (ctx', out) \<and> shell_inv ctx' \<and>
      zipper ctx' = (if l = [] then (l, r) else (butlast l, last l # r)) \<and>
      history ctx' = history ctx \<and> running ctx' = running ctx"
  proof (cases "?cur = 0")
    case True
    with assms lr show ?thesis by (simp add: move_left_def)
  next
    case False
    have ne: "l \<noteq> []" using False len by (auto simp: lr)
    have "butlast l = take (?cur - 1) ?b" using len by (simp add: lr butlast_take)
    moreover have "last l = ?b ! (?cur - 1)"
      using last_conv_nth [OF ne] False len by (simp add: lr)
    moreover have "take (?len - (?cur - 1)) (drop (?cur - 1) ?b) = ?b ! (?cur - 1) # r"
      using False len Cons_nth_drop_Suc [of "?cur - 1" ?b, symmetric]
      by (simp add: lr Suc_diff_le take_Cons')
    ultimately show ?thesis using False assms(1) ne by (auto simp: move_left_def zipper_def shell_inv_def)
  qed
  show "\<exists>ctx' out. move_right ctx = Some (ctx', out) \<and> shell_inv ctx' \<and>
      zipper ctx' = (case r of [] \<Rightarrow> (l, r) | c # r \<Rightarrow> (l @ [c], r)) \<and>
      history ctx' = history ctx \<and> running ctx' = running ctx"
  proof (cases "?cur < ?len")
    case False
    with assms lr len show ?thesis by (simp add: move_right_def)
  next
    case True
    have "r = ?b ! ?cur # take (?len - (?cur + 1)) (drop (?cur + 1) ?b)"
      using True len Cons_nth_drop_Suc [of ?cur ?b, symmetric] by (simp add: lr take_Cons')
    moreover have "take (?cur + 1) ?b = l @ [?b ! ?cur]" using True len by (simp add: lr take_Suc_conv_app_nth)
    ultimately show ?thesis
      using True len assms(1) by (auto simp: move_right_def zipper_def shell_inv_def rd_def)
  qed
qed

lemma move_inv:
  assumes "shell_inv ctx"
  shows "\<exists>ctx' out. move_left ctx = Some (ctx', out) \<and> shell_inv ctx' \<and> running ctx' = running ctx"
    and "\<exists>ctx' out. move_right ctx = Some (ctx', out) \<and> shell_inv ctx' \<and> running ctx' = running ctx"
  using move_zipper [OF assms, of "fst (zipper ctx)" "snd (zipper ctx)"] by fastforce+

lemma escape_inv:
  assumes "shell_inv ctx"
  shows "\<exists>ctx' out. escape a b ctx = Some (ctx', out) \<and> shell_inv ctx' \<and> running ctx' = running ctx"
  using navigate_inv [OF assms] move_inv [OF assms] assms by (simp add: escape_def)

lemma edit_inv:
  assumes "shell_inv ctx"
  shows "input_length ctx < SHELL_MAX_INPUT_LENGTH - 1 \<Longrightarrow> c \<noteq> 0 \<Longrightarrow>
      \<exists>ctx' out. insert_char c ctx = Some (ctx', out) \<and> shell_inv ctx' \<and> running ctx' = running ctx"
    and "cursor_pos ctx > 0 \<Longrightarrow>
      \<exists>ctx' out. erase_char ctx = Some (ctx', out) \<and> shell_inv ctx' \<and> running ctx' = running ctx"
  using insert_char_zipper [OF assms, of c "fst (zipper ctx)" "snd (zipper ctx)"]
    erase_char_zipper [OF assms, of "fst (zipper ctx)" "snd (zipper ctx)"] by fastforce+

text \<open>Every key has a result, an escape when its two characters are there.\<close>

lemma shell_key_inv:
  assumes "shell_inv ctx" "c = 27 \<longrightarrow> length input \<ge> 2"
  shows "\<exists>e ctx' out input'. shell_key c input ctx = Some (e, ctx', out, input') \<and> shell_inv ctx' \<and>
    input' = (if c = 27 then drop 2 input else input) \<and> (e = LineEnd \<longleftrightarrow> c = 10 \<or> c = 3)"
proof -
  consider "c = 8 \<and> cursor_pos ctx > 0" | "c = 27" | "c = 3"
    | "c \<noteq> 10" "c \<noteq> 4" "c \<noteq> 3" "\<not> (c = 8 \<and> cursor_pos ctx > 0)" "c \<noteq> 27" "c \<noteq> 9" "32 \<le> c \<and> c \<le> 126 \<and> input_length ctx < SHELL_MAX_INPUT_LENGTH - 1"
    | "\<not> (c = 8 \<and> cursor_pos ctx > 0)" "c \<noteq> 27" "c \<noteq> 3" "\<not> (32 \<le> c \<and> c \<le> 126 \<and> input_length ctx < SHELL_MAX_INPUT_LENGTH - 1)
       \<or> c = 10 \<or> c = 4 \<or> c = 9"
    by blast
  then show ?thesis
  proof cases
    case 1
    then show ?thesis using edit_inv(2) [OF assms(1)] by (auto simp: shell_key_def Let_def)
  next
    case 2
    then obtain a b rest where i: "input = a # b # rest"
      using assms(2) by (metis (no_types, opaque_lifting) Suc_le_length_iff numeral_2_eq_2)
    then show ?thesis using 2 escape_inv [OF assms(1), of a b] by (auto simp: shell_key_def)
  next
    case 3
    then show ?thesis using assms(1) by (simp add: shell_key_def shell_inv_def)
  next
    case 4
    then have "c \<noteq> 0" by auto
    with 4 edit_inv(1) [OF assms(1), of c] obtain ctx' out where
      "insert_char c ctx = Some (ctx', out)" "shell_inv ctx'" by blast
    with 4 show ?thesis by (auto simp: shell_key_def Let_def)
  next
    case 5
    have "shell_inv (ctx\<lparr>running := False\<rparr>)" using assms(1) by (simp add: shell_inv_def)
    with 5 assms(1) show ?thesis by (auto simp: shell_key_def Let_def)
  qed
qed

text \<open>So every input ends a line when three newlines follow it, two of which an escape may take.\<close>

lemma line_loop_ends:
  "shell_inv ctx \<Longrightarrow>
   \<exists>e ctx' out rest. line_loop (input @ [10, 10, 10]) ctx = Some (e, ctx', out, rest) \<and> shell_inv ctx' \<and> e \<noteq> More"
proof (induction "length input" arbitrary: input ctx rule: less_induct)
  case less
  obtain c i where ci: "input @ [10, 10, 10] = c # i" "length i \<ge> 2" "input = [] \<longrightarrow> c = 10"
    "input \<noteq> [] \<longrightarrow> i = tl input @ [10, 10, 10]"
    by (cases input) auto
  obtain e ctx' out where k: "shell_key c i ctx = Some (e, ctx', out, if c = 27 then drop 2 i else i)"
    "shell_inv ctx'" "e = LineEnd \<longleftrightarrow> c = 10 \<or> c = 3"
    using shell_key_inv [OF less.prems, of c i] ci(2) by blast
  show ?case
  proof (cases "e = More")
    case False
    with k show ?thesis unfolding ci(1) by (subst line_loop.simps(2)) simp
  next
    case True
    then have c: "c \<noteq> 10" "c \<noteq> 3" using k(3) by auto
    then have ne: "input \<noteq> []" using ci(3) by blast
    then have i: "i = tl input @ [10, 10, 10]" using ci(4) by blast
    have "\<exists>e u out2 rest. line_loop (if c = 27 then drop 2 i else i) ctx' = Some (e, u, out2, rest) \<and>
        shell_inv u \<and> e \<noteq> More"
    proof (cases "c = 27 \<and> length (tl input) < 2")
      case False
      then have "(if c = 27 then drop 2 i else i) = (if c = 27 then drop 2 (tl input) else tl input) @ [10, 10, 10]"
        by (cases "c = 27") (simp_all add: i not_less del: length_tl)
      then show ?thesis
        using less.hyps [of "if c = 27 then drop 2 (tl input) else tl input", OF _ k(2)] ne
        by (cases input) auto
    next
      case short: True
      then have "\<exists>n. drop 2 i = 10 # n" by (cases "tl input") (auto simp: i numeral_2_eq_2 drop_Suc)
      then obtain n where n: "drop 2 i = 10 # n" by blast
      have "line_loop (10 # n) ctx' = Some (LineEnd, ctx', [VPutchar 10], n)"
        by (subst line_loop.simps(2)) (simp add: shell_key_def)
      with short n k(2) show ?thesis by auto
    qed
    then obtain e2 u out2 rest where l: "line_loop (if c = 27 then drop 2 i else i) ctx' = Some (e2, u, out2, rest)"
      "shell_inv u" "e2 \<noteq> More" by blast
    have "line_loop (c # i) ctx = Some (e2, u, out @ out2, rest)"
      using k(1) True l(1) by (subst line_loop.simps(2)) simp
    with l(2,3) show ?thesis unfolding ci(1) by blast
  qed
qed

lemma line_loop_inv:
  "line_loop input ctx = Some (e, ctx', out, rest) \<Longrightarrow> shell_inv ctx \<Longrightarrow> shell_inv ctx' \<and> e \<noteq> More"
proof (induction input ctx arbitrary: out rule: line_loop.induct)
  case (1 ctx)
  then show ?case by simp
next
  case (2 c i ctx)
  have "c = 27 \<longrightarrow> length i \<ge> 2"
    using "2.prems"(1) by (subst (asm) line_loop.simps(2)) (auto simp: shell_key_def split: list.splits)
  from shell_key_inv [OF "2.prems"(2) this] obtain e' u o' where
    k: "shell_key c i ctx = Some (e', u, o', if c = 27 then drop 2 i else i)" "shell_inv u" by blast
  show ?case
  proof (cases "e' = More")
    case True
    obtain o2 where "line_loop (if c = 27 then drop 2 i else i) u = Some (e, ctx', o2, rest)"
      using "2.prems"(1) k(1) True by (subst (asm) line_loop.simps(2)) (auto split: bind_splits)
    from "2.IH" [OF k(1) refl refl refl True this k(2)] show ?thesis .
  next
    case False
    then show ?thesis using "2.prems"(1) k by (subst (asm) line_loop.simps(2)) auto
  qed
qed

section \<open>The editor refines a line with a cursor\<close>

datatype edit = Type u8 | Backspace | GoLeft | GoRight

fun edit_keys :: "edit \<Rightarrow> u8 list" where
  "edit_keys (Type c) = [c]"
| "edit_keys Backspace = [8]"
| "edit_keys GoLeft = [27, 91, 68]"
| "edit_keys GoRight = [27, 91, 67]"

fun edit_line :: "edit \<Rightarrow> u8 list \<times> u8 list \<Rightarrow> u8 list \<times> u8 list" where
  "edit_line (Type c) (l, r) = (if length l + length r < SHELL_MAX_INPUT_LENGTH - 1 then (l @ [c], r) else (l, r))"
| "edit_line Backspace (l, r) = (butlast l, r)"
| "edit_line GoLeft (l, r) = (if l = [] then (l, r) else (butlast l, last l # r))"
| "edit_line GoRight (l, r) = (case r of [] \<Rightarrow> (l, r) | c # r \<Rightarrow> (l @ [c], r))"

fun good_edit :: "edit \<Rightarrow> bool" where
  "good_edit (Type c) \<longleftrightarrow> 32 \<le> c \<and> c \<le> 126"
| "good_edit _ \<longleftrightarrow> True"

lemma edit_key_refines:
  assumes "shell_inv ctx" "good_edit x"
  shows "\<exists>c more ctx' out. edit_keys x = c # more \<and>
    shell_key c (more @ rest) ctx = Some (More, ctx', out, rest) \<and> shell_inv ctx' \<and>
    zipper ctx' = edit_line x (zipper ctx) \<and> history ctx' = history ctx \<and> running ctx' = running ctx"
proof -
  obtain l r where z: "zipper ctx = (l, r)" by fastforce
  note len = zipper_lengths [OF assms(1) z]
  show ?thesis
  proof (cases x)
    case (Type c)
    then have c: "32 \<le> c" "c \<le> 126" "c \<noteq> 10" "c \<noteq> 4" "c \<noteq> 3" "c \<noteq> 8" "c \<noteq> 27" "c \<noteq> 9" "c \<noteq> 0"
      using assms(2) by auto
    show ?thesis
    proof (cases "input_length ctx < SHELL_MAX_INPUT_LENGTH - 1")
      case True
      from insert_char_zipper [OF assms(1) True c(9) z] obtain ctx' out where
        "insert_char c ctx = Some (ctx', out)" "shell_inv ctx'" "zipper ctx' = (l @ [c], r)"
        "history ctx' = history ctx" "running ctx' = running ctx" by blast
      with True c z len Type show ?thesis by (simp add: shell_key_def Let_def)
    next
      case False
      with c z len Type assms(1) show ?thesis by (simp add: shell_key_def Let_def)
    qed
  next
    case Backspace
    show ?thesis
    proof (cases "cursor_pos ctx > 0")
      case True
      from erase_char_zipper [OF assms(1) True z] obtain ctx' out where
        "erase_char ctx = Some (ctx', out)" "shell_inv ctx'" "zipper ctx' = (butlast l, r)"
        "history ctx' = history ctx" "running ctx' = running ctx" by blast
      with True z Backspace show ?thesis by (simp add: shell_key_def Let_def)
    next
      case False
      with z len Backspace assms(1) show ?thesis by (simp add: shell_key_def Let_def)
    qed
  next
    case GoLeft
    from move_zipper(1) [OF assms(1) z] GoLeft z show ?thesis by (auto simp: shell_key_def escape_def ch_def)
  next
    case GoRight
    from move_zipper(2) [OF assms(1) z] GoRight z show ?thesis by (auto simp: shell_key_def escape_def ch_def)
  qed
qed

lemma line_loop_edits:
  "shell_inv ctx \<Longrightarrow> list_all good_edit xs \<Longrightarrow>
   \<exists>ctx' out. line_loop (concat (map edit_keys xs) @ 10 # rest) ctx = Some (LineEnd, ctx', out, rest) \<and>
     shell_inv ctx' \<and> zipper ctx' = fold edit_line xs (zipper ctx) \<and> history ctx' = history ctx \<and>
     running ctx' = running ctx"
proof (induction xs arbitrary: ctx)
  case Nil
  then show ?case by (simp add: line_loop.simps(2) shell_key_def)
next
  case (Cons x xs)
  let ?i = "concat (map edit_keys xs) @ 10 # rest"
  obtain c more u o1 where k: "edit_keys x = c # more" "shell_key c (more @ ?i) ctx = Some (More, u, o1, ?i)"
    "shell_inv u" "zipper u = edit_line x (zipper ctx)" "history u = history ctx" "running u = running ctx"
    using edit_key_refines [OF Cons.prems(1), of x ?i] Cons.prems(2) by auto
  obtain v o2 where l: "line_loop ?i u = Some (LineEnd, v, o2, rest)" "shell_inv v"
    "zipper v = fold edit_line xs (zipper u)" "history v = history u" "running v = running u"
    using Cons.IH [OF k(3)] Cons.prems(2) by auto
  have "line_loop (concat (map edit_keys (x # xs)) @ 10 # rest) ctx = Some (LineEnd, v, o1 @ o2, rest)"
    using k(1,2) l(1) by (simp add: line_loop.simps(2))
  with k l show ?case by auto
qed

text \<open>The string that is read from the buffer at the end of a line is the whole line.\<close>

lemma string_at_line:
  assumes "shell_inv ctx" "zipper ctx = (l, r)"
  shows "\<exists>b. wr (input_buffer ctx) (input_length ctx) 0 = Some b \<and> string_at b 0 = Some (l @ r) \<and>
    length b = SHELL_MAX_INPUT_LENGTH"
proof -
  let ?b = "input_buffer ctx" and ?n = "input_length ctx"
  have len: "length ?b = 256" "?n < 256" "cursor_pos ctx \<le> ?n" using assms(1) by (simp_all add: shell_inv_def)
  have lr: "l @ r = take ?n ?b" using zipper_line [OF assms(2) len(3)] .
  have nz: "0 \<notin> set (take ?n ?b)" using assms(1) by (simp add: shell_inv_def)
  have b: "?b[?n := 0] = take ?n ?b @ 0 # drop (?n + 1) ?b" using len by (simp add: upd_conv_take_nth_drop)
  have "takeWhile (\<lambda>c. c \<noteq> 0) (take ?n ?b @ 0 # drop (?n + 1) ?b) = take ?n ?b @ takeWhile (\<lambda>c. c \<noteq> 0) (0 # drop (?n + 1) ?b)"
    using nz by (intro takeWhile_append2) metis
  then show ?thesis using len by (simp add: wr_def string_at_def b lr)
qed

section \<open>Splitting a line\<close>

text \<open>The words of a line, between blanks and tabulators.\<close>

function words :: "u8 list \<Rightarrow> u8 list list" where
  "words s =
     (let t = dropWhile blank_char s in
      if t = [] then []
      else takeWhile (\<lambda>c. \<not> blank_char c) t # words (dropWhile (\<lambda>c. \<not> blank_char c) t))"
  by pat_completeness auto
termination
proof (relation "measure length")
  fix s t :: "u8 list"
  assume t: "t = dropWhile blank_char s" and ne: "t \<noteq> []"
  have "\<not> blank_char (hd t)" using hd_dropWhile ne t by blast
  then have "length (dropWhile (\<lambda>c. \<not> blank_char c) t) < length t"
    using ne by (cases t) (auto simp: le_imp_less_Suc length_dropWhile_le)
  also have "\<dots> \<le> length s" unfolding t by (rule length_dropWhile_le)
  finally show "(dropWhile (\<lambda>c. \<not> blank_char c) t, s) \<in> measure length" by simp
qed simp

declare words.simps [simp del]

lemma words_Nil [simp]: "words [] = []"
  by (simp add: words.simps)

lemma words_blank: "blank_char d \<Longrightarrow> words (d # s) = words s"
  by (subst (1 2) words.simps) simp

lemma words_step:
  assumes "dropWhile blank_char s = t" "t \<noteq> []" "takeWhile (\<lambda>c. \<not> blank_char c) t = tok"
    "dropWhile (\<lambda>c. \<not> blank_char c) t = rest"
  shows "words s = tok # words (tl rest)"
proof -
  have "words rest = words (tl rest)"
  proof (cases rest)
    case (Cons d r)
    then have "dropWhile (\<lambda>c. \<not> blank_char c) t \<noteq> []" using assms(4) by simp
    from hd_dropWhile [OF this] have "blank_char d" unfolding assms(4) Cons by simp
    with Cons show ?thesis by (simp add: words_blank)
  qed simp
  then show ?thesis
    using assms(2) by (subst words.simps) (simp only: assms(1,3,4) Let_def if_False)
qed

text \<open>The strings at the addresses of a list, which end before an address.\<close>

definition strings_at :: "u8 list \<Rightarrow> nat \<Rightarrow> nat list \<Rightarrow> u8 list list \<Rightarrow> bool" where
  "strings_at b n = list_all2 (\<lambda>i t. cstr b i t \<and> i + length t < n)"

lemma strings_at_simps:
  "strings_at b n [] []"
  "strings_at b n (i # argv) (t # ts) \<longleftrightarrow> cstr b i t \<and> i + length t < n \<and> strings_at b n argv ts"
  by (simp_all add: strings_at_def)

lemma cstr_take:
  assumes "cstr b i t" "i + length t < n" "take n b' = take n b" "length b' = length b"
  shows "cstr b' i t"
proof -
  have "b' ! j = b ! j" if "j < n" for j
    using that assms(3) by (metis nth_take)
  with assms(1,2,4) show ?thesis by (simp add: cstr_def)
qed

lemma string_at_cstr:
  assumes "cstr b i t"
  shows "string_at b i = Some t"
proof -
  have "drop i b = t @ 0 # drop (i + length t + 1) b"
    using assms by (intro nth_equalityI) (auto simp: cstr_def nth_append nth_Cons' not_less)
  moreover have "takeWhile (\<lambda>c. c \<noteq> 0) (t @ 0 # drop (i + length t + 1) b) =
      t @ takeWhile (\<lambda>c. c \<noteq> 0) (0 # drop (i + length t + 1) b)"
    using assms by (intro takeWhile_append2) (auto simp: cstr_def)
  ultimately show ?thesis by (simp add: string_at_def)
qed

lemma strings_at_arguments:
  assumes "strings_at b n argv ts"
  shows "arguments b argv = Some ts"
  using assms unfolding strings_at_def
proof (induction argv ts)
  case Nil
  then show ?case by (simp add: arguments_def)
next
  case (Cons i argv t ts)
  then have "string_at b i = Some t" by (intro string_at_cstr) blast
  with Cons show ?case by (simp add: arguments_def)
qed

lemma strings_at_shorter:
  assumes "strings_at b n argv ts" "n \<le> length b"
  shows "strings_at (take n b) n argv ts"
proof -
  have "cstr b i t \<and> i + length t < n \<Longrightarrow> cstr (take n b) i t \<and> i + length t < n" for i t
    using assms(2) by (auto simp: cstr_def)
  with assms(1) show ?thesis unfolding strings_at_def by (rule list_all2_mono)
qed

lemma skip_blanks_cstr:
  "cstr b p s \<Longrightarrow> skip_blanks b p = Some (p + length (takeWhile blank_char s))"
proof (induction s arbitrary: p)
  case Nil
  then show ?case by (subst skip_blanks.simps) (simp add: cstr_simps blank_char_def)
next
  case (Cons c s)
  then show ?case by (subst skip_blanks.simps) (simp add: cstr_simps)
qed

lemma token_end_cstr:
  "cstr b p s \<Longrightarrow> token_end b p = Some (p + length (takeWhile (\<lambda>c. \<not> blank_char c) s))"
proof (induction s arbitrary: p)
  case Nil
  then show ?case by (subst token_end.simps) (simp add: cstr_simps)
next
  case (Cons c s)
  then show ?case by (subst token_end.simps) (simp add: cstr_simps)
qed

lemma split_args_words:
  "cstr b p s \<Longrightarrow>
   \<exists>b' argv. split_args room p b = Some (b', argv) \<and> length b' = length b \<and> take p b' = take p b \<and>
     strings_at b' (p + length s + 1) argv (take room (words s))"
proof (induction room arbitrary: p s b)
  case 0
  then have "\<exists>c. rd b p = Some c" by (cases s) (auto simp: cstr_simps)
  then show ?case by (auto simp: strings_at_def)
next
  case (Suc room)
  let ?t = "dropWhile blank_char s"
  let ?tok = "takeWhile (\<lambda>c. \<not> blank_char c) ?t" and ?rest = "dropWhile (\<lambda>c. \<not> blank_char c) ?t"
  let ?q = "p + length (takeWhile blank_char s)"
  have sk: "skip_blanks b p = Some ?q" by (rule skip_blanks_cstr [OF Suc.prems])
  have t: "cstr b ?q ?t" using Suc.prems cstr_append by (metis takeWhile_dropWhile_id)
  have ls: "length s = length (takeWhile blank_char s) + length ?t"
    by (metis length_append takeWhile_dropWhile_id)
  have lt: "length ?t = length ?tok + length ?rest" by (metis length_append takeWhile_dropWhile_id)
  show ?case
  proof (cases s)
    case Nil
    then show ?thesis using Suc.prems by (auto simp: cstr_simps strings_at_def)
  next
    case (Cons c0 s0)
    then have c0: "rd b p = Some c0" "c0 \<noteq> 0" using Suc.prems by (simp_all add: cstr_simps)
    show ?thesis
    proof (cases "?t = []")
      case True
      have "rd b ?q = Some 0" using t unfolding True cstr_Nil .
      moreover have "words s = []" using True by (subst words.simps) simp
      ultimately show ?thesis using c0 sk by (simp add: strings_at_def)
    next
      case False
      then have q: "\<exists>c. rd b ?q = Some c \<and> c \<noteq> 0" using t by (cases ?t) (auto simp: cstr_simps)
      let ?e = "?q + length ?tok"
      have e: "token_end b ?q = Some ?e" by (rule token_end_cstr [OF t])
      have r: "cstr b ?e ?rest" using t cstr_append by (metis takeWhile_dropWhile_id)
      have w: "words s = ?tok # words (tl ?rest)" by (rule words_step [OF refl False refl refl])
      show ?thesis
      proof (cases ?rest)
        case Nil
        have z: "rd b ?e = Some 0" using r unfolding Nil cstr_Nil .
        then have "split_args room ?e b = Some (b, [])" by (cases room) simp_all
        then have "split_args (Suc room) p b = Some (b, [?q])" using c0 sk q e z by auto
        moreover have "cstr b ?q ?tok" using t Nil by (metis append_Nil2 takeWhile_dropWhile_id)
        moreover have "?q + length ?tok < p + length s + 1" using ls lt by simp
        ultimately show ?thesis using w Nil by (simp add: strings_at_def)
      next
        case (Cons d rest)
        then have d: "rd b ?e = Some d" "d \<noteq> 0" "cstr b (?e + 1) rest" using r by (simp_all add: cstr_simps)
        let ?b = "b[?e := 0]"
        have "cstr ?b (?e + 1) rest" using d(3) by (intro cstr_update) auto
        from Suc.IH [OF this] obtain b' argv where
          IH: "split_args room (?e + 1) ?b = Some (b', argv)" "length b' = length b" "take (?e + 1) b' = take (?e + 1) ?b"
            "strings_at b' (?e + 1 + length rest + 1) argv (take room (words rest))" by auto
        have res: "split_args (Suc room) p b = Some (b', ?q # argv)" using c0 sk q e d IH(1) by auto
        have "cstr ?b ?q ?tok" using t by (metis cstr_cut takeWhile_dropWhile_id)
        then have tok: "cstr b' ?q ?tok" by (rule cstr_take [OF _ _ IH(3)]) (simp_all add: IH(2))
        have n: "?e + 1 + length rest + 1 = p + length s + 1" using ls lt Cons by simp
        have "take p b' = take p (take (?e + 1) b')" by simp
        also have "\<dots> = take p b" unfolding IH(3) by simp
        finally have "take p b' = take p b" .
        moreover have "strings_at b' (p + length s + 1) argv (take room (words rest))"
          using IH(4) unfolding n .
        moreover have "?q + length ?tok < p + length s + 1" using n by linarith
        ultimately have "take p b' = take p b"
          "strings_at b' (p + length s + 1) (?q # argv) (take (Suc room) (words s))"
          using tok unfolding w Cons take_Suc_Cons strings_at_simps list.sel by blast+
        then show ?thesis using res IH(2) by blast
      qed
    qed
  qed
qed

text \<open>The same with \<open>strtok\<close>, which changes nothing before its token.\<close>

lemma strtok_frame:
  assumes "strtok str r (lt, mem) = Some ((lt', mem'), tok)" "(if str \<noteq> None then str else lt) = Some p"
  shows "take p mem' = take p mem \<and> length mem' = length mem"
  using assms by (auto simp: strtok_def Let_def wr_def split: if_splits bind_splits)

lemma strtok_last: "strtok None r (Some p, mem) = strtok (Some p) r (lt, mem)"
  by (simp add: strtok_def)

lemma strtok_args_last: "strtok_args room None (Some p, mem) = strtok_args room (Some p) (lt, mem)"
  by (subst (1 2) strtok_args.simps) (simp only: strtok_last [of _ p mem lt])

definition delimiters :: "u8 list \<Rightarrow> bool" where
  "delimiters mem \<longleftrightarrow> cstr mem SHELL_MAX_INPUT_LENGTH [32, 9]"

lemma strtok_args_words:
  "cstr mem p s \<Longrightarrow> delimiters mem \<Longrightarrow> p + length s < SHELL_MAX_INPUT_LENGTH \<Longrightarrow>
   \<exists>mem' argv. strtok_args room (Some p) (lt, mem) = Some (mem', argv) \<and> length mem' = length mem \<and>
     take p mem' = take p mem \<and> strings_at mem' (p + length s + 1) argv (take room (words s))"
proof (induction room arbitrary: p s mem lt)
  case 0
  have "\<exists>lt' mem' tok. strtok (Some p) 256 (lt, mem) = Some ((lt', mem'), tok)"
  proof (cases "s = []")
    case True
    with 0 show ?thesis by (simp add: strtok_def cstr_simps)
  next
    case False
    from strtok_step [OF "0.prems"(1) False "0.prems"(2) [unfolded delimiters_def] _ refl refl refl refl, of lt]
      "0.prems"(3)
    show ?thesis by (auto split: if_splits)
  qed
  then obtain lt' mem' tok where st: "strtok (Some p) 256 (lt, mem) = Some ((lt', mem'), tok)" by blast
  then have "strtok_args 0 (Some p) (lt, mem) = Some (mem', [])" by (simp split: option.splits)
  with strtok_frame [OF st, of p] show ?case by (auto simp: strings_at_def)
next
  case (Suc room)
  have bc: "blank_char c \<longleftrightarrow> c \<in> set [32, 9]" for c by (auto simp: blank_char_def)
  then have bc': "blank_char = (\<lambda>c. c \<in> set [32, 9])" by (intro ext)
  show ?case
  proof (cases "s = []")
    case True
    then have "strtok (Some p) 256 (lt, mem) = Some ((Some p, mem), None)"
      using Suc.prems by (simp add: strtok_def cstr_simps)
    with True show ?thesis by (subst strtok_args.simps) (simp add: strings_at_def)
  next
    case False
    define t where "t = dropWhile blank_char s"
    define start where "start = p + length (takeWhile blank_char s)"
    define tok where "tok = takeWhile (\<lambda>c. \<not> blank_char c) t"
    define rest where "rest = dropWhile (\<lambda>c. \<not> blank_char c) t"
    have ls: "length s = length (takeWhile blank_char s) + length t"
      unfolding t_def by (metis length_append takeWhile_dropWhile_id)
    have lt: "length t = length tok + length rest"
      unfolding tok_def rest_def by (metis length_append takeWhile_dropWhile_id)
    have st: "if t = [] then strtok (Some p) 256 (lt, mem) = Some ((None, mem), None)
      else \<exists>lt' mem'. strtok (Some p) 256 (lt, mem) = Some ((lt', mem'), Some start) \<and>
        cstr mem' start tok \<and> cstr mem' 256 [32, 9] \<and>
        (if rest = [] then lt' = None
         else lt' = Some (start + length tok + 1) \<and> cstr mem' (start + length tok + 1) (tl rest))"
      using Suc.prems(3)
      by (intro strtok_step [OF Suc.prems(1) False Suc.prems(2) [unfolded delimiters_def]]
          t_def [unfolded bc'] start_def [unfolded bc'] tok_def [unfolded bc'] rest_def [unfolded bc']) simp
    show ?thesis
    proof (cases "t = []")
      case True
      then have "strtok_args (Suc room) (Some p) (lt, mem) = Some (mem, [])"
        using st by (subst strtok_args.simps) simp
      moreover have "words s = []" using True unfolding t_def by (subst words.simps) (simp only: Let_def simp_thms if_True)
      ultimately show ?thesis by (simp add: strings_at_def)
    next
      case ne: False
      then obtain lt' mem1 where s1: "strtok (Some p) 256 (lt, mem) = Some ((lt', mem1), Some start)"
        "cstr mem1 start tok" "delimiters mem1"
        "if rest = [] then lt' = None
         else lt' = Some (start + length tok + 1) \<and> cstr mem1 (start + length tok + 1) (tl rest)"
        using st by (auto simp: delimiters_def)
      note f1 = strtok_frame [OF s1(1), of p, simplified]
      have w: "words s = tok # words (tl rest)"
        by (rule words_step [of s t]) (simp_all only: t_def tok_def rest_def ne [unfolded t_def] simp_thms)
      show ?thesis
      proof (cases "rest = []")
        case True
        have "strtok_args room None (None, mem1) = Some (mem1, [])"
          by (subst strtok_args.simps) (simp add: strtok_def split: nat.splits)
        then have "strtok_args (Suc room) (Some p) (lt, mem) = Some (mem1, [start])"
          using s1(1,4) True by (subst strtok_args.simps) simp
        moreover have "start + length tok < p + length s + 1" using ls lt by (simp add: start_def)
        ultimately show ?thesis using f1 s1(2) w True by (simp add: strings_at_def)
      next
        case False
        let ?q = "start + length tok + 1"
        have q: "lt' = Some ?q" "cstr mem1 ?q (tl rest)" using s1(4) False by simp_all
        have len: "?q + length (tl rest) + 1 = p + length s + 1"
          using ls lt False by (cases rest) (simp_all add: start_def)
        then have "?q + length (tl rest) < 256" using Suc.prems(3) by simp
        from Suc.IH [OF q(2) s1(3) this, of None] obtain mem2 argv where
          IH: "strtok_args room (Some ?q) (None, mem1) = Some (mem2, argv)" "length mem2 = length mem1"
            "take ?q mem2 = take ?q mem1" "strings_at mem2 (?q + length (tl rest) + 1) argv (take room (words (tl rest)))"
          by blast
        have "strtok_args room None (lt', mem1) = Some (mem2, argv)"
          unfolding q(1) strtok_args_last [of room ?q mem1 None] by (rule IH(1))
        then have res: "strtok_args (Suc room) (Some p) (lt, mem) = Some (mem2, start # argv)"
          using s1(1) by (subst strtok_args.simps) simp
        have tok: "cstr mem2 start tok"
          by (rule cstr_take [OF s1(2) _ IH(3)]) (simp_all add: IH(2))
        have "take p mem2 = take p (take ?q mem2)" by (simp add: start_def)
        also have "\<dots> = take p mem1" unfolding IH(3) by (simp add: start_def)
        finally have "take p mem2 = take p mem" using f1 by simp
        moreover have "strings_at mem2 (p + length s + 1) argv (take room (words (tl rest)))"
          using IH(4) unfolding len .
        moreover have "start + length tok < p + length s + 1" using len by linarith
        ultimately have "take p mem2 = take p mem"
          "strings_at mem2 (p + length s + 1) (start # argv) (take (Suc room) (words s))"
          using tok unfolding w take_Suc_Cons strings_at_simps by blast+
        then show ?thesis using res IH(2) f1 by auto
      qed
    qed
  qed
qed

section \<open>Lines and commands\<close>

text \<open>
  Between two lines the buffer holds the pieces of the last one, and the pointer into the
  history may dangle, since the oldest entry can be removed; both are reset before the next key.
\<close>

definition history_ok :: "shell \<Rightarrow> bool" where
  "history_ok ctx \<longleftrightarrow> history_count ctx = length (history ctx) \<and> history_count ctx \<le> SHELL_HISTORY_SIZE \<and>
     distinct (map fst (history ctx)) \<and>
     (\<forall>e \<in> set (history ctx). snd e \<noteq> [] \<and> length (snd e) < SHELL_MAX_INPUT_LENGTH \<and> 0 \<notin> set (snd e))"

definition shell_idle :: "shell \<Rightarrow> bool" where
  "shell_idle ctx \<longleftrightarrow> length (input_buffer ctx) = SHELL_MAX_INPUT_LENGTH \<and>
     cursor_pos ctx \<le> input_length ctx \<and> input_length ctx < SHELL_MAX_INPUT_LENGTH \<and> history_ok ctx"

lemma shell_inv_idle: "shell_inv ctx \<Longrightarrow> shell_idle ctx"
  by (simp add: shell_idle_def shell_inv_def history_ok_def)

lemma idle_fields [simp]:
  "shell_idle (ctx\<lparr>running := x\<rparr>) = shell_idle ctx"
  "shell_idle (ctx\<lparr>last_exit_status := e\<rparr>) = shell_idle ctx"
  by (simp_all add: shell_idle_def history_ok_def)

lemma history_ok_buffer [simp]: "history_ok (ctx\<lparr>input_buffer := b\<rparr>) = history_ok ctx"
  by (simp add: history_ok_def)

lemma shell_init_inv: "shell_inv (fst shell_init)"
  by (simp add: shell_init_def shell_inv_def)

lemma reset_line_inv:
  assumes "shell_idle ctx"
  shows "\<exists>u. reset_line ctx = Some u \<and> shell_inv u \<and> zipper u = ([], []) \<and> history u = history ctx \<and>
    running u = running ctx"
  using assms by (auto simp: reset_line_def wr_def shell_idle_def shell_inv_def history_ok_def zipper_def)

definition fresh_alloc :: "(entry list \<Rightarrow> (u32 \<times> u8 list) option) \<Rightarrow> bool" where
  "fresh_alloc alloc \<longleftrightarrow> (\<forall>h a b. alloc h = Some (a, b) \<longrightarrow> a \<notin> fst ` set h \<and> length b = SHELL_MAX_INPUT_LENGTH)"

text \<open>Adding a line: nothing for an empty one or a repetition, else the newest entry.\<close>

lemma add_history:
  assumes "history_ok ctx" "fresh_alloc alloc" "length s < SHELL_MAX_INPUT_LENGTH" "0 \<notin> set s"
  shows "\<exists>u. shell_add_to_history alloc s ctx = Some u \<and> history_ok u \<and>
    u = ctx\<lparr>history := history u, history_count := history_count u\<rparr>"
proof (cases "s = [] \<or> history ctx \<noteq> [] \<and> snd (last (history ctx)) = s")
  case True
  with assms(1) show ?thesis by (auto simp: shell_add_to_history_def)
next
  case False
  define h where "h = (if history_count ctx \<ge> SHELL_HISTORY_SIZE then tl (history ctx) else history ctx)"
  let ?v = "ctx\<lparr>history := h, history_count := length h\<rparr>"
  have sub: "set h \<subseteq> set (history ctx)" by (cases "history ctx") (auto simp: h_def)
  have "length h < SHELL_HISTORY_SIZE" "distinct (map fst h)"
    using assms(1) by (auto simp: h_def history_ok_def map_tl distinct_tl)
  then have h: "length h < SHELL_HISTORY_SIZE" "history_ok ?v"
    using assms(1) sub unfolding history_ok_def by (simp, simp) blast
  have "(if history_count ctx \<ge> SHELL_HISTORY_SIZE
       then (case history ctx of [] \<Rightarrow> None
             | _ # rest \<Rightarrow> Some (ctx\<lparr>history := rest, history_count := history_count ctx - 1\<rparr>))
       else Some ctx) = Some ?v"
    using assms(1) by (auto simp: h_def history_ok_def split: list.splits)
  then have step: "shell_add_to_history alloc s ctx =
     (case alloc h of None \<Rightarrow> Some ?v
      | Some (a, b) \<Rightarrow>
          do { b \<leftarrow> copy_command b s; t \<leftarrow> string_at b 0;
               Some (?v\<lparr>history := h @ [(a, t)], history_count := length h + 1\<rparr>) })"
    using False by (cases "alloc h") (auto simp: shell_add_to_history_def)
  show ?thesis
  proof (cases "alloc h")
    case None
    with step h(2) show ?thesis by simp
  next
    case (Some ab)
    then obtain a b where ab: "alloc h = Some (a, b)" by (cases ab) auto
    then have a: "a \<notin> fst ` set h" "length b = 256" using assms(2) by (auto simp: fresh_alloc_def)
    have "shell_add_to_history alloc s ctx = Some (?v\<lparr>history := h @ [(a, s)], history_count := length h + 1\<rparr>)"
      using step ab copy_command_zeros [OF a(2) assms(3,4)] string_at_zeros [OF assms(4)] assms(3) by simp
    moreover have "history_ok (?v\<lparr>history := h @ [(a, s)], history_count := length h + 1\<rparr>)"
      using h a(1) False assms(3,4) by (auto simp: history_ok_def)
    ultimately show ?thesis by simp
  qed
qed

text \<open>
  The environment of the shell: commands that keep it well formed, and an allocator that gives
  fresh blocks.
\<close>

locale shell_env =
  fixes commands :: "'w command list" and alloc :: "entry list \<Rightarrow> (u32 \<times> u8 list) option"
  assumes command_idle: "(name, text, f) \<in> set commands \<Longrightarrow> shell_idle ctx \<Longrightarrow>
      f args ctx input w = Some (status, out, ctx', input', w') \<Longrightarrow> shell_idle ctx'"
    and alloc_fresh: "fresh_alloc alloc"
begin

lemma execute_idle:
  assumes "shell_execute commands args ctx input w = Some (status, out, ctx', input', w')" "shell_idle ctx"
  shows "shell_idle ctx'"
proof (cases args)
  case Nil
  with assms show ?thesis by (simp add: shell_execute_def)
next
  case (Cons name more)
  show ?thesis
  proof (cases "find (\<lambda>c. fst c = name) commands")
    case None
    with Cons assms show ?thesis by (simp add: shell_execute_def)
  next
    case (Some c)
    then have "c \<in> set commands" by (auto simp: find_Some_iff)
    with Some Cons assms show ?thesis
      by (cases c) (auto simp: shell_execute_def intro: command_idle)
  qed
qed

lemma run_args_idle:
  assumes "run_args commands argv ctx input w = Some (out, ctx', input', w')" "shell_idle ctx"
  shows "shell_idle ctx'"
  using assms by (auto simp: run_args_def split: if_splits bind_splits dest: execute_idle)

text \<open>
  A line that is not empty goes to the history, its words become the arguments, and the
  command runs.
\<close>

lemma finish_line_runs:
  assumes inv: "shell_inv ctx" and z: "zipper ctx = (l, r)" and ne: "l @ r \<noteq> []"
  shows "\<exists>u b argv. shell_add_to_history alloc (l @ r) (ctx\<lparr>input_buffer := (input_buffer ctx)[input_length ctx := 0]\<rparr>) = Some u \<and>
    shell_idle (u\<lparr>input_buffer := b\<rparr>) \<and> running u = running ctx \<and>
    arguments b argv = Some (take (SHELL_MAX_ARGS - 1) (words (l @ r))) \<and>
    finish_line commands alloc ctx input w = run_args commands argv (u\<lparr>input_buffer := b\<rparr>) input w"
proof -
  let ?b = "(input_buffer ctx)[input_length ctx := 0]" and ?n = "input_length ctx"
  let ?c = "ctx\<lparr>input_buffer := ?b\<rparr>"
  have wr: "wr (input_buffer ctx) ?n 0 = Some ?b" and b: "string_at ?b 0 = Some (l @ r)" "length ?b = 256"
    using string_at_line [OF inv z] by (auto simp: wr_Some)
  have len: "length (l @ r) = ?n" using zipper_lengths [OF inv z] by simp
  have lr: "l @ r = take ?n (input_buffer ctx)" using zipper_line [OF z] inv by (simp add: shell_inv_def)
  have nz: "0 \<notin> set (l @ r)" unfolding lr using inv by (simp add: shell_inv_def)
  have l256: "length (l @ r) < 256" using len inv by (simp add: shell_inv_def)
  have "\<forall>i < length (l @ r). (l @ r) ! i = input_buffer ctx ! i" unfolding lr by simp
  then have "cstr ?b 0 (l @ r)" using l256 len nz b(2) unfolding cstr_def by simp
  from split_args_words [OF this, of "SHELL_MAX_ARGS - 1"] obtain b2 argv where
    sp: "split_args (SHELL_MAX_ARGS - 1) 0 ?b = Some (b2, argv)" "length b2 = length ?b"
    "strings_at b2 (0 + length (l @ r) + 1) argv (take (SHELL_MAX_ARGS - 1) (words (l @ r)))"
    by blast
  have "history_ok ?c" using inv by (simp add: shell_inv_def history_ok_def)
  from add_history [OF this alloc_fresh l256 nz] obtain u where
    u: "shell_add_to_history alloc (l @ r) ?c = Some u" "history_ok u"
      "u = ?c\<lparr>history := history u, history_count := history_count u\<rparr>" by blast
  have "input_length u = ?n" "cursor_pos u = cursor_pos ctx" "running u = running ctx"
    by (subst u(3), simp)+
  then have idle: "shell_idle (u\<lparr>input_buffer := b2\<rparr>)" "running u = running ctx"
    using inv u(2) sp(2) b(2) by (simp_all add: shell_idle_def shell_inv_def)
  have pos: "?n > 0" using len ne by (cases "l @ r") auto
  have "finish_line commands alloc ctx input w = run_args commands argv (u\<lparr>input_buffer := b2\<rparr>) input w"
    using wr pos b(1) u(1) sp(1) by (simp add: finish_line_def Let_def)
  with u(1) idle strings_at_arguments [OF sp(3)] show ?thesis by blast
qed

lemma finish_line_idle:
  assumes "finish_line commands alloc ctx input w = Some (out, ctx', input', w')" "shell_inv ctx"
  shows "shell_idle ctx'"
proof -
  obtain l r where z: "zipper ctx = (l, r)" by fastforce
  show ?thesis
  proof (cases "l @ r = []")
    case True
    then have "input_length ctx = 0" using zipper_lengths [OF assms(2) z] by simp
    with assms shell_inv_idle [OF assms(2)] show ?thesis
      by (auto simp: finish_line_def wr_def shell_idle_def split: bind_splits if_splits)
  next
    case False
    from finish_line_runs [OF assms(2) z False, of input w] assms(1) run_args_idle show ?thesis by metis
  qed
qed

lemma round_idle:
  assumes "shell_round commands alloc cwd ctx input w = Some (out, ctx', input', w')" "shell_idle ctx"
  shows "shell_idle ctx'"
proof -
  obtain u where u: "reset_line ctx = Some u" "shell_inv u" using reset_line_inv [OF assms(2)] by blast
  obtain e v typed rest where l: "line_loop input u = Some (e, v, typed, rest)"
    using assms(1) u(1) by (auto simp: shell_round_def Let_def split: bind_splits)
  then have v: "shell_inv v" using line_loop_inv u(2) by blast
  show ?thesis
  proof (cases "e = Stop")
    case True
    then have "ctx' = v" using assms(1) u(1) l by (simp add: shell_round_def Let_def)
    with shell_inv_idle [OF v] show ?thesis by simp
  next
    case False
    then obtain o2 where "finish_line commands alloc v rest w = Some (o2, ctx', input', w')"
      using assms(1) u(1) l by (auto simp: shell_round_def Let_def split: bind_splits)
    with finish_line_idle v show ?thesis by blast
  qed
qed

lemma run_idle:
  assumes "shell_run commands alloc cwd ctx input w = Some (out, ctx', input', w')" "shell_idle ctx"
  shows "shell_idle ctx' \<and> \<not> running ctx'"
proof -
  let ?P = "\<lambda>cmds al cwd ctx input w y. cmds = commands \<longrightarrow> al = alloc \<longrightarrow> shell_idle ctx \<longrightarrow>
    shell_idle (fst (snd y)) \<and> \<not> running (fst (snd y))"
  have "?P commands alloc cwd ctx input w (out, ctx', input', w')"
  proof (rule shell_run.raw_induct [where P = ?P, OF _ assms(1)])
    fix run cmds al cwd ctx input w y
    assume IH: "\<And>cmds al cwd ctx input w y. run cmds al cwd ctx input w = Some y \<Longrightarrow> ?P cmds al cwd ctx input w y"
      and eq: "(if running ctx
        then do { (out, ctx, input, w) \<leftarrow> shell_round cmds al cwd ctx input w;
                  (out', ctx, input, w) \<leftarrow> run cmds al cwd ctx input w;
                  Some (out @ out', ctx, input, w) }
        else Some ([], ctx, input, w)) = Some y"
    show "?P cmds al cwd ctx input w y"
    proof (intro impI)
      assume c: "cmds = commands" "al = alloc" "shell_idle ctx"
      show "shell_idle (fst (snd y)) \<and> \<not> running (fst (snd y))"
      proof (cases "running ctx")
        case False
        with eq c(3) show ?thesis by auto
      next
        case True
        then obtain o1 u i v o2 u' i' v' where
          s: "shell_round commands alloc cwd ctx input w = Some (o1, u, i, v)"
            "run cmds al cwd u i v = Some (o2, u', i', v')" "y = (o1 @ o2, u', i', v')"
          using eq c(1,2) by (auto split: bind_splits)
        have "shell_idle u" by (rule round_idle [OF s(1) c(3)])
        with IH [OF s(2)] c(1,2) s(3) show ?thesis by simp
      qed
    qed
  qed
  with assms(2) show ?thesis by simp
qed

end

text \<open>The commands of the shell itself, and an allocator of as many blocks as a history needs.\<close>

definition builtins :: "(u8 list \<times> u8 list) list \<Rightarrow> 'w command list" where
  "builtins table =
     [(bytes ''exit'', bytes ''Exit the shell'', exit_main),
      (bytes ''help'', bytes ''Show this help message'', help_main table),
      (bytes ''history'', bytes ''Show command history'', history_main)]"

definition slot_alloc :: "entry list \<Rightarrow> (u32 \<times> u8 list) option" where
  "slot_alloc h = map_option (\<lambda>a. (a, replicate SHELL_MAX_INPUT_LENGTH 0))
     (find_first (\<lambda>a. a \<notin> fst ` set h) (map of_nat [1..<20]))"

lemma slot_alloc_fresh: "fresh_alloc slot_alloc"
  by (auto simp: fresh_alloc_def slot_alloc_def dest: find_first_Some)

lemma builtins_idle:
  assumes "(name, text, f) \<in> set (builtins table)" "shell_idle ctx"
    "f args ctx input w = Some (status, out, ctx', input', w')"
  shows "shell_idle ctx'"
  using assms by (auto simp: builtins_def exit_main_def help_main_def history_main_def Let_def)

interpretation builtin_shell: shell_env "builtins table" slot_alloc for table
  by unfold_locales (auto intro: builtins_idle slot_alloc_fresh)

section \<open>Numbers\<close>

text \<open>\<open>int_to_str\<close> prints what \<open>itoa\<close> does.\<close>

lemma int_digits_itoa:
  "0 < v \<Longrightarrow> v < 10 ^ room \<Longrightarrow> v < 2 ^ fuel \<Longrightarrow> itoa_loop fuel v 10 = Some (int_digits room v) \<and>
   length (int_digits room v) \<le> room \<and> int_digits room v \<noteq> []"
proof (induction room arbitrary: v fuel)
  case 0
  then show ?case by simp
next
  case (Suc room)
  then obtain f where f: "fuel = Suc f" by (cases fuel) auto
  have q: "v sdiv 10 = v div 10" "v smod 10 = v mod 10" using Suc.prems(1) smod_sdiv_nonneg [of v 10] by simp_all
  have d: "to_digit (v mod 10) = 48 + word_of_int (v mod 10)"
    using Suc.prems(1) by (simp add: to_digit_def)
  show ?case
  proof (cases "v div 10 > 0")
    case True
    have "v div 10 < 10 ^ room" using Suc.prems(2) by simp
    moreover have "10 * (v div 10) \<le> v" by simp
    then have "v div 10 < 2 ^ f" using Suc.prems(3) f True by simp
    ultimately show ?thesis using Suc.IH [OF True, of f] Suc.prems(1) q d True f by simp
  next
    case False
    then have "v div 10 = 0" using Suc.prems(1) by (simp add: pos_imp_zdiv_nonneg_iff order.antisym)
    then show ?thesis using Suc.prems(1) q d f by (cases f) simp_all
  qed
qed

lemma int_to_str_itoa:
  assumes "int32_range v" "v \<noteq> - (2 ^ 31)"
  shows "itoa v 10 = Some (int_to_str v 12)"
proof -
  have pos: "itoa v 10 = Some (int_to_str v 12) \<and> (v \<noteq> 0 \<longrightarrow> int_digits 11 v \<noteq> [])" if "0 \<le> v" "v < 2 ^ 31" for v
  proof (cases "v = 0")
    case True
    show ?thesis unfolding True by code_simp
  next
    case False
    have "itoa_loop 33 v 10 = Some (int_digits 11 v)" "int_digits 11 v \<noteq> []"
      using False that int_digits_itoa [of v 11 33] by simp_all
    with False that show ?thesis by (simp add: itoa_def to_string_def int_to_str_def Let_def)
  qed
  show ?thesis
  proof (cases "v < 0")
    case False
    with pos [of v] assms(1) show ?thesis by (simp add: int32_range_def)
  next
    case True
    have w: "wrap32 (- v) = - v" using assms True by (intro wrap32_id) (auto simp: int32_range_def)
    have b: "0 < - v" "- v < 2 ^ 31" using assms True by (auto simp: int32_range_def)
    have "itoa_loop 33 (- v) 10 = Some (int_digits 11 (- v))" "int_digits 11 (- v) \<noteq> []"
      using b int_digits_itoa [of "- v" 11 33] by simp_all
    moreover have "length (int_digits 11 (- v)) < 11"
      using b int_digits_itoa [of "- v" 10 33] int_digits_itoa [of "- v" 11 33] by simp
    ultimately show ?thesis
      using True w by (simp add: itoa_def to_string_def int_to_str_def Let_def)
  qed
qed

lemma int_to_str_least: "int_to_str (- (2 ^ 31)) 12 = bytes ''-(''"
  by code_simp

section \<open>Properties\<close>

text \<open>C21.  The line editor refines a line with a cursor: after any sequence of typed characters,
  backspaces and cursor keys and a newline, the two halves of the line are those of the
  specification, and the string in the buffer is the whole line.\<close>

theorem shell_edits_refine:
  assumes "shell_idle ctx" "\<forall>x \<in> set xs. good_edit x"
  shows "\<exists>u ctx' out l r b. reset_line ctx = Some u \<and>
    line_loop (concat (map edit_keys xs) @ 10 # rest) u = Some (LineEnd, ctx', out, rest) \<and>
    fold edit_line xs ([], []) = (l, r) \<and> zipper ctx' = (l, r) \<and>
    wr (input_buffer ctx') (input_length ctx') 0 = Some b \<and> string_at b 0 = Some (l @ r)"
proof -
  obtain u where u: "reset_line ctx = Some u" "shell_inv u" "zipper u = ([], [])"
    using reset_line_inv [OF assms(1)] by blast
  have "list_all good_edit xs" using assms(2) by (simp add: list_all_iff)
  from line_loop_edits [OF u(2) this, of rest] obtain ctx' out where
    l: "line_loop (concat (map edit_keys xs) @ 10 # rest) u = Some (LineEnd, ctx', out, rest)" "shell_inv ctx'"
      "zipper ctx' = fold edit_line xs ([], [])" using u(3) by auto
  obtain a b where z: "zipper ctx' = (a, b)" by fastforce
  obtain c where c: "wr (input_buffer ctx') (input_length ctx') 0 = Some c" "string_at c 0 = Some (a @ b)"
    using string_at_line [OF l(2) z] by blast
  have "fold edit_line xs ([], []) = (a, b)" using l(3) z by simp
  with u(1) l(1) z c show ?thesis by blast
qed

lemma shell_edits_refine_witness:
  "\<exists>u ctx' out l r b. reset_line (fst shell_init) = Some u \<and>
    line_loop (concat (map edit_keys [Type 97, Type 98, GoLeft, Type 99, Backspace]) @ 10 # []) u =
      Some (LineEnd, ctx', out, []) \<and>
    fold edit_line [Type 97, Type 98, GoLeft, Type 99, Backspace] ([], []) = (l, r) \<and> zipper ctx' = (l, r) \<and>
    wr (input_buffer ctx') (input_length ctx') 0 = Some b \<and> string_at b 0 = Some (l @ r)"
  by (rule shell_edits_refine) (auto intro: shell_inv_idle shell_init_inv)

text \<open>The two ways the shell splits a line, its own loop and \<open>strtok\<close>, give the same
  arguments: the first 31 words of the line.\<close>

theorem shell_splits_agree:
  assumes "length b = SHELL_MAX_INPUT_LENGTH" "cstr b 0 s"
  shows "\<exists>b1 a1 b2 a2. split_args (SHELL_MAX_ARGS - 1) 0 b = Some (b1, a1) \<and>
    strtok_args (SHELL_MAX_ARGS - 1) (Some 0) (None, b @ [32, 9, 0]) = Some (b2, a2) \<and>
    arguments b1 a1 = Some (take (SHELL_MAX_ARGS - 1) (words s)) \<and>
    arguments (take SHELL_MAX_INPUT_LENGTH b2) a2 = Some (take (SHELL_MAX_ARGS - 1) (words s))"
proof -
  let ?m = "b @ [32, 9, 0]"
  have len: "length s < 256" using assms by (simp add: cstr_def)
  have m: "cstr ?m 0 s" using assms by (auto simp: cstr_def nth_append)
  have d: "delimiters ?m" using assms(1) by (simp add: delimiters_def cstr_def nth_append nth_Cons' less_Suc_eq_0_disj)
  have "0 + length s < 256" using len by simp
  from strtok_args_words [OF m d this, of "SHELL_MAX_ARGS - 1" None] obtain b2 a2 where
    2: "strtok_args (SHELL_MAX_ARGS - 1) (Some 0) (None, ?m) = Some (b2, a2)" "length b2 = length ?m"
      "strings_at b2 (0 + length s + 1) a2 (take (SHELL_MAX_ARGS - 1) (words s))" by blast
  have "strings_at b2 256 a2 (take (SHELL_MAX_ARGS - 1) (words s))"
    using 2(3) unfolding strings_at_def by (rule list_all2_mono) (use len in linarith)
  then have "strings_at (take 256 b2) 256 a2 (take (SHELL_MAX_ARGS - 1) (words s))"
    using 2(2) assms(1) by (intro strings_at_shorter) simp_all
  moreover obtain b1 a1 where "split_args (SHELL_MAX_ARGS - 1) 0 b = Some (b1, a1)"
    "strings_at b1 (0 + length s + 1) a1 (take (SHELL_MAX_ARGS - 1) (words s))"
    using split_args_words [OF assms(2), of "SHELL_MAX_ARGS - 1"] by blast
  ultimately show ?thesis using 2(1) strings_at_arguments by blast
qed

lemma shell_splits_agree_witness:
  "\<exists>b1 a1 b2 a2. split_args (SHELL_MAX_ARGS - 1) 0 (bytes ''ls  -l '' @ replicate 249 0) = Some (b1, a1) \<and>
    strtok_args (SHELL_MAX_ARGS - 1) (Some 0) (None, (bytes ''ls  -l '' @ replicate 249 0) @ [32, 9, 0]) = Some (b2, a2) \<and>
    arguments b1 a1 = Some (take (SHELL_MAX_ARGS - 1) (words (bytes ''ls  -l ''))) \<and>
    arguments (take SHELL_MAX_INPUT_LENGTH b2) a2 = Some (take (SHELL_MAX_ARGS - 1) (words (bytes ''ls  -l '')))"
proof (rule shell_splits_agree)
  have "cstr (s @ 0 # z) 0 s" if "0 \<notin> set s" for s z using that by (simp add: cstr_def nth_append)
  moreover have "replicate 249 (0 :: u8) = 0 # replicate 248 0" using replicate_Suc [of 248 "0 :: u8"] by simp
  moreover have "0 \<notin> set (bytes ''ls  -l '')" by (simp add: bytes_def ch_def)
  ultimately show "cstr (bytes ''ls  -l '' @ replicate 249 0) 0 (bytes ''ls  -l '')" by metis
qed (simp add: bytes_def)

text \<open>C20.  Whatever is typed, the editor never reads or writes outside its buffer, never loses its
  place in the history, and ends the line at the latest with the last of three newlines; the
  shell it leaves is well formed: the cursor is inside the line, the line is shorter than the
  buffer and the history has at most 16 entries.\<close>

theorem shell_keys_safe:
  assumes "shell_idle ctx"
  shows "\<exists>u e ctx' out rest. reset_line ctx = Some u \<and>
    line_loop (input @ [10, 10, 10]) u = Some (e, ctx', out, rest) \<and> shell_inv ctx' \<and> e \<noteq> More"
  using reset_line_inv [OF assms] line_loop_ends by blast

lemma shell_keys_safe_witness:
  "\<exists>u e ctx' out rest. reset_line (fst shell_init) = Some u \<and>
    line_loop ([8, 27, 91, 65, 97, 27] @ [10, 10, 10]) u = Some (e, ctx', out, rest) \<and> shell_inv ctx' \<and> e \<noteq> More"
  by (rule shell_keys_safe) (intro shell_inv_idle shell_init_inv)

text \<open>The left arrow key moves the cursor of the editor and leaves the line as it is, but the
  backspace it sends to the screen blanks the character it moves onto.\<close>

theorem shell_left_erases:
  assumes "cursor_pos ctx > 0" "vga_inv v" "vga_target v \<noteq> NoBuffer" "vga_column v > 0"
  shows "\<exists>ctx' out w. shell_key 27 (91 # 68 # rest) ctx = Some (More, ctx', out, rest) \<and>
    input_buffer ctx' = input_buffer ctx \<and> input_length ctx' = input_length ctx \<and>
    cursor_pos ctx' = cursor_pos ctx - 1 \<and> run_ops vga_step out v = Some w \<and>
    cells w ! (vga_row v * VGA_WIDTH + vga_column v - 1) = blank v"
proof -
  obtain w where "vga_putchar 8 v = Some w" "cells w ! (vga_row v * VGA_WIDTH + vga_column v - 1) = blank v"
    using vga_backspace_erases [OF assms(2-4)] by blast
  with assms(1) show ?thesis by (simp add: shell_key_def escape_def move_left_def ch_def)
qed

definition typed_a :: shell where
  "typed_a = (fst shell_init)\<lparr>input_buffer := 97 # replicate 255 0, input_length := 1, cursor_pos := 1\<rparr>"

lemma shell_left_erases_witness:
  "\<exists>ctx' out w. shell_key 27 (91 # 68 # []) typed_a = Some (More, ctx', out, []) \<and>
    input_buffer ctx' = input_buffer typed_a \<and> input_length ctx' = input_length typed_a \<and>
    cursor_pos ctx' = cursor_pos typed_a - 1 \<and> run_ops vga_step out (vga1\<lparr>vga_column := 1\<rparr>) = Some w \<and>
    cells w ! (vga_row (vga1\<lparr>vga_column := 1\<rparr>) * VGA_WIDTH + vga_column (vga1\<lparr>vga_column := 1\<rparr>) - 1) =
      blank (vga1\<lparr>vga_column := 1\<rparr>)"
  by (rule shell_left_erases) (simp_all add: typed_a_def vga1_def vga0_def vga_inv_def)

text \<open>Whenever the main loop ends, with the commands of the shell itself, the shell is well formed.\<close>

lemma shell_run_builtins:
  assumes "shell_run (builtins table) slot_alloc cwd (fst shell_init) input w = Some (out, ctx, rest, w')"
  shows "shell_idle ctx \<and> \<not> running ctx"
  by (rule builtin_shell.run_idle [OF assms shell_inv_idle [OF shell_init_inv]])

text \<open>A line with a command that is not in the table: the message, and 127 as its status.\<close>

lemma shell_not_found:
  assumes "find (\<lambda>c. fst c = name) commands = None"
  shows "shell_execute commands (name # args) ctx input w = Some (127, shell_print_not_found name, ctx, input, w)"
  using assms by (simp add: shell_execute_def)

text \<open>What the shell sends never leaves the screen.\<close>

lemma shell_output_safe:
  assumes "vga_inv v" "\<forall>x \<in> set out. \<exists>c s a b. x = VPutchar c \<or> x = VPuts s \<or> x = VColor a b \<or> x = VClear"
  shows "\<exists>w. run_ops vga_step out v = Some w \<and> vga_inv w"
  using assms(2) by (intro screen.run_safe [OF assms(1)]) fastforce

end
