(* ===== verification/Paging.thy ===== *)
theory Paging
  imports Prelude Bits Pmm
begin

text \<open>
  Page directories and page tables, \<open>usr/drivers/paging.c\<close>.  \<open>frames\<close> gives the 1024 entries of
  a page frame by its address; a frame that the kernel does not use, and the null page, have
  none, and following such a pointer has no result.  The page that \<open>pmm_alloc_page\<close> would give is
  an argument, 0 for \<open>NULL\<close>.  \<open>cr3\<close> and \<open>paging_on\<close> are the control registers.
\<close>

section \<open>State\<close>

abbreviation PAGE_PRESENT :: u32 where "PAGE_PRESENT \<equiv> 0x001"
abbreviation PAGE_WRITABLE :: u32 where "PAGE_WRITABLE \<equiv> 0x002"
abbreviation PAGE_ENTRIES :: nat where "PAGE_ENTRIES \<equiv> 1024"

record paging =
  frames :: "u32 \<Rightarrow> u32 list option"
  kernel_page_directory :: u32
  current_page_directory :: u32
  cr3 :: u32
  paging_on :: bool

definition pd_index :: "u32 \<Rightarrow> nat" where "pd_index addr = unat (drop_bit 22 addr AND 0x3FF)"
definition pt_index :: "u32 \<Rightarrow> nat" where "pt_index addr = unat (drop_bit 12 addr AND 0x3FF)"

definition load :: "u32 \<Rightarrow> nat \<Rightarrow> paging \<Rightarrow> u32 option" where
  "load p i st = do { t \<leftarrow> frames st p; rd t i }"

definition store :: "u32 \<Rightarrow> nat \<Rightarrow> u32 \<Rightarrow> paging \<Rightarrow> paging option" where
  "store p i e st = do { t \<leftarrow> frames st p; t \<leftarrow> wr t i e; Some (st\<lparr>frames := (frames st)(p := Some t)\<rparr>) }"

definition clear_frame :: "u32 \<Rightarrow> paging \<Rightarrow> paging" where
  "clear_frame p st = st\<lparr>frames := (frames st)(p := Some (replicate PAGE_ENTRIES 0))\<rparr>"

section \<open>Operations\<close>

definition frame_of :: "u32 \<Rightarrow> u32" where "frame_of e = e AND NOT 0xFFF"

text \<open>The result is the new state and the table, 0 for none.\<close>

definition get_or_create_page_table :: "u32 \<Rightarrow> u32 \<Rightarrow> bool \<Rightarrow> u32 \<Rightarrow> paging \<Rightarrow> (paging \<times> u32) option" where
  "get_or_create_page_table pd virt_addr create new_table st =
     (let pdi = pd_index virt_addr in
      do { entry \<leftarrow> load pd pdi st;
           if entry AND PAGE_PRESENT \<noteq> 0 then Some (st, frame_of entry)
           else if \<not> create then Some (st, 0)
           else if new_table = 0 then Some (st, 0)
           else do { st \<leftarrow> store pd pdi (new_table OR PAGE_PRESENT OR PAGE_WRITABLE) (clear_frame new_table st);
                     Some (st, new_table) } })"

definition paging_enable :: "paging \<Rightarrow> paging" where
  "paging_enable st = st\<lparr>cr3 := current_page_directory st, paging_on := True\<rparr>"

definition paging_init :: "u32 \<Rightarrow> paging \<Rightarrow> paging" where
  "paging_init page st =
     (let st = st\<lparr>kernel_page_directory := page\<rparr> in
      if page = 0 then st
      else paging_enable ((clear_frame page st)\<lparr>current_page_directory := page\<rparr>))"

definition paging_map_page :: "u32 \<Rightarrow> u32 \<Rightarrow> u32 \<Rightarrow> u32 \<Rightarrow> paging \<Rightarrow> (paging \<times> bool) option" where
  "paging_map_page virt_addr phys_addr flags page st =
     (if \<not> pmm_is_page_aligned virt_addr \<or> \<not> pmm_is_page_aligned phys_addr then Some (st, False)
      else
        do { (st, pt) \<leftarrow> get_or_create_page_table (current_page_directory st) virt_addr True page st;
             if pt = 0 then Some (st, False)
             else do { st \<leftarrow> store pt (pt_index virt_addr) (phys_addr OR (flags AND 0xFFF) OR PAGE_PRESENT) st;
                       Some (st, True) } })"

definition paging_unmap_page :: "u32 \<Rightarrow> paging \<Rightarrow> (paging \<times> bool) option" where
  "paging_unmap_page virt_addr st =
     (if \<not> pmm_is_page_aligned virt_addr then Some (st, False)
      else
        do { (st, pt) \<leftarrow> get_or_create_page_table (current_page_directory st) virt_addr False 0 st;
             if pt = 0 then Some (st, False)
             else do { entry \<leftarrow> load pt (pt_index virt_addr) st;
                       if entry AND PAGE_PRESENT = 0 then Some (st, False)
                       else do { st \<leftarrow> store pt (pt_index virt_addr) 0 st; Some (st, True) } } })"

definition paging_get_physical :: "u32 \<Rightarrow> paging \<Rightarrow> u32 option" where
  "paging_get_physical virt_addr st =
     do { (st, pt) \<leftarrow> get_or_create_page_table (current_page_directory st) virt_addr False 0 st;
          if pt = 0 then Some 0
          else do { entry \<leftarrow> load pt (pt_index virt_addr) st;
                    Some (if entry AND PAGE_PRESENT = 0 then 0 else frame_of entry) } }"

section \<open>Addresses\<close>

lemma index_less: "pd_index a < PAGE_ENTRIES" "pt_index a < PAGE_ENTRIES"
proof -
  have "unat (drop_bit k a AND mask 10) < 2 ^ 10" for k unfolding unat_and_mask by simp
  then show "pd_index a < PAGE_ENTRIES" "pt_index a < PAGE_ENTRIES"
    by (simp_all add: pd_index_def pt_index_def mask_eq_exp_minus_1)
qed

lemma mask_numerals: "(0x3FF :: u32) = mask 10" "(0xFFF :: u32) = mask 12"
  by (simp_all add: mask_eq_exp_minus_1)

lemma index_bits:
  "a = push_bit 22 (drop_bit 22 a AND mask 10) OR push_bit 12 (drop_bit 12 a AND mask 10) OR (a AND mask 12)"
  for a :: u32
proof (rule bit_word_eqI)
  fix n assume "n < LENGTH(32)"
  then show "bit a n = bit (push_bit 22 (drop_bit 22 a AND mask 10) OR push_bit 12 (drop_bit 12 a AND mask 10) OR (a AND mask 12)) n"
    by (cases "n < 12"; cases "n < 22") (auto simp: bit_simps)
qed

text \<open>An aligned address is its two indices.\<close>

lemma index_inject:
  assumes "pmm_is_page_aligned a" "pmm_is_page_aligned b" "pd_index a = pd_index b" "pt_index a = pt_index b"
  shows "a = b"
proof -
  have "drop_bit 22 a AND mask 10 = drop_bit 22 b AND mask 10"
    using assms(3) unfolding pd_index_def mask_numerals by (rule unsigned_word_eqI)
  moreover have "drop_bit 12 a AND mask 10 = drop_bit 12 b AND mask 10"
    using assms(4) unfolding pt_index_def mask_numerals by (rule unsigned_word_eqI)
  moreover have "a AND mask 12 = 0" "b AND mask 12 = 0"
    using assms(1,2) by (simp_all add: pmm_is_page_aligned_def mask_eq_exp_minus_1)
  ultimately show ?thesis using index_bits [of a] index_bits [of b] by metis
qed

lemma frame_of_flags:
  assumes "pmm_is_page_aligned p" "f AND 0xFFF = f"
  shows "frame_of (p OR f) = p"
proof -
  have m: "(0xFFF :: u32) = mask 12" by (simp add: mask_eq_exp_minus_1)
  have p: "\<not> bit p n" if "n < 12" for n
  proof -
    have "p AND mask 12 = 0" using assms(1) by (simp add: pmm_is_page_aligned_def mask_eq_exp_minus_1)
    then have "\<not> bit (p AND mask 12) n" by simp
    then show ?thesis using that by (simp add: bit_simps)
  qed
  have f: "bit f n \<Longrightarrow> n < 12" for n using assms(2) unfolding m by (metis bit_and_iff bit_mask_iff)
  show ?thesis
    unfolding frame_of_def m by (rule bit_word_eqI) (auto simp: bit_simps dest: f p)
qed

lemma frame_of_aligned: "pmm_is_page_aligned (frame_of e)"
proof -
  have m: "(0xFFF :: u32) = mask 12" by (simp add: mask_eq_exp_minus_1)
  have "frame_of e AND mask 12 = 0" unfolding frame_of_def m by (rule bit_word_eqI) (auto simp: bit_simps)
  then show ?thesis by (simp add: pmm_is_page_aligned_def mask_eq_exp_minus_1)
qed

lemma present_or [simp]: "(e OR PAGE_PRESENT) AND PAGE_PRESENT \<noteq> 0"
proof
  assume z: "(e OR PAGE_PRESENT) AND PAGE_PRESENT = 0"
  have "bit ((e OR PAGE_PRESENT) AND PAGE_PRESENT) 0" by (simp add: bit_simps)
  then show False unfolding z by simp
qed

section \<open>The map that the tables represent\<close>

text \<open>The present entry of an address.\<close>

definition entry_of :: "paging \<Rightarrow> u32 \<Rightarrow> u32 option" where
  "entry_of st a =
     (case load (current_page_directory st) (pd_index a) st of
        None \<Rightarrow> None
      | Some d \<Rightarrow>
          if d AND PAGE_PRESENT = 0 then None
          else case load (frame_of d) (pt_index a) st of
            None \<Rightarrow> None
          | Some e \<Rightarrow> if e AND PAGE_PRESENT = 0 then None else Some e)"

text \<open>
  The directory and the tables it points to are different frames of 1024 entries each, and no
  frame is at address 0.
\<close>

definition table_at :: "paging \<Rightarrow> nat \<Rightarrow> u32 option" where
  "table_at st i =
     (case load (current_page_directory st) i st of
        None \<Rightarrow> None
      | Some d \<Rightarrow> if d AND PAGE_PRESENT = 0 then None else Some (frame_of d))"

definition paging_inv :: "paging \<Rightarrow> bool" where
  "paging_inv st \<longleftrightarrow>
     (\<exists>d. frames st (current_page_directory st) = Some d \<and> length d = PAGE_ENTRIES) \<and>
     current_page_directory st \<noteq> 0 \<and>
     (\<forall>i p. table_at st i = Some p \<longrightarrow> p \<noteq> 0 \<and> p \<noteq> current_page_directory st \<and>
        (\<exists>t. frames st p = Some t \<and> length t = PAGE_ENTRIES)) \<and>
     (\<forall>i j p. table_at st i = Some p \<longrightarrow> table_at st j = Some p \<longrightarrow> i = j)"

definition fresh_page :: "paging \<Rightarrow> u32 \<Rightarrow> bool" where
  "fresh_page st page \<longleftrightarrow> page \<noteq> 0 \<and> pmm_is_page_aligned page \<and> page \<noteq> current_page_directory st \<and>
     (\<forall>i. table_at st i \<noteq> Some page)"

lemma load_Some: "load p i st = Some e \<longleftrightarrow> (\<exists>t. frames st p = Some t \<and> i < length t \<and> e = t ! i)"
  by (auto simp: load_def rd_Some split: bind_splits)

lemma load_directory: "paging_inv st \<Longrightarrow> \<exists>d. load (current_page_directory st) (pd_index a) st = Some d"
  using index_less(1) [of a] by (auto simp: paging_inv_def load_Some)

lemma entry_of_table:
  "entry_of st a = (case table_at st (pd_index a) of
     None \<Rightarrow> None
   | Some p \<Rightarrow> (case load p (pt_index a) st of
        None \<Rightarrow> None | Some e \<Rightarrow> if e AND PAGE_PRESENT = 0 then None else Some e))"
  by (simp add: entry_of_def table_at_def split: option.splits)

text \<open>A store into the table of a directory entry.\<close>

lemma store_table:
  assumes inv: "paging_inv st" and tab: "table_at st i = Some p" and j: "j < PAGE_ENTRIES"
  shows "\<exists>st'. store p j e st = Some st' \<and> paging_inv st' \<and> table_at st' = table_at st \<and>
    current_page_directory st' = current_page_directory st \<and>
    (\<forall>q k. load q k st' = (if q = p \<and> k = j then Some e else load q k st))"
proof -
  obtain t where t: "frames st p = Some t" "length t = PAGE_ENTRIES" "p \<noteq> current_page_directory st"
    using inv tab unfolding paging_inv_def by blast
  let ?st = "st\<lparr>frames := (frames st)(p := Some (t[j := e]))\<rparr>"
  have s: "store p j e st = Some ?st" using t j by (simp add: store_def wr_def)
  have l: "load q k ?st = (if q = p \<and> k = j then Some e else load q k st)" for q k
    using t j by (auto simp: load_def rd_def nth_list_update)
  have tab': "table_at ?st = table_at st" using t(3) by (simp add: table_at_def l fun_eq_iff)
  have "paging_inv ?st" using inv t unfolding paging_inv_def tab' by (auto simp: fun_upd_apply)
  with s l tab' show ?thesis by (intro exI [of _ ?st]) simp
qed

text \<open>The table of an address, if there is one or it is made from a fresh page.\<close>

lemma get_table:
  assumes "paging_inv st" "table_at st (pd_index a) = Some p"
  shows "get_or_create_page_table (current_page_directory st) a create page st = Some (st, p)"
  using assms(2) by (auto simp: get_or_create_page_table_def table_at_def split: option.splits if_splits)

lemma get_no_table:
  assumes "paging_inv st" "table_at st (pd_index a) = None"
  shows "get_or_create_page_table (current_page_directory st) a False page st = Some (st, 0)"
  using assms load_directory [OF assms(1), of a]
  by (auto simp: get_or_create_page_table_def table_at_def split: if_splits)

lemma create_table:
  assumes inv: "paging_inv st" and none: "table_at st (pd_index a) = None" and fresh: "fresh_page st page"
  shows "\<exists>st'. get_or_create_page_table (current_page_directory st) a True page st = Some (st', page) \<and>
    paging_inv st' \<and> table_at st' = (table_at st)(pd_index a := Some page) \<and>
    current_page_directory st' = current_page_directory st \<and>
    (\<forall>k < PAGE_ENTRIES. load page k st' = Some 0) \<and>
    (\<forall>q k. q \<noteq> page \<longrightarrow> q \<noteq> current_page_directory st \<longrightarrow> load q k st' = load q k st)"
proof -
  let ?pd = "current_page_directory st" and ?i = "pd_index a"
  obtain d where d: "frames st ?pd = Some d" "length d = PAGE_ENTRIES" using inv by (auto simp: paging_inv_def)
  have page: "page \<noteq> 0" "pmm_is_page_aligned page" "page \<noteq> ?pd" "\<And>i. table_at st i \<noteq> Some page"
    using fresh by (auto simp: fresh_page_def)
  define e where "e = page OR PAGE_PRESENT OR PAGE_WRITABLE"
  have e: "e AND PAGE_PRESENT \<noteq> 0" "frame_of e = page"
    using present_or [of "page OR PAGE_WRITABLE"] frame_of_flags [OF page(2), of "PAGE_PRESENT OR PAGE_WRITABLE"]
    by (simp_all add: e_def or.assoc or.commute [of PAGE_PRESENT])
  let ?st = "st\<lparr>frames := (frames st)(page := Some (replicate PAGE_ENTRIES 0), ?pd := Some (d[?i := e]))\<rparr>"
  have ld: "load ?pd ?i st = Some (d ! ?i)" using d index_less(1) [of a] by (simp add: load_def rd_def)
  then have np: "d ! ?i AND PAGE_PRESENT = 0" using none by (auto simp: table_at_def split: if_splits)
  have st: "get_or_create_page_table ?pd a True page st = Some (?st, page)"
    using ld np page d index_less(1) [of a]
    by (simp add: get_or_create_page_table_def Let_def store_def clear_frame_def wr_def e_def)
  have l: "load q k ?st = load q k st" if "q \<noteq> page" "q \<noteq> ?pd" for q k using that by (simp add: load_def)
  have lp: "load page k ?st = Some 0" if "k < PAGE_ENTRIES" for k using that page(3) by (simp add: load_def rd_def)
  have lpd: "load ?pd k ?st = (if k = ?i then Some e else load ?pd k st)" for k
    using d index_less(1) [of a] by (auto simp: load_def rd_def nth_list_update)
  have tab: "table_at ?st = (table_at st)(?i := Some page)"
    using e by (auto simp: table_at_def lpd fun_eq_iff)
  have old: "\<exists>t. frames ?st p = Some t \<and> length t = PAGE_ENTRIES" "p \<noteq> 0" "p \<noteq> ?pd" if "table_at st k = Some p" for k p
    using inv that page(4) [of k] by (auto simp: paging_inv_def)
  have "paging_inv ?st"
    unfolding paging_inv_def tab
    using inv d page old by (auto simp: paging_inv_def split: if_splits)
  with st tab l lp show ?thesis by (intro exI [of _ ?st]) simp
qed

section \<open>The specification: a partial map from pages to entries\<close>

type_synonym vmap = "u32 \<rightharpoonup> u32"

definition vmap_map :: "u32 \<Rightarrow> u32 \<Rightarrow> u32 \<Rightarrow> vmap \<Rightarrow> vmap \<times> bool" where
  "vmap_map v p f m =
     (if pmm_is_page_aligned v \<and> pmm_is_page_aligned p
      then (m(v \<mapsto> p OR (f AND 0xFFF) OR PAGE_PRESENT), True) else (m, False))"

definition vmap_unmap :: "u32 \<Rightarrow> vmap \<Rightarrow> vmap \<times> bool" where
  "vmap_unmap v m = (if pmm_is_page_aligned v then (m(v := None), m v \<noteq> None) else (m, False))"

definition represents :: "paging \<Rightarrow> vmap \<Rightarrow> bool" where
  "represents st m \<longleftrightarrow> paging_inv st \<and> (\<forall>a. pmm_is_page_aligned a \<longrightarrow> entry_of st a = m a)"

lemma represents_self: "paging_inv st \<Longrightarrow> represents st (entry_of st)"
  by (simp add: represents_def)

lemma table_pos: "paging_inv st \<Longrightarrow> table_at st i = Some p \<Longrightarrow> p \<noteq> 0"
  unfolding paging_inv_def by blast

lemma table_entry:
  assumes "paging_inv st" "table_at st (pd_index a) = Some p"
  shows "\<exists>e. load p (pt_index a) st = Some e \<and> entry_of st a = (if e AND PAGE_PRESENT = 0 then None else Some e)"
proof -
  obtain t where "frames st p = Some t" "length t = PAGE_ENTRIES" using assms unfolding paging_inv_def by blast
  then show ?thesis using index_less(2) [of a] assms(2) by (auto simp: entry_of_table load_def rd_def)
qed

text \<open>A store into a table changes the entry of one page.\<close>

lemma store_entry:
  assumes inv: "paging_inv st" and tab: "table_at st (pd_index v) = Some p" and v: "pmm_is_page_aligned v"
  shows "\<exists>st'. store p (pt_index v) e st = Some st' \<and> paging_inv st' \<and> table_at st' = table_at st \<and>
    current_page_directory st' = current_page_directory st \<and>
    (\<forall>a. pmm_is_page_aligned a \<longrightarrow>
      entry_of st' a = (if a = v then (if e AND PAGE_PRESENT = 0 then None else Some e) else entry_of st a))"
proof -
  obtain st' where s: "store p (pt_index v) e st = Some st'" "paging_inv st'" "table_at st' = table_at st"
    "current_page_directory st' = current_page_directory st"
    "\<And>q k. load q k st' = (if q = p \<and> k = pt_index v then Some e else load q k st)"
    using store_table [OF inv tab index_less(2) [of v], of e] by blast
  have "entry_of st' a = (if a = v then (if e AND PAGE_PRESENT = 0 then None else Some e) else entry_of st a)"
    if a: "pmm_is_page_aligned a" for a
  proof (cases "a = v")
    case True
    then show ?thesis using tab by (simp add: entry_of_table s(3,5))
  next
    case False
    show ?thesis
    proof (cases "table_at st (pd_index a)")
      case None
      then show ?thesis using False by (simp add: entry_of_table s(3))
    next
      case (Some q)
      have n: "\<not> (q = p \<and> pt_index a = pt_index v)"
      proof
        assume q: "q = p \<and> pt_index a = pt_index v"
        then have "pd_index a = pd_index v" using inv Some tab unfolding paging_inv_def by blast
        with q False index_inject [OF a v] show False by blast
      qed
      have "load q (pt_index a) st' = load q (pt_index a) st" unfolding s(5) if_not_P [OF n] ..
      with Some False show ?thesis by (simp add: entry_of_table s(3))
    qed
  qed
  with s show ?thesis by blast
qed

lemma map_represents:
  assumes r: "represents st m" and page: "table_at st (pd_index v) = None \<longrightarrow> fresh_page st page"
  shows "\<exists>st'. paging_map_page v p f page st = Some (st', snd (vmap_map v p f m)) \<and>
    represents st' (fst (vmap_map v p f m)) \<and>
    (\<forall>q. q \<noteq> page \<longrightarrow> fresh_page st q \<longrightarrow> fresh_page st' q)"
proof (cases "pmm_is_page_aligned v \<and> pmm_is_page_aligned p")
  case False
  with r show ?thesis by (auto simp: paging_map_page_def vmap_map_def)
next
  case True
  let ?e = "p OR (f AND 0xFFF) OR PAGE_PRESENT"
  have inv: "paging_inv st" using r by (simp add: represents_def)
  obtain st1 t where g: "get_or_create_page_table (current_page_directory st) v True page st = Some (st1, t)"
    "paging_inv st1" "table_at st1 (pd_index v) = Some t" "current_page_directory st1 = current_page_directory st"
    "\<And>a. entry_of st1 a = entry_of st a"
    "\<And>q. q \<noteq> page \<Longrightarrow> fresh_page st q \<Longrightarrow> fresh_page st1 q"
  proof (cases "table_at st (pd_index v)")
    case (Some t)
    then show thesis using that [of st t] get_table [OF inv Some] inv by simp
  next
    case None
    then have fr: "fresh_page st page" using page by simp
    obtain st1 where c: "get_or_create_page_table (current_page_directory st) v True page st = Some (st1, page)"
      "paging_inv st1" "table_at st1 = (table_at st)(pd_index v := Some page)"
      "current_page_directory st1 = current_page_directory st" "\<And>k. k < PAGE_ENTRIES \<Longrightarrow> load page k st1 = Some 0"
      "\<And>q k. q \<noteq> page \<Longrightarrow> q \<noteq> current_page_directory st \<Longrightarrow> load q k st1 = load q k st"
      using create_table [OF inv None fr] by blast
    have "entry_of st1 a = entry_of st a" for a
    proof (cases "pd_index a = pd_index v")
      case True
      then show ?thesis using None c(5) [OF index_less(2) [of a]] by (simp add: entry_of_table c(3))
    next
      case False
      show ?thesis
      proof (cases "table_at st (pd_index a)")
        case n: None
        with False show ?thesis by (simp add: entry_of_table c(3))
      next
        case (Some q)
        have "q \<noteq> page" using fr Some by (auto simp: fresh_page_def)
        moreover have "q \<noteq> current_page_directory st" using inv Some unfolding paging_inv_def by blast
        ultimately show ?thesis using False Some by (simp add: entry_of_table c(3,6))
      qed
    qed
    then show thesis using that [OF c(1,2)] c(3,4) by (auto simp: fresh_page_def)
  qed
  obtain st' where s: "store t (pt_index v) ?e st1 = Some st'" "paging_inv st'" "table_at st' = table_at st1"
    "current_page_directory st' = current_page_directory st1"
    "\<And>a. pmm_is_page_aligned a \<Longrightarrow> entry_of st' a =
      (if a = v then (if ?e AND PAGE_PRESENT = 0 then None else Some ?e) else entry_of st1 a)"
    using store_entry [OF g(2,3), of ?e] True by blast
  have e: "?e AND PAGE_PRESENT \<noteq> 0" using present_or [of "p OR (f AND 0xFFF)"] by (simp add: or.assoc)
  have "represents st' (fst (vmap_map v p f m))"
    using True r s(2,5) g(5) e by (auto simp: represents_def vmap_map_def)
  moreover have "paging_map_page v p f page st = Some (st', True)"
    using True g(1) s(1) table_pos [OF g(2,3)] by (simp add: paging_map_page_def)
  moreover have "fresh_page st' q" if "q \<noteq> page" "fresh_page st q" for q
    using g(6) [OF that] s(3,4) by (simp add: fresh_page_def)
  ultimately show ?thesis using True by (auto simp: vmap_map_def)
qed

lemma unmap_represents:
  assumes r: "represents st m"
  shows "\<exists>st'. paging_unmap_page v st = Some (st', snd (vmap_unmap v m)) \<and> represents st' (fst (vmap_unmap v m)) \<and>
    (\<forall>q. fresh_page st q \<longrightarrow> fresh_page st' q)"
proof (cases "pmm_is_page_aligned v")
  case False
  with r show ?thesis by (auto simp: paging_unmap_page_def vmap_unmap_def)
next
  case v: True
  have inv: "paging_inv st" and ent: "entry_of st v = m v" using r v by (simp_all add: represents_def)
  have same: "represents st (fst (vmap_unmap v m))" if "m v = None"
    using that r v by (auto simp: vmap_unmap_def represents_def)
  show ?thesis
  proof (cases "table_at st (pd_index v)")
    case None
    then have "m v = None" using ent by (simp add: entry_of_table)
    with same None v show ?thesis by (simp add: paging_unmap_page_def get_no_table [OF inv None] vmap_unmap_def)
  next
    case (Some t)
    note t = get_table [OF inv Some] table_pos [OF inv Some]
    obtain e where e: "load t (pt_index v) st = Some e" "m v = (if e AND PAGE_PRESENT = 0 then None else Some e)"
      using table_entry [OF inv Some] ent by auto
    show ?thesis
    proof (cases "e AND PAGE_PRESENT = 0")
      case True
      with same e t v show ?thesis by (simp add: paging_unmap_page_def vmap_unmap_def)
    next
      case False
      obtain st' where s: "store t (pt_index v) 0 st = Some st'" "paging_inv st'" "table_at st' = table_at st"
        "current_page_directory st' = current_page_directory st"
        "\<And>a. pmm_is_page_aligned a \<Longrightarrow> entry_of st' a = (if a = v then None else entry_of st a)"
        using store_entry [OF inv Some v, of 0] by auto
      have "represents st' (fst (vmap_unmap v m))"
        using r v s(2,5) by (auto simp: represents_def vmap_unmap_def)
      moreover have "paging_unmap_page v st = Some (st', True)" using v t e False s(1) by (simp add: paging_unmap_page_def)
      moreover have "snd (vmap_unmap v m)" using v e False by (simp add: vmap_unmap_def)
      ultimately show ?thesis using s(3,4) by (auto simp: fresh_page_def)
    qed
  qed
qed

lemma pd_index_frame: "pd_index (frame_of a) = pd_index a" "pt_index (frame_of a) = pt_index a"
proof -
  have "bit (drop_bit 22 (frame_of a)) n = bit (drop_bit 22 a) n" "bit (drop_bit 12 (frame_of a)) n = bit (drop_bit 12 a) n" for n
    unfolding frame_of_def mask_numerals by (auto simp: bit_simps dest: bit_imp_le_length)
  then have "drop_bit 22 (frame_of a) = drop_bit 22 a" "drop_bit 12 (frame_of a) = drop_bit 12 a"
    by (auto intro: bit_word_eqI)
  then show "pd_index (frame_of a) = pd_index a" "pt_index (frame_of a) = pt_index a"
    by (simp_all add: pd_index_def pt_index_def)
qed

lemma get_physical_represents:
  assumes "represents st m"
  shows "paging_get_physical a st = Some (case m (frame_of a) of None \<Rightarrow> 0 | Some e \<Rightarrow> frame_of e)"
proof -
  have inv: "paging_inv st" using assms by (simp add: represents_def)
  have "m (frame_of a) = entry_of st (frame_of a)" using assms frame_of_aligned by (simp add: represents_def)
  then have m: "m (frame_of a) = entry_of st a" unfolding entry_of_table pd_index_frame .
  show ?thesis
  proof (cases "table_at st (pd_index a)")
    case None
    then show ?thesis by (simp add: paging_get_physical_def get_no_table [OF inv None] m entry_of_table)
  next
    case (Some t)
    then show ?thesis
      using get_table [OF inv Some] table_pos [OF inv Some] table_entry [OF inv Some]
      by (auto simp: paging_get_physical_def m)
  qed
qed

section \<open>Sequences of operations\<close>

datatype paging_op = Map u32 u32 u32 | Unmap u32

text \<open>Every operation comes with the page that the allocator would give it.\<close>

fun paging_step :: "paging_op \<times> u32 \<Rightarrow> paging \<Rightarrow> paging option" where
  "paging_step (Map v p f, page) st = map_option fst (paging_map_page v p f page st)"
| "paging_step (Unmap v, page) st = map_option fst (paging_unmap_page v st)"

fun vmap_step :: "paging_op \<Rightarrow> vmap \<Rightarrow> vmap" where
  "vmap_step (Map v p f) m = fst (vmap_map v p f m)"
| "vmap_step (Unmap v) m = fst (vmap_unmap v m)"

lemma paging_run_represents:
  "represents st m \<Longrightarrow> distinct (map snd xs) \<Longrightarrow> \<forall>x \<in> set xs. fresh_page st (snd x) \<Longrightarrow>
   \<exists>st'. run_ops paging_step xs st = Some st' \<and> represents st' (fold vmap_step (map fst xs) m)"
proof (induction xs arbitrary: st m)
  case Nil
  then show ?case by simp
next
  case (Cons x xs)
  obtain y page where x: "x = (y, page)" by fastforce
  have "\<exists>u. paging_step x st = Some u \<and> represents u (vmap_step y m) \<and>
      (\<forall>q. q \<noteq> page \<longrightarrow> fresh_page st q \<longrightarrow> fresh_page u q)"
  proof (cases y)
    case (Map v p f)
    have "fresh_page st page" using Cons.prems(3) x by simp
    with map_represents [OF Cons.prems(1), of v page p f] Map x show ?thesis by auto
  next
    case (Unmap v)
    with unmap_represents [OF Cons.prems(1), of v] x show ?thesis by auto
  qed
  then obtain u where u: "paging_step x st = Some u" "represents u (vmap_step y m)"
    "\<And>q. q \<noteq> page \<Longrightarrow> fresh_page st q \<Longrightarrow> fresh_page u q" by blast
  have "\<forall>z \<in> set xs. fresh_page u (snd z)" using Cons.prems(2,3) u(3) x by force
  with Cons.IH [OF u(2)] Cons.prems(2) u(1) x show ?case by simp
qed

section \<open>Properties\<close>

text \<open>C22.  Paging implements a partial map from pages to entries: with a page allocator that gives
  pages that are not in use, every sequence of \<open>paging_map_page\<close> and \<open>paging_unmap_page\<close> has a
  result, and afterwards \<open>paging_get_physical\<close> of an address gives the frame of the entry that
  the map has for its page, and 0 where it has none.\<close>

theorem paging_refines_map:
  assumes "represents st m" "distinct (map snd xs)" "\<forall>x \<in> set xs. fresh_page st (snd x)"
  shows "\<exists>st'. run_ops paging_step xs st = Some st' \<and>
    represents st' (fold vmap_step (map fst xs) m) \<and>
    paging_get_physical a st' = Some (case fold vmap_step (map fst xs) m (frame_of a) of None \<Rightarrow> 0 | Some e \<Rightarrow> frame_of e)"
  using paging_run_represents [OF assms] get_physical_represents by blast

text \<open>The state after \<open>paging_init\<close> with a page at \<open>0x101000\<close>.\<close>

definition paging0 :: paging where
  "paging0 = \<lparr>frames = (\<lambda>_. None), kernel_page_directory = 0, current_page_directory = 0, cr3 = 0, paging_on = False\<rparr>"

lemma paging_init_empty:
  assumes "page \<noteq> 0"
  shows "represents (paging_init page paging0) (\<lambda>_. None) \<and> paging_on (paging_init page paging0)"
proof -
  let ?st = "paging_init page paging0"
  have st: "frames ?st page = Some (replicate PAGE_ENTRIES 0)" "current_page_directory ?st = page"
    using assms by (simp_all add: paging_init_def Let_def clear_frame_def paging_enable_def paging0_def)
  have tab: "table_at ?st i = None" for i
    by (simp add: table_at_def load_def st rd_def)
  have "paging_inv ?st" using st assms by (simp add: paging_inv_def tab)
  moreover have "paging_on ?st" using assms by (simp add: paging_init_def Let_def paging_enable_def)
  ultimately show ?thesis by (simp add: represents_def entry_of_table tab)
qed

lemma init_fresh: "page \<noteq> 0 \<Longrightarrow> q \<noteq> 0 \<Longrightarrow> pmm_is_page_aligned q \<Longrightarrow> q \<noteq> page \<Longrightarrow> fresh_page (paging_init page paging0) q"
  by (simp add: fresh_page_def table_at_def paging_init_def Let_def clear_frame_def paging_enable_def paging0_def load_def rd_def)

lemma paging_refines_map_witness:
  "\<exists>st'. run_ops paging_step [(Map 0xC0000000 0x00400000 3, 0x102000), (Unmap 0x1000, 0x103000)] (paging_init 0x101000 paging0) = Some st' \<and>
    represents st' (fold vmap_step (map fst [(Map 0xC0000000 0x00400000 3, 0x102000 :: u32), (Unmap 0x1000, 0x103000)]) (\<lambda>_. None)) \<and>
    paging_get_physical 0xC0000123 st' =
      Some (case fold vmap_step (map fst [(Map 0xC0000000 0x00400000 3, 0x102000 :: u32), (Unmap 0x1000, 0x103000)]) (\<lambda>_. None) (frame_of 0xC0000123) of
        None \<Rightarrow> 0 | Some e \<Rightarrow> frame_of e)"
  by (rule paging_refines_map) (use paging_init_empty [of "0x101000"] in \<open>auto intro!: init_fresh simp: pmm_is_page_aligned_def\<close>)

text \<open>Before the first page is available, \<open>paging_init\<close> leaves paging off, and a page cannot be mapped.\<close>

lemma paging_init_null:
  "paging_init 0 paging0 = paging0"
  "pmm_is_page_aligned v \<Longrightarrow> pmm_is_page_aligned p \<Longrightarrow> paging_map_page v p f page (paging_init 0 paging0) = None"
  by (simp_all add: paging_init_def Let_def paging0_def paging_map_page_def get_or_create_page_table_def load_def)

text \<open>If the allocator gives the page of the directory again, the directory is cleared: every
  address of the other directory entries loses its mapping.\<close>

lemma paging_same_page:
  assumes inv: "paging_inv st" and none: "table_at st (pd_index v) = None"
    and page: "page = current_page_directory st"
    and g: "get_or_create_page_table (current_page_directory st) v True page st = Some (st', pt)"
    and a: "pd_index a \<noteq> pd_index v"
  shows "entry_of st' a = None"
proof -
  obtain d where d: "load page (pd_index v) st = Some d" "d AND PAGE_PRESENT = 0"
    using load_directory [OF inv, of v] none page by (auto simp: table_at_def split: if_splits)
  have "page \<noteq> 0" using inv page by (simp add: paging_inv_def)
  then have st': "st' = st\<lparr>frames := (frames st)(page := Some ((replicate PAGE_ENTRIES 0)[pd_index v := page OR PAGE_PRESENT OR PAGE_WRITABLE]))\<rparr>"
    using g d page index_less(1) [of v]
    by (auto simp: get_or_create_page_table_def Let_def store_def clear_frame_def wr_def)
  have "current_page_directory st' = page" using st' page by simp
  moreover have "load page (pd_index a) st' = Some 0"
    using a index_less(1) [of a] unfolding st' by (simp add: load_def rd_def)
  ultimately show ?thesis by (simp add: entry_of_def)
qed

end
