(* ===== verification/Heap.thy ===== *)
theory Heap
  imports Prelude Bits Strconv
begin

text \<open>
  The heap of \<open>lib/libc/stdlib.c\<close>, its \<open>atexit\<close> table and its wide character functions.  Memory is
  a function from addresses to bytes; a \<open>size_t\<close> in memory is four bytes, the lowest first.
  \<open>_sbrk\<close> knows no end of the memory, so no access of these functions fails.
\<close>

section \<open>State\<close>

record heap =
  heap_end :: u32
  memory :: "u32 \<Rightarrow> u8"

definition load_size :: "u32 \<Rightarrow> heap \<Rightarrow> u32" where
  "load_size p h = ucast (memory h p) OR push_bit 8 (ucast (memory h (p + 1))) OR
     push_bit 16 (ucast (memory h (p + 2))) OR push_bit 24 (ucast (memory h (p + 3)))"

definition store_size :: "u32 \<Rightarrow> u32 \<Rightarrow> heap \<Rightarrow> heap" where
  "store_size p v h = h\<lparr>memory := (memory h)(p := ucast v, p + 1 := ucast (drop_bit 8 v),
     p + 2 := ucast (drop_bit 16 v), p + 3 := ucast (drop_bit 24 v))\<rparr>"

section \<open>Operations\<close>

definition sbrk :: "u32 \<Rightarrow> heap \<Rightarrow> heap \<times> u32" where
  "sbrk incr h = (h\<lparr>heap_end := heap_end h + incr\<rparr>, heap_end h)"

definition round_size :: "u32 \<Rightarrow> u32" where
  "round_size sz = (sz + 4 - 1) AND NOT (4 - 1)"

definition malloc :: "u32 \<Rightarrow> heap \<Rightarrow> heap \<times> u32" where
  "malloc sz h =
     (if sz = 0 then (h, 0)
      else let sz = round_size sz;
               (h, ptr) = sbrk (sz + 4) h
           in if ptr = -1 then (h, 0) else (store_size ptr sz h, ptr + 4))"

definition free :: "u32 \<Rightarrow> heap \<Rightarrow> heap" where "free ptr h = h"

definition zero_step :: "u32 \<Rightarrow> nat \<Rightarrow> heap \<Rightarrow> heap" where
  "zero_step p i h = h\<lparr>memory := (memory h)(p + of_nat i := 0)\<rparr>"

definition zero_bytes :: "u32 \<Rightarrow> u32 \<Rightarrow> heap \<Rightarrow> heap" where
  "zero_bytes p n h = fold (zero_step p) [0..<unat n] h"

definition copy_step :: "u32 \<Rightarrow> u32 \<Rightarrow> nat \<Rightarrow> heap \<Rightarrow> heap" where
  "copy_step dst src i h = h\<lparr>memory := (memory h)(dst + of_nat i := memory h (src + of_nat i))\<rparr>"

definition copy_bytes :: "u32 \<Rightarrow> u32 \<Rightarrow> u32 \<Rightarrow> heap \<Rightarrow> heap" where
  "copy_bytes dst src n h = fold (copy_step dst src) [0..<unat n] h"

definition calloc :: "u32 \<Rightarrow> u32 \<Rightarrow> heap \<Rightarrow> heap \<times> u32" where
  "calloc num sz h =
     (let total_size = num * sz in
      if num \<noteq> 0 \<and> total_size div num \<noteq> sz then (h, 0)
      else let (h, ptr) = malloc total_size h
           in (if ptr \<noteq> 0 then zero_bytes ptr total_size h else h, ptr))"

definition realloc :: "u32 \<Rightarrow> u32 \<Rightarrow> heap \<Rightarrow> heap \<times> u32" where
  "realloc ptr sz h =
     (if ptr = 0 then malloc sz h
      else if sz = 0 then (free ptr h, 0)
      else
        let old_size = load_size (ptr - 4) h;
            (h, new_ptr) = malloc sz h
        in if new_ptr = 0 then (h, 0)
           else (free ptr (copy_bytes new_ptr ptr (if old_size < sz then old_size else sz) h), new_ptr))"

text \<open>The table of \<open>atexit\<close>: at most 32 functions, a null function is refused.\<close>

definition atexit :: "'f option \<Rightarrow> 'f list \<Rightarrow> 'f list \<times> int" where
  "atexit func funcs =
     (case func of
        None \<Rightarrow> (funcs, -1)
      | Some f \<Rightarrow> if length funcs \<ge> 32 then (funcs, -1) else (funcs @ [f], 0))"

section \<open>Wide characters\<close>

text \<open>
  A wide character is an \<open>int\<close>; a wide string is the list up to its terminating zero.  The
  functions that store into a destination give what they store, the terminating zero included.
\<close>

definition mblen :: "u8 list option \<Rightarrow> int" where
  "mblen s = (case s of None \<Rightarrow> 0 | Some s \<Rightarrow> if peek s = 0 then 0 else 1)"

definition mbtowc :: "u8 list option \<Rightarrow> int option \<times> int" where
  "mbtowc s =
     (case s of
        None \<Rightarrow> (None, 0)
      | Some s \<Rightarrow> if peek s = 0 then (Some 0, 0) else (Some (uint (peek s)), 1))"

definition wctomb :: "bool \<Rightarrow> int \<Rightarrow> u8 option \<times> int" where
  "wctomb dest wc =
     (if \<not> dest then (None, 0) else if wc > 255 then (None, -1) else (Some (word_of_int wc), 1))"

fun mbstowcs :: "u8 list \<Rightarrow> nat \<Rightarrow> int list \<times> nat" where
  "mbstowcs s 0 = ([], 0)"
| "mbstowcs [] (Suc room) = ([0], 0)"
| "mbstowcs (c # s) (Suc room) = (let (dest, n) = mbstowcs s room in (uint c # dest, Suc n))"

text \<open>No count for a character above 255: the result is \<open>(size_t)-1\<close>.\<close>

fun wcstombs :: "int list \<Rightarrow> nat \<Rightarrow> u8 list \<times> nat option" where
  "wcstombs s 0 = ([], Some 0)"
| "wcstombs [] (Suc room) = ([0], Some 0)"
| "wcstombs (c # s) (Suc room) =
     (if c > 255 then ([], None)
      else let (dest, n) = wcstombs s room in (word_of_int c # dest, map_option Suc n))"

section \<open>Memory\<close>

lemma load_store_size: "load_size p (store_size p v h) = v"
proof -
  have d: "p \<noteq> p + 1" "p \<noteq> p + 2" "p \<noteq> p + 3" "p + 1 \<noteq> p + 2" "p + 1 \<noteq> p + 3" "p + 2 \<noteq> p + 3" for p :: u32
    by simp_all
  have "load_size p (store_size p v h) =
      ucast (ucast v :: u8) OR push_bit 8 (ucast (ucast (drop_bit 8 v) :: u8)) OR
      push_bit 16 (ucast (ucast (drop_bit 16 v) :: u8)) OR push_bit 24 (ucast (ucast (drop_bit 24 v) :: u8))"
    using d [of p] by (simp add: load_size_def store_size_def)
  also have "\<dots> = v"
  proof (rule bit_word_eqI)
    fix n assume "n < LENGTH(32)"
    then show "bit ((ucast (ucast v :: u8) OR push_bit 8 (ucast (ucast (drop_bit 8 v) :: u8)) OR
      push_bit 16 (ucast (ucast (drop_bit 16 v) :: u8)) OR push_bit 24 (ucast (ucast (drop_bit 24 v) :: u8))) :: u32) n = bit v n"
      by (cases "n < 8"; cases "n < 16"; cases "n < 24") (auto simp: bit_simps)
  qed
  finally show ?thesis .
qed

text \<open>The address \<open>a\<close> is one of the \<open>n\<close> from \<open>p\<close> on.\<close>

definition within :: "u32 \<Rightarrow> nat \<Rightarrow> u32 \<Rightarrow> bool" where
  "within p n a \<longleftrightarrow> unat p \<le> unat a \<and> unat a < unat p + n"

lemma of_nat_offset: "unat p + i < 2 ^ 32 \<Longrightarrow> unat (p + of_nat i :: u32) = unat p + i"
  by (simp add: unat_word_ariths unsigned_of_nat take_bit_eq_mod)

lemma store_size_outside: "unat p + 4 < 2 ^ 32 \<Longrightarrow> \<not> within p 4 a \<Longrightarrow> memory (store_size p v h) a = memory h a"
  using of_nat_offset [of p 1] of_nat_offset [of p 2] of_nat_offset [of p 3]
  by (auto simp: store_size_def within_def)

lemma step_fields [simp]:
  "memory (copy_step dst src i h) = (memory h)(dst + of_nat i := memory h (src + of_nat i))"
  "memory (zero_step p i h) = (memory h)(p + of_nat i := 0)"
  "heap_end (copy_step dst src i h) = heap_end h" "heap_end (zero_step p i h) = heap_end h"
  by (simp_all add: copy_step_def zero_step_def)

lemma copy_bytes_memory:
  assumes "unat src + n < 2 ^ 32" "unat dst + n < 2 ^ 32" "unat src + n \<le> unat dst"
  shows "memory (fold (copy_step dst src) [0..<n] h) a =
    (if within dst n a then memory h (src + (a - dst)) else memory h a)"
  using assms
proof (induction n arbitrary: a)
  case 0
  then show ?case by (auto simp: within_def)
next
  case (Suc n)
  let ?h = "fold (copy_step dst src) [0..<n] h"
  have IH: "memory ?h a = (if within dst n a then memory h (src + (a - dst)) else memory h a)" for a
    using Suc.prems by (intro Suc.IH) simp_all
  have s: "unat (src + of_nat n) = unat src + n" and d: "unat (dst + of_nat n) = unat dst + n"
    using Suc.prems by (simp_all add: of_nat_offset)
  have src: "memory ?h (src + of_nat n) = memory h (src + of_nat n)"
    unfolding IH using Suc.prems(3) by (simp add: within_def s)
  show ?case
  proof (cases "a = dst + of_nat n")
    case True
    then show ?thesis using d src by (simp add: within_def)
  next
    case False
    then have "unat a \<noteq> unat dst + n" using d by (metis unsigned_word_eqI)
    then have "within dst (Suc n) a = within dst n a" by (auto simp: within_def)
    then show ?thesis using False IH [of a] by simp
  qed
qed

lemma zero_bytes_memory:
  assumes "unat p + n < 2 ^ 32"
  shows "memory (fold (zero_step p) [0..<n] h) a =
    (if within p n a then 0 else memory h a)"
  using assms
proof (induction n)
  case 0
  then show ?case by (auto simp: within_def)
next
  case (Suc n)
  have d: "unat (p + of_nat n) = unat p + n" using Suc.prems by (simp add: of_nat_offset)
  then have "a \<noteq> p + of_nat n \<Longrightarrow> unat a \<noteq> unat p + n" by (metis unsigned_word_eqI)
  then have "a \<noteq> p + of_nat n \<Longrightarrow> within p (Suc n) a = within p n a" by (auto simp: within_def)
  with Suc d show ?case by (auto simp: within_def)
qed

section \<open>Blocks\<close>

lemma round_size_unat:
  assumes "unat sz + 3 < 2 ^ 32"
  shows "unat (round_size sz) = (unat sz + 3) div 4 * 4"
proof -
  have m: "(4 :: u32) - 1 = mask 2" by (simp add: mask_eq_exp_minus_1)
  have "unat (sz + 4 - 1) = unat sz + 3" using assms by (simp add: add_diff_eq [symmetric] unat_word_ariths)
  then show ?thesis unfolding round_size_def m unat_align_down by (simp add: minus_mod_eq_div_mult)
qed

lemma round_size_bounds:
  assumes "unat sz + 3 < 2 ^ 32"
  shows "unat sz \<le> unat (round_size sz)" "unat (round_size sz) \<le> unat sz + 3"
  unfolding round_size_unat [OF assms] by linarith+

text \<open>A block is its address and its size, in the size field before it; it ends below the heap's end.\<close>

definition block :: "heap \<Rightarrow> u32 \<Rightarrow> u32 \<Rightarrow> bool" where
  "block h p n \<longleftrightarrow> 4 \<le> unat p \<and> load_size (p - 4) h = n \<and> unat p + unat n \<le> unat (heap_end h)"

text \<open>The heap has room for a block of this size.\<close>

definition room :: "heap \<Rightarrow> u32 \<Rightarrow> bool" where
  "room h sz \<longleftrightarrow> unat (heap_end h) + unat sz + 8 < 2 ^ 32"

lemma malloc_block:
  assumes "sz \<noteq> 0" "room h sz"
  shows "\<exists>h' p. malloc sz h = (h', p) \<and> unat p = unat (heap_end h) + 4 \<and> block h' p (round_size sz) \<and>
    unat (heap_end h') = unat (heap_end h) + 4 + unat (round_size sz) \<and>
    (\<forall>a. unat a < unat (heap_end h) \<longrightarrow> memory h' a = memory h a)"
proof -
  have r: "unat (heap_end h) + unat sz + 8 < 2 ^ 32" using assms(2) by (simp add: room_def)
  have rs: "unat sz \<le> unat (round_size sz)" "unat (round_size sz) \<le> unat sz + 3"
    using r by (intro round_size_bounds, simp)+
  let ?e = "heap_end h"
  have p: "unat (?e + 4) = unat ?e + 4" using r by (simp add: unat_word_ariths)
  have e: "unat (?e + (round_size sz + 4)) = unat ?e + 4 + unat (round_size sz)"
    using r rs by (simp add: unat_word_ariths)
  have ne: "?e \<noteq> -1"
  proof
    assume "?e = -1"
    then have "unat ?e = 2 ^ 32 - 1" by (simp add: unsigned_minus_1_eq_mask mask_eq_exp_minus_1)
    with r show False by simp
  qed
  let ?h = "store_size ?e (round_size sz) (h\<lparr>heap_end := ?e + (round_size sz + 4)\<rparr>)"
  have m: "malloc sz h = (?h, ?e + 4)" using assms(1) ne by (simp add: malloc_def sbrk_def Let_def)
  have "load_size (?e + 4 - 4) ?h = round_size sz" by (simp add: load_store_size)
  moreover have he: "heap_end ?h = ?e + (round_size sz + 4)" by (simp add: store_size_def)
  ultimately have "block ?h (?e + 4) (round_size sz)" unfolding block_def he p e by simp
  moreover have "memory ?h a = memory h a" if "unat a < unat ?e" for a
    using store_size_outside [of ?e a] r that by (simp add: within_def)
  ultimately show ?thesis using m p e he by auto
qed

lemma unat_offset: "i < unat n \<Longrightarrow> unat p + unat n \<le> 2 ^ 32 - 1 \<Longrightarrow> unat (p + of_nat i) = unat p + i" for p n :: u32
  by (intro of_nat_offset) simp

text \<open>C23.  \<open>realloc\<close> of a block, when the heap has room, gives a new block of at least the wanted
  size behind all others whose first bytes are those of the old one, as many as fit, and changes
  no byte below the old end of the heap.\<close>

theorem realloc_keeps:
  assumes "block h p n" "sz \<noteq> 0" "room h sz"
  shows "\<exists>h' q. realloc p sz h = (h', q) \<and> block h' q (round_size sz) \<and> unat q = unat (heap_end h) + 4 \<and>
    (\<forall>i < min (unat n) (unat sz). memory h' (q + of_nat i) = memory h (p + of_nat i)) \<and>
    (\<forall>a. unat a < unat (heap_end h) \<longrightarrow> memory h' a = memory h a)"
proof -
  obtain h1 q where m: "malloc sz h = (h1, q)" "unat q = unat (heap_end h) + 4" "block h1 q (round_size sz)"
    "unat (heap_end h1) = unat (heap_end h) + 4 + unat (round_size sz)"
    "\<And>a. unat a < unat (heap_end h) \<Longrightarrow> memory h1 a = memory h a"
    using malloc_block [OF assms(2,3)] by blast
  have r: "unat (heap_end h) + unat sz + 8 < 2 ^ 32" using assms(3) by (simp add: room_def)
  have b: "4 \<le> unat p" "load_size (p - 4) h = n" "unat p + unat n \<le> unat (heap_end h)"
    using assms(1) by (simp_all add: block_def)
  define c where "c = (if n < sz then n else sz)"
  have c: "unat c = min (unat n) (unat sz)" by (simp add: c_def min_def word_less_nat_alt)
  let ?h = "fold (copy_step q p) [0..<unat c] h1"
  have "p \<noteq> 0" "q \<noteq> 0" using b(1) m(2) by auto
  then have res: "realloc p sz h = (?h, q)"
    using assms(2) m(1) b(2) by (simp add: realloc_def Let_def free_def copy_bytes_def c_def [symmetric])
  have mem: "memory ?h a = (if within q (unat c) a then memory h1 (p + (a - q)) else memory h1 a)" for a
    using r b(3) m(2) c by (intro copy_bytes_memory) auto
  have hend: "heap_end (fold (copy_step q p) xs h1) = heap_end h1" for xs
    by (induction xs arbitrary: h1) simp_all
  have low: "memory ?h a = memory h a" if "unat a < unat (heap_end h)" for a
    using that m(2,5) by (simp add: mem within_def)
  have "memory ?h (q + of_nat i) = memory h (p + of_nat i)" if "i < min (unat n) (unat sz)" for i
  proof -
    have "unat (q + of_nat i) = unat q + i" using that r m(2) by (intro of_nat_offset) simp
    then have w: "within q (unat c) (q + of_nat i)" using that c by (simp add: within_def)
    have "unat (p + of_nat i) = unat p + i" using that b(3) r by (intro of_nat_offset) simp
    then have "memory h1 (p + of_nat i) = memory h (p + of_nat i)" using that b(3) by (intro m(5)) simp
    with w show ?thesis by (simp add: mem)
  qed
  moreover have "block ?h q (round_size sz)"
  proof -
    have "memory ?h a = memory h1 a" if "unat a < unat q" for a using that by (simp add: mem within_def)
    moreover have "unat (q - 4) = unat (heap_end h)" using m(2) by (simp add: unat_sub word_le_nat_alt)
    moreover have "unat (q - 4 + of_nat i) < unat q" if "i < 4" for i
      using that r m(2) calculation(2) by (subst of_nat_offset) simp_all
    note this [of 0] this [of 1] this [of 2] this [of 3]
    ultimately have "load_size (q - 4) ?h = load_size (q - 4) h1" by (simp add: load_size_def)
    with m(3) show ?thesis by (simp add: block_def hend)
  qed
  ultimately show ?thesis using res m(2) low by blast
qed

definition heap0 :: heap where
  "heap0 = \<lparr>heap_end = 0x100000, memory = (\<lambda>_. 7)\<rparr>"

definition heap1 :: heap where
  "heap1 = fst (malloc 5 heap0)"

lemma heap1_block:
  "block heap1 0x100004 (round_size 5)" "unat (heap_end heap1) = 1048588" "unat (round_size 5) = 8"
proof -
  have r: "unat (round_size 5) = 8" by (subst round_size_unat) simp_all
  have "(5 :: u32) \<noteq> 0" "room heap0 5" by (simp_all add: room_def heap0_def)
  from malloc_block [OF this] obtain h p where m: "malloc 5 heap0 = (h, p)" "unat p = unat (heap_end heap0) + 4"
    "block h p (round_size 5)" "unat (heap_end h) = unat (heap_end heap0) + 4 + unat (round_size 5)" by blast
  have "unat p = unat (0x100004 :: u32)" using m(2) by (simp add: heap0_def)
  then have "p = 0x100004" by (rule unsigned_word_eqI)
  with m r show "block heap1 0x100004 (round_size 5)" "unat (heap_end heap1) = 1048588" "unat (round_size 5) = 8"
    by (simp_all add: heap1_def heap0_def)
qed

lemma realloc_keeps_witness:
  "\<exists>h' q. realloc 0x100004 20 heap1 = (h', q) \<and> block h' q (round_size 20) \<and> unat q = unat (heap_end heap1) + 4 \<and>
    memory h' (q + of_nat 3) = memory heap1 (0x100004 + of_nat 3)"
proof -
  have "(20 :: u32) \<noteq> 0" "room heap1 20" by (simp_all add: room_def heap1_block)
  from realloc_keeps [OF heap1_block(1) this] obtain h' q where
    r: "realloc 0x100004 20 heap1 = (h', q)" "block h' q (round_size 20)" "unat q = unat (heap_end heap1) + 4"
      "\<forall>i < min (unat (round_size 5)) (unat (20 :: u32)). memory h' (q + of_nat i) = memory heap1 (0x100004 + of_nat i)"
    by blast
  have "3 < min (unat (round_size 5)) (unat (20 :: u32))" by (simp add: heap1_block)
  with r show ?thesis by blast
qed

text \<open>\<open>calloc\<close> gives \<open>NULL\<close> when the product of its arguments does not fit a \<open>size_t\<close>, and
  else, when the heap has room, a block of that many bytes that are all zero.\<close>

theorem calloc_zeroed:
  assumes "num \<noteq> 0" "sz \<noteq> 0" "unat num * unat sz < 2 ^ 32 \<Longrightarrow> room h (num * sz)"
  shows "if unat num * unat sz \<ge> 2 ^ 32 then calloc num sz h = (h, 0)
    else \<exists>h' p. calloc num sz h = (h', p) \<and> p \<noteq> 0 \<and> unat p + unat num * unat sz \<le> unat (heap_end h') \<and>
      (\<forall>i < unat num * unat sz. memory h' (p + of_nat i) = 0)"
proof -
  have n: "0 < unat num" using assms(1) by (simp add: unat_gt_0)
  show ?thesis
  proof (cases "unat num * unat sz \<ge> 2 ^ 32")
    case True
    have "num * sz div num \<noteq> sz"
    proof
      assume eq: "num * sz div num = sz"
      have "unat (num * sz) < 2 ^ 32" using unsigned_less [of "num * sz"] by simp
      have "unat num * unat sz = unat num * (unat (num * sz) div unat num)"
        using arg_cong [OF eq, of unat] by simp
      also have "\<dots> \<le> unat (num * sz)" by simp
      also have "\<dots> < 2 ^ 32" by fact
      finally show False using True by simp
    qed
    then show ?thesis using True assms(1) by (simp add: calloc_def Let_def)
  next
    case False
    then have lt: "unat num * unat sz < 2 ^ 32" by simp
    then have prod: "unat (num * sz) = unat num * unat sz" by (simp add: unat_word_ariths)
    have "unat (num * sz div num) = unat sz" using n by (simp add: prod)
    then have div: "num * sz div num = sz" by (rule unsigned_word_eqI)
    have ne: "num * sz \<noteq> 0"
    proof
      assume "num * sz = 0"
      then have "unat num * unat sz = 0" using prod by simp
      with n assms(2) show False by (simp add: unat_eq_zero)
    qed
    obtain h1 p where m: "malloc (num * sz) h = (h1, p)" "unat p = unat (heap_end h) + 4" "block h1 p (round_size (num * sz))"
      using malloc_block [OF ne assms(3) [OF lt]] by blast
    have r: "unat (heap_end h) + unat (num * sz) + 8 < 2 ^ 32" using assms(3) [OF lt] by (simp add: room_def)
    let ?h = "fold (zero_step p) [0..<unat (num * sz)] h1"
    have p0: "p \<noteq> 0" using m(2) by auto
    have c: "calloc num sz h = (?h, p)" using div m(1) p0 by (simp add: calloc_def Let_def zero_bytes_def)
    have "heap_end (fold (zero_step p) xs h1) = heap_end h1" for xs
      by (induction xs arbitrary: h1) simp_all
    then have "heap_end ?h = heap_end h1" .
    moreover have "unat (num * sz) \<le> unat (round_size (num * sz))" using r by (intro round_size_bounds) simp
    ultimately have "unat p + unat num * unat sz \<le> unat (heap_end ?h)" using m(3) prod by (simp add: block_def)
    moreover have "memory ?h (p + of_nat i) = 0" if "i < unat num * unat sz" for i
    proof -
      have "unat (p + of_nat i) = unat p + i" using that r m(2) prod by (intro of_nat_offset) simp
      then have "within p (unat (num * sz)) (p + of_nat i)" using that prod by (simp add: within_def)
      then show ?thesis using r m(2) by (subst zero_bytes_memory) simp_all
    qed
    ultimately show ?thesis using False c p0 by auto
  qed
qed

lemma calloc_zeroed_witness:
  "\<exists>h' p. calloc 3 5 heap1 = (h', p) \<and> p \<noteq> 0 \<and> memory h' (p + of_nat 14) = 0"
proof -
  have "room heap1 (3 * 5)" by (simp add: room_def heap1_block)
  then have "if unat (3 :: u32) * unat (5 :: u32) \<ge> 2 ^ 32 then calloc 3 5 heap1 = (heap1, 0)
    else \<exists>h' p. calloc 3 5 heap1 = (h', p) \<and> p \<noteq> 0 \<and> unat p + unat (3 :: u32) * unat (5 :: u32) \<le> unat (heap_end h') \<and>
      (\<forall>i < unat (3 :: u32) * unat (5 :: u32). memory h' (p + of_nat i) = 0)"
    by (intro calloc_zeroed) simp_all
  then obtain h' p where c: "calloc 3 5 heap1 = (h', p)" "p \<noteq> 0" "\<forall>i < 15. memory h' (p + of_nat i) = 0" by auto
  have "memory h' (p + of_nat 14) = 0" using c(3) by (rule allE [of _ 14]) simp
  with c show ?thesis by blast
qed

text \<open>The rounding of a size wraps: a request for almost all of the memory succeeds with a block of
  no bytes.\<close>

lemma malloc_wraps:
  "heap_end h = 0x100000 \<Longrightarrow> snd (malloc 0xFFFFFFFF h) = 0x100004 \<and> load_size 0x100000 (fst (malloc 0xFFFFFFFF h)) = 0"
  by (simp add: malloc_def sbrk_def round_size_def Let_def load_store_size)

section \<open>Wide strings\<close>

text \<open>A string that fits, with its terminating zero, is converted and back.\<close>

lemma mbstowcs_length: "length s < n \<Longrightarrow> mbstowcs s n = (map uint s @ [0], length s)"
  by (induction s n rule: mbstowcs.induct) (auto simp: Let_def)

lemma wcstombs_bytes: "length s < n \<Longrightarrow> wcstombs (map uint s) n = (s @ [0], Some (length s))" for s :: "u8 list"
proof (induction s arbitrary: n)
  case Nil
  then show ?case by (cases n) simp_all
next
  case (Cons c s)
  then obtain m where m: "n = Suc m" by (cases n) auto
  have "uint c \<le> 255" using unsigned_less [of c, where 'a = int] by simp
  with Cons m show ?case by simp
qed

lemma wide_roundtrip:
  "length s < n \<Longrightarrow> wcstombs (butlast (fst (mbstowcs s n))) n = (s @ [0], Some (length s))"
  by (simp add: mbstowcs_length wcstombs_bytes)

end
