(* ===== verification/Console.thy ===== *)
theory Console
  imports Prelude Stdio Vga
begin

text \<open>
  What the commands print: \<open>printf\<close>, \<open>fprintf\<close>, \<open>putchar\<close> and \<open>puts\<close> of \<open>lib/libc/stdio.c\<close> as the
  text that they send to the screen.  \<open>text_of\<close> is the output for formats whose directives are
  \<open>%s\<close>, \<open>%d\<close> and \<open>%u\<close>, and \<open>printf_text\<close> the fact that carries the proofs about commands.
\<close>

definition printf :: "u8 list \<Rightarrow> arg list \<Rightarrow> u8 list option" where
  "printf format args = map_option fst (vprintf format args)"

definition fprintf :: "int \<Rightarrow> u8 list \<Rightarrow> arg list \<Rightarrow> u8 list option" where
  "fprintf fd format args = map_option fst (vprintf format args)"

definition putchar :: "u8 \<Rightarrow> u8 list" where "putchar c = [c]"
definition puts :: "u8 list \<Rightarrow> u8 list" where "puts str = str @ [10]"

abbreviation stderr :: int where "stderr \<equiv> 2"

lemma concat_putchar [simp]: "concat (map putchar s) = s"
  by (induction s) (simp_all add: putchar_def)

lemma fprintf_printf: "fprintf fd = printf"
  by (intro ext) (simp add: fprintf_def printf_def)

text \<open>The text on the screen as operations of its driver.\<close>

definition shown :: "u8 list \<Rightarrow> vga_op list" where "shown = map VPutchar"

lemma shown_append [simp]: "shown (a @ b) = shown a @ shown b"
  by (simp add: shown_def)

definition decimal :: "u32 \<Rightarrow> u8 list" where
  "decimal w = the (itoa (sint w) 10)"

section \<open>Formats of strings and numbers\<close>

fun text_of :: "u8 list \<Rightarrow> arg list \<Rightarrow> u8 list option" where
  "text_of [] args = Some []"
| "text_of [c] args = Some [c]"
| "text_of (c # k # p) args =
     (if c \<noteq> ch CHR ''%'' then map_option ((#) c) (text_of (k # p) args)
      else if k = ch CHR ''s'' then
        (case args of Str s # args \<Rightarrow> map_option ((@) (case s of None \<Rightarrow> bytes ''(null)'' | Some s \<Rightarrow> s)) (text_of p args) | _ \<Rightarrow> None)
      else if k = ch CHR ''d'' then
        (case args of Num w # args \<Rightarrow> if w \<noteq> 0x80000000 then map_option ((@) (decimal w)) (text_of p args) else None | _ \<Rightarrow> None)
      else None)"

lemma s_plain:
  "parse_flags (115 # p) sp = (sp, 115 # p)" "\<not> fmt_digit 115" "ch CHR ''*'' \<noteq> 115" "ch CHR ''.'' \<noteq> 115"
  "ch CHR ''l'' \<noteq> 115" "ch CHR ''h'' \<noteq> 115" "ch CHR ''z'' \<noteq> 115" "ch CHR ''s'' = 115"
  "ch CHR ''i'' \<noteq> 115" "ch CHR ''d'' \<noteq> 115"
  by (simp_all add: ch_def fmt_digit_def)

lemma directive_s:
  "read_directive (115 # p) (Str s # args) =
     (let t = (case s of None \<Rightarrow> bytes ''(null)'' | Some s \<Rightarrow> s) in Some (t, int (length t), args, p))"
proof -
  have "spec0\<lparr>width := 0\<rparr> = spec0" by (simp add: spec0_def)
  then show ?thesis
    using s_plain by (simp add: read_directive_def parse_width_def parse_precision_def skip_length_def
        directive_def Let_def conv_str_def output_with_format_def spec0_def)
qed

lemma conv_dec_decimal:
  assumes "w \<noteq> 0x80000000"
  shows "conv_dec spec0 w = Some (decimal w, int (length (decimal w)))"
proof -
  let ?n = "sint w"
  have range: "int32_range ?n" by (rule sint_range)
  have least: "?n \<noteq> - (2 ^ 31)" using assms by (rule sint_least)
  obtain s where s: "itoa ?n 10 = Some s" using itoa_word [OF assms] by blast
  show ?thesis
  proof (cases "?n < 0")
    case True
    have w: "wrap32 (- ?n) = - ?n"
      using True range least by (intro wrap32_id) (auto simp: int32_range_def)
    from itoa_neg [OF True range least] s obtain t where
      "itoa (- ?n) 10 = Some t" "s = 45 # t" by (cases "itoa (- ?n) 10") auto
    with True w s show ?thesis
      by (simp add: decimal_def conv_dec_def spec0_def output_with_format_def max_width_def ch_minus)
  next
    case False
    with s show ?thesis
      by (simp add: decimal_def conv_dec_def spec0_def output_with_format_def max_width_def)
  qed
qed

lemma d_plain_rest: "parse_flags (100 # p) sp = (sp, 100 # p)"
  by (simp add: ch_def)

lemma directive_d:
  assumes "w \<noteq> 0x80000000"
  shows "read_directive (100 # p) (Num w # args) = Some (decimal w, int (length (decimal w)), args, p)"
proof -
  have "spec0\<lparr>width := 0\<rparr> = spec0" by (simp add: spec0_def)
  then show ?thesis
    using d_plain d_plain_rest conv_dec_decimal [OF assms]
    by (simp add: read_directive_def parse_width_def parse_precision_def skip_length_def
        directive_def ch_d eq_commute [of "100 :: u8"])
qed

lemma vprintf_loop_text:
  "text_of p args = Some out \<Longrightarrow> \<exists>r. vprintf_loop p args n = Some (out, r)"
proof (induction p args arbitrary: out n rule: text_of.induct)
  case (1 args)
  then show ?case by simp
next
  case (2 c args)
  then show ?case by auto
next
  case (3 c k p args)
  have s: "ch CHR ''s'' = 115" and d: "ch CHR ''d'' = 100" and pc: "ch CHR ''%'' = 37"
    by (simp_all add: ch_def)
  consider (lit) "c \<noteq> 37" | (str) "c = 37" "k = 115" | (dec) "c = 37" "k = 100"
    using "3.prems" by (auto simp: s d pc split: if_splits)
  then show ?case
  proof cases
    case lit
    with "3.prems" obtain out' where o: "text_of (k # p) args = Some out'" "out = c # out'"
      by (auto simp: pc)
    have "vprintf_loop (c # k # p) args n =
        do { (outs, r) \<leftarrow> vprintf_loop (k # p) args (wrap32 (n + 1)); Some (c # outs, r) }"
      using lit by (subst vprintf_loop.simps) (simp add: pc)
    with "3.IH"(1) [OF _ o(1), of "wrap32 (n + 1)"] lit o(2) show ?thesis
      by (auto simp: pc simp del: vprintf_loop.simps)
  next
    case str
    with "3.prems" obtain t args' out' where
      o: "args = Str t # args'" "text_of p args' = Some out'" "out = (case t of None \<Rightarrow> bytes ''(null)'' | Some t \<Rightarrow> t) @ out'"
      by (auto simp: s pc split: list.splits arg.splits)
    have "\<exists>r. vprintf_loop p args' m = Some (out', r)" for m
      using "3.IH"(2) [of "Str t" args' t out' m] str o by (simp add: s pc)
    then obtain r where "vprintf_loop p args' (wrap32 (n + int (length (case t of None \<Rightarrow> bytes ''(null)'' | Some t \<Rightarrow> t)))) = Some (out', r)"
      by blast
    with str o show ?thesis by (simp add: pc directive_s Let_def)
  next
    case dec
    with "3.prems" obtain w args' out' where
      o: "args = Num w # args'" "text_of p args' = Some out'" "out = decimal w @ out'" "w \<noteq> 0x80000000"
      by (auto simp: s d pc split: list.splits arg.splits if_splits)
    have "\<exists>r. vprintf_loop p args' m = Some (out', r)" for m
      using "3.IH"(3) [of "Num w" args' w out' m] dec o by (simp add: s d pc)
    then obtain r where "vprintf_loop p args' (wrap32 (n + int (length (decimal w)))) = Some (out', r)"
      by blast
    with dec o show ?thesis by (simp add: pc directive_d)
  qed
qed

lemma printf_text: "text_of format args = Some out \<Longrightarrow> printf format args = Some out"
  using vprintf_loop_text [of format args out 0] by (auto simp: printf_def vprintf_def)

text \<open>Formats without directives.\<close>

lemma text_of_plain: "list_all (\<lambda>c. c \<noteq> ch CHR ''%'') s \<Longrightarrow> text_of s [] = Some s"
  by (induction s "[] :: arg list" rule: text_of.induct) auto

lemma printf_plain: "list_all (\<lambda>c. c \<noteq> ch CHR ''%'') s \<Longrightarrow> printf s [] = Some s"
  by (rule printf_text [OF text_of_plain])

section \<open>Directives of a format\<close>

text \<open>The letters of the directives, and arguments that fit them.\<close>

fun directives :: "u8 list \<Rightarrow> u8 list option" where
  "directives [] = Some []"
| "directives [c] = Some []"
| "directives (c # k # p) =
     (if c \<noteq> ch CHR ''%'' then directives (k # p)
      else if k = ch CHR ''s'' \<or> k = ch CHR ''d'' then map_option ((#) k) (directives p)
      else None)"

fun args_match :: "u8 list \<Rightarrow> arg list \<Rightarrow> bool" where
  "args_match [] args \<longleftrightarrow> True"
| "args_match (k # ks) (Str s # args) \<longleftrightarrow> k = ch CHR ''s'' \<and> args_match ks args"
| "args_match (k # ks) (Num w # args) \<longleftrightarrow> k = ch CHR ''d'' \<and> w \<noteq> 0x80000000 \<and> args_match ks args"
| "args_match (k # ks) [] \<longleftrightarrow> False"

lemma text_of_total:
  assumes "directives format = Some ks" "args_match ks args"
  shows "\<exists>out. text_of format args = Some out"
  using assms
proof (induction format args arbitrary: ks rule: text_of.induct)
  case (3 c k p args)
  have sd: "ch CHR ''s'' \<noteq> ch CHR ''d''" by (simp add: ch_def)
  consider (lit) "c \<noteq> ch CHR ''%''" | (str) "c = ch CHR ''%''" "k = ch CHR ''s''"
    | (dec) "c = ch CHR ''%''" "k = ch CHR ''d''"
    using "3.prems"(1) by (auto split: if_splits)
  then show ?case
  proof cases
    case lit
    with 3 show ?thesis by auto
  next
    case str
    with "3.prems" obtain ks' where ks: "directives p = Some ks'" "ks = ch CHR ''s'' # ks'" by auto
    with "3.prems"(2) sd obtain t args' where a: "args = Str t # args'" "args_match ks' args'"
      by (cases args rule: list.exhaust; cases "hd args") auto
    from "3.IH"(2) [OF _ str(2) a(1) refl ks(1) a(2)] str a show ?thesis by auto
  next
    case dec
    with "3.prems" sd obtain ks' where ks: "directives p = Some ks'" "ks = ch CHR ''d'' # ks'" by auto
    with "3.prems"(2) sd obtain w args' where a: "args = Num w # args'" "w \<noteq> 0x80000000" "args_match ks' args'"
      by (cases args rule: list.exhaust; cases "hd args") auto
    from "3.IH"(3) [OF _ _ dec(2) a(1) refl a(2) ks(1) a(3)] dec a sd show ?thesis by auto
  qed
qed simp_all

lemma printf_total:
  assumes "directives format = Some ks" "args_match ks args"
  shows "\<exists>out. printf format args = Some out"
  using text_of_total [OF assms] printf_text by blast

end
