(* ===== verification/Login.thy ===== *)
theory Login
  imports Prelude Cstring Stdio Vga Timelib Console
begin

text \<open>
  The login prompt, \<open>usr/sbin/login/login.c\<close> and \<open>usr/include/login.h\<close>.  The characters that
  \<open>kb_getchar\<close> returns are the input list, and waiting for more of them has no result; what is
  put on the screen is the list of operations of \<open>Vga\<close>.  A buffer is the list of its bytes.
\<close>

abbreviation MAX_LOGIN_ATTEMPTS :: nat where "MAX_LOGIN_ATTEMPTS \<equiv> 3"
abbreviation USERNAME_MAX_LEN :: nat where "USERNAME_MAX_LEN \<equiv> 32"
abbreviation PASSWORD_MAX_LEN :: nat where "PASSWORD_MAX_LEN \<equiv> 32"
definition USERNAME :: "u8 list" where "USERNAME = bytes ''root''"
definition PASSWORD :: "u8 list" where "PASSWORD = bytes ''welcome''"
abbreviation PASSWORD_MASK :: u8 where "PASSWORD_MASK \<equiv> 42"
abbreviation INPUT_TIMEOUT_MS :: u64 where "INPUT_TIMEOUT_MS \<equiv> 300000"

section \<open>Input\<close>

definition secure_clear_buffer :: "nat \<Rightarrow> u8 list \<Rightarrow> u8 list option" where
  "secure_clear_buffer sz buffer = for_each (\<lambda>i b. wr b i 0) [0..<sz] buffer"

definition is_valid_input_char :: "u8 \<Rightarrow> bool" where
  "is_valid_input_char c \<longleftrightarrow> (32 \<le> c \<and> c \<le> 126) \<and> c \<noteq> 0"

text \<open>The loop of \<open>get_input_secure\<close>: its result, the buffer, the screen and the input left.\<close>

fun input_loop ::
    "nat \<Rightarrow> bool \<Rightarrow> nat \<Rightarrow> u8 list \<Rightarrow> u8 list \<Rightarrow> (int \<times> u8 list \<times> vga_op list \<times> u8 list) option" where
  "input_loop sz is_password pos buffer [] = None"
| "input_loop sz is_password pos buffer (c # input) =
     (if c = 10 \<or> c = 13 then
        do { buffer \<leftarrow> wr buffer pos 0;
             Some (0, buffer, if \<not> is_password then [VPutchar 10] else [], input) }
      else if c = 8 \<or> c = 127 then
        (if pos > 0 then
           do { buffer \<leftarrow> wr buffer (pos - 1) 0;
                (r, buffer, out, input) \<leftarrow> input_loop sz is_password (pos - 1) buffer input;
                Some (r, buffer, VPutchar 8 # VPutchar 32 # VPutchar 8 # out, input) }
         else input_loop sz is_password pos buffer input)
      else if c = 3 \<or> c = 27 then
        do { buffer \<leftarrow> secure_clear_buffer sz buffer; Some (-2, buffer, [], input) }
      else if pos < sz - 1 \<and> is_valid_input_char c then
        do { buffer \<leftarrow> wr buffer pos c;
             (r, buffer, out, input) \<leftarrow> input_loop sz is_password (pos + 1) buffer input;
             Some (r, buffer, VPutchar (if is_password then PASSWORD_MASK else c) # out, input) }
      else input_loop sz is_password pos buffer input)"

text \<open>A \<open>NULL\<close> buffer is \<open>None\<close>.\<close>

definition get_input_secure ::
    "u8 list option \<Rightarrow> nat \<Rightarrow> bool \<Rightarrow> u8 list \<Rightarrow> (int \<times> u8 list option \<times> vga_op list \<times> u8 list) option" where
  "get_input_secure buffer sz is_password input =
     (case buffer of
        None \<Rightarrow> Some (-1, None, [], input)
      | Some b \<Rightarrow>
          if sz = 0 then Some (-1, Some b, [], input)
          else do { b \<leftarrow> secure_clear_buffer sz b;
                    (r, b, out, input) \<leftarrow> input_loop sz is_password 0 b input;
                    Some (r, Some b, out, input) })"

text \<open>Whether the result is the buffer, and not \<open>NULL\<close>.\<close>

definition login_get_username ::
    "u8 list option \<Rightarrow> nat \<Rightarrow> u8 list \<Rightarrow> (bool \<times> u8 list option \<times> vga_op list \<times> u8 list) option" where
  "login_get_username buffer sz input =
     (if buffer = None \<or> sz = 0 then Some (False, buffer, [], input)
      else
        do { msg \<leftarrow> printf (bytes ''login: '') [];
             (r, buffer, out, input) \<leftarrow> get_input_secure buffer sz False input;
             b \<leftarrow> buffer;
             let out = shown msg @ VCursorOn # out in
             if r \<noteq> 0 then do { b \<leftarrow> secure_clear_buffer sz b; Some (False, Some b, out, input) }
             else do { len \<leftarrow> strlen b 0; Some (len \<noteq> 0, Some b, out, input) } })"

definition login_get_password ::
    "u8 list option \<Rightarrow> nat \<Rightarrow> u8 list \<Rightarrow> (bool \<times> u8 list option \<times> vga_op list \<times> u8 list) option" where
  "login_get_password buffer sz input =
     (if buffer = None \<or> sz = 0 then Some (False, buffer, [], input)
      else
        do { msg \<leftarrow> printf (bytes ''password: '') [];
             (r, buffer, out, input) \<leftarrow> get_input_secure buffer sz True input;
             b \<leftarrow> buffer;
             let out = shown msg @ VCursorOff # out @ [VCursorOn, VPutchar 10] in
             if r \<noteq> 0 then do { b \<leftarrow> secure_clear_buffer sz b; Some (False, Some b, out, input) }
             else Some (True, Some b, out, input) })"

section \<open>Authentication\<close>

text \<open>
  The loop of \<open>login_authenticate\<close> on the two buffers: whether it was left with \<open>auth_success\<close>.
  The delay is long, but it ends; it shows nothing.
\<close>

function auth_loop ::
    "nat \<Rightarrow> u8 list \<Rightarrow> u8 list \<Rightarrow> u8 list \<Rightarrow> (bool \<times> u8 list \<times> u8 list \<times> vga_op list \<times> u8 list) option" where
  "auth_loop attempts username password input =
     (if attempts \<ge> MAX_LOGIN_ATTEMPTS then Some (False, username, password, [], input)
      else
        do { username \<leftarrow> secure_clear_buffer USERNAME_MAX_LEN username;
             password \<leftarrow> secure_clear_buffer PASSWORD_MAX_LEN password;
             (ok, u, out1, input) \<leftarrow> login_get_username (Some username) USERNAME_MAX_LEN input;
             username \<leftarrow> u;
             if \<not> ok then
               do { msg \<leftarrow> printf (bytes ''Invalid username input'' @ [10]) [];
                    (ok, u, p, out, input) \<leftarrow> auth_loop (attempts + 1) username password input;
                    Some (ok, u, p, out1 @ shown msg @ out, input) }
             else
               do { (ok, p, out2, input) \<leftarrow> login_get_password (Some password) PASSWORD_MAX_LEN input;
                    password \<leftarrow> p;
                    if \<not> ok then
                      do { msg \<leftarrow> printf (bytes ''Invalid password input'' @ [10]) [];
                           (ok, u, p, out, input) \<leftarrow> auth_loop (attempts + 1) username password input;
                           Some (ok, u, p, out1 @ out2 @ shown msg @ out, input) }
                    else
                      do { cu \<leftarrow> strcmp (username @ USERNAME @ [0]) 0 USERNAME_MAX_LEN;
                           cp \<leftarrow> strcmp (password @ PASSWORD @ [0]) 0 PASSWORD_MAX_LEN;
                           if cu = 0 \<and> cp = 0 then Some (True, username, password, out1 @ out2, input)
                           else
                             do { msg \<leftarrow> (if attempts + 1 < MAX_LOGIN_ATTEMPTS
                                         then do { msg \<leftarrow> printf (bytes ''Login incorrect'' @ [10]) [];
                                                   _ \<leftarrow> delay INPUT_TIMEOUT_MS; Some msg }
                                         else Some []);
                                  (ok, u, p, out, input) \<leftarrow> auth_loop (attempts + 1) username password input;
                                  Some (ok, u, p, out1 @ out2 @ shown msg @ out, input) } } } })"
  by pat_completeness auto
termination by (relation "measure (\<lambda>(attempts, _). MAX_LOGIN_ATTEMPTS - attempts)") auto

declare auth_loop.simps [simp del]

text \<open>The contents of the two arrays before they are cleared are arguments.\<close>

definition login_authenticate ::
    "u8 list \<Rightarrow> u8 list \<Rightarrow> u8 list \<Rightarrow> (bool \<times> u8 list \<times> u8 list \<times> vga_op list \<times> u8 list) option" where
  "login_authenticate username password input =
     do { (ok, username, password, out, input) \<leftarrow> auth_loop 0 username password input;
          username \<leftarrow> secure_clear_buffer USERNAME_MAX_LEN username;
          password \<leftarrow> secure_clear_buffer PASSWORD_MAX_LEN password;
          Some (ok, username, password, out, input) }"

text \<open>
  What has been shown when \<open>login_prompt\<close> returns or halts the machine, and the input left
  if it returns.
\<close>

definition login_prompt :: "u8 list \<Rightarrow> u8 list \<Rightarrow> u8 list \<Rightarrow> (vga_op list \<times> u8 list option) option" where
  "login_prompt username password input =
     do { (ok, _, _, out, input) \<leftarrow> login_authenticate username password input;
          if \<not> ok then
            do { m1 \<leftarrow> printf (bytes ''Maximum login attempts reached.'' @ [10]) [];
                 m2 \<leftarrow> printf (bytes ''System access denied.'' @ [10]) [];
                 m3 \<leftarrow> printf (bytes ''System halted. Please restart.'' @ [10]) [];
                 Some (out @ shown m1 @ shown m2 @ VCursorOff # shown m3, None) }
          else
            do { m \<leftarrow> printf (bytes ''Login successful. Welcome!'' @ [10]) [];
                 Some (out @ shown m, Some input) } }"

section \<open>What is typed\<close>

text \<open>The line that the keys give, with backspaces obeyed; \<open>None\<close> when it is cancelled.\<close>

fun typed :: "nat \<Rightarrow> u8 list \<Rightarrow> u8 list \<Rightarrow> (u8 list option \<times> u8 list) option" where
  "typed room line [] = None"
| "typed room line (c # input) =
     (if c = 10 \<or> c = 13 then Some (Some line, input)
      else if c = 8 \<or> c = 127 then typed room (butlast line) input
      else if c = 3 \<or> c = 27 then Some (None, input)
      else if length line < room \<and> 32 \<le> c \<and> c \<le> 126 then typed room (line @ [c]) input
      else typed room line input)"

text \<open>At most so many attempts: whether one has both names right, and the input left.\<close>

fun attempts_ok :: "nat \<Rightarrow> u8 list \<Rightarrow> (bool \<times> u8 list) option" where
  "attempts_ok 0 input = Some (False, input)"
| "attempts_ok (Suc n) input =
     do { (u, input) \<leftarrow> typed 31 [] input;
          if u = None \<or> u = Some [] then attempts_ok n input
          else do { (p, input) \<leftarrow> typed 31 [] input;
                    if u = Some USERNAME \<and> p = Some PASSWORD then Some (True, input)
                    else attempts_ok n input } }"

section \<open>Lemmas\<close>

lemma secure_clear_buffer:
  assumes "length b = n"
  shows "secure_clear_buffer n b = Some (replicate n 0)"
proof -
  have "for_each (\<lambda>i b. wr b i 0) [0..<n] b = Some (update_range 0 n (\<lambda>_ _. 0) b)"
    using assms by (intro for_each_update_range) (simp_all add: wr_in)
  moreover have "update_range 0 n (\<lambda>_ _. 0) b = replicate n 0"
    using assms by (intro nth_equalityI) (simp_all add: nth_update_range)
  ultimately show ?thesis by (simp add: secure_clear_buffer_def)
qed

lemma bind_Some_map: "x \<bind> (\<lambda>y. Some (h y)) = map_option h x"
  by (cases x) simp_all

definition padded :: "u8 list \<Rightarrow> u8 list" where "padded line = line @ replicate (32 - length line) 0"

lemma length_padded: "length line \<le> 31 \<Longrightarrow> length (padded line) = 32"
  by (simp add: padded_def)

lemma padded_snoc:
  assumes "length line < 31"
  shows "wr (padded line) (length line) c = Some (padded (line @ [c]))"
proof -
  have "32 - length line = Suc (31 - length line)" using assms by simp
  then show ?thesis using assms by (simp add: wr_def padded_def list_update_append)
qed

lemma padded_butlast:
  assumes "line \<noteq> []" "length line \<le> 31"
  shows "wr (padded line) (length line - 1) 0 = Some (padded (butlast line))"
proof -
  obtain xs x where line: "line = xs @ [x]" using assms(1) by (metis append_butlast_last_id)
  then have "32 - length xs = Suc (31 - length xs)" using assms(2) by simp
  with line assms(2) show ?thesis by (simp add: wr_def padded_def list_update_append)
qed

lemma padded_end: "length line \<le> 31 \<Longrightarrow> wr (padded line) (length line) 0 = Some (padded line)"
proof -
  assume "length line \<le> 31"
  then have "32 - length line = Suc (31 - length line)" by simp
  with \<open>length line \<le> 31\<close> show ?thesis by (simp add: wr_def padded_def list_update_append)
qed

text \<open>The loop refines \<open>typed\<close>.\<close>

lemma input_loop_typed:
  assumes "length line \<le> 31"
  shows "map_option (\<lambda>(r, b, out, input). (r, b, input)) (input_loop 32 is_password (length line) (padded line) input) =
    map_option (\<lambda>(l, input). (if l = None then -2 else 0, case l of None \<Rightarrow> replicate 32 0 | Some l \<Rightarrow> padded l, input))
      (typed 31 line input)"
  using assms
proof (induction input arbitrary: line)
  case Nil
  then show ?case by simp
next
  case (Cons c input)
  consider "c = 10 \<or> c = 13" | "c = 8 \<or> c = 127" "line = []" | "c = 8 \<or> c = 127" "line \<noteq> []"
    | "c = 3 \<or> c = 27" | "c \<notin> {3, 8, 10, 13, 27, 127}" "length line < 31" "32 \<le> c" "c \<le> 126"
    | "c \<notin> {3, 8, 10, 13, 27, 127}" "\<not> (length line < 31 \<and> 32 \<le> c \<and> c \<le> 126)"
    by blast
  then show ?case
  proof cases
    case 1
    then show ?thesis using Cons.prems by (auto simp: padded_end)
  next
    case 2
    then show ?thesis using Cons.IH [of "[]"] by (auto simp del: input_loop.simps(1))
  next
    case 3
    have "length (butlast line) \<le> 31" using Cons.prems by simp
    from Cons.IH [OF this] 3 padded_butlast [OF 3(2) Cons.prems] show ?thesis
      by (auto simp: option.map_comp comp_def map_option_bind case_prod_unfold bind_Some_map)
  next
    case 4
    then show ?thesis using Cons.prems
      by (auto simp: secure_clear_buffer length_padded)
  next
    case 5
    have "length (line @ [c]) \<le> 31" using 5 by simp
    from Cons.IH [OF this] 5 padded_snoc [OF 5(2)] show ?thesis
      by (auto simp: is_valid_input_char_def option.map_comp comp_def case_prod_unfold map_option_bind bind_Some_map)
  next
    case 6
    then show ?thesis using Cons.IH [OF Cons.prems] by (auto simp: is_valid_input_char_def)
  qed
qed

lemma typed_line:
  assumes "typed room line input = Some (Some l, rest)" "length line \<le> room" "0 \<notin> set line"
  shows "length l \<le> room \<and> 0 \<notin> set l"
  using assms
proof (induction input arbitrary: line)
  case Nil
  then show ?case by simp
next
  case (Cons c input)
  have "length (butlast line) \<le> room" "0 \<notin> set (butlast line)"
    using Cons.prems by (auto dest: in_set_butlastD)
  moreover have "c \<noteq> 0" if "32 \<le> c" using that by auto
  ultimately show ?case
    using Cons.prems Cons.IH [of "butlast line"] Cons.IH [of "line @ [c]"] Cons.IH [of line]
    by (auto split: if_splits)
qed

text \<open>What is in the buffer when the line has been read.\<close>

definition buffer_of :: "u8 list option \<Rightarrow> u8 list" where
  "buffer_of l = (case l of None \<Rightarrow> replicate 32 0 | Some l \<Rightarrow> padded l)"

lemma padded_Nil: "padded [] = replicate 32 0"
  by (simp add: padded_def)

lemma get_input_typed:
  assumes "length b = 32"
  shows "map_option (\<lambda>(r, b, out, input). (r, b, input)) (get_input_secure (Some b) 32 is_password input) =
    map_option (\<lambda>(l, input). (if l = None then -2 else 0, Some (buffer_of l), input)) (typed 31 [] input)"
  using input_loop_typed [of "[]" is_password input] assms
  by (cases "typed 31 [] input"; cases "input_loop 32 is_password 0 (replicate 32 0) input")
    (auto simp: get_input_secure_def secure_clear_buffer padded_Nil buffer_of_def)

lemma padded_cstr:
  assumes "length l \<le> 31" "0 \<notin> set l"
  shows "cstr (padded l @ t) 0 l" and "length b = 32 \<Longrightarrow> 0 \<notin> set s \<Longrightarrow> cstr (b @ s @ [0]) 32 s"
  using assms by (auto simp: cstr_def padded_def nth_append)

lemma buffer_length: "typed 31 [] input = Some (l, rest) \<Longrightarrow> length (buffer_of l) = 32"
  by (cases l) (auto simp: buffer_of_def length_padded dest!: typed_line)

lemma prompt_texts:
  "printf (bytes ''login: '') [] = Some (bytes ''login: '')"
  "printf (bytes ''password: '') [] = Some (bytes ''password: '')"
  "printf (bytes ''Invalid username input'' @ [10]) [] = Some (bytes ''Invalid username input'' @ [10])"
  "printf (bytes ''Invalid password input'' @ [10]) [] = Some (bytes ''Invalid password input'' @ [10])"
  "printf (bytes ''Login incorrect'' @ [10]) [] = Some (bytes ''Login incorrect'' @ [10])"
  "printf (bytes ''Maximum login attempts reached.'' @ [10]) [] = Some (bytes ''Maximum login attempts reached.'' @ [10])"
  "printf (bytes ''System access denied.'' @ [10]) [] = Some (bytes ''System access denied.'' @ [10])"
  "printf (bytes ''System halted. Please restart.'' @ [10]) [] = Some (bytes ''System halted. Please restart.'' @ [10])"
  "printf (bytes ''Login successful. Welcome!'' @ [10]) [] = Some (bytes ''Login successful. Welcome!'' @ [10])"
  by (rule printf_plain, code_simp)+

lemma username_typed:
  assumes "length b = 32"
  shows "map_option (\<lambda>(ok, b, out, input). (ok, b, input)) (login_get_username (Some b) 32 input) =
    map_option (\<lambda>(l, input). (l \<noteq> None \<and> l \<noteq> Some [], Some (buffer_of l), input)) (typed 31 [] input)"
proof (cases "typed 31 [] input")
  case None
  with get_input_typed [OF assms, of False input] show ?thesis
    by (simp add: login_get_username_def prompt_texts)
next
  case (Some t)
  obtain l rest where t: "typed 31 [] input = Some (l, rest)" using Some by (cases t) auto
  with get_input_typed [OF assms, of False input] obtain out where
    g: "get_input_secure (Some b) 32 False input = Some (if l = None then -2 else 0, Some (buffer_of l), out, rest)"
    by auto
  show ?thesis
  proof (cases l)
    case None
    with t g show ?thesis
      by (simp add: login_get_username_def prompt_texts secure_clear_buffer buffer_of_def)
  next
    case (Some line)
    with t have "length line \<le> 31" "0 \<notin> set line" using typed_line [of 31 "[]"] by auto
    then have "strlen (padded line) 0 = Some (length line)"
      using padded_cstr(1) [of line "[]"] by (simp add: strlen_cstr)
    with t g Some show ?thesis
      by (simp add: login_get_username_def prompt_texts buffer_of_def)
  qed
qed

lemma password_typed:
  assumes "length b = 32"
  shows "map_option (\<lambda>(ok, b, out, input). (ok, b, input)) (login_get_password (Some b) 32 input) =
    map_option (\<lambda>(l, input). (l \<noteq> None, Some (buffer_of l), input)) (typed 31 [] input)"
  using get_input_typed [OF assms, of True input]
  by (cases "typed 31 [] input"; cases "get_input_secure (Some b) 32 True input")
    (auto simp: login_get_password_def prompt_texts secure_clear_buffer buffer_of_def split: if_splits)

lemma strcmp_buffer:
  assumes "typed 31 [] input = Some (Some l, rest)" "0 \<notin> set s"
  shows "\<exists>r. strcmp (buffer_of (Some l) @ s @ [0]) 0 32 = Some r \<and> (r = 0 \<longleftrightarrow> l = s)"
proof -
  have l: "length l \<le> 31" "0 \<notin> set l" using typed_line [OF assms(1)] by simp_all
  then show ?thesis
    using strcmp_eq [OF padded_cstr(1) [OF l, of "s @ [0]"] padded_cstr(2) [OF l _ assms(2), of "padded l"]]
    by (simp add: length_padded buffer_of_def)
qed

lemma delay_ends: "\<exists>i. delay INPUT_TIMEOUT_MS = Some i"
  using delay_returns [of INPUT_TIMEOUT_MS] by auto

lemma names_zero: "0 \<notin> set USERNAME" "0 \<notin> set PASSWORD"
  by code_simp+

text \<open>The loop of \<open>login_authenticate\<close> refines \<open>attempts_ok\<close>.\<close>

lemma auth_loop_refines:
  assumes "n \<le> 3" "length u = 32" "length p = 32"
  shows "case attempts_ok n input of
      None \<Rightarrow> auth_loop (3 - n) u p input = None
    | Some (ok, rest) \<Rightarrow> \<exists>u' p' out. auth_loop (3 - n) u p input = Some (ok, u', p', out, rest) \<and>
        length u' = 32 \<and> length p' = 32"
  using assms
proof (induction n arbitrary: u p input)
  case 0
  then show ?case by (simp add: auth_loop.simps)
next
  case (Suc n)
  define k where "k = 3 - Suc n"
  have n: "\<not> 3 \<le> k" "k + 1 = 3 - n" "Suc k = 3 - n" "n \<le> 3" using Suc.prems(1) by (simp_all add: k_def)
  note clear = secure_clear_buffer [OF Suc.prems(2)] secure_clear_buffer [OF Suc.prems(3)]
  note step = auth_loop.simps [of k u p input]
  have "case attempts_ok (Suc n) input of
      None \<Rightarrow> auth_loop k u p input = None
    | Some (ok, rest) \<Rightarrow> \<exists>u' p' out. auth_loop k u p input = Some (ok, u', p', out, rest) \<and>
        length u' = 32 \<and> length p' = 32"
  proof (cases "typed 31 [] input")
    case None
    with username_typed [of "replicate 32 0" input] have "login_get_username (Some (replicate 32 0)) 32 input = None"
      by simp
    with None show ?thesis by (simp add: step n clear)
  next
    case (Some t)
    then obtain l i1 where t: "typed 31 [] input = Some (l, i1)" by (cases t) auto
    with username_typed [of "replicate 32 0" input] obtain out1 where
      g: "login_get_username (Some (replicate 32 0)) 32 input =
        Some (l \<noteq> None \<and> l \<noteq> Some [], Some (buffer_of l), out1, i1)" by auto
    have lb: "length (buffer_of l) = 32" using t by (rule buffer_length)
    show ?thesis
    proof (cases "l = None \<or> l = Some []")
      case True
      with t Suc.IH [OF n(4) lb, of "replicate 32 0" i1] show ?thesis
        by (auto simp: step n clear g prompt_texts split: option.splits)
    next
      case False
      then obtain name where l: "l = Some name" "name \<noteq> []" by auto
      show ?thesis
      proof (cases "typed 31 [] i1")
        case None
        with password_typed [of "replicate 32 0" i1] have "login_get_password (Some (replicate 32 0)) 32 i1 = None"
          by simp
        with None t l show ?thesis by (simp add: step n clear g)
      next
        case (Some t2)
        then obtain l2 i2 where t2: "typed 31 [] i1 = Some (l2, i2)" by (cases t2) auto
        with password_typed [of "replicate 32 0" i1] obtain out2 where
          g2: "login_get_password (Some (replicate 32 0)) 32 i1 =
            Some (l2 \<noteq> None, Some (buffer_of l2), out2, i2)" by auto
        have lb2: "length (buffer_of l2) = 32" using t2 by (rule buffer_length)
        note IH = Suc.IH [OF n(4) lb lb2, of i2]
        show ?thesis
        proof (cases l2)
          case None
          with t t2 l IH show ?thesis
            by (auto simp: step n clear g g2 prompt_texts split: option.splits)
        next
          case (Some word)
          obtain r1 where r1: "strcmp (buffer_of (Some name) @ USERNAME @ [0]) 0 32 = Some r1" "r1 = 0 \<longleftrightarrow> name = USERNAME"
            using strcmp_buffer [OF t [unfolded l] names_zero(1)] by blast
          obtain r2 where r2: "strcmp (buffer_of (Some word) @ PASSWORD @ [0]) 0 32 = Some r2" "r2 = 0 \<longleftrightarrow> word = PASSWORD"
            using strcmp_buffer [OF t2 [unfolded Some] names_zero(2)] by blast
          obtain d where d: "delay INPUT_TIMEOUT_MS = Some d" using delay_ends by blast
          show ?thesis
          proof (cases "name = USERNAME \<and> word = PASSWORD")
            case True
            with t t2 l Some r1 r2 g g2 lb lb2 show ?thesis by (simp add: step n clear)
          next
            case False
            then have "\<not> (r1 = 0 \<and> r2 = 0)" using r1 r2 by simp
            with False t t2 l Some r1(1) r2(1) d IH show ?thesis
              by (cases "3 - n < 3") (auto simp: step n clear g g2 prompt_texts split: option.splits)
          qed
        qed
      qed
    qed
  qed
  then show ?case unfolding k_def .
qed

section \<open>Keys that look alike\<close>

text \<open>Keys that do the same on the screen when a password is typed.\<close>

definition masked :: "u8 \<Rightarrow> u8 \<Rightarrow> bool" where
  "masked c d \<longleftrightarrow> c = d \<or> (32 \<le> c \<and> c \<le> 126) \<and> (32 \<le> d \<and> d \<le> 126)"

lemma masked_cases:
  assumes "masked c d"
  shows "c = d \<or> c \<notin> {3, 8, 10, 13, 27, 127} \<and> d \<notin> {3, 8, 10, 13, 27, 127} \<and>
    is_valid_input_char c \<and> is_valid_input_char d"
  using assms by (auto simp: masked_def is_valid_input_char_def)

lemma secure_clear_same:
  assumes "length b = length b'"
  shows "rel_option (\<lambda>b b'. length b = length b') (secure_clear_buffer sz b) (secure_clear_buffer sz b')"
proof -
  have "rel_option (\<lambda>b b'. length b = length b') (for_each (\<lambda>i b. wr b i 0) js b) (for_each (\<lambda>i b. wr b i 0) js b')"
    for js
    using assms by (induction js arbitrary: b b') (auto simp: wr_def)
  then show ?thesis by (simp add: secure_clear_buffer_def)
qed

lemma input_loop_masked:
  assumes "list_all2 masked input input'" "length b = length b'"
  shows "rel_option (\<lambda>(r, b, out, rest) (r', b', out', rest').
      r = r' \<and> out = out' \<and> length b = length b' \<and> list_all2 masked rest rest')
    (input_loop sz True pos b input) (input_loop sz True pos b' input')"
  using assms
proof (induction input input' arbitrary: pos b b' rule: list_all2_induct)
  case Nil
  then show ?case by simp
next
  case (Cons c input d input')
  note clear = secure_clear_same [OF Cons.prems, of sz]
  have step: "rel_option (\<lambda>(r, b, out, rest) (r', b', out', rest').
      r = r' \<and> out = out' \<and> length b = length b' \<and> list_all2 masked rest rest')
    (do { b \<leftarrow> wr b i x; (r, b, out, rest) \<leftarrow> input_loop sz True j b input; Some (r, b, f out, rest) })
    (do { b' \<leftarrow> wr b' i y; (r, b', out, rest) \<leftarrow> input_loop sz True j b' input'; Some (r, b', f out, rest) })"
    for i j x y f
    using Cons.IH [of "b[i := x]" "b'[i := y]" j] Cons.prems
    by (cases "input_loop sz True j (b[i := x]) input"; cases "input_loop sz True j (b'[i := y]) input'")
      (auto simp: wr_def)
  consider "c = d" "c = 10 \<or> c = 13" | "c = d" "c = 8 \<or> c = 127" | "c = d" "c = 3 \<or> c = 27"
    | "c = d" "c \<notin> {3, 8, 10, 13, 27, 127}"
    | "c \<notin> {3, 8, 10, 13, 27, 127}" "d \<notin> {3, 8, 10, 13, 27, 127}" "is_valid_input_char c" "is_valid_input_char d"
    using masked_cases [OF Cons.hyps(1)] by blast
  then show ?case
  proof cases
    case 1
    with Cons.hyps(2) Cons.prems show ?thesis by (auto simp: wr_def)
  next
    case 2
    with step Cons.IH [OF Cons.prems] show ?thesis by auto
  next
    case 3
    from clear show ?thesis
      using 3 Cons.hyps(2) by (cases "secure_clear_buffer sz b"; cases "secure_clear_buffer sz b'") auto
  next
    case 4
    with step Cons.IH [OF Cons.prems] show ?thesis by auto
  next
    case 5
    with step Cons.IH [OF Cons.prems] show ?thesis by auto
  qed
qed

lemma login_prompt_result:
  assumes "length username = 32" "length password = 32"
  shows "map_option snd (login_prompt username password input) =
    map_option (\<lambda>(ok, rest). if ok then Some rest else None) (attempts_ok 3 input)"
proof (cases "attempts_ok 3 input")
  case None
  with auth_loop_refines [of 3, OF order_refl assms, of input] have "auth_loop 0 username password input = None"
    by simp
  with None show ?thesis by (simp add: login_prompt_def login_authenticate_def)
next
  case (Some r)
  obtain ok rest where r: "r = (ok, rest)" by (cases r)
  with Some auth_loop_refines [of 3, OF order_refl assms, of input] obtain u p out where
    "auth_loop 0 username password input = Some (ok, u, p, out, rest)" "length u = 32" "length p = 32"
    by auto
  with Some r show ?thesis
    by (cases ok) (simp_all add: login_prompt_def login_authenticate_def secure_clear_buffer prompt_texts)
qed

lemma login_buffers_cleared:
  assumes "length username = 32" "length password = 32"
    and "login_authenticate username password input = Some (ok, u, p, out, rest)"
  shows "u = replicate 32 0 \<and> p = replicate 32 0"
proof -
  obtain u' p' out' where loop: "auth_loop 0 username password input = Some (ok, u', p', out', rest)"
    using assms(3) by (auto simp: login_authenticate_def split: bind_splits)
  then have "length u' = 32" "length p' = 32"
    using auth_loop_refines [of 3, OF order_refl assms(1,2), of input] by (auto split: option.splits)
  with loop assms(3) show ?thesis by (auto simp: login_authenticate_def secure_clear_buffer)
qed

text \<open>Everything that is shown can be shown on every screen.\<close>

definition showable :: "vga_op list \<Rightarrow> bool" where "showable ops \<longleftrightarrow> (\<forall>x \<in> set ops. vga_op_ok x)"

lemma showable_simps [simp]:
  "showable []" "showable (xs @ ys) \<longleftrightarrow> showable xs \<and> showable ys" "showable (x # xs) \<longleftrightarrow> vga_op_ok x \<and> showable xs"
  "showable (shown msg)"
  by (auto simp: showable_def shown_def)

lemma input_loop_showable: "input_loop sz b pos buffer input = Some (r, buffer', out, rest) \<Longrightarrow> showable out"
  by (induction sz b pos buffer input arbitrary: r buffer' out rest rule: input_loop.induct)
    (auto split: if_splits bind_splits)

lemma get_input_showable: "get_input_secure buffer sz b input = Some (r, buffer', out, rest) \<Longrightarrow> showable out"
  by (auto simp: get_input_secure_def split: option.splits if_splits bind_splits dest: input_loop_showable)

lemma username_showable:
  assumes "login_get_username buffer sz input = Some (ok, buffer', out, rest)"
  shows "showable out"
proof (cases "buffer = None \<or> sz = 0")
  case True
  with assms show ?thesis by (auto simp: login_get_username_def)
next
  case False
  with assms obtain msg r b o1 where "get_input_secure buffer sz False input = Some (r, Some b, o1, rest)"
    "out = shown msg @ VCursorOn # o1"
    by (auto simp: login_get_username_def Let_def split: if_splits bind_splits)
  with get_input_showable show ?thesis by simp
qed

lemma password_showable:
  assumes "login_get_password buffer sz input = Some (ok, buffer', out, rest)"
  shows "showable out"
proof (cases "buffer = None \<or> sz = 0")
  case True
  with assms show ?thesis by (auto simp: login_get_password_def)
next
  case False
  with assms obtain msg r b o1 where "get_input_secure buffer sz True input = Some (r, Some b, o1, rest)"
    "out = shown msg @ VCursorOff # o1 @ [VCursorOn, VPutchar 10]"
    by (auto simp: login_get_password_def Let_def split: if_splits bind_splits)
  with get_input_showable show ?thesis by simp
qed

lemma auth_loop_showable: "auth_loop n u p input = Some (ok, u', p', out, rest) \<Longrightarrow> showable out"
proof (induction "3 - n" arbitrary: n u p input ok u' p' out rest)
  case 0
  then show ?case by (subst (asm) auth_loop.simps) simp
next
  case (Suc k)
  have IH: "auth_loop (n + 1) u p input = Some (ok, u', p', out, rest) \<Longrightarrow> showable out" for u p input ok u' p' out rest
    by (rule Suc.hyps(1) [of "n + 1"]) (use Suc.hyps(2) in arith)
  have n: "\<not> 3 \<le> n" using Suc.hyps(2) by simp
  from Suc.prems obtain u0 p0 ok1 u1 o1 i1 where
    1: "login_get_username (Some u0) USERNAME_MAX_LEN input = Some (ok1, u1, o1, i1)"
    and r: "(\<exists>msg x i2 o2 u2 p2 ok2. auth_loop (n + 1) u2 p2 x = Some (ok2, u', p', o2, rest) \<and> out = o1 @ shown msg @ o2) \<or>
      (\<exists>p3 ok3 o3 i3. login_get_password (Some p0) PASSWORD_MAX_LEN i1 = Some (ok3, p3, o3, i3) \<and>
        (out = o1 @ o3 \<or> (\<exists>msg x o2 u2 p2 ok2. auth_loop (n + 1) u2 p2 x = Some (ok2, u', p', o2, rest) \<and> out = o1 @ o3 @ shown msg @ o2)))"
    by (subst (asm) auth_loop.simps) (simp only: n if_False, fastforce split: if_splits bind_splits)
  from r show ?case using username_showable [OF 1] password_showable IH by fastforce
qed

lemma login_showable:
  assumes "login_prompt username password input = Some (out, r)"
  shows "showable out"
proof -
  from assms obtain ok u p o1 rest where l: "auth_loop 0 username password input = Some (ok, u, p, o1, rest)"
    "\<exists>m1 m2 m3. out = o1 @ shown m1 @ shown m2 @ VCursorOff # shown m3 \<or> out = o1 @ shown m1"
    by (fastforce simp: login_prompt_def login_authenticate_def split: if_splits bind_splits)
  with auth_loop_showable [OF l(1)] show ?thesis by auto
qed

section \<open>Properties\<close>

text \<open>C25.  The prompt lets a user in exactly if one of the first three attempts gives both names
  right, each within 31 characters after backspaces: \<open>login_prompt\<close> returns, with just the keys
  behind that attempt left, if and only if \<open>attempts_ok\<close> says so, and it halts the machine if all
  three fail.  Nothing of the user name or the password is left in the two buffers.\<close>

theorem login_admits:
  assumes "length username = 32" "length password = 32"
  shows "map_option snd (login_prompt username password input) =
      map_option (\<lambda>(ok, rest). if ok then Some rest else None) (attempts_ok 3 input) \<and>
    (\<forall>ok u p out rest. login_authenticate username password input = Some (ok, u, p, out, rest) \<longrightarrow>
      u = replicate 32 0 \<and> p = replicate 32 0)"
  using login_prompt_result [OF assms] login_buffers_cleared [OF assms] by blast

definition some_keys :: "u8 list" where
  "some_keys = bytes ''rot'' @ [8] @ bytes ''ot'' @ [10] @ bytes ''welcome'' @ [10] @ bytes ''ls''"

lemma login_admits_witness:
  "map_option snd (login_prompt (replicate 32 1) (replicate 32 2) some_keys) = Some (Some (bytes ''ls''))"
proof -
  have "attempts_ok 3 some_keys = Some (True, bytes ''ls'')" by code_simp
  with login_admits [of "replicate 32 1" "replicate 32 2" some_keys] show ?thesis by simp
qed

text \<open>C26.  The screen does not tell one password from another: two sequences of keys that differ only
  in which printable characters were pressed give the same screen, the same answer, and are
  read up to the same key.\<close>

theorem password_hidden:
  assumes "list_all2 masked input input'" "length b = n" "length b' = n"
  shows "map_option (\<lambda>(ok, _, out, rest). (ok, out, length rest)) (login_get_password (Some b) n input) =
    map_option (\<lambda>(ok, _, out, rest). (ok, out, length rest)) (login_get_password (Some b') n input')"
proof -
  have "rel_option (\<lambda>(r, b, out, rest) (r', b', out', rest').
      r = r' \<and> out = out' \<and> length b = length b' \<and> list_all2 masked rest rest')
    (input_loop n True 0 (replicate n 0) input) (input_loop n True 0 (replicate n 0) input')"
    using assms(1) by (rule input_loop_masked) simp
  note loop = this
  have len: "length input = length input'" using assms(1) by (rule list_all2_lengthD)
  show ?thesis
  proof (cases "input_loop n True 0 (replicate n 0) input")
    case None
    with loop have "input_loop n True 0 (replicate n 0) input' = None" by simp
    with None assms(2,3) len show ?thesis
      by (auto simp: login_get_password_def get_input_secure_def secure_clear_buffer prompt_texts)
  next
    case (Some r)
    obtain r1 a out rest where 1: "input_loop n True 0 (replicate n 0) input = Some (r1, a, out, rest)"
      using Some by (cases r) auto
    with loop obtain a' rest' where
      2: "input_loop n True 0 (replicate n 0) input' = Some (r1, a', out, rest')" "length a = length a'"
        "list_all2 masked rest rest'" by (auto simp: rel_option_iff split: option.splits)
    have "length rest = length rest'" using 2(3) by (rule list_all2_lengthD)
    with 1 2 secure_clear_same [OF 2(2), of n] assms(2,3) len show ?thesis
      by (cases "secure_clear_buffer n a"; cases "secure_clear_buffer n a'")
        (auto simp: login_get_password_def get_input_secure_def secure_clear_buffer prompt_texts Let_def)
  qed
qed

lemma password_hidden_witness:
  "map_option (\<lambda>(ok, _, out, rest). (ok, out, length rest))
      (login_get_password (Some (replicate 32 7)) 32 (bytes ''welcome'' @ [10])) =
    map_option (\<lambda>(ok, _, out, rest). (ok, out, length rest))
      (login_get_password (Some (replicate 32 9)) 32 (bytes ''secrets'' @ [10]))"
  by (rule password_hidden) code_simp+

end
