(* ===== verification/Fstools.thy ===== *)
theory Fstools
  imports Prelude Cstring Stdio Vga Fs Console
begin

text \<open>
  The file commands \<open>cat\<close>, \<open>cp\<close>, \<open>mv\<close>, \<open>rm\<close>, \<open>rmdir\<close>, \<open>mkdir\<close>, \<open>touch\<close>, \<open>cd\<close>, \<open>pwd\<close> and \<open>ls\<close> of \<open>bin/\<close>,
  clients of the file system.  A command gets its arguments, the name of the command first, and
  gives its exit status, the text it prints, and the file system; \<open>stderr\<close> is the screen as well.
  The heap and the clock answer as they like, at every call anew.
\<close>

record env =
  env_heap :: "fs \<Rightarrow> alloc"
  env_clock :: "fs \<Rightarrow> u64"

type_synonym result = "(int \<times> u8 list \<times> fs) option"

text \<open>A line of output; a backquote in the format stands for a single quote.\<close>

definition line :: "string \<Rightarrow> arg list \<Rightarrow> u8 list option" where
  "line format args = printf (map (\<lambda>c. if c = 96 then 39 else c) (bytes format) @ [10]) args"

definition name_arg :: "string \<Rightarrow> arg" where "name_arg nm = Str (Some (bytes nm))"
definition int_arg :: "int \<Rightarrow> arg" where "int_arg n = Num (word_of_int n)"

definition fail :: "int \<Rightarrow> string \<Rightarrow> arg list \<Rightarrow> fs \<Rightarrow> result" where
  "fail code format args s = do { msg \<leftarrow> line format args; Some (code, msg, s) }"

section \<open>cat and cp\<close>

text \<open>The loop of \<open>cat\<close>: what it prints and the last \<open>bytes_read\<close>.\<close>

partial_function (option) cat_loop :: "string \<Rightarrow> fs \<Rightarrow> (u8 list \<times> int \<times> fs) option" where
  "cat_loop filename s =
     do { (s, bs) \<leftarrow> fs_read (Some filename) True 1024 s;
          let bytes_read = int (length bs) in
          if bytes_read > 0
          then do { (out, bytes_read, s) \<leftarrow> cat_loop filename s; Some (concat (map putchar bs) @ out, bytes_read, s) }
          else Some ([], bytes_read, s) }"

definition cat_main :: "string list \<Rightarrow> fs \<Rightarrow> result" where
  "cat_main argv s =
     (if length argv < 2 then fail 1 ''Usage: cat <filename>'' [] s
      else
        let filename = argv ! 1; (s, rc) = fs_open (Some filename) s in
        if rc \<noteq> 0 then fail 1 ''Error opening file %s (code: %d)'' [name_arg filename, int_arg rc] s
        else
          do { (out, bytes_read, s) \<leftarrow> cat_loop filename s;
               (e1, retval) \<leftarrow> (if bytes_read < 0
                  then do { m \<leftarrow> line ''Error reading file %s (code: %zd)'' [name_arg filename, int_arg bytes_read]; Some (m, 1) }
                  else Some ([], 0));
               let (s, rc) = fs_close (Some filename) s in
               do { (e2, retval) \<leftarrow> (if rc \<noteq> 0
                      then do { m \<leftarrow> line ''Error closing file %s (code: %d)'' [name_arg filename, int_arg rc]; Some (m, 1) }
                      else Some ([], retval));
                    Some (retval, out @ e1 @ e2, s) } })"

text \<open>The copy loop: whether it got to the end of the file.\<close>

partial_function (option) cp_loop :: "env \<Rightarrow> string \<Rightarrow> string \<Rightarrow> fs \<Rightarrow> (bool \<times> fs) option" where
  "cp_loop env src dst s =
     do { (s, bs) \<leftarrow> fs_read (Some src) True 512 s;
          if length bs = 0 then Some (True, s)
          else do { (s, bytes_written) \<leftarrow>
                      fs_write (env_heap env s) (env_clock env s) (Some dst) (Some bs) (length bs) s;
                    if bytes_written \<noteq> length bs then Some (False, s) else cp_loop env src dst s } }"

definition close2 :: "string \<Rightarrow> string \<Rightarrow> fs \<Rightarrow> fs" where
  "close2 src dst s = fst (fs_close (Some dst) (fst (fs_close (Some src) s)))"

definition cp_main :: "env \<Rightarrow> string list \<Rightarrow> fs \<Rightarrow> result" where
  "cp_main env argv s =
     (if length argv \<noteq> 3 then fail 1 ''Usage: cp <source> <destination>'' [] s
      else
        let src = argv ! 1; dst = argv ! 2; (s, src_idx) = fs_open (Some src) s in
        if src_idx < 0 then fail 1 ''cp: cannot open source file `%s`'' [name_arg src] s
        else
          let (s, rc) = fs_create (env_heap env s) (env_clock env s) (Some dst) s in
          if rc < 0
          then fail 1 ''cp: cannot create destination file `%s`'' [name_arg dst] (fst (fs_close (Some src) s))
          else
            let (s, dst_idx) = fs_open (Some dst) s in
            if dst_idx < 0
            then fail 1 ''cp: cannot open destination file `%s`'' [name_arg dst] (fst (fs_close (Some src) s))
            else
              do { (eof, s) \<leftarrow> cp_loop env src dst s;
                   if eof then Some (0, [], close2 src dst s)
                   else fail 1 ''cp: write error to `%s`'' [name_arg dst] (close2 src dst s) })"

section \<open>mv, rm and rmdir\<close>

text \<open>The first slot below \<open>file_count\<close> with a name, in whatever directory.\<close>

definition slot_named :: "string \<Rightarrow> fs \<Rightarrow> nat option" where
  "slot_named nm s = find_first (\<lambda>i. f_name (fs_files s ! i) = nm) [0..<fs_count s]"

definition mv_main :: "string list \<Rightarrow> fs \<Rightarrow> result" where
  "mv_main argv s =
     (if length argv \<noteq> 3 then fail 1 ''Usage: mv <source> <destination>'' [] s
      else
        let source = argv ! 1; dest = argv ! 2 in
        if length dest \<ge> MAX_FILENAME_LEN then fail 5 ''Error: Destination filename too long'' [] s
        else
          case slot_named source s of
            None \<Rightarrow> fail 2 ''Error: Source file `%s` not found'' [name_arg source] s
          | Some i \<Rightarrow>
              if slot_named dest s \<noteq> None
              then fail 3 ''Error: Destination file `%s` already exists'' [name_arg dest] s
              else if f_is_open (fs_files s ! i)
              then fail 4 ''Error: Cannot move open file `%s`'' [name_arg source] s
              else
                do { msg \<leftarrow> line ''Moved `%s` to `%s`'' [name_arg source, name_arg dest];
                     Some (0, msg, set_file i ((fs_files s ! i)\<lparr>f_name := take (MAX_FILENAME_LEN - 1) dest\<rparr>) s) })"

text \<open>The loop of \<open>rm\<close> over the names, and what it makes of the result of \<open>fs_delete\<close>.\<close>

fun rm_loop :: "bool \<Rightarrow> string list \<Rightarrow> int \<Rightarrow> fs \<Rightarrow> result" where
  "rm_loop verbose [] exit_code s = Some (exit_code, [], s)"
| "rm_loop verbose (filename # names) exit_code s =
     (let (s, result) = fs_delete (Some filename) s in
      do { (msg, exit_code) \<leftarrow>
             (if result = 0 then
                (if verbose then do { m \<leftarrow> line ''removed `%s`'' [name_arg filename]; Some (m, exit_code) }
                 else Some ([], exit_code))
              else if result = -1 then
                do { m \<leftarrow> line ''rm: cannot remove `%s`: File is in use'' [name_arg filename]; Some (m, 2) }
              else if result = -2 then
                do { m \<leftarrow> line ''rm: cannot remove `%s`: No such file'' [name_arg filename];
                     Some (m, if exit_code = 0 then 3 else exit_code) }
              else do { m \<leftarrow> line ''rm: unknown error deleting `%s`'' [name_arg filename]; Some (m, 1) });
           (code, out, s) \<leftarrow> rm_loop verbose names exit_code s;
           Some (code, msg @ out, s) })"

definition rm_main :: "string list \<Rightarrow> fs \<Rightarrow> result" where
  "rm_main argv s =
     (if length argv < 2 then fail 1 ''Usage: rm <filename> [filename...]'' [] s
      else if argv ! 1 = ''-v'' then rm_loop True (drop 2 argv) 0 s
      else rm_loop False (drop 1 argv) 0 s)"

definition rmdir_main :: "string list \<Rightarrow> fs \<Rightarrow> result" where
  "rmdir_main argv s =
     (if length argv \<noteq> 2 then fail 1 ''Usage: rmdir <directory>'' [] s
      else
        let dirname = argv ! 1 in
        case find_first (\<lambda>i. f_parent (fs_files s ! i) = fs_cwd s \<and> f_name (fs_files s ! i) = dirname) [0..<fs_count s] of
          None \<Rightarrow> fail 5 ''rmdir: directory `%s` not found'' [name_arg dirname] s
        | Some i \<Rightarrow>
            let f = fs_files s ! i in
            if \<not> f_is_dir f then fail 2 ''rmdir: `%s` is not a directory'' [name_arg dirname] s
            else if find_first (\<lambda>j. f_parent (fs_files s ! j) = Some i) [0..<fs_count s] \<noteq> None
            then fail 3 ''rmdir: `%s` is not empty'' [name_arg dirname] s
            else if f_is_open f then fail 4 ''rmdir: `%s` is currently open'' [name_arg dirname] s
            else
              do { files \<leftarrow> for_each (\<lambda>k files. do { g \<leftarrow> rd files (k + 1); wr files k g }) [i..<fs_count s - 1] (fs_files s);
                   msg \<leftarrow> line ''Directory `%s` removed successfully.'' [name_arg dirname];
                   Some (0, msg, s\<lparr>fs_files := files, fs_count := fs_count s - 1\<rparr>) })"

section \<open>mkdir, touch\<close>

definition mkdir_main :: "env \<Rightarrow> string list \<Rightarrow> fs \<Rightarrow> result" where
  "mkdir_main env argv s =
     (if length argv \<noteq> 2 then fail 1 ''Usage: mkdir <dirname>'' [] s
      else
        let (s, result) = fs_mkdir (env_clock env s) (Some (argv ! 1)) s in
        if result = 0 then fail 0 ''Directory `%s` created successfully.'' [name_arg (argv ! 1)] s
        else if result = -1 then fail 2 ''Error: Filesystem full.'' [] s
        else if result = -2 then fail 3 ''Error: Directory name too long.'' [] s
        else if result = -3 then fail 4 ''Error: File or directory `%s` already exists.'' [name_arg (argv ! 1)] s
        else fail 5 ''Error: Unknown error creating directory.'' [] s)"

fun touch_loop :: "env \<Rightarrow> string list \<Rightarrow> int \<Rightarrow> fs \<Rightarrow> result" where
  "touch_loop env [] success_count s = Some (success_count, [], s)"
| "touch_loop env (filename # names) success_count s =
     (if slot_named filename s \<noteq> None then
        do { msg \<leftarrow> line ''`%s` already exists'' [name_arg filename];
             (n, out, s) \<leftarrow> touch_loop env names success_count s;
             Some (n, msg @ out, s) }
      else
        let (s, result) = fs_create (env_heap env s) (env_clock env s) (Some filename) s in
        do { msg \<leftarrow> (if result = 0 then line ''Created `%s`'' [name_arg filename]
                    else line ''Error creating `%s` (code %d)'' [name_arg filename, int_arg result]);
             (n, out, s) \<leftarrow> touch_loop env names (if result = 0 then wrap32 (success_count + 1) else success_count) s;
             Some (n, msg @ out, s) })"

definition touch_main :: "env \<Rightarrow> string list \<Rightarrow> fs \<Rightarrow> result" where
  "touch_main env argv s =
     (if length argv < 2 then fail 1 ''Usage: touch <filename> [filename2 ...]'' [] s
      else
        do { (success_count, out, s) \<leftarrow> touch_loop env (drop 1 argv) 0 s;
             msg \<leftarrow> (if success_count > 0 then line ''Successfully created %d file(s)'' [int_arg success_count]
                    else line ''No files were created'' []);
             Some (if success_count > 0 then 0 else 2, out @ msg, s) })"

section \<open>cd, pwd and ls\<close>

text \<open>
  The array \<open>cwd\<close> of \<open>bin/cd.c\<close> is a memory that begins with its 256 bytes; what lies behind
  them is there because \<open>strncpy\<close> writes to it.
\<close>

abbreviation PATH_MAX :: nat where "PATH_MAX \<equiv> 256"

text \<open>The loop up to the root: each name is put in front of the path in \<open>temp\<close>.\<close>

partial_function (option) cwd_loop :: "fs_file list \<Rightarrow> nat option \<Rightarrow> u8 list \<Rightarrow> u8 list option" where
  "cwd_loop files dir temp =
     (case dir of
        None \<Rightarrow> Some temp
      | Some d \<Rightarrow>
          case f_parent (files ! d) of
            None \<Rightarrow> Some temp
          | Some p \<Rightarrow>
              do { part \<leftarrow> vsnprintf PATH_MAX (bytes ''/%s'') [name_arg (f_name (files ! d))];
                   len \<leftarrow> strlen temp 0;
                   temp \<leftarrow> memmove (length part) 0 (len + 1) temp;
                   temp \<leftarrow> copy_into temp 0 part (length part);
                   cwd_loop files (Some p) temp })"

definition update_cwd :: "fs \<Rightarrow> u8 list \<Rightarrow> u8 list option" where
  "update_cwd s cwd =
     (case fs_cwd s of
        None \<Rightarrow> copy_into cwd 0 [47, 0] 2
      | Some d \<Rightarrow>
          do { temp \<leftarrow> cwd_loop (fs_files s) (Some d) (replicate PATH_MAX 0);
               len \<leftarrow> strlen temp 0;
               temp \<leftarrow> (if len = 0 then copy_into temp 0 [47, 0] 2 else Some temp);
               m \<leftarrow> strncpy 0 (length cwd) PATH_MAX (cwd @ temp);
               wr (take (length cwd) m) (PATH_MAX - 1) 0 })"

text \<open>The status, the text, the file system and \<open>cwd\<close>.\<close>

definition cd_main :: "string list \<Rightarrow> fs \<Rightarrow> u8 list \<Rightarrow> (int \<times> u8 list \<times> fs \<times> u8 list) option" where
  "cd_main argv s cwd =
     (if length argv \<noteq> 2 then do { msg \<leftarrow> line ''Usage: cd <directory>'' []; Some (1, msg, s, cwd) }
      else
        let target = argv ! 1 in
        if target = ''/'' then
          let s = s\<lparr>fs_cwd := None\<rparr> in do { cwd \<leftarrow> update_cwd s cwd; Some (0, [], s, cwd) }
        else if target = ''.'' then Some (0, [], s, cwd)
        else if target = ''..'' then
          let s = s\<lparr>fs_cwd := (case fs_cwd s of None \<Rightarrow> None | Some d \<Rightarrow> f_parent (fs_files s ! d))\<rparr> in
          do { cwd \<leftarrow> update_cwd s cwd; Some (0, [], s, cwd) }
        else
          case find_first (\<lambda>i. f_is_dir (fs_files s ! i) \<and> f_name (fs_files s ! i) = target \<and>
                 (fs_cwd s = None \<and> f_parent (fs_files s ! i) = None \<or>
                  fs_cwd s \<noteq> None \<and> f_parent (fs_files s ! i) = fs_cwd s)) [0..<fs_count s] of
            Some i \<Rightarrow>
              let s = s\<lparr>fs_cwd := Some i\<rparr> in do { cwd \<leftarrow> update_cwd s cwd; Some (0, [], s, cwd) }
          | None \<Rightarrow>
              do { msg \<leftarrow> line ''cd: no such directory: %s'' [name_arg target]; Some (2, msg, s, cwd) })"

text \<open>
  The loop that collects the directories, innermost first; \<open>walk_up\<close> is the same loop in
  \<open>fs_getcwd\<close>.  The directory behind the last one tells whether the stack was too small.
\<close>

fun walk_rest :: "fs_file list \<Rightarrow> nat \<Rightarrow> nat option \<Rightarrow> nat option" where
  "walk_rest files fuel None = None"
| "walk_rest files 0 (Some d) = Some d"
| "walk_rest files (Suc fuel) (Some d) = walk_rest files fuel (f_parent (files ! d))"

definition pwd_main :: "fs \<Rightarrow> result" where
  "pwd_main s =
     (if fs_cwd s = None then fail 0 ''/'' [] s
      else
        let stack = walk_up (fs_files s) 64 (fs_cwd s); dir = walk_rest (fs_files s) 64 (fs_cwd s) in
        if dir \<noteq> None \<and> length stack = 64 then fail 1 ''pwd: path too deep'' [] s
        else
          do { slash \<leftarrow> printf (bytes ''/'') [];
               parts \<leftarrow> those (map (\<lambda>d. let nm = f_name (fs_files s ! d) in
                           if nm = [] then Some [] else printf (bytes ''%s/'') [name_arg nm])
                         (rev (take (length stack - 1) stack)));
               back \<leftarrow> (if length stack > 1 then printf [8, 32, 8] [] else Some []);
               nl \<leftarrow> printf [10] [];
               Some (0, slash @ concat parts @ back @ nl, s) })"

definition ls_entry :: "fs_file \<Rightarrow> vga_op list option" where
  "ls_entry f =
     do { text \<leftarrow> printf (bytes ''%s%s '') [name_arg (f_name f), name_arg (if f_is_dir f then ''/'' else '''')];
          Some ((if f_is_dir f then VColor 9 0 else VColor 15 0) # shown text) }"

text \<open>What \<open>ls\<close> does to the screen; \<open>color\<close> is the answer of \<open>vga_get_color\<close>.\<close>

definition ls_main :: "u8 \<Rightarrow> fs \<Rightarrow> vga_op list option" where
  "ls_main color s =
     (if fs_count s = 0 then Some []
      else
        do { entries \<leftarrow> those (map (\<lambda>i. let f = fs_files s ! i in
                            if f_parent f = fs_cwd s then ls_entry f else Some []) [0..<fs_count s]);
             nl \<leftarrow> printf [10] [];
             Some (concat entries @ VColor (color AND 0x0F) (drop_bit 4 color AND 0x0F) # shown nl) })"

section \<open>Messages\<close>

abbreviation message_of :: "string \<Rightarrow> u8 list" where
  "message_of format \<equiv> map (\<lambda>c. if c = 96 then 39 else c) (bytes format) @ [10]"

lemma name_match: "args_match (115 # ks) (name_arg nm # args) \<longleftrightarrow> args_match ks args" "args_match [] args"
  by (simp_all add: name_arg_def ch_def)

lemma line_total:
  assumes "directives (message_of format) = Some ks" "args_match ks args"
  shows "\<exists>m. line format args = Some m"
  using printf_total [OF assms] by (simp add: line_def)

lemma line_plain: "directives (message_of format) = Some [] \<Longrightarrow> \<exists>m. line format args = Some m"
  by (rule line_total [where ks = "[]"]) simp_all

lemma line_name: "directives (message_of format) = Some [115] \<Longrightarrow> \<exists>m. line format [name_arg nm] = Some m"
  by (rule line_total [where ks = "[115]"]) (simp_all add: name_match)

lemma line_int:
  assumes "directives (message_of format) = Some [115, 100]" "word_of_int n \<noteq> (0x80000000 :: u32)"
  shows "\<exists>m. line format [name_arg nm, int_arg n] = Some m"
  using assms(2) by (intro line_total [OF assms(1)]) (simp add: name_arg_def int_arg_def ch_def)

lemma fail_result: "fail code format args s = Some (c, out, t) \<Longrightarrow> c = code \<and> t = s"
  by (auto simp: fail_def split: bind_splits)

section \<open>Reading to the end\<close>

lemma set_file_nth: "i < length (fs_files s) \<Longrightarrow> fs_files (set_file i f s) ! i = f"
  by simp

lemma set_file_same: "f = fs_files s ! i \<Longrightarrow> set_file i f s = s"
  by (simp add: set_file_def)

text \<open>One read of a chunk from an open, readable file.\<close>

lemma fs_read_chunk:
  assumes "fs_wf s" "fs_find_file (Some nm) s = Some i" "f = fs_files s ! i" "\<not> f_is_dir f" "f_is_open f"
    and "f_permissions f AND FS_PERM_READ \<noteq> 0" "f_position f \<le> f_size f" "0 < n"
  shows "fs_read (Some nm) True n s =
    (let k = min n (f_size f - f_position f) in
     Some (set_file i (f\<lparr>f_position := f_position f + k\<rparr>) s, take k (drop (f_position f) (the (f_data f)))))"
proof -
  note i = found_file [OF assms(1,2)]
  from i(2) assms(3,4) obtain d where d: "f_data f = Some d" "f_size f \<le> length d"
    by (auto simp: file_ok_def)
  have same: "set_file i (f\<lparr>f_position := f_size f\<rparr>) s = s" if "f_position f = f_size f"
  proof -
    have "f\<lparr>f_position := f_size f\<rparr> = f" using that by (cases f) simp
    with assms(3) show ?thesis by (simp add: set_file_same)
  qed
  show ?thesis
  proof (cases "f_position f = f_size f")
    case True
    with same assms(2-6,8) show ?thesis by (simp add: fs_read_def)
  next
    case False
    with assms(2-8) d show ?thesis by (auto simp: fs_read_def Let_def min_def)
  qed
qed

lemma cat_loop_reads:
  assumes "fs_wf s" "fs_find_file (Some nm) s = Some i" "f = fs_files s ! i" "\<not> f_is_dir f" "f_is_open f"
    and "f_permissions f AND FS_PERM_READ \<noteq> 0" "f_position f \<le> f_size f"
  shows "cat_loop nm s = Some (take (f_size f - f_position f) (drop (f_position f) (the (f_data f))), 0,
    set_file i (f\<lparr>f_position := f_size f\<rparr>) s)"
  using assms
proof (induction "f_size f - f_position f" arbitrary: s f rule: less_induct)
  case less
  let ?k = "min 1024 (f_size f - f_position f)" and ?d = "the (f_data f)"
  let ?g = "f\<lparr>f_position := f_position f + ?k\<rparr>"
  let ?s = "set_file i ?g s"
  note i = found_file [OF less.prems(1,2)]
  have len: "i < length (fs_files s)" using i(1) fs_wf_dest(1) [OF less.prems(1)] by (simp add: used_def)
  from i(2) less.prems(3,4) have d: "f_size f \<le> length ?d" by (auto simp: file_ok_def)
  have r: "fs_read (Some nm) True 1024 s = Some (?s, take ?k (drop (f_position f) ?d))"
    using fs_read_chunk [OF less.prems, of 1024] by (simp add: Let_def)
  show ?case
  proof (cases "f_position f = f_size f")
    case True
    with r show ?thesis by (subst cat_loop.simps) simp
  next
    case False
    then have k: "0 < ?k" using less.prems(7) by simp
    have kle: "f_position f + ?k \<le> f_size f" using less.prems(7) by simp
    have wf: "fs_wf ?s" using fs_read_wf [OF less.prems(1), of "Some nm" True 1024] r by auto
    have find: "fs_find_file (Some nm) ?s = Some i" using find_set_file [OF len] less.prems(2,3) by simp
    have "cat_loop nm ?s = Some (take (f_size ?g - f_position ?g) (drop (f_position ?g) (the (f_data ?g))), 0,
        set_file i (?g\<lparr>f_position := f_size ?g\<rparr>) ?s)"
      using k kle less.prems(4-6) len by (intro less.hyps wf find) auto
    then have rest: "cat_loop nm ?s = Some (take (f_size f - (f_position f + ?k)) (drop (f_position f + ?k) ?d), 0,
        set_file i (f\<lparr>f_position := f_size f\<rparr>) s)" by simp
    have "take (f_size f - f_position f) (drop (f_position f) ?d) =
        take ?k (drop (f_position f) ?d) @ take (f_size f - (f_position f + ?k)) (drop (f_position f + ?k) ?d)"
    proof -
      have "f_size f - f_position f = ?k + (f_size f - (f_position f + ?k))" using kle by simp
      then have "take (f_size f - f_position f) (drop (f_position f) ?d) =
          take (?k + (f_size f - (f_position f + ?k))) (drop (f_position f) ?d)" by simp
      then show ?thesis by (simp add: take_add drop_drop add.commute)
    qed
    moreover have "length (take ?k (drop (f_position f) ?d)) > 0" using k kle d by simp
    ultimately show ?thesis
      using r rest by (subst cat_loop.simps) (simp add: Let_def)
  qed
qed

text \<open>The whole command, on a file that is closed.\<close>

lemma cat_prints_file:
  assumes "fs_wf s" "fs_find_file (Some nm) s = Some i" "f = fs_files s ! i" "\<not> f_is_dir f" "\<not> f_is_open f"
    and "f_permissions f AND FS_PERM_READ \<noteq> 0"
  shows "cat_main [cmd, nm] s =
    Some (0, take (f_size f) (the (f_data f)), set_file i (f\<lparr>f_position := f_size f\<rparr>) s)"
proof -
  let ?f = "f\<lparr>f_is_open := True, f_position := 0\<rparr>"
  let ?s = "set_file i ?f s"
  note i = found_file [OF assms(1,2)]
  have len: "i < length (fs_files s)" using i(1) fs_wf_dest(1) [OF assms(1)] by (simp add: used_def)
  have find: "fs_find_file (Some nm) (set_file i h s) = Some i" if "f_name h = f_name f" "f_parent h = f_parent f" for h
    using find_set_file [OF len, of h] that assms(2,3) by simp
  have o: "fs_open (Some nm) s = (?s, 0)"
    using assms(2,4,5) by (simp add: fs_open_def Let_def flip: assms(3))
  then have wf: "fs_wf ?s" using fs_open_close_wf(1) [OF assms(1), of "Some nm"] by simp
  have "cat_loop nm ?s = Some (take (f_size ?f - f_position ?f) (drop (f_position ?f) (the (f_data ?f))), 0,
      set_file i (?f\<lparr>f_position := f_size ?f\<rparr>) ?s)"
    using assms(4,6) len by (intro cat_loop_reads wf find) auto
  then have r: "cat_loop nm ?s = Some (take (f_size f) (the (f_data f)), 0,
      set_file i (f\<lparr>f_is_open := True, f_position := f_size f\<rparr>) s)" by simp
  have "f\<lparr>f_position := f_size f, f_is_open := False\<rparr> = f\<lparr>f_position := f_size f\<rparr>"
    using assms(5) by (cases f) simp
  then have c: "fs_close (Some nm) (set_file i (f\<lparr>f_is_open := True, f_position := f_size f\<rparr>) s) =
      (set_file i (f\<lparr>f_position := f_size f\<rparr>) s, 0)"
    using len by (simp add: fs_close_def find Let_def)
  show ?thesis by (simp add: cat_main_def o r c Let_def)
qed

section \<open>Copying\<close>

text \<open>
  Between two rounds of the copy: the source is open at \<open>p\<close>, and the first \<open>p\<close> bytes are in the
  destination, which is open at its end.
\<close>

definition copying :: "string \<Rightarrow> string \<Rightarrow> nat \<Rightarrow> nat \<Rightarrow> fs_file \<Rightarrow> nat \<Rightarrow> fs \<Rightarrow> bool" where
  "copying src dst i j f p s \<longleftrightarrow>
     fs_wf s \<and> i \<noteq> j \<and> fs_find_file (Some src) s = Some i \<and> fs_find_file (Some dst) s = Some j \<and>
     fs_files s ! i = f\<lparr>f_is_open := True, f_position := p\<rparr> \<and> p \<le> f_size f \<and>
     f_is_open (fs_files s ! j) \<and> \<not> f_is_dir (fs_files s ! j) \<and>
     f_permissions (fs_files s ! j) = FS_PERM_DEFAULT \<and> f_position (fs_files s ! j) = p \<and>
     f_size (fs_files s ! j) = p \<and> take p (the (f_data (fs_files s ! j))) = take p (the (f_data f))"

lemma cp_loop_copies:
  assumes "copying src dst i j f p s" "\<not> f_is_dir f" "f_permissions f AND FS_PERM_READ \<noteq> 0"
    and "\<And>t. alloc_ok (env_heap env t)" "\<And>t. alloc_full (env_heap env t)"
  shows "\<exists>t. cp_loop env src dst s = Some (True, t) \<and> copying src dst i j f (f_size f) t"
  using assms(1)
proof (induction "f_size f - p" arbitrary: p s rule: less_induct)
  case less
  note c = less.prems [unfolded copying_def]
  define k where "k = min 512 (f_size f - p)"
  let ?d = "the (f_data f)"
  let ?f = "f\<lparr>f_is_open := True, f_position := p\<rparr>" and ?f' = "f\<lparr>f_is_open := True, f_position := p + k\<rparr>"
  let ?s = "set_file i ?f' s" and ?g = "fs_files s ! j" and ?bs = "take k (drop p ?d)"
  have wf: "fs_wf s" and ij: "i \<noteq> j" and fi: "fs_find_file (Some src) s = Some i"
    and fj: "fs_find_file (Some dst) s = Some j" and f: "fs_files s ! i = ?f" and p: "p \<le> f_size f"
    using c by simp_all
  note i = found_file [OF wf fi] and j = found_file [OF wf fj]
  have len: "i < length (fs_files s)" "j < length (fs_files s)"
    using i(1) j(1) fs_wf_dest(1) [OF wf] by (simp_all add: used_def)
  from i(2) f assms(2) have d: "f_size f \<le> length ?d" "length ?d \<le> MAX_FILE_SIZE" by (auto simp: file_ok_def)
  have r: "fs_read (Some src) True 512 s = Some (?s, ?bs)"
    using fs_read_chunk [OF wf fi f [symmetric], of 512] assms(2,3) p by (simp add: Let_def k_def)
  show ?case
  proof (cases "p = f_size f")
    case True
    then have "k = 0" by (simp add: k_def)
    then have "?s = s" using f by (intro set_file_same) simp
    with \<open>k = 0\<close> True r less.prems show ?thesis by (subst cp_loop.simps) simp
  next
    case False
    have k: "0 < k" "p + k \<le> f_size f" using p False by (simp_all add: k_def)
    have bs: "length ?bs = k" using k(2) d by simp
    then have ne: "length ?bs \<noteq> 0" using k by simp
    have wf': "fs_wf ?s" using fs_read_wf [OF wf, of "Some src" True 512] r by auto
    have nj: "fs_files ?s ! j = ?g" using ij by simp
    have fi': "fs_find_file (Some src) ?s = Some i" and fj': "fs_find_file (Some dst) ?s = Some j"
      using find_set_file [OF len(1), of ?f'] f fi fj by simp_all
    have used: "used ?s j" using j(1) by simp
    from j(2) c obtain d0 where d0: "f_data ?g = Some d0" "p \<le> length d0" by (auto simp: file_ok_def)
    have pos: "f_position (fs_files ?s ! j) + k < 2 ^ 32" using c nj k d by simp
    obtain d1 where d1: "take (length d0) d1 = d0" "min (p + k) MAX_FILE_SIZE \<le> length d1"
      "fs_write_at (env_heap env ?s) (env_clock env ?s) j ?bs k ?s =
        map_option (\<lambda>d'. (set_file j (?g\<lparr>f_data := Some d', f_allocated := length d1,
          f_position := p + k, f_size := max p (p + k), f_modified := env_clock env ?s\<rparr>) ?s, k))
          (copy_into d1 p ?bs k)"
      using fs_write_at_resized [OF wf' assms(4,5) used, where n = k and now = "env_clock env ?s" and buf = ?bs]
        pos d0(1) c nj by auto
    have room: "p + k \<le> length d1" using d1(2) k d by simp
    let ?d' = "take p d1 @ ?bs @ drop (p + k) d1"
    let ?g' = "?g\<lparr>f_data := Some ?d', f_allocated := length d1, f_position := p + k,
      f_size := p + k, f_modified := env_clock env ?s\<rparr>"
    have copy: "copy_into d1 p ?bs k = Some ?d'" using room bs by (simp add: copy_into_def)
    have perm: "fs_has_perm ?g FS_PERM_WRITE" using c by (simp add: fs_has_perm_def)
    have w: "fs_write (env_heap env ?s) (env_clock env ?s) (Some dst) (Some ?bs) k ?s =
        Some (set_file j ?g' ?s, k)"
      using d1(3) copy fj' nj c perm k by (simp add: fs_write_def Let_def max_def)
    let ?t = "set_file j ?g' ?s"
    have "copying src dst i j f (p + k) ?t"
      unfolding copying_def
    proof (intro conjI)
      show "fs_wf ?t" by (rule fs_write_wf [OF wf' assms(4) w])
      show "fs_find_file (Some src) ?t = Some i" "fs_find_file (Some dst) ?t = Some j"
        using find_set_file [of j ?s ?g'] len nj fi' fj' by simp_all
      have "take p d1 = take p d0" using d1(1) d0(2) by (metis min.absorb1 take_take)
      moreover have "take p d0 = take p ?d" using c d0(1) by simp
      ultimately have "take p d1 @ ?bs = take (p + k) ?d" by (simp add: take_add)
      then show "take (p + k) (the (f_data (fs_files ?t ! j))) = take (p + k) ?d"
        using len ij d room k by (simp add: take_add)
    qed (use ij f len k c in \<open>simp_all\<close>)
    moreover have "f_size f - (p + k) < f_size f - p" using k by simp
    ultimately obtain u where u: "cp_loop env src dst ?t = Some (True, u)" "copying src dst i j f (f_size f) u"
      using less.hyps by blast
    have "cp_loop env src dst s = cp_loop env src dst ?t"
      using ne by (subst cp_loop.simps) (simp only: r bind.bind_lunit prod.case bs w if_False simp_thms)
    with u show ?thesis by simp
  qed
qed

definition content :: "fs_file \<Rightarrow> u8 list" where
  "content f = take (f_size f) (the (f_data f))"

lemma compact_slot:
  assumes "compact s" "fs_count s < MAX_FILES"
  shows "fs_find_free_slot s \<noteq> MAX_FILES"
proof -
  have "\<not> used s (fs_count s)" using assms(1) by (simp add: compact_def)
  with assms(2) have "fs_free s ! fs_count s" by (simp add: used_def)
  with assms(2) have "find_first (\<lambda>i. fs_free s ! i) [0..<MAX_FILES] \<noteq> None" by (auto simp: find_first_None)
  then obtain i where "find_first (\<lambda>i. fs_free s ! i) [0..<MAX_FILES] = Some i" by blast
  moreover from this have "i < MAX_FILES" by (auto dest: find_first_Some)
  ultimately show ?thesis by (simp add: fs_find_free_slot_def)
qed

lemma fs_create_succeeds:
  assumes "compact s" "fs_count s < MAX_FILES" "alloc_full alloc" "fs_validate_filename nm = 0" "fs_find_file nm s = None"
  shows "snd (fs_create_with_perms alloc now nm perms s) = 0"
proof -
  obtain blk where "alloc FS_BLOCK_SIZE = Some blk"
    using assms(3) [unfolded alloc_full_def, rule_format, of FS_BLOCK_SIZE] by auto
  with compact_slot [OF assms(1,2)] assms(4,5) show ?thesis
    by (simp add: fs_create_with_perms_def Let_def)
qed

text \<open>Opening a closed file that is not a directory, and closing an open one.\<close>

lemma fs_open_ok:
  assumes "fs_find_file nm s = Some i" "f = fs_files s ! i" "\<not> f_is_dir f" "\<not> f_is_open f"
  shows "fs_open nm s = (set_file i (f\<lparr>f_is_open := True, f_position := 0\<rparr>) s, 0)"
  using assms(1,3,4) by (simp add: fs_open_def Let_def flip: assms(2))

lemma fs_close_ok:
  assumes "fs_find_file nm s = Some i" "f = fs_files s ! i" "f_is_open f"
  shows "fs_close nm s = (set_file i (f\<lparr>f_is_open := False\<rparr>) s, 0)"
  using assms(1,3) by (simp add: fs_close_def Let_def flip: assms(2))

lemma cp_main_ok:
  assumes "fs_wf s" "compact s" "\<And>t. alloc_ok (env_heap env t)" "\<And>t. alloc_full (env_heap env t)"
    and "fs_find_file (Some src) s = Some i" "f = fs_files s ! i" "\<not> f_is_dir f" "\<not> f_is_open f"
    and "f_permissions f AND FS_PERM_READ \<noteq> 0"
    and "fs_validate_filename (Some dst) = 0" "fs_find_file (Some dst) s = None" "fs_count s < MAX_FILES"
  shows "\<exists>t g. cp_main env [cmd, src, dst] s = Some (0, [], t) \<and> fs_wf t \<and>
    fs_find_file (Some src) t = Some i \<and> fs_files t ! i = f\<lparr>f_position := f_size f\<rparr> \<and>
    fs_find_file (Some dst) t = Some (fs_count s) \<and> fs_files t ! fs_count s = g \<and>
    content g = content f \<and> \<not> f_is_open g \<and> \<not> f_is_dir g \<and> f_permissions g = FS_PERM_DEFAULT"
proof -
  let ?j = "fs_count s" and ?f1 = "f\<lparr>f_is_open := True, f_position := 0\<rparr>"
  let ?s1 = "set_file i ?f1 s"
  have ij: "i < ?j" using find_file_Some(5) [OF assms(1,5)] by simp
  have len: "length (fs_files s) = 64" by (rule fs_wf_dest(1) [OF assms(1)])
  have ne: "src \<noteq> dst" using assms(5,11) by auto
  have o1: "fs_open (Some src) s = (?s1, 0)" using fs_open_ok [OF assms(5-8)] .
  have wf1: "fs_wf ?s1" using fs_open_close_wf(1) [OF assms(1), of "Some src"] o1 by simp
  have c1: "compact ?s1" using assms(2) by (simp add: compact_def)
  have find1: "fs_find_file nm ?s1 = fs_find_file nm s" for nm
    using find_set_file [of i s ?f1] ij assms(6,12) len by simp
  have "snd (fs_create_with_perms (env_heap env ?s1) (env_clock env ?s1) (Some dst) FS_PERM_DEFAULT ?s1) = 0"
    using fs_create_succeeds [OF c1 _ assms(4,10)] assms(11,12) find1 by simp
  then obtain s2 where cr: "fs_create_with_perms (env_heap env ?s1) (env_clock env ?s1) (Some dst) FS_PERM_DEFAULT ?s1 = (s2, 0)"
    by (metis prod.collapse)
  have cr': "fs_create (env_heap env ?s1) (env_clock env ?s1) (Some dst) ?s1 = (s2, 0)"
    unfolding fs_create_def by (rule cr)
  have wf2: "fs_wf s2" using fs_create_wf [OF wf1 assms(3), of ?s1] cr by (metis fst_conv)
  from fs_create_compact [OF wf1 assms(3) c1 cr] obtain blk where
    s2: "s2 = (set_file ?j ((fs_files ?s1 ! ?j)\<lparr>f_name := dst, f_allocated := FS_BLOCK_SIZE,
      f_data := Some blk, f_size := 0, f_is_open := False, f_is_dir := False, f_parent := fs_cwd s,
      f_position := 0, f_permissions := FS_PERM_DEFAULT, f_inode := fs_next_inode s, f_created := env_clock env ?s1,
      f_modified := env_clock env ?s1\<rparr>) ?s1)\<lparr>fs_free := (fs_free s)[?j := False],
      fs_next_inode := fs_next_inode s + 1, fs_count := Suc ?j\<rparr>"
    and find2: "fs_find_file (Some dst) s2 = Some ?j" "fs_find_file (Some src) s2 = Some i"
    using ne find1 assms(5) by auto
  let ?g = "fs_files s2 ! ?j"
  have g: "\<not> f_is_dir ?g" "\<not> f_is_open ?g" "f_size ?g = 0" "f_permissions ?g = FS_PERM_DEFAULT"
    unfolding s2 using assms(12) len by simp_all
  let ?s3 = "set_file ?j (?g\<lparr>f_is_open := True, f_position := 0\<rparr>) s2"
  have o2: "fs_open (Some dst) s2 = (?s3, 0)" using fs_open_ok [OF find2(1) refl g(1,2)] .
  have len2: "length (fs_files s2) = 64" by (rule fs_wf_dest(1) [OF wf2])
  have find3: "fs_find_file nm ?s3 = fs_find_file nm s2" for nm
    using find_set_file [of ?j s2] assms(12) len2 by simp
  have fi: "fs_files ?s3 ! i = ?f1" unfolding s2 using ij assms(12) len by simp
  have "copying src dst i ?j f 0 ?s3"
    unfolding copying_def
    using fs_open_close_wf(1) [OF wf2, of "Some dst"] o2 find2 find3 ij fi g assms(12) len2 by simp
  from cp_loop_copies [OF this assms(7,9,3,4)] obtain s4 where
    loop: "cp_loop env src dst ?s3 = Some (True, s4)" and c4: "copying src dst i ?j f (f_size f) s4" by blast
  note c = c4 [unfolded copying_def]
  let ?f4 = "fs_files s4 ! i" and ?g4 = "fs_files s4 ! ?j"
  have wf4: "fs_wf s4" and find4: "fs_find_file (Some src) s4 = Some i" "fs_find_file (Some dst) s4 = Some ?j"
    using c by simp_all
  have len4: "length (fs_files s4) = 64" by (rule fs_wf_dest(1) [OF wf4])
  let ?s5 = "set_file i (?f4\<lparr>f_is_open := False\<rparr>) s4"
  have cl1: "fs_close (Some src) s4 = (?s5, 0)" using c by (intro fs_close_ok [OF find4(1)]) simp_all
  have find5: "fs_find_file nm ?s5 = fs_find_file nm s4" for nm
    using find_set_file [of i s4] ij assms(12) len4 by simp
  have g5: "fs_files ?s5 ! ?j = ?g4" using ij by simp
  let ?s6 = "set_file ?j (?g4\<lparr>f_is_open := False\<rparr>) ?s5"
  have cl2: "fs_close (Some dst) ?s5 = (?s6, 0)"
    using c find5 find4(2) by (intro fs_close_ok g5 [symmetric]) simp_all
  have find6: "fs_find_file nm ?s6 = fs_find_file nm s4" for nm
    using find_set_file [of ?j ?s5] ij assms(12) len4 find5 g5 by simp
  have "f\<lparr>f_is_open := True, f_position := f_size f, f_is_open := False\<rparr> = f\<lparr>f_position := f_size f\<rparr>"
    using assms(8) by (cases f) simp
  then have f6: "fs_files ?s6 ! i = f\<lparr>f_position := f_size f\<rparr>" using c ij assms(12) len4 by simp
  have "fs_wf ?s5" using fs_open_close_wf(2) [OF wf4, of "Some src"] cl1 by simp
  then have wf6: "fs_wf ?s6" using fs_open_close_wf(2) [of ?s5 "Some dst"] cl2 by simp
  have main: "cp_main env [cmd, src, dst] s = Some (0, [], ?s6)"
    by (simp add: cp_main_def Let_def o1 cr' o2 loop close2_def cl1 cl2)
  have g6: "fs_files ?s6 ! ?j = ?g4\<lparr>f_is_open := False\<rparr>" using assms(12) len4 by simp
  show ?thesis
    using main wf6 find6 find4 f6 g6 c by (intro exI [of _ ?s6]) (simp add: content_def)
qed

section \<open>Properties\<close>

text \<open>C27.  \<open>cp\<close> copies: in a well-formed file system without holes, with a closed and readable source, a
  new valid name, a free slot and memory, \<open>cp\<close> succeeds without a word, and then \<open>cat\<close> prints of
  the copy, and of the source, just the bytes that the source had.\<close>

theorem cp_copies:
  assumes "fs_wf s" "compact s" "\<And>t. alloc_ok (env_heap env t)" "\<And>t. alloc_full (env_heap env t)"
    and "fs_find_file (Some src) s = Some i" "f = fs_files s ! i" "\<not> f_is_dir f" "\<not> f_is_open f"
    and "f_permissions f AND FS_PERM_READ \<noteq> 0"
    and "fs_validate_filename (Some dst) = 0" "fs_find_file (Some dst) s = None" "fs_count s < MAX_FILES"
  shows "\<exists>t u v. cp_main env [''cp'', src, dst] s = Some (0, [], t) \<and> fs_wf t \<and>
    cat_main [''cat'', dst] t = Some (0, content f, u) \<and> cat_main [''cat'', src] t = Some (0, content f, v)"
proof -
  from cp_main_ok [OF assms, of "''cp''"] obtain t g where t: "cp_main env [''cp'', src, dst] s = Some (0, [], t)"
    "fs_wf t" "fs_find_file (Some src) t = Some i" "fs_files t ! i = f\<lparr>f_position := f_size f\<rparr>"
    "fs_find_file (Some dst) t = Some (fs_count s)" "fs_files t ! fs_count s = g"
    "content g = content f" "\<not> f_is_open g" "\<not> f_is_dir g" "f_permissions g = FS_PERM_DEFAULT" by blast
  have "cat_main [''cat'', dst] t = Some (0, content g, set_file (fs_count s) (g\<lparr>f_position := f_size g\<rparr>) t)"
    unfolding content_def using t(10) by (intro cat_prints_file t(2,5,8,9) t(6) [symmetric]) simp
  moreover have "cat_main [''cat'', src] t =
      Some (0, content f, set_file i ((f\<lparr>f_position := f_size f\<rparr>)\<lparr>f_position := f_size f\<rparr>) t)"
    using cat_prints_file [OF t(2,3) t(4) [symmetric], of "''cat''"] assms(7-9) by (simp add: content_def)
  ultimately show ?thesis using t by auto
qed

definition demo_env :: env where
  "demo_env = \<lparr>env_heap = (\<lambda>_. zero_heap), env_clock = (\<lambda>_. 7)\<rparr>"

text \<open>A file with three bytes, closed.\<close>

definition demo_closed :: fs where
  "demo_closed = set_file 1 ((fs_files demo_fs ! 1)\<lparr>f_is_open := False, f_size := 3,
     f_data := Some ([104, 105, 33] @ replicate 509 0)\<rparr>) demo_fs"

lemma demo_closed_wf: "fs_wf demo_closed"
proof -
  note f = found_file [OF demo_fs_wf, of "Some ''a''" 1] demo_fs_file
  have "length (fs_files demo_fs) = 64" by (rule fs_wf_dest(1) [OF demo_fs_wf])
  have "f_allocated (fs_files demo_fs ! 1) = 512" unfolding demo_fs_def by code_simp
  then show ?thesis
    unfolding demo_closed_def using f by (intro wf_set_file [OF demo_fs_wf]) (auto simp: file_ok_def)
qed

lemma demo_closed_compact: "compact demo_closed" "fs_count demo_closed = 2"
proof -
  have "fs_count demo_fs = 2" "fs_free demo_fs = [False, False] @ replicate 62 True"
    unfolding demo_fs_def by code_simp+
  then show "fs_count demo_closed = 2" "compact demo_closed"
    by (auto simp: demo_closed_def compact_def used_def nth_Cons' nth_append)
qed

lemma cp_copies_witness:
  "\<exists>t u v. cp_main demo_env [''cp'', ''a'', ''b''] demo_closed = Some (0, [], t) \<and> fs_wf t \<and>
    cat_main [''cat'', ''b''] t = Some (0, [104, 105, 33], u) \<and> cat_main [''cat'', ''a''] t = Some (0, [104, 105, 33], v)"
proof -
  let ?f = "fs_files demo_closed ! 1"
  have len: "length (fs_files demo_fs) = 64" by (rule fs_wf_dest(1) [OF demo_fs_wf])
  have find: "fs_find_file nm demo_closed = fs_find_file nm demo_fs" for nm
    unfolding demo_closed_def using len by (intro find_set_file) simp_all
  have f: "\<not> f_is_dir ?f" "\<not> f_is_open ?f" "content ?f = [104, 105, 33]" "f_permissions ?f = f_permissions (fs_files demo_fs ! 1)"
    using len demo_fs_file by (simp_all add: demo_closed_def content_def)
  have "f_permissions (fs_files demo_fs ! 1) AND FS_PERM_READ \<noteq> 0" unfolding demo_fs_def by code_simp
  moreover have "fs_validate_filename (Some ''b'') = 0" by code_simp
  moreover have "fs_find_file (Some ''b'') demo_fs = None" unfolding demo_fs_def by code_simp
  moreover have h: "alloc_ok (env_heap demo_env t)" "alloc_full (env_heap demo_env t)" for t
    using zero_heap_ok by (simp_all add: demo_env_def)
  ultimately show ?thesis
    using cp_copies [OF demo_closed_wf demo_closed_compact(1) h _ refl, of "''a''" 1 "''b''"] f demo_fs_file
      demo_closed_compact(2) by (simp add: find)
qed

end
