(* ===== verification/Fscmds.thy ===== *)
theory Fscmds
  imports Prelude Cstring Stdio Fs Console Fstools
begin

text \<open>
  What the file commands do to the file system: \<open>rm\<close> and its exit status, the commands that keep
  the invariant of \<open>Fs\<close>, \<open>rmdir\<close>, which never does, and the current directory in \<open>cd\<close> and \<open>pwd\<close>.
\<close>

section \<open>rm\<close>

text \<open>Deleting names one after the other: the results of \<open>fs_delete\<close>.\<close>

fun delete_all :: "string list \<Rightarrow> fs \<Rightarrow> fs \<times> int list" where
  "delete_all [] s = (s, [])"
| "delete_all (nm # names) s =
     (let (s, r) = fs_delete (Some nm) s; (s, rs) = delete_all names s in (s, r # rs))"

lemma fs_delete_result: "snd (fs_delete nm s) \<in> {0, -4, -6, -8, -9}"
  by (auto simp: fs_delete_def Let_def split: option.splits)

lemma rm_lines:
  "\<exists>m. line ''removed `%s`'' [name_arg nm] = Some m" "\<exists>m. line ''rm: unknown error deleting `%s`'' [name_arg nm] = Some m"
  by (rule line_name, code_simp)+

lemma rm_loop_result:
  "\<exists>out. rm_loop verbose names code s =
    Some (if \<forall>r \<in> set (snd (delete_all names s)). r = 0 then code else 1, out, fst (delete_all names s))"
proof (induction names arbitrary: code s)
  case Nil
  then show ?case by simp
next
  case (Cons nm names)
  obtain t r where d: "fs_delete (Some nm) s = (t, r)" by fastforce
  then have r: "r \<in> {0, -4, -6, -8, -9}" using fs_delete_result [of "Some nm" s] by simp
  obtain m1 m2 where m: "line ''removed `%s`'' [name_arg nm] = Some m1"
    "line ''rm: unknown error deleting `%s`'' [name_arg nm] = Some m2" using rm_lines by blast
  obtain u rs where da: "delete_all names t = (u, rs)" by fastforce
  show ?case
  proof (cases "r = 0")
    case True
    with Cons.IH [of code t] d da m show ?thesis by (auto simp: Let_def)
  next
    case False
    with r have "r \<noteq> -1" "r \<noteq> -2" by auto
    with False Cons.IH [of 1 t] d da m show ?thesis by (auto simp: Let_def)
  qed
qed

section \<open>Commands that keep the invariant\<close>

lemma slot_named_less: "slot_named nm s = Some i \<Longrightarrow> i < fs_count s"
  by (auto simp: slot_named_def dest: find_first_Some)

lemma mv_wf:
  assumes "fs_wf s" "mv_main argv s = Some (code, out, t)"
  shows "fs_wf t"
proof -
  have "fs_wf (set_file i ((fs_files s ! i)\<lparr>f_name := nm\<rparr>) s)" if "i < fs_count s" for i nm
  proof (cases "used s i")
    case True
    with fs_wf_dest(6) [OF assms(1)] show ?thesis
      by (intro wf_set_file [OF assms(1)]) (simp_all add: file_ok_def)
  next
    case False
    with that count_le [OF assms(1)] have "fs_free s ! i" by (simp add: used_def)
    then show ?thesis by (rule wf_free_slot [OF assms(1)])
  qed
  with assms slot_named_less show ?thesis
    by (auto simp: mv_main_def Let_def dest!: fail_result split: if_splits option.splits bind_splits)
qed

lemma rm_wf:
  assumes "fs_wf s" "rm_main argv s = Some (code, out, t)"
  shows "fs_wf t"
proof -
  have *: "fs_wf (fst (delete_all names u))" if "fs_wf u" for names u
    using that by (induction names arbitrary: u) (auto simp: Let_def case_prod_unfold fs_delete_wf)
  from assms have "fs_wf s \<and> t = s \<or> (\<exists>names. t = fst (delete_all names s))"
    using rm_loop_result [of True "drop 2 argv" 0 s] rm_loop_result [of False "drop 1 argv" 0 s]
    by (auto simp: rm_main_def dest!: fail_result split: if_splits)
  with * assms(1) show ?thesis by auto
qed

lemma mkdir_wf:
  assumes "fs_wf s" "mkdir_main env argv s = Some (code, out, t)"
  shows "fs_wf t"
proof -
  have "fs_wf u" if "fs_mkdir now nm s = (u, r)" for now nm u r
    using fs_mkdir_wf [OF assms(1), of now nm] that by simp
  with assms show ?thesis
    by (auto simp: mkdir_main_def Let_def dest!: fail_result split: if_splits prod.splits)
qed

lemma touch_loop_wf:
  assumes "\<And>t. alloc_ok (env_heap env t)"
  shows "fs_wf s \<Longrightarrow> touch_loop env names n s = Some (m, out, t) \<Longrightarrow> fs_wf t"
proof (induction names arbitrary: n s m out t)
  case Nil
  then show ?case by simp
next
  case (Cons nm names)
  have "fs_wf u" if "fs_create (env_heap env s) (env_clock env s) (Some nm) s = (u, r)" for u r
    using fs_create_wf [OF Cons.prems(1) assms] that unfolding fs_create_def by (metis fst_conv)
  with Cons show ?case by (auto simp: Let_def split: if_splits bind_splits prod.splits)
qed

lemma touch_wf:
  assumes "\<And>t. alloc_ok (env_heap env t)" "fs_wf s" "touch_main env argv s = Some (code, out, t)"
  shows "fs_wf t"
  using assms(2,3) touch_loop_wf [OF assms(1)]
  by (auto simp: touch_main_def dest!: fail_result split: if_splits bind_splits)

lemma open_close_wf:
  assumes "fs_wf s"
  shows "fs_open nm s = (t, r) \<Longrightarrow> fs_wf t" "fs_close nm s = (t, r) \<Longrightarrow> fs_wf t"
    "fs_wf (fst (fs_close nm s))"
  using fs_open_close_wf [OF assms, of nm] by auto

lemma cat_loop_wf: "cat_loop nm s = Some r \<Longrightarrow> fs_wf s \<longrightarrow> fs_wf (snd (snd r))"
proof (rule cat_loop.raw_induct [where P = "\<lambda>nm s r. fs_wf s \<longrightarrow> fs_wf (snd (snd r))"])
  fix f nm s r
  assume IH: "\<And>nm s r. f nm s = Some r \<Longrightarrow> fs_wf s \<longrightarrow> fs_wf (snd (snd r))"
    and body: "fs_read (Some nm) True 1024 s \<bind> (\<lambda>(s, bs). let bytes_read = int (length bs)
      in if bytes_read > 0 then f nm s \<bind> (\<lambda>(out, bytes_read, s). Some (concat (map putchar bs) @ out, bytes_read, s))
         else Some ([], bytes_read, s)) = Some r"
  show "fs_wf s \<longrightarrow> fs_wf (snd (snd r))"
  proof
    assume "fs_wf s"
    then obtain t bs where t: "fs_read (Some nm) True 1024 s = Some (t, bs)" "fs_wf t"
      using fs_read_wf by blast
    with body IH [of nm t] show "fs_wf (snd (snd r))"
      by (auto simp: Let_def split: if_splits bind_splits)
  qed
qed

lemma cp_loop_wf:
  "cp_loop env src dst s = Some r \<Longrightarrow> (\<forall>t. alloc_ok (env_heap env t)) \<longrightarrow> fs_wf s \<longrightarrow> fs_wf (snd r)"
proof (rule cp_loop.raw_induct
    [where P = "\<lambda>env src dst s r. (\<forall>t. alloc_ok (env_heap env t)) \<longrightarrow> fs_wf s \<longrightarrow> fs_wf (snd r)"])
  fix f env src dst s r
  assume IH: "\<And>env src dst s r. f env src dst s = Some r \<Longrightarrow>
      (\<forall>t. alloc_ok (env_heap env t)) \<longrightarrow> fs_wf s \<longrightarrow> fs_wf (snd r)"
    and body: "fs_read (Some src) True 512 s \<bind> (\<lambda>(s, bs). if length bs = 0 then Some (True, s)
      else fs_write (env_heap env s) (env_clock env s) (Some dst) (Some bs) (length bs) s \<bind>
        (\<lambda>(s, bytes_written). if bytes_written \<noteq> length bs then Some (False, s) else f env src dst s)) = Some r"
  show "(\<forall>t. alloc_ok (env_heap env t)) \<longrightarrow> fs_wf s \<longrightarrow> fs_wf (snd r)"
  proof (intro impI)
    assume ok: "\<forall>t. alloc_ok (env_heap env t)" and "fs_wf s"
    then obtain t bs where t: "fs_read (Some src) True 512 s = Some (t, bs)" "fs_wf t"
      using fs_read_wf by blast
    show "fs_wf (snd r)"
    proof (cases "length bs = 0")
      case True
      with t body show ?thesis by auto
    next
      case False
      with body t(1) obtain u n where w:
        "fs_write (env_heap env t) (env_clock env t) (Some dst) (Some bs) (length bs) t = Some (u, n)"
        by (auto split: bind_splits)
      have "fs_wf u" using ok by (intro fs_write_wf [OF t(2) _ w]) simp
      with body t(1) w False IH [of env src dst u r] ok show ?thesis by (auto split: if_splits)
    qed
  qed
qed

lemma cat_wf:
  assumes "fs_wf s" "cat_main argv s = Some (code, out, t)"
  shows "fs_wf t"
proof (cases "length argv < 2")
  case True
  with assms show ?thesis by (auto simp: cat_main_def dest!: fail_result)
next
  case False
  obtain u rc where o: "fs_open (Some (argv ! 1)) s = (u, rc)" by fastforce
  then have u: "fs_wf u" by (rule open_close_wf(1) [OF assms(1)])
  show ?thesis
  proof (cases "rc = 0")
    case False
    with o u assms(2) \<open>\<not> length argv < 2\<close> show ?thesis by (auto simp: cat_main_def dest!: fail_result)
  next
    case True
    with o assms(2) \<open>\<not> length argv < 2\<close> obtain o1 n v where l: "cat_loop (argv ! 1) u = Some (o1, n, v)"
      by (auto simp: cat_main_def Let_def split: bind_splits)
    then have v: "fs_wf v" using cat_loop_wf [OF l] u by simp
    obtain w rc2 where c: "fs_close (Some (argv ! 1)) v = (w, rc2)" by fastforce
    then have "fs_wf w" by (rule open_close_wf(2) [OF v])
    moreover have "t = w"
      using True o l c assms(2) \<open>\<not> length argv < 2\<close>
      by (auto simp: cat_main_def Let_def split: bind_splits if_splits)
    ultimately show ?thesis by simp
  qed
qed

lemma cp_wf:
  assumes "\<And>t. alloc_ok (env_heap env t)" "fs_wf s" "cp_main env argv s = Some (code, out, t)"
  shows "fs_wf t"
proof (cases "length argv \<noteq> 3")
  case True
  with assms show ?thesis by (auto simp: cp_main_def dest!: fail_result)
next
  case False
  let ?src = "argv ! 1" and ?dst = "argv ! 2"
  obtain s1 r1 where 1: "fs_open (Some ?src) s = (s1, r1)" by fastforce
  then have w1: "fs_wf s1" by (rule open_close_wf(1) [OF assms(2)])
  obtain s2 r2 where 2: "fs_create (env_heap env s1) (env_clock env s1) (Some ?dst) s1 = (s2, r2)" by fastforce
  then have w2: "fs_wf s2"
    using fs_create_wf [OF w1 assms(1)] unfolding fs_create_def by (metis fst_conv)
  obtain s3 r3 where 3: "fs_open (Some ?dst) s2 = (s3, r3)" by fastforce
  then have w3: "fs_wf s3" by (rule open_close_wf(1) [OF w2])
  have l: "fs_wf u" if "cp_loop env ?src ?dst s3 = Some (e, u)" for e u
    using cp_loop_wf [OF that] assms(1) w3 by simp
  have c: "fs_wf (close2 ?src ?dst u)" if "fs_wf u" for u
    using that by (simp add: close2_def open_close_wf(3))
  show ?thesis
    using assms(3) False 1 2 3 w1 w2 w3 l c
    by (auto simp: cp_main_def Let_def open_close_wf(3) dest!: fail_result split: if_splits bind_splits)
qed

text \<open>A sequence of commands; the heap keeps its contract.\<close>

datatype file_command =
  Cat "string list" | Cp "string list" | Mv "string list" | Rm "string list" | Mkdir "string list" | Touch "string list"

fun command_step :: "env \<Rightarrow> file_command \<Rightarrow> fs \<Rightarrow> fs option" where
  "command_step env (Cat argv) s = map_option (\<lambda>(_, _, s). s) (cat_main argv s)"
| "command_step env (Cp argv) s = map_option (\<lambda>(_, _, s). s) (cp_main env argv s)"
| "command_step env (Mv argv) s = map_option (\<lambda>(_, _, s). s) (mv_main argv s)"
| "command_step env (Rm argv) s = map_option (\<lambda>(_, _, s). s) (rm_main argv s)"
| "command_step env (Mkdir argv) s = map_option (\<lambda>(_, _, s). s) (mkdir_main env argv s)"
| "command_step env (Touch argv) s = map_option (\<lambda>(_, _, s). s) (touch_main env argv s)"

interpretation file_commands: inv_system "command_step env" "\<lambda>s. (\<forall>t. alloc_ok (env_heap env t)) \<longrightarrow> fs_wf s" for env
proof
  fix s x t
  assume "(\<forall>t. alloc_ok (env_heap env t)) \<longrightarrow> fs_wf s" "command_step env x s = Some t"
  then show "(\<forall>t. alloc_ok (env_heap env t)) \<longrightarrow> fs_wf t"
    by (cases x) (auto intro: cat_wf cp_wf mv_wf rm_wf mkdir_wf touch_wf)
qed

section \<open>Properties\<close>



text \<open>C28.  \<open>cat\<close>, \<open>cp\<close>, \<open>mv\<close>, \<open>rm\<close>, \<open>mkdir\<close> and \<open>touch\<close> with any arguments and in any order keep the file
  system well formed, whatever the clock says and whether or not the heap has memory.\<close>

theorem commands_keep_wf:
  assumes "\<And>t. alloc_ok (env_heap env t)" "fs_wf s" "run_ops (command_step env) xs s = Some t"
  shows "fs_wf t"
  using file_commands.run_inv [OF _ assms(3)] assms(1,2) by blast

lemma commands_keep_wf_witness:
  "\<exists>t. run_ops (command_step demo_env) [Mkdir [''mkdir'', ''d''], Rm [''rm'', ''d'', ''d'']] (fs_init 0) = Some t \<and> fs_wf t"
proof -
  have h: "alloc_ok (env_heap demo_env t)" for t using zero_heap_ok by (simp add: demo_env_def)
  have "run_ops (command_step demo_env) [Mkdir [''mkdir'', ''d''], Rm [''rm'', ''d'', ''d'']] (fs_init 0) \<noteq> None"
    by code_simp
  then obtain t where t: "run_ops (command_step demo_env) [Mkdir [''mkdir'', ''d''], Rm [''rm'', ''d'', ''d'']] (fs_init 0) = Some t"
    by blast
  with commands_keep_wf [OF h fs_init_wf t] show ?thesis by blast
qed

text \<open>\<open>rmdir\<close> damages the file system whenever it succeeds: it moves the later slots down and
  counts one file less, but the slot stays marked as in use, so that the count is wrong for
  good.\<close>

theorem rmdir_breaks:
  assumes "fs_wf s" "rmdir_main argv s = Some (0, out, t)"
  shows "\<not> fs_wf t"
proof
  assume t: "fs_wf t"
  from assms(2) have p: "fs_free t = fs_free s" "fs_count t = fs_count s - 1"
    by (auto simp: rmdir_main_def Let_def dest!: fail_result split: if_splits option.splits bind_splits)
  from p(1) have "used t = used s" by (simp add: used_def fun_eq_iff)
  then have "fs_count t = fs_count s" using fs_wf_dest(3) [OF t] fs_wf_dest(3) [OF assms(1)] by simp
  moreover have "0 < fs_count s"
  proof -
    have "0 \<in> {i. used s i}" using fs_wf_dest(4) [OF assms(1)] by (simp add: dir_at_def)
    then show ?thesis unfolding fs_wf_dest(3) [OF assms(1)] using finite_used by (auto simp: card_gt_0_iff)
  qed
  ultimately show False using p(2) by simp
qed

definition demo_dir :: fs where "demo_dir = fst (fs_mkdir 0 (Some ''d'') (fs_init 0))"

lemma rmdir_breaks_witness:
  "\<exists>out t. rmdir_main [''rmdir'', ''d''] demo_dir = Some (0, out, t) \<and> fs_wf demo_dir \<and> \<not> fs_wf t"
proof -
  have "map_option fst (rmdir_main [''rmdir'', ''d''] demo_dir) = Some 0" unfolding demo_dir_def by code_simp
  then obtain out t where t: "rmdir_main [''rmdir'', ''d''] demo_dir = Some (0, out, t)" by auto
  have wf: "fs_wf demo_dir" unfolding demo_dir_def by (rule fs_mkdir_wf [OF fs_init_wf])
  from rmdir_breaks [OF wf t] t wf show ?thesis by blast
qed

section \<open>The current directory\<close>

text \<open>The step of a \<open>cd\<close> on the file system and the array \<open>cwd\<close>.\<close>

definition cd_step :: "string list \<Rightarrow> fs \<times> u8 list \<Rightarrow> (fs \<times> u8 list) option" where
  "cd_step argv st = map_option (\<lambda>(_, _, s, cwd). (s, cwd)) (cd_main argv (fst st) (snd st))"

text \<open>No directory is current, and only directories called \<open>/\<close> have no parent.\<close>

definition trapped :: "fs \<times> u8 list \<Rightarrow> bool" where
  "trapped st \<longleftrightarrow> fs_cwd (fst st) = None \<and>
     (\<forall>i < fs_count (fst st). f_is_dir (fs_files (fst st) ! i) \<and> f_parent (fs_files (fst st) ! i) = None \<longrightarrow>
        f_name (fs_files (fst st) ! i) = ''/'')"

lemma cd_trapped: "trapped st \<Longrightarrow> cd_step argv st = Some t \<Longrightarrow> trapped t"
proof -
  assume st: "trapped st" and step: "cd_step argv st = Some t"
  obtain s cwd where sc: "st = (s, cwd)" by (cases st)
  have c: "fs_cwd s = None" using st sc by (simp add: trapped_def)
  have none: "find_first (\<lambda>i. f_is_dir (fs_files s ! i) \<and> f_name (fs_files s ! i) = argv ! 1 \<and>
      (fs_cwd s = None \<and> f_parent (fs_files s ! i) = None \<or> fs_cwd s \<noteq> None \<and> f_parent (fs_files s ! i) = fs_cwd s))
      [0..<fs_count s] = None" if "argv ! 1 \<noteq> ''/''"
    using st sc that by (auto simp: trapped_def find_first_None)
  have "trapped (s\<lparr>fs_cwd := None\<rparr>, x)" for x using st sc by (simp add: trapped_def)
  with step st sc none c show "trapped t"
    by (auto simp: cd_step_def cd_main_def Let_def split: if_splits bind_splits)
qed

interpretation cd_commands: inv_system cd_step trapped
  by unfold_locales (rule cd_trapped)

text \<open>After \<open>cd /\<close> the shell has lost the file system: no sequence of \<open>cd\<close> commands leads into a
  directory again, and no file is found in between or at the end.\<close>

theorem cd_root_traps:
  assumes "\<And>i. i < fs_count s \<Longrightarrow> f_is_dir (fs_files s ! i) \<Longrightarrow> f_parent (fs_files s ! i) = None \<Longrightarrow>
      f_name (fs_files s ! i) = ''/''"
    and "run_ops cd_step ([''cd'', ''/''] # xs) (s, cwd) = Some (t, cwd')"
  shows "fs_cwd t = None \<and> fs_find_file nm t = None"
proof -
  obtain u where u: "cd_step [''cd'', ''/''] (s, cwd) = Some u" "run_ops cd_step xs u = Some (t, cwd')"
    using assms(2) by (auto split: bind_splits)
  have "trapped u"
    using u(1) assms(1) by (auto simp: cd_step_def cd_main_def trapped_def Let_def split: bind_splits)
  from cd_commands.run_inv [OF this u(2)] have "fs_cwd t = None" by (simp add: trapped_def)
  then show ?thesis
    by (simp add: fs_find_file_def fs_find_file_in_dir_def split: option.splits)
qed

lemma cd_root_traps_witness:
  "\<exists>t. run_ops cd_step [[''cd'', ''/''], [''cd'', ''d''], [''cd'', ''..'']] (demo_dir, replicate 257 1) = Some t \<and>
    fs_cwd (fst t) = None \<and> fs_find_file (Some ''d'') (fst t) = None"
proof -
  have "run_ops cd_step [[''cd'', ''/''], [''cd'', ''d''], [''cd'', ''..'']] (demo_dir, replicate 257 1) \<noteq> None"
    unfolding demo_dir_def by code_simp
  then obtain t c where t: "run_ops cd_step [[''cd'', ''/''], [''cd'', ''d''], [''cd'', ''..'']] (demo_dir, replicate 257 1) = Some (t, c)"
    by auto
  have "fs_count demo_dir = 2 \<and> f_name (fs_files demo_dir ! 0) = ''/'' \<and> f_parent (fs_files demo_dir ! 1) \<noteq> None"
    unfolding demo_dir_def by code_simp
  then have "f_name (fs_files demo_dir ! i) = ''/''"
    if "i < fs_count demo_dir" "f_parent (fs_files demo_dir ! i) = None" for i
    using that by (auto simp: numeral_2_eq_2 less_Suc_eq)
  from cd_root_traps [OF this t] t show ?thesis by (intro exI [of _ "(t, c)"]) simp
qed

section \<open>Paths\<close>

text \<open>The path of a directory that is at most so many steps below one without a parent.\<close>

fun path_from :: "fs_file list \<Rightarrow> nat \<Rightarrow> nat \<Rightarrow> u8 list" where
  "path_from files 0 d = []"
| "path_from files (Suc n) d =
     (case f_parent (files ! d) of None \<Rightarrow> []
      | Some p \<Rightarrow> path_from files n p @ [47] @ bytes (f_name (files ! d)))"

fun rooted :: "fs_file list \<Rightarrow> nat \<Rightarrow> nat \<Rightarrow> bool" where
  "rooted files 0 d \<longleftrightarrow> d < length files \<and> f_parent (files ! d) = None"
| "rooted files (Suc n) d \<longleftrightarrow>
     d < length files \<and> (case f_parent (files ! d) of None \<Rightarrow> True | Some p \<Rightarrow> rooted files n p)"

lemma pwd_stack:
  assumes "rooted files n d" "n < k"
  shows "walk_rest files k (Some d) = None \<and> walk_up files k (Some d) \<noteq> [] \<and> length (walk_up files k (Some d)) \<le> Suc n \<and>
    [47] @ concat (map (\<lambda>d. bytes (f_name (files ! d)) @ [47])
      (rev (take (length (walk_up files k (Some d)) - 1) (walk_up files k (Some d))))) = path_from files n d @ [47] \<and>
    (path_from files n d = [] \<longleftrightarrow> length (walk_up files k (Some d)) = 1)"
  using assms
proof (induction files n d arbitrary: k rule: path_from.induct)
  case (1 files d)
  then obtain j where "k = Suc j" by (cases k) simp_all
  with 1 show ?case by simp
next
  case (2 files n d)
  then obtain j where k: "k = Suc j" "n < j" by (cases k) simp_all
  show ?case
  proof (cases "f_parent (files ! d)")
    case None
    with k show ?thesis by simp
  next
    case (Some p)
    define st where "st = walk_up files j (Some p)"
    from Some "2.IH" [OF Some _ k(2)] "2.prems"(1) have IH: "walk_rest files j (Some p) = None" "st \<noteq> []" "length st \<le> Suc n"
      "[47] @ concat (map (\<lambda>d. bytes (f_name (files ! d)) @ [47]) (rev (take (length st - 1) st))) = path_from files n p @ [47]"
      by (simp_all add: st_def)
    have up: "walk_up files k (Some d) = d # st" using k Some by (simp add: st_def)
    obtain m where m: "length st = Suc m" using IH(2) by (cases st) simp_all
    have "rev (take (length (d # st) - 1) (d # st)) = rev (take (length st - 1) st) @ [d]"
      using m by simp
    with IH(4) have "[47] @ concat (map (\<lambda>d. bytes (f_name (files ! d)) @ [47]) (rev (take (length (d # st) - 1) (d # st)))) =
        path_from files n p @ [47] @ bytes (f_name (files ! d)) @ [47]" by simp
    with Some k IH m show ?thesis unfolding up by simp
  qed
qed

text \<open>One step of the loop in \<open>update_cwd\<close> puts a name in front.\<close>

lemma snprintf_part:
  assumes "length nm < 32"
  shows "vsnprintf PATH_MAX (bytes ''/%s'') [name_arg nm] = Some (47 # bytes nm)"
  using assms by (simp add: vsnprintf_def name_arg_def bytes_def ch_def small_conv_def Let_def)

lemma cwd_loop_path:
  assumes "rooted files n d" "\<forall>f \<in> set files. length (f_name f) < 32 \<and> 0 \<notin> set (bytes (f_name f))"
    and "temp = t @ 0 # rest" "length temp = 256" "0 \<notin> set t" "length (path_from files n d) + length t < 256"
  shows "\<exists>rest'. cwd_loop files (Some d) temp = Some (path_from files n d @ t @ 0 # rest') \<and>
    length (path_from files n d @ t @ 0 # rest') = 256 \<and> 0 \<notin> set (path_from files n d)"
  using assms
proof (induction files n d arbitrary: temp t rest rule: path_from.induct)
  case (1 files d)
  then show ?case by (subst cwd_loop.simps) simp
next
  case (2 files n d)
  show ?case
  proof (cases "f_parent (files ! d)")
    case None
    with 2 show ?thesis by (subst cwd_loop.simps) simp
  next
    case (Some p)
    let ?part = "47 # bytes (f_name (files ! d))"
    have d: "files ! d \<in> set files" using "2.prems"(1) Some by simp
    then have nm: "length (f_name (files ! d)) < 32" "0 \<notin> set ?part" using "2.prems"(2) by auto
    have len: "strlen temp 0 = Some (length t)"
      using "2.prems"(3-5) by (intro strlen_cstr) (simp add: cstr_def nth_append)
    have room: "length ?part + length t < 256" "length (path_from files n p) + length (?part @ t) < 256"
      using "2.prems"(6) Some by simp_all
    let ?L = "length ?part"
    have sl: "slice temp 0 (length t + 1) = t @ [0]" using "2.prems"(3) by (simp add: slice_def)
    have "?L + (length t + 1) \<le> length temp" "0 + (length t + 1) \<le> length temp"
      using room(1) "2.prems"(4) by simp_all
    from memcpy_blit [OF this] memmove_down_blit [OF this]
    have mv: "memmove ?L 0 (length t + 1) temp = Some (blit ?L (t @ [0]) temp)"
      using sl by (simp add: memmove_def)
    have b: "blit ?L (t @ [0]) temp = take ?L temp @ t @ 0 # drop (?L + length t + 1) temp"
      by (simp add: blit_def)
    have tl: "length (take ?L temp) = ?L" using room(1) "2.prems"(4) by simp
    let ?temp = "(?part @ t) @ 0 # drop (?L + length t + 1) temp"
    have cp: "copy_into (take ?L temp @ t @ 0 # drop (?L + length t + 1) temp) 0 ?part ?L = Some ?temp"
      using tl by (simp add: copy_into_def del: length_take)
    have lt: "length ?temp = 256" using room(1) "2.prems"(4) by simp
    have "\<exists>rest'. cwd_loop files (Some p) ?temp = Some (path_from files n p @ (?part @ t) @ 0 # rest') \<and>
        length (path_from files n p @ (?part @ t) @ 0 # rest') = 256 \<and> 0 \<notin> set (path_from files n p)"
    proof (rule "2.IH" [OF Some])
      show "rooted files n p" using "2.prems"(1) Some by simp
      show "0 \<notin> set (?part @ t)" using nm(2) "2.prems"(5) by simp
    qed (use "2.prems"(2) room(2) lt in \<open>simp_all\<close>)
    then obtain rest' where
      r: "cwd_loop files (Some p) ?temp = Some (path_from files n p @ (?part @ t) @ 0 # rest')"
      "length (path_from files n p @ (?part @ t) @ 0 # rest') = 256" "0 \<notin> set (path_from files n p)"
      by blast
    have "cwd_loop files (Some d) temp = cwd_loop files (Some p) ?temp"
      using Some len mv b cp by (subst cwd_loop.simps) (simp add: snprintf_part [OF nm(1)])
    with r nm(2) Some show ?thesis by (intro exI [of _ rest']) simp
  qed
qed

text \<open>The array and the byte behind it after the path has been copied.\<close>

lemma update_cwd_path:
  assumes "fs_cwd s = Some d" "rooted (fs_files s) n d"
    and "\<forall>f \<in> set (fs_files s). length (f_name f) < 32 \<and> 0 \<notin> set (bytes (f_name f))"
    and "length (path_from (fs_files s) n d) < 256" "256 < length cwd"
  shows "update_cwd s cwd = Some (take 257 ((if path_from (fs_files s) n d = [] then [47] else path_from (fs_files s) n d)
    @ replicate 257 0) @ drop 257 cwd)"
proof -
  let ?p = "path_from (fs_files s) n d"
  have "replicate 256 (0 :: u8) = [] @ 0 # replicate 255 0" by (simp add: numeral_eq_Suc)
  from cwd_loop_path [OF assms(2,3) this] assms(4) obtain rest where
    l: "cwd_loop (fs_files s) (Some d) (replicate 256 0) = Some (?p @ 0 # rest)" "length (?p @ 0 # rest) = 256"
      "0 \<notin> set ?p" by auto
  have len: "strlen (?p @ 0 # rest) 0 = Some (length ?p)"
    using l(3) by (intro strlen_cstr) (simp add: cstr_def nth_append)
  define q where "q = (if ?p = [] then [47] else ?p)"
  obtain rest2 where t: "(if length ?p = 0 then copy_into (?p @ 0 # rest) 0 [47, 0] 2 else Some (?p @ 0 # rest)) = Some (q @ 0 # rest2)"
    and t2: "length (q @ 0 # rest2) = 256" "0 \<notin> set q" "length q < 256"
  proof (cases "?p = []")
    case True
    then obtain c r where "rest = c # r" using l(2) by (cases rest) auto
    with True l(2) that [of r] show ?thesis by (simp add: q_def copy_into_def)
  next
    case False
    with l that [of rest] assms(4) show ?thesis by (simp add: q_def)
  qed
  have q: "cstr (cwd @ q @ 0 # rest2) (length cwd) q" using t2(2) by (simp add: cstr_def nth_append)
  have "0 + 256 < length (cwd @ q @ 0 # rest2)" "0 + 256 < length cwd \<or> length cwd + length q < 0"
    using assms(5) by simp_all
  define m where "m = (q @ replicate (257 - length q) 0) @ drop 257 (cwd @ q @ 0 # rest2)"
  define b where "b = (q @ replicate (257 - length q) 0) @ drop 257 cwd"
  from strncpy_writes [OF q \<open>0 + 256 < _\<close> \<open>_ \<or> _\<close>] have c: "strncpy 0 (length cwd) 256 (cwd @ q @ 0 # rest2) = Some m"
    using t2(3) by (simp add: blit_def m_def)
  have mb: "take (length cwd) m = b" using t2(3) assms(5) by (simp add: m_def b_def)
  have "255 - length q < 257 - length q" using t2(3) by arith
  then have "b ! 255 = 0" using t2(3) by (simp add: nth_append b_def)
  then have w: "wr b 255 0 = Some b" using t2(3) assms(5) by (simp add: wr_def list_update_same_conv b_def)
  have "take 257 (q @ replicate 257 0) @ drop 257 cwd = b" using t2(3) by (simp add: b_def)
  with assms(1) l(1) len t c mb w show ?thesis
    unfolding q_def [symmetric] by (simp add: update_cwd_def)
qed

text \<open>\<open>cd\<close> into a directory, to the next one up, or nowhere: the array \<open>cwd\<close> holds the path of the
  new directory, and the byte behind the array is overwritten with a zero, every time.\<close>

theorem cd_writes_path:
  assumes "cd_main [''cd'', nm] s cwd = Some (0, out, t, cwd')" "nm \<noteq> ''.''"
    and "fs_cwd t = Some d" "rooted (fs_files s) n d" "256 < length cwd"
    and "\<forall>f \<in> set (fs_files s). length (f_name f) < 32 \<and> 0 \<notin> set (bytes (f_name f))"
    and "length (path_from (fs_files s) n d) < 256"
  shows "take 256 cwd' = take 256 ((if path_from (fs_files s) n d = [] then [47] else path_from (fs_files s) n d)
      @ replicate 256 0) \<and> cwd' ! 256 = 0 \<and> drop 257 cwd' = drop 257 cwd"
proof -
  have t: "fs_files t = fs_files s" "update_cwd t cwd = Some cwd'"
    using assms(1,2) by (auto simp: cd_main_def Let_def split: if_splits option.splits bind_splits)
  let ?p = "path_from (fs_files s) n d"
  define q where "q = (if ?p = [] then [47] else ?p)"
  have q: "length q < 256" using assms(7) by (simp add: q_def)
  from update_cwd_path [of t d n cwd] assms(3-7) t
  have "cwd' = take 257 (q @ replicate 257 0) @ drop 257 cwd" by (simp add: q_def)
  moreover have "take 257 (q @ replicate 257 0) = q @ replicate (257 - length q) 0" using q by simp
  moreover have "256 - length q < 257 - length q" using q by arith
  ultimately show ?thesis
    using q unfolding q_def [symmetric] by (simp add: nth_append min_def)
qed

lemma cd_writes_path_witness:
  "\<exists>t cwd'. cd_main [''cd'', ''d''] demo_dir (replicate 300 7) = Some (0, [], t, cwd') \<and>
    take 256 cwd' = bytes ''/d'' @ replicate 254 0 \<and> cwd' ! 256 = 0 \<and> drop 257 cwd' = replicate 43 7"
proof -
  have f: "rooted (fs_files demo_dir) 1 1 \<and> path_from (fs_files demo_dir) 1 1 = bytes ''/d'' \<and>
      list_all (\<lambda>f. length (f_name f) < 32 \<and> 0 \<notin> set (bytes (f_name f))) (fs_files demo_dir)"
    unfolding demo_dir_def by code_simp
  have d: "bytes ''/d'' = [47, 100]" by code_simp
  have find: "find_first (\<lambda>i. f_is_dir (fs_files demo_dir ! i) \<and> f_name (fs_files demo_dir ! i) = ''d'' \<and>
      f_parent (fs_files demo_dir ! i) = Some 0) [0..<fs_count demo_dir] = Some 1 \<and> fs_cwd demo_dir = Some 0"
    unfolding demo_dir_def by code_simp
  have "update_cwd (demo_dir\<lparr>fs_cwd := Some 1\<rparr>) (replicate 300 7) \<noteq> None"
    using update_cwd_path [of "demo_dir\<lparr>fs_cwd := Some 1\<rparr>" 1 1 "replicate 300 7"] f
    by (simp add: list_all_iff bytes_def del: path_from.simps rooted.simps One_nat_def)
  then obtain t cwd' where r: "cd_main [''cd'', ''d''] demo_dir (replicate 300 7) = Some (0, [], t, cwd')" "fs_cwd t = Some 1"
    using find by (auto simp: cd_main_def)
  have "take 256 cwd' = take 256 (bytes ''/d'' @ replicate 256 0) \<and> cwd' ! 256 = 0 \<and> drop 257 cwd' = drop 257 (replicate 300 7)"
    using cd_writes_path [OF r(1) _ r(2), of 1] f
    by (auto simp: list_all_iff d simp del: path_from.simps rooted.simps One_nat_def)
  with r(1) show ?thesis by (simp add: d)
qed

text \<open>\<open>pwd\<close> prints the path of the current directory, and takes the slash behind it back.\<close>

lemma those_map: "(\<And>x. x \<in> set xs \<Longrightarrow> f x = Some (g x)) \<Longrightarrow> those (map f xs) = Some (map g xs)"
  by (induction xs) simp_all

lemma pwd_prints_path:
  assumes "fs_cwd s = Some d" "rooted (fs_files s) n d" "n < 63"
    and "\<forall>f \<in> set (fs_files s). f_name f \<noteq> []"
  shows "pwd_main s = Some (0, path_from (fs_files s) n d @ (if path_from (fs_files s) n d = [] then [47, 10]
    else [47, 8, 32, 8, 10]), s)"
proof -
  define stack where "stack = walk_up (fs_files s) 64 (Some d)"
  define parts where "parts = rev (take (length stack - 1) stack)"
  note st = pwd_stack [OF assms(2), of 64, folded stack_def]
  have st: "walk_rest (fs_files s) 64 (Some d) = None" "length stack \<le> 63"
    "[47] @ concat (map (\<lambda>d. bytes (f_name (fs_files s ! d)) @ [47]) parts) = path_from (fs_files s) n d @ [47]"
    "path_from (fs_files s) n d = [] \<longleftrightarrow> length stack = 1" "stack \<noteq> []"
    using st assms(3) by (simp_all add: parts_def)
  have in_files: "\<forall>x \<in> set (walk_up (fs_files s) k (Some d)). x < length (fs_files s)" if "rooted (fs_files s) n d" for k n d
    using that
  proof (induction "fs_files s" n d arbitrary: k rule: rooted.induct)
    case (1 d)
    then show ?case by (cases k) auto
  next
    case (2 n d)
    then show ?case by (cases k) (auto split: option.splits)
  qed
  have "f_name (fs_files s ! x) \<noteq> []" if "x \<in> set parts" for x
    using that in_files [OF assms(2), of 64] assms(4) by (auto simp: parts_def stack_def dest!: in_set_takeD)
  moreover have "printf (bytes ''%s/'') [name_arg nm] = Some (bytes nm @ [47])" for nm
    by (rule printf_text) (simp add: bytes_def ch_def name_arg_def)
  ultimately have those: "those (map (\<lambda>d. let nm = f_name (fs_files s ! d) in
      if nm = [] then Some [] else printf (bytes ''%s/'') [name_arg nm]) parts) =
      Some (map (\<lambda>d. bytes (f_name (fs_files s ! d)) @ [47]) parts)"
    by (intro those_map) (simp add: Let_def)
  have slash: "printf (bytes ''/'') [] = Some [47]" "printf [8, 32, 8] [] = Some [8, 32, 8]" "printf [10] [] = Some [10]"
    by (simp_all add: printf_text bytes_def ch_def)
  have "pwd_main s = Some (0, [47] @ concat (map (\<lambda>d. bytes (f_name (fs_files s ! d)) @ [47]) parts) @
      (if length stack > 1 then [8, 32, 8] else []) @ [10], s)"
    using assms(1) st(1,2) those slash unfolding parts_def
    by (auto simp: pwd_main_def Let_def simp flip: stack_def)
  moreover have "length stack > 1 \<longleftrightarrow> path_from (fs_files s) n d \<noteq> []"
    using st(4,5) by (cases stack; cases "tl stack") simp_all
  moreover have "concat (map (\<lambda>d. bytes (f_name (fs_files s ! d)) @ [47]) parts) = []" if "path_from (fs_files s) n d = []"
    using st(3) that by simp
  ultimately show ?thesis
    using st(3) by (cases "path_from (fs_files s) n d = []") (simp_all flip: append_assoc)
qed

end
