(* ===== verification/Unistd.thy ===== *)
theory Unistd
  imports Prelude Fs Fstools
begin

text \<open>
  File descriptors, \<open>lib/libc/unistd.c\<close>: a table from descriptors to files on top of \<open>Fs\<close>.  A
  \<open>File*\<close> is a slot of the file system.  Positions and sizes are 32 bits wide, offsets 64.
\<close>

abbreviation MAX_FDS :: nat where "MAX_FDS \<equiv> 32"
abbreviation O_CREAT :: int where "O_CREAT \<equiv> 4"
abbreviation O_TRUNC :: int where "O_TRUNC \<equiv> 8"

record posix =
  px_fs :: fs
  fd_table :: "nat option list"

definition file_of :: "nat \<Rightarrow> posix \<Rightarrow> fs_file" where
  "file_of i st = fs_files (px_fs st) ! i"

definition put_file :: "nat \<Rightarrow> fs_file \<Rightarrow> posix \<Rightarrow> posix" where
  "put_file i f st = st\<lparr>px_fs := set_file i f (px_fs st)\<rparr>"

text \<open>The sum of two sizes.\<close>

definition size_add :: "nat \<Rightarrow> nat \<Rightarrow> nat" where
  "size_add a b = nat ((int a + int b) mod 2 ^ 32)"

definition alloc_fd :: "nat \<Rightarrow> posix \<Rightarrow> posix \<times> int" where
  "alloc_fd i st =
     (case find_first (\<lambda>fd. fd_table st ! fd = None) [3..<MAX_FDS] of
        None \<Rightarrow> (st, -1)
      | Some fd \<Rightarrow>
          (put_file i ((file_of i st)\<lparr>f_is_open := True, f_position := 0\<rparr>)
             (st\<lparr>fd_table := (fd_table st)[fd := Some i]\<rparr>), int fd))"

definition get_file :: "int \<Rightarrow> posix \<Rightarrow> nat option" where
  "get_file fd st = (if fd < 0 \<or> fd \<ge> int MAX_FDS then None else fd_table st ! nat fd)"

text \<open>The last part of \<open>open\<close> (\<open>open_path\<close> below), for a file that exists.\<close>

definition open_file :: "nat \<Rightarrow> int \<Rightarrow> posix \<Rightarrow> (posix \<times> int) option" where
  "open_file i flags st =
     (let (st, fd) = alloc_fd i st in
      if fd < 0 then Some (st, -1)
      else if flags AND O_TRUNC \<noteq> 0 then
        case f_data (file_of i st) of
          None \<Rightarrow> Some (st, fd)
        | Some d \<Rightarrow>
            do { d \<leftarrow> copy_into d 0 (replicate (f_allocated (file_of i st)) 0) (f_allocated (file_of i st));
                 Some (put_file i ((file_of i st)\<lparr>f_data := Some d, f_size := 0, f_position := 0\<rparr>) st, fd) }
      else Some (st, fd))"

definition open_path :: "env \<Rightarrow> string \<Rightarrow> int \<Rightarrow> posix \<Rightarrow> (posix \<times> int) option" where
  "open_path env pathname flags st =
     (case fs_find_file (Some pathname) (px_fs st) of
        Some i \<Rightarrow> open_file i flags st
      | None \<Rightarrow>
          if flags AND O_CREAT \<noteq> 0 then
            let (s, res) = fs_create (env_heap env (px_fs st)) (env_clock env (px_fs st)) (Some pathname) (px_fs st);
                st = st\<lparr>px_fs := s\<rparr>
            in if res < 0 then Some (st, -1)
               else case fs_find_file (Some pathname) s of None \<Rightarrow> Some (st, -1) | Some i \<Rightarrow> open_file i flags st
          else Some (st, -1))"

definition close_fd :: "int \<Rightarrow> posix \<Rightarrow> posix \<times> int" where
  "close_fd fd st =
     (case get_file fd st of
        None \<Rightarrow> (st, -1)
      | Some i \<Rightarrow>
          (put_file i ((file_of i st)\<lparr>f_is_open := False\<rparr>) (st\<lparr>fd_table := (fd_table st)[nat fd := None]\<rparr>), 0))"

text \<open>The bytes that \<open>read\<close> (\<open>read_fd\<close>) stores, and what it returns.\<close>

definition read_fd :: "int \<Rightarrow> nat \<Rightarrow> posix \<Rightarrow> (posix \<times> u8 list \<times> int) option" where
  "read_fd fd count st =
     (case get_file fd st of
        None \<Rightarrow> Some (st, [], -1)
      | Some i \<Rightarrow>
          let f = file_of i st in
          if \<not> f_is_open f then Some (st, [], -1)
          else if f_position f \<ge> f_size f then Some (st, [], 0)
          else
            let n = (if size_add (f_position f) count > f_size f then f_size f - f_position f else count)
            in do { d \<leftarrow> f_data f;
                    bs \<leftarrow> (if f_position f + n \<le> length d then Some (take n (drop (f_position f) d)) else None);
                    Some (put_file i (f\<lparr>f_position := size_add (f_position f) n\<rparr>) st, bs, int n) })"

definition write_fd :: "env \<Rightarrow> int \<Rightarrow> u8 list \<Rightarrow> nat \<Rightarrow> posix \<Rightarrow> (posix \<times> int) option" where
  "write_fd env fd buf count st =
     (case get_file fd st of
        None \<Rightarrow> Some (st, -1)
      | Some i \<Rightarrow>
          if \<not> f_is_open (file_of i st) then Some (st, -1)
          else
            let needed_size = size_add (f_position (file_of i st)) count;
                (s, res) = (if needed_size > f_allocated (file_of i st)
                            then fs_resize_file (env_heap env (px_fs st)) (env_clock env (px_fs st)) (Some i) needed_size (px_fs st)
                            else (px_fs st, FS_SUCCESS));
                st = st\<lparr>px_fs := s\<rparr>; f = file_of i st
            in if res \<noteq> FS_SUCCESS then Some (st, -1)
               else if f_data f = None \<and> count = 0 then Some (st, 0)
               else
                 do { d \<leftarrow> f_data f;
                      d \<leftarrow> copy_into d (f_position f) buf count;
                      let pos = size_add (f_position f) count
                      in Some (put_file i (f\<lparr>f_data := Some d, f_position := pos,
                           f_size := (if pos > f_size f then pos else f_size f)\<rparr>) st, int count) })"

datatype whence = SEEK_SET | SEEK_CUR | SEEK_END | SEEK_OTHER

text \<open>The bound is compared, and the position set, after a conversion to 32 bits.\<close>

definition lseek :: "int \<Rightarrow> int \<Rightarrow> whence \<Rightarrow> posix \<Rightarrow> posix \<times> int" where
  "lseek fd offset whence st =
     (case get_file fd st of
        None \<Rightarrow> (st, -1)
      | Some i \<Rightarrow>
          let f = file_of i st in
          if \<not> f_is_open f \<or> whence = SEEK_OTHER then (st, -1)
          else
            let new_pos = (case whence of
                  SEEK_CUR \<Rightarrow> wrap64 (int (f_position f) + offset)
                | SEEK_END \<Rightarrow> wrap64 (int (f_size f) + offset)
                | _ \<Rightarrow> offset)
            in if new_pos < 0 \<or> nat (new_pos mod 2 ^ 32) > f_size f then (st, -1)
               else (put_file i (f\<lparr>f_position := nat (new_pos mod 2 ^ 32)\<rparr>) st, new_pos))"

definition unlink :: "string \<Rightarrow> posix \<Rightarrow> posix \<times> int" where
  "unlink pathname st = (let (s, r) = fs_delete (Some pathname) (px_fs st) in (st\<lparr>px_fs := s\<rparr>, r))"

definition chdir :: "string \<Rightarrow> posix \<Rightarrow> (posix \<times> int) option" where
  "chdir path st = do { (s, r) \<leftarrow> fs_chdir (Some path) (px_fs st); Some (st\<lparr>px_fs := s\<rparr>, r) }"

definition getcwd :: "bool \<Rightarrow> nat \<Rightarrow> posix \<Rightarrow> string option" where
  "getcwd buf sz st = fs_getcwd buf sz (px_fs st)"

definition isatty :: "int \<Rightarrow> int" where "isatty fd = 0"

definition access :: "string \<Rightarrow> int \<Rightarrow> posix \<Rightarrow> int" where
  "access pathname mode st = (if fs_find_file (Some pathname) (px_fs st) \<noteq> None then 0 else -1)"

definition getpid :: int where "getpid = 1"

text \<open>The loop of \<open>sleep\<close> counts up to a product that wraps, so it ends; the result is 0.\<close>

function sleep_loop :: "u32 \<Rightarrow> u32 \<Rightarrow> u32" where
  "sleep_loop i bound = (if i < bound then sleep_loop (i + 1) bound else i)"
  by pat_completeness auto
termination
proof (relation "measure (\<lambda>(i, bound). unat bound - unat i)")
  fix i bound :: u32
  assume "i < bound"
  moreover have "unat bound < 2 ^ 32" using unsigned_less [of bound] by simp
  ultimately have "unat (i + 1) = unat i + 1" by (simp add: unat_word_ariths word_less_nat_alt)
  with \<open>i < bound\<close> show "((i + 1, bound), (i, bound)) \<in> measure (\<lambda>(i, bound). unat bound - unat i)"
    by (simp add: word_less_nat_alt)
qed simp

declare sleep_loop.simps [simp del]

definition sleep :: "u32 \<Rightarrow> u32" where
  "sleep seconds = (let _ = sleep_loop 0 (seconds * 1000000) in 0)"

section \<open>Lemmas\<close>

lemma size_add: "a + b < 2 ^ 32 \<Longrightarrow> size_add a b = a + b"
proof -
  assume "a + b < 2 ^ 32"
  then have "int (a + b) < int (2 ^ 32)" by (simp only: of_nat_less_iff)
  then have "(int a + int b) mod 2 ^ 32 = int (a + b)" by simp
  then show ?thesis unfolding size_add_def by (metis nat_int)
qed

lemma put_file_simps [simp]:
  "px_fs (put_file i f st) = set_file i f (px_fs st)" "fd_table (put_file i f st) = fd_table st"
  "get_file fd (put_file i f st) = get_file fd st" "put_file i f (put_file i g st) = put_file i f st"
  by (simp_all add: put_file_def get_file_def)

lemma file_of_put: "i < length (fs_files (px_fs st)) \<Longrightarrow> file_of i (put_file i f st) = f"
  by (simp add: file_of_def)

text \<open>All descriptors of a file share its open flag and its position: once one is closed, the
  others refuse to read, and still occupy the table.\<close>

lemma close_shared:
  assumes "get_file a st = Some i" "get_file b st = Some i" "a \<noteq> b" "i < length (fs_files (px_fs st))"
    and "close_fd a st = (s, r)"
  shows "r = 0 \<and> get_file b s = Some i \<and> read_fd b n s = Some (s, [], -1)"
proof -
  have s: "s = put_file i ((file_of i st)\<lparr>f_is_open := False\<rparr>) (st\<lparr>fd_table := (fd_table st)[nat a := None]\<rparr>)"
    and r: "r = 0" using assms(1,5) by (simp_all add: close_fd_def)
  have "nat a \<noteq> nat b" using assms(1-3) by (auto simp: get_file_def split: if_splits)
  then have get: "get_file b s = Some i" using assms(2) unfolding s put_file_simps
    by (auto simp: get_file_def split: if_splits)
  have "\<not> f_is_open (file_of i s)" unfolding s using assms(4) by (simp add: file_of_put)
  with get r show ?thesis by (simp add: read_fd_def)
qed

text \<open>An offset of \<open>2 ^ 32\<close> passes the bound of \<open>lseek\<close>: the position becomes 0, the result is the
  offset.\<close>

lemma lseek_truncates:
  assumes "get_file fd st = Some i" "f_is_open (file_of i st)"
  shows "lseek fd (2 ^ 32) SEEK_SET st = (put_file i ((file_of i st)\<lparr>f_position := 0\<rparr>) st, 2 ^ 32)"
  using assms by (simp add: lseek_def)

section \<open>Properties\<close>

text \<open>What is written through a descriptor is read back through it: on an open file, for a write
  that ends within the maximal file size, on a heap that does not fail, \<open>write\<close> stores all bytes,
  \<open>lseek\<close> goes back by their number, and \<open>read\<close> returns them.\<close>

theorem fd_write_read:
  assumes "fs_wf (px_fs st)" "alloc_ok (env_heap env (px_fs st))" "alloc_full (env_heap env (px_fs st))"
    and "get_file fd st = Some i" "used (px_fs st) i" "f = file_of i st" "f_is_open f" "\<not> f_is_dir f"
    and "f_position f + length buf \<le> MAX_FILE_SIZE" "buf \<noteq> []"
  shows "\<exists>s1 s2 s3. write_fd env fd buf (length buf) st = Some (s1, int (length buf)) \<and>
    lseek fd (- int (length buf)) SEEK_CUR s1 = (s2, int (f_position f)) \<and>
    read_fd fd (length buf) s2 = Some (s3, buf, int (length buf))"
proof -
  let ?n = "length buf" and ?p = "f_position f" and ?s = "px_fs st"
  have f: "f = fs_files ?s ! i" using assms(6) by (simp add: file_of_def)
  have len: "i < length (fs_files ?s)" using assms(5) fs_wf_dest(1) [OF assms(1)] by (simp add: used_def)
  from fs_wf_dest(6) [OF assms(1,5)] assms(8) f obtain d0 where d0: "f_data f = Some d0" "length d0 = f_allocated f"
    "f_size f \<le> f_allocated f" "?p \<le> f_allocated f" "f_allocated f \<le> MAX_FILE_SIZE" by (auto simp: file_ok_def)
  have add: "size_add ?p ?n = ?p + ?n" using assms(9) by (intro size_add) simp
  obtain s' g d where res: "(if ?p + ?n > f_allocated f
      then fs_resize_file (env_heap env ?s) (env_clock env ?s) (Some i) (?p + ?n) ?s else (?s, FS_SUCCESS)) = (s', FS_SUCCESS)"
    and s': "s' = set_file i g ?s" and g: "f_data g = Some d" "f_position g = ?p" "f_is_open g" "?p + ?n \<le> length d" "f_size g \<le> length d"
  proof (cases "?p + ?n > f_allocated f")
    case True
    have no: "env_heap env ?s k \<noteq> None" if "k \<le> MAX_FILE_SIZE" for k
      using assms(3) that unfolding alloc_full_def by blast
    from fs_resize_file_spec [OF assms(1,2,5) assms(8) [unfolded f], of "env_clock env ?s" "?p + ?n"] no obtain d a where
      "fs_resize_file (env_heap env ?s) (env_clock env ?s) (Some i) (?p + ?n) ?s =
        (set_file i (f\<lparr>f_data := Some d, f_allocated := a, f_size := min (?p + ?n) MAX_FILE_SIZE,
          f_modified := env_clock env ?s\<rparr>) ?s, FS_SUCCESS)" "length d = a" "min (?p + ?n) MAX_FILE_SIZE \<le> a"
      unfolding f by blast
    with True that show ?thesis using assms(7,9) by simp
  next
    case False
    then show ?thesis using that [of ?s f d0] d0 assms(7) f by (simp add: set_file_same)
  qed
  let ?d = "take ?p d @ buf @ drop (?p + ?n) d"
  let ?sz = "if ?p + ?n > f_size g then ?p + ?n else f_size g"
  let ?g = "g\<lparr>f_data := Some ?d, f_position := ?p + ?n, f_size := ?sz\<rparr>"
  have copy: "copy_into d ?p buf ?n = Some ?d" using g(4) by (simp add: copy_into_def)
  have fl: "file_of i (st\<lparr>px_fs := s'\<rparr>) = g" using len by (simp add: file_of_def s')
  have get: "get_file fd (st\<lparr>px_fs := u\<rparr>) = Some i" for u
    using assms(4) by (auto simp: get_file_def split: if_splits)
  let ?s1 = "put_file i ?g (st\<lparr>px_fs := s'\<rparr>)"
  have w: "write_fd env fd buf ?n st = Some (?s1, int ?n)"
    using assms(4,7,10) res fl g copy add unfolding write_fd_def by (simp add: Let_def flip: assms(6))
  have f1: "file_of i ?s1 = ?g" using len by (simp add: file_of_put s')
  let ?s2 = "put_file i (?g\<lparr>f_position := ?p\<rparr>) ?s1"
  have pos: "(int (f_position ?g) + - int ?n) = int ?p" by simp
  have w64: "Strconv.wrap64 (int ?p) = int ?p" using assms(9) by simp
  have psz: "?p \<le> ?sz" "int ?p mod 2 ^ 32 = int ?p" using assms(9) by simp_all
  have get1: "get_file fd ?s1 = Some i" by (simp add: get)
  have ch: "f_is_open ?g" "f_position ?g = ?p + ?n" "f_size ?g = ?sz" using g(3) by simp_all
  have "\<not> (int ?p < 0 \<or> nat (int ?p mod 2 ^ 32) > ?sz)" using psz by simp
  then have l: "lseek fd (- int ?n) SEEK_CUR ?s1 = (?s2, int ?p)"
    unfolding lseek_def get1 option.case f1 Let_def ch pos [symmetric]
    using w64 psz(2) g(3) by simp
  have f2: "file_of i ?s2 = ?g\<lparr>f_position := ?p\<rparr>" using len by (simp add: file_of_put s')
  have get2: "get_file fd ?s2 = Some i" by (simp add: get)
  have "?n > 0" using assms(10) by simp
  then have "?p < ?sz" by (auto simp del: length_greater_0_conv)
  then have "read_fd fd ?n ?s2 = Some (put_file i (?g\<lparr>f_position := ?p\<rparr>\<lparr>f_position := size_add ?p ?n\<rparr>) ?s2, buf, int ?n)"
    unfolding read_fd_def get2 option.case f2 Let_def using g ch add by simp
  with w l show ?thesis by blast
qed

text \<open>A table with one descriptor, 3, for the open file of \<open>demo_fs\<close>.\<close>

definition demo_posix :: posix where
  "demo_posix = \<lparr>px_fs = demo_fs, fd_table = (replicate MAX_FDS None)[3 := Some 1]\<rparr>"

lemma fd_write_read_witness:
  "\<exists>s1 s2 s3. write_fd demo_env 3 [104, 105] 2 demo_posix = Some (s1, 2) \<and>
    lseek 3 (-2) SEEK_CUR s1 = (s2, 0) \<and> read_fd 3 2 s2 = Some (s3, [104, 105], 2)"
proof -
  have "get_file 3 demo_posix = Some 1" by (simp add: get_file_def demo_posix_def)
  moreover have "used (px_fs demo_posix) 1"
    using found_file [OF demo_fs_wf, of "Some ''a''" 1] demo_fs_file by (simp add: demo_posix_def)
  moreover have fof: "file_of 1 demo_posix = fs_files demo_fs ! 1" and fs: "px_fs demo_posix = demo_fs"
    and heap: "env_heap demo_env demo_fs = zero_heap"
    by (simp_all add: file_of_def demo_posix_def demo_env_def)
  moreover have "f_position (file_of 1 demo_posix) + length [104, 105 :: u8] \<le> MAX_FILE_SIZE"
    using demo_fs_file fof by simp
  ultimately have "\<exists>s1 s2 s3. write_fd demo_env 3 [104, 105] (length [104, 105 :: u8]) demo_posix =
      Some (s1, int (length [104, 105 :: u8])) \<and>
    lseek 3 (- int (length [104, 105 :: u8])) SEEK_CUR s1 = (s2, int (f_position (file_of 1 demo_posix))) \<and>
    read_fd 3 (length [104, 105 :: u8]) s2 = Some (s3, [104, 105], int (length [104, 105 :: u8]))"
    using demo_fs_wf demo_fs_file zero_heap_ok
    by (intro fd_write_read [OF _ _ _ _ _ refl]) (simp_all add: fs heap fof del: One_nat_def)
  moreover have "f_position (file_of 1 demo_posix) = 0" "length [104, 105 :: u8] = 2"
    using demo_fs_file fof by simp_all
  ultimately show ?thesis by (simp add: numeral_2_eq_2)
qed

end
