(* ===== verification/Format.thy ===== *)
theory Format
  imports Prelude Stdio
begin

text \<open>
  The types of formats for \<open>vprintf\<close> of \<open>lib/libc/stdio.c\<close>: \<open>fmt_kinds\<close> reads off a format which
  arguments its directives take, and the formatter gives a result for exactly the argument lists
  that begin with arguments of these kinds.
\<close>

section \<open>Numbers always print\<close>

lemma sdiv_bound:
  fixes num base :: int
  assumes "\<bar>num\<bar> < 2 ^ Suc k" "2 \<le> base"
  shows "\<bar>num sdiv base\<bar> < 2 ^ k"
proof -
  have "\<bar>num\<bar> div base \<le> \<bar>num\<bar> div 2" using assms(2) by (intro zdiv_mono2) simp_all
  also have "\<dots> < 2 ^ k" using assms(1) by simp
  finally have "\<bar>num\<bar> div base < 2 ^ k" .
  moreover have "0 \<le> \<bar>num\<bar> div base" using assms(2) by (simp add: pos_imp_zdiv_nonneg_iff)
  ultimately show ?thesis using assms(2)
    by (auto simp: signed_divide_int_def abs_mult sgn_if)
qed

lemma itoa_loop_ends: "\<bar>num\<bar> < 2 ^ fuel \<Longrightarrow> 2 \<le> base \<Longrightarrow> \<exists>ds. itoa_loop fuel num base = Some ds"
proof (induction fuel arbitrary: num)
  case 0
  then show ?case by simp
next
  case (Suc fuel)
  from Suc.IH [OF sdiv_bound [OF Suc.prems]] Suc.prems show ?case by auto
qed

lemma itoa_ends:
  assumes "int32_range num" "2 \<le> base"
  shows "\<exists>s. itoa num base = Some s"
proof -
  let ?n = "if num < 0 \<and> base = 10 then wrap32 (- num) else num"
  have "int32_range ?n" using assms(1) by simp
  then have "\<bar>?n\<bar> < 2 ^ 33" by (simp only: int32_range_def abs_less_iff) (simp split: if_splits)
  from itoa_loop_ends [OF this assms(2)] show ?thesis
    by (auto simp: itoa_def to_string_def Let_def)
qed

lemma itoa_word_ends: "2 \<le> base \<Longrightarrow> \<exists>s. itoa (sint (w :: u32)) base = Some s"
  by (rule itoa_ends [OF sint_range])

section \<open>Kinds\<close>

datatype fmt_kind = KNum | KStr

text \<open>The kinds of the arguments that a conversion character takes, and the format left.\<close>

definition conv_kinds :: "u8 \<Rightarrow> u8 list \<Rightarrow> (fmt_kind list \<times> u8 list) option" where
  "conv_kinds k p =
     (if k = ch CHR ''z'' then if peek p = ch CHR ''u'' then Some ([KNum], tl p) else Some ([], p)
      else if k = ch CHR ''s'' then Some ([KStr], p)
      else if k \<in> set (bytes ''dixXocup'') then Some ([KNum], p)
      else if k = ch CHR ''f'' \<or> k = ch CHR ''F'' then None
      else Some ([], p))"

definition star_kinds :: "u8 list \<Rightarrow> fmt_kind list \<times> u8 list" where
  "star_kinds p = (if peek p = ch CHR ''*'' then ([KNum], tl p) else ([], snd (parse_number 0 p)))"

definition directive_kinds :: "u8 list \<Rightarrow> (fmt_kind list \<times> u8 list) option" where
  "directive_kinds p =
     (let (k1, p) = star_kinds (snd (parse_flags p spec0));
          (k2, p) = (if peek p = ch CHR ''.'' then star_kinds (tl p) else ([], p))
      in case skip_length p of [] \<Rightarrow> None
         | k # p \<Rightarrow> do { (k3, p) \<leftarrow> conv_kinds k p; Some (k1 @ k2 @ k3, p) })"

fun fits :: "fmt_kind list \<Rightarrow> arg list \<Rightarrow> bool" where
  "fits [] args \<longleftrightarrow> True"
| "fits (KNum # ks) (Num w # args) \<longleftrightarrow> fits ks args"
| "fits (KStr # ks) (Str s # args) \<longleftrightarrow> fits ks args"
| "fits (k # ks) args \<longleftrightarrow> False"

lemma fits_append: "fits (ks @ ks') args \<longleftrightarrow> fits ks args \<and> fits ks' (drop (length ks) args)"
  by (induction ks args rule: fits.induct) simp_all

lemma va_num_fits: "fits [KNum] args \<Longrightarrow> \<exists>w. va_num args = Some (w, drop 1 args)"
  "\<not> fits [KNum] args \<Longrightarrow> va_num args = None"
  by (cases args rule: va_num.cases; simp)+

lemma va_str_fits: "fits [KStr] args \<Longrightarrow> \<exists>s. va_str args = Some (s, drop 1 args)"
  "\<not> fits [KStr] args \<Longrightarrow> va_str args = None"
  by (cases args rule: va_str.cases; simp)+

text \<open>A step that takes arguments of kinds \<open>ks\<close>: it succeeds exactly when they are there, and leaves
  the others and the format \<open>p\<close>.\<close>

definition takes :: "fmt_kind list \<Rightarrow> u8 list \<Rightarrow> arg list \<Rightarrow> ('a \<times> 'b \<times> arg list \<times> u8 list) option \<Rightarrow> bool" where
  "takes ks p args r \<longleftrightarrow>
     (if fits ks args then \<exists>a b. r = Some (a, b, drop (length ks) args, p) else r = None)"

lemma conv_some:
  "\<exists>r. conv_dec sp w = Some r" "\<exists>r. conv_hex sp w = Some r" "\<exists>r. conv_oct sp w = Some r"
  "\<exists>r. conv_uns sp w = Some r" "\<exists>r. conv_size sp w = Some r" "\<exists>r. conv_ptr w = Some r"
proof -
  have "int32_range (wrap32 (- sint w))" by simp
  from itoa_ends [OF this, of 10] itoa_word_ends [of 10 w]
  show "\<exists>r. conv_dec sp w = Some r"
    by (auto simp: conv_dec_def Let_def split: option.splits)
qed (use itoa_word_ends [of 16 w] itoa_word_ends [of 8 w] itoa_word_ends [of 10 w] in
  \<open>auto simp: conv_hex_def conv_oct_def conv_uns_def conv_size_def conv_ptr_def Let_def\<close>)

lemma takes_num:
  assumes "\<And>w. \<exists>r. f w = Some r"
  shows "takes [KNum] p args (do { (w, args) \<leftarrow> va_num args; (out, n) \<leftarrow> f w; Some (out, n, args, p) })"
proof (cases "fits [KNum] args")
  case True
  then obtain w where w: "va_num args = Some (w, drop 1 args)" using va_num_fits(1) by blast
  obtain r where "f w = Some r" using assms by blast
  with w True show ?thesis by (cases r) (simp add: takes_def)
qed (simp add: takes_def va_num_fits(2))

lemma conv_chars:
  "ch CHR ''z'' = 122" "ch CHR ''s'' = 115" "ch CHR ''d'' = 100" "ch CHR ''i'' = 105" "ch CHR ''x'' = 120"
  "ch CHR ''X'' = 88" "ch CHR ''o'' = 111" "ch CHR ''c'' = 99" "ch CHR ''u'' = 117" "ch CHR ''p'' = 112"
  "ch CHR ''f'' = 102" "ch CHR ''F'' = 70" "ch CHR ''%'' = 37"
  "map ch ''dixXocup'' = [100, 105, 120, 88, 111, 99, 117, 112]"
  by code_simp+

lemma directive_takes:
  "conv_kinds k p = Some (ks, p') \<Longrightarrow> takes ks p' args (directive sp k p args)"
  "conv_kinds k p = None \<Longrightarrow> directive sp k p args = None"
proof -
  have str: "takes [KStr] p args (do { (s, args) \<leftarrow> va_str args; case conv_str sp s of (out, n) \<Rightarrow> Some (out, n, args, p) })" for p args
    by (cases "fits [KStr] args") (auto simp: takes_def va_str_fits(2) split: prod.splits dest!: va_str_fits(1))
  have chr: "takes [KNum] p args (do { (w, args) \<leftarrow> va_num args; case conv_char sp (ucast w) of (out, n) \<Rightarrow> Some (out, n, args, p) })" for p args
    using takes_num [of "\<lambda>w. Some (conv_char sp (ucast w))" p args] by (simp add: case_prod_beta Let_def)
  note num = takes_num [OF conv_some(1)] takes_num [OF conv_some(2)] takes_num [OF conv_some(3)]
    takes_num [OF conv_some(4)] takes_num [OF conv_some(5)] takes_num [OF conv_some(6)] chr str
  have none: "takes [] p args (Some (a, b, args, p))" for a :: "u8 list" and b :: int and p args by (simp add: takes_def)
  have k: "k \<in> {122, 115, 100, 105, 120, 88, 111, 99, 117, 112, 102, 70, 37} \<or>
      k \<notin> {122, 115, 100, 105, 120, 88, 111, 99, 117, 112, 102, 70, 37}" by blast
  show "conv_kinds k p = Some (ks, p') \<Longrightarrow> takes ks p' args (directive sp k p args)"
    using k unfolding conv_kinds_def directive_def bytes_def conv_chars
    by (elim disjE insertE emptyE) (auto simp: num none simp del: fits.simps split: if_splits)
  show "conv_kinds k p = None \<Longrightarrow> directive sp k p args = None"
    unfolding conv_kinds_def directive_def bytes_def conv_chars by (auto split: if_splits)
qed

lemma star_takes:
  assumes "star_kinds p = (ks, p')"
  shows "if fits ks args then \<exists>sp'. parse_width p args sp = Some (sp', p', drop (length ks) args)
    else parse_width p args sp = None"
  using assms va_num_fits [of args]
  by (cases "fits [KNum] args") (auto simp: star_kinds_def parse_width_def Let_def split: if_splits prod.splits)

lemma precision_takes:
  assumes "(if peek p = ch CHR ''.'' then star_kinds (tl p) else ([], p)) = (ks, p')"
  shows "if fits ks args then \<exists>sp'. parse_precision p args sp = Some (sp', p', drop (length ks) args)
    else parse_precision p args sp = None"
  using assms va_num_fits [of args]
  by (cases "fits [KNum] args")
    (auto simp: star_kinds_def parse_precision_def Let_def split: if_splits prod.splits)

lemma read_directive_takes:
  "directive_kinds p = Some (ks, p') \<Longrightarrow> takes ks p' args (read_directive p args)"
  "directive_kinds p = None \<Longrightarrow> read_directive p args = None"
proof -
  obtain sp1 p1 where 1: "parse_flags p spec0 = (sp1, p1)" by (cases "parse_flags p spec0")
  obtain k1 p2 where 2: "star_kinds p1 = (k1, p2)" by (cases "star_kinds p1")
  obtain k2 p3 where 3: "(if peek p2 = ch CHR ''.'' then star_kinds (tl p2) else ([], p2)) = (k2, p3)"
    by (cases "if peek p2 = ch CHR ''.'' then star_kinds (tl p2) else ([], p2)") auto
  note w = star_takes [OF 2, of args sp1]
  have kinds: "directive_kinds p = (case skip_length p3 of [] \<Rightarrow> None
      | k # p \<Rightarrow> do { (k3, p) \<leftarrow> conv_kinds k p; Some (k1 @ k2 @ k3, p) })"
    by (simp add: directive_kinds_def 1 2 3)
  show "directive_kinds p = Some (ks, p') \<Longrightarrow> takes ks p' args (read_directive p args)"
  proof -
    assume "directive_kinds p = Some (ks, p')"
    with kinds obtain k q k3 where q: "skip_length p3 = k # q" "conv_kinds k q = Some (k3, p')" "ks = k1 @ k2 @ k3"
      by (auto split: list.splits bind_splits)
    show ?thesis
    proof (cases "fits k1 args \<and> fits k2 (drop (length k1) args)")
      case True
      with w obtain sp2 where sp2: "parse_width p1 args sp1 = Some (sp2, p2, drop (length k1) args)" by auto
      from True precision_takes [OF 3, of "drop (length k1) args" sp2] obtain sp3 where
        sp3: "parse_precision p2 (drop (length k1) args) sp2 = Some (sp3, p3, drop (length k2) (drop (length k1) args))"
        by auto
      have "read_directive p args = directive sp3 k q (drop (length k2) (drop (length k1) args))"
        by (simp add: read_directive_def 1 sp2 sp3 q(1))
      with directive_takes(1) [OF q(2), of "drop (length k2) (drop (length k1) args)" sp3] True q(3)
      show ?thesis by (auto simp: takes_def fits_append ac_simps split: if_splits)
    next
      case False
      then have "read_directive p args = None"
        using w precision_takes [OF 3, of "drop (length k1) args"]
        by (auto simp: read_directive_def 1 split: if_splits)
      with False q(3) show ?thesis by (auto simp: takes_def fits_append)
    qed
  qed
  show "read_directive p args = None" if none: "directive_kinds p = None"
  proof (cases "skip_length p3")
    case Nil
    have "parse_precision p2 a sp2 = Some (sp3, p4, a') \<Longrightarrow> p4 = p3" for a sp2 sp3 p4 a'
      using precision_takes [OF 3, of a sp2] by (auto split: if_splits)
    moreover have "parse_width p1 a sp2 = Some (sp3, p4, a') \<Longrightarrow> p4 = p2" for a sp2 sp3 p4 a'
      using star_takes [OF 2, of a sp2] by (auto split: if_splits)
    ultimately show ?thesis using Nil
      by (fastforce simp: read_directive_def 1 split: bind_splits list.splits)
  next
    case (Cons k q)
    with none kinds have "conv_kinds k q = None" by (auto split: bind_splits)
    note d = directive_takes(2) [OF this]
    have "parse_precision p2 a sp2 = Some (sp3, p4, a') \<Longrightarrow> p4 = p3" for a sp2 sp3 p4 a'
      using precision_takes [OF 3, of a sp2] by (auto split: if_splits)
    moreover have "parse_width p1 a sp2 = Some (sp3, p4, a') \<Longrightarrow> p4 = p2" for a sp2 sp3 p4 a'
      using star_takes [OF 2, of a sp2] by (auto split: if_splits)
    ultimately show ?thesis using Cons d
      by (fastforce simp: read_directive_def 1 split: bind_splits list.splits)
  qed
qed

lemma directive_kinds_length: "directive_kinds p = Some (ks, p') \<Longrightarrow> length p' < length p"
proof -
  assume d: "directive_kinds p = Some (ks, p')"
  have "\<exists>args. fits ks args"
  proof (induction ks)
    case (Cons k ks)
    then obtain args where "fits ks args" by blast
    then show ?case by (cases k) (auto intro: exI [of _ "Num 0 # args"] exI [of _ "Str None # args"])
  qed simp
  then obtain args where "fits ks args" by blast
  with read_directive_takes(1) [OF d, of args] show ?thesis
    by (auto simp: takes_def dest: read_directive_length)
qed

section \<open>Formats\<close>

text \<open>The kinds of all arguments that a format takes.\<close>

function fmt_kinds :: "u8 list \<Rightarrow> fmt_kind list option" where
  "fmt_kinds [] = Some []"
| "fmt_kinds (c # p) =
     (if c = ch CHR ''%'' \<and> p \<noteq> [] then
        do { (ks, p) \<leftarrow> directive_kinds p; map_option ((@) ks) (fmt_kinds p) }
      else fmt_kinds p)"
  by pat_completeness auto
termination by (relation "measure length") (auto dest: directive_kinds_length)

lemma vprintf_loop_kinds:
  "(\<exists>r. vprintf_loop p args n = Some r) \<longleftrightarrow> (\<exists>ks. fmt_kinds p = Some ks \<and> fits ks args)"
proof (induction p arbitrary: args n rule: fmt_kinds.induct)
  case 1
  then show ?case by simp
next
  case (2 c p)
  show ?case
  proof (cases "c = ch CHR ''%'' \<and> p \<noteq> []")
    case False
    from "2.IH"(2) [OF False, of args "wrap32 (n + 1)"] False show ?thesis
      by (fastforce simp del: fits.simps split: bind_splits)
  next
    case True
    show ?thesis
    proof (cases "directive_kinds p")
      case None
      with read_directive_takes(2) [OF None, of args] True show ?thesis by simp
    next
      case (Some kp)
      obtain ks q where kp: "kp = (ks, q)" by (cases kp)
      note IH = "2.IH"(1) [OF True Some kp [symmetric]]
      from read_directive_takes(1) [of p ks q args] Some kp
      have rd: "takes ks q args (read_directive p args)" by simp
      show ?thesis
      proof (cases "fits ks args")
        case True
        with rd obtain out m where "read_directive p args = Some (out, m, drop (length ks) args, q)"
          by (auto simp: takes_def)
        with IH [of "drop (length ks) args" "wrap32 (n + m)"] True \<open>c = _ \<and> _\<close> Some kp show ?thesis
          by (fastforce simp: fits_append simp del: fits.simps split: bind_splits)
      next
        case False
        with rd \<open>c = _ \<and> _\<close> Some kp show ?thesis by (auto simp: takes_def fits_append)
      qed
    qed
  qed
qed

lemma vprintf_fits: "fmt_kinds format = Some ks \<Longrightarrow> fits ks args \<Longrightarrow> vprintf format args \<noteq> None"
  using vprintf_loop_kinds [of format args 0] by (auto simp: vprintf_def)

section \<open>Properties\<close>


end
