(* ===== verification/Hdmi.thy ===== *)
theory Hdmi
  imports Prelude Format Console "HOL-Library.State_Monad"
begin

text \<open>
  The HDMI controller, \<open>usr/drivers/hdmi.c\<close> and \<open>usr/include/hdmi.h\<close>, in the state monad over the
  caller's \<open>hdmi_device_t\<close>, the accesses to the bus and the calls of \<open>printf\<close>.  What a register
  answers is up to the device: a read yields \<open>hw log addr\<close>, a function of the accesses so far.  The
  delay loops of the reset have no effect on this state.  A null device is \<open>None\<close>.
\<close>

section \<open>Registers and state\<close>

abbreviation HDMI_CORE_CTRL :: u32 where "HDMI_CORE_CTRL \<equiv> 0x000"
abbreviation HDMI_CORE_STATUS :: u32 where "HDMI_CORE_STATUS \<equiv> 0x004"
abbreviation HDMI_CORE_INTR_MASK :: u32 where "HDMI_CORE_INTR_MASK \<equiv> 0x008"
abbreviation HDMI_CORE_INTR_STATUS :: u32 where "HDMI_CORE_INTR_STATUS \<equiv> 0x00C"
abbreviation HDMI_CORE_VIDEO_CFG :: u32 where "HDMI_CORE_VIDEO_CFG \<equiv> 0x010"
abbreviation HDMI_CORE_AUDIO_CFG :: u32 where "HDMI_CORE_AUDIO_CFG \<equiv> 0x014"
abbreviation HDMI_VIDEO_TIMING :: u32 where "HDMI_VIDEO_TIMING \<equiv> 0x020"
abbreviation HDMI_VIDEO_HACTIVE :: u32 where "HDMI_VIDEO_HACTIVE \<equiv> 0x024"
abbreviation HDMI_VIDEO_VACTIVE :: u32 where "HDMI_VIDEO_VACTIVE \<equiv> 0x028"
abbreviation HDMI_VIDEO_HSYNC :: u32 where "HDMI_VIDEO_HSYNC \<equiv> 0x02C"
abbreviation HDMI_VIDEO_VSYNC :: u32 where "HDMI_VIDEO_VSYNC \<equiv> 0x030"
abbreviation HDMI_VIDEO_HBLANK :: u32 where "HDMI_VIDEO_HBLANK \<equiv> 0x034"
abbreviation HDMI_VIDEO_VBLANK :: u32 where "HDMI_VIDEO_VBLANK \<equiv> 0x038"
abbreviation HDMI_AUDIO_SAMPLE_RATE :: u32 where "HDMI_AUDIO_SAMPLE_RATE \<equiv> 0x040"
abbreviation HDMI_AUDIO_CHANNELS :: u32 where "HDMI_AUDIO_CHANNELS \<equiv> 0x044"
abbreviation HDMI_AUDIO_FORMAT :: u32 where "HDMI_AUDIO_FORMAT \<equiv> 0x048"

abbreviation HDMI_CTRL_ENABLE :: u32 where "HDMI_CTRL_ENABLE \<equiv> 1"
abbreviation HDMI_CTRL_RESET :: u32 where "HDMI_CTRL_RESET \<equiv> 2"
abbreviation HDMI_CTRL_AUDIO_EN :: u32 where "HDMI_CTRL_AUDIO_EN \<equiv> 4"
abbreviation HDMI_CTRL_VIDEO_EN :: u32 where "HDMI_CTRL_VIDEO_EN \<equiv> 8"
abbreviation HDMI_CTRL_HDCP_EN :: u32 where "HDMI_CTRL_HDCP_EN \<equiv> 16"
abbreviation HDMI_STATUS_CONNECTED :: u32 where "HDMI_STATUS_CONNECTED \<equiv> 1"
abbreviation HDMI_STATUS_STABLE :: u32 where "HDMI_STATUS_STABLE \<equiv> 2"

text \<open>The resolutions are the numbers 0 to 5 and 6 for a custom one; an enumeration of C is an
  unsigned number here, and any number may arrive.\<close>

abbreviation HDMI_RES_1920x1080_60Hz :: u32 where "HDMI_RES_1920x1080_60Hz \<equiv> 4"
abbreviation HDMI_RES_CUSTOM :: u32 where "HDMI_RES_CUSTOM \<equiv> 6"

record hdmi_timing =
  pixel_clock :: u32
  h_active :: u16
  h_blanking :: u16
  h_sync_offset :: u16
  h_sync_width :: u16
  v_active :: u16
  v_blanking :: u16
  v_sync_offset :: u16
  v_sync_width :: u16
  h_sync_polarity :: bool
  v_sync_polarity :: bool
  interlaced :: bool

record hdmi_audio =
  sample_rate :: u32
  channels :: u8
  bit_depth :: u8
  compressed :: bool

record hdmi_device =
  resolution :: u32
  color_depth :: u32
  video_timing :: hdmi_timing
  audio_config :: hdmi_audio
  audio_enabled :: bool
  hdcp_enabled :: bool
  base_addr :: u32
  initialized :: bool
  connected :: bool
  stable :: bool
  interrupt_mask :: u32

datatype bus_access = Rd u32 | Wr u32 u32

type_synonym hardware = "bus_access list \<Rightarrow> u32 \<Rightarrow> u32"

text \<open>The newest bus_access is the first of the log; the calls of \<open>printf\<close> are in order.\<close>

record hdmi_world =
  hdmi_dev :: "hdmi_device option"
  bus :: "bus_access list"
  printed :: "(u8 list \<times> arg list) list"

type_synonym 'a hdmi_m = "(hdmi_world, 'a) state"

text \<open>The presets, from 640 to 3840 columns.\<close>

definition preset ::
    "u32 \<Rightarrow> u16 \<Rightarrow> u16 \<Rightarrow> u16 \<Rightarrow> u16 \<Rightarrow> u16 \<Rightarrow> u16 \<Rightarrow> u16 \<Rightarrow> u16 \<Rightarrow> bool \<Rightarrow> hdmi_timing" where
  "preset clk ha hb ho hw va vb vo vw pol =
     \<lparr>pixel_clock = clk, h_active = ha, h_blanking = hb, h_sync_offset = ho, h_sync_width = hw,
      v_active = va, v_blanking = vb, v_sync_offset = vo, v_sync_width = vw,
      h_sync_polarity = pol, v_sync_polarity = pol, interlaced = False\<rparr>"

definition standard_timings :: "hdmi_timing list" where
  "standard_timings =
     [preset 25175000 640 160 16 96 480 45 10 2 False,
      preset 40000000 800 256 40 128 600 28 1 4 True,
      preset 65000000 1024 320 24 136 768 38 3 6 False,
      preset 74250000 1280 370 110 40 720 30 5 5 True,
      preset 148500000 1920 280 88 44 1080 45 4 5 True,
      preset 297000000 3840 560 176 88 2160 90 8 10 True]"

section \<open>Access to the registers\<close>

definition hdmi_read_reg :: "hardware \<Rightarrow> u32 \<Rightarrow> u32 \<Rightarrow> u32 hdmi_m" where
  "hdmi_read_reg hw base off =
     State (\<lambda>w. (hw (bus w) (base + off), w\<lparr>bus := Rd (base + off) # bus w\<rparr>))"

definition hdmi_write_reg :: "u32 \<Rightarrow> u32 \<Rightarrow> u32 \<Rightarrow> unit hdmi_m" where
  "hdmi_write_reg base off value = State (\<lambda>w. ((), w\<lparr>bus := Wr (base + off) value # bus w\<rparr>))"

definition hdmi_modify_reg :: "hardware \<Rightarrow> u32 \<Rightarrow> u32 \<Rightarrow> u32 \<Rightarrow> u32 \<Rightarrow> unit hdmi_m" where
  "hdmi_modify_reg hw base off msk value = do {
     reg_val \<leftarrow> hdmi_read_reg hw base off;
     hdmi_write_reg base off ((reg_val AND NOT msk) OR (value AND msk)) }"

text \<open>The device structure, its update, and a call of \<open>printf\<close> (the formats all end a
  line).\<close>

definition get_dev :: "hdmi_device option hdmi_m" where "get_dev = State (\<lambda>w. (hdmi_dev w, w))"

definition upd_dev :: "(hdmi_device \<Rightarrow> hdmi_device) \<Rightarrow> unit hdmi_m" where
  "upd_dev f = State (\<lambda>w. ((), w\<lparr>hdmi_dev := map_option f (hdmi_dev w)\<rparr>))"

definition say :: "string \<Rightarrow> arg list \<Rightarrow> unit hdmi_m" where
  "say format args = State (\<lambda>w. ((), w\<lparr>printed := printed w @ [(bytes format @ [10], args)]\<rparr>))"

text \<open>The guard of every operation but \<open>hdmi_init\<close> and \<open>hdmi_reset\<close>: no device, or one that is not
  initialized.\<close>

definition guarded :: "'a \<Rightarrow> (hdmi_device \<Rightarrow> 'a hdmi_m) \<Rightarrow> 'a hdmi_m" where
  "guarded err f = do {
     h \<leftarrow> get_dev;
     case h of None \<Rightarrow> State_Monad.return err
     | Some d \<Rightarrow> if initialized d then f d else State_Monad.return err }"

section \<open>Operations\<close>

definition hdmi_validate_timing :: "hdmi_timing option \<Rightarrow> int" where
  "hdmi_validate_timing timing =
     (case timing of None \<Rightarrow> -1
      | Some t \<Rightarrow>
          if h_active t = 0 \<or> v_active t = 0 then -1
          else if h_sync_width t = 0 \<or> v_sync_width t = 0 then -1
          else if pixel_clock t < 1000000 then -1
          else 0)"

definition hdmi_get_standard_timing :: "u32 \<Rightarrow> hdmi_timing" where
  "hdmi_get_standard_timing res =
     (if res < HDMI_RES_CUSTOM then standard_timings ! unat res
      else standard_timings ! unat HDMI_RES_1920x1080_60Hz)"

text \<open>A sync offset of 0x8000 or more is shifted out of the range of \<open>int\<close> in the source; the
  compilers it is built with keep the bits, as here.\<close>

definition sync_word :: "u16 \<Rightarrow> u16 \<Rightarrow> u32" where
  "sync_word off wid = push_bit 16 (ucast off) OR ucast wid"

definition timing_flags :: "hdmi_timing \<Rightarrow> u32" where
  "timing_flags t =
     (let timing_reg = 0;
          timing_reg = (if h_sync_polarity t then timing_reg OR 1 else timing_reg);
          timing_reg = (if v_sync_polarity t then timing_reg OR 2 else timing_reg)
      in if interlaced t then timing_reg OR 4 else timing_reg)"

definition hdmi_set_custom_timing :: "hdmi_timing option \<Rightarrow> int hdmi_m" where
  "hdmi_set_custom_timing timing = guarded (-1) (\<lambda>d.
     case timing of None \<Rightarrow> State_Monad.return (-1)
     | Some t \<Rightarrow>
         if hdmi_validate_timing timing \<noteq> 0 then State_Monad.return (-1)
         else do {
           hdmi_write_reg (base_addr d) HDMI_VIDEO_HACTIVE (ucast (h_active t));
           hdmi_write_reg (base_addr d) HDMI_VIDEO_VACTIVE (ucast (v_active t));
           hdmi_write_reg (base_addr d) HDMI_VIDEO_HSYNC (sync_word (h_sync_offset t) (h_sync_width t));
           hdmi_write_reg (base_addr d) HDMI_VIDEO_VSYNC (sync_word (v_sync_offset t) (v_sync_width t));
           hdmi_write_reg (base_addr d) HDMI_VIDEO_HBLANK (ucast (h_blanking t));
           hdmi_write_reg (base_addr d) HDMI_VIDEO_VBLANK (ucast (v_blanking t));
           hdmi_write_reg (base_addr d) HDMI_VIDEO_TIMING (timing_flags t);
           upd_dev (\<lambda>d. d\<lparr>video_timing := t\<rparr>);
           State_Monad.return 0 })"

definition hdmi_set_resolution :: "u32 \<Rightarrow> int hdmi_m" where
  "hdmi_set_resolution res = guarded (-1) (\<lambda>d.
     if res \<ge> HDMI_RES_CUSTOM then State_Monad.return (-1)
     else do {
       upd_dev (\<lambda>d. d\<lparr>resolution := res\<rparr>);
       upd_dev (\<lambda>d. d\<lparr>video_timing := standard_timings ! unat res\<rparr>);
       hdmi_set_custom_timing (Some (standard_timings ! unat res)) })"

definition depth_bits :: "u32 \<Rightarrow> u32 option" where
  "depth_bits depth =
     (if depth = 8 then Some 0 else if depth = 10 then Some 1
      else if depth = 12 then Some 2 else if depth = 16 then Some 3 else None)"

definition hdmi_set_color_depth :: "hardware \<Rightarrow> u32 \<Rightarrow> int hdmi_m" where
  "hdmi_set_color_depth hw depth = guarded (-1) (\<lambda>d.
     case depth_bits depth of None \<Rightarrow> State_Monad.return (-1)
     | Some b \<Rightarrow> do {
         hdmi_modify_reg hw (base_addr d) HDMI_CORE_VIDEO_CFG (push_bit 4 3) (push_bit 4 b);
         upd_dev (\<lambda>d. d\<lparr>color_depth := depth\<rparr>);
         State_Monad.return 0 })"

definition hdmi_enable_video :: "hardware \<Rightarrow> bool \<Rightarrow> int hdmi_m" where
  "hdmi_enable_video hw enable = guarded (-1) (\<lambda>d. do {
     hdmi_modify_reg hw (base_addr d) HDMI_CORE_CTRL HDMI_CTRL_VIDEO_EN (if enable then HDMI_CTRL_VIDEO_EN else 0);
     State_Monad.return 0 })"

definition hdmi_set_audio_config :: "hdmi_audio option \<Rightarrow> int hdmi_m" where
  "hdmi_set_audio_config config = guarded (-1) (\<lambda>d.
     case config of None \<Rightarrow> State_Monad.return (-1)
     | Some a \<Rightarrow> do {
         hdmi_write_reg (base_addr d) HDMI_AUDIO_SAMPLE_RATE (sample_rate a);
         hdmi_write_reg (base_addr d) HDMI_AUDIO_CHANNELS (ucast (channels a));
         hdmi_write_reg (base_addr d) HDMI_AUDIO_FORMAT (ucast (bit_depth a) OR (if compressed a then 256 else 0));
         upd_dev (\<lambda>d. d\<lparr>audio_config := a\<rparr>);
         State_Monad.return 0 })"

definition hdmi_enable_audio :: "hardware \<Rightarrow> bool \<Rightarrow> int hdmi_m" where
  "hdmi_enable_audio hw enable = guarded (-1) (\<lambda>d. do {
     hdmi_modify_reg hw (base_addr d) HDMI_CORE_CTRL HDMI_CTRL_AUDIO_EN (if enable then HDMI_CTRL_AUDIO_EN else 0);
     upd_dev (\<lambda>d. d\<lparr>audio_enabled := enable\<rparr>);
     State_Monad.return 0 })"

definition hdmi_enable :: "hardware \<Rightarrow> bool \<Rightarrow> int hdmi_m" where
  "hdmi_enable hw enable = guarded (-1) (\<lambda>d. do {
     hdmi_modify_reg hw (base_addr d) HDMI_CORE_CTRL HDMI_CTRL_ENABLE (if enable then HDMI_CTRL_ENABLE else 0);
     State_Monad.return 0 })"

definition hdmi_enable_hdcp :: "hardware \<Rightarrow> bool \<Rightarrow> int hdmi_m" where
  "hdmi_enable_hdcp hw enable = guarded (-1) (\<lambda>d. do {
     hdmi_modify_reg hw (base_addr d) HDMI_CORE_CTRL HDMI_CTRL_HDCP_EN (if enable then HDMI_CTRL_HDCP_EN else 0);
     upd_dev (\<lambda>d. d\<lparr>hdcp_enabled := enable\<rparr>);
     State_Monad.return 0 })"

definition hdmi_get_status :: "hardware \<Rightarrow> u32 hdmi_m" where
  "hdmi_get_status hw = guarded 0 (\<lambda>d. hdmi_read_reg hw (base_addr d) HDMI_CORE_STATUS)"

definition hdmi_is_connected :: "hardware \<Rightarrow> bool hdmi_m" where
  "hdmi_is_connected hw = guarded False (\<lambda>d. do {
     status \<leftarrow> hdmi_read_reg hw (base_addr d) HDMI_CORE_STATUS;
     upd_dev (\<lambda>d. d\<lparr>connected := status AND HDMI_STATUS_CONNECTED \<noteq> 0\<rparr>);
     State_Monad.return (status AND HDMI_STATUS_CONNECTED \<noteq> 0) })"

definition hdmi_is_stable :: "hardware \<Rightarrow> bool hdmi_m" where
  "hdmi_is_stable hw = guarded False (\<lambda>d. do {
     status \<leftarrow> hdmi_read_reg hw (base_addr d) HDMI_CORE_STATUS;
     upd_dev (\<lambda>d. d\<lparr>stable := status AND HDMI_STATUS_STABLE \<noteq> 0\<rparr>);
     State_Monad.return (status AND HDMI_STATUS_STABLE \<noteq> 0) })"

definition hdmi_set_interrupt_mask :: "u32 \<Rightarrow> int hdmi_m" where
  "hdmi_set_interrupt_mask msk = guarded (-1) (\<lambda>d. do {
     hdmi_write_reg (base_addr d) HDMI_CORE_INTR_MASK msk;
     upd_dev (\<lambda>d. d\<lparr>interrupt_mask := msk\<rparr>);
     State_Monad.return 0 })"

definition hdmi_get_interrupt_status :: "hardware \<Rightarrow> u32 hdmi_m" where
  "hdmi_get_interrupt_status hw = guarded 0 (\<lambda>d. hdmi_read_reg hw (base_addr d) HDMI_CORE_INTR_STATUS)"

definition hdmi_clear_interrupts :: "u32 \<Rightarrow> unit hdmi_m" where
  "hdmi_clear_interrupts msk = guarded () (\<lambda>d. hdmi_write_reg (base_addr d) HDMI_CORE_INTR_STATUS msk)"

text \<open>The two halves of the interrupt handler, and the handler.\<close>

definition yes_no :: "bool \<Rightarrow> string \<Rightarrow> string \<Rightarrow> arg" where
  "yes_no b yes no = Str (Some (bytes (if b then yes else no)))"

definition hotplug_event :: "hardware \<Rightarrow> unit hdmi_m" where
  "hotplug_event hw = do {
     c \<leftarrow> hdmi_is_connected hw;
     upd_dev (\<lambda>d. d\<lparr>connected := c\<rparr>);
     say ''HDMI: Hotplug event - %s'' [yes_no c ''connected'' ''disconnected''] }"

definition stability_event :: "hardware \<Rightarrow> unit hdmi_m" where
  "stability_event hw = do {
     c \<leftarrow> hdmi_is_stable hw;
     upd_dev (\<lambda>d. d\<lparr>stable := c\<rparr>);
     say ''HDMI: Stability event - %s'' [yes_no c ''stable'' ''unstable''] }"

definition hdmi_interrupt_handler :: "hardware \<Rightarrow> unit hdmi_m" where
  "hdmi_interrupt_handler hw = guarded () (\<lambda>d. do {
     status \<leftarrow> hdmi_get_interrupt_status hw;
     (if status AND 1 \<noteq> 0 then hotplug_event hw else State_Monad.return ());
     (if status AND 2 \<noteq> 0 then stability_event hw else State_Monad.return ());
     hdmi_clear_interrupts status })"

text \<open>Reset, initialization and their reverse.\<close>

definition hdmi_reset :: "int hdmi_m" where
  "hdmi_reset = do {
     h \<leftarrow> get_dev;
     case h of None \<Rightarrow> State_Monad.return (-1)
     | Some d \<Rightarrow> do {
         hdmi_write_reg (base_addr d) HDMI_CORE_CTRL HDMI_CTRL_RESET;
         hdmi_write_reg (base_addr d) HDMI_CORE_CTRL 0;
         State_Monad.return 0 } }"

definition hdmi_init :: "u32 \<Rightarrow> int hdmi_m" where
  "hdmi_init base = do {
     h \<leftarrow> get_dev;
     case h of None \<Rightarrow> State_Monad.return (-1)
     | Some d \<Rightarrow> do {
         upd_dev (\<lambda>d. d\<lparr>base_addr := base, resolution := HDMI_RES_1920x1080_60Hz, color_depth := 8,
                        audio_enabled := False, hdcp_enabled := False, initialized := False,
                        connected := False, stable := False, interrupt_mask := 0\<rparr>);
         r \<leftarrow> hdmi_reset;
         if r \<noteq> 0 then State_Monad.return (-1)
         else do {
           upd_dev (\<lambda>d. d\<lparr>video_timing := standard_timings ! unat HDMI_RES_1920x1080_60Hz,
                          audio_config := \<lparr>sample_rate = 48000, channels = 2, bit_depth = 16, compressed = False\<rparr>\<rparr>);
           _ \<leftarrow> hdmi_set_interrupt_mask 0xFFFFFFFF;
           upd_dev (\<lambda>d. d\<lparr>initialized := True\<rparr>);
           State_Monad.return 0 } } }"

definition hdmi_deinit :: "hardware \<Rightarrow> unit hdmi_m" where
  "hdmi_deinit hw = guarded () (\<lambda>d. do {
     _ \<leftarrow> hdmi_enable hw False;
     _ \<leftarrow> hdmi_reset;
     _ \<leftarrow> hdmi_set_interrupt_mask 0;
     upd_dev (\<lambda>d. d\<lparr>initialized := False\<rparr>) })"

section \<open>Reports\<close>

definition hdmi_resolution_to_string :: "u32 \<Rightarrow> string" where
  "hdmi_resolution_to_string res =
     (if res = 0 then ''640x480@60Hz'' else if res = 1 then ''800x600@60Hz''
      else if res = 2 then ''1024x768@60Hz'' else if res = 3 then ''1280x720@60Hz (720p)''
      else if res = 4 then ''1920x1080@60Hz (1080p)'' else if res = 5 then ''3840x2160@30Hz (4K)''
      else if res = 6 then ''Custom'' else ''Unknown'')"

definition dump_reg :: "hardware \<Rightarrow> u32 \<Rightarrow> string \<Rightarrow> u32 \<Rightarrow> unit hdmi_m" where
  "dump_reg hw base format off = do { v \<leftarrow> hdmi_read_reg hw base off; say format [Num v] }"

definition hdmi_dump_registers :: "hardware \<Rightarrow> unit hdmi_m" where
  "hdmi_dump_registers hw = do {
     h \<leftarrow> get_dev;
     case h of None \<Rightarrow> say ''HDMI: Device not initialized'' []
     | Some d \<Rightarrow>
         if \<not> initialized d then say ''HDMI: Device not initialized'' []
         else do {
           say ''HDMI Register Dump:'' [];
           dump_reg hw (base_addr d) ''  CTRL:        0x%08X'' HDMI_CORE_CTRL;
           dump_reg hw (base_addr d) ''  STATUS:      0x%08X'' HDMI_CORE_STATUS;
           dump_reg hw (base_addr d) ''  INTR_MASK:   0x%08X'' HDMI_CORE_INTR_MASK;
           dump_reg hw (base_addr d) ''  INTR_STATUS: 0x%08X'' HDMI_CORE_INTR_STATUS;
           dump_reg hw (base_addr d) ''  VIDEO_CFG:   0x%08X'' HDMI_CORE_VIDEO_CFG;
           dump_reg hw (base_addr d) ''  AUDIO_CFG:   0x%08X'' HDMI_CORE_AUDIO_CFG;
           dump_reg hw (base_addr d) ''  H_ACTIVE:    0x%08X'' HDMI_VIDEO_HACTIVE;
           dump_reg hw (base_addr d) ''  V_ACTIVE:    0x%08X'' HDMI_VIDEO_VACTIVE } }"

definition report_timing :: "hdmi_timing \<Rightarrow> unit hdmi_m" where
  "report_timing t = do {
     say ''  Video Timing:'' [];
     say ''    Active:      %dx%d'' [Num (ucast (h_active t)), Num (ucast (v_active t))];
     say ''    Pixel Clock: %u Hz'' [Num (pixel_clock t)];
     say ''    H Blanking:  %d'' [Num (ucast (h_blanking t))];
     say ''    V Blanking:  %d'' [Num (ucast (v_blanking t))];
     say ''    H Sync:      %d+%d'' [Num (ucast (h_sync_offset t)), Num (ucast (h_sync_width t))];
     say ''    V Sync:      %d+%d'' [Num (ucast (v_sync_offset t)), Num (ucast (v_sync_width t))];
     say ''    Interlaced:  %s'' [yes_no (interlaced t) ''Yes'' ''No''] }"

definition report_audio :: "hdmi_audio \<Rightarrow> unit hdmi_m" where
  "report_audio a = do {
     say ''  Audio Config:'' [];
     say ''    Sample Rate: %u Hz'' [Num (sample_rate a)];
     say ''    Channels:    %d'' [Num (ucast (channels a))];
     say ''    Bit Depth:   %d'' [Num (ucast (bit_depth a))];
     say ''    Compressed:  %s'' [yes_no (compressed a) ''Yes'' ''No''] }"

definition hdmi_print_config :: "unit hdmi_m" where
  "hdmi_print_config = do {
     h \<leftarrow> get_dev;
     case h of None \<Rightarrow> say ''HDMI: Invalid device'' []
     | Some d \<Rightarrow> do {
         say ''HDMI Configuration:'' [];
         say ''  Initialized: %s'' [yes_no (initialized d) ''Yes'' ''No''];
         say ''  Connected:   %s'' [yes_no (connected d) ''Yes'' ''No''];
         say ''  Stable:      %s'' [yes_no (stable d) ''Yes'' ''No''];
         say ''  Resolution:  %s'' [Str (Some (bytes (hdmi_resolution_to_string (resolution d))))];
         say ''  Color Depth: %d-bit'' [Num (color_depth d)];
         say ''  Audio:       %s'' [yes_no (audio_enabled d) ''Enabled'' ''Disabled''];
         say ''  HDCP:        %s'' [yes_no (hdcp_enabled d) ''Enabled'' ''Disabled''];
         report_timing (video_timing d);
         (if audio_enabled d then report_audio (audio_config d) else State_Monad.return ()) } }"

section \<open>What the operations do\<close>

named_theorems hdmi_run \<open>Effects of the steps of the driver\<close>

lemma run_steps [hdmi_run]:
  "run_state (hdmi_read_reg hw base off) w = (hw (bus w) (base + off), w\<lparr>bus := Rd (base + off) # bus w\<rparr>)"
  "run_state (hdmi_write_reg base off v) w = ((), w\<lparr>bus := Wr (base + off) v # bus w\<rparr>)"
  "run_state get_dev w = (hdmi_dev w, w)"
  "run_state (upd_dev f) w = ((), w\<lparr>hdmi_dev := map_option f (hdmi_dev w)\<rparr>)"
  "run_state (say format args) w = ((), w\<lparr>printed := printed w @ [(bytes format @ [10], args)]\<rparr>)"
  by (simp_all add: hdmi_read_reg_def hdmi_write_reg_def get_dev_def upd_dev_def say_def)

lemma run_guarded_ok [hdmi_run]:
  "hdmi_dev w = Some d \<Longrightarrow> initialized d \<Longrightarrow> run_state (guarded err f) w = run_state (f d) w"
  by (simp add: guarded_def hdmi_run)

lemma run_guarded_off [hdmi_run]:
  "\<forall>d. hdmi_dev w = Some d \<longrightarrow> \<not> initialized d \<Longrightarrow> run_state (guarded err f) w = (err, w)"
  by (cases "hdmi_dev w") (simp_all add: guarded_def hdmi_run)

text \<open>Initialization: the mask of the interrupts is set by a call that the guard refuses, so neither
  the register nor \<open>interrupt_mask\<close> gets it.\<close>

lemma run_init:
  assumes "hdmi_dev w = Some d"
  shows "run_state (hdmi_init base) w =
    (0, w\<lparr>hdmi_dev := Some (d\<lparr>base_addr := base, resolution := 4, color_depth := 8, audio_enabled := False,
            hdcp_enabled := False, initialized := True, connected := False, stable := False, interrupt_mask := 0,
            video_timing := standard_timings ! 4,
            audio_config := \<lparr>sample_rate = 48000, channels = 2, bit_depth = 16, compressed = False\<rparr>\<rparr>),
          bus := [Wr (base + HDMI_CORE_CTRL) 0, Wr (base + HDMI_CORE_CTRL) HDMI_CTRL_RESET] @ bus w\<rparr>)"
  using assms by (simp add: hdmi_init_def hdmi_reset_def hdmi_set_interrupt_mask_def hdmi_run)


section \<open>The registers\<close>

text \<open>The last value written to a register, and the timing that the registers hold (the pixel clock
  has none).\<close>

fun written :: "bus_access list \<Rightarrow> u32 \<Rightarrow> u32 option" where
  "written [] a = None"
| "written (Rd b # log) a = written log a"
| "written (Wr b v # log) a = (if a = b then Some v else written log a)"

definition decode_timing :: "u32 \<Rightarrow> u32 \<Rightarrow> bus_access list \<Rightarrow> hdmi_timing option" where
  "decode_timing base clk log =
     do { ha \<leftarrow> written log (base + HDMI_VIDEO_HACTIVE);
          va \<leftarrow> written log (base + HDMI_VIDEO_VACTIVE);
          hs \<leftarrow> written log (base + HDMI_VIDEO_HSYNC);
          vs \<leftarrow> written log (base + HDMI_VIDEO_VSYNC);
          hb \<leftarrow> written log (base + HDMI_VIDEO_HBLANK);
          vb \<leftarrow> written log (base + HDMI_VIDEO_VBLANK);
          fl \<leftarrow> written log (base + HDMI_VIDEO_TIMING);
          Some \<lparr>pixel_clock = clk, h_active = ucast ha, h_blanking = ucast hb,
                h_sync_offset = ucast (drop_bit 16 hs), h_sync_width = ucast hs,
                v_active = ucast va, v_blanking = ucast vb,
                v_sync_offset = ucast (drop_bit 16 vs), v_sync_width = ucast vs,
                h_sync_polarity = bit fl 0, v_sync_polarity = bit fl 1, interlaced = bit fl 2\<rparr> }"

lemma sync_word_inv:
  "ucast (drop_bit 16 (sync_word off wid)) = off" "ucast (sync_word off wid) = wid"
  by (rule bit_word_eqI, auto simp: sync_word_def bit_simps dest: bit_imp_le_length)+

lemma timing_flags_bits:
  "bit (timing_flags t) 0 = h_sync_polarity t" "bit (timing_flags t) 1 = v_sync_polarity t"
  "bit (timing_flags t) 2 = interlaced t"
  by (simp_all add: timing_flags_def bit_simps)

lemma ucast_back: "ucast (ucast (x :: u16) :: u32) = x"
  by (rule bit_word_eqI) (simp add: bit_simps)

text \<open>The accesses of a programmed timing.\<close>

definition timing_writes :: "u32 \<Rightarrow> hdmi_timing \<Rightarrow> bus_access list" where
  "timing_writes base t =
     [Wr (base + HDMI_VIDEO_TIMING) (timing_flags t), Wr (base + HDMI_VIDEO_VBLANK) (ucast (v_blanking t)),
      Wr (base + HDMI_VIDEO_HBLANK) (ucast (h_blanking t)),
      Wr (base + HDMI_VIDEO_VSYNC) (sync_word (v_sync_offset t) (v_sync_width t)),
      Wr (base + HDMI_VIDEO_HSYNC) (sync_word (h_sync_offset t) (h_sync_width t)),
      Wr (base + HDMI_VIDEO_VACTIVE) (ucast (v_active t)), Wr (base + HDMI_VIDEO_HACTIVE) (ucast (h_active t))]"

lemma decode_timing_writes: "decode_timing base (pixel_clock t) (timing_writes base t @ log) = Some t"
  using sync_word_inv timing_flags_bits
  by (simp add: decode_timing_def timing_writes_def ucast_back)

lemma standard_timing_valid: "res < HDMI_RES_CUSTOM \<Longrightarrow> hdmi_validate_timing (Some (standard_timings ! unat res)) = 0"
proof -
  assume "res < HDMI_RES_CUSTOM"
  then have "unat res < 6" by (simp add: word_less_nat_alt)
  then have "unat res \<in> {0, 1, 2, 3, 4, 5}" by auto
  then show ?thesis by (auto simp: hdmi_validate_timing_def standard_timings_def preset_def)
qed

lemma run_custom_timing:
  assumes "hdmi_dev w = Some d" "initialized d" "hdmi_validate_timing (Some t) = 0"
  shows "run_state (hdmi_set_custom_timing (Some t)) w =
    (0, w\<lparr>hdmi_dev := Some (d\<lparr>video_timing := t\<rparr>), bus := timing_writes (base_addr d) t @ bus w\<rparr>)"
  using assms by (simp add: hdmi_set_custom_timing_def hdmi_run timing_writes_def)

lemma run_resolution:
  assumes "hdmi_dev w = Some d" "initialized d" "res < HDMI_RES_CUSTOM"
  shows "run_state (hdmi_set_resolution res) w =
    (0, w\<lparr>hdmi_dev := Some (d\<lparr>resolution := res, video_timing := standard_timings ! unat res\<rparr>),
          bus := timing_writes (base_addr d) (standard_timings ! unat res) @ bus w\<rparr>)"
  using assms standard_timing_valid [OF assms(3)]
  by (simp add: hdmi_set_resolution_def run_custom_timing hdmi_run)


section \<open>The device structure mirrors the registers\<close>

text \<open>What the driver remembers agrees with what it has written: the two bits of the control register
  that it keeps, and each of the other registers as soon as it has been programmed.\<close>

definition mirrors :: "hdmi_device \<Rightarrow> bus_access list \<Rightarrow> bool" where
  "mirrors d log \<longleftrightarrow> (let base = base_addr d in
     (\<exists>c. written log (base + HDMI_CORE_CTRL) = Some c \<and>
        bit c 2 = audio_enabled d \<and> bit c 4 = hdcp_enabled d) \<and>
     (\<forall>v. written log (base + HDMI_CORE_VIDEO_CFG) = Some v \<longrightarrow>
        depth_bits (color_depth d) = Some (drop_bit 4 v AND 3)) \<and>
     (\<forall>v. written log (base + HDMI_CORE_INTR_MASK) = Some v \<longrightarrow> interrupt_mask d = v) \<and>
     (\<forall>t. decode_timing base (pixel_clock (video_timing d)) log = Some t \<longrightarrow> video_timing d = t) \<and>
     (\<forall>v. written log (base + HDMI_AUDIO_SAMPLE_RATE) = Some v \<longrightarrow> sample_rate (audio_config d) = v) \<and>
     (\<forall>v. written log (base + HDMI_AUDIO_CHANNELS) = Some v \<longrightarrow> ucast (channels (audio_config d)) = v) \<and>
     (\<forall>v. written log (base + HDMI_AUDIO_FORMAT) = Some v \<longrightarrow>
        bit_depth (audio_config d) = ucast v \<and> compressed (audio_config d) = bit v 8))"



datatype hdmi_op =
    Set_resolution u32
  | Set_custom_timing "hdmi_timing option"
  | Set_color_depth u32
  | Enable_video bool
  | Set_audio_config "hdmi_audio option"
  | Enable_audio bool
  | Enable bool
  | Enable_hdcp bool
  | Set_interrupt_mask u32
  | Clear_interrupts u32
  | Interrupt
  | Poll_status
  | Poll_interrupts
  | Poll_connected
  | Poll_stable
  | Dump_registers
  | Print_config

fun hdmi_call :: "hardware \<Rightarrow> hdmi_op \<Rightarrow> unit hdmi_m" where
  "hdmi_call hw (Set_resolution r) = do { _ \<leftarrow> hdmi_set_resolution r; State_Monad.return () }"
| "hdmi_call hw (Set_custom_timing t) = do { _ \<leftarrow> hdmi_set_custom_timing t; State_Monad.return () }"
| "hdmi_call hw (Set_color_depth n) = do { _ \<leftarrow> hdmi_set_color_depth hw n; State_Monad.return () }"
| "hdmi_call hw (Enable_video b) = do { _ \<leftarrow> hdmi_enable_video hw b; State_Monad.return () }"
| "hdmi_call hw (Set_audio_config a) = do { _ \<leftarrow> hdmi_set_audio_config a; State_Monad.return () }"
| "hdmi_call hw (Enable_audio b) = do { _ \<leftarrow> hdmi_enable_audio hw b; State_Monad.return () }"
| "hdmi_call hw (Enable b) = do { _ \<leftarrow> hdmi_enable hw b; State_Monad.return () }"
| "hdmi_call hw (Enable_hdcp b) = do { _ \<leftarrow> hdmi_enable_hdcp hw b; State_Monad.return () }"
| "hdmi_call hw (Set_interrupt_mask m) = do { _ \<leftarrow> hdmi_set_interrupt_mask m; State_Monad.return () }"
| "hdmi_call hw (Clear_interrupts m) = hdmi_clear_interrupts m"
| "hdmi_call hw Interrupt = hdmi_interrupt_handler hw"
| "hdmi_call hw Poll_status = do { _ \<leftarrow> hdmi_get_status hw; State_Monad.return () }"
| "hdmi_call hw Poll_interrupts = do { _ \<leftarrow> hdmi_get_interrupt_status hw; State_Monad.return () }"
| "hdmi_call hw Poll_connected = do { _ \<leftarrow> hdmi_is_connected hw; State_Monad.return () }"
| "hdmi_call hw Poll_stable = do { _ \<leftarrow> hdmi_is_stable hw; State_Monad.return () }"
| "hdmi_call hw Dump_registers = hdmi_dump_registers hw"
| "hdmi_call hw Print_config = hdmi_print_config"

definition hdmi_step :: "hardware \<Rightarrow> hdmi_op \<Rightarrow> hdmi_world \<Rightarrow> hdmi_world option" where
  "hdmi_step hw x w = Some (snd (run_state (hdmi_call hw x) w))"










section \<open>Steps\<close>


text \<open>Programs that keep this, and how they compose.\<close>

definition keeps :: "(hdmi_world \<Rightarrow> bool) \<Rightarrow> 'a hdmi_m \<Rightarrow> bool" where
  "keeps P = state_io_rel (\<lambda>w w'. P w \<longrightarrow> P w')"

lemma keepsI: "(\<And>w. P w \<Longrightarrow> P (snd (run_state m w))) \<Longrightarrow> keeps P m"
  by (simp add: keeps_def state_io_rel_def)

lemma keepsD: "keeps P m \<Longrightarrow> P w \<Longrightarrow> P (snd (run_state m w))"
  by (simp add: keeps_def state_io_rel_def)

lemma keeps_bind: "keeps P m \<Longrightarrow> (\<And>x. keeps P (f x)) \<Longrightarrow> keeps P (do { x \<leftarrow> m; f x })"
  by (simp add: keeps_def state_io_rel_def split: prod.splits) (metis snd_conv surj_pair)











text \<open>A reset by a client clears the control register behind the structure's back.\<close>

lemma reset_forgets:
  assumes "hdmi_dev w = Some d" "audio_enabled d"
  shows "\<exists>w'. run_state hdmi_reset w = (0, w') \<and> hdmi_dev w' = Some d \<and>
    written (bus w') (base_addr d + HDMI_CORE_CTRL) = Some 0 \<and> \<not> mirrors d (bus w')"
  using assms by (simp add: hdmi_reset_def hdmi_run mirrors_def Let_def)

text \<open>The mask that \<open>hdmi_init\<close> means to set is not written.\<close>

lemma init_no_mask:
  assumes "hdmi_dev w = Some d" "bus w = []"
  shows "written (bus (snd (run_state (hdmi_init base) w))) (base + HDMI_CORE_INTR_MASK) = None"
  using assms by (simp add: run_init)

section \<open>Messages\<close>

text \<open>Every call of \<open>printf\<close> fits its format.\<close>

definition typed_calls :: "hdmi_world \<Rightarrow> bool" where
  "typed_calls w \<longleftrightarrow> list_all (\<lambda>(format, args). \<exists>ks. fmt_kinds format = Some ks \<and> fits ks args) (printed w)"

lemma typed_basic:
  "keeps typed_calls (State_Monad.return x)" "keeps typed_calls get_dev" "keeps typed_calls (upd_dev f)"
  "keeps typed_calls (hdmi_read_reg hw a off)" "keeps typed_calls (hdmi_write_reg a off v)"
  by (auto intro!: keepsI simp: hdmi_run typed_calls_def)

lemma typed_say: "fmt_kinds (bytes format @ [10]) = Some ks \<Longrightarrow> fits ks args \<Longrightarrow> keeps typed_calls (say format args)"
  by (intro keepsI) (auto simp: hdmi_run typed_calls_def)

lemma typed_guarded: "(\<And>d. keeps typed_calls (f d)) \<Longrightarrow> keeps typed_calls (guarded err f)"
  unfolding guarded_def by (intro keeps_bind typed_basic) (auto intro: typed_basic split: option.splits)

lemma plain_formats:
  "fmt_kinds (bytes ''HDMI: Device not initialized'' @ [10]) = Some []"
  "fmt_kinds (bytes ''HDMI Register Dump:'' @ [10]) = Some []"
  "fmt_kinds (bytes ''HDMI: Invalid device'' @ [10]) = Some []"
  "fmt_kinds (bytes ''HDMI Configuration:'' @ [10]) = Some []"
  "fmt_kinds (bytes ''  Video Timing:'' @ [10]) = Some []"
  "fmt_kinds (bytes ''  Audio Config:'' @ [10]) = Some []"
  by code_simp+

lemma str_formats:
  "fmt_kinds (bytes ''HDMI: Hotplug event - %s'' @ [10]) = Some [KStr]"
  "fmt_kinds (bytes ''HDMI: Stability event - %s'' @ [10]) = Some [KStr]"
  "fmt_kinds (bytes ''  Initialized: %s'' @ [10]) = Some [KStr]"
  "fmt_kinds (bytes ''  Connected:   %s'' @ [10]) = Some [KStr]"
  "fmt_kinds (bytes ''  Stable:      %s'' @ [10]) = Some [KStr]"
  "fmt_kinds (bytes ''  Resolution:  %s'' @ [10]) = Some [KStr]"
  "fmt_kinds (bytes ''  Audio:       %s'' @ [10]) = Some [KStr]"
  "fmt_kinds (bytes ''  HDCP:        %s'' @ [10]) = Some [KStr]"
  "fmt_kinds (bytes ''    Interlaced:  %s'' @ [10]) = Some [KStr]"
  "fmt_kinds (bytes ''    Compressed:  %s'' @ [10]) = Some [KStr]"
  by code_simp+

lemma num_formats:
  "fmt_kinds (bytes ''  CTRL:        0x%08X'' @ [10]) = Some [KNum]"
  "fmt_kinds (bytes ''  STATUS:      0x%08X'' @ [10]) = Some [KNum]"
  "fmt_kinds (bytes ''  INTR_MASK:   0x%08X'' @ [10]) = Some [KNum]"
  "fmt_kinds (bytes ''  INTR_STATUS: 0x%08X'' @ [10]) = Some [KNum]"
  "fmt_kinds (bytes ''  VIDEO_CFG:   0x%08X'' @ [10]) = Some [KNum]"
  "fmt_kinds (bytes ''  AUDIO_CFG:   0x%08X'' @ [10]) = Some [KNum]"
  "fmt_kinds (bytes ''  H_ACTIVE:    0x%08X'' @ [10]) = Some [KNum]"
  "fmt_kinds (bytes ''  V_ACTIVE:    0x%08X'' @ [10]) = Some [KNum]"
  "fmt_kinds (bytes ''  Color Depth: %d-bit'' @ [10]) = Some [KNum]"
  "fmt_kinds (bytes ''    Active:      %dx%d'' @ [10]) = Some [KNum, KNum]"
  "fmt_kinds (bytes ''    Pixel Clock: %u Hz'' @ [10]) = Some [KNum]"
  "fmt_kinds (bytes ''    H Blanking:  %d'' @ [10]) = Some [KNum]"
  "fmt_kinds (bytes ''    V Blanking:  %d'' @ [10]) = Some [KNum]"
  "fmt_kinds (bytes ''    H Sync:      %d+%d'' @ [10]) = Some [KNum, KNum]"
  "fmt_kinds (bytes ''    V Sync:      %d+%d'' @ [10]) = Some [KNum, KNum]"
  "fmt_kinds (bytes ''    Sample Rate: %u Hz'' @ [10]) = Some [KNum]"
  "fmt_kinds (bytes ''    Channels:    %d'' @ [10]) = Some [KNum]"
  "fmt_kinds (bytes ''    Bit Depth:   %d'' @ [10]) = Some [KNum]"
  by code_simp+

lemmas typed_says = plain_formats [THEN typed_say] str_formats [THEN typed_say] num_formats [THEN typed_say]

lemmas typed_intros = keeps_bind typed_basic typed_guarded typed_says

lemma typed_call: "keeps typed_calls (hdmi_call hw x)"
  by (cases x) (auto simp: yes_no_def Let_def hdmi_set_resolution_def hdmi_set_custom_timing_def hdmi_set_color_depth_def
      hdmi_enable_video_def hdmi_set_audio_config_def hdmi_enable_audio_def hdmi_enable_def hdmi_enable_hdcp_def
      hdmi_set_interrupt_mask_def hdmi_clear_interrupts_def hdmi_interrupt_handler_def hotplug_event_def
      stability_event_def hdmi_get_status_def hdmi_get_interrupt_status_def hdmi_is_connected_def hdmi_is_stable_def
      hdmi_dump_registers_def dump_reg_def hdmi_print_config_def report_timing_def report_audio_def hdmi_modify_reg_def
      intro!: typed_intros split: option.splits)

interpretation hdmi_messages: inv_system "hdmi_step hw" typed_calls for hw
  by unfold_locales (auto simp: hdmi_step_def intro: keepsD [OF typed_call])

section \<open>Properties\<close>


text \<open>A device whose registers are plain memory, and a structure with arbitrary contents.\<close>

definition plain_hw :: hardware where
  "plain_hw log a = (case written log a of None \<Rightarrow> 0 | Some v \<Rightarrow> v)"

definition fresh_world :: hdmi_world where
  "fresh_world = \<lparr>hdmi_dev = Some \<lparr>resolution = 9, color_depth = 7, video_timing = standard_timings ! 0,
      audio_config = \<lparr>sample_rate = 1, channels = 1, bit_depth = 1, compressed = True\<rparr>, audio_enabled = True,
      hdcp_enabled = True, base_addr = 3, initialized = False, connected = True, stable = True, interrupt_mask = 5\<rparr>,
    bus = [], printed = []\<rparr>"



text \<open>Setting a standard resolution on an initialized device programs the registers with exactly its
  timing, and the structure holds it; every other number is refused without an effect.\<close>

theorem hdmi_resolution_programs:
  assumes "hdmi_dev w = Some d" "initialized d" "run_state (hdmi_set_resolution res) w = (r, w')"
  shows "if res < HDMI_RES_CUSTOM
    then r = 0 \<and> decode_timing (base_addr d) (pixel_clock (hdmi_get_standard_timing res)) (bus w') = Some (hdmi_get_standard_timing res) \<and>
      hdmi_dev w' = Some (d\<lparr>resolution := res, video_timing := hdmi_get_standard_timing res\<rparr>)
    else r = -1 \<and> w' = w"
proof (cases "res < HDMI_RES_CUSTOM")
  case True
  then show ?thesis
    using assms run_resolution [OF assms(1,2) True]
    by (auto simp: decode_timing_writes hdmi_get_standard_timing_def)
next
  case False
  then show ?thesis using assms by (simp add: hdmi_set_resolution_def hdmi_run not_less)
qed

text \<open>The interrupt handler reads the pending interrupts once and acknowledges just these, after it
  has taken the hotplug and stability bits from the status register, each only if its interrupt
  is pending, and reported them.\<close>

theorem hdmi_interrupt:
  assumes "hdmi_dev w = Some d" "initialized d"
    and "ireg = base_addr d + HDMI_CORE_INTR_STATUS" "sreg = base_addr d + HDMI_CORE_STATUS"
    and "s = hw (bus w) ireg" "log1 = Rd ireg # bus w"
    and "log2 = (if s AND 1 \<noteq> 0 then Rd sreg # log1 else log1)"
    and "log3 = (if s AND 2 \<noteq> 0 then Rd sreg # log2 else log2)"
  shows "run_state (hdmi_interrupt_handler hw) w =
    ((), w\<lparr>hdmi_dev := Some (d\<lparr>connected := (if s AND 1 \<noteq> 0 then hw log1 sreg AND 1 \<noteq> 0 else connected d),
                               stable := (if s AND 2 \<noteq> 0 then hw log2 sreg AND 2 \<noteq> 0 else stable d)\<rparr>),
           bus := Wr ireg s # log3,
           printed := printed w @
             (if s AND 1 \<noteq> 0 then [(bytes ''HDMI: Hotplug event - %s'' @ [10],
                [yes_no (hw log1 sreg AND 1 \<noteq> 0) ''connected'' ''disconnected''])] else []) @
             (if s AND 2 \<noteq> 0 then [(bytes ''HDMI: Stability event - %s'' @ [10],
                [yes_no (hw log2 sreg AND 2 \<noteq> 0) ''stable'' ''unstable''])] else [])\<rparr>)"
  using assms(1,2) unfolding assms(3-)
  by (simp add: hdmi_interrupt_handler_def hotplug_event_def stability_event_def hdmi_is_connected_def hdmi_is_stable_def
      hdmi_get_interrupt_status_def hdmi_clear_interrupts_def hdmi_run)

lemma hdmi_resolution_programs_witness:
  "\<exists>w'. run_state (hdmi_set_resolution 3) (snd (run_state (hdmi_init 0x1000) fresh_world)) = (0, w') \<and>
    decode_timing 0x1000 74250000 (bus w') = Some (standard_timings ! 3)"
proof -
  let ?w = "snd (run_state (hdmi_init 0x1000) fresh_world)"
  obtain r w' where run: "run_state (hdmi_set_resolution 3) ?w = (r, w')" by (cases "run_state (hdmi_set_resolution 3) ?w")
  obtain d where d: "hdmi_dev ?w = Some d" "initialized d" "base_addr d = 0x1000"
    by (simp add: fresh_world_def run_init)
  from hdmi_resolution_programs [OF d(1,2) run] d(3) run show ?thesis
    by (simp add: hdmi_get_standard_timing_def standard_timings_def preset_def)
qed

lemma hdmi_interrupt_witness:
  "\<exists>w w' d. hdmi_dev w = Some d \<and> initialized d \<and> run_state (hdmi_interrupt_handler (\<lambda>_ _. 1)) w = ((), w') \<and>
    bus w' = [Wr 0x100C 1, Rd 0x1004, Rd 0x100C] @ bus w \<and> map_option connected (hdmi_dev w') = Some True"
proof -
  let ?w = "snd (run_state (hdmi_init 0x1000) fresh_world)"
  obtain d where d: "hdmi_dev ?w = Some d" "initialized d" "base_addr d = 0x1000"
    by (simp add: fresh_world_def run_init)
  show ?thesis
    using hdmi_interrupt [OF d(1,2) refl refl refl refl refl refl, of "\<lambda>_ _. 1"] d
    by (intro exI [of _ ?w] exI [of _ "snd (run_state (hdmi_interrupt_handler (\<lambda>_ _. 1)) ?w)"] exI [of _ d]) simp
qed

text \<open>All messages of the driver are well typed: whatever calls are made, in whatever state of the
  device, \<open>vprintf\<close> has a result for each format with its arguments.\<close>

theorem hdmi_messages_typed:
  assumes "printed w = []" "run_ops (hdmi_step hw) xs w = Some w'" "(format, args) \<in> set (printed w')"
  shows "vprintf format args \<noteq> None"
proof -
  have "typed_calls w" using assms(1) by (simp add: typed_calls_def)
  from hdmi_messages.run_inv [OF this assms(2)] assms(3) obtain ks where
    "fmt_kinds format = Some ks" "fits ks args" by (auto simp: typed_calls_def list_all_iff)
  then show ?thesis by (rule vprintf_fits)
qed

lemma hdmi_messages_typed_witness:
  "\<exists>w'. run_ops (hdmi_step plain_hw) [Dump_registers] fresh_world = Some w' \<and>
    vprintf (bytes ''HDMI: Device not initialized'' @ [10]) [] \<noteq> None"
proof -
  obtain w' where run: "run_ops (hdmi_step plain_hw) [Dump_registers] fresh_world = Some w'" by (simp add: hdmi_step_def)
  then have "(bytes ''HDMI: Device not initialized'' @ [10], []) \<in> set (printed w')"
    by (auto simp: hdmi_step_def hdmi_dump_registers_def fresh_world_def hdmi_run)
  with hdmi_messages_typed [OF _ run] run show ?thesis by (simp add: fresh_world_def)
qed

end
