(* ===== verification/Queue.thy ===== *)
theory Queue
  imports Prelude
begin

text \<open>
  The pointer lists of \<open>usr/include/sys/queue.h\<close>, which the shell's history is made of: the macros as
  updates of a store.  A \<open>cell\<close> is the address of a forward pointer, the head's \<open>&head->..first\<close> or an
  element's \<open>&elm->field..next\<close>.  \<open>nxt\<close> is what a cell holds, \<open>lst\<close> the \<open>..last\<close> field of a head, \<open>prv\<close> the
  \<open>..prev\<close> field of an element; one store serves the five kinds of lists, each using its own fields.
  \<open>_Q_INVALIDATE\<close> is empty in the build that is modelled.
\<close>

datatype ('h, 'e) cell = First 'h | Next 'e

record ('h, 'e) qstore =
  nxt :: "('h, 'e) cell \<Rightarrow> 'e option"
  lst :: "'h \<Rightarrow> ('h, 'e) cell"
  prv :: "'e \<Rightarrow> ('h, 'e) cell"

definition set_nxt :: "('h, 'e) cell \<Rightarrow> 'e option \<Rightarrow> ('h, 'e) qstore \<Rightarrow> ('h, 'e) qstore" where
  "set_nxt c v q = q\<lparr>nxt := (nxt q)(c := v)\<rparr>"

definition set_lst :: "'h \<Rightarrow> ('h, 'e) cell \<Rightarrow> ('h, 'e) qstore \<Rightarrow> ('h, 'e) qstore" where
  "set_lst h c q = q\<lparr>lst := (lst q)(h := c)\<rparr>"

definition set_prv :: "'e \<Rightarrow> ('h, 'e) cell \<Rightarrow> ('h, 'e) qstore \<Rightarrow> ('h, 'e) qstore" where
  "set_prv x c q = q\<lparr>prv := (prv q)(x := c)\<rparr>"

section \<open>Tail queues\<close>

definition TAILQ_FIRST :: "'h \<Rightarrow> ('h, 'e) qstore \<Rightarrow> 'e option" where
  "TAILQ_FIRST head q = nxt q (First head)"

definition TAILQ_NEXT :: "'e \<Rightarrow> ('h, 'e) qstore \<Rightarrow> 'e option" where
  "TAILQ_NEXT elm q = nxt q (Next elm)"

definition TAILQ_EMPTY :: "'h \<Rightarrow> ('h, 'e) qstore \<Rightarrow> bool" where
  "TAILQ_EMPTY head q \<longleftrightarrow> TAILQ_FIRST head q = None"

text \<open>A forward pointer is followed in memory by the backward pointer of the same head or element, so
  its address cast to a head gives access to that field.\<close>

definition cast_last :: "('h, 'e) cell \<Rightarrow> ('h, 'e) qstore \<Rightarrow> ('h, 'e) cell" where
  "cast_last c q = (case c of First h \<Rightarrow> lst q h | Next x \<Rightarrow> prv q x)"

definition TAILQ_LAST :: "'h \<Rightarrow> ('h, 'e) qstore \<Rightarrow> 'e option" where
  "TAILQ_LAST head q = nxt q (cast_last (lst q head) q)"

definition TAILQ_PREV :: "'e \<Rightarrow> ('h, 'e) qstore \<Rightarrow> 'e option" where
  "TAILQ_PREV elm q = nxt q (cast_last (prv q elm) q)"

definition TAILQ_INIT :: "'h \<Rightarrow> ('h, 'e) qstore \<Rightarrow> ('h, 'e) qstore" where
  "TAILQ_INIT head q = set_lst head (First head) (set_nxt (First head) None q)"

definition TAILQ_INSERT_HEAD :: "'h \<Rightarrow> 'e \<Rightarrow> ('h, 'e) qstore \<Rightarrow> ('h, 'e) qstore" where
  "TAILQ_INSERT_HEAD head elm q =
     (let q = set_nxt (Next elm) (nxt q (First head)) q;
          q = (case nxt q (First head) of Some f \<Rightarrow> set_prv f (Next elm) q | None \<Rightarrow> set_lst head (Next elm) q);
          q = set_nxt (First head) (Some elm) q
      in set_prv elm (First head) q)"

definition TAILQ_INSERT_TAIL :: "'h \<Rightarrow> 'e \<Rightarrow> ('h, 'e) qstore \<Rightarrow> ('h, 'e) qstore" where
  "TAILQ_INSERT_TAIL head elm q =
     (let q = set_nxt (Next elm) None q;
          q = set_prv elm (lst q head) q;
          q = set_nxt (lst q head) (Some elm) q
      in set_lst head (Next elm) q)"

definition TAILQ_INSERT_AFTER :: "'h \<Rightarrow> 'e \<Rightarrow> 'e \<Rightarrow> ('h, 'e) qstore \<Rightarrow> ('h, 'e) qstore" where
  "TAILQ_INSERT_AFTER head listelm elm q =
     (let q = set_nxt (Next elm) (nxt q (Next listelm)) q;
          q = (case nxt q (Next elm) of Some n \<Rightarrow> set_prv n (Next elm) q | None \<Rightarrow> set_lst head (Next elm) q);
          q = set_nxt (Next listelm) (Some elm) q
      in set_prv elm (Next listelm) q)"

definition TAILQ_INSERT_BEFORE :: "'e \<Rightarrow> 'e \<Rightarrow> ('h, 'e) qstore \<Rightarrow> ('h, 'e) qstore" where
  "TAILQ_INSERT_BEFORE listelm elm q =
     (let q = set_prv elm (prv q listelm) q;
          q = set_nxt (Next elm) (Some listelm) q;
          q = set_nxt (prv q listelm) (Some elm) q
      in set_prv listelm (Next elm) q)"

definition TAILQ_REMOVE :: "'h \<Rightarrow> 'e \<Rightarrow> ('h, 'e) qstore \<Rightarrow> ('h, 'e) qstore" where
  "TAILQ_REMOVE head elm q =
     (let q = (case nxt q (Next elm) of Some n \<Rightarrow> set_prv n (prv q elm) q | None \<Rightarrow> set_lst head (prv q elm) q)
      in set_nxt (prv q elm) (nxt q (Next elm)) q)"

definition TAILQ_REPLACE :: "'h \<Rightarrow> 'e \<Rightarrow> 'e \<Rightarrow> ('h, 'e) qstore \<Rightarrow> ('h, 'e) qstore" where
  "TAILQ_REPLACE head elm elm2 q =
     (let q = set_nxt (Next elm2) (nxt q (Next elm)) q;
          q = (case nxt q (Next elm2) of Some n \<Rightarrow> set_prv n (Next elm2) q | None \<Rightarrow> set_lst head (Next elm2) q);
          q = set_prv elm2 (prv q elm) q
      in set_nxt (prv q elm2) (Some elm2) q)"

definition TAILQ_CONCAT :: "'h \<Rightarrow> 'h \<Rightarrow> ('h, 'e) qstore \<Rightarrow> ('h, 'e) qstore" where
  "TAILQ_CONCAT head1 head2 q =
     (case TAILQ_FIRST head2 q of None \<Rightarrow> q
      | Some f \<Rightarrow>
          let q = set_nxt (lst q head1) (Some f) q;
              q = set_prv f (lst q head1) q;
              q = set_lst head1 (lst q head2) q
          in TAILQ_INIT head2 q)"

text \<open>The elements that the loops visit, when their body leaves the queue alone.\<close>

partial_function (option) tailq_foreach :: "('h, 'e) qstore \<Rightarrow> 'e option \<Rightarrow> 'e list option" where
  "tailq_foreach q var =
     (case var of None \<Rightarrow> Some []
      | Some x \<Rightarrow> do { xs \<leftarrow> tailq_foreach q (TAILQ_NEXT x q); Some (x # xs) })"

partial_function (option) tailq_foreach_reverse :: "('h, 'e) qstore \<Rightarrow> 'e option \<Rightarrow> 'e list option" where
  "tailq_foreach_reverse q var =
     (case var of None \<Rightarrow> Some []
      | Some x \<Rightarrow> do { xs \<leftarrow> tailq_foreach_reverse q (TAILQ_PREV x q); Some (x # xs) })"

text \<open>The loop \<open>TAILQ_FOREACH_SAFE\<close> with the removal of each element, as in \<open>shell_cleanup\<close>.\<close>

partial_function (option) tailq_remove_all :: "'h \<Rightarrow> 'e option \<Rightarrow> ('h, 'e) qstore \<Rightarrow> ('h, 'e) qstore option" where
  "tailq_remove_all head var q =
     (case var of None \<Rightarrow> Some q
      | Some x \<Rightarrow> tailq_remove_all head (TAILQ_NEXT x q) (TAILQ_REMOVE head x q))"

section \<open>Segments of a doubly linked list\<close>

named_theorems qstore \<open>Fields after an update of the store\<close>

lemma set_simps [simp]:
  "nxt (set_nxt c v q) = (nxt q)(c := v)" "lst (set_nxt c v q) = lst q" "prv (set_nxt c v q) = prv q"
  "nxt (set_lst h c q) = nxt q" "lst (set_lst h c q) = (lst q)(h := c)" "prv (set_lst h c q) = prv q"
  "nxt (set_prv x c q) = nxt q" "lst (set_prv x c q) = lst q" "prv (set_prv x c q) = (prv q)(x := c)"
  by (simp_all add: set_nxt_def set_lst_def set_prv_def)

text \<open>The cells from \<open>c\<close> on hold the elements \<open>xs\<close>, whose back pointers are right; \<open>d\<close> is the cell after
  them.\<close>

fun segment :: "('h, 'e) qstore \<Rightarrow> ('h, 'e) cell \<Rightarrow> 'e list \<Rightarrow> ('h, 'e) cell \<Rightarrow> bool" where
  "segment q c [] d \<longleftrightarrow> c = d"
| "segment q c (x # xs) d \<longleftrightarrow> nxt q c = Some x \<and> prv q x = c \<and> segment q (Next x) xs d"

lemma segment_append [simp]:
  "segment q c (xs @ ys) d \<longleftrightarrow> (\<exists>e. segment q c xs e \<and> segment q e ys d)"
  by (induction xs arbitrary: c) auto

lemma segment_cong:
  assumes "\<And>e. e \<in> set (butlast (c # map Next xs)) \<Longrightarrow> nxt q' e = nxt q e" "\<And>x. x \<in> set xs \<Longrightarrow> prv q' x = prv q x"
  shows "segment q' c xs d \<longleftrightarrow> segment q c xs d"
  using assms by (induction xs arbitrary: c) simp_all

lemma segment_set [simp]:
  "segment (set_lst h e q) c xs d \<longleftrightarrow> segment q c xs d"
  "x \<notin> set xs \<Longrightarrow> segment (set_prv x e q) c xs d \<longleftrightarrow> segment q c xs d"
  by (rule segment_cong; auto)+

lemma segment_set_nxt:
  "e \<notin> set (butlast (c # map Next xs)) \<Longrightarrow> segment (set_nxt e v q) c xs d \<longleftrightarrow> segment q c xs d"
  by (rule segment_cong) auto

lemma cell_mem [simp]: "Next x \<in> Next ` A \<longleftrightarrow> x \<in> A" "First h \<notin> Next ` A"
  by auto

lemma segment_end: "segment q c xs d \<Longrightarrow> d = (if xs = [] then c else Next (last xs))"
  by (induction xs arbitrary: c) (auto split: if_splits)

lemma segment_end_in: "segment q c xs d \<Longrightarrow> d = c \<or> d \<in> Next ` set xs"
  by (drule segment_end) (auto split: if_splits)

lemma last_notin_butlast: "xs \<noteq> [] \<Longrightarrow> distinct xs \<Longrightarrow> last xs \<notin> set (butlast xs)"
  by (induction xs) auto

text \<open>Updates outside a segment, and of the cell after it.\<close>

lemma segment_outside [simp]:
  "e \<noteq> c \<Longrightarrow> e \<notin> Next ` set xs \<Longrightarrow> segment (set_nxt e v q) c xs d \<longleftrightarrow> segment q c xs d"
  by (rule segment_set_nxt) (auto dest: in_set_butlastD)

lemma segment_at_end:
  assumes "segment q c xs d" "distinct xs" "c \<notin> Next ` set xs"
  shows "segment (set_nxt d v q) c xs d"
proof -
  have "distinct (c # map Next xs)" using assms(2,3) by (auto simp: distinct_map inj_on_def)
  moreover have "d = last (c # map Next xs)" using segment_end [OF assms(1)] by (simp add: last_map)
  ultimately have "d \<notin> set (butlast (c # map Next xs))" using last_notin_butlast [of "c # map Next xs"] by simp
  with assms(1) show ?thesis by (simp add: segment_set_nxt)
qed

text \<open>A tail queue holds the elements \<open>xs\<close>.\<close>

definition tailq :: "'h \<Rightarrow> ('h, 'e) qstore \<Rightarrow> 'e list \<Rightarrow> bool" where
  "tailq h q xs \<longleftrightarrow> distinct xs \<and> segment q (First h) xs (lst q h) \<and> nxt q (lst q h) = None"


text \<open>A tail queue split at an element: the cell \<open>e\<close> that points to it, the last cell, and what they
  are not.\<close>

lemma tailqE:
  assumes "tailq h q (as @ x # bs)"
  obtains e where "segment q (First h) as e" "nxt q e = Some x" "prv q x = e" "segment q (Next x) bs (lst q h)"
    "nxt q (lst q h) = None" "distinct (as @ x # bs)" "e \<notin> Next ` set bs" "e \<noteq> Next x" "lst q h \<noteq> e"
    "\<And>v q'. segment q' (First h) as e \<Longrightarrow> segment (set_nxt e v q') (First h) as e"
    "\<And>y. y \<notin> set (as @ x # bs) \<Longrightarrow> e \<noteq> Next y \<and> lst q h \<noteq> Next y" "bs = [] \<longleftrightarrow> lst q h = Next x"
proof -
  from assms obtain e where e: "segment q (First h) as e" "nxt q e = Some x" "prv q x = e"
      "segment q (Next x) bs (lst q h)" "nxt q (lst q h) = None" "distinct (as @ x # bs)"
    by (auto simp: tailq_def)
  note in_as = segment_end_in [OF e(1)] and in_bs = segment_end_in [OF e(4)]
  have at_end: "segment (set_nxt e v q') (First h) as e" if "segment q' (First h) as e" for v q'
    using that e(6) by (intro segment_at_end) auto
  have "bs = [] \<longleftrightarrow> lst q h = Next x"
    using segment_end [OF e(4)] e(6) by (auto dest: last_in_set split: if_splits)
  with e at_end in_as in_bs show ?thesis
    by (intro that [of e]) auto
qed

lemma tailqI:
  assumes "segment q (First h) as e" "nxt q e = Some x" "prv q x = e" "segment q (Next x) bs (lst q h)"
    "nxt q (lst q h) = None" "distinct (as @ x # bs)"
  shows "tailq h q (as @ x # bs)"
  using assms by (auto simp: tailq_def)

lemma tailq_init: "tailq h (TAILQ_INIT h q) []"
  by (simp add: tailq_def TAILQ_INIT_def)

lemma tailq_insert_tail:
  assumes "tailq h q xs" "x \<notin> set xs"
  shows "tailq h (TAILQ_INSERT_TAIL h x q) (xs @ [x])"
proof -
  from assms(1) have q: "segment q (First h) xs (lst q h)" "distinct xs" by (simp_all add: tailq_def)
  let ?q = "set_prv x (lst q h) (set_nxt (Next x) None q)"
  have l: "lst q h = First h \<or> lst q h \<in> Next ` set xs" by (rule segment_end_in [OF q(1)])
  with assms(2) have "lst q h \<noteq> Next x" by auto
  moreover have "segment ?q (First h) xs (lst q h)" using q(1) assms(2) by (simp add: segment_outside image_iff)
  then have "segment (set_nxt (lst q h) (Some x) ?q) (First h) xs (lst q h)"
    using q(2) by (intro segment_at_end) auto
  ultimately show ?thesis using q(2) assms(2) by (simp add: tailq_def TAILQ_INSERT_TAIL_def)
qed

lemma tailq_remove:
  assumes "tailq h q (as @ x # bs)"
  shows "tailq h (TAILQ_REMOVE h x q) (as @ bs)"
proof -
  from assms obtain e where q: "segment q (First h) as e" "nxt q e = Some x" "prv q x = e" "segment q (Next x) bs (lst q h)"
      "nxt q (lst q h) = None" "distinct (as @ x # bs)" "e \<notin> Next ` set bs" "e \<noteq> Next x" "lst q h \<noteq> e"
      "bs = [] \<longleftrightarrow> lst q h = Next x"
    and at_end: "\<And>v q'. segment q' (First h) as e \<Longrightarrow> segment (set_nxt e v q') (First h) as e"
    by (rule tailqE) blast
  show ?thesis
  proof (cases bs)
    case Nil
    with q show ?thesis by (simp add: tailq_def TAILQ_REMOVE_def at_end)
  next
    case (Cons b cs)
    have "segment (set_nxt e (Some b) (set_prv b e q)) (First h) as e" using q Cons by (intro at_end) auto
    then have "tailq h (set_nxt e (Some b) (set_prv b e q)) (as @ b # cs)"
      using q Cons by (intro tailqI [where e = e]) auto
    with q Cons show ?thesis by (simp add: TAILQ_REMOVE_def)
  qed
qed

lemma tailq_insert_head:
  assumes "tailq h q xs" "x \<notin> set xs"
  shows "tailq h (TAILQ_INSERT_HEAD h x q) (x # xs)"
proof (cases xs)
  case Nil
  with assms show ?thesis by (auto simp: tailq_def TAILQ_INSERT_HEAD_def)
next
  case (Cons y ys)
  with assms have q: "nxt q (First h) = Some y" "prv q y = First h" "segment q (Next y) ys (lst q h)"
    "nxt q (lst q h) = None" "y \<notin> set ys" "distinct ys" "x \<noteq> y" "x \<notin> set ys" by (auto simp: tailq_def)
  from segment_end_in [OF q(3)] have "lst q h \<noteq> First h" "lst q h \<noteq> Next x" using q by auto
  then show ?thesis using q Cons by (auto simp: tailq_def TAILQ_INSERT_HEAD_def)
qed

lemma tailq_insert_after:
  assumes "tailq h q (as @ l # bs)" "x \<notin> set (as @ l # bs)"
  shows "tailq h (TAILQ_INSERT_AFTER h l x q) (as @ l # x # bs)"
proof -
  from assms(1) obtain e where q: "segment q (First h) as e" "nxt q e = Some l" "prv q l = e" "segment q (Next l) bs (lst q h)"
      "nxt q (lst q h) = None" "distinct (as @ l # bs)" "e \<notin> Next ` set bs" "e \<noteq> Next l"
      "bs = [] \<longleftrightarrow> lst q h = Next l"
    and y: "\<And>y. y \<notin> set (as @ l # bs) \<Longrightarrow> e \<noteq> Next y \<and> lst q h \<noteq> Next y"
    by (rule tailqE) blast
  from y [OF assms(2)] have x: "e \<noteq> Next x" "lst q h \<noteq> Next x" by simp_all
  show ?thesis
  proof (cases bs)
    case Nil
    then have "lst q h = Next l" using q(9) by simp
    then have "nxt q (Next l) = None" using q(5) by simp
    with q(1-3,6,8) x(1) assms(2) Nil show ?thesis
      unfolding TAILQ_INSERT_AFTER_def by (intro tailqI [where e = e]) auto
  next
    case (Cons b cs)
    with q x assms(2) show ?thesis unfolding TAILQ_INSERT_AFTER_def by (intro tailqI [where e = e]) auto
  qed
qed

lemma tailq_insert_before:
  assumes "tailq h q (as @ l # bs)" "x \<notin> set (as @ l # bs)"
  shows "tailq h (TAILQ_INSERT_BEFORE l x q) (as @ x # l # bs)"
proof -
  from assms(1) obtain e where q: "segment q (First h) as e" "nxt q e = Some l" "prv q l = e" "segment q (Next l) bs (lst q h)"
      "nxt q (lst q h) = None" "distinct (as @ l # bs)" "e \<notin> Next ` set bs" "e \<noteq> Next l" "lst q h \<noteq> e"
    and at_end: "\<And>v q'. segment q' (First h) as e \<Longrightarrow> segment (set_nxt e v q') (First h) as e"
    and y: "\<And>y. y \<notin> set (as @ l # bs) \<Longrightarrow> e \<noteq> Next y \<and> lst q h \<noteq> Next y"
    by (rule tailqE) blast
  from y [OF assms(2)] have x: "e \<noteq> Next x" "lst q h \<noteq> Next x" by simp_all
  let ?q = "set_nxt e (Some x) (set_nxt (Next x) (Some l) (set_prv x e q))"
  have "segment ?q (First h) as e" using q x assms(2) by (intro at_end) simp
  then have "tailq h (set_prv l (Next x) ?q) (as @ x # l # bs)"
    using q x assms(2) by (intro tailqI [where e = e]) auto
  with q assms(2) show ?thesis by (auto simp: TAILQ_INSERT_BEFORE_def)
qed

lemma tailq_replace:
  assumes "tailq h q (as @ x # bs)" "y \<notin> set (as @ x # bs)"
  shows "tailq h (TAILQ_REPLACE h x y q) (as @ y # bs)"
proof -
  from assms(1) obtain e where q: "segment q (First h) as e" "nxt q e = Some x" "prv q x = e" "segment q (Next x) bs (lst q h)"
      "nxt q (lst q h) = None" "distinct (as @ x # bs)" "e \<notin> Next ` set bs" "e \<noteq> Next x" "lst q h \<noteq> e"
      "bs = [] \<longleftrightarrow> lst q h = Next x"
    and at_end: "\<And>v q'. segment q' (First h) as e \<Longrightarrow> segment (set_nxt e v q') (First h) as e"
    and y: "\<And>y. y \<notin> set (as @ x # bs) \<Longrightarrow> e \<noteq> Next y \<and> lst q h \<noteq> Next y"
    by (rule tailqE) blast
  from y [OF assms(2)] have x: "e \<noteq> Next y" "lst q h \<noteq> Next y" by simp_all
  show ?thesis
  proof (cases bs)
    case Nil
    have "segment (set_nxt e (Some y) (set_prv y e (set_lst h (Next y) (set_nxt (Next y) None q)))) (First h) as e"
      using q x assms(2) by (intro at_end) simp
    then have "tailq h (set_nxt e (Some y) (set_prv y e (set_lst h (Next y) (set_nxt (Next y) None q)))) (as @ y # [])"
      using q x assms(2) Nil by (intro tailqI [where e = e]) auto
    with q x assms(2) Nil show ?thesis by (simp add: TAILQ_REPLACE_def)
  next
    case (Cons b cs)
    let ?q = "set_nxt e (Some y) (set_prv y e (set_prv b (Next y) (set_nxt (Next y) (Some b) q)))"
    have "segment ?q (First h) as e" using q x assms(2) Cons by (intro at_end) auto
    then have "tailq h ?q (as @ y # b # cs)" using q x assms(2) Cons by (intro tailqI [where e = e]) auto
    with q x assms(2) Cons show ?thesis by (auto simp: TAILQ_REPLACE_def)
  qed
qed

text \<open>Two queues of one store, and the concatenation of the second to the first.\<close>

lemma tailq_concat:
  assumes "tailq h q xs" "tailq k q ys" "h \<noteq> k" "set xs \<inter> set ys = {}"
  shows "tailq h (TAILQ_CONCAT h k q) (xs @ ys)" "tailq k (TAILQ_CONCAT h k q) []"
proof -
  from assms(1) have q: "segment q (First h) xs (lst q h)" "nxt q (lst q h) = None" "distinct xs"
    by (simp_all add: tailq_def)
  have l: "lst q h = First h \<or> lst q h \<in> Next ` set xs" by (rule segment_end_in [OF q(1)])
  show "tailq h (TAILQ_CONCAT h k q) (xs @ ys)" "tailq k (TAILQ_CONCAT h k q) []"
  proof -
    show "tailq k (TAILQ_CONCAT h k q) []"
    proof (cases ys)
      case Nil
      with assms(2) show ?thesis by (auto simp: TAILQ_CONCAT_def TAILQ_FIRST_def tailq_def)
    next
      case (Cons y zs)
      with assms(2) have "nxt q (First k) = Some y" by (simp add: tailq_def)
      then show ?thesis by (simp add: TAILQ_CONCAT_def TAILQ_FIRST_def tailq_init Let_def)
    qed
    show "tailq h (TAILQ_CONCAT h k q) (xs @ ys)"
    proof (cases ys)
      case Nil
      with assms(1,2) show ?thesis by (auto simp: TAILQ_CONCAT_def TAILQ_FIRST_def tailq_def)
    next
      case (Cons y zs)
      with assms(2) have k: "nxt q (First k) = Some y" "prv q y = First k" "segment q (Next y) zs (lst q k)"
        "nxt q (lst q k) = None" "y \<notin> set zs" "distinct zs" by (auto simp: tailq_def)
      have d: "lst q k = Next y \<or> lst q k \<in> Next ` set zs" by (rule segment_end_in [OF k(3)])
      have n: "lst q h \<noteq> First k" "lst q h \<noteq> Next y" "lst q h \<notin> Next ` set zs" "lst q k \<noteq> lst q h" "lst q k \<noteq> First k"
        using l d assms(3,4) Cons by auto
      let ?q = "set_nxt (First k) None (set_prv y (lst q h) (set_nxt (lst q h) (Some y) q))"
      have "segment (set_nxt (lst q h) (Some y) q) (First h) xs (lst q h)"
        using q by (intro segment_at_end) auto
      then have "segment ?q (First h) xs (lst q h)" using assms(3,4) Cons by auto
      then have "tailq h (set_lst k (First k) (set_lst h (lst q k) ?q)) (xs @ y # zs)"
        using k n q(3) assms(3,4) Cons by (intro tailqI [where e = "lst q h"]) auto
      moreover have "TAILQ_CONCAT h k q = set_lst k (First k) (set_lst h (lst q k) ?q)"
        using k(1) n(1) by (simp add: TAILQ_CONCAT_def TAILQ_FIRST_def TAILQ_INIT_def set_nxt_def set_lst_def set_prv_def fun_upd_twist)
      ultimately show ?thesis using Cons by simp
    qed
  qed
qed

text \<open>What the access macros return.\<close>

lemma tailq_first: "tailq h q xs \<Longrightarrow> TAILQ_FIRST h q = (if xs = [] then None else Some (hd xs))"
  by (cases xs) (auto simp: tailq_def TAILQ_FIRST_def)

lemma tailq_empty: "tailq h q xs \<Longrightarrow> TAILQ_EMPTY h q \<longleftrightarrow> xs = []"
  by (simp add: TAILQ_EMPTY_def tailq_first)

lemma tailq_next:
  "tailq h q (as @ x # bs) \<Longrightarrow> TAILQ_NEXT x q = (if bs = [] then None else Some (hd bs))"
  by (cases bs) (auto simp: tailq_def TAILQ_NEXT_def)

lemma tailq_prev:
  assumes "tailq h q (as @ x # bs)"
  shows "TAILQ_PREV x q = (if as = [] then None else Some (last as))"
proof (cases as rule: rev_cases)
  case Nil
  with assms show ?thesis by (auto simp: tailq_def TAILQ_PREV_def cast_last_def)
next
  case (snoc bs y)
  with assms show ?thesis by (auto simp: tailq_def TAILQ_PREV_def cast_last_def)
qed

lemma tailq_last:
  assumes "tailq h q xs"
  shows "TAILQ_LAST h q = (if xs = [] then None else Some (last xs))"
proof (cases xs rule: rev_cases)
  case Nil
  with assms have "lst q h = First h" by (simp add: tailq_def)
  with assms Nil show ?thesis by (auto simp: tailq_def TAILQ_LAST_def cast_last_def)
next
  case (snoc ys y)
  with assms have "lst q h = Next y" by (auto simp: tailq_def)
  with assms snoc show ?thesis by (auto simp: tailq_def TAILQ_LAST_def cast_last_def)
qed

text \<open>The loops end, and visit the elements in order, from either end.\<close>

lemma tailq_foreach_from:
  "tailq h q (as @ bs) \<Longrightarrow> tailq_foreach q (if bs = [] then None else Some (hd bs)) = Some bs"
proof (induction bs arbitrary: as)
  case Nil
  then show ?case by (simp add: tailq_foreach.simps)
next
  case (Cons b bs)
  from Cons.IH [of "as @ [b]"] Cons.prems have "tailq_foreach q (if bs = [] then None else Some (hd bs)) = Some bs"
    by simp
  with tailq_next [OF Cons.prems] show ?case by (subst tailq_foreach.simps) simp
qed

lemma tailq_foreach_reverse_from:
  "tailq h q (as @ bs) \<Longrightarrow> tailq_foreach_reverse q (if as = [] then None else Some (last as)) = Some (rev as)"
proof (induction as arbitrary: bs rule: rev_induct)
  case Nil
  then show ?case by (simp add: tailq_foreach_reverse.simps)
next
  case (snoc a as)
  from snoc.prems have "tailq h q (as @ a # bs)" by simp
  with snoc.IH [OF this] tailq_prev [OF this] show ?case by (subst tailq_foreach_reverse.simps) simp
qed

lemma tailq_remove_all_from:
  "tailq h q xs \<Longrightarrow> \<exists>q'. tailq_remove_all h (if xs = [] then None else Some (hd xs)) q = Some q' \<and> tailq h q' []"
proof (induction xs arbitrary: q)
  case Nil
  then show ?case by (simp add: tailq_remove_all.simps)
next
  case (Cons x xs)
  from Cons.prems have q: "tailq h q ([] @ x # xs)" by simp
  from Cons.IH [OF tailq_remove [OF q, simplified]] tailq_next [OF q] show ?case
    by (subst tailq_remove_all.simps) simp
qed

section \<open>Edits of a tail queue\<close>

datatype 'e edit =
    Ins_head 'e
  | Ins_tail 'e
  | Ins_after 'e 'e
  | Ins_before 'e 'e
  | Remove 'e
  | Replace 'e 'e

text \<open>What a client may ask of a list of elements, and the same of the store.\<close>

definition split_at :: "'e \<Rightarrow> 'e list \<Rightarrow> ('e list \<times> 'e list) option" where
  "split_at x xs = (if x \<in> set xs then Some (takeWhile (\<lambda>y. y \<noteq> x) xs, tl (dropWhile (\<lambda>y. y \<noteq> x) xs)) else None)"

fun edit_list :: "'e edit \<Rightarrow> 'e list \<Rightarrow> 'e list option" where
  "edit_list (Ins_head x) xs = (if x \<in> set xs then None else Some (x # xs))"
| "edit_list (Ins_tail x) xs = (if x \<in> set xs then None else Some (xs @ [x]))"
| "edit_list (Ins_after l x) xs =
     do { (as, bs) \<leftarrow> split_at l xs; if x \<in> set xs then None else Some (as @ l # x # bs) }"
| "edit_list (Ins_before l x) xs =
     do { (as, bs) \<leftarrow> split_at l xs; if x \<in> set xs then None else Some (as @ x # l # bs) }"
| "edit_list (Remove x) xs = do { (as, bs) \<leftarrow> split_at x xs; Some (as @ bs) }"
| "edit_list (Replace x y) xs =
     do { (as, bs) \<leftarrow> split_at x xs; if y \<in> set xs then None else Some (as @ y # bs) }"

fun edit_store :: "'h \<Rightarrow> 'e edit \<Rightarrow> ('h, 'e) qstore \<Rightarrow> ('h, 'e) qstore" where
  "edit_store h (Ins_head x) = TAILQ_INSERT_HEAD h x"
| "edit_store h (Ins_tail x) = TAILQ_INSERT_TAIL h x"
| "edit_store h (Ins_after l x) = TAILQ_INSERT_AFTER h l x"
| "edit_store h (Ins_before l x) = TAILQ_INSERT_BEFORE l x"
| "edit_store h (Remove x) = TAILQ_REMOVE h x"
| "edit_store h (Replace x y) = TAILQ_REPLACE h x y"

lemma split_at: "split_at x xs = Some (as, bs) \<Longrightarrow> xs = as @ x # bs"
proof -
  assume s: "split_at x xs = Some (as, bs)"
  then have "x \<in> set xs" by (auto simp: split_at_def split: if_splits)
  then have "dropWhile (\<lambda>y. y \<noteq> x) xs = x # tl (dropWhile (\<lambda>y. y \<noteq> x) xs)"
    by (induction xs) auto
  with s show ?thesis
    by (metis \<open>x \<in> set xs\<close> option.inject prod.inject split_at_def takeWhile_dropWhile_id)
qed

lemma tailq_edit: "tailq h q xs \<Longrightarrow> edit_list e xs = Some ys \<Longrightarrow> tailq h (edit_store h e q) ys"
  by (cases e) (auto split: if_splits bind_splits dest!: split_at
      intro!: tailq_insert_head tailq_insert_tail tailq_insert_after tailq_insert_before tailq_remove tailq_replace)

lemma tailq_edits:
  "tailq h q xs \<Longrightarrow> run_ops edit_list es xs = Some ys \<Longrightarrow> tailq h (fold (edit_store h) es q) ys"
  by (induction es arbitrary: q xs) (auto split: bind_splits dest: tailq_edit)

section \<open>Queues\<close>

text \<open>The contract of a first-in first-out queue over a store, and what its clients may count on.\<close>

datatype 'e qop = Put 'e | Take

fun run_queue :: "('e \<Rightarrow> 'q \<Rightarrow> 'q) \<Rightarrow> ('q \<Rightarrow> ('e \<times> 'q) option) \<Rightarrow> 'e qop list \<Rightarrow> 'q \<Rightarrow> 'e option list \<times> 'q" where
  "run_queue put pop [] q = ([], q)"
| "run_queue put pop (Put x # xs) q = run_queue put pop xs (put x q)"
| "run_queue put pop (Take # xs) q =
     (case pop q of
        None \<Rightarrow> (let (r, q) = run_queue put pop xs q in (None # r, q))
      | Some (x, q) \<Rightarrow> (let (r, q) = run_queue put pop xs q in (Some x # r, q)))"

definition list_put :: "'e \<Rightarrow> 'e list \<Rightarrow> 'e list" where "list_put x xs = xs @ [x]"

fun list_take :: "'e list \<Rightarrow> ('e \<times> 'e list) option" where
  "list_take [] = None"
| "list_take (x # xs) = Some (x, xs)"

text \<open>No element is put into a queue that it is in.\<close>

fun puts_fresh :: "'e qop list \<Rightarrow> 'e list \<Rightarrow> bool" where
  "puts_fresh [] xs \<longleftrightarrow> True"
| "puts_fresh (Put x # ops) xs \<longleftrightarrow> x \<notin> set xs \<and> puts_fresh ops (xs @ [x])"
| "puts_fresh (Take # ops) xs \<longleftrightarrow> puts_fresh ops (tl xs)"

locale fifo =
  fixes init :: "'q \<Rightarrow> 'q"
    and put :: "'e \<Rightarrow> 'q \<Rightarrow> 'q"
    and pop :: "'q \<Rightarrow> ('e \<times> 'q) option"
    and holds :: "'q \<Rightarrow> 'e list \<Rightarrow> bool"
  assumes holds_init: "holds (init q) []"
    and holds_put: "holds q xs \<Longrightarrow> x \<notin> set xs \<Longrightarrow> holds (put x q) (xs @ [x])"
    and take_none: "holds q [] \<Longrightarrow> pop q = None"
    and take_some: "holds q (x # xs) \<Longrightarrow> \<exists>q'. pop q = Some (x, q') \<and> holds q' xs"
begin

lemma run_refines:
  "holds q xs \<Longrightarrow> puts_fresh ops xs \<Longrightarrow> run_queue put pop ops q = (r, q') \<Longrightarrow>
    \<exists>ys. run_queue list_put list_take ops xs = (r, ys) \<and> holds q' ys"
proof (induction ops arbitrary: q xs r)
  case Nil
  then show ?case by auto
next
  case (Cons x ops)
  show ?case
  proof (cases x)
    case (Put y)
    with Cons.prems have "holds (put y q) (xs @ [y])" by (auto intro: holds_put)
    from Cons.IH [OF this] Cons.prems Put show ?thesis by (auto simp: list_put_def)
  next
    case Take
    show ?thesis
    proof (cases xs)
      case Nil
      with Cons Take take_none show ?thesis by (fastforce split: prod.splits)
    next
      case (Cons y ys)
      with Cons.prems(1) take_some obtain q1 where q1: "pop q = Some (y, q1)" "holds q1 ys" by blast
      obtain r1 where r1: "run_queue put pop ops q1 = (r1, q')" "r = Some y # r1"
        using Cons.prems(3) Take q1(1) by (auto split: prod.splits)
      from Cons.IH [OF q1(2) _ r1(1)] Cons.prems(2) Take Cons r1(2) show ?thesis by auto
    qed
  qed
qed

lemma run_from_init:
  "puts_fresh ops [] \<Longrightarrow> fst (run_queue put pop ops (init q)) = fst (run_queue list_put list_take ops [])"
  using run_refines [OF holds_init] by (metis fst_conv surj_pair)

end

text \<open>The client's way to take the first element, as in \<open>shell_add_to_history\<close>.\<close>

definition tailq_pop :: "'h \<Rightarrow> ('h, 'e) qstore \<Rightarrow> ('e \<times> ('h, 'e) qstore) option" where
  "tailq_pop h q = (case TAILQ_FIRST h q of None \<Rightarrow> None | Some x \<Rightarrow> Some (x, TAILQ_REMOVE h x q))"

interpretation tailq_fifo: fifo "TAILQ_INIT h" "TAILQ_INSERT_TAIL h" "tailq_pop h" "tailq h" for h
proof
  fix q :: "('a, 'b) qstore" and x :: 'b and xs
  show "tailq h (TAILQ_INIT h q) []" by (rule tailq_init)
  show "tailq h q xs \<Longrightarrow> x \<notin> set xs \<Longrightarrow> tailq h (TAILQ_INSERT_TAIL h x q) (xs @ [x])" by (rule tailq_insert_tail)
  show "tailq h q [] \<Longrightarrow> tailq_pop h q = None" by (simp add: tailq_pop_def tailq_first)
  show "tailq h q (x # xs) \<Longrightarrow> \<exists>q'. tailq_pop h q = Some (x, q') \<and> tailq h q' xs"
    using tailq_remove [of h q "[]" x xs] by (simp add: tailq_pop_def tailq_first)
qed


section \<open>Lists\<close>

text \<open>The \<open>LIST\<close> macros do without the last pointer.\<close>

definition LIST_FIRST :: "'h \<Rightarrow> ('h, 'e) qstore \<Rightarrow> 'e option" where
  "LIST_FIRST head q = nxt q (First head)"

definition LIST_NEXT :: "'e \<Rightarrow> ('h, 'e) qstore \<Rightarrow> 'e option" where
  "LIST_NEXT elm q = nxt q (Next elm)"

definition LIST_EMPTY :: "'h \<Rightarrow> ('h, 'e) qstore \<Rightarrow> bool" where
  "LIST_EMPTY head q \<longleftrightarrow> LIST_FIRST head q = None"

definition LIST_INIT :: "'h \<Rightarrow> ('h, 'e) qstore \<Rightarrow> ('h, 'e) qstore" where
  "LIST_INIT head q = set_nxt (First head) None q"

definition LIST_INSERT_AFTER :: "'e \<Rightarrow> 'e \<Rightarrow> ('h, 'e) qstore \<Rightarrow> ('h, 'e) qstore" where
  "LIST_INSERT_AFTER listelm elm q =
     (let q = set_nxt (Next elm) (nxt q (Next listelm)) q;
          q = (case nxt q (Next elm) of
                 Some _ \<Rightarrow> (case nxt q (Next listelm) of Some n \<Rightarrow> set_prv n (Next elm) q | None \<Rightarrow> q)
               | None \<Rightarrow> q);
          q = set_nxt (Next listelm) (Some elm) q
      in set_prv elm (Next listelm) q)"

definition LIST_INSERT_BEFORE :: "'e \<Rightarrow> 'e \<Rightarrow> ('h, 'e) qstore \<Rightarrow> ('h, 'e) qstore" where
  "LIST_INSERT_BEFORE listelm elm q =
     (let q = set_prv elm (prv q listelm) q;
          q = set_nxt (Next elm) (Some listelm) q;
          q = set_nxt (prv q listelm) (Some elm) q
      in set_prv listelm (Next elm) q)"

definition LIST_INSERT_HEAD :: "'h \<Rightarrow> 'e \<Rightarrow> ('h, 'e) qstore \<Rightarrow> ('h, 'e) qstore" where
  "LIST_INSERT_HEAD head elm q =
     (let q = set_nxt (Next elm) (nxt q (First head)) q;
          q = (case nxt q (First head) of Some f \<Rightarrow> set_prv f (Next elm) q | None \<Rightarrow> q);
          q = set_nxt (First head) (Some elm) q
      in set_prv elm (First head) q)"

definition LIST_REMOVE :: "'e \<Rightarrow> ('h, 'e) qstore \<Rightarrow> ('h, 'e) qstore" where
  "LIST_REMOVE elm q =
     (let q = (case nxt q (Next elm) of Some n \<Rightarrow> set_prv n (prv q elm) q | None \<Rightarrow> q)
      in set_nxt (prv q elm) (nxt q (Next elm)) q)"

definition LIST_REPLACE :: "'e \<Rightarrow> 'e \<Rightarrow> ('h, 'e) qstore \<Rightarrow> ('h, 'e) qstore" where
  "LIST_REPLACE elm elm2 q =
     (let q = set_nxt (Next elm2) (nxt q (Next elm)) q;
          q = (case nxt q (Next elm2) of Some n \<Rightarrow> set_prv n (Next elm2) q | None \<Rightarrow> q);
          q = set_prv elm2 (prv q elm) q
      in set_nxt (prv q elm2) (Some elm2) q)"

text \<open>A list is a tail queue up to the last pointer, and the operations agree up to it.\<close>

definition linked :: "'h \<Rightarrow> ('h, 'e) qstore \<Rightarrow> 'e list \<Rightarrow> bool" where
  "linked h q xs \<longleftrightarrow> (\<exists>d. tailq h (set_lst h d q) xs)"

lemma segment_same: "nxt q' = nxt q \<Longrightarrow> prv q' = prv q \<Longrightarrow> segment q' c xs d \<longleftrightarrow> segment q c xs d"
  by (rule segment_cong) simp_all

lemma linkedI:
  assumes "tailq h q' xs" "nxt q' = nxt q" "prv q' = prv q"
  shows "linked h q xs"
proof -
  have "segment (set_lst h (lst q' h) q) (First h) xs (lst q' h)"
    using assms by (subst segment_same [of _ q']) (simp_all add: tailq_def)
  with assms(1,2) show ?thesis unfolding linked_def tailq_def
    by (intro exI [of _ "lst q' h"]) simp
qed

lemma linked_op:
  assumes "linked h q xs" "\<And>d. tailq h (set_lst h d q) xs \<Longrightarrow> tailq h (f (set_lst h d q)) ys"
    and "\<And>d. nxt (f (set_lst h d q)) = nxt (g q) \<and> prv (f (set_lst h d q)) = prv (g q)"
  shows "linked h (g q) ys"
proof -
  from assms(1) obtain d where "tailq h (set_lst h d q) xs" by (auto simp: linked_def)
  from linkedI [OF assms(2) [OF this]] assms(3) show ?thesis by blast
qed

lemma list_init: "linked h (LIST_INIT h q) []"
  by (rule linkedI [OF tailq_init [of h q]]) (simp_all add: TAILQ_INIT_def LIST_INIT_def)

lemma list_insert_head: "linked h q xs \<Longrightarrow> x \<notin> set xs \<Longrightarrow> linked h (LIST_INSERT_HEAD h x q) (x # xs)"
  by (rule linked_op [where f = "TAILQ_INSERT_HEAD h x"], assumption, erule (1) tailq_insert_head)
    (simp add: TAILQ_INSERT_HEAD_def LIST_INSERT_HEAD_def Let_def split: option.split)

lemma list_insert_after:
  "linked h q (as @ l # bs) \<Longrightarrow> x \<notin> set (as @ l # bs) \<Longrightarrow> linked h (LIST_INSERT_AFTER l x q) (as @ l # x # bs)"
  by (rule linked_op [where f = "TAILQ_INSERT_AFTER h l x"], assumption, erule (1) tailq_insert_after)
    (simp add: TAILQ_INSERT_AFTER_def LIST_INSERT_AFTER_def Let_def split: option.split)

lemma list_insert_before:
  "linked h q (as @ l # bs) \<Longrightarrow> x \<notin> set (as @ l # bs) \<Longrightarrow> linked h (LIST_INSERT_BEFORE l x q) (as @ x # l # bs)"
  by (rule linked_op [where f = "TAILQ_INSERT_BEFORE l x"], assumption, erule (1) tailq_insert_before)
    (simp add: TAILQ_INSERT_BEFORE_def LIST_INSERT_BEFORE_def Let_def)

lemma list_remove: "linked h q (as @ x # bs) \<Longrightarrow> linked h (LIST_REMOVE x q) (as @ bs)"
  by (rule linked_op [where f = "TAILQ_REMOVE h x"], assumption, erule tailq_remove)
    (simp add: TAILQ_REMOVE_def LIST_REMOVE_def Let_def split: option.split)

lemma list_replace:
  "linked h q (as @ x # bs) \<Longrightarrow> y \<notin> set (as @ x # bs) \<Longrightarrow> linked h (LIST_REPLACE x y q) (as @ y # bs)"
  by (rule linked_op [where f = "TAILQ_REPLACE h x y"], assumption, erule (1) tailq_replace)
    (simp add: TAILQ_REPLACE_def LIST_REPLACE_def Let_def split: option.split)

section \<open>Properties\<close>

text \<open>C31.  The tail queue macros, on a store with whatever contents: after \<open>TAILQ_INIT\<close> and any sequence of
  insertions, removals and replacements at any place that is legal on a list of elements,
  traversing the queue forwards visits the elements of that list in order, and traversing it
  backwards visits them in reverse; both end.\<close>

theorem tailq_refines_list:
  assumes "run_ops edit_list es [] = Some xs" "q' = fold (edit_store h) es (TAILQ_INIT h q)"
  shows "tailq_foreach q' (TAILQ_FIRST h q') = Some xs \<and>
    tailq_foreach_reverse q' (TAILQ_LAST h q') = Some (rev xs) \<and>
    (TAILQ_EMPTY h q' \<longleftrightarrow> xs = [])"
proof -
  have t: "tailq h q' xs" unfolding assms(2) by (rule tailq_edits [OF tailq_init assms(1)])
  then show ?thesis
    using tailq_foreach_from [of h q' "[]" xs] tailq_foreach_reverse_from [of h q' xs "[]"]
    by (simp add: tailq_first tailq_last tailq_empty)
qed

definition wild_store :: "(unit, nat) qstore" where
  "wild_store = \<lparr>nxt = (\<lambda>_. Some 7), lst = (\<lambda>_. Next 9), prv = (\<lambda>_. Next 4)\<rparr>"

lemma tailq_refines_list_witness:
  "\<exists>q'. q' = fold (edit_store ()) [Ins_tail 1, Ins_tail 2, Ins_head 3, Ins_before 2 4, Remove 1, Ins_after 3 5] (TAILQ_INIT () wild_store) \<and>
    tailq_foreach q' (TAILQ_FIRST () q') = Some [3, 5, 4, 2 :: nat] \<and>
    tailq_foreach_reverse q' (TAILQ_LAST () q') = Some [2, 4, 5, 3]"
proof -
  have "run_ops edit_list [Ins_tail 1, Ins_tail 2, Ins_head 3, Ins_before 2 4, Remove 1, Ins_after 3 5] [] =
      Some [3, 5, 4, 2 :: nat]" by (simp add: split_at_def)
  from tailq_refines_list [OF this refl, of "()" wild_store] show ?thesis by simp
qed

text \<open>As a queue: what a client gets out of a tail queue that it fills at the tail and empties at the
  head is what went in, in order.\<close>

theorem tailq_fifo_order:
  assumes "puts_fresh ops []"
  shows "fst (run_queue (TAILQ_INSERT_TAIL h) (tailq_pop h) ops (TAILQ_INIT h q)) =
    fst (run_queue list_put list_take ops [])"
  using assms by (rule tailq_fifo.run_from_init)

lemma tailq_fifo_order_witness:
  "fst (run_queue (TAILQ_INSERT_TAIL ()) (tailq_pop ()) [Take, Put 1, Put 2, Take, Put 1, Take, Take] (TAILQ_INIT () wild_store)) =
    [None, Some 1, Some 2, Some 1]"
  by (subst tailq_fifo_order) (simp_all add: list_put_def)

end
