(* ===== verification/Squeue.thy ===== *)
theory Squeue
  imports Prelude Queue
begin

text \<open>
  The singly linked lists of \<open>usr/include/sys/queue.h\<close>, on the store of \<open>Queue\<close>: \<open>SLIST\<close>, which has a
  first pointer only, and the two kinds of queues with a last pointer, \<open>SIMPLEQ\<close> and \<open>STAILQ\<close>.  A
  macro that follows a null pointer, or a loop that runs off the list, has no result.
\<close>

section \<open>Singly linked lists\<close>

definition SLIST_FIRST :: "'h \<Rightarrow> ('h, 'e) qstore \<Rightarrow> 'e option" where
  "SLIST_FIRST head q = nxt q (First head)"

definition SLIST_NEXT :: "'e \<Rightarrow> ('h, 'e) qstore \<Rightarrow> 'e option" where
  "SLIST_NEXT elm q = nxt q (Next elm)"

definition SLIST_EMPTY :: "'h \<Rightarrow> ('h, 'e) qstore \<Rightarrow> bool" where
  "SLIST_EMPTY head q \<longleftrightarrow> SLIST_FIRST head q = None"

definition SLIST_INIT :: "'h \<Rightarrow> ('h, 'e) qstore \<Rightarrow> ('h, 'e) qstore" where
  "SLIST_INIT head q = set_nxt (First head) None q"

definition SLIST_INSERT_AFTER :: "'e \<Rightarrow> 'e \<Rightarrow> ('h, 'e) qstore \<Rightarrow> ('h, 'e) qstore" where
  "SLIST_INSERT_AFTER slistelm elm q =
     (let q = set_nxt (Next elm) (nxt q (Next slistelm)) q in set_nxt (Next slistelm) (Some elm) q)"

definition SLIST_INSERT_HEAD :: "'h \<Rightarrow> 'e \<Rightarrow> ('h, 'e) qstore \<Rightarrow> ('h, 'e) qstore" where
  "SLIST_INSERT_HEAD head elm q =
     (let q = set_nxt (Next elm) (nxt q (First head)) q in set_nxt (First head) (Some elm) q)"

definition SLIST_REMOVE_AFTER :: "'e \<Rightarrow> ('h, 'e) qstore \<Rightarrow> ('h, 'e) qstore option" where
  "SLIST_REMOVE_AFTER elm q =
     do { n \<leftarrow> nxt q (Next elm); Some (set_nxt (Next elm) (nxt q (Next n)) q) }"

definition SLIST_REMOVE_HEAD :: "'h \<Rightarrow> ('h, 'e) qstore \<Rightarrow> ('h, 'e) qstore option" where
  "SLIST_REMOVE_HEAD head q =
     do { f \<leftarrow> nxt q (First head); Some (set_nxt (First head) (nxt q (Next f)) q) }"

text \<open>The loop of \<open>SLIST_REMOVE\<close> and \<open>STAILQ_REMOVE\<close> finds the element before \<open>elm\<close>.\<close>

partial_function (option) find_before :: "('h, 'e) qstore \<Rightarrow> 'e \<Rightarrow> 'e \<Rightarrow> 'e option" where
  "find_before q elm curelm =
     (if nxt q (Next curelm) = Some elm then Some curelm
      else do { n \<leftarrow> nxt q (Next curelm); find_before q elm n })"

definition SLIST_REMOVE :: "'h \<Rightarrow> 'e \<Rightarrow> ('h, 'e) qstore \<Rightarrow> ('h, 'e) qstore option" where
  "SLIST_REMOVE head elm q =
     (if nxt q (First head) = Some elm then SLIST_REMOVE_HEAD head q
      else do { f \<leftarrow> nxt q (First head); c \<leftarrow> find_before q elm f; SLIST_REMOVE_AFTER c q })"

section \<open>Simple queues\<close>

definition SIMPLEQ_FIRST :: "'h \<Rightarrow> ('h, 'e) qstore \<Rightarrow> 'e option" where
  "SIMPLEQ_FIRST head q = nxt q (First head)"

definition SIMPLEQ_NEXT :: "'e \<Rightarrow> ('h, 'e) qstore \<Rightarrow> 'e option" where
  "SIMPLEQ_NEXT elm q = nxt q (Next elm)"

definition SIMPLEQ_EMPTY :: "'h \<Rightarrow> ('h, 'e) qstore \<Rightarrow> bool" where
  "SIMPLEQ_EMPTY head q \<longleftrightarrow> SIMPLEQ_FIRST head q = None"

definition SIMPLEQ_INIT :: "'h \<Rightarrow> ('h, 'e) qstore \<Rightarrow> ('h, 'e) qstore" where
  "SIMPLEQ_INIT head q = set_lst head (First head) (set_nxt (First head) None q)"

definition SIMPLEQ_INSERT_HEAD :: "'h \<Rightarrow> 'e \<Rightarrow> ('h, 'e) qstore \<Rightarrow> ('h, 'e) qstore" where
  "SIMPLEQ_INSERT_HEAD head elm q =
     (let n = nxt q (First head);
          q = set_nxt (Next elm) n q;
          q = (if n = None then set_lst head (Next elm) q else q)
      in set_nxt (First head) (Some elm) q)"

definition SIMPLEQ_INSERT_TAIL :: "'h \<Rightarrow> 'e \<Rightarrow> ('h, 'e) qstore \<Rightarrow> ('h, 'e) qstore" where
  "SIMPLEQ_INSERT_TAIL head elm q =
     (let q = set_nxt (Next elm) None q;
          q = set_nxt (lst q head) (Some elm) q
      in set_lst head (Next elm) q)"

definition SIMPLEQ_INSERT_AFTER :: "'h \<Rightarrow> 'e \<Rightarrow> 'e \<Rightarrow> ('h, 'e) qstore \<Rightarrow> ('h, 'e) qstore" where
  "SIMPLEQ_INSERT_AFTER head listelm elm q =
     (let n = nxt q (Next listelm);
          q = set_nxt (Next elm) n q;
          q = (if n = None then set_lst head (Next elm) q else q)
      in set_nxt (Next listelm) (Some elm) q)"

definition SIMPLEQ_REMOVE_HEAD :: "'h \<Rightarrow> ('h, 'e) qstore \<Rightarrow> ('h, 'e) qstore option" where
  "SIMPLEQ_REMOVE_HEAD head q =
     do { f \<leftarrow> nxt q (First head);
          let n = nxt q (Next f); q = set_nxt (First head) n q
          in Some (if n = None then set_lst head (First head) q else q) }"

definition SIMPLEQ_REMOVE_AFTER :: "'h \<Rightarrow> 'e \<Rightarrow> ('h, 'e) qstore \<Rightarrow> ('h, 'e) qstore option" where
  "SIMPLEQ_REMOVE_AFTER head elm q =
     do { s \<leftarrow> nxt q (Next elm);
          let n = nxt q (Next s); q = set_nxt (Next elm) n q
          in Some (if n = None then set_lst head (Next elm) q else q) }"

definition SIMPLEQ_CONCAT :: "'h \<Rightarrow> 'h \<Rightarrow> ('h, 'e) qstore \<Rightarrow> ('h, 'e) qstore" where
  "SIMPLEQ_CONCAT head1 head2 q =
     (if \<not> SIMPLEQ_EMPTY head2 q then
        let q = set_nxt (lst q head1) (nxt q (First head2)) q;
            q = set_lst head1 (lst q head2) q
        in SIMPLEQ_INIT head2 q
      else q)"

section \<open>Singly linked tail queues\<close>

definition STAILQ_FIRST :: "'h \<Rightarrow> ('h, 'e) qstore \<Rightarrow> 'e option" where
  "STAILQ_FIRST head q = nxt q (First head)"

definition STAILQ_NEXT :: "'e \<Rightarrow> ('h, 'e) qstore \<Rightarrow> 'e option" where
  "STAILQ_NEXT elm q = nxt q (Next elm)"

definition STAILQ_EMPTY :: "'h \<Rightarrow> ('h, 'e) qstore \<Rightarrow> bool" where
  "STAILQ_EMPTY head q \<longleftrightarrow> STAILQ_FIRST head q = None"

definition STAILQ_INIT :: "'h \<Rightarrow> ('h, 'e) qstore \<Rightarrow> ('h, 'e) qstore" where
  "STAILQ_INIT head q = set_lst head (First head) (set_nxt (First head) None q)"

definition STAILQ_INSERT_HEAD :: "'h \<Rightarrow> 'e \<Rightarrow> ('h, 'e) qstore \<Rightarrow> ('h, 'e) qstore" where
  "STAILQ_INSERT_HEAD head elm q =
     (let n = STAILQ_FIRST head q;
          q = set_nxt (Next elm) n q;
          q = (if n = None then set_lst head (Next elm) q else q)
      in set_nxt (First head) (Some elm) q)"

definition STAILQ_INSERT_TAIL :: "'h \<Rightarrow> 'e \<Rightarrow> ('h, 'e) qstore \<Rightarrow> ('h, 'e) qstore" where
  "STAILQ_INSERT_TAIL head elm q =
     (let q = set_nxt (Next elm) None q;
          q = set_nxt (lst q head) (Some elm) q
      in set_lst head (Next elm) q)"

text \<open>The element is linked to itself; \<open>listelm\<close> does not occur in the macro's body.\<close>

definition STAILQ_INSERT_AFTER :: "'h \<Rightarrow> 'e \<Rightarrow> 'e \<Rightarrow> ('h, 'e) qstore \<Rightarrow> ('h, 'e) qstore" where
  "STAILQ_INSERT_AFTER head listelm elm q =
     (let n = STAILQ_NEXT elm q;
          q = set_nxt (Next elm) n q;
          q = (if n = None then set_lst head (Next elm) q else q)
      in set_nxt (Next elm) (Some elm) q)"

definition STAILQ_REMOVE_HEAD :: "'h \<Rightarrow> ('h, 'e) qstore \<Rightarrow> ('h, 'e) qstore option" where
  "STAILQ_REMOVE_HEAD head q =
     do { f \<leftarrow> STAILQ_FIRST head q;
          let n = STAILQ_NEXT f q; q = set_nxt (First head) n q
          in Some (if n = None then set_lst head (First head) q else q) }"

definition STAILQ_REMOVE_AFTER :: "'h \<Rightarrow> 'e \<Rightarrow> ('h, 'e) qstore \<Rightarrow> ('h, 'e) qstore option" where
  "STAILQ_REMOVE_AFTER head elm q =
     do { s \<leftarrow> STAILQ_NEXT elm q;
          let n = STAILQ_NEXT s q; q = set_nxt (Next elm) n q
          in Some (if n = None then set_lst head (Next elm) q else q) }"

definition STAILQ_REMOVE :: "'h \<Rightarrow> 'e \<Rightarrow> ('h, 'e) qstore \<Rightarrow> ('h, 'e) qstore option" where
  "STAILQ_REMOVE head elm q =
     (if STAILQ_FIRST head q = Some elm then STAILQ_REMOVE_HEAD head q
      else do { f \<leftarrow> nxt q (First head); c \<leftarrow> find_before q elm f; STAILQ_REMOVE_AFTER head c q })"

definition STAILQ_CONCAT :: "'h \<Rightarrow> 'h \<Rightarrow> ('h, 'e) qstore \<Rightarrow> ('h, 'e) qstore" where
  "STAILQ_CONCAT head1 head2 q =
     (if \<not> STAILQ_EMPTY head2 q then
        let q = set_nxt (lst q head1) (nxt q (First head2)) q;
            q = set_lst head1 (lst q head2) q
        in STAILQ_INIT head2 q
      else q)"

text \<open>The element whose next pointer is the last cell, by the offset of the field; the address of a
  head gives no element.\<close>

definition STAILQ_LAST :: "'h \<Rightarrow> ('h, 'e) qstore \<Rightarrow> 'e option option" where
  "STAILQ_LAST head q =
     (if STAILQ_EMPTY head q then Some None
      else case lst q head of Next x \<Rightarrow> Some (Some x) | First _ \<Rightarrow> None)"

section \<open>Chains\<close>

fun chain :: "('h, 'e) qstore \<Rightarrow> ('h, 'e) cell \<Rightarrow> 'e list \<Rightarrow> ('h, 'e) cell \<Rightarrow> bool" where
  "chain q c [] d \<longleftrightarrow> c = d"
| "chain q c (x # xs) d \<longleftrightarrow> nxt q c = Some x \<and> chain q (Next x) xs d"

lemma chain_join [simp]: "chain q c (xs @ ys) d \<longleftrightarrow> (\<exists>e. chain q c xs e \<and> chain q e ys d)"
  by (induction xs arbitrary: c) auto

lemma chain_set_lst [simp]: "chain (set_lst h e q) c xs d \<longleftrightarrow> chain q c xs d"
  by (induction xs arbitrary: c) simp_all

lemma chain_set_nxt:
  "e \<notin> set (butlast (c # map Next xs)) \<Longrightarrow> chain (set_nxt e v q) c xs d \<longleftrightarrow> chain q c xs d"
  by (induction xs arbitrary: c) auto

lemma chain_outside [simp]:
  "e \<noteq> c \<Longrightarrow> e \<notin> Next ` set xs \<Longrightarrow> chain (set_nxt e v q) c xs d \<longleftrightarrow> chain q c xs d"
  by (rule chain_set_nxt) (auto dest: in_set_butlastD)

lemma chain_end: "chain q c xs d \<Longrightarrow> d = (if xs = [] then c else Next (last xs))"
  by (induction xs arbitrary: c) (auto split: if_splits)

lemma chain_end_in: "chain q c xs d \<Longrightarrow> d = c \<or> d \<in> Next ` set xs"
  by (drule chain_end) (auto split: if_splits)

lemma chain_at_end:
  assumes "chain q c xs d" "distinct xs" "c \<notin> Next ` set xs"
  shows "chain (set_nxt d v q) c xs d"
proof -
  have "distinct (c # map Next xs)" using assms(2,3) by (auto simp: distinct_map inj_on_def)
  moreover have "d = last (c # map Next xs)" using chain_end [OF assms(1)] by (simp add: last_map)
  ultimately have "d \<notin> set (butlast (c # map Next xs))" using last_notin_butlast [of "c # map Next xs"] by simp
  with assms(1) show ?thesis by (simp add: chain_set_nxt)
qed

definition simpleq :: "'h \<Rightarrow> ('h, 'e) qstore \<Rightarrow> 'e list \<Rightarrow> bool" where
  "simpleq h q xs \<longleftrightarrow> distinct xs \<and> chain q (First h) xs (lst q h) \<and> nxt q (lst q h) = None"

definition slist :: "'h \<Rightarrow> ('h, 'e) qstore \<Rightarrow> 'e list \<Rightarrow> bool" where
  "slist h q xs \<longleftrightarrow> distinct xs \<and> (\<exists>d. chain q (First h) xs d \<and> nxt q d = None)"

lemma simpleq_split:
  "simpleq h q (as @ x # bs) \<longleftrightarrow> distinct (as @ x # bs) \<and>
     (\<exists>e. chain q (First h) as e \<and> nxt q e = Some x \<and> chain q (Next x) bs (lst q h)) \<and> nxt q (lst q h) = None"
  by (auto simp: simpleq_def)

lemma simpleq_init: "simpleq h (SIMPLEQ_INIT h q) []"
  by (simp add: simpleq_def SIMPLEQ_INIT_def)

lemma simpleq_insert_tail:
  assumes "simpleq h q xs" "x \<notin> set xs"
  shows "simpleq h (SIMPLEQ_INSERT_TAIL h x q) (xs @ [x])"
proof -
  from assms(1) have q: "chain q (First h) xs (lst q h)" "distinct xs" by (simp_all add: simpleq_def)
  have "lst q h \<noteq> Next x" using chain_end_in [OF q(1)] assms(2) by auto
  moreover have "chain (set_nxt (Next x) None q) (First h) xs (lst q h)" using q(1) assms(2) by simp
  then have "chain (set_nxt (lst q h) (Some x) (set_nxt (Next x) None q)) (First h) xs (lst q h)"
    using q(2) by (intro chain_at_end) auto
  ultimately show ?thesis
    using q(2) assms(2) by (auto simp: simpleq_def SIMPLEQ_INSERT_TAIL_def intro!: exI [of _ "lst q h"])
qed

lemma simpleq_insert_head:
  assumes "simpleq h q xs" "x \<notin> set xs"
  shows "simpleq h (SIMPLEQ_INSERT_HEAD h x q) (x # xs)"
proof (cases xs)
  case Nil
  with assms have "lst q h = First h" "nxt q (First h) = None" by (auto simp: simpleq_def)
  with Nil show ?thesis by (simp add: simpleq_def SIMPLEQ_INSERT_HEAD_def)
next
  case (Cons y ys)
  with assms have q: "nxt q (First h) = Some y" "chain q (Next y) ys (lst q h)" "nxt q (lst q h) = None"
    "y \<notin> set ys" "distinct ys" "x \<noteq> y" "x \<notin> set ys" by (auto simp: simpleq_def)
  from chain_end_in [OF q(2)] have "lst q h \<noteq> First h" "lst q h \<noteq> Next x" using q by auto
  with q Cons show ?thesis by (auto simp: simpleq_def SIMPLEQ_INSERT_HEAD_def)
qed

lemma simpleq_remove_head:
  assumes "simpleq h q (x # xs)"
  shows "\<exists>q'. SIMPLEQ_REMOVE_HEAD h q = Some q' \<and> simpleq h q' xs"
proof (cases xs)
  case Nil
  with assms show ?thesis by (auto simp: simpleq_def SIMPLEQ_REMOVE_HEAD_def)
next
  case (Cons y ys)
  with assms have q: "nxt q (First h) = Some x" "nxt q (Next x) = Some y" "chain q (Next y) ys (lst q h)"
    "nxt q (lst q h) = None" "distinct (x # y # ys)" by (auto simp: simpleq_def)
  from chain_end_in [OF q(3)] have "lst q h \<noteq> First h" by auto
  with q Cons show ?thesis by (auto simp: simpleq_def SIMPLEQ_REMOVE_HEAD_def)
qed

lemma simpleqE:
  assumes "simpleq h q (as @ x # bs)"
  obtains e where "chain q (First h) as e" "nxt q e = Some x" "chain q (Next x) bs (lst q h)"
    "nxt q (lst q h) = None" "distinct (as @ x # bs)" "e \<notin> Next ` set bs" "e \<noteq> Next x" "lst q h \<noteq> e"
    "\<And>v q'. chain q' (First h) as e \<Longrightarrow> chain (set_nxt e v q') (First h) as e"
    "bs = [] \<longleftrightarrow> lst q h = Next x"
proof -
  from assms obtain e where e: "chain q (First h) as e" "nxt q e = Some x"
      "chain q (Next x) bs (lst q h)" "nxt q (lst q h) = None" "distinct (as @ x # bs)"
    unfolding simpleq_split by blast
  note in_as = chain_end_in [OF e(1)] and in_bs = chain_end_in [OF e(3)]
  have at_end: "chain (set_nxt e v q') (First h) as e" if "chain q' (First h) as e" for v q'
    using that e(5) by (intro chain_at_end) auto
  have "bs = [] \<longleftrightarrow> lst q h = Next x"
    using chain_end [OF e(3)] e(5) by (auto dest: last_in_set split: if_splits)
  with e at_end in_as in_bs show ?thesis by (intro that [of e]) auto
qed

lemma simpleq_insert_after:
  assumes "simpleq h q (as @ l # bs)" "x \<notin> set (as @ l # bs)"
  shows "simpleq h (SIMPLEQ_INSERT_AFTER h l x q) (as @ l # x # bs)"
proof -
  from assms(1) obtain e where q: "chain q (First h) as e" "nxt q e = Some l" "chain q (Next l) bs (lst q h)"
      "nxt q (lst q h) = None" "distinct (as @ l # bs)" "e \<notin> Next ` set bs" "e \<noteq> Next l"
      "bs = [] \<longleftrightarrow> lst q h = Next l"
    by (rule simpleqE) blast
  have x: "e \<noteq> Next x" "lst q h \<noteq> Next x"
    using chain_end_in [OF q(1)] chain_end_in [OF q(3)] assms(2) by auto
  show ?thesis
  proof (cases bs)
    case Nil
    then have "lst q h = Next l" using q(8) by simp
    then have "nxt q (Next l) = None" using q(4) by simp
    with q(1,2,5,7) x(1) assms(2) Nil show ?thesis
      unfolding simpleq_split SIMPLEQ_INSERT_AFTER_def by (auto intro!: exI [of _ e])
  next
    case (Cons b cs)
    with q x assms(2) show ?thesis
      unfolding simpleq_split SIMPLEQ_INSERT_AFTER_def by (auto intro!: exI [of _ e])
  qed
qed

lemma simpleq_remove_after:
  assumes "simpleq h q (as @ l # x # bs)"
  shows "\<exists>q'. SIMPLEQ_REMOVE_AFTER h l q = Some q' \<and> simpleq h q' (as @ l # bs)"
proof -
  from assms obtain e where q: "chain q (First h) as e" "nxt q e = Some l" "chain q (Next l) (x # bs) (lst q h)"
      "nxt q (lst q h) = None" "distinct (as @ l # x # bs)" "e \<noteq> Next l" "lst q h \<noteq> Next l"
    by (rule simpleqE) blast
  show ?thesis
  proof (cases bs)
    case Nil
    then have "nxt q (Next x) = None" using q(3,4) by auto
    with q(1,2,3,5,6) Nil show ?thesis
      unfolding simpleq_split SIMPLEQ_REMOVE_AFTER_def by (auto intro!: exI [of _ e])
  next
    case (Cons b cs)
    with q show ?thesis
      unfolding simpleq_split SIMPLEQ_REMOVE_AFTER_def by (auto intro!: exI [of _ e])
  qed
qed

lemma simpleq_first: "simpleq h q xs \<Longrightarrow> SIMPLEQ_FIRST h q = (if xs = [] then None else Some (hd xs))"
  by (cases xs) (auto simp: simpleq_def SIMPLEQ_FIRST_def)

text \<open>The macros of \<open>STAILQ\<close> are those of \<open>SIMPLEQ\<close> under other names, but for \<open>STAILQ_INSERT_AFTER\<close>.\<close>

lemma stailq_simpleq:
  "STAILQ_INIT = SIMPLEQ_INIT" "STAILQ_INSERT_HEAD = SIMPLEQ_INSERT_HEAD" "STAILQ_INSERT_TAIL = SIMPLEQ_INSERT_TAIL"
  "STAILQ_REMOVE_HEAD = SIMPLEQ_REMOVE_HEAD" "STAILQ_REMOVE_AFTER = SIMPLEQ_REMOVE_AFTER"
  "STAILQ_CONCAT = SIMPLEQ_CONCAT" "STAILQ_FIRST = SIMPLEQ_FIRST"
  by (intro ext; simp add: STAILQ_INIT_def SIMPLEQ_INIT_def STAILQ_INSERT_HEAD_def SIMPLEQ_INSERT_HEAD_def
      STAILQ_FIRST_def SIMPLEQ_FIRST_def STAILQ_INSERT_TAIL_def SIMPLEQ_INSERT_TAIL_def STAILQ_REMOVE_HEAD_def
      SIMPLEQ_REMOVE_HEAD_def STAILQ_NEXT_def STAILQ_REMOVE_AFTER_def SIMPLEQ_REMOVE_AFTER_def STAILQ_CONCAT_def
      SIMPLEQ_CONCAT_def STAILQ_EMPTY_def SIMPLEQ_EMPTY_def)+

text \<open>\<open>STAILQ_INSERT_AFTER\<close> never inserts: the queue stays as it is, and the element points to itself, if
  its own pointer was not null; otherwise the queue's last pointer leaves the queue.\<close>

lemma stailq_insert_after_lost:
  assumes "simpleq h q (as @ l # bs)" "x \<notin> set (as @ l # bs)" "nxt q (Next x) \<noteq> None"
  shows "simpleq h (STAILQ_INSERT_AFTER h l x q) (as @ l # bs) \<and> nxt (STAILQ_INSERT_AFTER h l x q) (Next x) = Some x"
proof -
  have q: "chain q (First h) (as @ l # bs) (lst q h)" "nxt q (lst q h) = None" using assms(1) by (simp_all add: simpleq_def)
  have "Next x \<notin> Next ` set (as @ l # bs)" using assms(2) by (simp only: cell_mem not_False_eq_True)
  with chain_end_in [OF q(1)] have "lst q h \<noteq> Next x" by auto
  moreover have "chain (set_nxt (Next x) v q) (First h) (as @ l # bs) (lst q h)" for v
    using q(1) assms(2) by (subst chain_outside) (simp_all only: cell_mem not_False_eq_True cell.distinct)
  moreover have "STAILQ_INSERT_AFTER h l x q = set_nxt (Next x) (Some x) q"
    using assms(3) by (auto simp: STAILQ_INSERT_AFTER_def STAILQ_NEXT_def set_nxt_def)
  ultimately show ?thesis using assms(1) q(2) by (simp add: simpleq_def del: chain_join)
qed

lemma stailq_last:
  assumes "simpleq h q xs"
  shows "STAILQ_LAST h q = Some (if xs = [] then None else Some (last xs))"
proof -
  have "STAILQ_EMPTY h q \<longleftrightarrow> xs = []"
    using simpleq_first [OF assms] by (simp add: STAILQ_EMPTY_def stailq_simpleq)
  moreover have "xs \<noteq> [] \<Longrightarrow> lst q h = Next (last xs)"
    using assms chain_end [of q "First h" xs "lst q h"] by (simp add: simpleq_def)
  ultimately show ?thesis by (simp add: STAILQ_LAST_def)
qed

text \<open>The search for the element before, and the removals that use it.\<close>

lemma find_before:
  "chain q (Next l) (as @ [x]) d \<Longrightarrow> distinct (l # as @ [x]) \<Longrightarrow> find_before q x l = Some (last (l # as))"
proof (induction as arbitrary: l)
  case Nil
  then show ?case by (subst find_before.simps) simp
next
  case (Cons a as)
  then have "find_before q x a = Some (last (a # as))" by auto
  with Cons.prems show ?case by (subst find_before.simps) auto
qed

lemma stailq_remove:
  assumes "simpleq h q (as @ x # bs)"
  shows "\<exists>q'. STAILQ_REMOVE h x q = Some q' \<and> simpleq h q' (as @ bs)"
proof (cases as)
  case Nil
  then have "STAILQ_FIRST h q = Some x"
    using simpleq_first [OF assms] by (simp add: stailq_simpleq)
  with simpleq_remove_head [of h q x bs] assms Nil show ?thesis by (simp add: STAILQ_REMOVE_def stailq_simpleq)
next
  case (Cons l ms)
  let ?as = "butlast as" and ?l = "last as"
  have as: "as = ?as @ [?l]" using Cons by simp
  have q: "nxt q (First h) = Some l" "chain q (Next l) (ms @ x # bs) (lst q h)" "distinct (l # ms @ x # bs)"
    using assms Cons by (simp_all add: simpleq_def)
  then obtain d where "chain q (Next l) (ms @ [x]) d" by auto
  from find_before [OF this] q(3) Cons have "find_before q x l = Some ?l" by auto
  moreover have "simpleq h q (?as @ ?l # x # bs)" using assms as by (metis append.assoc append_Cons append_Nil)
  from simpleq_remove_after [OF this] as obtain q' where "SIMPLEQ_REMOVE_AFTER h ?l q = Some q'" "simpleq h q' (as @ bs)"
    by (metis append.assoc append_Cons append_Nil)
  moreover have "x \<noteq> l" using q(3) by auto
  ultimately show ?thesis using q(1) by (simp add: STAILQ_REMOVE_def SIMPLEQ_FIRST_def stailq_simpleq)
qed

text \<open>An \<open>SLIST\<close> is a \<open>SIMPLEQ\<close> up to the last pointer.\<close>

lemma slist_simpleq: "slist h q xs \<longleftrightarrow> (\<exists>d. simpleq h (set_lst h d q) xs)"
  by (simp add: slist_def simpleq_def)

lemma chain_same: "nxt q' = nxt q \<Longrightarrow> chain q' c xs d \<Longrightarrow> chain q c xs d"
  by (induction xs arbitrary: c) auto

lemma slistI: "simpleq h q' xs \<Longrightarrow> nxt q' = nxt q \<Longrightarrow> slist h q xs"
  unfolding slist_def simpleq_def using chain_same by fastforce

lemma slist_init: "slist h (SLIST_INIT h q) []"
  by (simp add: slist_def SLIST_INIT_def)

lemma slist_insert_head:
  assumes "slist h q xs" "x \<notin> set xs"
  shows "slist h (SLIST_INSERT_HEAD h x q) (x # xs)"
proof -
  from assms(1) obtain d where "simpleq h (set_lst h d q) xs" unfolding slist_simpleq by blast
  from simpleq_insert_head [OF this assms(2)] show ?thesis
    by (rule slistI) (simp add: SIMPLEQ_INSERT_HEAD_def SLIST_INSERT_HEAD_def Let_def)
qed

lemma slist_insert_after:
  assumes "slist h q (as @ l # bs)" "x \<notin> set (as @ l # bs)"
  shows "slist h (SLIST_INSERT_AFTER l x q) (as @ l # x # bs)"
proof -
  from assms(1) obtain d where "simpleq h (set_lst h d q) (as @ l # bs)" unfolding slist_simpleq by blast
  from simpleq_insert_after [OF this assms(2)] show ?thesis
    by (rule slistI) (simp add: SIMPLEQ_INSERT_AFTER_def SLIST_INSERT_AFTER_def Let_def)
qed

lemma find_before_same:
  fixes q1 q2 :: "('h, 'e) qstore"
  assumes "nxt q1 = nxt q2"
  shows "find_before q1 x c = find_before q2 x c"
proof -
  have *: "\<forall>q'. nxt q' = nxt q \<longrightarrow> find_before q' x c = Some r"
    if "find_before q x c = Some r" for q :: "('h, 'e) qstore" and r
  proof (rule find_before.raw_induct [where P = "\<lambda>q x c r. \<forall>q'. nxt q' = nxt q \<longrightarrow> find_before q' x c = Some r", OF _ that])
    fix fb :: "('h, 'e) qstore \<Rightarrow> 'e \<Rightarrow> 'e \<Rightarrow> 'e option" and q :: "('h, 'e) qstore" and x c r
    assume IH: "\<And>q x c r. fb q x c = Some r \<Longrightarrow> \<forall>q'. nxt q' = nxt q \<longrightarrow> find_before q' x c = Some r"
      and body: "(if nxt q (Next c) = Some x then Some c else do { n \<leftarrow> nxt q (Next c); fb q x n }) = Some r"
    show "\<forall>q'. nxt q' = nxt q \<longrightarrow> find_before q' x c = Some r"
    proof (intro allI impI)
      fix q' :: "('h, 'e) qstore"
      assume "nxt q' = nxt q"
      then show "find_before q' x c = Some r"
        using body IH [of q x] by (subst find_before.simps) (simp split: if_splits bind_splits)
    qed
  qed
  have "find_before q1 x c = Some r \<longleftrightarrow> find_before q2 x c = Some r" for r
    using * [of q1 r] * [of q2 r] assms by (metis (no_types))
  then show ?thesis by (metis option.exhaust)
qed

lemma slist_remove:
  assumes "slist h q (as @ x # bs)"
  shows "\<exists>q'. SLIST_REMOVE h x q = Some q' \<and> slist h q' (as @ bs)"
proof -
  from assms obtain d where "simpleq h (set_lst h d q) (as @ x # bs)" unfolding slist_simpleq by blast
  from stailq_remove [OF this] obtain q' where
    q': "STAILQ_REMOVE h x (set_lst h d q) = Some q'" "simpleq h q' (as @ bs)" by blast
  note find = find_before_same [of "set_lst h d q" q, OF set_simps(4)]
  have "\<exists>q''. SLIST_REMOVE h x q = Some q'' \<and> nxt q'' = nxt q'"
    using q'(1) by (auto simp: STAILQ_REMOVE_def STAILQ_FIRST_def STAILQ_REMOVE_HEAD_def STAILQ_REMOVE_AFTER_def
        STAILQ_NEXT_def find SLIST_REMOVE_def SLIST_REMOVE_HEAD_def SLIST_REMOVE_AFTER_def Let_def
        split: if_splits bind_splits)
  with slistI [OF q'(2)] show ?thesis by auto
qed

section \<open>The two as queues\<close>

definition simpleq_pop :: "'h \<Rightarrow> ('h, 'e) qstore \<Rightarrow> ('e \<times> ('h, 'e) qstore) option" where
  "simpleq_pop h q = do { x \<leftarrow> SIMPLEQ_FIRST h q; q \<leftarrow> SIMPLEQ_REMOVE_HEAD h q; Some (x, q) }"

definition stailq_pop :: "'h \<Rightarrow> ('h, 'e) qstore \<Rightarrow> ('e \<times> ('h, 'e) qstore) option" where
  "stailq_pop h q = do { x \<leftarrow> STAILQ_FIRST h q; q \<leftarrow> STAILQ_REMOVE_HEAD h q; Some (x, q) }"

interpretation simpleq_fifo: fifo "SIMPLEQ_INIT h" "SIMPLEQ_INSERT_TAIL h" "simpleq_pop h" "simpleq h" for h
proof
  fix q :: "('a, 'b) qstore" and x :: 'b and xs
  show "simpleq h (SIMPLEQ_INIT h q) []" by (rule simpleq_init)
  show "simpleq h q xs \<Longrightarrow> x \<notin> set xs \<Longrightarrow> simpleq h (SIMPLEQ_INSERT_TAIL h x q) (xs @ [x])"
    by (rule simpleq_insert_tail)
  show "simpleq h q [] \<Longrightarrow> simpleq_pop h q = None" by (simp add: simpleq_pop_def simpleq_first)
  show "simpleq h q (x # xs) \<Longrightarrow> \<exists>q'. simpleq_pop h q = Some (x, q') \<and> simpleq h q' xs"
    using simpleq_remove_head [of h q x xs] by (auto simp: simpleq_pop_def simpleq_first)
qed

lemma stailq_pop_simpleq: "stailq_pop = simpleq_pop"
  by (intro ext) (simp add: stailq_pop_def simpleq_pop_def stailq_simpleq)

interpretation stailq_fifo: fifo "STAILQ_INIT h" "STAILQ_INSERT_TAIL h" "stailq_pop h" "simpleq h" for h
  using simpleq_fifo.fifo_axioms by (simp only: stailq_simpleq stailq_pop_simpleq)

section \<open>Properties\<close>

text \<open>C32.  The three kinds of queues are interchangeable: a client that inserts at the tail and removes from
  the head gets the same elements from \<open>TAILQ\<close>, \<open>SIMPLEQ\<close> and \<open>STAILQ\<close>, on stores with whatever contents.\<close>

theorem queues_agree:
  assumes "puts_fresh ops []"
  shows "fst (run_queue (SIMPLEQ_INSERT_TAIL h1) (simpleq_pop h1) ops (SIMPLEQ_INIT h1 q1)) =
      fst (run_queue (TAILQ_INSERT_TAIL h2) (tailq_pop h2) ops (TAILQ_INIT h2 q2)) \<and>
    fst (run_queue (STAILQ_INSERT_TAIL h3) (stailq_pop h3) ops (STAILQ_INIT h3 q3)) =
      fst (run_queue (TAILQ_INSERT_TAIL h2) (tailq_pop h2) ops (TAILQ_INIT h2 q2))"
  using assms by (simp add: simpleq_fifo.run_from_init tailq_fifo.run_from_init stailq_fifo.run_from_init)

lemma queues_agree_witness:
  "fst (run_queue (SIMPLEQ_INSERT_TAIL ()) (simpleq_pop ()) [Put 3, Put 4, Take] (SIMPLEQ_INIT () wild_store)) =
     fst (run_queue (TAILQ_INSERT_TAIL ()) (tailq_pop ()) [Put 3, Put 4, Take] (TAILQ_INIT () wild_store)) \<and>
   fst (run_queue (STAILQ_INSERT_TAIL ()) (stailq_pop ()) [Put 3, Put 4, Take] (STAILQ_INIT () wild_store)) =
     fst (run_queue (TAILQ_INSERT_TAIL ()) (tailq_pop ()) [Put 3, Put 4, Take] (TAILQ_INIT () wild_store))"
  by (rule queues_agree) simp

end
