(* ===== verification/History.thy ===== *)
theory History
  imports Prelude Queue Shell
begin

text \<open>
  The history of the shell on its pointers: the same functions of \<open>dev/shell/shell.c\<close> as in \<open>Shell\<close>,
  where the history is a list of entries, here with the tail queue of \<open>sys/queue.h\<close> that the code
  uses.  A \<open>history_entry_t\<close> is an address; \<open>cmds\<close> is the string in its array.  The theory shows
  that the list of \<open>Shell\<close> is what these functions implement.
\<close>

record hist =
  hq :: "(unit, u32) qstore"
  cmds :: "u32 \<Rightarrow> u8 list"
  h_count :: nat
  h_current :: "u32 option"

text \<open>The entries in the queue, for the argument that stands for \<open>malloc\<close>.\<close>

definition entries :: "hist \<Rightarrow> entry list option" where
  "entries h = map_option (map (\<lambda>a. (a, cmds h a))) (tailq_foreach (hq h) (TAILQ_FIRST () (hq h)))"

definition hist_init :: "hist \<Rightarrow> hist" where
  "hist_init h = h\<lparr>hq := TAILQ_INIT () (hq h), h_count := 0, h_current := None\<rparr>"

definition hist_cleanup :: "hist \<Rightarrow> hist option" where
  "hist_cleanup h =
     do { q \<leftarrow> tailq_remove_all () (TAILQ_FIRST () (hq h)) (hq h);
          Some (h\<lparr>hq := q, h_count := 0, h_current := None\<rparr>) }"

definition hist_add :: "(entry list \<Rightarrow> (u32 \<times> u8 list) option) \<Rightarrow> u8 list \<Rightarrow> hist \<Rightarrow> hist option" where
  "hist_add alloc command h =
     (if command = [] then Some h
      else
        do { dup \<leftarrow> (if \<not> TAILQ_EMPTY () (hq h)
                    then do { last \<leftarrow> TAILQ_LAST () (hq h); Some (cmds h last = command) }
                    else Some False);
             if dup then Some h
             else
               do { h \<leftarrow> (if h_count h \<ge> SHELL_HISTORY_SIZE
                         then do { oldest \<leftarrow> TAILQ_FIRST () (hq h);
                                   Some (h\<lparr>hq := TAILQ_REMOVE () oldest (hq h), h_count := h_count h - 1\<rparr>) }
                         else Some h);
                    es \<leftarrow> entries h;
                    case alloc es of
                      None \<Rightarrow> Some h
                    | Some (a, b) \<Rightarrow>
                        do { b \<leftarrow> copy_command b command;
                             s \<leftarrow> string_at b 0;
                             Some (h\<lparr>cmds := (cmds h)(a := s), hq := TAILQ_INSERT_TAIL () a (hq h),
                                    h_count := h_count h + 1\<rparr>) } } })"

definition hist_navigate :: "int \<Rightarrow> hist \<Rightarrow> hist" where
  "hist_navigate direction h =
     (if TAILQ_EMPTY () (hq h) then h
      else if direction > 0 then
        (case h_current h of
           None \<Rightarrow> h\<lparr>h_current := TAILQ_LAST () (hq h)\<rparr>
         | Some a \<Rightarrow> (case TAILQ_PREV a (hq h) of Some p \<Rightarrow> h\<lparr>h_current := Some p\<rparr> | None \<Rightarrow> h))
      else
        (case h_current h of
           None \<Rightarrow> h
         | Some a \<Rightarrow> h\<lparr>h_current := TAILQ_NEXT a (hq h)\<rparr>))"

text \<open>The relation to the list of \<open>Shell\<close>.\<close>

definition holds_history :: "hist \<Rightarrow> shell \<Rightarrow> bool" where
  "holds_history h ctx \<longleftrightarrow> tailq () (hq h) (map fst (history ctx)) \<and>
     (\<forall>e \<in> set (history ctx). cmds h (fst e) = snd e) \<and>
     h_count h = history_count ctx \<and> h_current h = history_current ctx"

section \<open>Simulation\<close>

lemma entries_represents:
  assumes "holds_history h ctx"
  shows "entries h = Some (history ctx)"
proof -
  have t: "tailq () (hq h) (map fst (history ctx))" using assms by (simp add: holds_history_def)
  from tailq_foreach_from [of "()" "hq h" "[]" "map fst (history ctx)"] t have
    "tailq_foreach (hq h) (TAILQ_FIRST () (hq h)) = Some (map fst (history ctx))"
    by (auto simp: tailq_first [OF t] split: if_splits)
  moreover have "map (\<lambda>a. (a, cmds h a)) (map fst (history ctx)) = history ctx"
    using assms by (auto simp: holds_history_def intro!: map_idI)
  ultimately show ?thesis by (simp add: entries_def)
qed

text \<open>An address that \<open>malloc\<close> returns is not in use.\<close>

definition unused_address :: "(entry list \<Rightarrow> (u32 \<times> u8 list) option) \<Rightarrow> bool" where
  "unused_address alloc \<longleftrightarrow> (\<forall>es a b. alloc es = Some (a, b) \<longrightarrow> a \<notin> fst ` set es)"

lemma hist_add_represents:
  assumes "holds_history h ctx" "unused_address alloc" "shell_add_to_history alloc command ctx = Some ctx'"
  shows "\<exists>h'. hist_add alloc command h = Some h' \<and> holds_history h' ctx'"
proof (cases "command = [] \<or> history ctx \<noteq> [] \<and> snd (last (history ctx)) = command")
  case True
  have t: "tailq () (hq h) (map fst (history ctx))" using assms(1) by (simp add: holds_history_def)
  have "cmds h (last (map fst (history ctx))) = snd (last (history ctx))" if "history ctx \<noteq> []"
    using assms(1) that by (simp add: holds_history_def last_map)
  with True assms show ?thesis
    by (auto simp: hist_add_def shell_add_to_history_def tailq_last [OF t] tailq_empty [OF t] split: if_splits)
next
  case False
  have t: "tailq () (hq h) (map fst (history ctx))" using assms(1) by (simp add: holds_history_def)
  have last: "cmds h (last (map fst (history ctx))) = snd (last (history ctx))" if "history ctx \<noteq> []"
    using assms(1) that by (simp add: holds_history_def last_map)
  from False assms(3) obtain c1 where c1: "(if history_count ctx \<ge> SHELL_HISTORY_SIZE
        then (case history ctx of [] \<Rightarrow> None
              | _ # rest \<Rightarrow> Some (ctx\<lparr>history := rest, history_count := history_count ctx - 1\<rparr>))
        else Some ctx) = Some c1"
    and rest: "(case alloc (history c1) of None \<Rightarrow> Some c1
             | Some (a, b) \<Rightarrow>
                 do { b \<leftarrow> copy_command b command;
                      s \<leftarrow> string_at b 0;
                      Some (c1\<lparr>history := history c1 @ [(a, s)], history_count := history_count c1 + 1\<rparr>) }) = Some ctx'"
    by (auto simp: shell_add_to_history_def split: bind_splits if_splits)
  obtain h1 where h1: "(if h_count h \<ge> SHELL_HISTORY_SIZE
       then do { oldest \<leftarrow> TAILQ_FIRST () (hq h);
                 Some (h\<lparr>hq := TAILQ_REMOVE () oldest (hq h), h_count := h_count h - 1\<rparr>) }
       else Some h) = Some h1" and r1: "holds_history h1 c1"
  proof (cases "history_count ctx \<ge> SHELL_HISTORY_SIZE")
    case True
    with c1 obtain e es where es: "history ctx = e # es" "c1 = ctx\<lparr>history := es, history_count := history_count ctx - 1\<rparr>"
      by (auto split: list.splits)
    from t es have "tailq () (hq h) ([] @ fst e # map fst es)" by simp
    from tailq_remove [OF this] es assms(1) True show ?thesis
      by (intro that [of "h\<lparr>hq := TAILQ_REMOVE () (fst e) (hq h), h_count := h_count h - 1\<rparr>"])
        (auto simp: holds_history_def tailq_first)
  next
    case False
    with c1 assms(1) show ?thesis by (intro that [of h]) (auto simp: holds_history_def)
  qed
  have add: "hist_add alloc command h = (case alloc (history c1) of None \<Rightarrow> Some h1
       | Some (a, b) \<Rightarrow>
           do { b \<leftarrow> copy_command b command;
                s \<leftarrow> string_at b 0;
                Some (h1\<lparr>cmds := (cmds h1)(a := s), hq := TAILQ_INSERT_TAIL () a (hq h1), h_count := h_count h1 + 1\<rparr>) })"
    unfolding hist_add_def h1 using False last
    by (auto simp: tailq_last [OF t] tailq_empty [OF t] entries_represents [OF r1])
  show ?thesis
  proof (cases "alloc (history c1)")
    case None
    with add rest r1 show ?thesis by auto
  next
    case (Some ab)
    obtain a b where ab: "ab = (a, b)" by (cases ab)
    with Some rest obtain b' s where bs: "copy_command b command = Some b'" "string_at b' 0 = Some s"
      "ctx' = c1\<lparr>history := history c1 @ [(a, s)], history_count := history_count c1 + 1\<rparr>"
      by (auto split: bind_splits)
    have "a \<notin> fst ` set (history c1)" using assms(2) Some ab by (auto simp: unused_address_def)
    then have "a \<notin> set (map fst (history c1))" by simp
    from tailq_insert_tail [OF _ this, of "()" "hq h1"] r1 \<open>a \<notin> fst ` _\<close>
    have "holds_history (h1\<lparr>cmds := (cmds h1)(a := s), hq := TAILQ_INSERT_TAIL () a (hq h1), h_count := h_count h1 + 1\<rparr>) ctx'"
      by (auto simp: holds_history_def bs(3) rev_image_eqI)
    with add Some ab bs show ?thesis by auto
  qed
qed

lemma entry_index_split:
  "entry_index es a = Some i \<Longrightarrow> i < length es \<and> map fst es = map fst (take i es) @ a # map fst (drop (Suc i) es)"
proof (induction es arbitrary: i)
  case (Cons e es)
  then show ?case by (cases i) (auto split: if_splits)
qed simp

lemma hist_navigate_represents:
  assumes "holds_history h ctx" "shell_navigate_history direction ctx = Some (ctx', out)"
  shows "holds_history (hist_navigate direction h) ctx'"
proof (cases "history ctx = []")
  case True
  have t: "tailq () (hq h) (map fst (history ctx))" using assms(1) by (simp add: holds_history_def)
  from True assms show ?thesis
    by (simp add: hist_navigate_def shell_navigate_history_def tailq_empty [OF t])
next
  case False
  have t: "tailq () (hq h) (map fst (history ctx))" and cur: "h_current h = history_current ctx"
    using assms(1) by (simp_all add: holds_history_def)
  from assms(2) False obtain current where current: "(if direction > 0 then older ctx else newer ctx) = Some current"
    and keep: "history ctx' = history ctx" "history_count ctx' = history_count ctx" "history_current ctx' = current"
    by (auto simp: shell_navigate_history_def Let_def split: bind_splits)
  have "h_current (hist_navigate direction h) = current"
  proof (cases "history_current ctx")
    case None
    with current cur False show ?thesis
      by (auto simp: hist_navigate_def older_def newer_def tailq_empty [OF t] tailq_last [OF t] last_map split: if_splits)
  next
    case (Some a)
    with current obtain i where i: "entry_index (history ctx) a = Some i"
      by (auto simp: older_def newer_def split: if_splits bind_splits)
    note sp = entry_index_split [OF i]
    have t': "tailq () (hq h) (map fst (take i (history ctx)) @ a # map fst (drop (Suc i) (history ctx)))"
      using t by (subst (asm) conjunct2 [OF sp])
    have "last (map fst (take i (history ctx))) = fst (history ctx ! (i - 1))" if "i > 0"
    proof -
      have "take i (history ctx) \<noteq> []" using that conjunct1 [OF sp] by auto
      then show ?thesis using conjunct1 [OF sp] by (simp add: last_map last_conv_nth min_def)
    qed
    moreover have "hd (map fst (drop (Suc i) (history ctx))) = fst (history ctx ! (i + 1))" if "i + 1 < length (history ctx)"
      using that by (simp add: hd_map hd_drop_conv_nth)
    ultimately show ?thesis
      using current cur False Some i conjunct1 [OF sp]
      by (auto simp: hist_navigate_def older_def newer_def tailq_empty [OF t] tailq_prev [OF t'] tailq_next [OF t']
          split: if_splits option.splits)
  qed
  moreover have "hq (hist_navigate direction h) = hq h" "cmds (hist_navigate direction h) = cmds h"
    "h_count (hist_navigate direction h) = h_count h"
    by (simp_all add: hist_navigate_def split: option.split)
  ultimately show ?thesis using assms(1) keep by (simp add: holds_history_def)
qed

lemma hist_init_represents: "holds_history (hist_init h) (fst shell_init)"
  by (simp add: holds_history_def hist_init_def shell_init_def tailq_init)

lemma hist_cleanup_represents:
  assumes "holds_history h ctx"
  shows "\<exists>h'. hist_cleanup h = Some h' \<and> holds_history h' (shell_cleanup ctx)"
proof -
  have t: "tailq () (hq h) (map fst (history ctx))" using assms by (simp add: holds_history_def)
  from tailq_remove_all_from [OF t] obtain q where
    "tailq_remove_all () (TAILQ_FIRST () (hq h)) (hq h) = Some q" "tailq () q []"
    by (auto simp: tailq_first [OF t] split: if_splits)
  then show ?thesis by (simp add: hist_cleanup_def holds_history_def shell_cleanup_def)
qed

section \<open>Runs\<close>

text \<open>A concrete system simulates an abstract one: every step of the abstract system is one of the
  concrete system, and the states stay related.\<close>

locale simulation =
  fixes abs_step :: "'op \<Rightarrow> 'a \<Rightarrow> 'a option"
    and conc_step :: "'op \<Rightarrow> 'c \<Rightarrow> 'c option"
    and rel :: "'c \<Rightarrow> 'a \<Rightarrow> bool"
  assumes step_sim: "rel c a \<Longrightarrow> abs_step x a = Some a' \<Longrightarrow> \<exists>c'. conc_step x c = Some c' \<and> rel c' a'"
begin

lemma run_sim: "rel c a \<Longrightarrow> run_ops abs_step xs a = Some a' \<Longrightarrow> \<exists>c'. run_ops conc_step xs c = Some c' \<and> rel c' a'"
proof (induction xs arbitrary: c a)
  case (Cons x xs)
  from Cons.prems(2) obtain a1 where a1: "abs_step x a = Some a1" "run_ops abs_step xs a1 = Some a'"
    by (auto split: bind_splits)
  from step_sim [OF Cons.prems(1) a1(1)] obtain c1 where "conc_step x c = Some c1" "rel c1 a1" by blast
  with Cons.IH [OF this(2) a1(2)] show ?case by simp
qed simp

end

datatype hist_op = Add "u8 list" | Navigate int | Cleanup

fun hist_step :: "(entry list \<Rightarrow> (u32 \<times> u8 list) option) \<Rightarrow> hist_op \<Rightarrow> hist \<Rightarrow> hist option" where
  "hist_step alloc (Add command) h = hist_add alloc command h"
| "hist_step alloc (Navigate d) h = Some (hist_navigate d h)"
| "hist_step alloc Cleanup h = hist_cleanup h"

fun list_step :: "(entry list \<Rightarrow> (u32 \<times> u8 list) option) \<Rightarrow> hist_op \<Rightarrow> shell \<Rightarrow> shell option" where
  "list_step alloc (Add command) ctx = shell_add_to_history alloc command ctx"
| "list_step alloc (Navigate d) ctx = map_option fst (shell_navigate_history d ctx)"
| "list_step alloc Cleanup ctx = Some (shell_cleanup ctx)"

interpretation hist_sim: simulation "list_step alloc" "hist_step alloc" "\<lambda>h ctx. unused_address alloc \<and> holds_history h ctx" for alloc
proof
  fix h ctx x ctx'
  assume rel: "unused_address alloc \<and> holds_history h ctx" and s: "list_step alloc x ctx = Some ctx'"
  show "\<exists>h'. hist_step alloc x h = Some h' \<and> unused_address alloc \<and> holds_history h' ctx'"
  proof (cases x)
    case (Add command)
    with rel s hist_add_represents show ?thesis by auto
  next
    case (Navigate d)
    with rel s hist_navigate_represents show ?thesis by auto
  next
    case Cleanup
    with rel s hist_cleanup_represents show ?thesis by auto
  qed
qed

section \<open>Properties\<close>

text \<open>C33.  The history on pointers implements the history as a list: for a \<open>malloc\<close> that returns addresses
  that are not in use (or none), whatever commands are added, whenever the user moves through
  the history, and after cleanups, the code on the tail queue runs without following a null
  pointer whenever the list version has a result, a traversal of the queue gives exactly the
  entries of the list, and the current entry is the same.\<close>

theorem history_refines:
  assumes "unused_address alloc" "run_ops (list_step alloc) xs (fst shell_init) = Some ctx"
  shows "\<exists>h. run_ops (hist_step alloc) xs (hist_init h0) = Some h \<and> entries h = Some (history ctx) \<and>
    h_current h = history_current ctx \<and> h_count h = history_count ctx"
proof -
  have "unused_address alloc \<and> holds_history (hist_init h0) (fst shell_init)"
    using assms(1) hist_init_represents by simp
  from hist_sim.run_sim [OF this assms(2)] obtain h where
    "run_ops (hist_step alloc) xs (hist_init h0) = Some h" "holds_history h ctx" by blast
  then show ?thesis using entries_represents [of h ctx] by (auto simp: holds_history_def)
qed

text \<open>An allocator with room for three entries, and a run on it.\<close>

definition three_entries :: "entry list \<Rightarrow> (u32 \<times> u8 list) option" where
  "three_entries es = map_option (\<lambda>a. (a, replicate 256 0)) (find (\<lambda>a. a \<notin> set (map fst es)) [0x1000, 0x2000, 0x3000])"

lemma three_entries_fresh: "unused_address three_entries"
  by (auto simp: unused_address_def three_entries_def find_Some_iff)

lemma history_refines_witness:
  "\<exists>h. run_ops (hist_step three_entries) [Add [65], Add [66], Navigate 1, Navigate 1] (hist_init \<lparr>hq = \<lparr>nxt = (\<lambda>_. None),
      lst = (\<lambda>_. First ()), prv = (\<lambda>_. First ())\<rparr>, cmds = (\<lambda>_. []), h_count = 9, h_current = Some 3\<rparr>) = Some h \<and>
    entries h = Some [(0x1000, [65]), (0x2000, [66])] \<and> h_current h = Some 0x1000"
proof -
  have "map_option (\<lambda>c. (history c, history_current c)) (run_ops (list_step three_entries) [Add [65], Add [66], Navigate 1, Navigate 1] (fst shell_init)) =
      Some ([(0x1000, [65]), (0x2000, [66])], Some 0x1000)"
    by code_simp
  then obtain ctx where "run_ops (list_step three_entries) [Add [65], Add [66], Navigate 1, Navigate 1] (fst shell_init) = Some ctx"
    "history ctx = [(0x1000, [65]), (0x2000, [66])]" "history_current ctx = Some 0x1000"
    by (auto simp del: run_ops.simps)
  from history_refines [OF three_entries_fresh this(1)] this(2,3) show ?thesis by (simp del: run_ops.simps) blast
qed

end
