(* ===== verification/Cpu.thy ===== *)
theory Cpu
  imports Prelude
begin

text \<open>
  The processor, \<open>arch/i386/cpu.s\<close> and \<open>arch/i386/cpu.h\<close>: the features that \<open>cpu_detect_features\<close>
  stores and the control registers.  The answer of the \<open>cpuid\<close> instruction is an argument.  A
  \<open>cpu_features_t\<close> is the list of its 61 bytes, in the order of the structure; C takes a byte for
  true if it is not zero.
\<close>

section \<open>Features\<close>

abbreviation (input) FPU :: nat where "FPU \<equiv> 0"
abbreviation (input) VME :: nat where "VME \<equiv> 1"
abbreviation (input) DE :: nat where "DE \<equiv> 2"
abbreviation (input) PSE :: nat where "PSE \<equiv> 3"
abbreviation (input) TSC :: nat where "TSC \<equiv> 4"
abbreviation (input) MSR :: nat where "MSR \<equiv> 5"
abbreviation (input) PAE :: nat where "PAE \<equiv> 6"
abbreviation (input) MCE :: nat where "MCE \<equiv> 7"
abbreviation (input) APIC :: nat where "APIC \<equiv> 9"
abbreviation (input) SSE :: nat where "SSE \<equiv> 23"
abbreviation (input) SSE2 :: nat where "SSE2 \<equiv> 24"

definition flag_byte :: "bool \<Rightarrow> u8" where "flag_byte b = (if b then 1 else 0)"

text \<open>The stores of \<open>dl\<close> and \<open>cl\<close> with a shift by one between any two of them.\<close>

definition cpu_detect_features :: "bool \<Rightarrow> u32 \<Rightarrow> u32 \<Rightarrow> u8 list \<Rightarrow> u8 list" where
  "cpu_detect_features cpuid edx ecx features =
     (if \<not> cpuid then features
      else [flag_byte (bit edx 0)] @ map (\<lambda>k. ucast (drop_bit k edx)) [0..<29] @
           map (\<lambda>k. ucast (drop_bit k ecx)) [0..<30] @ [flag_byte (bit ecx 31)])"

definition has :: "u8 list \<Rightarrow> nat \<Rightarrow> bool" where "has features k \<longleftrightarrow> features ! k \<noteq> 0"

section \<open>Control registers\<close>

record cpu =
  cr0 :: u32
  cr4 :: u32
  apic_base :: u32
  fpu_reset :: bool

definition cpu_get_cr0 :: "cpu \<Rightarrow> u32" where "cpu_get_cr0 c = cr0 c"
definition cpu_set_cr0 :: "u32 \<Rightarrow> cpu \<Rightarrow> cpu" where "cpu_set_cr0 v c = c\<lparr>cr0 := v\<rparr>"
definition cpu_get_cr4 :: "cpu \<Rightarrow> u32" where "cpu_get_cr4 c = cr4 c"
definition cpu_set_cr4 :: "u32 \<Rightarrow> cpu \<Rightarrow> cpu" where "cpu_set_cr4 v c = c\<lparr>cr4 := v\<rparr>"

definition cpu_init_fpu :: "cpu \<Rightarrow> cpu" where "cpu_init_fpu c = c\<lparr>fpu_reset := True\<rparr>"

text \<open>The 16-bit operations leave the upper half of the register as it is.\<close>

definition cpu_init_sse :: "cpu \<Rightarrow> cpu" where
  "cpu_init_sse c = c\<lparr>cr0 := (cr0 c AND 0xFFFFFFFB) OR 0x2, cr4 := cr4 c OR 0x600\<rparr>"

definition cpu_enable_sse :: "cpu \<Rightarrow> cpu" where
  "cpu_enable_sse c = c\<lparr>cr0 := (cr0 c AND NOT 4) OR 2, cr4 := (cr4 c OR 0x200) OR 0x400\<rparr>"

definition cpu_enable_smp :: "cpu \<Rightarrow> cpu" where "cpu_enable_smp c = c\<lparr>apic_base := apic_base c OR 0x800\<rparr>"

definition cpu_enable_paging :: "cpu \<Rightarrow> cpu" where "cpu_enable_paging c = c\<lparr>cr0 := cr0 c OR 0x80000000\<rparr>"
definition cpu_disable_paging :: "cpu \<Rightarrow> cpu" where "cpu_disable_paging c = c\<lparr>cr0 := cr0 c AND NOT 0x80000000\<rparr>"

section \<open>What the bytes say\<close>

lemma feature_byte:
  assumes "1 \<le> k" "k \<le> 29"
  shows "cpu_detect_features True edx ecx features ! k = ucast (drop_bit (k - 1) edx)"
  using assms by (cases k) (auto simp: cpu_detect_features_def nth_append)

text \<open>A byte holds eight bits of the register and not one: the kernel takes a feature for present if
  any of the eight is set, and the bits are one off from the second feature on.\<close>

lemma feature_present:
  assumes "1 \<le> k" "k \<le> 29"
  shows "has (cpu_detect_features True edx ecx features) k \<longleftrightarrow> (\<exists>j. k \<le> j + 1 \<and> j < k + 7 \<and> j < 32 \<and> bit edx j)"
proof -
  have "has (cpu_detect_features True edx ecx features) k \<longleftrightarrow> (ucast (drop_bit (k - 1) edx) :: u8) \<noteq> 0"
    using feature_byte [OF assms] by (simp add: has_def)
  also have "\<dots> \<longleftrightarrow> (\<exists>i < 8. bit edx (k - 1 + i))"
    by (auto simp: bit_eq_iff bit_simps)
  also have "\<dots> \<longleftrightarrow> (\<exists>j. k \<le> j + 1 \<and> j < k + 7 \<and> j < 32 \<and> bit edx j)"
  proof safe
    fix i assume "i < (8 :: nat)" "bit edx (k - 1 + i)"
    moreover from this(2) have "k - 1 + i < 32" by (auto dest: bit_imp_le_length)
    ultimately show "\<exists>j. k \<le> j + 1 \<and> j < k + 7 \<and> j < 32 \<and> bit edx j"
      using assms by (intro exI [of _ "k - 1 + i"]) auto
  next
    fix j assume "k \<le> j + 1" "j < k + 7" "bit edx j"
    then show "\<exists>i < 8. bit edx (k - 1 + i)"
      using assms by (intro exI [of _ "j + 1 - k"]) auto
  qed
  finally show ?thesis .
qed

end
