(* ===== verification/Ed.thy ===== *)
theory Ed
  imports Prelude Stdio Scan Fs Console Format Fstools
begin

text \<open>
  The line editor \<open>bin/ed.c\<close>: a text that grows by lines and can be written to a file.  The text
  is in a block of the heap; the four static variables outlive a run of the editor.  The keys and
  the screen are those of \<open>Scan\<close>, the files those of \<open>Fs\<close>.
\<close>

section \<open>State\<close>

text \<open>The static pointer: null, a block that is allocated, or one that has been freed.\<close>

datatype ed_block = Null | Block "u8 list" | Dangling

record ed =
  ed_buffer :: ed_block
  ed_size :: nat
  ed_len :: nat
  ed_insert :: bool
  ed_in :: stdin
  ed_fs :: fs

abbreviation BUFFER_INCREMENT :: nat where "BUFFER_INCREMENT \<equiv> 1024"

text \<open>The statics before the first run.\<close>

definition ed0 :: "stdin \<Rightarrow> fs \<Rightarrow> ed" where
  "ed0 i s = \<lparr>ed_buffer = Null, ed_size = 0, ed_len = 0, ed_insert = False, ed_in = i, ed_fs = s\<rparr>"

definition ed_put :: "u8 list \<Rightarrow> stdin \<Rightarrow> stdin" where "ed_put msg i = i\<lparr>screen := screen i @ msg\<rparr>"

definition ed_say :: "string \<Rightarrow> arg list \<Rightarrow> ed \<Rightarrow> ed option" where
  "ed_say format args e = do { msg \<leftarrow> line format args; Some (e\<lparr>ed_in := ed_put msg (ed_in e)\<rparr>) }"

text \<open>A C string up to its zero, as bytes and as a name.\<close>

definition cstring :: "u8 list \<Rightarrow> u8 list" where "cstring b = takeWhile (\<lambda>c. c \<noteq> 0) b"
definition name_of :: "u8 list \<Rightarrow> string" where "name_of b = map (\<lambda>c. char_of (unat c)) b"

section \<open>Operations\<close>

text \<open>\<open>read_line\<close>: the result and the characters stored, which are terminated unless the result is -1.\<close>

function ed_read_line :: "nat \<Rightarrow> u8 list \<Rightarrow> stdin \<Rightarrow> (int \<times> u8 list \<times> stdin) option" where
  "ed_read_line max_len buf i =
     (if length buf < max_len - 1 then
        do { (c, i) \<leftarrow> getchar i;
             if c = EOF then Some (if buf = [] then -1 else int (length buf), buf, i)
             else if c = 10 then Some (int (length buf), buf, ed_put (putchar 10) i)
             else ed_read_line max_len (buf @ [word_of_int c]) (ed_put (putchar (word_of_int c)) i) }
      else Some (int (length buf), buf, i))"
  by pat_completeness auto
termination by (relation "measure (\<lambda>(n, buf, _). n - length buf)") auto

declare ed_read_line.simps [simp del]

fun say_all :: "string list \<Rightarrow> ed \<Rightarrow> ed option" where
  "say_all [] e = Some e"
| "say_all (l # ls) e = do { e \<leftarrow> ed_say l [] e; say_all ls e }"

definition print_help :: "ed \<Rightarrow> ed option" where
  "print_help = say_all [''Simple ed commands:'', ''  w         : start inserting text'',
     ''  .         : end inserting text (only in insert mode)'', ''  q         : quit editor'',
     ''  h         : show this help'', ''  :w filename : write buffer to file'']"

text \<open>The \<open>realloc\<close> of the buffer: it keeps the old bytes.  Using a freed block has no result.  The
  flag says that the editor has left the program with \<open>exit(1)\<close>.\<close>

definition realloc_block :: "alloc \<Rightarrow> nat \<Rightarrow> ed_block \<Rightarrow> ed_block option option" where
  "realloc_block alloc n p =
     (case p of
        Null \<Rightarrow> Some (map_option Block (alloc n))
      | Block b \<Rightarrow> Some (map_option (\<lambda>blk. Block (take n b @ drop (length b) blk)) (alloc n))
      | Dangling \<Rightarrow> None)"

definition grow_buffer :: "alloc \<Rightarrow> nat \<Rightarrow> ed \<Rightarrow> (bool \<times> ed) option" where
  "grow_buffer alloc min_size e =
     (if ed_size e \<ge> min_size then Some (False, e)
      else
        let new_size = (min_size div BUFFER_INCREMENT + 1) * BUFFER_INCREMENT in
        do { new_buffer \<leftarrow> realloc_block alloc new_size (ed_buffer e);
             case new_buffer of
               None \<Rightarrow> do { e \<leftarrow> ed_say ''Out of memory'' [] e; Some (True, e) }
             | Some b \<Rightarrow> Some (False, e\<lparr>ed_buffer := b, ed_size := new_size\<rparr>) })"

definition contents :: "ed_block \<Rightarrow> u8 list option" where
  "contents p = (case p of Block b \<Rightarrow> Some b | _ \<Rightarrow> None)"

definition insert_text :: "alloc \<Rightarrow> u8 list \<Rightarrow> ed \<Rightarrow> (bool \<times> ed) option" where
  "insert_text alloc text e =
     (let len = length text in
      if len = 0 then Some (False, e)
      else
        do { (left, e) \<leftarrow> grow_buffer alloc (ed_len e + len + 2) e;
             if left then Some (True, e)
             else do { b \<leftarrow> contents (ed_buffer e);
                       b \<leftarrow> copy_into b (ed_len e) text len;
                       b \<leftarrow> wr b (ed_len e + len) 10;
                       b \<leftarrow> wr b (ed_len e + len + 1) 0;
                       Some (False, e\<lparr>ed_buffer := Block b, ed_len := ed_len e + len + 1\<rparr>) } })"

text \<open>\<open>write_to_file\<close> and its result.\<close>

definition write_to_file :: "alloc \<Rightarrow> u64 \<Rightarrow> u8 list \<Rightarrow> ed \<Rightarrow> (int \<times> ed) option" where
  "write_to_file alloc now filename e =
     (if filename = [] then do { e \<leftarrow> ed_say ''Invalid filename'' [] e; Some (-1, e) }
      else
        let nm = Some (name_of filename); (s, rc) = fs_create alloc now nm (ed_fs e); e = e\<lparr>ed_fs := s\<rparr> in
        if rc \<noteq> 0 \<and> rc \<noteq> -3 then do { e \<leftarrow> ed_say ''Error creating file: %d'' [int_arg rc] e; Some (-1, e) }
        else
          let (s, rc) = fs_open nm (ed_fs e); e = e\<lparr>ed_fs := s\<rparr> in
          if rc \<noteq> 0 then do { e \<leftarrow> ed_say ''Error opening file: %d'' [int_arg rc] e; Some (-1, e) }
          else
            do { b \<leftarrow> (case ed_buffer e of Dangling \<Rightarrow> None | p \<Rightarrow> Some (contents p));
                 (s, written) \<leftarrow> fs_write alloc now nm b (ed_len e) (ed_fs e);
                 let e = e\<lparr>ed_fs := fst (fs_close nm s)\<rparr> in
                 if written \<noteq> ed_len e
                 then do { e \<leftarrow> ed_say ''Error writing to file: wrote %zu of %zu bytes'' [Num (of_nat written), Num (of_nat (ed_len e))] e;
                           Some (-1, e) }
                 else do { e \<leftarrow> ed_say ''Wrote %zu bytes to %s'' [Num (of_nat (ed_len e)), Str (Some filename)] e;
                           Some (0, e) } })"

section \<open>The main loop\<close>

datatype ed_after = Stay | Leave | Exit

text \<open>What is done with a line.\<close>

definition insert_line :: "alloc \<Rightarrow> u8 list \<Rightarrow> ed \<Rightarrow> (ed_after \<times> ed) option" where
  "insert_line alloc l e =
     (if l = bytes ''.'' then do { e \<leftarrow> ed_say ''End insert mode.'' [] (e\<lparr>ed_insert := False\<rparr>); Some (Stay, e) }
      else do { (left, e) \<leftarrow> insert_text alloc l e; Some (if left then Exit else Stay, e) })"

definition command_line :: "alloc \<Rightarrow> u64 \<Rightarrow> u8 list \<Rightarrow> ed \<Rightarrow> (ed_after \<times> ed) option" where
  "command_line alloc now l e =
     (let l = (if l \<noteq> [] \<and> last l = 10 then butlast l else l) in
      if l = bytes ''q'' then Some (Leave, e)
      else if l = bytes ''w'' then
        do { e \<leftarrow> ed_say ''Insert mode. Type lines, end with a '.' on a line by itself.'' [] (e\<lparr>ed_insert := True\<rparr>); Some (Stay, e) }
      else if take 3 l = bytes '':w '' then
        do { let filename = drop 3 l;
             (rc, e) \<leftarrow> write_to_file alloc now filename e;
             e \<leftarrow> (if rc \<noteq> 0 then ed_say ''Failed to write to %s'' [Str (Some filename)] e else Some e);
             Some (Stay, e) }
      else if l = bytes ''h'' then do { e \<leftarrow> print_help e; Some (Stay, e) }
      else do { e \<leftarrow> ed_say ''Unknown command '%s'. Type 'h' for help.'' [Str (Some l)] e; Some (Stay, e) })"

definition ed_step :: "alloc \<Rightarrow> u64 \<Rightarrow> ed \<Rightarrow> (ed_after \<times> ed) option" where
  "ed_step alloc now e =
     (if ed_insert e then
        do { (n, buf, i) \<leftarrow> ed_read_line 512 [] (ed_in e);
             let e = e\<lparr>ed_in := i\<rparr> in
             if n = -1 then Some (Leave, e) else insert_line alloc (cstring buf) e }
      else
        do { msg \<leftarrow> printf (bytes ''ed> '') [];
             (n, buf, i) \<leftarrow> ed_read_line 512 [] (ed_put msg (ed_in e));
             let e = e\<lparr>ed_in := i\<rparr> in
             if n = -1 then Some (Leave, e) else command_line alloc now (cstring buf) e })"

text \<open>Every turn of the loop takes input away.\<close>

lemma input_left_put [simp]: "input_left (ed_put msg i) = input_left i"
  by (simp add: input_left_def ed_put_def)

lemma say_fields:
  assumes "ed_say format args e = Some e'"
  shows "input_left (ed_in e') = input_left (ed_in e)" "ed_buffer e' = ed_buffer e" "ed_size e' = ed_size e"
    "ed_len e' = ed_len e" "ed_insert e' = ed_insert e" "ed_fs e' = ed_fs e" "\<exists>msg. ed_in e' = ed_put msg (ed_in e)"
  using assms by (auto simp: ed_say_def split: bind_splits)

lemma put_put [simp]: "ed_put b (ed_put a i) = ed_put (a @ b) i"
  by (simp add: ed_put_def)

lemma say_all_put: "say_all ls e = Some e' \<Longrightarrow> \<exists>msg. e' = e\<lparr>ed_in := ed_put msg (ed_in e)\<rparr>"
proof (induction ls arbitrary: e)
  case Nil
  then show ?case by (auto simp: ed_put_def intro!: exI [of _ "[]"])
next
  case (Cons l ls)
  then show ?case by (fastforce simp: ed_say_def split: bind_splits)
qed

lemma ed_read_line_step:
  assumes "length buf < n - 1" "getchar i = Some (c, i1)" "c \<noteq> EOF" "c \<noteq> 10"
  shows "ed_read_line n buf i = ed_read_line n (buf @ [word_of_int c]) (ed_put (putchar (word_of_int c)) i1)"
  using assms by (subst ed_read_line.simps) simp

lemma ed_read_line_le: "ed_read_line n buf i = Some (r, buf', i') \<Longrightarrow> input_left i' \<le> input_left i"
proof (induction "n - 1 - length buf" arbitrary: buf i)
  case 0
  then have "\<not> length buf < n - 1" by simp
  with "0.prems" show ?case by (subst (asm) ed_read_line.simps) simp
next
  case (Suc k)
  then have len: "length buf < n - 1" by simp
  obtain c i1 where g: "getchar i = Some (c, i1)"
    using Suc.prems len by (subst (asm) ed_read_line.simps) (auto split: bind_splits)
  note less = getchar_left [OF g]
  show ?case
  proof (cases "c = EOF \<or> c = 10")
    case True
    with Suc.prems len g less show ?thesis by (subst (asm) ed_read_line.simps) (auto split: if_splits)
  next
    case False
    with Suc.prems ed_read_line_step [OF len g] have
      "ed_read_line n (buf @ [word_of_int c]) (ed_put (putchar (word_of_int c)) i1) = Some (r, buf', i')" by simp
    moreover have "k = n - 1 - length (buf @ [word_of_int c])" using Suc.hyps(2) by simp
    ultimately have "input_left i' \<le> input_left (ed_put (putchar (word_of_int c)) i1)" using Suc.hyps(1) by blast
    with less show ?thesis by simp
  qed
qed

lemma ed_read_line_left:
  assumes "ed_read_line n buf i = Some (r, buf', i')" "length buf < n - 1"
  shows "input_left i' < input_left i"
proof -
  obtain c i1 where g: "getchar i = Some (c, i1)"
    using assms by (subst (asm) ed_read_line.simps) (auto split: bind_splits)
  note less = getchar_left [OF g]
  show ?thesis
  proof (cases "c = EOF \<or> c = 10")
    case True
    with assms g less show ?thesis by (subst (asm) ed_read_line.simps) (auto split: if_splits)
  next
    case False
    with assms ed_read_line_step [OF assms(2) g] have
      "ed_read_line n (buf @ [word_of_int c]) (ed_put (putchar (word_of_int c)) i1) = Some (r, buf', i')" by simp
    from ed_read_line_le [OF this] less show ?thesis by simp
  qed
qed

text \<open>Everything behind the line that was read only adds to the screen.\<close>

definition same_input :: "ed \<Rightarrow> ed \<Rightarrow> bool" where "same_input e e' \<longleftrightarrow> (\<exists>msg. ed_in e' = ed_put msg (ed_in e))"

lemma same_input_refl [simp]: "ed_in e' = ed_in e \<Longrightarrow> same_input e e'"
  by (auto simp: same_input_def ed_put_def intro!: exI [of _ "[]"])

lemma same_input_trans [trans]: "same_input e e' \<Longrightarrow> same_input e' e'' \<Longrightarrow> same_input e e''"
  by (auto simp: same_input_def)

lemma same_input_say: "ed_say format args e = Some e' \<Longrightarrow> same_input e e'"
  by (simp add: same_input_def say_fields(7))

lemma same_input_left: "same_input e e' \<Longrightarrow> input_left (ed_in e') = input_left (ed_in e)"
  by (auto simp: same_input_def)

lemma same_input_fields [simp]:
  "same_input (e\<lparr>ed_insert := b\<rparr>) e' = same_input e e'" "same_input (e\<lparr>ed_fs := s\<rparr>) e' = same_input e e'"
  "same_input e (e'\<lparr>ed_insert := b\<rparr>) = same_input e e'" "same_input e (e'\<lparr>ed_fs := s\<rparr>) = same_input e e'"
  "same_input e (e'\<lparr>ed_buffer := p\<rparr>) = same_input e e'" "same_input e (e'\<lparr>ed_size := n\<rparr>) = same_input e e'"
  "same_input e (e'\<lparr>ed_len := n\<rparr>) = same_input e e'"
  by (simp_all add: same_input_def)

lemma grow_buffer_input: "grow_buffer alloc n e = Some (left, e') \<Longrightarrow> same_input e e'"
  by (auto simp: grow_buffer_def Let_def split: if_splits bind_splits option.splits dest: same_input_say)

lemma insert_text_input: "insert_text alloc text e = Some (left, e') \<Longrightarrow> same_input e e'"
  by (auto simp: insert_text_def Let_def split: if_splits bind_splits) (erule grow_buffer_input)+

lemma write_to_file_input: "write_to_file alloc now filename e = Some (rc, e') \<Longrightarrow> same_input e e'"
  by (auto simp: write_to_file_def Let_def split: if_splits bind_splits prod.splits dest!: same_input_say)

lemma insert_line_input: "insert_line alloc l e = Some (a, e') \<Longrightarrow> same_input e e'"
  by (auto simp: insert_line_def split: if_splits bind_splits dest: same_input_say insert_text_input)

lemma print_help_input: "print_help e = Some e' \<Longrightarrow> same_input e e'"
  unfolding print_help_def by (drule say_all_put) (auto simp: same_input_def)

lemma command_line_input: "command_line alloc now l e = Some (a, e') \<Longrightarrow> same_input e e'"
  by (auto simp: command_line_def Let_def split: if_splits bind_splits
      dest!: same_input_say write_to_file_input print_help_input intro: same_input_trans)

lemma ed_step_left: "ed_step alloc now e = Some (a, e') \<Longrightarrow> input_left (ed_in e') < input_left (ed_in e)"
  by (fastforce simp: ed_step_def Let_def split: if_splits bind_splits
      dest!: insert_line_input command_line_input same_input_left ed_read_line_left)

function ed_loop :: "alloc \<Rightarrow> u64 \<Rightarrow> ed \<Rightarrow> (ed_after \<times> ed) option" where
  "ed_loop alloc now e =
     do { (a, e) \<leftarrow> ed_step alloc now e;
          if a = Stay then ed_loop alloc now e else Some (a, e) }"
  by pat_completeness auto
termination by (relation "measure (\<lambda>(_, _, e). input_left (ed_in e))") (auto dest: ed_step_left)

declare ed_loop.simps [simp del]

text \<open>\<open>exit\<close> does not come back; \<open>free\<close> of a null pointer does nothing.\<close>

datatype ed_result = Exited ed | Finished int ed

definition ed_main :: "alloc \<Rightarrow> u64 \<Rightarrow> ed \<Rightarrow> ed_result option" where
  "ed_main alloc now e =
     do { e \<leftarrow> print_help e;
          (left, e) \<leftarrow> grow_buffer alloc BUFFER_INCREMENT e;
          if left then Some (Exited e)
          else
            do { b \<leftarrow> contents (ed_buffer e);
                 b \<leftarrow> wr b 0 0;
                 (a, e) \<leftarrow> ed_loop alloc now (e\<lparr>ed_buffer := Block b\<rparr>);
                 if a = Exit then Some (Exited e)
                 else if ed_buffer e = Dangling then None
                 else do { e \<leftarrow> ed_say ''Bye.'' [] (e\<lparr>ed_buffer := (if ed_buffer e = Null then Null else Dangling)\<rparr>);
                           Some (Finished 0 e) } } }"

section \<open>Reading a typed line\<close>

definition ed_idle :: "stdin \<Rightarrow> bool" where
  "ed_idle i \<longleftrightarrow> unget_char i = EOF \<and> length (input_buffer i) = 256 \<and> \<not> (input_valid i \<and> input_pos i < input_len i)"

lemma idle_put [simp]: "ed_idle (ed_put msg i) = ed_idle i" "keys (ed_put msg i) = keys i"
  by (simp_all add: ed_idle_def ed_put_def)

definition plain_line :: "u8 list \<Rightarrow> bool" where
  "plain_line l \<longleftrightarrow> length l \<le> 254 \<and> (\<forall>c \<in> set l. 32 \<le> c \<and> c \<le> 126)"

lemma plain_printable: "plain_line l \<Longrightarrow> list_all printable (map uint l)"
  by (auto simp: plain_line_def printable_def list_all_iff word_le_def)

lemma buffered_line:
  assumes "list_all printable cs" "unget_char i = EOF" "input_valid i" "length (input_buffer i) = 256"
    and "input_pos i + length cs + 1 = input_len i" "input_len i \<le> 256"
    and "drop (input_pos i) (take (input_len i) (input_buffer i)) = map word_of_int (cs @ [10])"
    and "length acc + length cs < n - 1"
  shows "\<exists>i'. ed_read_line n acc i = Some (int (length acc + length cs), acc @ map word_of_int cs, i') \<and>
    ed_idle i' \<and> keys i' = keys i"
  using assms
proof (induction cs arbitrary: i acc)
  case Nil
  have "input_buffer i ! input_pos i = 10"
    using Nil.prems(5) by (intro drop_take_nth [OF Nil.prems(7) [simplified]]) simp
  then have "getchar i = Some (10, i\<lparr>input_pos := input_pos i + 1\<rparr>)"
    using Nil.prems by (simp add: getchar_def next_char_def rd_def)
  with Nil.prems show ?case
    by (subst ed_read_line.simps) (auto simp: ed_idle_def ed_put_def)
next
  case (Cons c cs)
  let ?i = "i\<lparr>input_pos := input_pos i + 1\<rparr>"
  have "input_buffer i ! input_pos i = word_of_int c"
    using Cons.prems(5) by (intro drop_take_nth [OF Cons.prems(7) [simplified]]) simp
  then have g: "getchar i = Some (c, ?i)"
    using Cons.prems printable_char [of c] by (auto simp: getchar_def next_char_def rd_def)
  have "drop (input_pos i + 1) (take (input_len i) (input_buffer i)) = map word_of_int (cs @ [10])"
    using arg_cong [OF Cons.prems(7), of tl] by (simp add: tl_drop drop_Suc)
  then have "\<exists>i'. ed_read_line n (acc @ [word_of_int c]) (ed_put (putchar (word_of_int c)) ?i) =
      Some (int (length (acc @ [word_of_int c]) + length cs), (acc @ [word_of_int c]) @ map word_of_int cs, i') \<and>
      ed_idle i' \<and> keys i' = keys (ed_put (putchar (word_of_int c)) ?i)"
    using Cons.prems by (intro Cons.IH) (simp_all add: ed_put_def)
  moreover have "ed_read_line n acc i = ed_read_line n (acc @ [word_of_int c]) (ed_put (putchar (word_of_int c)) ?i)"
    using Cons.prems(1,8) printable_char [of c] by (intro ed_read_line_step [OF _ g]) auto
  ultimately show ?case by (auto simp: ed_put_def)
qed

lemma typed_ed_line:
  assumes "ed_idle i" "plain_line l" "keys i = map uint l @ 10 # ks"
  shows "\<exists>i'. ed_read_line 512 [] i = Some (int (length l), l, i') \<and> ed_idle i' \<and> keys i' = ks"
proof -
  note p = plain_printable [OF assms(2)]
  obtain t where t: "read_line i = Some t" "keys t = ks" "input_pos t = 0" "input_len t = length l + 1"
    "input_valid t" "length (input_buffer t) = 256" "unget_char t = EOF"
    "take (input_len t) (input_buffer t) = map word_of_int (map uint l @ [10])"
    using read_line_printable [OF p, of i ks] assms by (auto simp: ed_idle_def plain_line_def)
  have "getchar i = getchar t"
    using assms(1) t by (auto simp: getchar_def ed_idle_def)
  then have eq: "ed_read_line 512 [] i = ed_read_line 512 [] t"
    by (subst (1 2) ed_read_line.simps) simp
  have "\<exists>i'. ed_read_line 512 [] t = Some (int (length ([] :: u8 list) + length (map uint l)), [] @ map word_of_int (map uint l), i') \<and>
    ed_idle i' \<and> keys i' = keys t"
    by (rule buffered_line [OF p]) (use t assms(2) in \<open>auto simp: plain_line_def\<close>)
  with eq t(2) show ?thesis by (simp add: comp_def)
qed

section \<open>The editor as a text\<close>

record editor =
  e_text :: "u8 list"
  e_inserting :: bool
  e_files :: fs

text \<open>Writing the text to a file: the file is made if it does not exist, and opened, written and closed.\<close>

definition save :: "alloc \<Rightarrow> u64 \<Rightarrow> u8 list \<Rightarrow> editor \<Rightarrow> fs option" where
  "save alloc now filename d =
     (if filename = [] then Some (e_files d)
      else
        let nm = Some (name_of filename); (s, rc) = fs_create alloc now nm (e_files d) in
        if rc \<noteq> 0 \<and> rc \<noteq> -3 then Some s
        else
          let (s, rc) = fs_open nm s in
          if rc \<noteq> 0 then Some s
          else map_option (\<lambda>(s, _). fst (fs_close nm s)) (fs_write alloc now nm (Some (e_text d)) (length (e_text d)) s))"

definition editor_line :: "alloc \<Rightarrow> u64 \<Rightarrow> u8 list \<Rightarrow> editor \<Rightarrow> (bool \<times> editor) option" where
  "editor_line alloc now l d =
     (if e_inserting d then
        Some (False, if l = bytes ''.'' then d\<lparr>e_inserting := False\<rparr>
                     else if l = [] then d else d\<lparr>e_text := e_text d @ l @ [10]\<rparr>)
      else if l = bytes ''q'' then Some (True, d)
      else if l = bytes ''w'' then Some (False, d\<lparr>e_inserting := True\<rparr>)
      else if take 3 l = bytes '':w '' then map_option (\<lambda>s. (False, d\<lparr>e_files := s\<rparr>)) (save alloc now (drop 3 l) d)
      else Some (False, d))"

text \<open>The lines up to the one that ends the session; without it the editor waits for more.\<close>

fun session :: "alloc \<Rightarrow> u64 \<Rightarrow> u8 list list \<Rightarrow> editor \<Rightarrow> editor option" where
  "session alloc now [] d = None"
| "session alloc now (l # ls) d =
     do { (quit, d) \<leftarrow> editor_line alloc now l d;
          if quit then Some d else session alloc now ls d }"

definition edits :: "ed \<Rightarrow> editor \<Rightarrow> bool" where
  "edits e d \<longleftrightarrow> (\<exists>b. ed_buffer e = Block b \<and> length b = ed_size e \<and> ed_len e = length (e_text d) \<and>
     take (length (e_text d)) b = e_text d \<and> length (e_text d) < ed_size e \<and>
     ed_insert e = e_inserting d \<and> ed_fs e = e_files d \<and> ed_idle (ed_in e))"

text \<open>A heap that never fails.\<close>

definition heap_serves :: "alloc \<Rightarrow> bool" where
  "heap_serves alloc \<longleftrightarrow> (\<forall>n. \<exists>blk. alloc n = Some blk \<and> length blk = n)"

section \<open>The refinement\<close>

lemma edits_say: "ed_say format args e = Some e' \<Longrightarrow> edits e' d = edits e d"
  using say_fields [of format args e e'] by (auto simp: edits_def)

lemma ed_say_ok:
  assumes "fmt_kinds (message_of format) = Some ks" "fits ks args"
  shows "\<exists>e'. ed_say format args e = Some e'"
proof -
  obtain r where "vprintf (message_of format) args = Some r" using vprintf_fits [OF assms] by blast
  then show ?thesis by (simp add: ed_say_def line_def printf_def)
qed

lemma say_edits:
  assumes "fmt_kinds (message_of format) = Some ks" "fits ks args" "edits e d"
  shows "\<exists>e'. ed_say format args e = Some e' \<and> edits e' d \<and> keys (ed_in e') = keys (ed_in e)"
proof -
  obtain e' where e': "ed_say format args e = Some e'" using ed_say_ok [OF assms(1,2)] by blast
  then show ?thesis using edits_say [OF e'] say_fields(7) [OF e'] assms(3) by auto
qed

lemma grow_edits:
  assumes "heap_serves alloc" "edits e d"
  shows "\<exists>e'. grow_buffer alloc n e = Some (False, e') \<and> edits e' d \<and> n \<le> ed_size e' \<and> ed_in e' = ed_in e"
proof (cases "ed_size e \<ge> n")
  case True
  with assms show ?thesis by (simp add: grow_buffer_def)
next
  case False
  let ?n = "(n div BUFFER_INCREMENT + 1) * BUFFER_INCREMENT"
  obtain b where b: "ed_buffer e = Block b" "length b = ed_size e" "take (length (e_text d)) b = e_text d"
    "length (e_text d) < ed_size e" using assms(2) by (auto simp: edits_def)
  obtain blk where blk: "alloc ?n = Some blk" "length blk = ?n" using assms(1) by (auto simp: heap_serves_def)
  have "n mod BUFFER_INCREMENT < BUFFER_INCREMENT" by simp
  then have n: "n < ?n" using div_mult_mod_eq [of n BUFFER_INCREMENT] by simp
  with b False have "take ?n b = b" by simp
  then have g: "grow_buffer alloc n e = Some (False, e\<lparr>ed_buffer := Block (b @ drop (length b) blk), ed_size := ?n\<rparr>)"
    using False b blk by (simp add: grow_buffer_def realloc_block_def)
  have "edits (e\<lparr>ed_buffer := Block (b @ drop (length b) blk), ed_size := ?n\<rparr>) d"
    using assms(2) b blk False n by (auto simp: edits_def)
  with g n show ?thesis by simp
qed


lemma insert_edits:
  assumes "heap_serves alloc" "edits e d" "l \<noteq> []"
  shows "\<exists>e'. insert_text alloc l e = Some (False, e') \<and> edits e' (d\<lparr>e_text := e_text d @ l @ [10]\<rparr>) \<and> ed_in e' = ed_in e"
proof -
  let ?n = "length (e_text d)"
  have el: "ed_len e = ?n" using assms(2) by (auto simp: edits_def)
  obtain e' where g: "grow_buffer alloc (?n + length l + 2) e = Some (False, e')" "edits e' d" "?n + length l + 2 \<le> ed_size e'"
    "ed_in e' = ed_in e" using grow_edits [OF assms(1,2)] by blast
  obtain b where b: "ed_buffer e' = Block b" "length b = ed_size e'" "take ?n b = e_text d" "ed_len e' = ?n"
    using g(2) by (auto simp: edits_def)
  let ?b = "(take ?n b @ l @ drop (?n + length l) b)[?n + length l := 10, ?n + length l + 1 := 0]"
  have c: "copy_into b ?n l (length l) = Some (take ?n b @ l @ drop (?n + length l) b)"
    using b g(3) by (simp add: copy_into_def)
  have len: "length (take ?n b @ l @ drop (?n + length l) b) = length b" using b g(3) by simp
  have res: "insert_text alloc l e = Some (False, e'\<lparr>ed_buffer := Block ?b, ed_len := ?n + length l + 1\<rparr>)"
    using assms(3) g(1,3) b c len by (simp add: insert_text_def Let_def el contents_def wr_def)
  have "drop (?n + length l) b \<noteq> []" using b(2) g(3) by simp
  then obtain x xs where d: "drop (?n + length l) b = x # xs" by (cases "drop (?n + length l) b") auto
  have "take (?n + length l + 1) ?b = e_text d @ l @ [10]"
    using b(2,3) g(3) d by (simp add: list_update_append)
  then have "edits (e'\<lparr>ed_buffer := Block ?b, ed_len := ?n + length l + 1\<rparr>) (d\<lparr>e_text := e_text d @ l @ [10]\<rparr>)"
    using g(2,3) b len by (simp add: edits_def)
  with res g(4) show ?thesis by auto
qed

lemma fs_write_prefix:
  assumes "n \<le> length b" shows "fs_write alloc now nm (Some b) n s = fs_write alloc now nm (Some (take n b)) n s"
proof -
  have copy: "copy_into d p (take n b) m = copy_into d p b m" if "m \<le> n" for d p m
    using that assms by (simp add: copy_into_def min_def)
  then have "fs_write_at alloc now i b n s = fs_write_at alloc now i (take n b) n s" for i
    by (simp add: fs_write_at_def Let_def copy split: prod.split)
  then show ?thesis by (simp add: fs_write_def Let_def split: option.split)
qed

lemma ed_formats:
  "fmt_kinds (message_of ''Invalid filename'') = Some []"
  "fmt_kinds (message_of ''Error creating file: %d'') = Some [KNum]"
  "fmt_kinds (message_of ''Error opening file: %d'') = Some [KNum]"
  "fmt_kinds (message_of ''Error writing to file: wrote %zu of %zu bytes'') = Some [KNum, KNum]"
  "fmt_kinds (message_of ''Wrote %zu bytes to %s'') = Some [KNum, KStr]"
  "fmt_kinds (message_of ''End insert mode.'') = Some []"
  "fmt_kinds (message_of ''Insert mode. Type lines, end with a '.' on a line by itself.'') = Some []"
  "fmt_kinds (message_of ''Failed to write to %s'') = Some [KStr]"
  "fmt_kinds (message_of ''Unknown command '%s'. Type 'h' for help.'') = Some [KStr]"
  "fmt_kinds (message_of ''Bye.'') = Some []"
  by code_simp+

lemma write_edits:
  assumes "edits e d"
  shows "case save alloc now filename d of
      None \<Rightarrow> write_to_file alloc now filename e = None
    | Some s \<Rightarrow> \<exists>rc e'. write_to_file alloc now filename e = Some (rc, e') \<and> edits e' (d\<lparr>e_files := s\<rparr>) \<and>
        keys (ed_in e') = keys (ed_in e)"
proof (cases "filename = []")
  case True
  obtain e' where "ed_say ''Invalid filename'' [] e = Some e'" "edits e' d" "keys (ed_in e') = keys (ed_in e)"
    using say_edits [OF ed_formats(1) _ assms, of "[]"] by auto
  with True show ?thesis by (simp add: save_def write_to_file_def)
next
  case False
  let ?nm = "Some (name_of filename)"
  obtain b where b: "ed_buffer e = Block b" "length b = ed_size e" "take (length (e_text d)) b = e_text d"
    "ed_len e = length (e_text d)" "length (e_text d) < ed_size e" "ed_fs e = e_files d"
    using assms by (auto simp: edits_def)
  have upd: "edits (e\<lparr>ed_fs := s\<rparr>) (d\<lparr>e_files := s\<rparr>)" for s using assms unfolding edits_def by auto
  obtain s1 r1 where 1: "fs_create alloc now ?nm (e_files d) = (s1, r1)" by fastforce
  obtain s2 r2 where 2: "fs_open ?nm s1 = (s2, r2)" by fastforce
  consider (create) "r1 \<noteq> 0 \<and> r1 \<noteq> -3" | (unopened) "\<not> (r1 \<noteq> 0 \<and> r1 \<noteq> -3)" "r2 \<noteq> 0" | (ok) "\<not> (r1 \<noteq> 0 \<and> r1 \<noteq> -3)" "r2 = 0"
    by blast
  then show ?thesis
  proof cases
    case create
    obtain e' where "ed_say ''Error creating file: %d'' [int_arg r1] (e\<lparr>ed_fs := s1\<rparr>) = Some e'" "edits e' (d\<lparr>e_files := s1\<rparr>)"
      "keys (ed_in e') = keys (ed_in e)" using say_edits [OF ed_formats(2) _ upd, of "[int_arg r1]"] by (auto simp: int_arg_def)
    with create False 1 b show ?thesis by (simp add: save_def write_to_file_def)
  next
    case unopened
    obtain e' where "ed_say ''Error opening file: %d'' [int_arg r2] (e\<lparr>ed_fs := s2\<rparr>) = Some e'" "edits e' (d\<lparr>e_files := s2\<rparr>)"
      "keys (ed_in e') = keys (ed_in e)" using say_edits [OF ed_formats(3) _ upd, of "[int_arg r2]"] by (auto simp: int_arg_def)
    with unopened False 1 2 b show ?thesis by (auto simp: save_def write_to_file_def Let_def)
  next
    case ok
    have w: "fs_write alloc now ?nm (Some b) (length (e_text d)) s2 = fs_write alloc now ?nm (Some (e_text d)) (length (e_text d)) s2"
      using fs_write_prefix [of "length (e_text d)" b] b by simp
    show ?thesis
    proof (cases "fs_write alloc now ?nm (Some (e_text d)) (length (e_text d)) s2")
      case None
      with ok False 1 2 b w show ?thesis by (auto simp: save_def write_to_file_def Let_def contents_def)
    next
      case (Some r)
      obtain s3 n where r: "r = (s3, n)" by fastforce
      let ?s = "fst (fs_close ?nm s3)"
      obtain e' where e': "ed_say ''Error writing to file: wrote %zu of %zu bytes'' [Num (of_nat n), Num (of_nat (length (e_text d)))] (e\<lparr>ed_fs := ?s\<rparr>) = Some e'"
        "edits e' (d\<lparr>e_files := ?s\<rparr>)" "keys (ed_in e') = keys (ed_in e)"
        using say_edits [OF ed_formats(4) _ upd, of "[Num (of_nat n), Num (of_nat (length (e_text d)))]"] by auto
      obtain e'' where e'': "ed_say ''Wrote %zu bytes to %s'' [Num (of_nat (length (e_text d))), Str (Some filename)] (e\<lparr>ed_fs := ?s\<rparr>) = Some e''"
        "edits e'' (d\<lparr>e_files := ?s\<rparr>)" "keys (ed_in e'') = keys (ed_in e)"
        using say_edits [OF ed_formats(5) _ upd, of "[Num (of_nat (length (e_text d))), Str (Some filename)]"] by auto
      from ok False 1 2 b w Some r e' e'' show ?thesis
        by (cases "n = length (e_text d)") (auto simp: save_def write_to_file_def Let_def contents_def)
    qed
  qed
qed


lemma say_all_ok:
  assumes "list_all (\<lambda>l. fmt_kinds (message_of l) = Some []) ls"
  shows "\<exists>e'. say_all ls e = Some e'"
  using assms
proof (induction ls arbitrary: e)
  case (Cons l ls)
  then show ?case using ed_say_ok [of l "[]" "[]" e] by fastforce
qed simp

lemma help_put: "\<exists>msg. print_help e = Some (e\<lparr>ed_in := ed_put msg (ed_in e)\<rparr>)"
proof -
  have "list_all (\<lambda>l. fmt_kinds (message_of l) = Some []) [''Simple ed commands:'', ''  w         : start inserting text'',
     ''  .         : end inserting text (only in insert mode)'', ''  q         : quit editor'',
     ''  h         : show this help'', ''  :w filename : write buffer to file'']" by code_simp
  from say_all_ok [OF this, of e] show ?thesis unfolding print_help_def using say_all_put by blast
qed

lemma help_edits:
  assumes "edits e d"
  shows "\<exists>e'. print_help e = Some e' \<and> edits e' d \<and> keys (ed_in e') = keys (ed_in e)"
proof -
  obtain msg where "print_help e = Some (e\<lparr>ed_in := ed_put msg (ed_in e)\<rparr>)" using help_put by blast
  with assms show ?thesis unfolding edits_def by auto
qed

text \<open>A line that is typed means the same to both.\<close>

lemma plain_cstring: "plain_line l \<Longrightarrow> cstring l = l"
  by (auto simp: plain_line_def cstring_def takeWhile_eq_all_conv)

lemma insert_line_edits:
  assumes "heap_serves alloc" "edits e d" "e_inserting d"
  shows "\<exists>e'. insert_line alloc l e = Some (Stay, e') \<and> edits e' (snd (the (editor_line alloc now l d))) \<and>
    keys (ed_in e') = keys (ed_in e)"
proof -
  consider (stop) "l = bytes ''.''" | (blank) "l = []" | (more) "l \<noteq> bytes ''.''" "l \<noteq> []" by blast
  then show ?thesis
  proof cases
    case stop
    have "edits (e\<lparr>ed_insert := False\<rparr>) (d\<lparr>e_inserting := False\<rparr>)" using assms(2) unfolding edits_def by auto
    from say_edits [OF ed_formats(6) _ this, of "[]"] stop assms(3) show ?thesis
      by (auto simp: insert_line_def editor_line_def)
  next
    case blank
    have "l \<noteq> bytes ''.''" unfolding blank by code_simp
    with blank assms show ?thesis by (simp add: insert_line_def insert_text_def editor_line_def)
  next
    case more
    from insert_edits [OF assms(1,2) more(2)] more assms(3) show ?thesis
      by (auto simp: insert_line_def editor_line_def)
  qed
qed

lemma command_line_edits:
  assumes "edits e d" "\<not> e_inserting d" "plain_line l"
  shows "case editor_line alloc now l d of
      None \<Rightarrow> command_line alloc now l e = None
    | Some (quit, d') \<Rightarrow> \<exists>e'. command_line alloc now l e = Some (if quit then Leave else Stay, e') \<and> edits e' d' \<and>
        keys (ed_in e') = keys (ed_in e)"
proof -
  have "last l \<noteq> 10" if "l \<noteq> []" using assms(3) last_in_set [OF that] by (fastforce simp: plain_line_def)
  then have l: "(if l \<noteq> [] \<and> last l = 10 then butlast l else l) = l" by auto
  note eqs = command_line_def [of alloc now l e, unfolded Let_def l] editor_line_def [of alloc now l d]
  have d: "bytes ''w'' \<noteq> bytes ''q''" "take 3 (bytes ''q'') \<noteq> bytes '':w ''" "take 3 (bytes ''w'') \<noteq> bytes '':w ''"
    "take 3 (bytes ''h'') \<noteq> bytes '':w ''" "bytes ''h'' \<noteq> bytes ''q''" "bytes ''h'' \<noteq> bytes ''w''"
    by code_simp+
  consider (q) "l = bytes ''q''" | (w) "l = bytes ''w''" | (save) "l \<noteq> bytes ''q''" "l \<noteq> bytes ''w''" "take 3 l = bytes '':w ''"
    | (h) "l = bytes ''h''"
    | (other) "l \<noteq> bytes ''q''" "l \<noteq> bytes ''w''" "take 3 l \<noteq> bytes '':w ''" "l \<noteq> bytes ''h''" by blast
  then show ?thesis
  proof cases
    case q
    with assms show ?thesis unfolding eqs by simp
  next
    case w
    have "edits (e\<lparr>ed_insert := True\<rparr>) (d\<lparr>e_inserting := True\<rparr>)" using assms(1) unfolding edits_def by auto
    from say_edits [OF ed_formats(7) _ this, of "[]"] w assms(2) d show ?thesis
      unfolding eqs by auto
  next
    case save
    show ?thesis
    proof (cases "save alloc now (drop 3 l) d")
      case None
      then have "write_to_file alloc now (drop 3 l) e = None" using write_edits [OF assms(1), of alloc now "drop 3 l"] by simp
      with None save assms(2) show ?thesis unfolding eqs by simp
    next
      case (Some s)
      then obtain rc e' where e': "write_to_file alloc now (drop 3 l) e = Some (rc, e')" "edits e' (d\<lparr>e_files := s\<rparr>)"
        "keys (ed_in e') = keys (ed_in e)" using write_edits [OF assms(1), of alloc now "drop 3 l"] by auto
      obtain e'' where "ed_say ''Failed to write to %s'' [Str (Some (drop 3 l))] e' = Some e''" "edits e'' (d\<lparr>e_files := s\<rparr>)"
        "keys (ed_in e'') = keys (ed_in e')" using say_edits [OF ed_formats(8) _ e'(2), of "[Str (Some (drop 3 l))]"] by auto
      with e' Some save assms(2) show ?thesis
        unfolding eqs by (cases "rc = 0"; simp)
    qed
  next
    case h
    from help_edits [OF assms(1)] h d assms(2) show ?thesis
      unfolding eqs by auto
  next
    case other
    from say_edits [OF ed_formats(9) _ assms(1), of "[Str (Some l)]"] other assms(2) show ?thesis
      unfolding eqs by auto
  qed
qed

lemma step_edits:
  assumes "heap_serves alloc" "edits e d" "plain_line l" "keys (ed_in e) = map uint l @ 10 # ks"
  shows "case editor_line alloc now l d of
      None \<Rightarrow> ed_step alloc now e = None
    | Some (quit, d') \<Rightarrow> \<exists>e'. ed_step alloc now e = Some (if quit then Leave else Stay, e') \<and> edits e' d' \<and> keys (ed_in e') = ks"
proof -
  have put_in: "edits (e\<lparr>ed_in := i\<rparr>) d" if "ed_idle i" for i using assms(2) that unfolding edits_def by auto
  have ed_idle: "ed_idle (ed_in e)" and ins: "ed_insert e = e_inserting d" using assms(2) by (auto simp: edits_def)
  show ?thesis
  proof (cases "e_inserting d")
    case True
    obtain i where i: "ed_read_line 512 [] (ed_in e) = Some (int (length l), l, i)" "ed_idle i" "keys i = ks"
      using typed_ed_line [OF ed_idle assms(3,4)] by blast
    obtain e' where "insert_line alloc l (e\<lparr>ed_in := i\<rparr>) = Some (Stay, e')" "edits e' (snd (the (editor_line alloc now l d)))"
      "keys (ed_in e') = ks" using insert_line_edits [OF assms(1) put_in [OF i(2)] True, of l now] i(3) by auto
    with True i ins show ?thesis by (simp add: ed_step_def plain_cstring [OF assms(3)] editor_line_def)
  next
    case False
    have "fmt_kinds (bytes ''ed> '') = Some []" by code_simp
    then obtain msg where msg: "printf (bytes ''ed> '') [] = Some msg"
      using vprintf_fits [of "bytes ''ed> ''" "[]" "[]"] by (auto simp: printf_def)
    obtain i where i: "ed_read_line 512 [] (ed_put msg (ed_in e)) = Some (int (length l), l, i)" "ed_idle i" "keys i = ks"
      using typed_ed_line [of "ed_put msg (ed_in e)", OF _ assms(3), of ks] ed_idle assms(4) by auto
    from command_line_edits [OF put_in [OF i(2)] False assms(3), of alloc now] False i ins msg show ?thesis
      by (auto simp: ed_step_def plain_cstring [OF assms(3)] split: option.splits)
  qed
qed

lemma loop_edits:
  assumes "heap_serves alloc" "edits e d" "list_all plain_line ls" "keys (ed_in e) = concat (map (\<lambda>l. map uint l @ [10]) ls)"
    and "session alloc now ls d = Some d'"
  shows "\<exists>e'. ed_loop alloc now e = Some (Leave, e') \<and> edits e' d'"
  using assms(2-5)
proof (induction ls arbitrary: e d)
  case (Cons l ls)
  obtain quit d1 where 1: "editor_line alloc now l d = Some (quit, d1)" using Cons.prems(4) by (auto split: bind_splits)
  obtain e1 where e1: "ed_step alloc now e = Some (if quit then Leave else Stay, e1)" "edits e1 d1"
    "keys (ed_in e1) = concat (map (\<lambda>l. map uint l @ [10]) ls)"
    using step_edits [OF assms(1) Cons.prems(1), of l _ now] 1 Cons.prems(2,3) by auto
  show ?case
  proof (cases quit)
    case True
    with 1 e1 Cons.prems(4) show ?thesis by (subst ed_loop.simps) simp
  next
    case False
    with 1 Cons.prems(2,4) Cons.IH [OF e1(2) _ e1(3)] e1(1) show ?thesis by (subst ed_loop.simps) simp
  qed
qed simp

text \<open>C36.  (refinement) The first run of the editor on any lines typed at the keyboard, each at most 254 printable
  characters long and the last of them the command that quits, ends with the text and the files that the
  specification gives, whatever it shows on the way.\<close>

theorem ed_session_refines:
  assumes "heap_serves alloc" "list_all plain_line ls"
    and "session alloc now ls \<lparr>e_text = [], e_inserting = False, e_files = s\<rparr> = Some d"
  shows "\<exists>e. ed_main alloc now (ed0 (stdin0 (concat (map (\<lambda>l. map uint l @ [10]) ls))) s) = Some (Finished 0 e) \<and>
    ed_fs e = e_files d \<and> ed_len e = length (e_text d)"
proof -
  let ?ks = "concat (map (\<lambda>l. map uint l @ [10]) ls)"
  let ?d = "\<lparr>e_text = [], e_inserting = False, e_files = s\<rparr>"
  obtain blk where blk: "alloc 2048 = Some blk" "length blk = 2048" using assms(1) by (auto simp: heap_serves_def)
  obtain msg where h: "print_help (ed0 (stdin0 ?ks) s) = Some ((ed0 (stdin0 ?ks) s)\<lparr>ed_in := ed_put msg (stdin0 ?ks)\<rparr>)"
    using help_put [of "ed0 (stdin0 ?ks) s"] by (auto simp: ed0_def)
  let ?e = "\<lparr>ed_buffer = Block (blk[0 := 0]), ed_size = 2048, ed_len = 0, ed_insert = False,
    ed_in = ed_put msg (stdin0 ?ks), ed_fs = s\<rparr>"
  have "edits ?e ?d" using blk by (simp add: edits_def ed_idle_def stdin0_def ed_put_def)
  then obtain e' where e': "ed_loop alloc now ?e = Some (Leave, e')" "edits e' d"
    using loop_edits [OF assms(1) _ assms(2) _ assms(3), of ?e] by (auto simp: ed_put_def stdin0_def)
  obtain e'' where bye: "ed_say ''Bye.'' [] (e'\<lparr>ed_buffer := Dangling\<rparr>) = Some e''"
    using ed_say_ok [OF ed_formats(10), of "[]"] by auto
  obtain b where "ed_buffer e' = Block b" "ed_fs e' = e_files d" "ed_len e' = length (e_text d)"
    using e'(2) by (auto simp: edits_def)
  with h blk e'(1) bye say_fields(2-6) [OF bye] show ?thesis
    by (auto simp: ed_main_def grow_buffer_def realloc_block_def ed0_def contents_def wr_def)
qed



definition ed_demo_lines :: "u8 list list" where
  "ed_demo_lines = [bytes ''w'', bytes ''ab'', bytes ''.'', bytes '':w f'', bytes ''q'']"

lemma demo_save:
  "\<exists>s. save zero_heap 0 (bytes ''f'') \<lparr>e_text = [97, 98, 10], e_inserting = False, e_files = fs_init 0\<rparr> = Some s \<and>
     f_size (fs_files s ! 1) = 3 \<and> map_option (take 3) (f_data (fs_files s ! 1)) = Some [97, 98, 10]"
proof -
  have f: "name_of (bytes ''f'') = ''f''" "bytes ''f'' \<noteq> []" by code_simp+
  show ?thesis
    apply (simp add: save_def f fs_init_def fs_create_def fs_create_with_perms_def fs_simps zero_heap_def)
    apply (simp add: fs_open_def fs_simps)
    apply (simp add: fs_write_def fs_simps fs_has_perm_def fs_write_at_def fs_resize_file_def copy_into_def)
    apply (simp add: fs_close_def fs_simps zero_file_def)
    done
qed

lemma demo_session:
  "session zero_heap 0 ed_demo_lines \<lparr>e_text = [], e_inserting = False, e_files = s\<rparr> =
     map_option (\<lambda>t. \<lparr>e_text = [97, 98, 10], e_inserting = False, e_files = t\<rparr>)
       (save zero_heap 0 (bytes ''f'') \<lparr>e_text = [97, 98, 10], e_inserting = False, e_files = s\<rparr>)"
proof -
  have b: "bytes ''w'' = [119]" "bytes ''ab'' = [97, 98]" "bytes ''.'' = [46]" "bytes '':w f'' = [58, 119, 32, 102]"
    "bytes '':w '' = [58, 119, 32]" "bytes ''q'' = [113]" "bytes ''f'' = [102]" by code_simp+
  show ?thesis
    unfolding ed_demo_lines_def b
    by (cases "save zero_heap 0 [102] \<lparr>e_text = [97, 98, 10], e_inserting = False, e_files = s\<rparr>")
      (simp_all add: editor_line_def b)
qed

theorem ed_session_refines_witness:
  "\<exists>e. ed_main zero_heap 0 (ed0 (stdin0 (concat (map (\<lambda>l. map uint l @ [10]) ed_demo_lines))) (fs_init 0)) = Some (Finished 0 e) \<and>
    map_option (take 3) (f_data (fs_files (ed_fs e) ! 1)) = Some [97, 98, 10]"
proof -
  obtain s where s: "save zero_heap 0 (bytes ''f'') \<lparr>e_text = [97, 98, 10], e_inserting = False, e_files = fs_init 0\<rparr> = Some s"
    "map_option (take 3) (f_data (fs_files s ! 1)) = Some [97, 98, 10]" using demo_save by blast
  have "list_all plain_line ed_demo_lines" by code_simp
  moreover have "heap_serves zero_heap" by (simp add: heap_serves_def zero_heap_def)
  moreover have "session zero_heap 0 ed_demo_lines \<lparr>e_text = [], e_inserting = False, e_files = fs_init 0\<rparr> =
      Some \<lparr>e_text = [97, 98, 10], e_inserting = False, e_files = s\<rparr>" by (simp add: demo_session s(1))
  ultimately show ?thesis using ed_session_refines [of zero_heap ed_demo_lines 0 "fs_init 0"] s(2) by auto
qed

text \<open>A second run grows nothing, as the size is still that of the freed block, and writes to it.\<close>

lemma ed_second_run:
  assumes "ed_buffer e = Dangling" "ed_size e \<ge> 1024"
  shows "ed_main alloc now e = None"
proof -
  obtain msg where "print_help e = Some (e\<lparr>ed_in := ed_put msg (ed_in e)\<rparr>)" using help_put by blast
  with assms show ?thesis by (simp add: ed_main_def grow_buffer_def contents_def)
qed

end
