(* ===== verification/Boot.thy ===== *)
theory Boot
  imports Prelude Pmm Vmm Fs Process Kern Paging Vga Keyboard Hdmi Timelib Login Shell Cpu Scan Ed
begin

text \<open>
  The kernel from power-on to the shell, \<open>sbin/init/init.c\<close> and \<open>usr/drivers/null.c\<close>: the components
  started one after the other by \<open>main\<close>, which owns the state of all of them.  What is put on the
  screen are operations of \<open>Vga\<close>.  Arguments: the registers of the HDMI controller and the
  uninitialized structure for it, the answer of \<open>cpuid\<close> and the uninitialized structure for it, the
  heap, the clock, the answers of the keyboard controller, and the characters that \<open>kb_getchar\<close>
  returns from the login on.
\<close>

section \<open>State\<close>

text \<open>
  Behind the drivers come the statics of the commands: the path of \<open>bin/cd.c\<close> with the memory behind
  it, the seed of \<open>bin/rand.c\<close>, the line buffer of \<open>stdio.c\<close>, and those of \<open>bin/ed.c\<close>.
\<close>

record kernel =
  k_vga :: vga
  k_hdmi :: hdmi_world
  k_paging :: paging
  k_cpu :: cpu
  k_fs :: fs
  k_refcnt :: refcnt
  k_srp :: "nat option"
  k_vmm :: vmm
  k_pmm :: pmm
  k_procs :: ptable
  k_kb :: kb_state
  k_cwd :: "u8 list"
  k_seed :: u32
  k_stdin :: stdin
  k_ed :: "ed_block \<times> nat \<times> nat \<times> bool"

abbreviation SHORT_DELAY :: u64 where "SHORT_DELAY \<equiv> 50000"
abbreviation MEDIUM_DELAY :: u64 where "MEDIUM_DELAY \<equiv> 100000"
abbreviation LONG_DELAY :: u64 where "LONG_DELAY \<equiv> 150000"

text \<open>Text of several lines: every line with its newline.\<close>

definition text_lines :: "string list \<Rightarrow> u8 list" where
  "text_lines ls = concat (map (\<lambda>l. bytes l @ [10]) ls)"

section \<open>The steps of \<open>main\<close>\<close>

definition print_banner_and_hardware :: "u8 list \<Rightarrow> vga_op list" where
  "print_banner_and_hardware date =
     [VPrintf (text_lines [''Unics/i686 0.1-RELEASE #0: %s'']) [Str (Some date)],
      VPuts (text_lines [''Copyright (c) 2025 0x16000. All rights reserved.'', ''Booting kernel...'', [],
        ''cpu0: i686-class processor'', ''Initializing display controllers:'',
        ''vga0: <Generic VGA> at port 0x3c0-0x3df iomem 0xa0000-0xbffff''])]"

definition setup_hdmi :: "hardware \<Rightarrow> hdmi_world \<Rightarrow> vga_op list \<times> hdmi_world" where
  "setup_hdmi hw w =
     (let head = VPuts (text_lines [''hdmi0: <Broadcom HDMI Controller> at iomem 0xfe902000'']);
          (r, w) = run_state (hdmi_init 0xFE902000) w
      in if r = 0 then
           let (_, w) = run_state (hdmi_set_resolution HDMI_RES_1920x1080_60Hz) w;
               (_, w) = run_state (hdmi_set_color_depth hw 8) w;
               (_, w) = run_state (hdmi_enable hw True) w;
               (_, w) = run_state (hdmi_enable_video hw True) w;
               (c, w) = run_state (hdmi_is_connected hw) w
           in ([head, VPuts (text_lines [if c then ''hdmi0: connected (1920x1080@60Hz)''
                                         else ''hdmi0: no display connected'']), VPuts [10]], w)
         else ([head, VPuts (text_lines [''hdmi0: init failed, falling back to vga0'']), VPuts [10]], w))"

definition print_device_and_memory_info :: "vga_op list" where
  "print_device_and_memory_info =
     [VPuts (text_lines [''Paging: enabled'', ''Probing devices:'', ''kbd0: at atkbdc0 (kbd port)'',
        ''sc0: <System console> on isa0'', []])]"

definition readme_text :: "u8 list" where
  "readme_text = text_lines [''Welcome to Unics!'', ''This is the first edition of the Unics kernel / operating system.'',
     ''Type 'help' for a list of commands.'']"

definition print_root_fs_readme :: "alloc \<Rightarrow> u64 \<Rightarrow> fs \<Rightarrow> fs option" where
  "print_root_fs_readme alloc now s =
     map_option fst (fs_write alloc now (Some ''README'') (Some readme_text) (length readme_text) s)"

text \<open>The features that are reported, as bits and as names.\<close>

definition reported :: "(nat \<times> string) list" where
  "reported = [(FPU, ''FPU,''), (VME, ''VME,''), (DE, ''DE,''), (PSE, ''PSE,''), (TSC, ''TSC,''), (MSR, ''MSR,''),
     (PAE, ''PAE,''), (MCE, ''MCE'')]"

definition feature_bits :: "u8 list \<Rightarrow> u32" where
  "feature_bits features =
     fold (\<lambda>i bits. bits OR (if has features (fst (reported ! i)) then push_bit i 1 else 0)) [0..<8] 0"

definition feature_names :: "u8 list \<Rightarrow> arg list" where
  "feature_names features = map (\<lambda>(k, nm). Str (Some (bytes (if has features k then nm else [])))) reported"

definition early_cpu_init :: "u8 list \<Rightarrow> vga \<Rightarrow> cpu \<Rightarrow> (vga \<times> cpu) option" where
  "early_cpu_init features v c =
     do { v \<leftarrow> vga_step (VPrintf (text_lines [''cpu0: features=0x%x <%s%s%s%s%s%s%s%s>''])
             (Num (feature_bits features) # feature_names features)) v;
          _ \<leftarrow> delay MEDIUM_DELAY;
          let c = cpu_init_fpu c;
          v \<leftarrow> vga_puts (text_lines [''cpu0: FPU initialized'']) v;
          _ \<leftarrow> delay SHORT_DELAY;
          (v, c) \<leftarrow> (if has features SSE then
              do { let c = cpu_init_sse c;
                   v \<leftarrow> vga_puts (text_lines [''cpu0: SSE enabled'']) v;
                   _ \<leftarrow> delay SHORT_DELAY;
                   Some (v, c) }
            else Some (v, c));
          (v, c) \<leftarrow> (if has features PAE then
              do { let c = cpu_set_cr4 (cpu_get_cr4 c OR 0x20) c;
                   v \<leftarrow> vga_puts (text_lines [''cpu0: PAE enabled'']) v;
                   _ \<leftarrow> delay SHORT_DELAY;
                   Some (v, c) }
            else Some (v, c));
          let c = (if has features SSE \<or> has features SSE2 then cpu_enable_sse c else c);
          if has features APIC then
            do { let c = cpu_enable_smp c;
                 v \<leftarrow> vga_puts (text_lines [''cpu0: APIC enabled'']) v;
                 _ \<leftarrow> delay SHORT_DELAY;
                 Some (v, c) }
          else Some (v, c) }"

definition null_init :: "alloc \<Rightarrow> u64 \<Rightarrow> fs \<Rightarrow> fs option" where
  "null_init alloc now s =
     (let (s, ok) = (if fs_find_file (Some ''dev'') s = None
                     then let (s, r) = fs_mkdir now (Some ''dev'') s in (s, r = 0) else (s, True))
      in if \<not> ok then Some s
         else do { (s, r) \<leftarrow> fs_chdir (Some ''dev'') s;
                   if r \<noteq> 0 then Some s
                   else
                     let (s, r) = (if fs_find_file (Some ''null'') s = None
                           then fs_create_with_perms alloc now (Some ''null'') (FS_PERM_READ OR FS_PERM_WRITE) s else (s, 0))
                     in map_option fst (fs_chdir (Some ''..'') s) })"

text \<open>The files that \<open>main\<close> makes before \<open>null_init\<close>.\<close>

definition mount_root :: "alloc \<Rightarrow> u64 \<Rightarrow> fs option" where
  "mount_root alloc now =
     (let s = fs_init now;
          (s, _) = fs_mkdir now (Some ''root'') s;
          (s, _) = fs_create alloc now (Some ''README'') s;
          (s, _) = fs_open (Some ''README'') s
      in do { s \<leftarrow> print_root_fs_readme alloc now s;
              Some (fst (fs_close (Some ''README'') s)) })"

text \<open>What \<open>main\<close> meets: the machine and the contents of its uninitialized variables.\<close>

record machine =
  m_date :: "u8 list"
  m_hdmi :: hardware
  m_hdmi_garbage :: hdmi_device
  m_cpuid :: "(u32 \<times> u32) option"
  m_features_garbage :: "u8 list"
  m_cpu :: cpu
  m_heap :: alloc
  m_now :: u64
  m_region_ok :: bool
  m_bitmap_ok :: bool
  m_ports :: "u8 list"
  m_behind_cwd :: "u8 list"

definition m_features :: "machine \<Rightarrow> u8 list" where
  "m_features m = (case m_cpuid m of
      None \<Rightarrow> cpu_detect_features False 0 0 (m_features_garbage m)
    | Some (edx, ecx) \<Rightarrow> cpu_detect_features True edx ecx (m_features_garbage m))"

abbreviation screen_puts :: "string \<Rightarrow> vga \<Rightarrow> vga option" where
  "screen_puts l \<equiv> vga_puts (text_lines [l])"

text \<open>The physical and the virtual memory manager as \<open>main\<close> sets them up.\<close>

definition setup_pmm :: "machine \<Rightarrow> pmm \<Rightarrow> pmm option" where
  "setup_pmm m pm =
     (let (pm, _) = pmm_init pm;
          (pm, _) = pmm_add_region (m_region_ok m) (m_bitmap_ok m) 0x00100000 0x07F00000 PMM_ZONE_NORMAL pm
      in map_option fst (pmm_reserve_range 0x00000000 0x00100000 pm))"

definition setup_procs :: ptable where
  "setup_procs =
     (let p = process_init ptable_boot;
          (p, _) = process_create (Some ''init'') 0 p;
          (p, _) = process_create (Some ''shell'') 1 p
      in p)"

text \<open>\<open>main\<close> up to the login prompt: the state, and the answers of the keyboard controller that are left.\<close>

definition boot :: "machine \<Rightarrow> (kernel \<times> u8 list) option" where
  "boot m =
     do { v \<leftarrow> run_ops vga_step ([VInit, VCursorOff, VClear, VColor 15 0] @ print_banner_and_hardware (m_date m)) vga0;
          _ \<leftarrow> delay MEDIUM_DELAY;
          let (ops, hdmi) = setup_hdmi (m_hdmi m) \<lparr>hdmi_dev = Some (m_hdmi_garbage m), bus = [], printed = []\<rparr>;
          v \<leftarrow> run_ops vga_step ops v;
          _ \<leftarrow> delay MEDIUM_DELAY;
          (pm, page) \<leftarrow> pmm_alloc_page pmm_boot;
          let pg = paging_init page paging0;
          _ \<leftarrow> delay SHORT_DELAY;
          v \<leftarrow> run_ops vga_step print_device_and_memory_info v;
          _ \<leftarrow> delay SHORT_DELAY;
          (v, c) \<leftarrow> early_cpu_init (m_features m) v (m_cpu m);
          v \<leftarrow> screen_puts ''Mounting root filesystem from RAM...'' v;
          _ \<leftarrow> delay SHORT_DELAY;
          s \<leftarrow> mount_root (m_heap m) (m_now m);
          _ \<leftarrow> delay SHORT_DELAY;
          let ref = refcnt_init \<lparr>r_refs = 0, r_traceidx = 0\<rparr>;
          let srp = srp_init;
          let vm = vmm_init vmm_boot;
          v \<leftarrow> screen_puts ''vmm: virtual memory manager online'' v;
          _ \<leftarrow> delay SHORT_DELAY;
          pm \<leftarrow> setup_pmm m pm;
          v \<leftarrow> screen_puts ''pmm: physical memory manager online'' v;
          _ \<leftarrow> delay SHORT_DELAY;
          s \<leftarrow> null_init (m_heap m) (m_now m) s;
          v \<leftarrow> screen_puts ''null: /dev/null ready'' v;
          _ \<leftarrow> delay SHORT_DELAY;
          let procs = setup_procs;
          (kb, ports) \<leftarrow> kb_init kb_state0 (m_ports m);
          let kb = kb_set_boot_complete True (kb_enable_input True kb);
          v \<leftarrow> screen_puts ''Kernel initialization complete.'' v;
          _ \<leftarrow> delay MEDIUM_DELAY;
          v \<leftarrow> screen_puts ''Starting system services...'' v;
          _ \<leftarrow> delay LONG_DELAY;
          v \<leftarrow> vga_puts (text_lines [''Launching init(8)'', []]) v;
          _ \<leftarrow> delay MEDIUM_DELAY;
          let v = vga_enable_cursor v;
          Some (\<lparr>k_vga = v, k_hdmi = hdmi, k_paging = pg, k_cpu = c, k_fs = s, k_refcnt = ref, k_srp = srp,
                 k_vmm = vm, k_pmm = pm, k_procs = procs, k_kb = kb,
                 k_cwd = 47 # replicate 255 0 @ m_behind_cwd m, k_seed = 12345, k_stdin = stdin0 [],
                 k_ed = (Null, 0, 0, False)\<rparr>, ports) }"

text \<open>The rest of \<open>main\<close>.  The commands act on the kernel, all but its screen, which takes their output.\<close>

datatype outcome = Halted | Returned int

definition welcome_text :: "vga_op list" where
  "welcome_text = [VPuts (text_lines [[], ''Unics/i686 0.1-RELEASE (GENERIC)'', ''Welcome to Unics!'', []] @
     bytes ''This software is provided '' @ [34] @ bytes ''AS IS'' @ [34] @
     text_lines ['' without warranties of any kind.'', ''Report bugs at: https://github.com/0x16000/Unics'', []])]"

definition unics_main ::
    "kernel command list \<Rightarrow> (entry list \<Rightarrow> (u32 \<times> u8 list) option) \<Rightarrow> (kernel \<Rightarrow> u8 list) \<Rightarrow>
     u8 list \<Rightarrow> u8 list \<Rightarrow> machine \<Rightarrow> u8 list \<Rightarrow> (outcome \<times> kernel) option" where
  "unics_main commands heap cwd username password m input =
     do { (k, _) \<leftarrow> boot m;
          (out, r) \<leftarrow> login_prompt username password input;
          v \<leftarrow> run_ops vga_step out (k_vga k);
          case r of
            None \<Rightarrow> Some (Halted, k\<lparr>k_vga := v\<rparr>)
          | Some input \<Rightarrow>
              let (ctx, ops) = shell_init in
              do { v \<leftarrow> run_ops vga_step (welcome_text @ ops) v;
                   (out, ctx, input, k) \<leftarrow> shell_run commands heap cwd ctx input (k\<lparr>k_vga := v\<rparr>);
                   v \<leftarrow> run_ops vga_step out (k_vga k);
                   Some (Returned 0, k\<lparr>k_vga := v\<rparr>) } }"


section \<open>The screen\<close>

lemma puts_inv: "vga_inv v \<Longrightarrow> \<exists>w. vga_puts s v = Some w \<and> vga_inv w"
  using vga_puts_on_screen [of "vga_target v" v s] by (auto simp: on_screen_def)

lemma ops_inv: "vga_inv v \<Longrightarrow> \<forall>x \<in> set ops. vga_op_ok x \<Longrightarrow> \<exists>w. run_ops vga_step ops v = Some w \<and> vga_inv w"
  by (rule screen.run_safe)

lemma good_formats:
  "good_format (text_lines [''Unics/i686 0.1-RELEASE #0: %s'']) [Str s]"
  "good_format (text_lines [''cpu0: features=0x%x <%s%s%s%s%s%s%s%s>''])
     [Num n, Str s0, Str s1, Str s2, Str s3, Str s4, Str s5, Str s6, Str s7]"
  by (simp_all add: text_lines_def bytes_def ch_def)

lemma delays: "\<exists>i. delay SHORT_DELAY = Some i" "\<exists>i. delay MEDIUM_DELAY = Some i" "\<exists>i. delay LONG_DELAY = Some i"
  using delay_returns [of SHORT_DELAY] delay_returns [of MEDIUM_DELAY] delay_returns [of LONG_DELAY] by simp_all

lemma early_cpu_init_ends:
  assumes "vga_inv v"
  shows "\<exists>w c'. early_cpu_init features v c = Some (w, c') \<and> vga_inv w"
proof -
  let ?format = "text_lines [''cpu0: features=0x%x <%s%s%s%s%s%s%s%s>'']"
  have "vga_op_ok (VPrintf ?format (Num (feature_bits features) # feature_names features))"
    using good_formats(2) by (simp add: feature_names_def reported_def)
  then obtain w where w: "vga_step (VPrintf ?format (Num (feature_bits features) # feature_names features)) v = Some w"
    "vga_inv w" using ops_inv [OF assms, of "[VPrintf ?format (Num (feature_bits features) # feature_names features)]"]
    by (auto split: bind_splits)
  have line: "\<exists>w. screen_puts l v = Some w \<and> vga_inv w" if "vga_inv v" for l v using puts_inv that by blast
  obtain w0 where w0: "screen_puts ''cpu0: FPU initialized'' w = Some w0" "vga_inv w0" using line w(2) by blast
  obtain w1 where w1: "screen_puts ''cpu0: SSE enabled'' w0 = Some w1" "vga_inv w1" using line w0(2) by blast
  define x1 where "x1 = (if has features SSE then w1 else w0)"
  have x1: "vga_inv x1" using w0 w1 by (simp add: x1_def)
  obtain w2 where w2: "screen_puts ''cpu0: PAE enabled'' x1 = Some w2" "vga_inv w2" using line x1 by blast
  define x2 where "x2 = (if has features PAE then w2 else x1)"
  have x2: "vga_inv x2" using w2 x1 by (simp add: x2_def)
  obtain w3 where w3: "screen_puts ''cpu0: APIC enabled'' x2 = Some w3" "vga_inv w3" using line x2 by blast
  from delays w w0 w1 w2 w3 x1 x2 show ?thesis
    unfolding early_cpu_init_def Let_def
    by (cases "has features SSE"; cases "has features PAE"; cases "has features APIC") (auto simp: x1_def x2_def)
qed


section \<open>Memory, processes and files\<close>

lemma alloc_before_init: "pmm_alloc_page pmm_boot = Some (pmm_boot, 0)"
  by (simp add: pmm_alloc_page_def pmm_alloc_page_zone_def pmm_boot_def)

lemma setup_pmm_eq:
  assumes "m_region_ok m" "m_bitmap_ok m"
  shows "setup_pmm m pmm_boot = Some \<lparr>pmm_regions = [boot_region], pmm_initialized = True\<rparr>"
  using pmm_kernel_boot_eq assms by (simp add: setup_pmm_def pmm_kernel_boot_def)

lemma setup_procs_list:
  "process_list setup_procs = [(100, 0, ''RUNNING'', ''init''), (101, 1, ''RUNNING'', ''shell'')]"
  "process_get 1 setup_procs = None" "ptable_wf setup_procs"
  subgoal by code_simp
  subgoal by code_simp
proof -
  have "run_ops proc_step [Proc_init, Proc_create (Some ''init'') 0, Proc_create (Some ''shell'') 1] ptable_boot = Some setup_procs"
    by code_simp
  then show "ptable_wf setup_procs" 
    using run_procs_wf [OF ptable_boot_wf, of "[Proc_init, Proc_create (Some ''init'') 0, Proc_create (Some ''shell'') 1]"]
    by (simp add: ptable_boot_def)
qed

lemma readme_length: "length readme_text = 120" by code_simp

text \<open>The five files after \<open>null_init\<close>.\<close>

definition dir_entry :: "string \<Rightarrow> u32 \<Rightarrow> u64 \<Rightarrow> fs_file" where
  "dir_entry nm inode now = zero_file\<lparr>f_name := nm, f_is_dir := True, f_permissions := 7, f_inode := inode,
     f_parent := (if nm = ''/'' then None else Some 0), f_created := now, f_modified := now\<rparr>"

definition file_entry :: "string \<Rightarrow> u8 list \<Rightarrow> u8 list \<Rightarrow> nat \<Rightarrow> u32 \<Rightarrow> u64 \<Rightarrow> fs_file" where
  "file_entry nm text blk dir inode now = zero_file\<lparr>f_name := nm, f_data := Some (text @ drop (length text) blk),
     f_size := length text, f_allocated := 512, f_position := length text, f_permissions := 3, f_inode := inode,
     f_parent := Some dir, f_created := now, f_modified := now\<rparr>"

definition boot_fs :: "u8 list \<Rightarrow> u64 \<Rightarrow> fs" where
  "boot_fs blk now =
     \<lparr>fs_files = [dir_entry ''/'' 1 now, dir_entry ''root'' 2 now, file_entry ''README'' readme_text blk 0 3 now,
        dir_entry ''dev'' 4 now, file_entry ''null'' [] blk 3 5 now] @ replicate 59 zero_file,
      fs_count = 5, fs_next_inode = 6, fs_free = replicate 5 False @ replicate 59 True, fs_cwd = Some 0\<rparr>"

lemma first_five:
  "(replicate 64 x)[0 := a, Suc 0 := b, Suc (Suc 0) := c, Suc (Suc (Suc 0)) := d, Suc (Suc (Suc (Suc 0))) := e] =
    [a, b, c, d, e] @ replicate 59 x"
  by (simp add: numeral_eq_Suc)

lemma mount_root_eq:
  assumes "alloc 512 = Some blk" "length blk = 512"
  shows "do { s \<leftarrow> mount_root alloc now; null_init alloc now s } = Some (boot_fs blk now)"
  using assms
  apply (simp add: mount_root_def fs_init_def fs_mkdir_def fs_create_def fs_create_with_perms_def fs_simps)
  apply (simp add: fs_open_def fs_simps)
  apply (simp add: print_root_fs_readme_def fs_write_def fs_simps readme_length fs_has_perm_def fs_write_at_def fs_resize_file_def copy_into_def)
  apply (simp add: fs_close_def fs_simps)
  apply (simp add: null_init_def fs_mkdir_def fs_chdir_def fs_create_with_perms_def fs_simps)
  apply (simp add: first_five boot_fs_def dir_entry_def file_entry_def zero_file_def readme_length numeral_3_eq_3)
  apply (simp add: numeral_eq_Suc)
  done

lemma boot_files:
  "fs_files (boot_fs blk now) ! 0 = dir_entry ''/'' 1 now" "fs_files (boot_fs blk now) ! Suc 0 = dir_entry ''root'' 2 now"
  "fs_files (boot_fs blk now) ! 2 = file_entry ''README'' readme_text blk 0 3 now"
  "fs_files (boot_fs blk now) ! 3 = dir_entry ''dev'' 4 now" "fs_files (boot_fs blk now) ! 4 = file_entry ''null'' [] blk 3 5 now"
  by (simp_all add: boot_fs_def nth_append numeral_2_eq_2)

lemma boot_fs_wf:
  assumes "length blk = 512"
  shows "fs_wf (boot_fs blk now)"
proof -
  have used: "used (boot_fs blk now) i \<longleftrightarrow> i < 5" for i
    by (auto simp: used_def boot_fs_def nth_append)
  have five: "i < 5 \<Longrightarrow> i = 0 \<or> i = Suc 0 \<or> i = 2 \<or> i = 3 \<or> i = 4" for i :: nat by linarith
  have dirs: "dir_at (boot_fs blk now) 0" "dir_at (boot_fs blk now) 3"
    by (simp_all add: dir_at_def used boot_files dir_entry_def)
  have ok: "file_ok (dir_entry nm n now)" "file_ok (file_entry ''README'' readme_text blk 0 3 now)"
    "file_ok (file_entry ''null'' [] blk 3 5 now)" for nm n
    using assms by (simp_all add: file_ok_def dir_entry_def file_entry_def zero_file_def readme_length)
  have parents: "\<exists>p. f_parent (fs_files (boot_fs blk now) ! i) = Some p \<and> dir_at (boot_fs blk now) p"
    if "i < 5" "i \<noteq> 0" for i
    using five [OF that(1)] that(2) dirs by (auto simp: boot_files dir_entry_def file_entry_def)
  have oks: "file_ok (fs_files (boot_fs blk now) ! i)" if "i < 5" for i
    using five [OF that] ok by (auto simp: boot_files)
  have "f_parent (fs_files (boot_fs blk now) ! 0) = None" by (simp add: boot_files dir_entry_def)
  moreover have "fs_cwd (boot_fs blk now) = Some 0" "length (fs_files (boot_fs blk now)) = 64"
    "length (fs_free (boot_fs blk now)) = 64" "fs_count (boot_fs blk now) = 5" by (simp_all add: boot_fs_def)
  ultimately show ?thesis using dirs(1) parents oks by (simp add: fs_wf_def used)
qed

section \<open>The kernel comes up\<close>

lemma boot_reaches_login:
  assumes "alloc_ok (m_heap m)" "alloc_full (m_heap m)" "m_region_ok m" "m_bitmap_ok m"
    and "kb_init kb_state0 (m_ports m) = Some (kb, rest)"
  shows "\<exists>k blk. boot m = Some (k, rest) \<and> m_heap m 512 = Some blk \<and>
    vga_inv (k_vga k) \<and> hw_cursor_on (k_vga k) \<and>
    fs_wf (k_fs k) \<and> k_fs k = boot_fs blk (m_now m) \<and>
    vmm_wf (k_vmm k) \<and> pmm_wf (k_pmm k) \<and> pmm_regions (k_pmm k) = [boot_region] \<and>
    ptable_wf (k_procs k) \<and> process_list (k_procs k) = [(100, 0, ''RUNNING'', ''init''), (101, 1, ''RUNNING'', ''shell'')] \<and>
    kb_inv (k_kb k) \<and> input_enabled (k_kb k) \<and> refcnt_read (k_refcnt k) = 1 \<and> k_srp k = None"
proof -
  obtain blk where blk: "m_heap m 512 = Some blk" "length blk = 512"
    using assms(1,2) unfolding alloc_ok_def alloc_full_def by fastforce
  obtain s where s: "mount_root (m_heap m) (m_now m) = Some s" "null_init (m_heap m) (m_now m) s = Some (boot_fs blk (m_now m))"
    using mount_root_eq [of "m_heap m" blk "m_now m"] blk by (auto split: bind_splits)
  have line: "\<exists>w. vga_puts l v = Some w \<and> vga_inv w" if "vga_inv v" for l v using puts_inv that by blast
  obtain v0 where v0: "run_ops vga_step ([VInit, VCursorOff, VClear, VColor 15 0] @ print_banner_and_hardware (m_date m)) vga0 = Some v0" "vga_inv v0"
    using ops_inv [OF vga0_inv, of "[VInit, VCursorOff, VClear, VColor 15 0] @ print_banner_and_hardware (m_date m)"]
    by (auto simp: print_banner_and_hardware_def good_formats)
  obtain ops hd where h: "setup_hdmi (m_hdmi m) \<lparr>hdmi_dev = Some (m_hdmi_garbage m), bus = [], printed = []\<rparr> = (ops, hd)" by fastforce
  have "\<forall>x \<in> set ops. vga_op_ok x"
    using h by (auto simp: setup_hdmi_def Let_def split: prod.splits if_splits)
  then obtain v1 where v1: "run_ops vga_step ops v0 = Some v1" "vga_inv v1" using ops_inv [OF v0(2)] by blast
  obtain v2 where v2: "run_ops vga_step print_device_and_memory_info v1 = Some v2" "vga_inv v2"
    using ops_inv [OF v1(2), of print_device_and_memory_info] by (auto simp: print_device_and_memory_info_def)
  obtain v3 c where v3: "early_cpu_init (m_features m) v2 (m_cpu m) = Some (v3, c)" "vga_inv v3"
    using early_cpu_init_ends [OF v2(2)] by blast
  obtain v4 where v4: "screen_puts ''Mounting root filesystem from RAM...'' v3 = Some v4" "vga_inv v4" using line v3(2) by blast
  obtain v5 where v5: "screen_puts ''vmm: virtual memory manager online'' v4 = Some v5" "vga_inv v5" using line v4(2) by blast
  obtain v6 where v6: "screen_puts ''pmm: physical memory manager online'' v5 = Some v6" "vga_inv v6" using line v5(2) by blast
  obtain v7 where v7: "screen_puts ''null: /dev/null ready'' v6 = Some v7" "vga_inv v7" using line v6(2) by blast
  obtain v8 where v8: "screen_puts ''Kernel initialization complete.'' v7 = Some v8" "vga_inv v8" using line v7(2) by blast
  obtain v9 where v9: "screen_puts ''Starting system services...'' v8 = Some v9" "vga_inv v9" using line v8(2) by blast
  obtain v10 where v10: "vga_puts (text_lines [''Launching init(8)'', []]) v9 = Some v10" "vga_inv v10" using line v9(2) by blast
  have kb: "kb_inv kb" using kb_step_inv [of kb_state0 KInit "m_ports m" kb rest] assms(5) by (simp add: kb_inv_def kb_state0_def)
  have pm: "pmm_wf \<lparr>pmm_regions = [boot_region], pmm_initialized = True\<rparr>"
    by (simp add: pmm_wf_def region_wf_def boot_region_def pmm_is_page_aligned_def)
  obtain i j n where d: "delay SHORT_DELAY = Some i" "delay MEDIUM_DELAY = Some j" "delay LONG_DELAY = Some n" using delays by blast
  let ?k = "\<lparr>k_vga = vga_enable_cursor v10, k_hdmi = hd, k_paging = paging_init 0 paging0, k_cpu = c, k_fs = boot_fs blk (m_now m),
    k_refcnt = refcnt_init \<lparr>r_refs = 0, r_traceidx = 0\<rparr>, k_srp = srp_init, k_vmm = vmm_init vmm_boot,
    k_pmm = \<lparr>pmm_regions = [boot_region], pmm_initialized = True\<rparr>, k_procs = setup_procs,
    k_kb = kb_set_boot_complete True (kb_enable_input True kb),
    k_cwd = 47 # replicate 255 0 @ m_behind_cwd m, k_seed = 12345, k_stdin = stdin0 [], k_ed = (Null, 0, 0, False)\<rparr>"
  have "boot m = Some (?k, rest)"
    by (simp only: boot_def Let_def d v0(1) v1(1) v2(1) v3(1) v4(1) v5(1) v6(1) v7(1) v8(1) v9(1) v10(1) s assms(5)
        setup_pmm_eq [OF assms(3,4)] alloc_before_init h Option.bind.simps prod.case)
  moreover have "vga_inv (vga_enable_cursor v10)" "hw_cursor_on (vga_enable_cursor v10)"
    using v10(2) by (simp_all add: vga_enable_cursor_def vga_inv_def)
  moreover have "kb_inv (kb_set_boot_complete True (kb_enable_input True kb))" "input_enabled (kb_set_boot_complete True (kb_enable_input True kb))"
    using kb by (simp_all add: kb_enable_input_def kb_set_boot_complete_def)
  ultimately show ?thesis
    using blk(1) boot_fs_wf [OF blk(2)] pm setup_procs_list vmm_init_wf
    by (intro exI [of _ ?k] exI [of _ blk]) (simp add: refcnt_read_def refcnt_init_def srp_init_def)
qed


section \<open>Properties\<close>

text \<open>A machine on which every answer is fine, and its keyboard controller.\<close>

definition demo_machine :: machine where
  "demo_machine = \<lparr>m_date = bytes ''Jun 20 2025'', m_hdmi = plain_hw, m_hdmi_garbage = the (hdmi_dev fresh_world),
     m_cpuid = Some (0x2, 0), m_features_garbage = [], m_cpu = \<lparr>cr0 = 1, cr4 = 0, apic_base = 0, fpu_reset = False\<rparr>,
     m_heap = zero_heap, m_now = 7, m_region_ok = True, m_bitmap_ok = True, m_ports = [0, 0, 1, 0xFA, 0, 1, 0xFA], m_behind_cwd = [0]\<rparr>"

lemma demo_keyboard: "\<exists>kb. kb_init kb_state0 (m_ports demo_machine) = Some (kb, [])"
proof -
  have "map_option snd (kb_init kb_state0 [0, 0, 1, 0xFA, 0, 1, 0xFA]) = Some []" by code_simp
  then show ?thesis by (auto simp: demo_machine_def)
qed

text \<open>C34.  The kernel comes up: if the heap and the keyboard controller answer, \<open>main\<close> reaches the login
  prompt on every machine, with the invariant of every component, \<open>README\<close> and the null device
  in place, all the memory above the first megabyte free, and the two processes.\<close>

theorem boot_starts:
  assumes "alloc_ok (m_heap m)" "alloc_full (m_heap m)" "m_region_ok m" "m_bitmap_ok m"
    and "kb_init kb_state0 (m_ports m) = Some (kb, rest)"
  shows "\<exists>k blk. boot m = Some (k, rest) \<and> m_heap m 512 = Some blk \<and>
    vga_inv (k_vga k) \<and> hw_cursor_on (k_vga k) \<and>
    fs_wf (k_fs k) \<and> k_fs k = boot_fs blk (m_now m) \<and>
    vmm_wf (k_vmm k) \<and> pmm_wf (k_pmm k) \<and> pmm_regions (k_pmm k) = [boot_region] \<and>
    ptable_wf (k_procs k) \<and> process_list (k_procs k) = [(100, 0, ''RUNNING'', ''init''), (101, 1, ''RUNNING'', ''shell'')] \<and>
    kb_inv (k_kb k) \<and> input_enabled (k_kb k) \<and> refcnt_read (k_refcnt k) = 1 \<and> k_srp k = None"
  using assms by (rule boot_reaches_login)

lemma boot_starts_witness:
  "\<exists>k blk. boot demo_machine = Some (k, []) \<and> fs_wf (k_fs k) \<and> k_fs k = boot_fs blk 7 \<and> vga_inv (k_vga k)"
proof -
  have m: "m_heap demo_machine = zero_heap" "m_region_ok demo_machine" "m_bitmap_ok demo_machine" "m_now demo_machine = 7"
    by (simp_all add: demo_machine_def)
  obtain kb where "kb_init kb_state0 (m_ports demo_machine) = Some (kb, [])" using demo_keyboard by blast
  from boot_starts [OF _ _ m(2,3) this] zero_heap_ok m show ?thesis by auto
qed

text \<open>Paging is never switched on: \<open>paging_init\<close> runs before \<open>pmm_init\<close>, so there is no page for the
  directory, although the screen says that paging is enabled; and mapping a page follows a null
  pointer.\<close>

theorem boot_paging_off:
  assumes "boot m = Some (k, rest)"
  shows "k_paging k = paging0 \<and> \<not> paging_on (k_paging k) \<and>
    (pmm_is_page_aligned v \<and> pmm_is_page_aligned p \<longrightarrow> paging_map_page v p flags page (k_paging k) = None)"
proof -
  from assms have "k_paging k = paging_init 0 paging0"
    unfolding boot_def Let_def alloc_before_init by (auto split: bind_splits prod.splits)
  then show ?thesis using paging_init_null(2) [of v p flags page] paging_init_null(1) by (simp add: paging0_def)
qed


lemma boot_paging_off_witness:
  "\<exists>k. boot demo_machine = Some (k, []) \<and> paging_map_page 0xC0000000 0x00400000 3 0x102000 (k_paging k) = None"
proof -
  obtain kb where kb: "kb_init kb_state0 (m_ports demo_machine) = Some (kb, [])" using demo_keyboard by blast
  have m: "alloc_ok (m_heap demo_machine)" "alloc_full (m_heap demo_machine)" "m_region_ok demo_machine" "m_bitmap_ok demo_machine"
    using zero_heap_ok by (simp_all add: demo_machine_def)
  obtain k where k: "boot demo_machine = Some (k, [])" using boot_reaches_login [OF m kb] by blast
  have "pmm_is_page_aligned 0xC0000000" "pmm_is_page_aligned 0x00400000" by (simp_all add: pmm_is_page_aligned_def)
  with boot_paging_off [OF k, of "0xC0000000" "0x00400000" 3 "0x102000"] k show ?thesis by blast
qed

text \<open>C35.  Nobody reaches the shell without the password: \<open>main\<close> returns from the shell only if one of the
  three attempts was right; if all three fail it halts the machine, and whatever the commands are,
  nothing but the screen has changed since the kernel came up.\<close>

theorem main_needs_login:
  assumes "length username = 32" "length password = 32" "boot m = Some (k, rest)" "vga_inv (k_vga k)"
  shows "(\<forall>r k'. unics_main commands heap cwd username password m input = Some (r, k') \<longrightarrow>
      (r = Returned 0 \<and> (\<exists>left. attempts_ok 3 input = Some (True, left))) \<or>
      (r = Halted \<and> (\<exists>left. attempts_ok 3 input = Some (False, left)) \<and> k' = k\<lparr>k_vga := k_vga k'\<rparr>)) \<and>
    (\<forall>left. attempts_ok 3 input = Some (False, left) \<longrightarrow>
      (\<exists>k'. unics_main commands heap cwd username password m input = Some (Halted, k')))"
proof (intro conjI allI impI)
  fix r k' assume run: "unics_main commands heap cwd username password m input = Some (r, k')"
  then obtain out ro where l: "login_prompt username password input = Some (out, ro)"
    by (auto simp: unics_main_def split: bind_splits)
  with login_prompt_result [OF assms(1,2), of input] obtain ok left where
    a: "attempts_ok 3 input = Some (ok, left)" "ro = (if ok then Some left else None)"
    by (auto simp: map_option_case split: option.splits)
  show "(r = Returned 0 \<and> (\<exists>left. attempts_ok 3 input = Some (True, left))) \<or>
    (r = Halted \<and> (\<exists>left. attempts_ok 3 input = Some (False, left)) \<and> k' = k\<lparr>k_vga := k_vga k'\<rparr>)"
    using assms(3) run l a by (cases ok) (auto simp: unics_main_def split: bind_splits prod.splits)
next
  fix left assume "attempts_ok 3 input = Some (False, left)"
  with login_prompt_result [OF assms(1,2), of input] obtain out where
    l: "login_prompt username password input = Some (out, None)" by auto
  obtain v where "run_ops vga_step out (k_vga k) = Some v"
    using ops_inv [OF assms(4)] login_showable [OF l] by (auto simp: showable_def)
  with assms(3) l show "\<exists>k'. unics_main commands heap cwd username password m input = Some (Halted, k')"
    by (simp add: unics_main_def)
qed

lemma main_needs_login_witness:
  "\<exists>k'. unics_main [] (\<lambda>_. None) (\<lambda>_. []) (replicate 32 1) (replicate 32 2) demo_machine [10, 27, 10] = Some (Halted, k')"
proof -
  obtain kb where kb: "kb_init kb_state0 (m_ports demo_machine) = Some (kb, [])" using demo_keyboard by blast
  have m: "alloc_ok (m_heap demo_machine)" "alloc_full (m_heap demo_machine)" "m_region_ok demo_machine" "m_bitmap_ok demo_machine"
    using zero_heap_ok by (simp_all add: demo_machine_def)
  obtain k where k: "boot demo_machine = Some (k, [])" "vga_inv (k_vga k)" using boot_reaches_login [OF m kb] by blast
  have "attempts_ok 3 [10, 27, 10] = Some (False, [])" by code_simp
  with main_needs_login [OF _ _ k, of "replicate 32 1" "replicate 32 2"] show ?thesis by simp
qed

end
