(* ===== verification/Calc.thy ===== *)
theory Calc
  imports Prelude Bits Cstring Strconv Stdio Scan Shell Keyboard Console Format Fstools
begin

text \<open>
  The commands that compute or repeat their arguments: \<open>factor\<close>, \<open>expr\<close>, \<open>bc\<close>, \<open>rand\<close>, \<open>echo\<close>, \<open>cowsay\<close>
  and \<open>yes\<close> of \<open>bin/\<close>.  \<open>argv\<close> is the list of the arguments, the name of the command first; the result
  is the exit status and what is shown.  C \<open>int\<close> and the 32-bit \<open>long\<close> wrap around.
\<close>

type_synonym exit_output = "(int \<times> u8 list) option"

text \<open>A message and the status to leave with.\<close>

definition answer :: "int \<Rightarrow> u8 list option \<Rightarrow> exit_output" where
  "answer status msg = map_option (Pair status) msg"

definition str_arg :: "u8 list \<Rightarrow> arg" where "str_arg s = Str (Some s)"

section \<open>factor\<close>

definition gap :: "bool \<Rightarrow> arg" where "gap printed = str_arg (if printed then [32] else [])"

text \<open>The loop that divides by a factor and prints it each time.\<close>

partial_function (option) divide_out ::
    "(bool \<Rightarrow> u8 list option) \<Rightarrow> int \<Rightarrow> bool \<Rightarrow> int \<Rightarrow> (u8 list \<times> bool \<times> int) option" where
  "divide_out show_factor i printed n =
     do { (q, r) \<leftarrow> div_int n i;
          if r = 0 then
            do { msg \<leftarrow> show_factor printed;
                 (out, printed, n) \<leftarrow> divide_out show_factor i True q;
                 Some (msg @ out, printed, n) }
          else Some ([], printed, n) }"

definition show_int :: "int \<Rightarrow> bool \<Rightarrow> u8 list option" where
  "show_int i printed = printf (bytes ''%s%d'') [gap printed, int_arg i]"

partial_function (option) odd_factors :: "int \<Rightarrow> bool \<Rightarrow> int \<Rightarrow> (u8 list \<times> bool \<times> int) option" where
  "odd_factors i printed n =
     (if wrap32 (i * i) \<le> n then
        do { (out, printed, n) \<leftarrow> divide_out (show_int i) i printed n;
             (outs, printed, n) \<leftarrow> odd_factors (wrap32 (i + 2)) printed n;
             Some (out @ outs, printed, n) }
      else Some ([], printed, n))"

definition factor_main :: "u8 list list \<Rightarrow> exit_output" where
  "factor_main argv =
     (if length argv < 2 then answer 1 (line ''Usage: factor <number>'' [])
      else
        case sscanf (argv ! 1) (bytes ''%d'') of
          (k, SInt n # _) \<Rightarrow>
            if k \<noteq> 1 then answer 1 (line ''Error: '%s' is not a valid number'' [str_arg (argv ! 1)])
            else
              do { (neg, n) \<leftarrow> (if n < 0 then do { msg \<leftarrow> line ''Negative number entered. Using absolute value.'' [];
                                             Some (msg, wrap32 (- n)) }
                                else Some ([], n));
                   if n \<le> 1 then answer 0 (map_option ((@) neg) (line ''No prime factors for %d'' [int_arg n]))
                   else
                     do { msg \<leftarrow> printf (bytes ''Prime factors of %d are: '') [int_arg n];
                          (twos, printed, n) \<leftarrow> divide_out (\<lambda>printed. printf (bytes ''%s2'') [gap printed]) 2 False n;
                          (odds, printed, n) \<leftarrow> odd_factors 3 printed n;
                          remaining \<leftarrow> (if n > 1 then show_int n printed else Some []);
                          Some (0, neg @ msg @ twos @ odds @ remaining @ [10]) } }
        | _ \<Rightarrow> answer 1 (line ''Error: '%s' is not a valid number'' [str_arg (argv ! 1)]))"

section \<open>expr\<close>

text \<open>The result and what is shown; the division of the least number by -1 faults.\<close>

definition calculate :: "int \<Rightarrow> int \<Rightarrow> u8 \<Rightarrow> exit_output" where
  "calculate num1 num2 operator =
     (if operator = ch CHR ''+'' then Some (wrap32 (num1 + num2), [])
      else if operator = ch CHR ''-'' then Some (wrap32 (num1 - num2), [])
      else if operator = ch CHR ''*'' then Some (wrap32 (num1 * num2), [])
      else if operator = ch CHR ''/'' then
        if num2 = 0 then answer 0 (line ''expr: division by zero'' [])
        else do { (q, r) \<leftarrow> div_int num1 num2; Some (q, []) }
      else answer 0 (line ''expr: invalid operator'' []))"

definition expr_main :: "u8 list list \<Rightarrow> exit_output" where
  "expr_main argv =
     (if length argv \<noteq> 4 then
        answer 1 (do { m \<leftarrow> line ''Usage: expr <num1> <operator> <num2>'' [];
                       ms \<leftarrow> line ''  Operators: +, -, *, / (integer division)'' []; Some (m @ ms) })
      else
        let (num1, rest) = strtol (argv ! 1) 10 in
        if rest \<noteq> [] \<or> num1 < - (2 ^ 31) \<or> num1 > 2 ^ 31 - 1
        then answer 1 (line ''expr: invalid number: %s'' [str_arg (argv ! 1)])
        else
          let (num2, rest) = strtol (argv ! 3) 10 in
          if rest \<noteq> [] \<or> num2 < - (2 ^ 31) \<or> num2 > 2 ^ 31 - 1
          then answer 1 (line ''expr: invalid number: %s'' [str_arg (argv ! 3)])
          else if length (argv ! 2) \<noteq> 1 \<or> hd (argv ! 2) \<notin> set (bytes ''+-*/'')
          then answer 1 (line ''expr: invalid operator: %s'' [str_arg (argv ! 2)])
          else
            do { (result, err) \<leftarrow> calculate num1 num2 (hd (argv ! 2));
                 answer 0 (map_option ((@) err) (line ''%d'' [int_arg result])) })"

section \<open>bc\<close>

text \<open>\<open>eval_expr\<close>: what is shown, and the result unless it returns -1.\<close>

fun eval_ops :: "int \<Rightarrow> u8 list list \<Rightarrow> (u8 list \<times> int option) option" where
  "eval_ops res (op # tok # toks) =
     (let val = atoi tok in
      if op = bytes ''+'' then eval_ops (wrap32 (res + val)) toks
      else if op = bytes ''-'' then eval_ops (wrap32 (res - val)) toks
      else if op = bytes ''*'' then eval_ops (wrap32 (res * val)) toks
      else if op = bytes ''/'' then
        if val = 0 then do { msg \<leftarrow> line ''bc: division by zero'' []; Some (msg, None) }
        else do { (q, r) \<leftarrow> div_int res val; eval_ops q toks }
      else do { msg \<leftarrow> line ''bc: unknown operator `%s`'' [str_arg op]; Some (msg, None) })"
| "eval_ops res _ = Some ([], Some res)"

definition eval_expr :: "u8 list list \<Rightarrow> (u8 list \<times> int option) option" where
  "eval_expr argv = (case argv of [] \<Rightarrow> Some ([], None) | tok # toks \<Rightarrow> eval_ops (atoi tok) toks)"

text \<open>The tokens of the line in \<open>expr\<close>, at most \<open>room\<close>; the delimiter \<open>" "\<close> lies behind the line.\<close>

fun bc_tokens :: "nat \<Rightarrow> (nat option \<times> mem) \<times> nat option \<Rightarrow> (mem \<times> nat list) option" where
  "bc_tokens room (st, None) = Some (snd st, [])"
| "bc_tokens 0 (st, Some p) = Some (snd st, [])"
| "bc_tokens (Suc room) (st, Some p) =
     do { next_token \<leftarrow> strtok None 256 st;
          (mem, ps) \<leftarrow> bc_tokens room next_token;
          Some (mem, p # ps) }"

text \<open>A line: what is shown and the buffer after it, unless the line is \<open>quit\<close>.\<close>

definition bc_line :: "u8 list \<Rightarrow> nat \<Rightarrow> (u8 list \<times> u8 list) option option" where
  "bc_line expr pos =
     do { expr \<leftarrow> wr expr pos 0;
          l \<leftarrow> string_at expr 0;
          if l = bytes ''quit'' then Some None
          else if l = [] then Some (Some (bytes ''> '', expr))
          else
            do { first_token \<leftarrow> strtok (Some 0) 256 (None, expr @ [32, 0]);
                 (mem, ps) \<leftarrow> bc_tokens 64 first_token;
                 tokens \<leftarrow> those (map (string_at mem) ps);
                 (err, res) \<leftarrow> eval_expr tokens;
                 msg \<leftarrow> (case res of Some result \<Rightarrow> line ''%d'' [int_arg result]
                                | None \<Rightarrow> line ''Error evaluating expression.'' []);
                 Some (Some (err @ msg @ bytes ''> '', take 256 mem)) } }"

function bc_loop :: "u8 list \<Rightarrow> nat \<Rightarrow> stdin \<Rightarrow> stdin option" where
  "bc_loop expr pos i =
     do { (c, i) \<leftarrow> getchar i;
          if c = EOF then Some i
          else
            let i = i\<lparr>screen := screen i @ putchar (word_of_int c)\<rparr> in
            if c = 10 then
              do { answer \<leftarrow> bc_line expr pos;
                   case answer of
                     None \<Rightarrow> Some i
                   | Some (msg, expr) \<Rightarrow> bc_loop expr 0 (i\<lparr>screen := screen i @ msg\<rparr>) }
            else if pos < 255 then do { expr \<leftarrow> wr expr pos (word_of_int c); bc_loop expr (pos + 1) i }
            else bc_loop expr pos i }"
  by pat_completeness auto
termination
  by (relation "measure (\<lambda>(_, _, i). input_left i)") (auto dest!: getchar_left simp: input_left_def)

declare bc_loop.simps [simp del]

text \<open>\<open>garbage\<close> is what the array of the line holds at first; the screen is part of the input state.\<close>

definition bc_main :: "u8 list \<Rightarrow> u8 list list \<Rightarrow> stdin \<Rightarrow> (int \<times> stdin) option" where
  "bc_main garbage argv i =
     (if length argv > 1 then
        do { (err, res) \<leftarrow> eval_expr (tl argv);
             case res of
               Some result \<Rightarrow> do { msg \<leftarrow> line ''%d'' [int_arg result]; Some (0, i\<lparr>screen := screen i @ err @ msg\<rparr>) }
             | None \<Rightarrow> Some (1, i\<lparr>screen := screen i @ err\<rparr>) }
      else
        do { msg \<leftarrow> line ''bc simple calculator. Type 'quit' or Ctrl-D to exit.'' [];
             i \<leftarrow> bc_loop garbage 0 (i\<lparr>screen := screen i @ msg @ bytes ''> ''\<rparr>);
             msg \<leftarrow> printf (10 # bytes ''Goodbye.'' @ [10]) [];
             Some (0, i\<lparr>screen := screen i @ msg\<rparr>) })"

section \<open>rand\<close>

definition rand_next :: "u32 \<Rightarrow> u32" where "rand_next seed = 1664525 * seed + 1013904223"

fun parse_loop :: "u32 \<Rightarrow> u8 list \<Rightarrow> u32 option" where
  "parse_loop result [] = Some result"
| "parse_loop result (c # str) =
     (if sint c < 48 \<or> sint c > 57 then None
      else if result > 0xFFFFFFFF div 10 then None
      else parse_loop (result * 10 + word_of_int (sint c - 48)) str)"

definition parse_uint32 :: "u8 list \<Rightarrow> u32 option" where "parse_uint32 str = parse_loop 0 str"

text \<open>The loop that throws numbers away, and the seed it leaves.\<close>

partial_function (option) draw :: "u32 \<Rightarrow> u32 \<Rightarrow> u32 option" where
  "draw max_allowed seed =
     (let random_number = rand_next seed in
      if random_number \<ge> max_allowed then draw max_allowed random_number else Some random_number)"

definition rand_main :: "u8 list list \<Rightarrow> u32 \<Rightarrow> (u32 \<times> int \<times> u8 list) option" where
  "rand_main argv seed =
     (if length argv = 1 then
        do { msg \<leftarrow> line ''%u'' [Num (rand_next seed)]; Some (rand_next seed, 0, msg) }
      else
        case parse_uint32 (argv ! 1) of
          None \<Rightarrow> do { msg \<leftarrow> line ''Error: Upper bound must be a positive integer.'' []; Some (seed, 1, msg) }
        | Some upper_bound \<Rightarrow>
            if upper_bound = 0 then
              do { msg \<leftarrow> line ''Error: Upper bound must be at least 1.'' []; Some (seed, 1, msg) }
            else
              let range = upper_bound + 1 in
              if range = 0 then None
              else
                do { random_number \<leftarrow> draw (0xFFFFFFFF div range * range) seed;
                     msg \<leftarrow> line ''%u'' [Num (random_number mod range)];
                     Some (random_number, 0, msg) })"

section \<open>echo, cowsay and yes\<close>

text \<open>The arguments with a blank between two of them.\<close>

fun show_args :: "u8 list list \<Rightarrow> u8 list option" where
  "show_args [] = Some []"
| "show_args (a # as) =
     do { msg \<leftarrow> printf (bytes ''%s'') [str_arg a];
          more \<leftarrow> show_args as;
          Some (msg @ (if as \<noteq> [] then [32] else []) @ more) }"

definition echo_main :: "u8 list list \<Rightarrow> exit_output" where
  "echo_main argv =
     (let skip_newline = (length argv > 1 \<and> argv ! 1 = bytes ''-n'');
          argv = (if skip_newline then tl argv else argv)
      in do { out \<leftarrow> show_args (tl argv);
              Some (0, out @ (if \<not> skip_newline then [10] else [])) })"

text \<open>The length of the message, which has 32 bits; None is the message that it is too long.\<close>

fun cow_length :: "nat \<Rightarrow> u8 list list \<Rightarrow> nat option" where
  "cow_length len [] = Some len"
| "cow_length len (a # as) =
     (if len > 2 ^ 32 - 1 - length a then None
      else
        let len = len + length a in
        if as \<noteq> [] then if len = 2 ^ 32 - 1 then None else cow_length (len + 1) as
        else cow_length len as)"

definition border :: "char \<Rightarrow> nat \<Rightarrow> u8 list" where
  "border c len = 32 # replicate ((len + 2) mod 2 ^ 32) (ch c) @ [10]"

definition cow :: "u8 list" where
  "cow = bytes ''        '' @ [92] @ bytes ''   ^__^'' @ [10] @ bytes ''         '' @ [92] @ bytes ''  (oo)'' @ [92] @ bytes ''_______'' @ [10] @
     bytes ''            (__)'' @ [92] @ bytes ''       )'' @ [92] @ bytes ''/'' @ [92] @ [10] @
     bytes ''                ||----w |'' @ [10] @ bytes ''                ||     ||'' @ [10]"

definition cowsay_main :: "u8 list list \<Rightarrow> exit_output" where
  "cowsay_main argv =
     (if length argv = 1 then answer 0 (line ''Usage: cowsay [message]'' [])
      else
        case cow_length 0 (tl argv) of
          None \<Rightarrow> answer 1 (line ''Error: message too long'' [])
        | Some len \<Rightarrow>
            do { msg \<leftarrow> show_args (tl argv);
                 Some (0, border CHR ''_'' len @ bytes ''< '' @ msg @ bytes '' >'' @ [10] @ border CHR ''-'' len @ cow) })"

fun yes_args :: "u8 list list \<Rightarrow> u8 list option" where
  "yes_args [] = Some []"
| "yes_args (a # as) =
     do { msg \<leftarrow> printf (bytes ''%s '') [str_arg a]; more \<leftarrow> yes_args as; Some (msg @ more) }"

text \<open>The loop ends with the key that \<open>kb_getchar\<close> waits for, or when the answers of the ports end.\<close>

function yes_loop :: "u8 list \<Rightarrow> kb_state \<Rightarrow> u8 list \<Rightarrow> (u8 list \<times> kb_state \<times> u8 list) option" where
  "yes_loop msg st ports =
     do { (escape, rest) \<leftarrow> kb_check_escape ports;
          if escape then do { (c, st, rest) \<leftarrow> kb_getchar st rest; Some (msg, st, rest) }
          else do { (out, st, rest) \<leftarrow> yes_loop msg st rest; Some (msg @ out, st, rest) } }"
  by pat_completeness auto
termination
  by (relation "measure (\<lambda>(_, _, ports). length ports)")
    (auto simp: kb_check_escape_def split: list.splits if_splits)

definition yes_main :: "u8 list list \<Rightarrow> kb_state \<Rightarrow> u8 list \<Rightarrow> (int \<times> u8 list \<times> kb_state \<times> u8 list) option" where
  "yes_main argv st ports =
     do { head \<leftarrow> line ''Press ESC to stop.'' [];
          msg \<leftarrow> (if length argv > 1 then map_option (\<lambda>m. m @ [10]) (yes_args (tl argv)) else line ''y'' []);
          (out, st, ports) \<leftarrow> yes_loop msg st ports;
          tail \<leftarrow> printf (10 # bytes ''Exiting yes.'' @ [10]) [];
          Some (0, head @ out @ tail, st, ports) }"

section \<open>factor\<close>

definition is_prime :: "int \<Rightarrow> bool" where
  "is_prime p \<longleftrightarrow> 1 < p \<and> list_all (\<lambda>d. \<not> d dvd p) [2..p - 1]"

fun spaced :: "bool \<Rightarrow> int list \<Rightarrow> u8 list" where
  "spaced printed [] = []"
| "spaced printed (p # ps) = (if printed then [32] else []) @ decimal (word_of_int p) @ spaced True ps"

lemma spaced_append: "spaced b (ps @ qs) = spaced b ps @ spaced (b \<or> ps \<noteq> []) qs"
  by (induction ps arbitrary: b) auto

lemma word_not_least: "1 \<le> i \<Longrightarrow> i < 2 ^ 31 \<Longrightarrow> word_of_int i \<noteq> (0x80000000 :: u32)"
proof
  assume i: "1 \<le> i" "i < 2 ^ 31" and w: "word_of_int i = (0x80000000 :: u32)"
  have "uint (word_of_int i :: u32) = i" using i by (simp add: uint_word_of_int)
  with w i show False by simp
qed

lemma show_int_text:
  assumes "1 \<le> i" "i < 2 ^ 31"
  shows "show_int i b = Some (spaced b [i])"
proof -
  have f: "bytes ''%s%d'' = [37, 115, 37, 100]" by code_simp
  have "text_of (bytes ''%s%d'') [gap b, int_arg i] = Some (spaced b [i])"
    using word_not_least [OF assms] by (simp add: f gap_def str_arg_def int_arg_def ch_def)
  then show ?thesis by (simp add: show_int_def printf_text)
qed

lemma show_two: "printf (bytes ''%s2'') [gap b] = Some (spaced b [2])"
proof -
  have f: "bytes ''%s2'' = [37, 115, 50]" "decimal 2 = [50]" by code_simp+
  have "text_of (bytes ''%s2'') [gap b] = Some (spaced b [2])"
    by (simp add: f gap_def str_arg_def ch_def)
  then show ?thesis by (rule printf_text)
qed

lemma div_int_pos:
  assumes "0 \<le> n" "n < 2 ^ 31" "1 < i"
  shows "div_int n i = Some (n div i, n mod i)"
proof -
  have "n sdiv i = n div i" "n smod i = n mod i" using assms by (simp_all add: smod_sdiv_nonneg)
  moreover have "n div i \<le> n" "0 \<le> n div i" using assms int_div_less_self [of n i] by (cases "n = 0"; simp add: pos_imp_zdiv_nonneg_iff)+
  ultimately show ?thesis using assms by (simp add: div_int_def int32_range_def)
qed

lemma divide_out_spec:
  assumes "1 < i" "1 \<le> n" "n < 2 ^ 31" and sf: "\<And>b. f b = Some (spaced b [i])"
  shows "\<exists>k m. divide_out f i b n = Some (spaced b (replicate k i), b \<or> 0 < k, m) \<and> n = i ^ k * m \<and> 1 \<le> m \<and> m \<le> n \<and> \<not> i dvd m"
  using assms(2,3)
proof (induction "nat n" arbitrary: n b rule: less_induct)
  case less
  show ?case
  proof (cases "i dvd n")
    case False
    then have "n mod i \<noteq> 0" by (simp add: dvd_eq_mod_eq_0)
    with less.prems assms(1) False show ?thesis
      by (subst divide_out.simps) (auto simp: div_int_pos intro!: exI [of _ "0 :: nat"])
  next
    case True
    then obtain q where q: "n = i * q" by blast
    with less.prems assms(1) have "1 \<le> q" by (smt (verit) mult_nonneg_nonpos)
    moreover have "q < n" using q assms(1) \<open>1 \<le> q\<close> by (simp add: mult_strict_right_mono [of 1 i q, simplified])
    ultimately obtain k m where IH: "divide_out f i True q = Some (spaced True (replicate k i), True, m)" "q = i ^ k * m"
      "1 \<le> m" "m \<le> q" "\<not> i dvd m"
      using less.hyps [of q True] less.prems by auto
    have "divide_out f i b n = Some (spaced b (replicate (Suc k) i), True, m)"
      using less.prems assms(1) q IH(1) sf by (subst divide_out.simps) (simp add: div_int_pos)
    moreover have "n = i ^ Suc k * m" using q IH(2) by simp
    ultimately show ?thesis using IH(3,5) order_trans [OF IH(4) less_imp_le [OF \<open>q < n\<close>]] by (intro exI [of _ "Suc k"] exI [of _ m]) simp
  qed
qed

definition no_factor_below :: "int \<Rightarrow> int \<Rightarrow> bool" where
  "no_factor_below i n \<longleftrightarrow> (\<forall>d. 2 \<le> d \<longrightarrow> d < i \<longrightarrow> \<not> d dvd n)"

lemma small_prime:
  assumes "no_factor_below i n" "n < i * i" "1 < n" "2 \<le> i"
  shows "is_prime n" "i \<le> n"
proof -
  have "\<not> d dvd n" if "2 \<le> d" "d < n" for d
  proof
    assume "d dvd n"
    then obtain e where e: "n = d * e" by blast
    have "e \<ge> 2" using that e assms(3) by (smt (verit) mult_le_cancel_left1 mult_nonneg_nonpos mult_cancel_left1)
    moreover have "e dvd n" using e by simp
    ultimately have "i \<le> d" "i \<le> e" using that assms(1) \<open>d dvd n\<close> unfolding no_factor_below_def by force+
    then have "i * i \<le> d * e" using assms(4) by (intro mult_mono) auto
    with e assms(2) show False by simp
  qed
  then show "is_prime n" using assms(3) by (auto simp: is_prime_def list_all_iff)
  show "i \<le> n"
  proof (rule ccontr)
    assume "\<not> i \<le> n"
    with assms(1) [unfolded no_factor_below_def, rule_format, of n] assms(3) show False by simp
  qed
qed

lemma factor_prime:
  assumes "no_factor_below i n" "i dvd n" "2 \<le> i"
  shows "is_prime i"
proof -
  have "\<not> d dvd i" if "2 \<le> d" "d < i" for d
  proof
    assume "d dvd i"
    with assms(2) have "d dvd n" by (rule dvd_trans [rotated])
    with that assms(1) show False by (auto simp: no_factor_below_def)
  qed
  with assms(3) show ?thesis by (auto simp: is_prime_def list_all_iff)
qed

lemma odd_factors_spec:
  assumes "odd i" "3 \<le> i" "i \<le> 46339" "odd n" "1 \<le> n" "n < 46339 * 46339" "no_factor_below i n"
  shows "\<exists>ps m. odd_factors i b n = Some (spaced b ps, b \<or> ps \<noteq> [], m) \<and> n = prod_list ps * m \<and> sorted ps \<and>
    list_all is_prime ps \<and> (\<forall>p \<in> set ps. i \<le> p) \<and> (m = 1 \<or> is_prime m \<and> i \<le> m \<and> (\<forall>p \<in> set ps. p \<le> m))"
  using assms
proof (induction "nat (46341 - i)" arbitrary: i b n rule: less_induct)
  case less
  have sq: "i * i \<le> 46339 * 46339" "0 \<le> i * i" using less.prems by (intro mult_mono) auto
  then have "i * i \<le> 2147302921" "0 \<le> i * i" by simp_all
  then have "-2147483648 \<le> i * i" "i * i < 2147483648" by linarith+
  then have w: "wrap32 (i * i) = i * i" by (intro wrap32_id) (simp add: int32_range_def)
  show ?case
  proof (cases "i * i \<le> n")
    case False
    with w have "odd_factors i b n = Some (spaced b [], b \<or> [] \<noteq> ([] :: int list), n)" by (subst odd_factors.simps) simp
    moreover have "n = 1 \<or> is_prime n \<and> i \<le> n" using small_prime [of i n] False less.prems by force
    ultimately show ?thesis using less.prems(5) by (intro exI [of _ "[]"] exI [of _ n]) auto
  next
    case True
    have i: "i < 46339"
    proof (rule ccontr)
      assume "\<not> i < 46339"
      then have "46339 * 46339 \<le> i * i" by (intro mult_mono) auto
      with True less.prems(6) show False by simp
    qed
    with less.prems(1) have "i \<noteq> 46338" by auto
    with i have i2: "i + 2 \<le> 46339" by simp
    have n: "n < 2 ^ 31" using less.prems(6) by simp
    obtain k m where k: "divide_out (show_int i) i b n = Some (spaced b (replicate k i), b \<or> 0 < k, m)" "n = i ^ k * m"
      "1 \<le> m" "m \<le> n" "\<not> i dvd m"
      using divide_out_spec [of i n "show_int i" b] show_int_text [of i] less.prems i n by auto
    have "odd m" using k(2) less.prems(4) by simp
    moreover have nf: "no_factor_below (i + 2) m"
      unfolding no_factor_below_def
    proof (intro allI impI notI)
      fix d assume d: "2 \<le> d" "d < i + 2" "d dvd m"
      then have "d dvd n" using k(2) by simp
      with d less.prems(7) have "d = i \<or> d = i + 1" unfolding no_factor_below_def by force
      with d(3) k(5) have "d = i + 1" by auto
      with less.prems(1) have "even d" by simp
      with d(3) \<open>odd m\<close> show False by (meson dvd_trans)
    qed
    ultimately obtain ps m' where IH: "odd_factors (i + 2) (b \<or> 0 < k) m = Some (spaced (b \<or> 0 < k) ps, b \<or> 0 < k \<or> ps \<noteq> [], m')"
      "m = prod_list ps * m'" "sorted ps" "list_all is_prime ps" "\<forall>p \<in> set ps. i + 2 \<le> p"
      "m' = 1 \<or> is_prime m' \<and> i + 2 \<le> m' \<and> (\<forall>p \<in> set ps. p \<le> m')"
      using less.hyps [of "i + 2" m "b \<or> 0 < k"] less.prems i2 k(3,4) by auto
    have "wrap32 (i + 2) = i + 2" using i less.prems by (intro wrap32_id) (auto simp: int32_range_def)
    then have "odd_factors i b n = Some (spaced b (replicate k i @ ps), b \<or> replicate k i @ ps \<noteq> [], m')"
      using True w k(1) IH(1) by (subst odd_factors.simps) (auto simp: spaced_append)
    moreover have "n = prod_list (replicate k i @ ps) * m'" using k(2) IH(2) by simp
    moreover have "sorted (replicate k i @ ps)" using IH(3,5) by (auto simp: sorted_append)
    moreover have "is_prime i" if "0 < k"
      using that k(2) less.prems by (intro factor_prime [of i n]) (auto simp: gr0_conv_Suc)
    then have "list_all is_prime (replicate k i @ ps)" using IH(4) by (auto simp: list_all_iff)
    moreover have "\<forall>p \<in> set (replicate k i @ ps). i \<le> p" using IH(5) by force
    moreover have "m' = 1 \<or> is_prime m' \<and> i \<le> m' \<and> (\<forall>p \<in> set (replicate k i @ ps). p \<le> m')" using IH(6) by auto
    ultimately show ?thesis by blast
  qed
qed

lemma text_of_plain_append:
  "list_all (\<lambda>c. c \<noteq> ch CHR ''%'') s \<Longrightarrow> text_of (s @ p) args = map_option ((@) s) (text_of p args)"
proof (induction s)
  case (Cons c s)
  then show ?case by (cases "s @ p") (auto simp: option.map_comp comp_def)
qed (cases "text_of p args"; simp)

lemma factors_format:
  "bytes ''Prime factors of %d are: '' = bytes ''Prime factors of '' @ [37, 100] @ bytes '' are: ''"
  "list_all (\<lambda>c. c \<noteq> ch CHR ''%'') (bytes ''Prime factors of '')" "text_of (bytes '' are: '') [] = Some (bytes '' are: '')"
  by code_simp+

text \<open>C37.  (functional) Asked for a number below 46339 squared, \<open>factor\<close> prints its prime factors in ascending
  order, each as often as it divides the number.\<close>

theorem factor_prints_primes:
  assumes "2 \<le> length argv" "sscanf (argv ! 1) (bytes ''%d'') = (1, [SInt n])" "2 \<le> n" "n < 46339 * 46339"
  shows "\<exists>ps. factor_main argv =
      Some (0, bytes ''Prime factors of '' @ decimal (word_of_int n) @ bytes '' are: '' @ spaced False ps @ [10]) \<and>
    prod_list ps = n \<and> sorted ps \<and> list_all is_prime ps"
proof -
  have n: "n < 2 ^ 31" using assms(4) by simp
  obtain k m where k: "divide_out (\<lambda>printed. printf (bytes ''%s2'') [gap printed]) 2 False n =
      Some (spaced False (replicate k 2), 0 < k, m)" "n = 2 ^ k * m" "1 \<le> m" "m \<le> n" "odd m"
    using divide_out_spec [of 2 n "\<lambda>printed. printf (bytes ''%s2'') [gap printed]" False] show_two assms(3) n by auto
  have "no_factor_below 3 m" using k(5) by (auto simp: no_factor_below_def dest: order_antisym)
  then obtain ps r where r: "odd_factors 3 (0 < k) m = Some (spaced (0 < k) ps, 0 < k \<or> ps \<noteq> [], r)" "m = prod_list ps * r"
    "sorted ps" "list_all is_prime ps" "\<forall>p \<in> set ps. 3 \<le> p" "r = 1 \<or> is_prime r \<and> 3 \<le> r \<and> (\<forall>p \<in> set ps. p \<le> r)"
    using odd_factors_spec [of 3 m "0 < k"] k assms(4) by auto
  have "r dvd n" using k(2) r(2) by simp
  then have rn: "r < 2 ^ 31" using n assms(3) by (smt (verit) zdvd_imp_le)
  let ?t = "if 1 < r then [r] else []"
  have rem: "(if r > 1 then show_int r b else Some []) = Some (spaced b ?t)" for b
    using show_int_text [of r] rn by simp
  have msg: "printf (bytes ''Prime factors of %d are: '') [int_arg n] =
      Some (bytes ''Prime factors of '' @ decimal (word_of_int n) @ bytes '' are: '')"
    using word_not_least [of n] assms(3) n unfolding factors_format(1)
    by (intro printf_text) (simp add: text_of_plain_append [OF factors_format(2)] factors_format(3) int_arg_def ch_def)
  have "factor_main argv = Some (0, bytes ''Prime factors of '' @ decimal (word_of_int n) @ bytes '' are: '' @
      spaced False (replicate k 2 @ ps @ ?t) @ [10])"
    using assms(1,2,3) k(1) r(1) rem msg by (simp add: factor_main_def spaced_append)
  moreover have "prod_list (replicate k 2 @ ps @ ?t) = n" using k(2) r(2,6) by (auto simp: is_prime_def)
  moreover have "sorted (replicate k 2 @ ps @ ?t)" using r(3,5,6) by (auto simp: sorted_append)
  moreover have "is_prime 2" by (simp add: is_prime_def)
  then have "list_all is_prime (replicate k 2 @ ps @ ?t)" using r(4,6) by (auto simp: list_all_iff)
  ultimately show ?thesis by blast
qed

theorem factor_prints_primes_witness:
  "\<exists>ps. factor_main [bytes ''factor'', bytes ''360''] =
      Some (0, bytes ''Prime factors of '' @ decimal 360 @ bytes '' are: '' @ spaced False ps @ [10]) \<and>
    prod_list ps = 360 \<and> sorted ps \<and> list_all is_prime ps"
proof -
  have "sscanf (bytes ''360'') (bytes ''%d'') = (1, [SInt 360])" by code_simp
  then show ?thesis using factor_prints_primes [of "[bytes ''factor'', bytes ''360'']" 360] by simp
qed

section \<open>rand\<close>

text \<open>The generator is affine, and 31 squarings compute its iterate 2 to the 31.\<close>

lemma affine_twice:
  fixes f :: "u32 \<Rightarrow> u32"
  assumes "\<And>x. (f ^^ n) x = a * x + c"
  shows "(f ^^ (2 * n)) x = (a * a) * x + (a * c + c)"
proof -
  have "(f ^^ (2 * n)) x = (f ^^ n) ((f ^^ n) x)" by (simp only: mult_2 funpow_add comp_apply)
  then show ?thesis by (simp only: assms) (simp add: algebra_simps)
qed

lemma affine_doublings:
  fixes f :: "u32 \<Rightarrow> u32"
  assumes "\<And>x. f x = a * x + c"
  shows "(f ^^ (2 ^ k)) x = fst (((\<lambda>(a, c). (a * a, a * c + c)) ^^ k) (a, c)) * x + snd (((\<lambda>(a, c). (a * a, a * c + c)) ^^ k) (a, c))"
proof (induction k arbitrary: x)
  case (Suc k)
  from affine_twice [OF Suc] show ?case by (simp add: case_prod_beta)
qed (simp add: assms)

lemma half_period: "(rand_next ^^ (2 ^ 31)) x = x + 0x80000000"
proof -
  have "((\<lambda>(a, c). (a * a, a * c + c)) ^^ 31) (1664525 :: u32, 1013904223) = (1, 0x80000000)"
    by code_simp
  then show ?thesis using affine_doublings [of rand_next 1664525 1013904223 31 x] by (simp add: rand_next_def)
qed

text \<open>So one of two numbers that are half a period apart is small.\<close>

lemma small_comes: "\<exists>k. (rand_next ^^ Suc k) seed < 0x80000000"
proof (cases "rand_next seed < 0x80000000")
  case True
  then show ?thesis by (intro exI [of _ 0]) simp
next
  case False
  then have "rand_next seed + 0x80000000 < 0x80000000"
    using u32_lt [of "rand_next seed"]
    by (simp add: word_less_nat_alt unat_word_ariths le_mod_geq [of "2 ^ 32" "unat (rand_next seed) + 2 ^ 31", simplified])
  moreover have "(rand_next ^^ Suc (2 ^ 31)) seed = rand_next seed + 0x80000000"
    by (simp only: funpow_Suc_right comp_apply half_period)
  ultimately show ?thesis by metis
qed

lemma draw_ends: "(rand_next ^^ Suc k) seed < m \<Longrightarrow> \<exists>r. draw m seed = Some r \<and> r < m"
proof (induction k arbitrary: seed)
  case 0
  then show ?case by (subst draw.simps) (auto simp: Let_def)
next
  case (Suc k)
  then have "(rand_next ^^ Suc k) (rand_next seed) < m" by (simp add: funpow_swap1)
  from Suc.IH [OF this] show ?case by (subst draw.simps) (auto simp: Let_def)
qed

lemma max_allowed_large:
  assumes "rg \<noteq> (0 :: u32)"
  shows "0x80000000 \<le> 0xFFFFFFFF div rg * rg"
proof -
  let ?r = "unat rg"
  have r: "0 < ?r" "?r < 2 ^ 32" using assms unsigned_less [of rg] by (simp_all add: unat_gt_0)
  have "4294967295 div ?r < 4294967296" by (rule le_less_trans [OF div_le_dividend]) simp
  moreover have "4294967295 div ?r * ?r < 4294967296" by (rule le_less_trans [OF div_times_less_eq_dividend]) simp
  ultimately have u: "unat (0xFFFFFFFF div rg * rg) = (2 ^ 32 - 1) div ?r * ?r"
    by (simp add: unat_word_ariths unat_div)
  have "2 ^ 31 \<le> (2 ^ 32 - 1) div ?r * (?r :: nat)"
  proof (cases "2 ^ 31 < ?r")
    case True
    then have "(2 ^ 32 - 1) div ?r = (1 :: nat)" using r by (intro div_nat_eqI) simp_all
    with True show ?thesis by simp
  next
    case False
    have "4294967295 mod ?r < ?r" using r by simp
    moreover have "4294967295 div ?r * ?r + 4294967295 mod ?r = 4294967295" by (rule div_mult_mod_eq)
    moreover have "?r \<le> 2147483648" using False by simp
    ultimately have "2147483648 \<le> 4294967295 div ?r * ?r" by linarith
    then show ?thesis by simp
  qed
  with u show ?thesis by (simp add: word_le_nat_alt)
qed

text \<open>C38.  (termination) For every seed and every bound that fits, \<open>rand\<close> finds a number after finitely many steps
  of the generator, and the number is not above the bound.\<close>

theorem rand_returns:
  assumes "2 \<le> length argv" "parse_uint32 (argv ! 1) = Some upper_bound" "0 < upper_bound" "upper_bound \<noteq> 0xFFFFFFFF"
  shows "\<exists>seed' r msg. rand_main argv seed = Some (seed', 0, msg) \<and> line ''%u'' [Num r] = Some msg \<and> r \<le> upper_bound"
proof -
  have range: "upper_bound + 1 \<noteq> 0" using assms(4) by (auto simp: add_eq_0_iff2)
  let ?m = "0xFFFFFFFF div (upper_bound + 1) * (upper_bound + 1)"
  obtain k where "(rand_next ^^ Suc k) seed < 0x80000000" using small_comes by blast
  then have "(rand_next ^^ Suc k) seed < ?m" using max_allowed_large [OF range] by (rule less_le_trans)
  then obtain r where r: "draw ?m seed = Some r" using draw_ends by blast
  have "fmt_kinds (message_of ''%u'') = Some [KNum]" by code_simp
  then obtain msg where msg: "line ''%u'' [Num (r mod (upper_bound + 1))] = Some msg"
    using vprintf_fits [of "message_of ''%u''" "[KNum]" "[Num (r mod (upper_bound + 1))]"] by (auto simp: line_def printf_def)
  have "r mod (upper_bound + 1) < upper_bound + 1" using range by (simp add: word_mod_less_divisor word_gt_0)
  then have "r mod (upper_bound + 1) \<le> upper_bound"
    using unatSuc [of upper_bound] range by (simp add: word_less_nat_alt word_le_nat_alt add.commute)
  with assms(1-3) range r msg show ?thesis by (auto simp: rand_main_def Let_def)
qed

theorem rand_returns_witness:
  "\<exists>seed' r msg. rand_main [bytes ''rand'', bytes ''6''] 12345 = Some (seed', 0, msg) \<and> line ''%u'' [Num r] = Some msg \<and> r \<le> 6"
proof -
  have "parse_uint32 (bytes ''6'') = Some 6" by code_simp
  then show ?thesis using rand_returns [of "[bytes ''rand'', bytes ''6'']" 6 12345] by simp
qed

text \<open>The largest bound makes the range zero, and the check against overflow lets numbers wrap around.\<close>

lemma rand_largest_faults: "rand_main [bytes ''rand'', bytes ''4294967295''] seed = None"
proof -
  have "parse_uint32 (bytes ''4294967295'') = Some 0xFFFFFFFF" by code_simp
  then show ?thesis by (simp add: rand_main_def)
qed

lemma parse_wraps: "parse_uint32 (bytes ''4294967299'') = Some 3"
  by code_simp

section \<open>expr and bc\<close>

text \<open>A division by zero is reported, and its result, zero, is printed with the status of success; a number
  that does not fit wraps around, and the least number divided by -1 faults.\<close>

lemma expr_examples:
  "expr_main (map bytes [''expr'', ''7'', ''*'', ''6'']) = Some (0, bytes ''42'' @ [10])"
  "expr_main (map bytes [''expr'', ''1'', ''/'', ''0'']) = Some (0, bytes ''expr: division by zero'' @ [10] @ bytes ''0'' @ [10])"
  "expr_main (map bytes [''expr'', ''4294967297'', ''+'', ''1'']) = Some (0, bytes ''2'' @ [10])"
  "expr_main (map bytes [''expr'', ''-2147483648'', ''/'', ''-1'']) = None"
  by code_simp+

end
