(* ===== verification/Session.thy ===== *)
theory Session
  imports Prelude Vga Shell Shellrun
begin

text \<open>
  What is typed at the shell, line by line: a typed line runs the command that its words name, and a
  typed sequence of commands acts on the rest of the system as the commands do one after the other.
\<close>

section \<open>Typed lines\<close>

text \<open>Arguments as they are typed, and the lines for which the editor does nothing but collect.\<close>

fun unwords :: "u8 list list \<Rightarrow> u8 list" where
  "unwords [] = []"
| "unwords (a # as) = a @ (if as \<noteq> [] then 32 # unwords as else [])"

definition printable_line :: "u8 list \<Rightarrow> bool" where
  "printable_line l \<longleftrightarrow> list_all (\<lambda>c. 32 \<le> c \<and> c \<le> 126) l \<and> length l < SHELL_MAX_INPUT_LENGTH"

definition plain_word :: "u8 list \<Rightarrow> bool" where
  "plain_word a \<longleftrightarrow> a \<noteq> [] \<and> list_all (\<lambda>c. 32 < c \<and> c \<le> 126) a"

definition typable :: "u8 list list \<Rightarrow> bool" where
  "typable args \<longleftrightarrow> args \<noteq> [] \<and> list_all plain_word args \<and> length args < SHELL_MAX_ARGS \<and>
     length (unwords args) < SHELL_MAX_INPUT_LENGTH"

lemma plain_not_blank: "plain_word a \<Longrightarrow> c \<in> set a \<Longrightarrow> \<not> blank_char c"
  by (auto simp: plain_word_def list_all_iff blank_char_def)

lemma words_unwords: "list_all plain_word args \<Longrightarrow> words (unwords args) = args"
proof (induction args)
  case (Cons a as)
  then have pw: "plain_word a" and p: "list_all plain_word as" by simp_all
  then have ne: "a \<noteq> []" and nb: "\<forall>c \<in> set a. \<not> blank_char c"
    using plain_not_blank [of a] by (simp_all add: plain_word_def)
  let ?s = "unwords (a # as)"
  have drop: "dropWhile blank_char ?s = ?s" using ne nb by (cases a) auto
  have split: "takeWhile (\<lambda>c. \<not> blank_char c) ?s = a"
    "dropWhile (\<lambda>c. \<not> blank_char c) ?s = (if as \<noteq> [] then 32 # unwords as else [])"
    using nb by (auto simp: blank_char_def)
  have "words ?s = a # words (dropWhile (\<lambda>c. \<not> blank_char c) ?s)"
    using ne split(1) by (subst words.simps) (simp add: drop del: unwords.simps, simp)
  also have "words (dropWhile (\<lambda>c. \<not> blank_char c) ?s) = as"
    unfolding split(2) using Cons.IH [OF p] by (simp add: words_blank blank_char_def)
  finally show ?case .
qed simp

lemma unwords_printable: "list_all plain_word args \<Longrightarrow> list_all (\<lambda>c. 32 \<le> c \<and> c \<le> 126) (unwords args)"
  by (induction args) (auto simp: plain_word_def list_all_iff word_less_def word_le_def)

lemma typable_line: "typable args \<Longrightarrow> printable_line (unwords args)"
  by (simp add: typable_def printable_line_def unwords_printable)

lemma typable_ne: "typable args \<Longrightarrow> unwords args \<noteq> []"
  by (cases args) (auto simp: typable_def plain_word_def)

section \<open>What the editor shows\<close>

lemma put_range_ok: "put_range i j b = Some out \<Longrightarrow> x \<in> set out \<Longrightarrow> vga_op_ok x"
  by (auto simp: put_range_def split: if_splits)

lemma navigate_ok: "shell_navigate_history d ctx = Some (ctx', out) \<Longrightarrow> \<forall>x \<in> set out. vga_op_ok x"
  by (auto simp: shell_navigate_history_def backspaces_def spaces_def Let_def split: if_splits bind_splits)

lemma move_ok:
  "move_left ctx = Some (ctx', out) \<Longrightarrow> \<forall>x \<in> set out. vga_op_ok x"
  "move_right ctx = Some (ctx', out) \<Longrightarrow> \<forall>x \<in> set out. vga_op_ok x"
  by (auto simp: move_left_def move_right_def split: if_splits bind_splits)

lemma escape_ok: "escape a b ctx = Some (ctx', out) \<Longrightarrow> \<forall>x \<in> set out. vga_op_ok x"
  by (auto simp: escape_def dest: navigate_ok move_ok split: if_splits)

lemma edit_ok:
  "insert_char c ctx = Some (ctx', out) \<Longrightarrow> \<forall>x \<in> set out. vga_op_ok x"
  "erase_char ctx = Some (ctx', out) \<Longrightarrow> \<forall>x \<in> set out. vga_op_ok x"
  by (auto simp: insert_char_def erase_char_def backspaces_def Let_def dest: put_range_ok split: bind_splits)

lemma shell_key_ok:
  assumes "shell_key c input ctx = Some (e, ctx', out, rest)"
  shows "\<forall>x \<in> set out. vga_op_ok x"
  using assms edit_ok escape_ok
  by (auto simp: shell_key_def Let_def split: if_splits list.splits)

lemma line_loop_ok: "line_loop input ctx = Some (e, ctx', out, rest) \<Longrightarrow> \<forall>x \<in> set out. vga_op_ok x"
proof (induction input ctx arbitrary: out rule: line_loop.induct)
  case (2 c i ctx)
  obtain e' u o' i' where k: "shell_key c i ctx = Some (e', u, o', i')"
    using "2.prems" by (subst (asm) line_loop.simps(2)) (auto split: bind_splits)
  show ?case
  proof (cases "e' = More")
    case True
    then obtain o2 where "line_loop i' u = Some (e, ctx', o2, rest)" "out = o' @ o2"
      using "2.prems" k by (subst (asm) line_loop.simps(2)) (auto split: bind_splits)
    with "2.IH" [OF k refl refl refl True] shell_key_ok [OF k] show ?thesis by auto
  next
    case False
    then show ?thesis using "2.prems" k shell_key_ok [OF k] by (subst (asm) line_loop.simps(2)) auto
  qed
qed simp

lemma prompt_ok: "\<forall>x \<in> set (shell_print_prompt cwd ctx). vga_op_ok x"
  by (auto simp: shell_print_prompt_def)

section \<open>A line runs a command\<close>

lemma typed_edits: "length l + length s < SHELL_MAX_INPUT_LENGTH \<Longrightarrow> fold edit_line (map Type s) (l, []) = (l @ s, [])"
  by (induction s arbitrary: l) auto

lemma typed_keys: "concat (map edit_keys (map Type s)) = s"
  by (induction s) auto

lemma reads_line:
  assumes "shell_idle ctx" "printable_line l"
  shows "\<exists>u ctx' out. reset_line ctx = Some u \<and> line_loop (l @ 10 # rest) u = Some (LineEnd, ctx', out, rest) \<and>
    shell_inv ctx' \<and> zipper ctx' = (l, []) \<and> running ctx' = running ctx \<and> history ctx' = history ctx"
proof -
  obtain u where u: "reset_line ctx = Some u" "shell_inv u" "zipper u = ([], [])" "history u = history ctx"
    "running u = running ctx" using reset_line_inv [OF assms(1)] by blast
  have "list_all good_edit (map Type l)" using assms(2) by (auto simp: printable_line_def list_all_iff)
  from line_loop_edits [OF u(2) this, of rest] obtain ctx' out where
    l: "line_loop (l @ 10 # rest) u = Some (LineEnd, ctx', out, rest)" "shell_inv ctx'"
      "zipper ctx' = fold edit_line (map Type l) ([], [])" "history ctx' = history u" "running ctx' = running u"
    unfolding typed_keys u(3) by blast
  moreover have "zipper ctx' = (l, [])" using l(3) typed_edits [of "[]" l] assms(2) by (simp add: printable_line_def)
  ultimately show ?thesis using u by auto
qed

context shell_env begin

text \<open>The words of a typed line are executed, with the keys behind the line as the input.\<close>

lemma round_executes:
  assumes idle: "shell_idle ctx" and line: "printable_line l" and w: "words l \<noteq> []"
  shows "\<exists>pre u. shell_idle u \<and> running u = running ctx \<and> (\<forall>x \<in> set pre. vga_op_ok x) \<and>
    shell_round commands alloc cwd ctx (l @ 10 # rest) k =
      do { (status, out, ctx', input', k') \<leftarrow> shell_execute commands (take (SHELL_MAX_ARGS - 1) (words l)) u rest k;
           Some (pre @ out, ctx'\<lparr>last_exit_status := status\<rparr>, input', k') }"
proof -
  obtain c0 c1 o1 where r: "reset_line ctx = Some c0" "line_loop (l @ 10 # rest) c0 = Some (LineEnd, c1, o1, rest)"
    "shell_inv c1" "zipper c1 = (l, [])" "running c1 = running ctx" using reads_line [OF idle line] by blast
  have "l @ [] \<noteq> []" using w by auto
  from finish_line_runs [OF r(3,4) this, of rest k] obtain h b argv where
    f: "shell_idle (h\<lparr>input_buffer := b\<rparr>)" "running h = running c1"
      "arguments b argv = Some (take (SHELL_MAX_ARGS - 1) (words l))"
      "finish_line commands alloc c1 rest k = run_args commands argv (h\<lparr>input_buffer := b\<rparr>) rest k" by auto
  have "argv \<noteq> []" using f(3) w by (auto simp: arguments_def)
  then have "run_args commands argv (h\<lparr>input_buffer := b\<rparr>) rest k =
      do { (status, out, ctx', input', k') \<leftarrow> shell_execute commands (take (SHELL_MAX_ARGS - 1) (words l)) (h\<lparr>input_buffer := b\<rparr>) rest k;
           Some (out, ctx'\<lparr>last_exit_status := status\<rparr>, input', k') }"
    using f(3) by (simp add: run_args_def)
  then have eq: "shell_round commands alloc cwd ctx (l @ 10 # rest) k =
      do { (status, out, ctx', input', k') \<leftarrow> shell_execute commands (take (SHELL_MAX_ARGS - 1) (words l)) (h\<lparr>input_buffer := b\<rparr>) rest k;
           Some ((shell_print_prompt (cwd k) ctx @ o1) @ out, ctx'\<lparr>last_exit_status := status\<rparr>, input', k') }"
    using r(1,2) f(4)
    by (cases "shell_execute commands (take (SHELL_MAX_ARGS - 1) (words l)) (h\<lparr>input_buffer := b\<rparr>) rest k")
      (auto simp: shell_round_def Let_def)
  have "\<forall>x \<in> set (shell_print_prompt (cwd k) ctx @ o1). vga_op_ok x" using prompt_ok line_loop_ok [OF r(2)] by auto
  with f(1,2) r(5) eq show ?thesis by (intro exI [of _ "shell_print_prompt (cwd k) ctx @ o1"] exI [of _ "h\<lparr>input_buffer := b\<rparr>"]) simp
qed

end

section \<open>Sequences of commands\<close>

text \<open>
  Commands that neither read keys nor touch the shell: \<open>act\<close> is what they do to the rest of the system.
\<close>

locale shell_script = shell_env commands alloc for commands :: "'w command list" and alloc +
  fixes act :: "'c \<Rightarrow> 'w \<Rightarrow> 'w option" and args_of :: "'c \<Rightarrow> u8 list list"
  assumes act_executes: "typable (args_of c) \<Longrightarrow> act c k = Some k' \<Longrightarrow>
      \<exists>status out. shell_execute commands (args_of c) u rest k = Some (status, out, u, rest, k') \<and>
        (\<forall>x \<in> set out. vga_op_ok x)"
    and exit_stops: "\<exists>status out. shell_execute commands [bytes ''exit''] u rest k =
        Some (status, out, u\<lparr>running := False\<rparr>, rest, k) \<and> (\<forall>x \<in> set out. vga_op_ok x)"
begin

lemma run_stopped: "\<not> running ctx \<Longrightarrow> shell_run commands alloc cwd ctx input k = Some ([], ctx, input, k)"
  by (subst shell_run.simps) simp

lemma run_exit:
  assumes "shell_idle ctx" "running ctx"
  shows "\<exists>out ctx'. shell_run commands alloc cwd ctx (bytes ''exit'' @ 10 # rest) k = Some (out, ctx', rest, k) \<and>
    (\<forall>x \<in> set out. vga_op_ok x)"
proof -
  have l: "printable_line (bytes ''exit'')" "words (bytes ''exit'') = [bytes ''exit'']" by code_simp+
  obtain pre u where p: "shell_idle u" "running u = running ctx" "\<forall>x \<in> set pre. vga_op_ok x"
    "shell_round commands alloc cwd ctx (bytes ''exit'' @ 10 # rest) k =
      do { (status, out, ctx', input', k') \<leftarrow> shell_execute commands [bytes ''exit''] u rest k;
           Some (pre @ out, ctx'\<lparr>last_exit_status := status\<rparr>, input', k') }"
    using round_executes [OF assms(1) l(1), of cwd rest k] l(2) by auto
  obtain status out where e: "shell_execute commands [bytes ''exit''] u rest k =
      Some (status, out, u\<lparr>running := False\<rparr>, rest, k)" "\<forall>x \<in> set out. vga_op_ok x" using exit_stops by blast
  let ?c = "u\<lparr>running := False, last_exit_status := status\<rparr>"
  have "shell_round commands alloc cwd ctx (bytes ''exit'' @ 10 # rest) k = Some (pre @ out, ?c, rest, k)"
    using p(4) e(1) by simp
  moreover have "shell_run commands alloc cwd ?c rest k = Some ([], ?c, rest, k)" by (rule run_stopped) simp
  ultimately have "shell_run commands alloc cwd ctx (bytes ''exit'' @ 10 # rest) k = Some ((pre @ out) @ [], ?c, rest, k)"
    using assms(2) by (subst shell_run.simps) simp
  with p(3) e(2) show ?thesis by auto
qed

text \<open>The commands typed one after the other, and \<open>exit\<close>.\<close>

lemma run_script:
  assumes "shell_idle ctx" "running ctx" "\<forall>c \<in> set cs. typable (args_of c)" "run_ops act cs k = Some k'"
  shows "\<exists>out ctx'. shell_run commands alloc cwd ctx
      (concat (map (\<lambda>c. unwords (args_of c) @ [10]) cs) @ bytes ''exit'' @ 10 # rest) k = Some (out, ctx', rest, k') \<and>
    (\<forall>x \<in> set out. vga_op_ok x)"
  using assms
proof (induction cs arbitrary: ctx k)
  case Nil
  then show ?case using run_exit [of ctx cwd rest k] by simp
next
  case (Cons c cs)
  let ?more = "concat (map (\<lambda>c. unwords (args_of c) @ [10]) cs) @ bytes ''exit'' @ 10 # rest"
  obtain k1 where k1: "act c k = Some k1" "run_ops act cs k1 = Some k'"
    using Cons.prems(4) by (auto split: bind_splits)
  have t: "typable (args_of c)" using Cons.prems(3) by simp
  then have w: "words (unwords (args_of c)) = args_of c" "take (SHELL_MAX_ARGS - 1) (args_of c) = args_of c" "args_of c \<noteq> []"
    by (simp_all add: typable_def words_unwords)
  obtain pre u where p: "shell_idle u" "running u = running ctx" "\<forall>x \<in> set pre. vga_op_ok x"
    "shell_round commands alloc cwd ctx (unwords (args_of c) @ 10 # ?more) k =
      do { (status, out, ctx', input', k') \<leftarrow> shell_execute commands (args_of c) u ?more k;
           Some (pre @ out, ctx'\<lparr>last_exit_status := status\<rparr>, input', k') }"
    using round_executes [OF Cons.prems(1) typable_line [OF t], of cwd ?more k] w by auto
  obtain status out where e: "shell_execute commands (args_of c) u ?more k = Some (status, out, u, ?more, k1)"
    "\<forall>x \<in> set out. vga_op_ok x" using act_executes [OF t k1(1)] by blast
  let ?c = "u\<lparr>last_exit_status := status\<rparr>"
  have "shell_idle ?c" "running ?c" using p(1,2) Cons.prems(2) by simp_all
  from Cons.IH [OF this _ k1(2)] Cons.prems(3) obtain out2 ctx' where
    2: "shell_run commands alloc cwd ?c ?more k1 = Some (out2, ctx', rest, k')" "\<forall>x \<in> set out2. vga_op_ok x" by auto
  have "shell_round commands alloc cwd ctx (unwords (args_of c) @ 10 # ?more) k = Some (pre @ out, ?c, ?more, k1)"
    using p(4) e(1) by simp
  then have "shell_run commands alloc cwd ctx (unwords (args_of c) @ 10 # ?more) k = Some ((pre @ out) @ out2, ctx', rest, k')"
    using Cons.prems(2) 2(1) by (subst shell_run.simps) simp
  with p(3) e(2) 2(2) show ?case by auto
qed

end

end
