(* ===== verification/Figlet.thy ===== *)
theory Figlet
  imports Prelude Stdio Console Fs Fstools Calc Ed Session
begin

text \<open>
  The banner printer \<open>bin/figlet.c\<close>: the table of the 48 glyphs with seven rows each, the joining of
  the arguments in a block of the heap, and the loop over rows and characters.  A backslash of the
  table is written as a tilde.
\<close>

abbreviation FONT_HEIGHT :: nat where "FONT_HEIGHT \<equiv> 7"

definition figlet_italic_font :: "string list list" where
  "figlet_italic_font =
    [[''    ___   '',
      ''   / _ ~  '',
      ''  / /_~ ~ '',
      ''  |  _  | '',
      ''  | | | | '',
      ''  ~_| |_/ '',
      ''          ''],
     [''  ____   '',
      '' | __ )  '',
      '' |  _ ~  '',
      '' | |_) | '',
      '' |____/  '',
      ''         '',
      ''         ''],
     [''   ____  '',
      ''  / ___| '',
      '' | |     '',
      '' | |___  '',
      ''  ~____| '',
      ''         '',
      ''         ''],
     [''  ____   '',
      '' |  _ ~  '',
      '' | | | | '',
      '' | |_| | '',
      '' |____/  '',
      ''         '',
      ''         ''],
     [''  _____  '',
      '' | ____| '',
      '' |  _|   '',
      '' | |___  '',
      '' |_____| '',
      ''         '',
      ''         ''],
     [''  _____  '',
      '' |  ___| '',
      '' | |_    '',
      '' |  _|   '',
      '' |_|     '',
      ''         '',
      ''         ''],
     [''   ____  '',
      ''  / ___| '',
      '' | |  _  '',
      '' | |_| | '',
      ''  ~____| '',
      ''         '',
      ''         ''],
     [''  _   _  '',
      '' | | | | '',
      '' | |_| | '',
      '' |  _  | '',
      '' |_| |_| '',
      ''         '',
      ''         ''],
     [''  ___  '',
      '' |_ _| '',
      ''  | |  '',
      ''  | |  '',
      '' |___| '',
      ''       '',
      ''       ''],
     [''      _ '',
      ''     | |'',
      ''  _  | |'',
      '' | |_| |'',
      ''  ~___/ '',
      ''        '',
      ''        ''],
     [''  _  __'',
      '' | |/ /'',
      '' | ' / '',
      '' | . ~ '',
      '' |_|~_~'',
      ''       '',
      ''       ''],
     [''  _     '',
      '' | |    '',
      '' | |    '',
      '' | |___ '',
      '' |_____|'',
      ''        '',
      ''        ''],
     [''  __  __ '',
      '' |  ~/  |'',
      '' | |~/| |'',
      '' | |  | |'',
      '' |_|  |_|'',
      ''         '',
      ''         ''],
     [''  _   _ '',
      '' | ~ | |'',
      '' |  ~| |'',
      '' | |~  |'',
      '' |_| ~_|'',
      ''        '',
      ''        ''],
     [''   ___   '',
      ''  / _ ~  '',
      '' | | | | '',
      '' | |_| | '',
      ''  ~___/  '',
      ''         '',
      ''         ''],
     [''  ____  '',
      '' |  _ ~ '',
      '' | |_) |'',
      '' |  __/ '',
      '' |_|    '',
      ''        '',
      ''        ''],
     [''   ___   '',
      ''  / _ ~  '',
      '' | | | | '',
      '' | |_| | '',
      ''  ~__~_~ '',
      ''         '',
      ''         ''],
     [''  ____  '',
      '' |  _ ~ '',
      '' | |_) |'',
      '' |  _ < '',
      '' |_| ~_~'',
      ''        '',
      ''        ''],
     [''  ____  '',
      '' / ___| '',
      '' ~___ ~ '',
      ''  ___) |'',
      '' |____/ '',
      ''        '',
      ''        ''],
     [''  _____ '',
      '' |_   _|'',
      ''   | |  '',
      ''   | |  '',
      ''   |_|  '',
      ''        '',
      ''        ''],
     [''  _   _ '',
      '' | | | |'',
      '' | | | |'',
      '' | |_| |'',
      ''  ~___/ '',
      ''        '',
      ''        ''],
     ['' __     __'',
      '' ~ ~   / /'',
      ''  ~ ~ / / '',
      ''   ~ V /  '',
      ''    ~_/   '',
      ''         '',
      ''         ''],
     ['' __      __'',
      '' ~ ~ /~ / /'',
      ''  ~ V  V / '',
      ''   ~_/~_/  '',
      ''           '',
      ''           '',
      ''           ''],
     ['' __  __ '',
      '' ~ ~/ / '',
      ''  >  <  '',
      '' /_/~_~ '',
      ''        '',
      ''        '',
      ''        ''],
     ['' __   __'',
      '' ~ ~ / /'',
      ''  ~ V / '',
      ''   | |  '',
      ''   |_|  '',
      ''        '',
      ''        ''],
     [''  ____ '',
      '' |__  /'',
      ''   / / '',
      ''  / /_ '',
      '' /____|'',
      ''       '',
      ''       ''],
     [''   '',
      ''   '',
      ''   '',
      ''   '',
      ''   '',
      ''   '',
      ''   ''],
     [''  _  '',
      '' | | '',
      '' | | '',
      '' | | '',
      '' |_| '',
      '' (_) '',
      ''     ''],
     [''     '',
      ''     '',
      ''     '',
      ''     '',
      '' ___ '',
      ''|___|'',
      ''     ''],
     [''     '',
      ''     '',
      ''     '',
      ''     '',
      ''  __ '',
      '' (__)'',
      ''  /  ''],
     [''     __'',
      ''    / /'',
      ''   / / '',
      ''  / /  '',
      '' /_/   '',
      ''       '',
      ''       ''],
     [''  ___  '',
      '' |__ ~ '',
      ''    ) |'',
      ''   / / '',
      ''   |_| '',
      ''   (_) '',
      ''       ''],
     [''     '',
      ''  _  '',
      '' (_) '',
      ''     '',
      ''  _  '',
      '' (_) '',
      ''     ''],
     [''     '',
      ''  _  '',
      '' (_) '',
      ''     '',
      ''  _  '',
      '' (_) '',
      ''  /  ''],
     [''  _ '',
      '' | |'',
      '' | |'',
      ''    '',
      ''    '',
      ''    '',
      ''    ''],
     ['' _ _ '',
      ''| | |'',
      ''     '',
      ''     '',
      ''     '',
      ''     '',
      ''     ''],
     [''       '',
      ''       '',
      '' _____ '',
      ''|_____|'',
      ''       '',
      ''       '',
      ''       ''],
     [''       '',
      ''       '',
      ''       '',
      ''       '',
      '' _____ '',
      ''|_____|'',
      ''       ''],
     [''  ___  '',
      '' / _ ~ '',
      ''| | | |'',
      ''| | | |'',
      ''| |_| |'',
      '' ~___/ '',
      ''       ''],
     ['' __ '',
      ''/_ |'',
      '' | |'',
      '' | |'',
      '' | |'',
      '' |_|'',
      ''    ''],
     ['' ___  '',
      ''|__ ~ '',
      ''   ) |'',
      ''  / / '',
      '' / /_ '',
      ''|____|'',
      ''      ''],
     ['' ____  '',
      ''|___ ~ '',
      ''  __) |'',
      '' |__ < '',
      '' ___) |'',
      ''|____/ '',
      ''       ''],
     ['' _  _   '',
      ''| || |  '',
      ''| || |_ '',
      ''|__   _|'',
      ''   | |  '',
      ''   |_|  '',
      ''        ''],
     ['' _____ '',
      ''| ____|'',
      ''| |__  '',
      ''|___ ~ '',
      '' ___) |'',
      ''|____/ '',
      ''       ''],
     [''   __  '',
      ''  / /  '',
      '' / /_  '',
      ''| '_ ~ '',
      ''| (_) |'',
      '' ~___/ '',
      ''       ''],
     ['' ______ '',
      ''|____  |'',
      ''    / / '',
      ''   / /  '',
      ''  / /   '',
      '' /_/    '',
      ''        ''],
     [''  ___  '',
      '' ( _ ) '',
      '' / _ ~ '',
      ''| (_) |'',
      '' ~___/ '',
      ''       '',
      ''       ''],
     [''  ___  '',
      '' / _ ~ '',
      ''| (_) |'',
      '' ~__, |'',
      ''   / / '',
      ''  /_/  '',
      ''       '']]"

definition glyph_row :: "string \<Rightarrow> u8 list" where
  "glyph_row r = map (\<lambda>c. if c = 126 then 92 else c) (bytes r)"

definition char_to_index :: "u8 \<Rightarrow> int" where
  "char_to_index c =
     (if 65 \<le> c \<and> c \<le> 90 then uint c - 65
      else if 97 \<le> c \<and> c \<le> 122 then uint c - 97
      else if c = 32 then 26
      else if c = ch CHR ''!'' then 27
      else if c = ch CHR ''.'' then 28
      else if c = ch CHR '','' then 29
      else if c = ch CHR ''/'' then 30
      else if c = ch CHR ''?'' then 31
      else if c = ch CHR '':'' then 32
      else if c = ch CHR '';'' then 33
      else if c = ch CHR 0x27 then 34
      else if c = ch CHR 0x22 then 35
      else if c = ch CHR ''-'' then 36
      else if c = ch CHR ''_'' then 37
      else if 48 \<le> c \<and> c \<le> 57 then uint c - 48 + 38
      else -1)"

text \<open>\<open>strcat\<close> of a string to the one in the block.\<close>

definition cat_to :: "u8 list \<Rightarrow> u8 list \<Rightarrow> u8 list option" where
  "cat_to b s =
     (let n = length (takeWhile (\<lambda>c. c \<noteq> 0) b) in
      if n + length s + 1 \<le> length b then Some (take n b @ s @ 0 # drop (n + length s + 1) b) else None)"

fun total_len :: "int \<Rightarrow> u8 list list \<Rightarrow> int" where
  "total_len n [] = n"
| "total_len n (a # as) =
     (let n = wrap32 (n + int (length a)) in total_len (if as \<noteq> [] then wrap32 (n + 1) else n) as)"

fun cat_args :: "u8 list \<Rightarrow> u8 list list \<Rightarrow> u8 list option" where
  "cat_args b [] = Some b"
| "cat_args b (a # as) =
     do { b \<leftarrow> cat_to b a;
          b \<leftarrow> (if as \<noteq> [] then cat_to b [32] else Some b);
          cat_args b as }"

text \<open>The block with the joined arguments; None inside is the failure of the allocation.\<close>

definition join_args :: "alloc \<Rightarrow> u8 list list \<Rightarrow> u8 list option option" where
  "join_args alloc args =
     (case alloc (nat (wrap32 (total_len 0 args + 1) mod 2 ^ 32)) of
        None \<Rightarrow> Some None
      | Some b \<Rightarrow> do { b \<leftarrow> wr b 0 0; b \<leftarrow> cat_args b args; Some (Some b) })"

definition show_cell :: "nat \<Rightarrow> u8 \<Rightarrow> u8 list option" where
  "show_cell row c =
     (let idx = char_to_index c in
      if idx = -1 then printf (bytes '' ???  '') []
      else do { glyph \<leftarrow> rd figlet_italic_font (nat idx);
                r \<leftarrow> rd glyph row;
                printf (bytes ''%s '') [str_arg (glyph_row r)] })"

fun show_row :: "nat \<Rightarrow> u8 list \<Rightarrow> u8 list option" where
  "show_row row [] = Some [10]"
| "show_row row (c # text) = do { msg \<leftarrow> show_cell row c; out \<leftarrow> show_row row text; Some (msg @ out) }"

definition figlet_main :: "alloc \<Rightarrow> u8 list list \<Rightarrow> exit_output" where
  "figlet_main alloc argv =
     (if length argv < 2 then answer 0 (line ''Usage: figlet text'' [])
      else
        do { joined \<leftarrow> join_args alloc (tl argv);
             case joined of
               None \<Rightarrow> answer 1 (line ''Memory allocation failed'' [])
             | Some b \<Rightarrow>
                 let text = takeWhile (\<lambda>c. c \<noteq> 0) b in
                 do { rows \<leftarrow> those (map (\<lambda>row. show_row row text) [0..<FONT_HEIGHT]);
                      Some (0, concat rows) } })"

section \<open>The table\<close>

lemma font_shape: "length figlet_italic_font = 48" "list_all (\<lambda>g. length g = FONT_HEIGHT) figlet_italic_font"
  by code_simp+

lemma font_widths:
  "list_all (\<lambda>i. i = 21 \<or> list_all (\<lambda>r. length r = length (hd (figlet_italic_font ! i))) (figlet_italic_font ! i)) [0..<48]"
  by code_simp

lemma glyph_v_ragged: "map length (figlet_italic_font ! 21) = [10, 10, 10, 10, 10, 9, 9]"
  by code_simp

section \<open>The banner\<close>

definition glyph_cell :: "nat \<Rightarrow> u8 \<Rightarrow> u8 list" where
  "glyph_cell row c = (if char_to_index c = -1 then bytes '' ???  ''
     else glyph_row (figlet_italic_font ! nat (char_to_index c) ! row) @ [32])"

definition banner :: "u8 list \<Rightarrow> u8 list list" where
  "banner text = map (\<lambda>row. concat (map (glyph_cell row) text)) [0..<FONT_HEIGHT]"

lemma index_range: "char_to_index c = -1 \<or> 0 \<le> char_to_index c \<and> char_to_index c < 48"
  by (simp add: char_to_index_def word_le_def)

lemma index_v:
  assumes "char_to_index c = 21"
  shows "c = 86 \<or> c = 118"
proof -
  have d: "uint c - 48 + 38 \<noteq> 21" if "48 \<le> c" using that by (simp add: word_le_def)
  consider "65 \<le> c \<and> c \<le> 90" "uint c = 86" | "97 \<le> c \<and> c \<le> 122" "uint c = 118"
    using assms d unfolding char_to_index_def by (force split: if_splits)
  then show ?thesis by cases (simp_all add: word_uint_eq_iff [of c])
qed

lemma show_cell_eq:
  assumes "row < FONT_HEIGHT"
  shows "show_cell row c = Some (glyph_cell row c)"
proof (cases "char_to_index c = -1")
  case True
  have "printf (bytes '' ???  '') [] = Some (bytes '' ???  '')" by code_simp
  with True show ?thesis by (simp add: show_cell_def glyph_cell_def)
next
  case False
  with index_range [of c] have i: "nat (char_to_index c) < 48" by auto
  then have "length (figlet_italic_font ! nat (char_to_index c)) = FONT_HEIGHT"
    using font_shape by (simp add: list_all_length)
  moreover have "printf (bytes ''%s '') [str_arg s] = Some (s @ [32])" for s
  proof -
    have "bytes ''%s '' = [37, 115, 32]" by code_simp
    then show ?thesis by (intro printf_text) (simp add: str_arg_def ch_def)
  qed
  ultimately show ?thesis using assms False i font_shape(1) by (simp add: show_cell_def glyph_cell_def rd_def)
qed

lemma show_row_eq: "row < FONT_HEIGHT \<Longrightarrow> show_row row t = Some (concat (map (glyph_cell row) t) @ [10])"
  by (induction t) (simp_all add: show_cell_eq)

lemma cell_width:
  assumes "row < FONT_HEIGHT" "c \<noteq> 86" "c \<noteq> 118"
  shows "length (glyph_cell row c) = length (glyph_cell 0 c)"
proof (cases "char_to_index c = -1")
  case False
  define i where "i = nat (char_to_index c)"
  have i: "i < 48" "i \<noteq> 21" using False index_range [of c] index_v [of c] assms(2,3) by (auto simp: i_def nat_eq_iff)
  then have l: "length (figlet_italic_font ! i) = FONT_HEIGHT" using font_shape by (simp add: list_all_length)
  have "list_all (\<lambda>r. length r = length (hd (figlet_italic_font ! i))) (figlet_italic_font ! i)"
    using font_widths i unfolding list_all_iff by fastforce
  then have "length (figlet_italic_font ! i ! r) = length (hd (figlet_italic_font ! i))" if "r < FONT_HEIGHT" for r
    using that l by (simp add: list_all_length)
  from this [OF assms(1)] this [of 0] show ?thesis using False by (simp add: glyph_cell_def i_def [symmetric] glyph_row_def bytes_def)
qed (simp add: glyph_cell_def)

lemma those_some: "(\<And>x. x \<in> set xs \<Longrightarrow> f x = Some (g x)) \<Longrightarrow> those (map f xs) = Some (map g xs)"
  by (induction xs) simp_all

section \<open>Joining the arguments\<close>

lemma total_len_unwords:
  "0 \<le> n \<Longrightarrow> n + int (length (unwords as)) < 2 ^ 31 \<Longrightarrow> total_len n as = n + int (length (unwords as))"
  by (induction as arbitrary: n) (auto simp: Let_def int32_range_def)

lemma cat_to_string:
  assumes "0 \<notin> set p" "length p + length s + 1 \<le> length (p @ 0 # r)"
  shows "\<exists>r'. cat_to (p @ 0 # r) s = Some ((p @ s) @ 0 # r') \<and> length ((p @ s) @ 0 # r') = length (p @ 0 # r)"
proof -
  have "takeWhile (\<lambda>c. c \<noteq> 0) (p @ 0 # r) = p" using assms(1) by (simp add: takeWhile_append takeWhile_eq_all_conv)
  with assms(2) show ?thesis by (simp add: cat_to_def)
qed

lemma cat_args_unwords:
  assumes "0 \<notin> set p" "length p + length (unwords as) + 1 \<le> length (p @ 0 # r)" "\<forall>a \<in> set as. 0 \<notin> set a"
  shows "\<exists>r'. cat_args (p @ 0 # r) as = Some ((p @ unwords as) @ 0 # r')"
  using assms
proof (induction as arbitrary: p r)
  case (Cons a as)
  obtain r1 where 1: "cat_to (p @ 0 # r) a = Some ((p @ a) @ 0 # r1)" "length ((p @ a) @ 0 # r1) = length (p @ 0 # r)"
    using cat_to_string [of p a r] Cons.prems by auto
  show ?case
  proof (cases "as = []")
    case True
    with 1 show ?thesis by simp
  next
    case False
    obtain r2 where 2: "cat_to ((p @ a) @ 0 # r1) [32] = Some (((p @ a) @ [32]) @ 0 # r2)"
      "length (((p @ a) @ [32]) @ 0 # r2) = length ((p @ a) @ 0 # r1)"
      using cat_to_string [of "p @ a" "[32]" r1] Cons.prems 1(2) False by auto
    have "\<exists>r'. cat_args (((p @ a) @ [32]) @ 0 # r2) as = Some ((((p @ a) @ [32]) @ unwords as) @ 0 # r')"
      using Cons.prems 1(2) 2(2) False by (intro Cons.IH) auto
    with 1(1) 2(1) False show ?thesis by simp
  qed
qed simp

lemma unwords_no_zero: "\<forall>a \<in> set as. 0 \<notin> set a \<Longrightarrow> 0 \<notin> set (unwords as)"
  by (induction as) auto

text \<open>(functional) The banner has seven lines, the rows of the glyphs of the text side by side; they are equally
  long unless the letter V occurs.  The joined arguments fit the block that is allocated for them.\<close>

theorem figlet_shows:
  assumes "2 \<le> length argv" "\<forall>a \<in> set (tl argv). 0 \<notin> set a" "int (length (unwords (tl argv))) + 1 < 2 ^ 31"
    and "heap_serves alloc" "86 \<notin> set (unwords (tl argv))" "118 \<notin> set (unwords (tl argv))"
  shows "figlet_main alloc argv = Some (0, concat (map (\<lambda>l. l @ [10]) (banner (unwords (tl argv))))) \<and>
    length (banner (unwords (tl argv))) = 7 \<and>
    (\<exists>w. list_all (\<lambda>l. length l = w) (banner (unwords (tl argv))))"
proof -
  let ?t = "unwords (tl argv)"
  have "wrap32 (total_len 0 (tl argv) + 1) = int (length ?t) + 1"
    using total_len_unwords [of 0 "tl argv"] assms(3) by (simp add: int32_range_def)
  moreover have "(int (length ?t) + 1) mod 2 ^ 32 = int (length ?t + 1)" using assms(3) by simp
  moreover obtain blk where "alloc (length ?t + 1) = Some blk" and l: "length blk = length ?t + 1"
    using assms(4) by (auto simp: heap_serves_def)
  moreover obtain x r where b: "blk = x # r" using l by (cases blk) auto
  moreover obtain r' where "cat_args ([] @ 0 # r) (tl argv) = Some (([] @ ?t) @ 0 # r')"
    using cat_args_unwords [of "[]" "tl argv" r] assms(2) l b by auto
  ultimately have j: "join_args alloc (tl argv) = Some (Some (?t @ 0 # r'))"
    by (simp add: join_args_def wr_def nat_int del: of_nat_add of_nat_Suc)
  have "takeWhile (\<lambda>c. c \<noteq> 0) (?t @ 0 # r') = ?t"
    using unwords_no_zero [OF assms(2)] by (simp add: takeWhile_append takeWhile_eq_all_conv)
  moreover have "those (map (\<lambda>row. show_row row ?t) [0..<FONT_HEIGHT]) =
      Some (map (\<lambda>row. concat (map (glyph_cell row) ?t) @ [10]) [0..<FONT_HEIGHT])"
    by (rule those_some) (simp add: show_row_eq)
  ultimately have "figlet_main alloc argv = Some (0, concat (map (\<lambda>l. l @ [10]) (banner ?t)))"
    using assms(1) j by (simp add: figlet_main_def banner_def comp_def)
  moreover have len: "length (concat (map (glyph_cell row) ?t)) = length (concat (map (glyph_cell 0) ?t))" if "row < FONT_HEIGHT" for row
  proof -
    have "map (length \<circ> glyph_cell row) ?t = map (length \<circ> glyph_cell 0) ?t"
      using assms(5,6) cell_width [OF that] by (intro map_cong refl) (metis comp_apply)
    then show ?thesis by (simp only: length_concat map_map)
  qed
  have "list_all (\<lambda>l. length l = length (concat (map (glyph_cell 0) ?t))) (banner ?t)"
    unfolding banner_def list_all_iff set_map set_upt
  proof
    fix l assume "l \<in> (\<lambda>row. concat (map (glyph_cell row) ?t)) ` {0..<FONT_HEIGHT}"
    then obtain row where "row < FONT_HEIGHT" "l = concat (map (glyph_cell row) ?t)" by (elim imageE) simp
    then show "length l = length (concat (map (glyph_cell 0) ?t))" using len by blast
  qed
  moreover have "length (banner ?t) = 7" unfolding banner_def length_map length_upt by simp
  ultimately show ?thesis by blast
qed

theorem figlet_shows_witness:
  "figlet_main zero_heap (map bytes [''figlet'', ''Hi'', ''you'']) = Some (0, concat (map (\<lambda>l. l @ [10]) (banner (bytes ''Hi you'')))) \<and>
    length (banner (bytes ''Hi you'')) = 7"
proof -
  let ?a = "map bytes [''figlet'', ''Hi'', ''you'']"
  have t: "unwords (tl ?a) = bytes ''Hi you''" by code_simp
  have "2 \<le> length ?a" "\<forall>a \<in> set (tl ?a). 0 \<notin> set a" "int (length (bytes ''Hi you'')) + 1 < 2 ^ 31"
    "86 \<notin> set (bytes ''Hi you'')" "118 \<notin> set (bytes ''Hi you'')" by code_simp+
  moreover have "heap_serves zero_heap" by (simp add: heap_serves_def zero_heap_def)
  ultimately show ?thesis using figlet_shows [of ?a zero_heap, unfolded t] by blast
qed

text \<open>The last two rows of the letter V are one shorter than the others.\<close>

lemma figlet_v: "map length (banner (bytes ''V'')) = [11, 11, 11, 11, 11, 10, 10]"
  by code_simp

end
