(* ===== verification/Bitstr.thy ===== *)
theory Bitstr
  imports Prelude Bits
begin

text \<open>
  The bit strings of \<open>usr/include/bitstring.h\<close>, arrays of bytes that stand for a set of numbers, and the
  byte order macros of \<open>usr/include/sys/_endian.h\<close> and \<open>sys/endian.h\<close> for the little endian target.  The
  bit operations are a second model of the locale \<open>bitmap\<close>.
\<close>

section \<open>Bit strings\<close>

type_synonym bitstr = "u8 list"

definition bit_mask :: "nat \<Rightarrow> u8" where "bit_mask b = push_bit (b mod 8) 1"

definition bitstr_size :: "nat \<Rightarrow> nat" where "bitstr_size nbits = (nbits + 7) div 8"

definition bit_alloc :: "nat \<Rightarrow> bitstr" where "bit_alloc nbits = replicate (bitstr_size nbits) 0"

definition bit_test :: "bitstr \<Rightarrow> nat \<Rightarrow> bool option" where
  "bit_test name b = do { c \<leftarrow> rd name (b div 8); Some (c AND bit_mask b \<noteq> 0) }"

definition bit_set :: "bitstr \<Rightarrow> nat \<Rightarrow> bitstr option" where
  "bit_set name b = do { c \<leftarrow> rd name (b div 8); wr name (b div 8) (c OR bit_mask b) }"

definition bit_clear :: "bitstr \<Rightarrow> nat \<Rightarrow> bitstr option" where
  "bit_clear name b = do { c \<leftarrow> rd name (b div 8); wr name (b div 8) (c AND NOT (bit_mask b)) }"

definition bit_nclear :: "bitstr \<Rightarrow> nat \<Rightarrow> nat \<Rightarrow> bitstr option" where
  "bit_nclear name start stop = for_each (\<lambda>b name. bit_clear name b) [start..<stop + 1] name"

definition bit_nset :: "bitstr \<Rightarrow> nat \<Rightarrow> nat \<Rightarrow> bitstr option" where
  "bit_nset name start stop = for_each (\<lambda>b name. bit_set name b) [start..<stop + 1] name"

text \<open>The loop that looks for a bit with the value \<open>v\<close>; -1 if there is none.\<close>

fun first_bit :: "bool \<Rightarrow> bitstr \<Rightarrow> nat list \<Rightarrow> int option" where
  "first_bit v name [] = Some (-1)"
| "first_bit v name (b # bs) =
     do { t \<leftarrow> bit_test name b; if t = v then Some (int b) else first_bit v name bs }"

definition bit_ffc :: "bitstr \<Rightarrow> nat \<Rightarrow> int option" where
  "bit_ffc name nbits = first_bit False name [0..<nbits]"

definition bit_ffs :: "bitstr \<Rightarrow> nat \<Rightarrow> int option" where
  "bit_ffs name nbits = first_bit True name [0..<nbits]"

text \<open>The set that a bit string stands for.\<close>

definition members :: "bitstr \<Rightarrow> nat set" where
  "members name = {b. b < 8 * length name \<and> bit (name ! (b div 8)) (b mod 8)}"

lemma div8_less: "b < 8 * n \<Longrightarrow> b div 8 < (n :: nat)"
  by (simp add: less_mult_imp_div_less mult.commute)

lemma bit_mask_bit: "c AND bit_mask b \<noteq> 0 \<longleftrightarrow> bit c (b mod 8)"
proof
  assume "c AND bit_mask b \<noteq> 0"
  then obtain n where "bit (c AND bit_mask b) n" using bit_eqI [of "c AND bit_mask b" 0] by auto
  then show "bit c (b mod 8)" by (auto simp: bit_mask_def bit_simps)
next
  assume "bit c (b mod 8)"
  then have "bit (c AND bit_mask b) (b mod 8)" by (simp add: bit_mask_def bit_simps)
  then show "c AND bit_mask b \<noteq> 0" by auto
qed

lemma bit_test_eq: "b < 8 * length name \<Longrightarrow> bit_test name b = Some (b \<in> members name)"
  by (simp add: bit_test_def rd_def div8_less bit_mask_bit members_def)

lemma bit_set_eq: "b < 8 * length name \<Longrightarrow> bit_set name b = Some (name[b div 8 := name ! (b div 8) OR bit_mask b])"
  by (simp add: bit_set_def rd_def wr_def div8_less)

lemma bit_clear_eq:
  "b < 8 * length name \<Longrightarrow> bit_clear name b = Some (name[b div 8 := name ! (b div 8) AND NOT (bit_mask b)])"
  by (simp add: bit_clear_def rd_def wr_def div8_less)

lemma same_bit8: "j div 8 = i div 8 \<Longrightarrow> j mod 8 = i mod 8 \<longleftrightarrow> j = (i::nat)"
  by (metis div_mult_mod_eq)

lemma members_set:
  "b < 8 * length name \<Longrightarrow> members (name[b div 8 := name ! (b div 8) OR bit_mask b]) = insert b (members name)"
  by (auto simp: members_def nth_list_update div8_less bit_mask_def bit_simps dest: same_bit8)

lemma members_clear:
  "b < 8 * length name \<Longrightarrow> members (name[b div 8 := name ! (b div 8) AND NOT (bit_mask b)]) = members name - {b}"
  by (auto simp: members_def nth_list_update div8_less bit_mask_def bit_simps dest: same_bit8)

lemma bitstr_eqI:
  assumes "length name = length name'" "members name = members name'"
  shows "name = name'"
proof (rule nth_equalityI [OF assms(1)])
  fix i assume i: "i < length name"
  show "name ! i = name' ! i"
  proof (rule bit_word_eqI)
    fix n assume "n < LENGTH(8)"
    then have "8 * i + n < 8 * length name" "(8 * i + n) div 8 = i" "(8 * i + n) mod 8 = n" using i by simp_all
    then show "bit (name ! i) n = bit (name' ! i) n"
      using assms(1) arg_cong [OF assms(2), of "\<lambda>s. 8 * i + n \<in> s"] unfolding members_def by simp
  qed
qed

interpretation bitstr: bitmap bit_test bit_set bit_clear "\<lambda>name. 8 * length name"
proof unfold_locales
  fix i j :: nat and b b' :: bitstr
  show "i < 8 * length b \<Longrightarrow> bit_test b i \<noteq> None" by (simp add: bit_test_eq)
  show "i < 8 * length b \<Longrightarrow> bit_set b i \<noteq> None" by (simp add: bit_set_eq)
  show "i < 8 * length b \<Longrightarrow> bit_clear b i \<noteq> None" by (simp add: bit_clear_eq)
  show "bit_set b i = Some b' \<Longrightarrow> 8 * length b' = 8 * length b"
    by (auto simp: bit_set_def rd_def wr_def split: if_splits)
  show "bit_clear b i = Some b' \<Longrightarrow> 8 * length b' = 8 * length b"
    by (auto simp: bit_clear_def rd_def wr_def split: if_splits)
  have lt: "i < 8 * length b" if "bit_set b i = Some b' \<or> bit_clear b i = Some b'"
  proof -
    have "i div 8 < length b" using that by (auto simp: bit_set_def bit_clear_def rd_def split: if_splits)
    then show ?thesis by presburger
  qed
  show "bit_set b i = Some b' \<Longrightarrow> j < 8 * length b \<Longrightarrow> bit_test b' j = (if j = i then Some True else bit_test b j)"
    using lt by (auto simp: bit_set_eq bit_test_eq members_set)
  show "bit_clear b i = Some b' \<Longrightarrow> j < 8 * length b \<Longrightarrow> bit_test b' j = (if j = i then Some False else bit_test b j)"
    using lt by (auto simp: bit_clear_eq bit_test_eq members_clear)
  show "8 * length b = 8 * length b' \<Longrightarrow> \<forall>j<8 * length b. bit_test b j = bit_test b' j \<Longrightarrow> b = b'"
    by (rule bitstr_eqI) (auto simp: bit_test_eq members_def)
qed

lemma members_less: "b \<in> members name \<Longrightarrow> b < 8 * length name"
  by (simp add: members_def)

lemma tests_members:
  assumes "length name' = length name" "\<forall>j < 8 * length name. bit_test name' j = Some (j \<in> S)" "S \<subseteq> {..<8 * length name}"
  shows "members name' = S"
proof -
  have "j \<in> members name' \<longleftrightarrow> j \<in> S" if "j < 8 * length name" for j using assms(1,2) that by (simp add: bit_test_eq)
  moreover have "j < 8 * length name" if "j \<in> members name'" for j using members_less [OF that] assms(1) by simp
  ultimately show ?thesis using assms(3) by blast
qed

lemma first_bit_spec:
  assumes "set bs \<subseteq> {..<8 * length name}"
  shows "first_bit v name bs = Some (case find_first (\<lambda>b. (b \<in> members name) = v) bs of None \<Rightarrow> -1 | Some b \<Rightarrow> int b)"
  using assms by (induction bs) (auto simp: bit_test_eq)

text \<open>(refinement) A bit string is a finite set of numbers: setting, clearing, testing, ranges, and the search for
  the least member or the least number that is missing.\<close>

theorem bitstr_refines_set:
  assumes "b < 8 * length name" "stop < 8 * length name" "nbits \<le> 8 * length name"
  shows "bit_test name b = Some (b \<in> members name) \<and>
    (\<exists>name'. bit_set name b = Some name' \<and> members name' = insert b (members name)) \<and>
    (\<exists>name'. bit_clear name b = Some name' \<and> members name' = members name - {b}) \<and>
    (\<exists>name'. bit_nset name start stop = Some name' \<and> members name' = members name \<union> {start..stop}) \<and>
    (\<exists>name'. bit_nclear name start stop = Some name' \<and> members name' = members name - {start..stop}) \<and>
    bit_ffs name nbits = Some (if \<exists>b < nbits. b \<in> members name then int (LEAST b. b \<in> members name) else -1) \<and>
    bit_ffc name nbits = Some (if \<exists>b < nbits. b \<notin> members name then int (LEAST b. b \<notin> members name) else -1)"
proof -
  have range: "set [start..<stop + 1] \<subseteq> {..<8 * length name}" using assms(2) by auto
  obtain s where s: "bit_nset name start stop = Some s" "8 * length s = 8 * length name"
    "\<forall>j < 8 * length name. bit_test s j = (if j \<in> set [start..<stop + 1] then Some True else bit_test name j)"
    using bitstr.set_all [OF range] by (auto simp: bit_nset_def)
  have "members s = members name \<union> {start..stop}"
    using s(2,3) assms(2) by (intro tests_members) (auto simp: bit_test_eq dest: members_less)
  moreover obtain c where c: "bit_nclear name start stop = Some c" "8 * length c = 8 * length name"
    "\<forall>j < 8 * length name. bit_test c j = (if j \<in> set [start..<stop + 1] then Some False else bit_test name j)"
    using bitstr.clear_all [OF range] by (auto simp: bit_nclear_def)
  have "members c = members name - {start..stop}"
    using c(2,3) by (intro tests_members) (auto simp: bit_test_eq dest: members_less)
  moreover have below: "set [0..<nbits] \<subseteq> {..<8 * length name}" using assms(3) by auto
  have "first_bit v name [0..<nbits] =
      Some (if \<exists>b < nbits. (b \<in> members name) = v then int (LEAST b. (b \<in> members name) = v) else -1)" for v
  proof (cases "find_first (\<lambda>b. (b \<in> members name) = v) [0..<nbits]")
    case None
    then have "first_bit v name [0..<nbits] = Some (-1)" using first_bit_spec [OF below, of v] by simp
    moreover have "\<not> (\<exists>b < nbits. (b \<in> members name) = v)" using None by (auto simp: find_first_None)
    ultimately show ?thesis by simp
  next
    case (Some i)
    then have i: "i < nbits" "(i \<in> members name) = v" "\<forall>j < i. (j \<in> members name) \<noteq> v" by (auto simp: find_first_upt)
    then have "(LEAST b. (b \<in> members name) = v) = i" by (intro Least_equality) (auto simp: not_less [symmetric])
    with i Some first_bit_spec [OF below, of v] show ?thesis by auto
  qed
  from this [of True] this [of False] have "bit_ffs name nbits = Some (if \<exists>b < nbits. b \<in> members name then int (LEAST b. b \<in> members name) else -1)"
    "bit_ffc name nbits = Some (if \<exists>b < nbits. b \<notin> members name then int (LEAST b. b \<notin> members name) else -1)"
    by (simp_all add: bit_ffs_def bit_ffc_def)
  ultimately show ?thesis
    using assms(1) s(1) c(1) by (auto simp: bit_test_eq bit_set_eq bit_clear_eq members_set members_clear)
qed

theorem bitstr_refines_set_witness:
  "bit_test [5, 0] 2 = Some (2 \<in> members [5, 0]) \<and>
    (\<exists>name'. bit_nset [5, 0] 6 9 = Some name' \<and> members name' = members [5, 0] \<union> {6..9})"
  using bitstr_refines_set [of 2 "[5, 0]" 9 16 6] by simp

text \<open>A bit string that is allocated is empty, and has room for its bits.\<close>

lemma bit_alloc_empty: "members (bit_alloc nbits) = {}" "nbits \<le> 8 * length (bit_alloc nbits)"
  by (auto simp: members_def bit_alloc_def bitstr_size_def div8_less)

section \<open>Byte order\<close>

definition swap16 :: "u16 \<Rightarrow> u16" where
  "swap16 x = push_bit 8 (x AND 0xff) OR drop_bit 8 (x AND 0xff00)"

definition swap32 :: "u32 \<Rightarrow> u32" where
  "swap32 x = push_bit 24 (x AND 0xff) OR push_bit 8 (x AND 0xff00) OR drop_bit 8 (x AND 0xff0000) OR
     drop_bit 24 (x AND 0xff000000)"

definition swap64 :: "u64 \<Rightarrow> u64" where
  "swap64 x = push_bit 56 (x AND 0xff) OR push_bit 40 (x AND 0xff00) OR push_bit 24 (x AND 0xff0000) OR
     push_bit 8 (x AND 0xff000000) OR drop_bit 8 (x AND 0xff00000000) OR drop_bit 24 (x AND 0xff0000000000) OR
     drop_bit 40 (x AND 0xff000000000000) OR drop_bit 56 (x AND 0xff00000000000000)"

definition htobe16 :: "u16 \<Rightarrow> u16" where "htobe16 = swap16"
definition htobe32 :: "u32 \<Rightarrow> u32" where "htobe32 = swap32"
definition htobe64 :: "u64 \<Rightarrow> u64" where "htobe64 = swap64"
definition htole16 :: "u16 \<Rightarrow> u16" where "htole16 x = x"
definition htole32 :: "u32 \<Rightarrow> u32" where "htole32 x = x"
definition htole64 :: "u64 \<Rightarrow> u64" where "htole64 x = x"

text \<open>\<open>swap16_multi\<close> on an array.\<close>

definition swap16_multi :: "u16 list \<Rightarrow> nat \<Rightarrow> u16 list option" where
  "swap16_multi v n = for_each (\<lambda>i v. do { x \<leftarrow> rd v i; wr v i (swap16 x) }) [0..<n] v"

text \<open>The memory of the little endian machine: a word of \<open>n\<close> bytes at \<open>p\<close>.\<close>

definition byte :: "nat \<Rightarrow> 'a::len word \<Rightarrow> u8" where "byte i w = ucast (drop_bit (8 * i) w)"

definition word_bytes :: "nat \<Rightarrow> 'a::len word \<Rightarrow> u8 list" where "word_bytes n w = map (\<lambda>i. byte i w) [0..<n]"

definition bytes_word :: "u8 list \<Rightarrow> 'a::len word" where "bytes_word bs = foldr (\<lambda>b w. ucast b OR push_bit 8 w) bs 0"

definition load_word :: "nat \<Rightarrow> u8 list \<Rightarrow> nat \<Rightarrow> 'a::len word option" where
  "load_word n mem p = (if p + n \<le> length mem then Some (bytes_word (take n (drop p mem))) else None)"

definition store_word :: "nat \<Rightarrow> u8 list \<Rightarrow> nat \<Rightarrow> 'a::len word \<Rightarrow> u8 list option" where
  "store_word n mem p w =
     (if p + n \<le> length mem then Some (take p mem @ word_bytes n w @ drop (p + n) mem) else None)"

definition bemtoh16 :: "u8 list \<Rightarrow> nat \<Rightarrow> u16 option" where "bemtoh16 mem p = map_option htobe16 (load_word 2 mem p)"
definition bemtoh32 :: "u8 list \<Rightarrow> nat \<Rightarrow> u32 option" where "bemtoh32 mem p = map_option htobe32 (load_word 4 mem p)"
definition bemtoh64 :: "u8 list \<Rightarrow> nat \<Rightarrow> u64 option" where "bemtoh64 mem p = map_option htobe64 (load_word 8 mem p)"
definition htobem16 :: "u8 list \<Rightarrow> nat \<Rightarrow> u16 \<Rightarrow> u8 list option" where "htobem16 mem p v = store_word 2 mem p (htobe16 v)"
definition htobem32 :: "u8 list \<Rightarrow> nat \<Rightarrow> u32 \<Rightarrow> u8 list option" where "htobem32 mem p v = store_word 4 mem p (htobe32 v)"
definition htobem64 :: "u8 list \<Rightarrow> nat \<Rightarrow> u64 \<Rightarrow> u8 list option" where "htobem64 mem p v = store_word 8 mem p (htobe64 v)"
definition lemtoh16 :: "u8 list \<Rightarrow> nat \<Rightarrow> u16 option" where "lemtoh16 mem p = map_option htole16 (load_word 2 mem p)"
definition lemtoh32 :: "u8 list \<Rightarrow> nat \<Rightarrow> u32 option" where "lemtoh32 mem p = map_option htole32 (load_word 4 mem p)"
definition lemtoh64 :: "u8 list \<Rightarrow> nat \<Rightarrow> u64 option" where "lemtoh64 mem p = map_option htole64 (load_word 8 mem p)"
definition htolem16 :: "u8 list \<Rightarrow> nat \<Rightarrow> u16 \<Rightarrow> u8 list option" where "htolem16 mem p v = store_word 2 mem p (htole16 v)"
definition htolem32 :: "u8 list \<Rightarrow> nat \<Rightarrow> u32 \<Rightarrow> u8 list option" where "htolem32 mem p v = store_word 4 mem p (htole32 v)"
definition htolem64 :: "u8 list \<Rightarrow> nat \<Rightarrow> u64 \<Rightarrow> u8 list option" where "htolem64 mem p v = store_word 8 mem p (htole64 v)"

lemma bit_byte: "bit (byte i w) k \<longleftrightarrow> k < 8 \<and> bit w (8 * i + k)"
  by (auto simp: byte_def bit_simps)

lemma masks16: "(0xff :: u16) = mask 8" "(0xff00 :: u16) = push_bit 8 (mask 8)"
  by (simp_all add: mask_eq_exp_minus_1)

lemma masks32:
  "(0xff :: u32) = mask 8" "(0xff00 :: u32) = push_bit 8 (mask 8)" "(0xff0000 :: u32) = push_bit 16 (mask 8)"
  "(0xff000000 :: u32) = push_bit 24 (mask 8)"
  by (simp_all add: mask_eq_exp_minus_1)

lemma masks64:
  "(0xff :: u64) = mask 8" "(0xff00 :: u64) = push_bit 8 (mask 8)" "(0xff0000 :: u64) = push_bit 16 (mask 8)"
  "(0xff000000 :: u64) = push_bit 24 (mask 8)" "(0xff00000000 :: u64) = push_bit 32 (mask 8)"
  "(0xff0000000000 :: u64) = push_bit 40 (mask 8)" "(0xff000000000000 :: u64) = push_bit 48 (mask 8)"
  "(0xff00000000000000 :: u64) = push_bit 56 (mask 8)"
  by (simp_all add: mask_eq_exp_minus_1)

lemma byte_swap16: "i < 2 \<Longrightarrow> byte i (swap16 x) = byte (1 - i) x"
  by (rule bit_word_eqI) (auto simp: bit_byte swap16_def masks16 bit_simps less_2_cases_iff)

lemma byte_swap32: "i < 4 \<Longrightarrow> byte i (swap32 x) = byte (3 - i) x"
proof -
  assume "i < 4"
  then consider "i = 0" | "i = 1" | "i = 2" | "i = 3" by linarith
  then show ?thesis
    by cases (rule bit_word_eqI, auto simp: bit_byte swap32_def masks32 bit_simps)+
qed

lemma byte_swap64: "i < 8 \<Longrightarrow> byte i (swap64 x) = byte (7 - i) x"
proof -
  assume "i < 8"
  then consider "i = 0" | "i = 1" | "i = 2" | "i = 3" | "i = 4" | "i = 5" | "i = 6" | "i = 7" by linarith
  then show ?thesis
    by cases (rule bit_word_eqI, auto simp: bit_byte swap64_def masks64 bit_simps)+
qed

lemma word_bytes_eqI:
  fixes v w :: "'a::len word"
  assumes "word_bytes n v = word_bytes n w" "LENGTH('a) = 8 * n"
  shows "v = w"
proof (rule bit_word_eqI)
  fix k assume k: "k < LENGTH('a)"
  then have "k div 8 < n" using assms(2) by (simp add: div8_less)
  then have "byte (k div 8) v = byte (k div 8) w" using assms(1) by (auto simp: word_bytes_def list_eq_iff_nth_eq)
  then have "bit (byte (k div 8) v) (k mod 8) = bit (byte (k div 8) w) (k mod 8)" by simp
  then show "bit v k = bit w k" by (simp add: bit_byte)
qed

lemma length_word_bytes [simp]: "length (word_bytes n w) = n"
  by (simp add: word_bytes_def)

lemma bit_bytes_word:
  "bit (bytes_word bs :: 'a::len word) k \<longleftrightarrow> k < LENGTH('a) \<and> k < 8 * length bs \<and> bit (bs ! (k div 8)) (k mod 8)"
proof (induction bs arbitrary: k)
  case Nil
  then show ?case by (simp add: bytes_word_def)
next
  case (Cons b bs)
  show ?case
  proof (cases "k < 8")
    case True
    then show ?thesis by (auto simp: bytes_word_def bit_simps)
  next
    case False
    then have "k div 8 = Suc ((k - 8) div 8)" "(k - 8) mod 8 = k mod 8" by (simp_all add: le_div_geq le_mod_geq)
    moreover have "bit (bytes_word (b # bs) :: 'a word) k \<longleftrightarrow> k < LENGTH('a) \<and> bit (bytes_word bs :: 'a word) (k - 8)"
      using False by (auto simp: bytes_word_def bit_simps dest: bit_imp_le_length)
    ultimately show ?thesis using Cons.IH [of "k - 8"] False by auto
  qed
qed

lemma bytes_word_bytes:
  fixes w :: "'a::len word"
  assumes "LENGTH('a) = 8 * n"
  shows "bytes_word (word_bytes n w) = w"
  by (rule bit_word_eqI) (use assms in \<open>auto simp: bit_bytes_word word_bytes_def bit_byte div8_less\<close>)

lemma load_store:
  fixes w :: "'a::len word"
  assumes "store_word n mem p w = Some mem'" "LENGTH('a) = 8 * n"
  shows "load_word n mem' p = Some w" "take n (drop p mem') = word_bytes n w"
  using assms(1) bytes_word_bytes [OF assms(2), of w] by (auto simp: store_word_def load_word_def split: if_splits)

lemma rev_word_bytes:
  assumes "\<And>i. i < n \<Longrightarrow> byte i w = byte (n - 1 - i) v"
  shows "word_bytes n w = rev (word_bytes n v)"
  using assms by (auto simp: word_bytes_def rev_nth intro!: nth_equalityI)

lemma swap_bytes_reversed:
  "word_bytes 2 (swap16 a) = rev (word_bytes 2 a)" "word_bytes 4 (swap32 b) = rev (word_bytes 4 b)"
  "word_bytes 8 (swap64 c) = rev (word_bytes 8 c)"
  using byte_swap16 [of _ a] byte_swap32 [of _ b] byte_swap64 [of _ c] by (auto intro!: rev_word_bytes)

lemma swap_twice: "swap16 (swap16 a) = a" "swap32 (swap32 b) = b" "swap64 (swap64 c) = c"
  by (rule word_bytes_eqI [of 2] word_bytes_eqI [of 4] word_bytes_eqI [of 8]; simp add: swap_bytes_reversed)+

text \<open>(roundtrip) A word that is stored in big endian order lies in memory with its most significant byte first,
  and reading it in big endian order gives it back.\<close>

theorem big_endian_roundtrip:
  assumes "htobem16 mem p a = Some m1" "htobem32 mem p b = Some m2" "htobem64 mem p c = Some m3"
  shows "bemtoh16 m1 p = Some a \<and> take 2 (drop p m1) = rev (word_bytes 2 a) \<and>
    bemtoh32 m2 p = Some b \<and> take 4 (drop p m2) = rev (word_bytes 4 b) \<and>
    bemtoh64 m3 p = Some c \<and> take 8 (drop p m3) = rev (word_bytes 8 c)"
  using load_store [OF assms(1) [unfolded htobem16_def]] load_store [OF assms(2) [unfolded htobem32_def]]
    load_store [OF assms(3) [unfolded htobem64_def]]
  by (simp add: bemtoh16_def bemtoh32_def bemtoh64_def htobe16_def htobe32_def htobe64_def swap_bytes_reversed swap_twice)

theorem big_endian_roundtrip_witness:
  "\<exists>m1 m2 m3. htobem16 (replicate 9 0) 1 0x1234 = Some m1 \<and> bemtoh16 m1 1 = Some 0x1234 \<and>
    htobem32 (replicate 9 0) 1 0x12345678 = Some m2 \<and> take 4 (drop 1 m2) = [0x12, 0x34, 0x56, 0x78] \<and>
    htobem64 (replicate 9 0) 1 1 = Some m3 \<and> bemtoh64 m3 1 = Some 1"
proof -
  obtain m1 m2 m3 where m: "htobem16 (replicate 9 0) 1 0x1234 = Some m1" "htobem32 (replicate 9 0) 1 0x12345678 = Some m2"
    "htobem64 (replicate 9 0) 1 1 = Some m3" by (simp add: htobem16_def htobem32_def htobem64_def store_word_def)
  have "rev (word_bytes 4 (0x12345678 :: u32)) = [0x12, 0x34, 0x56, 0x78]" by code_simp
  with m big_endian_roundtrip [OF m] show ?thesis by simp
qed

end
