(* ===== verification/Poweroff.thy ===== *)
theory Poweroff
  imports Prelude
begin

text \<open>
  Stopping the machine: \<open>bin/shutdown.c\<close> and \<open>bin/reboot.c\<close>.  What a command does is the list of what it
  asks of the hardware, in the order of the code; a request that stops or resets the machine would end
  the list early.  A result of None means that the command does not come back.  \<open>status i\<close> is what the
  keyboard controller answers to the i-th poll.
\<close>

datatype request =
    Say string           \<comment> \<open>a line on the screen\<close>
  | Inw nat
  | Inb nat
  | Outw nat u16
  | Outb nat u8
  | Delay nat
  | Cli
  | Sti
  | Lidt0                \<comment> \<open>load the null descriptor\<close>
  | Interrupt nat
  | Divide_by_zero
  | Halt_forever

text \<open>A step that may not come back, and the sequence of two of them.\<close>

type_synonym 'a act = "request list \<times> 'a option"

definition req :: "request list \<Rightarrow> unit act" where "req es = (es, Some ())"

definition stop :: "request list \<Rightarrow> 'a act" where "stop es = (es, None)"

fun andthen :: "'a act \<Rightarrow> ('a \<Rightarrow> 'b act) \<Rightarrow> 'b act" where
  "andthen (es, None) f = (es, None)"
| "andthen (es, Some a) f = (let (fs, b) = f a in (es @ fs, b))"

definition dash_f :: "string list \<Rightarrow> bool" where
  "dash_f argv \<longleftrightarrow> length argv > 1 \<and> take 2 (argv ! 1) = ''-f''"

section \<open>shutdown\<close>

definition detect_virtualbox :: "bool act" where "detect_virtualbox = ([Inw 0x4004], Some True)"

definition try_vbox_shutdown :: "bool act" where
  "try_vbox_shutdown =
     ([Say ''Attempting VirtualBox-specific shutdown...'', Outw 0x4004 0x2000, Delay 5000, Outw 0x604 0x2000, Delay 5000,
       Outw 0xB004 0x2000, Delay 5000], Some False)"

definition try_halt_shutdown :: "bool act" where
  "try_halt_shutdown =
     stop [Say ''Performing halt-based shutdown...'', Say ''System halted. You can now close the VM.'', Cli, Halt_forever]"

definition try_qemu_shutdown :: "bool act" where
  "try_qemu_shutdown =
     ([Say ''Attempting QEMU shutdown...'', Outw 0x501 0x501, Delay 5000, Outw 0x604 0x3400, Delay 10000], Some False)"

text \<open>The polls of the controller: the counter after the loop.\<close>

function poll_loop :: "(nat \<Rightarrow> u8) \<Rightarrow> nat \<Rightarrow> int \<Rightarrow> request list \<times> int" where
  "poll_loop status i timeout =
     (if timeout > 0 then
        if status i AND 0x02 = 0 then ([Inb 0x64, Inb 0x64], timeout - 1)
        else let (es, t) = poll_loop status (i + 1) (timeout - 1) in (Inb 0x64 # Inb 0x64 # Delay 100 # es, t)
      else ([], timeout - 1))"
  by pat_completeness auto
termination by (relation "measure (\<lambda>(_, _, t). nat t)") auto

declare poll_loop.simps [simp del]

definition try_keyboard_reset :: "(nat \<Rightarrow> u8) \<Rightarrow> bool act" where
  "try_keyboard_reset status =
     (let (es, timeout) = poll_loop status 0 1000 in
      if timeout \<le> 0
      then (Say ''Attempting keyboard controller reset...'' # es @ [Say ''Keyboard controller timeout''], Some False)
      else (Say ''Attempting keyboard controller reset...'' # es @ [Outb 0x64 0xFE, Delay 10000], Some False))"

definition shutdown_fallback_reset :: "(nat \<Rightarrow> u8) \<Rightarrow> unit act" where
  "shutdown_fallback_reset status =
     andthen (req [Say ''Initiating controlled system reset...'', Delay 100000, Cli]) (\<lambda>_.
     andthen (try_keyboard_reset status) (\<lambda>done.
       if done then ([], Some ())
       else stop [Say ''Forcing triple fault...'', Delay 50000, Lidt0, Interrupt 1, Halt_forever]))"

definition shutdown_main :: "(nat \<Rightarrow> u8) \<Rightarrow> string list \<Rightarrow> int act" where
  "shutdown_main status argv =
     (let force = dash_f argv in
      andthen (req (Say ''Initiating system shutdown sequence...'' # (if force then [Say ''Force shutdown requested''] else []))) (\<lambda>_.
      andthen detect_virtualbox (\<lambda>vbox.
      andthen (if vbox then andthen (req [Say ''VirtualBox environment detected'']) (\<lambda>_. try_vbox_shutdown) else ([], Some False)) (\<lambda>done.
        if done then ([], Some 0)
        else
          andthen (if \<not> force then andthen (req [Say ''No power-off method available. Halting system cleanly.'']) (\<lambda>_. try_halt_shutdown)
                   else ([], Some False)) (\<lambda>_.
          andthen try_qemu_shutdown (\<lambda>done.
            if done then ([], Some 0)
            else if force then
              andthen (req [Say ''All shutdown methods failed. Forcing system reset...'']) (\<lambda>_.
              andthen (shutdown_fallback_reset status) (\<lambda>_. ([], Some 0)))
            else ([Say ''Shutdown failed. System is still running.'', Say ''Use 'shutdown -f' to force a reset.''], Some 1)))))))"

section \<open>reboot\<close>

definition try_vbox_reboot :: "bool act" where
  "try_vbox_reboot = ([Say ''Attempting VirtualBox reboot...'', Outw 0x4004 0x2000, Delay 1000000], Some False)"

text \<open>The polls: whether the controller got ready before the counter was zero.\<close>

function wait_8042 :: "(nat \<Rightarrow> u8) \<Rightarrow> nat \<Rightarrow> int \<Rightarrow> request list \<times> bool" where
  "wait_8042 status i timeout =
     (let timeout = timeout - 1 in
      if timeout \<le> 0 then ([Inb 0x64, Delay 1], False)
      else if status i AND 0x02 \<noteq> 0
      then let (es, r) = wait_8042 status (i + 1) timeout in (Inb 0x64 # Delay 1 # es, r)
      else ([Inb 0x64, Delay 1], True))"
  by pat_completeness auto
termination by (relation "measure (\<lambda>(_, _, t). nat t)") auto

declare wait_8042.simps [simp del]

definition try_8042_reset :: "(nat \<Rightarrow> u8) \<Rightarrow> bool act" where
  "try_8042_reset status =
     (let (es, ready) = wait_8042 status 0 500000 in
      if \<not> ready then ([Say ''Attempting 8042 controller reset...'', Cli] @ es @ [Say ''8042 controller timeout.'', Sti], Some False)
      else ([Say ''Attempting 8042 controller reset...'', Cli] @ es @
        [Outb 0x64 0xFE, Delay 1, Say ''Reset command sent to 8042 controller.'', Delay 1000000, Sti], Some False))"

definition try_pci_reset :: "bool act" where
  "try_pci_reset = ([Say ''Attempting PCI reset...'', Outb 0xCF9 0x06, Delay 100000], Some False)"

definition reboot_fallback_reset :: "unit act" where
  "reboot_fallback_reset =
     stop [Say ''Attempting triple fault reset...'', Cli, Lidt0, Interrupt 3, Divide_by_zero, Halt_forever]"

definition reboot_main :: "(nat \<Rightarrow> u8) \<Rightarrow> string list \<Rightarrow> int act" where
  "reboot_main status argv =
     andthen (req (Say ''Initiating system reboot...'' # (if dash_f argv then [Say ''Forced reboot option detected...''] else []))) (\<lambda>_.
     andthen try_vbox_reboot (\<lambda>done.
       if done then ([], Some 0)
       else
         andthen try_pci_reset (\<lambda>done.
           if done then ([], Some 0)
           else
             andthen (try_8042_reset status) (\<lambda>done.
               if done then ([], Some 0)
               else
                 andthen (req [Say ''Primary reset methods failed, trying fallback...'']) (\<lambda>_.
                 andthen reboot_fallback_reset (\<lambda>_.
                   stop [Say ''All reboot methods failed! System halted.'', Halt_forever]))))))"

section \<open>Properties\<close>

lemma ex_poll:
  fixes P :: "nat \<Rightarrow> bool"
  shows "(\<exists>k. k + 1 < Suc n \<and> P (i + k)) \<longleftrightarrow> 0 < n \<and> P i \<or> (\<exists>k. k + 1 < n \<and> P (i + 1 + k))"
proof
  assume "\<exists>k. k + 1 < Suc n \<and> P (i + k)"
  then obtain k where "k + 1 < Suc n" "P (i + k)" by blast
  then show "0 < n \<and> P i \<or> (\<exists>k. k + 1 < n \<and> P (i + 1 + k))" by (cases k) auto
next
  assume "0 < n \<and> P i \<or> (\<exists>k. k + 1 < n \<and> P (i + 1 + k))"
  then show "\<exists>k. k + 1 < Suc n \<and> P (i + k)" by (elim disjE exE; force intro: exI [of _ 0] exI [of _ "Suc k" for k])
qed

lemma poll_loop_Suc:
  "poll_loop status i (int (Suc n)) =
     (if status i AND 0x02 = 0 then ([Inb 0x64, Inb 0x64], int n)
      else let (es, t) = poll_loop status (i + 1) (int n) in (Inb 0x64 # Inb 0x64 # Delay 100 # es, t))"
  by (subst poll_loop.simps) simp

lemma poll_loop_ready: "snd (poll_loop status i (int n)) > 0 \<longleftrightarrow> (\<exists>k. k + 1 < n \<and> status (i + k) AND 0x02 = 0)"
proof (induction n arbitrary: i)
  case 0
  then show ?case by (subst poll_loop.simps) simp
next
  case (Suc n)
  from Suc.IH [of "i + 1"] show ?case unfolding ex_poll [where P = "\<lambda>k. status k AND 0x02 = 0"] poll_loop_Suc by (auto split: prod.split)
qed

lemma poll_loop_reads: "set (fst (poll_loop status i (int n))) \<subseteq> {Inb 0x64, Delay 100}"
proof (induction n arbitrary: i)
  case 0
  then show ?case by (subst poll_loop.simps) simp
next
  case (Suc n)
  from this [of "i + 1"] show ?case unfolding poll_loop_Suc by (auto split: prod.split)
qed

lemma wait_8042_Suc:
  "wait_8042 status i (int (Suc n)) =
     (if n = 0 then ([Inb 0x64, Delay 1], False)
      else if status i AND 0x02 \<noteq> 0
      then let (es, r) = wait_8042 status (i + 1) (int n) in (Inb 0x64 # Delay 1 # es, r)
      else ([Inb 0x64, Delay 1], True))"
  by (subst wait_8042.simps) simp

lemma wait_8042_ready: "0 < n \<Longrightarrow> snd (wait_8042 status i (int n)) \<longleftrightarrow> (\<exists>k. k + 1 < n \<and> status (i + k) AND 0x02 = 0)"
proof (induction n arbitrary: i)
  case (Suc n)
  show ?case
  proof (cases "n = 0")
    case False
    with Suc.IH [of "i + 1"] show ?thesis
      unfolding ex_poll [where P = "\<lambda>k. status k AND 0x02 = 0"] wait_8042_Suc by (auto split: prod.split)
  next
    case True
    with wait_8042_Suc [of status i 0] show ?thesis by simp
  qed
qed simp

lemma wait_8042_reads: "0 < n \<Longrightarrow> set (fst (wait_8042 status i (int n))) \<subseteq> {Inb 0x64, Delay 1}"
proof (induction n arbitrary: i)
  case (Suc n)
  show ?case
  proof (cases "n = 0")
    case False
    with Suc.IH [of "i + 1"] show ?thesis unfolding wait_8042_Suc by (auto split: prod.split)
  next
    case True
    with wait_8042_Suc [of status i 0] show ?thesis by simp
  qed
qed simp

text \<open>(liveness) \<open>shutdown\<close> never comes back: it ends in the halt with interrupts off.  The reset is sent to the
  keyboard controller exactly when it is forced and one of the first 999 polls finds the controller ready.\<close>

theorem shutdown_never_returns:
  "\<exists>pre. shutdown_main status argv = (pre @ [Halt_forever], None) \<and> Cli \<in> set pre \<and>
    (Outb 0x64 0xFE \<in> set pre \<longleftrightarrow> dash_f argv \<and> (\<exists>k < 999. status k AND 0x02 = 0))"
proof -
  obtain es t where l: "poll_loop status 0 1000 = (es, t)" by fastforce
  then have r: "t > 0 \<longleftrightarrow> (\<exists>k. k < 999 \<and> status k AND 0x02 = 0)" "set es \<subseteq> {Inb 0x64, Delay 100}"
    using poll_loop_ready [of status 0 1000] poll_loop_reads [of status 0 1000] by simp_all
  show ?thesis
    using l r by (cases "t > 0"; cases "dash_f argv")
      (auto simp: shutdown_main_def shutdown_fallback_reset_def try_keyboard_reset_def try_halt_shutdown_def try_vbox_shutdown_def
        try_qemu_shutdown_def detect_virtualbox_def req_def stop_def Let_def)
qed

text \<open>The 1000th poll is in vain: the controller is ready then, and the timeout is reported.\<close>

lemma last_poll_lost:
  assumes "\<forall>k < 999. status k AND 0x02 \<noteq> 0"
  shows "Say ''Keyboard controller timeout'' \<in> set (fst (try_keyboard_reset status))"
proof -
  obtain es t where l: "poll_loop status 0 1000 = (es, t)" by fastforce
  then have "\<not> t > 0" using poll_loop_ready [of status 0 1000] assms by auto
  with l show ?thesis by (simp add: try_keyboard_reset_def)
qed

text \<open>\<open>reboot\<close> tries every method and never comes back.\<close>

theorem reboot_never_returns:
  "\<exists>pre. reboot_main status argv = (pre @ [Halt_forever], None) \<and>
    {Outw 0x4004 0x2000, Outb 0xCF9 0x06, Cli, Interrupt 3} \<subseteq> set pre \<and>
    (Outb 0x64 0xFE \<in> set pre \<longleftrightarrow> (\<exists>k < 499999. status k AND 0x02 = 0))"
proof -
  obtain es r where l: "wait_8042 status 0 500000 = (es, r)" by fastforce
  then have r: "r \<longleftrightarrow> (\<exists>k. k < 499999 \<and> status k AND 0x02 = 0)" "set es \<subseteq> {Inb 0x64, Delay 1}"
    using wait_8042_ready [of 500000 status 0] wait_8042_reads [of 500000 status 0] by simp_all
  show ?thesis
    using l r by (cases r)
      (auto simp: reboot_main_def try_8042_reset_def try_vbox_reboot_def try_pci_reset_def reboot_fallback_reset_def req_def stop_def Let_def)
qed

end
