(* ===== verification/Sysinfo.thy ===== *)
theory Sysinfo
  imports Prelude Strconv Stdio Vga Console Format Fs Fstools Process Cpu Calc Bitstr
begin

text \<open>
  Commands and services that report on the system: \<open>uname\<close>, \<open>whoami\<close>, \<open>tty\<close>, \<open>clear\<close>, \<open>ps\<close>, \<open>cpuinfo\<close> and \<open>fetch\<close> of
  \<open>bin/\<close>, the panic screen \<open>usr/drivers/panic.c\<close>, and the wrappers of \<open>usr/drivers/syscall.c\<close>.  The answers of
  the \<open>cpuid\<close> instruction and of the system call interrupt are arguments.
\<close>

section \<open>uname, whoami, tty and clear\<close>

definition OS_VERSION :: "u8 list" where "OS_VERSION = bytes ''0.1''"
definition OS_NAME :: "u8 list" where "OS_NAME = bytes ''Unics/i686 0.1-RELEASE''"
definition OS_HOSTNAME :: "u8 list" where "OS_HOSTNAME = bytes ''root''"
definition OS_ARCH :: "u8 list" where "OS_ARCH = bytes ''i686''"
definition OS_BUILD_VERSION :: "u8 list" where "OS_BUILD_VERSION = bytes ''0.1-20250621''"
definition OS :: "u8 list" where "OS = bytes ''Unics''"

definition uname_usage :: "u8 list option" where
  "uname_usage =
     map_option concat (those (map (\<lambda>l. line l [])
       [''Usage: uname [OPTION]...'', ''Print system information.'', '''', ''Options:'', '' -a Print all information'',
        '' -s Print kernel name'', '' -n Print network node hostname'', '' -r Print kernel release'',
        '' -m Print machine architecture'', '' -v Print kernel build version'', '' -o Print operating system'',
        '' --help Display this help'']))"

definition uname_field :: "u8 list \<Rightarrow> u8 list option" where
  "uname_field a =
     (if a = bytes ''-s'' then Some OS_NAME else if a = bytes ''-n'' then Some OS_HOSTNAME
      else if a = bytes ''-r'' then Some OS_VERSION else if a = bytes ''-m'' then Some OS_ARCH
      else if a = bytes ''-v'' then Some OS_BUILD_VERSION else if a = bytes ''-o'' then Some OS else None)"

fun uname_loop :: "bool \<Rightarrow> u8 list list \<Rightarrow> exit_output" where
  "uname_loop printed [] = Some (0, if printed then [10] else [])"
| "uname_loop printed (a # as) =
     (if a = bytes ''--help'' then answer 0 uname_usage
      else if a = bytes ''-a'' then
        do { msg \<leftarrow> printf (bytes ''%s %s %s %s %s %s'')
               (map str_arg [OS_NAME, OS_HOSTNAME, OS_VERSION, OS_BUILD_VERSION, OS_ARCH, OS]);
             (code, out) \<leftarrow> uname_loop True as;
             Some (code, msg @ out) }
      else case uname_field a of
        Some field \<Rightarrow>
          do { msg \<leftarrow> printf (bytes ''%s'') [str_arg field];
               (code, out) \<leftarrow> uname_loop True as;
               Some (code, (if printed then [32] else []) @ msg @ out) }
      | None \<Rightarrow>
          do { msg \<leftarrow> line ''uname: invalid option `%s`'' [str_arg a];
               usage \<leftarrow> uname_usage;
               Some (1, msg @ usage) })"

definition uname_main :: "u8 list list \<Rightarrow> exit_output" where
  "uname_main argv = (if length argv = 1 then answer 0 (line ''%s'' [str_arg OS_NAME]) else uname_loop False (tl argv))"

definition whoami_main :: exit_output where
  "whoami_main = answer 0 (map_option (\<lambda>m. m @ [10]) (printf OS_HOSTNAME []))"

definition tty_main :: "u8 list list \<Rightarrow> exit_output" where
  "tty_main argv = (if length argv > 1 then answer 1 (line ''Usage: tty'' []) else answer 0 (line ''/dev/shell/'' []))"

definition clear_main :: "int \<times> vga_op list" where "clear_main = (0, [VClear])"

section \<open>ps\<close>

definition ps_row :: "int \<times> int \<times> string \<times> string \<Rightarrow> u8 list option" where
  "ps_row row = (case row of (pid, ppid, state, name) \<Rightarrow>
     line ''%-5d %-5d %-9s %s'' [int_arg pid, int_arg ppid, name_arg state, name_arg name])"

definition ps_main :: "ptable \<Rightarrow> exit_output" where
  "ps_main s =
     do { head \<leftarrow> line ''%-5s %-5s %-9s %s'' (map name_arg [''PID'', ''PPID'', ''STATE'', ''CMD'']);
          rows \<leftarrow> those (map ps_row (process_list s));
          Some (0, head @ concat rows) }"

section \<open>cpuinfo and fetch\<close>

text \<open>The lines: a heading, or a label and the place of its byte in the structure.\<close>

definition cpuinfo_lines :: "(string + string \<times> nat) list" where
  "cpuinfo_lines =
     [Inl '''', Inl ''CPU Information:'', Inl ''================='', Inl ''-- Core Features --'',
      Inr (''FPU:         '', 0), Inr (''VME:         '', 1), Inr (''DE:          '', 2), Inr (''PSE:         '', 3),
      Inr (''TSC:         '', 4), Inr (''MSR:         '', 5), Inr (''MCA:         '', 13), Inr (''CMPXCHG8B:   '', 8),
      Inr (''APIC:        '', 9), Inl '''', Inl ''-- Memory Management --'', Inr (''PAE:         '', 6),
      Inr (''PGE:         '', 12), Inr (''MTRR:        '', 11), Inr (''PAT:         '', 15), Inr (''PSE-36:      '', 16),
      Inl '''', Inl ''-- SIMD Extensions --'', Inr (''MMX:         '', 21), Inr (''SSE:         '', 23),
      Inr (''SSE2:        '', 24), Inr (''SSE3:        '', 30), Inr (''SSSE3:       '', 39), Inr (''SSE4.1:      '', 48),
      Inr (''SSE4.2:      '', 49), Inr (''AVX:         '', 57), Inr (''FMA:         '', 42),
      Inl '''', Inl ''-- Advanced Features --'', Inr (''VMX:         '', 35), Inr (''SMX:         '', 36),
      Inr (''AES-NI:      '', 54), Inr (''RDRAND:      '', 59), Inl '''', Inl ''-- Power Management --'',
      Inr (''ACPI:        '', 20), Inr (''EST:         '', 37), Inr (''TM:          '', 27), Inr (''TM2:         '', 38),
      Inl '''', Inl ''-- Other Features --'', Inr (''Hypervisor:  '', 60), Inr (''HTT:         '', 26),
      Inr (''POPCNT:      '', 52), Inr (''XSAVE:       '', 55)]"

definition cpuinfo_line :: "u8 list \<Rightarrow> string + string \<times> nat \<Rightarrow> u8 list option" where
  "cpuinfo_line features l =
     (case l of Inl h \<Rightarrow> line h []
      | Inr (label, k) \<Rightarrow> line (label @ ''%s'') [name_arg (if has features k then ''Yes'' else ''No'')])"

definition cpuinfo_main :: "u8 list \<Rightarrow> exit_output" where
  "cpuinfo_main features = answer 0 (map_option concat (those (map (cpuinfo_line features) cpuinfo_lines)))"

text \<open>The answer of \<open>cpuid\<close>: eax, ebx, ecx and edx.  The 12 words of the brand lie in memory as bytes.\<close>

definition cpu_brand :: "(u32 \<Rightarrow> u32 list) \<Rightarrow> u8 list" where
  "cpu_brand cpuid = concat (map (\<lambda>leaf. concat (map (word_bytes 4) (take 4 (cpuid leaf)))) [0x80000002, 0x80000003, 0x80000004])"

definition print_cpu_brand :: "(u32 \<Rightarrow> u32 list) \<Rightarrow> u8 list option" where
  "print_cpu_brand cpuid =
     (if hd (cpuid 0x80000000) \<ge> 0x80000004
      then printf (bytes ''%.48s'') [str_arg (takeWhile (\<lambda>c. c \<noteq> 0) (dropWhile (\<lambda>c. c = 32) (cpu_brand cpuid)))]
      else printf (bytes ''Unknown CPU'') [])"

definition fetch_head :: "string list" where
  "fetch_head =
     ['''', ''                        `          root@unics'', ''  `.`....---.......--.```   -/     ------------'',
      ''  +o   .--`         /y:`      +.   OS: Unics/i686 0.1-RELEASE'', ''   yo`:.            :o      `+-    Host: root'',
      ''    y/               -/`   -o/     Kernel: 0.1'', ''   .-                  ::/sy+:.    resolution: 640x400'',
      ''   /                     `--  /    fs: unics_fs'', ''  `:                          :`   Shell: sh'']"

definition fetch_tail :: "string list" where
  "fetch_tail =
     ['''', ''   /                          /    '', ''   .-                        -.    '', ''    --                      -.     '',
      ''     `:`                  `:`      '', ''       .--             `--.        '', ''          .---.....----.           '',
      ''                                   '']"

definition fetch_main :: "(u32 \<Rightarrow> u32 list) \<Rightarrow> exit_output" where
  "fetch_main cpuid =
     do { brand \<leftarrow> print_cpu_brand cpuid;
          Some (0, concat (map (\<lambda>l. bytes l @ [10]) fetch_head) @ bytes ''  `:                          :`   CPU: '' @ brand @
                   concat (map (\<lambda>l. bytes l @ [10]) fetch_tail)) }"

section \<open>The panic screen\<close>

text \<open>The calls of the screen driver, after which the machine halts for good; the line number becomes an \<open>int\<close>.\<close>

definition panic :: "u8 list option \<Rightarrow> u8 list option \<Rightarrow> u32 \<Rightarrow> vga_op list option" where
  "panic message file line_number =
     do { line_str \<leftarrow> itoa (sint line_number) 10;
          Some [VColor 15 4, VClear, VColor 14 4, VPutsAt (Some (bytes '' KERNEL PANIC '')) ((80 - 14) div 2) 0, VColor 15 4,
            VPutsAt (Some (bytes ''ERROR: '')) 2 2,
            VPutsAt (Some (case message of Some m \<Rightarrow> m | None \<Rightarrow> bytes ''(no message)'')) 9 2,
            VPutsAt (Some (bytes ''File: '')) 2 4,
            VPutsAt (Some (case file of Some f \<Rightarrow> f | None \<Rightarrow> bytes ''(unknown)'')) 8 4,
            VPutsAt (Some (bytes ''Line: '')) 2 5, VPutsAt (Some line_str) 8 5,
            VPutsAt (Some (replicate 55 61)) ((80 - 55) div 2) 7,
            VPutsAt (Some (bytes ''System halted. No safe recovery possible.'')) 2 9] }"

section \<open>System calls\<close>

text \<open>The interrupt 0x80: the registers eax, ebx, ecx, edx, esi and edi, and the answer in eax.\<close>

type_synonym gate = "int \<Rightarrow> int list \<Rightarrow> int"

definition syscall :: "gate \<Rightarrow> int \<Rightarrow> int list \<Rightarrow> int" where "syscall int80 number args = int80 number (take 5 (args @ replicate 5 0))"

definition sys_exit :: "gate \<Rightarrow> int \<Rightarrow> int" where "sys_exit int80 status = syscall int80 1 [status]"
definition sys_read :: "gate \<Rightarrow> int \<Rightarrow> u32 \<Rightarrow> u32 \<Rightarrow> int" where "sys_read int80 fd buf count = syscall int80 3 [fd, sint buf, sint count]"
definition sys_write :: "gate \<Rightarrow> int \<Rightarrow> u32 \<Rightarrow> u32 \<Rightarrow> int" where "sys_write int80 fd buf count = syscall int80 4 [fd, sint buf, sint count]"
definition sys_open :: "gate \<Rightarrow> u32 \<Rightarrow> int \<Rightarrow> int \<Rightarrow> int" where "sys_open int80 pathname flags mode = syscall int80 5 [sint pathname, flags, mode]"
definition sys_close :: "gate \<Rightarrow> int \<Rightarrow> int" where "sys_close int80 fd = syscall int80 6 [fd]"
definition sys_lseek :: "gate \<Rightarrow> int \<Rightarrow> int \<Rightarrow> int \<Rightarrow> int" where "sys_lseek int80 fd offset whence = syscall int80 19 [fd, offset, whence]"
definition sys_getpid :: "gate \<Rightarrow> int" where "sys_getpid int80 = syscall int80 20 []"

section \<open>Properties\<close>

text \<open>The fields of \<open>uname\<close> stand side by side with blanks between them; after another option \<open>-a\<close> has no blank before it.\<close>

fun blank_sep :: "bool \<Rightarrow> u8 list list \<Rightarrow> u8 list" where
  "blank_sep printed [] = []"
| "blank_sep printed (f # fs) = (if printed then [32] else []) @ f @ blank_sep True fs"

lemma printf_s: "printf (bytes ''%s'') [str_arg f] = Some f"
proof -
  have "bytes ''%s'' = [37, 115]" by code_simp
  then show ?thesis by (intro printf_text) (simp add: str_arg_def ch_def)
qed

lemma uname_field_opts: "uname_field a = Some f \<Longrightarrow> a \<noteq> bytes ''--help'' \<and> a \<noteq> bytes ''-a''"
proof -
  have "list_all (\<lambda>b. uname_field b = None) [bytes ''--help'', bytes ''-a'']" by code_simp
  then show "uname_field a = Some f \<Longrightarrow> ?thesis" by auto
qed

lemma uname_fields:
  assumes "those (map uname_field opts) = Some fds"
  shows "uname_loop printed opts = Some (0, blank_sep printed fds @ (if printed \<or> opts \<noteq> [] then [10] else []))"
  using assms
proof (induction opts arbitrary: printed fds)
  case (Cons a opts)
  then obtain f fs where "uname_field a = Some f" "those (map uname_field opts) = Some fs" "fds = f # fs"
    by (auto split: option.splits)
  with Cons.IH [of fs True] uname_field_opts [of a f] show ?case by (simp add: printf_s)
qed simp

lemma uname_all_glued: "uname_main (map bytes [''uname'', ''-o'', ''-a'']) =
    Some (0, bytes ''UnicsUnics/i686 0.1-RELEASE root 0.1 0.1-20250621 i686 Unics'' @ [10])"
  by code_simp

text \<open>The panic screen never leaves the buffer, whatever the state of the screen, and shows the message.\<close>

lemma panic_safe:
  assumes "vga_inv v"
  shows "\<exists>ops w. panic message file line_number = Some ops \<and> run_ops vga_step ops v = Some w \<and> vga_inv w"
proof -
  obtain s where "itoa (sint line_number) 10 = Some s" using itoa_ends [OF sint_range [of line_number], of 10] by auto
  then obtain ops where p: "panic message file line_number = Some ops" "\<forall>x \<in> set ops. vga_op_ok x"
    by (simp add: panic_def)
  then show ?thesis using screen.run_safe [OF assms p(2)] by blast
qed

end
