(* ===== verification/Termios.thy ===== *)
theory Termios
  imports Prelude
begin

text \<open>
  Terminal attributes, \<open>lib/libc/termios.c\<close>, \<open>errno\<close> of \<open>lib/libc/errno.c\<close>, and the database handles of
  \<open>lib/db/db.c\<close>.  The device behind \<open>ioctl\<close>, which has no definition in the repository, is an argument: from
  the descriptor, the request and the world to the result, what it stores, and the world.
\<close>

section \<open>Requests\<close>

record termios =
  c_iflag :: u32
  c_oflag :: u32
  c_cflag :: u32
  c_lflag :: u32
  c_cc :: "u8 list"
  c_ispeed :: u32
  c_ospeed :: u32

datatype ioctl_req =
    TIOCDRAIN | TIOCSTOP int | TIOCSTART int | TIOCFLUSH int | TIOCGETA | TIOCGSID | TIOCSBRK | TIOCCBRK
  | TIOCSETA termios | TIOCSETAW termios | TIOCSETAF termios

datatype ioctl_reply = Nothing | Attributes termios | Session int

type_synonym 'w device = "int \<Rightarrow> ioctl_req \<Rightarrow> 'w \<Rightarrow> int \<times> ioctl_reply \<times> 'w"

text \<open>The error number and the world.\<close>

type_synonym 'w tty = "int \<times> 'w"

abbreviation EBADF :: int where "EBADF \<equiv> 9"
abbreviation EINVAL :: int where "EINVAL \<equiv> 22"

definition errno_location :: "'w tty \<Rightarrow> int" where "errno_location t = fst t"

definition set_errno :: "int \<Rightarrow> 'w tty \<Rightarrow> 'w tty" where "set_errno e t = (e, snd t)"

definition ioctl :: "'w device \<Rightarrow> int \<Rightarrow> ioctl_req \<Rightarrow> 'w tty \<Rightarrow> int \<times> ioctl_reply \<times> 'w tty" where
  "ioctl dev fd r t = (let (n, x, w) = dev fd r (snd t) in (n, x, fst t, w))"

definition ioctl_result :: "'w device \<Rightarrow> int \<Rightarrow> ioctl_req \<Rightarrow> 'w tty \<Rightarrow> int \<times> 'w tty" where
  "ioctl_result dev fd r t = (let (n, x, t) = ioctl dev fd r t in (n, t))"

definition fail_with :: "int \<Rightarrow> 'w tty \<Rightarrow> int \<times> 'w tty" where "fail_with e t = (-1, set_errno e t)"

section \<open>Speeds\<close>

definition cfgetispeed :: "termios option \<Rightarrow> 'w tty \<Rightarrow> u32 \<times> 'w tty" where
  "cfgetispeed p t = (case p of None \<Rightarrow> (-1, set_errno EINVAL t) | Some a \<Rightarrow> (c_ispeed a, t))"

definition cfgetospeed :: "termios option \<Rightarrow> 'w tty \<Rightarrow> u32 \<times> 'w tty" where
  "cfgetospeed p t = (case p of None \<Rightarrow> (-1, set_errno EINVAL t) | Some a \<Rightarrow> (c_ospeed a, t))"

text \<open>The sixteen codes B0 to B38400 are 0 to 15; the result, the attributes, the state.\<close>

definition cfsetispeed :: "termios option \<Rightarrow> u32 \<Rightarrow> 'w tty \<Rightarrow> int \<times> termios option \<times> 'w tty" where
  "cfsetispeed p speed t =
     (case p of
        None \<Rightarrow> (-1, None, set_errno EINVAL t)
      | Some a \<Rightarrow> if speed < 16 then (0, Some (a\<lparr>c_ispeed := speed\<rparr>), t) else (-1, Some a, set_errno EINVAL t))"

definition cfsetospeed :: "termios option \<Rightarrow> u32 \<Rightarrow> 'w tty \<Rightarrow> int \<times> termios option \<times> 'w tty" where
  "cfsetospeed p speed t =
     (case p of
        None \<Rightarrow> (-1, None, set_errno EINVAL t)
      | Some a \<Rightarrow> if speed < 16 then (0, Some (a\<lparr>c_ospeed := speed\<rparr>), t) else (-1, Some a, set_errno EINVAL t))"

section \<open>Control\<close>

definition tcdrain :: "'w device \<Rightarrow> int \<Rightarrow> 'w tty \<Rightarrow> int \<times> 'w tty" where
  "tcdrain dev fd t = (if fd < 0 then fail_with EBADF t else ioctl_result dev fd TIOCDRAIN t)"

definition tcflow :: "'w device \<Rightarrow> int \<Rightarrow> int \<Rightarrow> 'w tty \<Rightarrow> int \<times> 'w tty" where
  "tcflow dev fd action t =
     (if fd < 0 then fail_with EBADF t
      else if action = 0 then ioctl_result dev fd (TIOCSTOP 1) t
      else if action = 1 then ioctl_result dev fd (TIOCSTART 1) t
      else if action = 2 then ioctl_result dev fd (TIOCSTOP 0) t
      else if action = 3 then ioctl_result dev fd (TIOCSTART 0) t
      else fail_with EINVAL t)"

definition tcflush :: "'w device \<Rightarrow> int \<Rightarrow> int \<Rightarrow> 'w tty \<Rightarrow> int \<times> 'w tty" where
  "tcflush dev fd queue_selector t =
     (if fd < 0 then fail_with EBADF t
      else if queue_selector = 0 then ioctl_result dev fd (TIOCFLUSH 1) t
      else if queue_selector = 1 then ioctl_result dev fd (TIOCFLUSH 2) t
      else if queue_selector = 2 then ioctl_result dev fd (TIOCFLUSH 3) t
      else fail_with EINVAL t)"

text \<open>The attributes that are stored through the pointer, if it is not null.\<close>

definition tcgetattr :: "'w device \<Rightarrow> int \<Rightarrow> termios option \<Rightarrow> 'w tty \<Rightarrow> int \<times> termios option \<times> 'w tty" where
  "tcgetattr dev fd p t =
     (if fd < 0 \<or> p = None then (-1, p, set_errno EINVAL t)
      else let (n, x, t) = ioctl dev fd TIOCGETA t in (n, (case x of Attributes a \<Rightarrow> Some a | _ \<Rightarrow> p), t))"

definition tcgetsid :: "'w device \<Rightarrow> int \<Rightarrow> int \<Rightarrow> 'w tty \<Rightarrow> int \<times> 'w tty" where
  "tcgetsid dev garbage fd t =
     (if fd < 0 then fail_with EBADF t
      else let (n, x, t) = ioctl dev fd TIOCGSID t in
           if n = -1 then (-1, t) else ((case x of Session sid \<Rightarrow> sid | _ \<Rightarrow> garbage), t))"

text \<open>The delay has no effect but time.\<close>

definition tcsendbreak :: "'w device \<Rightarrow> int \<Rightarrow> int \<Rightarrow> 'w tty \<Rightarrow> int \<times> 'w tty" where
  "tcsendbreak dev fd duration t =
     (if fd < 0 then fail_with EBADF t
      else if duration = 0 then ioctl_result dev fd TIOCSBRK t
      else if duration > 0 then
        let (n, t) = ioctl_result dev fd TIOCSBRK t in
        if n = -1 then (-1, t) else ioctl_result dev fd TIOCCBRK t
      else fail_with EINVAL t)"

definition tcsetattr :: "'w device \<Rightarrow> int \<Rightarrow> int \<Rightarrow> termios option \<Rightarrow> 'w tty \<Rightarrow> int \<times> 'w tty" where
  "tcsetattr dev fd optional_actions p t =
     (case p of
        None \<Rightarrow> fail_with EINVAL t
      | Some a \<Rightarrow>
          if fd < 0 then fail_with EINVAL t
          else if optional_actions = 0 then ioctl_result dev fd (TIOCSETA a) t
          else if optional_actions = 1 then ioctl_result dev fd (TIOCSETAW a) t
          else if optional_actions = 2 then ioctl_result dev fd (TIOCSETAF a) t
          else fail_with EINVAL t)"

section \<open>Database handles\<close>

datatype db_type = DB_BTREE | DB_HASH | DB_RECNO

record db =
  dbt :: db_type
  internal :: "u32 option"

text \<open>The block of the handle is an answer of the heap.\<close>

definition typed_open :: "db_type \<Rightarrow> bool \<Rightarrow> db option" where
  "typed_open ty served = (if \<not> served then None else Some \<lparr>dbt = ty, internal = None\<rparr>)"

definition btree_open :: "bool \<Rightarrow> db option" where "btree_open = typed_open DB_BTREE"
definition hash_open :: "bool \<Rightarrow> db option" where "hash_open = typed_open DB_HASH"
definition recno_open :: "bool \<Rightarrow> db option" where "recno_open = typed_open DB_RECNO"

definition dbopen :: "bool \<Rightarrow> int \<Rightarrow> 'w tty \<Rightarrow> db option \<times> 'w tty" where
  "dbopen served ty t =
     (if ty = 0 then (btree_open served, t) else if ty = 1 then (hash_open served, t)
      else if ty = 2 then (recno_open served, t) else (None, set_errno EINVAL t))"

text \<open>The methods; closing gives the blocks back.\<close>

definition db_close :: "db option \<Rightarrow> int \<times> u32 list" where
  "db_close d = (case d of None \<Rightarrow> (-1, []) | Some d \<Rightarrow> (0, case internal d of Some p \<Rightarrow> [p] | None \<Rightarrow> []))"

definition db_method :: int where "db_method = -1"
definition db_fd :: int where "db_fd = -1"

section \<open>Properties\<close>

text \<open>A negative descriptor, a null pointer and an unknown code never reach the device, and set the error number.\<close>

datatype tty_call =
    Drain int | Flow int int | Flush int int | SendBreak int int | SetAttr int int "termios option"

fun tty_run :: "'w device \<Rightarrow> tty_call \<Rightarrow> 'w tty \<Rightarrow> int \<times> 'w tty" where
  "tty_run dev (Drain fd) t = tcdrain dev fd t"
| "tty_run dev (Flow fd a) t = tcflow dev fd a t"
| "tty_run dev (Flush fd q) t = tcflush dev fd q t"
| "tty_run dev (SendBreak fd d) t = tcsendbreak dev fd d t"
| "tty_run dev (SetAttr fd a p) t = tcsetattr dev fd a p t"

fun bad_call :: "tty_call \<Rightarrow> int option" where
  "bad_call (Drain fd) = (if fd < 0 then Some EBADF else None)"
| "bad_call (Flow fd a) = (if fd < 0 then Some EBADF else if a < 0 \<or> 3 < a then Some EINVAL else None)"
| "bad_call (Flush fd q) = (if fd < 0 then Some EBADF else if q < 0 \<or> 2 < q then Some EINVAL else None)"
| "bad_call (SendBreak fd d) = (if fd < 0 then Some EBADF else if d < 0 then Some EINVAL else None)"
| "bad_call (SetAttr fd a p) = (if fd < 0 \<or> p = None \<or> a < 0 \<or> 2 < a then Some EINVAL else None)"

lemma less_small: "(a :: int) < 0 \<or> 3 < a \<or> a \<in> {0, 1, 2, 3}" "(a :: int) < 0 \<or> 2 < a \<or> a \<in> {0, 1, 2}"
  by auto

text \<open>(error) A call with a bad argument returns -1, sets the error number and leaves the device alone; a good
  one leaves the error number to the device.\<close>

theorem tty_errors:
  "case bad_call c of
     Some e \<Rightarrow> tty_run dev c t = (-1, e, snd t)
   | None \<Rightarrow> fst (snd (tty_run dev c t)) = fst t"
proof (cases c)
  case (Flow fd a)
  with less_small(1) [of a] show ?thesis
    by (auto simp: tcflow_def fail_with_def set_errno_def ioctl_result_def ioctl_def split: prod.split)
next
  case (Flush fd q)
  with less_small(2) [of q] show ?thesis
    by (auto simp: tcflush_def fail_with_def set_errno_def ioctl_result_def ioctl_def split: prod.split)
next
  case (SetAttr fd a p)
  with less_small(2) [of a] show ?thesis
    by (cases p) (auto simp: tcsetattr_def fail_with_def set_errno_def ioctl_result_def ioctl_def split: prod.split)
qed (auto simp: tcdrain_def tcsendbreak_def fail_with_def set_errno_def ioctl_result_def ioctl_def split: prod.split)

lemma speed_roundtrip:
  assumes "speed < 16"
  shows "\<exists>a'. cfsetispeed (Some a) speed t = (0, Some a', t) \<and> cfgetispeed (Some a') t = (speed, t)"
    "\<exists>a'. cfsetospeed (Some a) speed t = (0, Some a', t) \<and> cfgetospeed (Some a') t = (speed, t)"
  using assms by (auto simp: cfsetispeed_def cfgetispeed_def cfsetospeed_def cfgetospeed_def)

end
