(* ===== verification/Commands.thy ===== *)
theory Commands
  imports Prelude Vga Fs Process Keyboard Scan Timelib Shell Shellrun Session Fstools Fscmds Cpu Boot Ed Calc Figlet
    Poweroff Sysinfo
begin

text \<open>
  The table of the commands, \<open>shell_commands\<close> of \<open>dev/shell/shell.c\<close>, with the commands of \<open>bin\<close> on the state
  of the kernel, and \<open>sleep\<close>.  An environment says what the heap, the clock, the processor and the keyboard
  controller answer, what uninitialized arrays hold, and the color of the screen.
\<close>

record commands_env =
  ce_files :: env
  ce_heap :: "kernel \<Rightarrow> alloc"
  ce_clock :: "kernel \<Rightarrow> u64"
  ce_color :: "kernel \<Rightarrow> u8"
  ce_features :: "kernel \<Rightarrow> u8 list"
  ce_cpuid :: "u32 \<Rightarrow> u32 list"
  ce_line :: "kernel \<Rightarrow> u8 list"
  ce_ports :: "kernel \<Rightarrow> u8 list"
  ce_status :: "nat \<Rightarrow> u8"
  ce_seconds :: "u8 list \<Rightarrow> timespec option"

section \<open>sleep\<close>

text \<open>
  What the arithmetic on \<open>double\<close> makes of the argument is an argument here: None if \<open>strtod\<close> does not read
  all of it or it is negative, else the seconds and nanoseconds.
\<close>

definition sleep_main :: "(u8 list \<Rightarrow> timespec option) \<Rightarrow> u8 list list \<Rightarrow> exit_output" where
  "sleep_main seconds argv =
     (if length argv \<noteq> 2 then
        answer 1 (do { a \<leftarrow> line ''Usage: %s <time>'' [str_arg (argv ! 0)];
                       b \<leftarrow> line ''Pauses execution for the specified time (100 units = 1 second)'' [];
                       Some (a @ b) })
      else
        case seconds (argv ! 1) of
          None \<Rightarrow> answer 1 (line ''Error: Invalid time specification `%s`'' [str_arg (argv ! 1)])
        | Some t \<Rightarrow> do { (_, r) \<leftarrow> nanosleep t True; if r = 0 then Some (0, []) else None })"

section \<open>Commands on the state of the kernel\<close>

definition with_text :: "(u8 list list \<Rightarrow> exit_output) \<Rightarrow> kernel main" where
  "with_text f argv ctx input k = do { (status, out) \<leftarrow> f argv; Some (status, shown out, ctx, input, k) }"

definition with_files :: "(string list \<Rightarrow> fs \<Rightarrow> result) \<Rightarrow> kernel main" where
  "with_files f argv ctx input k =
     do { (status, out, s) \<leftarrow> f (map name_of argv) (k_fs k); Some (status, shown out, ctx, input, k\<lparr>k_fs := s\<rparr>) }"

text \<open>The keys as \<open>getchar\<close> takes them from \<open>kb_getchar\<close>, which returns a \<open>char\<close>, and the keys that are left.\<close>

definition console :: "u8 list \<Rightarrow> kernel \<Rightarrow> stdin" where
  "console input k = (k_stdin k)\<lparr>keys := map sint input, screen := []\<rparr>"

definition keys_left :: "stdin \<Rightarrow> u8 list" where "keys_left i = map word_of_int (keys i)"

definition no_keys :: "stdin \<Rightarrow> stdin" where "no_keys i = i\<lparr>keys := [], screen := []\<rparr>"

definition bc_command :: "commands_env \<Rightarrow> kernel main" where
  "bc_command env argv ctx input k =
     do { (status, i) \<leftarrow> bc_main (ce_line env k) argv (console input k);
          Some (status, shown (screen i), ctx, keys_left i, k\<lparr>k_stdin := no_keys i\<rparr>) }"

text \<open>\<open>exit\<close> in the editor does not come back.\<close>

definition ed_command :: "commands_env \<Rightarrow> kernel main" where
  "ed_command env argv ctx input k =
     (case k_ed k of (b, sz, len, ins) \<Rightarrow>
        do { r \<leftarrow> ed_main (ce_heap env k) (ce_clock env k)
               \<lparr>ed_buffer = b, ed_size = sz, ed_len = len, ed_insert = ins, ed_in = console input k, ed_fs = k_fs k\<rparr>;
             case r of
               Exited e \<Rightarrow> None
             | Finished status e \<Rightarrow>
                 Some (status, shown (screen (ed_in e)), ctx, keys_left (ed_in e),
                   k\<lparr>k_fs := ed_fs e, k_stdin := no_keys (ed_in e),
                     k_ed := (ed_buffer e, ed_size e, ed_len e, ed_insert e)\<rparr>) })"

definition cd_command :: "kernel main" where
  "cd_command argv ctx input k =
     do { (status, out, s, cwd) \<leftarrow> cd_main (map name_of argv) (k_fs k) (k_cwd k);
          Some (status, shown out, ctx, input, k\<lparr>k_fs := s, k_cwd := cwd\<rparr>) }"

definition ls_command :: "commands_env \<Rightarrow> kernel main" where
  "ls_command env argv ctx input k = do { out \<leftarrow> ls_main (ce_color env k) (k_fs k); Some (0, out, ctx, input, k) }"

definition clear_command :: "kernel main" where
  "clear_command argv ctx input k = (case clear_main of (status, out) \<Rightarrow> Some (status, out, ctx, input, k))"

definition ps_command :: "kernel main" where
  "ps_command argv ctx input k = with_text (\<lambda>_. ps_main (k_procs k)) argv ctx input k"

definition cpuinfo_command :: "commands_env \<Rightarrow> kernel main" where
  "cpuinfo_command env argv ctx input k = with_text (\<lambda>_. cpuinfo_main (ce_features env k)) argv ctx input k"

definition figlet_command :: "commands_env \<Rightarrow> kernel main" where
  "figlet_command env argv ctx input k = with_text (figlet_main (ce_heap env k)) argv ctx input k"

definition rand_command :: "kernel main" where
  "rand_command argv ctx input k =
     do { (seed, status, out) \<leftarrow> rand_main argv (k_seed k); Some (status, shown out, ctx, input, k\<lparr>k_seed := seed\<rparr>) }"

text \<open>\<open>yes\<close> reads the ports itself while it runs; the keys behind it are not touched.\<close>

definition yes_command :: "commands_env \<Rightarrow> kernel main" where
  "yes_command env argv ctx input k =
     do { (status, out, kb, _) \<leftarrow> yes_main argv (k_kb k) (ce_ports env k);
          Some (status, shown out, ctx, input, k\<lparr>k_kb := kb\<rparr>) }"

definition said :: "request list \<Rightarrow> u8 list" where
  "said es = concat (map (\<lambda>e. case e of Say l \<Rightarrow> bytes l @ [10] | _ \<Rightarrow> []) es)"

definition power_command :: "((nat \<Rightarrow> u8) \<Rightarrow> string list \<Rightarrow> int act) \<Rightarrow> commands_env \<Rightarrow> kernel main" where
  "power_command f env argv ctx input k =
     (case f (ce_status env) (map name_of argv) of
        (es, None) \<Rightarrow> None
      | (es, Some status) \<Rightarrow> Some (status, shown (said es), ctx, input, k))"

section \<open>The table\<close>

definition commands_with :: "commands_env \<Rightarrow> kernel main \<Rightarrow> (string \<times> string \<times> kernel main) list" where
  "commands_with env help =
     [(''bc'', ''Launch a basic calculator'', bc_command env),
      (''cat'', ''Display the contents of a file'', with_files cat_main),
      (''cd'', ''Change the current directory'', cd_command),
      (''cp'', ''Copy a file to a destination'', with_files (cp_main (ce_files env))),
      (''clear'', ''Clear the terminal screen'', clear_command),
      (''cowsay'', ''Display a message from a talking cow'', with_text cowsay_main),
      (''cpuinfo'', ''Show processor information'', cpuinfo_command env),
      (''echo'', ''Print a line of text'', with_text echo_main),
      (''ed'', ''Launch a simple text editor'', ed_command env),
      (''exit'', ''Exit the shell'', exit_main),
      (''expr'', ''Evaluate an arithmetic expression'', with_text expr_main),
      (''factor'', ''Show the prime factors of a number'', with_text factor_main),
      (''fetch'', ''Display system information'', with_text (\<lambda>_. fetch_main (ce_cpuid env))),
      (''figlet'', ''Transform normal text into ASCII art'', figlet_command env),
      (''help'', ''Show this help message'', help),
      (''history'', ''Show command history'', history_main),
      (''ls'', ''List files in the current directory'', ls_command env),
      (''mkdir'', ''Create a new directory'', with_files (mkdir_main (ce_files env))),
      (''mv'', ''Move or rename a file or directory'', with_files mv_main),
      (''ps'', ''List running processes'', ps_command),
      (''pwd'', ''Show the current working directory'', with_files (\<lambda>_. pwd_main)),
      (''rand'', ''Generate a random number'', rand_command),
      (''reboot'', ''Reboot the system'', power_command reboot_main env),
      (''sleep'', ''Pause execution for specified seconds'', with_text (sleep_main (ce_seconds env))),
      (''rm'', ''Remove a file'', with_files rm_main),
      (''rmdir'', ''Remove an empty directory'', with_files rmdir_main),
      (''shutdown'', ''Shut down the system'', power_command shutdown_main env),
      (''touch'', ''Create an empty file'', with_files (touch_main (ce_files env))),
      (''tty'', ''Show the current terminal'', with_text tty_main),
      (''uname'', ''Show system name and version'', with_text uname_main),
      (''whoami'', ''Display the current user'', with_text (\<lambda>_. whoami_main)),
      (''yes'', ''Repeat a string endlessly'', yes_command env)]"

text \<open>\<open>help\<close> shows the names and the texts of the table that it stands in.\<close>

definition command_texts :: "commands_env \<Rightarrow> (u8 list \<times> u8 list) list" where
  "command_texts env = map (\<lambda>(nm, txt, _). (bytes nm, bytes txt)) (commands_with env exit_main)"

definition shell_commands :: "commands_env \<Rightarrow> kernel command list" where
  "shell_commands env =
     map (\<lambda>(nm, txt, f). (bytes nm, bytes txt, f)) (commands_with env (help_main (command_texts env)))"

definition shell_cwd :: "kernel \<Rightarrow> u8 list" where "shell_cwd k = takeWhile (\<lambda>c. c \<noteq> 0) (k_cwd k)"

section \<open>The shell is safe with every command\<close>

lemma with_keeps_shell:
  "with_text f argv ctx input k = Some (status, out, ctx', input', k') \<Longrightarrow> ctx' = ctx"
  "with_files g argv ctx input k = Some (status, out, ctx', input', k') \<Longrightarrow> ctx' = ctx"
  by (auto simp: with_text_def with_files_def split: bind_splits)

lemma commands_keep_shell:
  "bc_command env argv ctx input k = Some (status, out, ctx', input', k') \<Longrightarrow> ctx' = ctx"
  "ed_command env argv ctx input k = Some (status, out, ctx', input', k') \<Longrightarrow> ctx' = ctx"
  "cd_command argv ctx input k = Some (status, out, ctx', input', k') \<Longrightarrow> ctx' = ctx"
  "ls_command env argv ctx input k = Some (status, out, ctx', input', k') \<Longrightarrow> ctx' = ctx"
  "clear_command argv ctx input k = Some (status, out, ctx', input', k') \<Longrightarrow> ctx' = ctx"
  "ps_command argv ctx input k = Some (status, out, ctx', input', k') \<Longrightarrow> ctx' = ctx"
  "cpuinfo_command env argv ctx input k = Some (status, out, ctx', input', k') \<Longrightarrow> ctx' = ctx"
  "figlet_command env argv ctx input k = Some (status, out, ctx', input', k') \<Longrightarrow> ctx' = ctx"
  "rand_command argv ctx input k = Some (status, out, ctx', input', k') \<Longrightarrow> ctx' = ctx"
  "yes_command env argv ctx input k = Some (status, out, ctx', input', k') \<Longrightarrow> ctx' = ctx"
  "power_command p env argv ctx input k = Some (status, out, ctx', input', k') \<Longrightarrow> ctx' = ctx"
  by (auto simp: bc_command_def ed_command_def cd_command_def ls_command_def clear_command_def ps_command_def
      cpuinfo_command_def figlet_command_def rand_command_def yes_command_def power_command_def
      dest: with_keeps_shell split: bind_splits prod.splits option.splits ed_result.splits)

lemma command_keeps_idle:
  assumes "(nm, txt, f) \<in> set (shell_commands env)" "shell_idle ctx"
    "f argv ctx input k = Some (status, out, ctx', input', k')"
  shows "shell_idle ctx'"
proof -
  have "f \<in> {exit_main, help_main (command_texts env), history_main} \<or> ctx' = ctx"
    using assms(1,3) unfolding shell_commands_def commands_with_def
    by (auto dest: with_keeps_shell commands_keep_shell)
  then show ?thesis
    using assms(2,3) by (auto simp: exit_main_def help_main_def history_main_def Let_def)
qed

section \<open>Scripts\<close>

text \<open>What a typed command does to the kernel: the file commands, and those that only print.\<close>

datatype script_command = Files file_command | Prints string "u8 list list"

fun argv_of :: "file_command \<Rightarrow> string list" where
  "argv_of (Cat argv) = argv" | "argv_of (Cp argv) = argv" | "argv_of (Mv argv) = argv"
| "argv_of (Rm argv) = argv" | "argv_of (Mkdir argv) = argv" | "argv_of (Touch argv) = argv"

fun program_of :: "file_command \<Rightarrow> string" where
  "program_of (Cat _) = ''cat''" | "program_of (Cp _) = ''cp''" | "program_of (Mv _) = ''mv''"
| "program_of (Rm _) = ''rm''" | "program_of (Mkdir _) = ''mkdir''" | "program_of (Touch _) = ''touch''"

definition named :: "file_command \<Rightarrow> bool" where
  "named c \<longleftrightarrow> argv_of c \<noteq> [] \<and> hd (argv_of c) = program_of c"

definition printers :: "(string \<times> (u8 list list \<Rightarrow> exit_output)) list" where
  "printers = [(''cowsay'', cowsay_main), (''echo'', echo_main), (''expr'', expr_main), (''factor'', factor_main),
     (''tty'', tty_main), (''uname'', uname_main)]"

fun script_step :: "commands_env \<Rightarrow> script_command \<Rightarrow> kernel \<Rightarrow> kernel option" where
  "script_step env (Files c) k =
     (if named c then map_option (\<lambda>s. k\<lparr>k_fs := s\<rparr>) (command_step (ce_files env) c (k_fs k)) else None)"
| "script_step env (Prints nm args) k =
     do { f \<leftarrow> map_of printers nm; _ \<leftarrow> f (bytes nm # args); Some k }"

fun script_args :: "script_command \<Rightarrow> u8 list list" where
  "script_args (Files c) = map bytes (argv_of c)"
| "script_args (Prints nm args) = bytes nm # args"

lemma shown_ok: "\<forall>x \<in> set (shown s). vga_op_ok x"
  by (simp add: shown_def)

lemma name_of_bytes [simp]: "name_of (bytes nm) = nm"
proof -
  have "char_of (unat (ch c)) = c" for c
  proof -
    have "of_char c < (256 :: nat)" by simp
    then have "unat (of_nat (of_char c) :: u8) = of_char c" by (simp add: unat_of_nat take_bit_nat_eq_self)
    moreover have "of_nat (of_char c) = ch c" unfolding ch_def by (rule of_nat_of_char)
    ultimately have "unat (ch c) = of_char c" by simp
    then show ?thesis by simp
  qed
  then show ?thesis by (simp add: name_of_def bytes_def comp_def)
qed

lemma bytes_inject [simp]: "bytes a = bytes b \<longleftrightarrow> a = b"
  using name_of_bytes by metis

lemma names_of_bytes [simp]: "map (name_of \<circ> bytes) nms = nms"
  by (simp add: comp_def)

text \<open>The command with a name, and what the shell makes of its words.\<close>

definition command_named :: "commands_env \<Rightarrow> string \<Rightarrow> kernel main option" where
  "command_named env nm = map_of (map (\<lambda>(n, _, f). (n, f)) (commands_with env (help_main (command_texts env)))) nm"

lemma find_named:
  "find (\<lambda>c. fst c = bytes nm) (map (\<lambda>(n, txt, f). (bytes n, bytes txt, f)) table) = None \<longleftrightarrow>
     map_of (map (\<lambda>(n, _, f). (n, f)) table) nm = None"
  "find (\<lambda>c. fst c = bytes nm) (map (\<lambda>(n, txt, f). (bytes n, bytes txt, f)) table) = Some (a, b, f) \<Longrightarrow>
     map_of (map (\<lambda>(n, _, f). (n, f)) table) nm = Some f"
proof (induction table)
  case (Cons x table)
  obtain n t g where "x = (n, t, g)" by (cases x)
  then show
    "find (\<lambda>c. fst c = bytes nm) (map (\<lambda>(n, txt, f). (bytes n, bytes txt, f)) (x # table)) = None \<longleftrightarrow>
       map_of (map (\<lambda>(n, _, f). (n, f)) (x # table)) nm = None"
    "find (\<lambda>c. fst c = bytes nm) (map (\<lambda>(n, txt, f). (bytes n, bytes txt, f)) (x # table)) = Some (a, b, f) \<Longrightarrow>
       map_of (map (\<lambda>(n, _, f). (n, f)) (x # table)) nm = Some f"
    using Cons.IH by (cases "n = nm"; simp)+
qed simp_all

lemma execute_named:
  assumes "command_named env nm = Some f"
  shows "shell_execute (shell_commands env) (bytes nm # as) u rest k = f (bytes nm # as) u rest k"
proof -
  let ?table = "commands_with env (help_main (command_texts env))"
  obtain a b g where g: "find (\<lambda>c. fst c = bytes nm) (shell_commands env) = Some (a, b, g)"
    using find_named(1) [of nm ?table] assms by (auto simp: command_named_def shell_commands_def)
  with find_named(2) [of nm ?table] assms have "g = f"
    by (simp add: command_named_def shell_commands_def)
  with g show ?thesis by (simp add: shell_execute_def)
qed

lemma file_commands_named:
  "command_named env ''cat'' = Some (with_files cat_main)"
  "command_named env ''cp'' = Some (with_files (cp_main (ce_files env)))"
  "command_named env ''mv'' = Some (with_files mv_main)"
  "command_named env ''rm'' = Some (with_files rm_main)"
  "command_named env ''mkdir'' = Some (with_files (mkdir_main (ce_files env)))"
  "command_named env ''touch'' = Some (with_files (touch_main (ce_files env)))"
  "command_named env ''exit'' = Some exit_main"
  by (simp_all add: command_named_def commands_with_def)

lemma printers_named: "map_of printers nm = Some f \<Longrightarrow> command_named env nm = Some (with_text f)"
proof -
  have "list_all (\<lambda>(nm, f). command_named env nm = Some (with_text f)) printers"
    by (simp add: printers_def command_named_def commands_with_def)
  then show "map_of printers nm = Some f \<Longrightarrow> ?thesis" by (auto simp: list_all_iff dest: map_of_SomeD)
qed

lemma executes_file:
  assumes "script_step env (Files c) k = Some k'"
  shows "\<exists>status out. shell_execute (shell_commands env) (script_args (Files c)) u rest k = Some (status, out, u, rest, k') \<and>
    (\<forall>x \<in> set out. vga_op_ok x)"
proof -
  obtain s where s: "named c" "command_step (ce_files env) c (k_fs k) = Some s" "k' = k\<lparr>k_fs := s\<rparr>"
    using assms by (auto split: if_splits)
  then obtain as where "argv_of c = program_of c # as" by (cases "argv_of c") (auto simp: named_def)
  with s show ?thesis
    by (cases c) (auto simp: execute_named file_commands_named with_files_def shown_ok)
qed

lemma executes_printer:
  assumes "script_step env (Prints nm as) k = Some k'"
  shows "\<exists>status out. shell_execute (shell_commands env) (script_args (Prints nm as)) u rest k = Some (status, out, u, rest, k') \<and>
    (\<forall>x \<in> set out. vga_op_ok x)"
  using assms by (auto simp: execute_named printers_named with_text_def shown_ok split: bind_splits)

lemma executes_exit:
  "\<exists>status out. shell_execute (shell_commands env) [bytes ''exit''] u rest k =
     Some (status, out, u\<lparr>running := False\<rparr>, rest, k) \<and> (\<forall>x \<in> set out. vga_op_ok x)"
  by (simp add: execute_named file_commands_named exit_main_def)

interpretation unics_shell: shell_script "shell_commands env" slot_alloc "script_step env" script_args for env
proof
  fix c k k' u and rest :: "u8 list"
  assume "script_step env c k = Some k'"
  then show "\<exists>status out. shell_execute (shell_commands env) (script_args c) u rest k = Some (status, out, u, rest, k') \<and>
      (\<forall>x \<in> set out. vga_op_ok x)"
    using executes_file executes_printer by (cases c) blast+
qed (auto intro: command_keeps_idle slot_alloc_fresh executes_exit)

text \<open>Only the file system changes, as by the file commands alone.\<close>

fun file_part :: "script_command \<Rightarrow> file_command list" where
  "file_part (Files c) = [c]" | "file_part (Prints nm args) = []"

lemma script_files:
  "run_ops (script_step env) cs k = Some k' \<Longrightarrow>
   run_ops (command_step (ce_files env)) (concat (map file_part cs)) (k_fs k) = Some (k_fs k') \<and> k' = k\<lparr>k_fs := k_fs k'\<rparr>"
proof (induction cs arbitrary: k)
  case (Cons c cs)
  then obtain j where j: "script_step env c k = Some j" "run_ops (script_step env) cs j = Some k'"
    by (auto split: bind_splits)
  from Cons.IH [OF j(2)] j(1) show ?case
    by (cases c) (auto split: if_splits bind_splits)
qed simp

definition script_ok :: "script_command \<Rightarrow> bool" where
  "script_ok c \<longleftrightarrow> typable (script_args c) \<and>
     (case c of Files c \<Rightarrow> named c
      | Prints nm args \<Rightarrow> (case map_of printers nm of None \<Rightarrow> False | Some f \<Rightarrow> f (bytes nm # args) \<noteq> None))"

lemma script_runs:
  assumes "\<forall>c \<in> set cs. script_ok c"
    "run_ops (command_step (ce_files env)) (concat (map file_part cs)) (k_fs k) = Some s"
  shows "run_ops (script_step env) cs k = Some (k\<lparr>k_fs := s\<rparr>)"
  using assms
proof (induction cs arbitrary: k)
  case (Cons c cs)
  have "\<exists>t. script_step env c k = Some (k\<lparr>k_fs := t\<rparr>) \<and>
    run_ops (command_step (ce_files env)) (concat (map file_part cs)) t = Some s"
  proof (cases c)
    case (Files x)
    with Cons.prems show ?thesis by (auto simp: script_ok_def split: bind_splits)
  next
    case (Prints nm as)
    then obtain f r where "map_of printers nm = Some f" "f (bytes nm # as) = Some r"
      using Cons.prems(1) by (auto simp: script_ok_def split: option.splits)
    with Prints Cons.prems(2) show ?thesis by (intro exI [of _ "k_fs k"]) simp
  qed
  then obtain t where t: "script_step env c k = Some (k\<lparr>k_fs := t\<rparr>)"
    "run_ops (command_step (ce_files env)) (concat (map file_part cs)) t = Some s" by blast
  with Cons.IH [of "k\<lparr>k_fs := t\<rparr>"] Cons.prems(1) show ?case by simp
qed simp

section \<open>A session\<close>

lemma session_runs:
  assumes "alloc_ok (m_heap m)" "m_heap m 512 = Some blk" "alloc_full (m_heap m)" "m_region_ok m" "m_bitmap_ok m"
    and "kb_init kb_state0 (m_ports m) = Some (kb, ports)"
    and "length username = 32" "length password = 32"
    and "attempts_ok 3 input = Some (True, concat (map (\<lambda>c. unwords (script_args c) @ [10]) cs) @ bytes ''exit'' @ 10 # rest)"
    and "\<forall>c \<in> set cs. script_ok c"
    and "run_ops (command_step (ce_files env)) (concat (map file_part cs)) (boot_fs blk (m_now m)) = Some s"
    and "\<forall>t. alloc_ok (env_heap (ce_files env) t)"
  shows "\<exists>k. unics_main (shell_commands env) slot_alloc shell_cwd username password m input = Some (Returned 0, k) \<and>
    k_fs k = s \<and> fs_wf s \<and> vga_inv (k_vga k) \<and> pmm_wf (k_pmm k) \<and> vmm_wf (k_vmm k) \<and>
    process_list (k_procs k) = [(100, 0, ''RUNNING'', ''init''), (101, 1, ''RUNNING'', ''shell'')]"
proof -
  let ?script = "concat (map (\<lambda>c. unwords (script_args c) @ [10]) cs) @ bytes ''exit'' @ 10 # rest"
  obtain k where k: "boot m = Some (k, ports)" "vga_inv (k_vga k)" "fs_wf (k_fs k)" "k_fs k = boot_fs blk (m_now m)"
    "vmm_wf (k_vmm k)" "pmm_wf (k_pmm k)"
    "process_list (k_procs k) = [(100, 0, ''RUNNING'', ''init''), (101, 1, ''RUNNING'', ''shell'')]"
    using boot_reaches_login [OF assms(1,3-6)] assms(2) by auto
  obtain out where l: "login_prompt username password input = Some (out, Some ?script)"
    using login_prompt_result [OF assms(7,8), of input] assms(9) by auto
  obtain v1 where v1: "run_ops vga_step out (k_vga k) = Some v1" "vga_inv v1"
    using ops_inv [OF k(2)] login_showable [OF l] by (auto simp: showable_def)
  obtain ctx ops where c: "shell_init = (ctx, ops)" by fastforce
  have ok: "\<forall>x \<in> set (welcome_text @ ops). vga_op_ok x"
    using c by (auto simp: welcome_text_def shell_init_def)
  obtain v2 where v2: "run_ops vga_step (welcome_text @ ops) v1 = Some v2" "vga_inv v2"
    using ops_inv [OF v1(2) ok] by blast
  have ctx: "shell_idle ctx" "running ctx" using shell_inv_idle [OF shell_init_inv] c by (auto simp: shell_init_def)
  have "run_ops (script_step env) cs (k\<lparr>k_vga := v2\<rparr>) = Some (k\<lparr>k_vga := v2, k_fs := s\<rparr>)"
    using script_runs [OF assms(10), of env "k\<lparr>k_vga := v2\<rparr>" s] assms(11) k(4) by simp
  moreover have "\<forall>c \<in> set cs. typable (script_args c)" using assms(10) by (simp add: script_ok_def)
  ultimately obtain out2 ctx' where r: "shell_run (shell_commands env) slot_alloc shell_cwd ctx ?script (k\<lparr>k_vga := v2\<rparr>) =
      Some (out2, ctx', rest, k\<lparr>k_vga := v2, k_fs := s\<rparr>)" "\<forall>x \<in> set out2. vga_op_ok x"
    using unics_shell.run_script [OF ctx, of cs env "k\<lparr>k_vga := v2\<rparr>" "k\<lparr>k_vga := v2, k_fs := s\<rparr>" shell_cwd rest] by blast
  obtain v3 where v3: "run_ops vga_step out2 v2 = Some v3" "vga_inv v3" using ops_inv [OF v2(2) r(2)] by blast
  have "unics_main (shell_commands env) slot_alloc shell_cwd username password m input =
      Some (Returned 0, k\<lparr>k_fs := s, k_vga := v3\<rparr>)"
    unfolding unics_main_def c by (simp only: k(1) l v1(1) Option.bind.simps prod.case option.case Let_def v2(1) r(1)) (simp add: v3(1))
  moreover have "fs_wf s"
    using file_commands.run_inv [OF _ assms(11)] assms(12) k(3,4) by simp
  ultimately show ?thesis using k v3(2) by auto
qed

section \<open>Properties\<close>

text \<open>C39.  The whole system: the kernel comes up, admits the user, and runs what is typed: file commands and
  commands that print, one line after the other, and \<open>exit\<close>, after which \<open>main\<close> returns.  The file system is
  then what the commands make of the one that \<open>main\<close> set up, and the invariants of all components hold.\<close>

theorem unics_session:
  assumes "alloc_ok (m_heap m)" "m_heap m 512 = Some blk" "alloc_full (m_heap m)" "m_region_ok m" "m_bitmap_ok m"
    and "kb_init kb_state0 (m_ports m) = Some (kb, ports)"
    and "length username = 32" "length password = 32"
    and "attempts_ok 3 input = Some (True, concat (map (\<lambda>c. unwords (script_args c) @ [10]) cs) @ bytes ''exit'' @ 10 # rest)"
    and "\<forall>c \<in> set cs. script_ok c"
    and "run_ops (command_step (ce_files env)) (concat (map file_part cs)) (boot_fs blk (m_now m)) = Some s"
    and "\<forall>t. alloc_ok (env_heap (ce_files env) t)"
  shows "\<exists>k. unics_main (shell_commands env) slot_alloc shell_cwd username password m input = Some (Returned 0, k) \<and>
    k_fs k = s \<and> fs_wf s \<and> vga_inv (k_vga k) \<and> pmm_wf (k_pmm k) \<and> vmm_wf (k_vmm k) \<and>
    process_list (k_procs k) = [(100, 0, ''RUNNING'', ''init''), (101, 1, ''RUNNING'', ''shell'')]"
  using assms by (rule session_runs)

definition demo_commands :: commands_env where
  "demo_commands = \<lparr>ce_files = demo_env, ce_heap = \<lambda>_. zero_heap, ce_clock = \<lambda>_. 7, ce_color = \<lambda>_. 15, ce_features = \<lambda>_. [],
     ce_cpuid = \<lambda>_. [0, 0, 0, 0], ce_line = \<lambda>_. replicate 256 0, ce_ports = \<lambda>_. [], ce_status = \<lambda>_. 0, ce_seconds = \<lambda>_. None\<rparr>"

definition demo_script :: "script_command list" where
  "demo_script = [Files (Mkdir [''mkdir'', ''d'']), Prints ''echo'' [bytes ''hi'', bytes ''you'']]"

lemma demo_machine_ok:
  "alloc_ok (m_heap demo_machine)" "m_heap demo_machine 512 = Some (replicate 512 0)" "alloc_full (m_heap demo_machine)"
  "m_region_ok demo_machine" "m_bitmap_ok demo_machine" "m_now demo_machine = 7"
  "\<forall>t. alloc_ok (env_heap (ce_files demo_commands) t)" "ce_files demo_commands = demo_env"
  using zero_heap_ok by (simp_all add: demo_machine_def zero_heap_def demo_commands_def demo_env_def)

theorem unics_session_witness:
  "\<exists>k. unics_main (shell_commands demo_commands) slot_alloc shell_cwd (replicate 32 1) (replicate 32 2) demo_machine
      (bytes ''root'' @ 10 # bytes ''welcome'' @ 10 # bytes ''mkdir d'' @ 10 # bytes ''echo hi you'' @ 10 # bytes ''exit'' @ [10]) =
      Some (Returned 0, k) \<and> fs_wf (k_fs k) \<and> f_name (fs_files (k_fs k) ! 5) = ''d''"
proof -
  let ?input = "bytes ''root'' @ 10 # bytes ''welcome'' @ 10 # bytes ''mkdir d'' @ 10 # bytes ''echo hi you'' @ 10 # bytes ''exit'' @ [10]"
  note m = demo_machine_ok
  obtain kb where kb: "kb_init kb_state0 (m_ports demo_machine) = Some (kb, [])" using demo_keyboard by blast
  have a: "attempts_ok 3 ?input = Some (True, concat (map (\<lambda>c. unwords (script_args c) @ [10]) demo_script) @ bytes ''exit'' @ 10 # [])"
    by code_simp
  have o: "\<forall>c \<in> set demo_script. script_ok c" by code_simp
  have "map_option (\<lambda>s. f_name (fs_files s ! 5))
      (run_ops (command_step demo_env) (concat (map file_part demo_script)) (boot_fs (replicate 512 0) 7)) = Some ''d''"
    by code_simp
  then obtain s where s: "run_ops (command_step (ce_files demo_commands)) (concat (map file_part demo_script))
      (boot_fs (replicate 512 0) (m_now demo_machine)) = Some s" "f_name (fs_files s ! 5) = ''d''"
    by (auto simp: m(6,8))
  from unics_session [OF m(1-5) kb _ _ a o s(1) m(7), of "replicate 32 1" "replicate 32 2"] s(2) show ?thesis by auto
qed

end
