(* ===== verification/Fsbounds.thy ===== *)
theory Fsbounds
  imports Prelude Fs Fstools Fscmds Ed
begin

text \<open>
  What survives of the invariant of the file system when \<open>rmdir\<close> has damaged it and \<open>cd\<close> has left every directory:
  the indices stay inside the table.  Every command on files keeps it, the editor included.
\<close>

definition slot_ref :: "nat option \<Rightarrow> bool" where
  "slot_ref p \<longleftrightarrow> (case p of None \<Rightarrow> True | Some i \<Rightarrow> i < MAX_FILES)"

definition fs_bounded :: "fs \<Rightarrow> bool" where
  "fs_bounded s \<longleftrightarrow> length (fs_files s) = MAX_FILES \<and> length (fs_free s) = MAX_FILES \<and>
     fs_count s \<le> card {i. used s i} \<and> (\<forall>f \<in> set (fs_files s). slot_ref (f_parent f)) \<and> slot_ref (fs_cwd s)"

named_theorems bounded_intros

lemma slot_ref_simps [simp]: "slot_ref None" "slot_ref (Some i) \<longleftrightarrow> i < MAX_FILES"
  by (simp_all add: slot_ref_def)

section \<open>Operations\<close>

lemma bounded_parent: "fs_bounded s \<Longrightarrow> i < MAX_FILES \<Longrightarrow> slot_ref (f_parent (fs_files s ! i))"
  by (simp add: fs_bounded_def)

lemma bounded_count: "fs_bounded s \<Longrightarrow> fs_count s \<le> MAX_FILES"
proof -
  assume "fs_bounded s"
  then have "fs_count s \<le> card {i. used s i}" by (simp add: fs_bounded_def)
  also have "\<dots> \<le> card {..<MAX_FILES}" by (rule card_mono) (auto simp: used_def)
  finally show ?thesis by simp
qed

lemma bounded_set_file [bounded_intros]: "fs_bounded s \<Longrightarrow> slot_ref (f_parent f) \<Longrightarrow> fs_bounded (set_file i f s)"
  using set_update_subset_insert [of "fs_files s" i f] by (auto simp: fs_bounded_def)

lemma bounded_cwd [bounded_intros]: "fs_bounded s \<Longrightarrow> slot_ref p \<Longrightarrow> fs_bounded (s\<lparr>fs_cwd := p\<rparr>)"
  by (simp add: fs_bounded_def used_def)

lemma bounded_found: "fs_find_file nm s = Some i \<Longrightarrow> fs_bounded s \<Longrightarrow> used s i \<and> i < fs_count s \<and> slot_ref (f_parent (fs_files s ! i))"
  using bounded_count [of s] bounded_parent [of s i]
  by (auto simp: fs_find_file_def fs_find_file_in_dir_def used_def dest!: find_first_Some split: option.splits)

lemma bounded_take:
  assumes "fs_bounded s" "i < MAX_FILES" "fs_free s ! i" "slot_ref (f_parent f)"
  shows "fs_bounded ((set_file i f s)\<lparr>fs_free := (fs_free s)[i := False], fs_next_inode := n, fs_count := Suc (fs_count s)\<rparr>)"
    (is "fs_bounded ?t")
proof -
  have len: "length (fs_free s) = MAX_FILES" using assms(1) by (simp add: fs_bounded_def)
  have "used ?t k \<longleftrightarrow> k = i \<or> used s k" for k using assms(2) len by (auto simp: used_def nth_list_update)
  then have "{k. used ?t k} = insert i {k. used s k}" by auto
  moreover have "\<not> used s i" using assms(3) by (simp add: used_def)
  ultimately have "card {k. used ?t k} = Suc (card {k. used s k})" by (simp add: card_insert_disjoint)
  then show ?thesis using bounded_set_file [OF assms(1,4), of i] by (simp add: fs_bounded_def)
qed

lemma bounded_drop:
  assumes "fs_bounded s" "used s i" "slot_ref (f_parent f)"
  shows "fs_bounded ((set_file i f s)\<lparr>fs_free := (fs_free s)[i := True], fs_count := fs_count s - 1\<rparr>)" (is "fs_bounded ?t")
proof -
  have len: "length (fs_free s) = MAX_FILES" using assms(1) by (simp add: fs_bounded_def)
  have "used ?t k \<longleftrightarrow> k \<noteq> i \<and> used s k" for k using assms(2) len by (auto simp: used_def nth_list_update)
  then have "{k. used ?t k} = {k. used s k} - {i}" by auto
  then have "card {k. used ?t k} = card {k. used s k} - 1" using assms(2) by simp
  then show ?thesis using bounded_set_file [OF assms(1,3), of i] by (auto simp: fs_bounded_def)
qed

lemma bounded_create [bounded_intros]: "fs_bounded s \<Longrightarrow> fs_bounded (fst (fs_create_with_perms alloc now nm perms s))"
proof -
  assume s: "fs_bounded s"
  define slot where "slot = fs_find_free_slot s"
  note slot = free_slot_find [of s, folded slot_def]
  have "slot_ref (fs_cwd s)" using s by (simp add: fs_bounded_def)
  then show ?thesis
    using s slot bounded_parent [OF s, of slot]
    by (auto simp: fs_create_with_perms_def Let_def split: option.split simp flip: slot_def
        intro!: bounded_take bounded_set_file)
qed

lemma bounded_mkdir [bounded_intros]: "fs_bounded s \<Longrightarrow> fs_bounded (fst (fs_mkdir now nm s))"
proof -
  assume s: "fs_bounded s"
  have "slot_ref (fs_cwd s)" using s by (simp add: fs_bounded_def)
  then show ?thesis
    using s by (auto simp: fs_mkdir_def Let_def find_first_upt split: option.split intro!: bounded_take dest!: find_first_Some)
qed

lemma bounded_delete [bounded_intros]: "fs_bounded s \<Longrightarrow> fs_bounded (fst (fs_delete nm s))"
proof (cases "fs_find_file nm s")
  case (Some i)
  assume s: "fs_bounded s"
  note i = bounded_found [OF Some s]
  let ?u = "if f_is_dir (fs_files s ! i) \<and> fs_cwd s = Some i then s\<lparr>fs_cwd := f_parent (fs_files s ! i)\<rparr> else s"
  have "fs_bounded ?u" "used ?u i" "slot_ref (f_parent zero_file)"
    using s i by (auto intro: bounded_cwd simp: used_def zero_file_def)
  from bounded_drop [OF this] s Some show ?thesis by (simp add: fs_delete_def Let_def)
qed (simp add: fs_delete_def)

lemma bounded_open [bounded_intros]: "fs_bounded s \<Longrightarrow> fs_bounded (fst (fs_open nm s))"
  by (auto simp: fs_open_def Let_def split: option.split dest: bounded_found intro!: bounded_set_file)

lemma bounded_close [bounded_intros]: "fs_bounded s \<Longrightarrow> fs_bounded (fst (fs_close nm s))"
  by (auto simp: fs_close_def Let_def split: option.split dest: bounded_found intro!: bounded_set_file)

lemma bounded_read [bounded_intros]: "fs_read nm b n s = Some (t, bs) \<Longrightarrow> fs_bounded s \<Longrightarrow> fs_bounded t"
  by (auto simp: fs_read_def Let_def split: if_splits option.splits bind_splits dest: bounded_found intro!: bounded_set_file)

lemma bounded_resize: "fs_bounded s \<Longrightarrow> i < MAX_FILES \<Longrightarrow> fs_bounded (fst (fs_resize_file alloc now (Some i) n s))"
  by (auto simp: fs_resize_file_def Let_def split: option.split intro!: bounded_set_file bounded_parent)

lemma bounded_write_at:
  assumes "fs_write_at alloc now i buf n s = Some (t, m)" "fs_bounded s" "i < MAX_FILES"
  shows "fs_bounded t"
proof -
  obtain u r where u: "(if (f_position (fs_files s ! i) + n) mod 2 ^ 32 > f_size (fs_files s ! i)
      then fs_resize_file alloc now (Some i) ((f_position (fs_files s ! i) + n) mod 2 ^ 32) s else (s, FS_SUCCESS)) = (u, r)"
    by fastforce
  then have b: "fs_bounded u" using bounded_resize [OF assms(2,3)] assms(2) by (metis fst_conv)
  show ?thesis
    using assms(1) u bounded_parent [OF b assms(3)] b unfolding fs_write_at_def Let_def
    by (auto split: if_splits bind_splits intro!: bounded_set_file)
qed

lemma bounded_write [bounded_intros]: "fs_write alloc now nm buf n s = Some (t, m) \<Longrightarrow> fs_bounded s \<Longrightarrow> fs_bounded t"
  by (auto simp: fs_write_def Let_def split: option.splits if_splits)
    (metis bounded_found bounded_write_at used_def)

lemma bounded_named: "slot_named nm s = Some i \<Longrightarrow> fs_bounded s \<Longrightarrow> i < MAX_FILES"
  using slot_named_less [of nm s i] bounded_count [of s] by simp

section \<open>Commands\<close>

text \<open>The same for the pair that an operation gives, as the commands take it apart.\<close>

lemma bounded_pair [bounded_intros]:
  "fs_create alloc now nm s = (t, r) \<Longrightarrow> fs_bounded s \<Longrightarrow> fs_bounded t"
  "fs_mkdir now nm s = (t, r) \<Longrightarrow> fs_bounded s \<Longrightarrow> fs_bounded t"
  "fs_delete nm s = (t, r) \<Longrightarrow> fs_bounded s \<Longrightarrow> fs_bounded t"
  "fs_open nm s = (t, r) \<Longrightarrow> fs_bounded s \<Longrightarrow> fs_bounded t"
  "fs_close nm s = (t, r) \<Longrightarrow> fs_bounded s \<Longrightarrow> fs_bounded t"
  unfolding fs_create_def by (metis fst_conv bounded_intros)+

lemma cat_loop_bounded: "cat_loop nm s = Some r \<Longrightarrow> fs_bounded s \<longrightarrow> fs_bounded (snd (snd r))"
proof (rule cat_loop.raw_induct [where P = "\<lambda>nm s r. fs_bounded s \<longrightarrow> fs_bounded (snd (snd r))"])
  fix f nm s r
  assume IH: "\<And>nm s r. f nm s = Some r \<Longrightarrow> fs_bounded s \<longrightarrow> fs_bounded (snd (snd r))"
    and body: "fs_read (Some nm) True 1024 s \<bind> (\<lambda>(s, bs). let bytes_read = int (length bs)
      in if bytes_read > 0 then f nm s \<bind> (\<lambda>(out, bytes_read, s). Some (concat (map putchar bs) @ out, bytes_read, s))
         else Some ([], bytes_read, s)) = Some r"
  then show "fs_bounded s \<longrightarrow> fs_bounded (snd (snd r))"
    by (fastforce simp: Let_def dest: bounded_read split: if_splits bind_splits)
qed

lemma cp_loop_bounded: "cp_loop env src dst s = Some r \<Longrightarrow> fs_bounded s \<longrightarrow> fs_bounded (snd r)"
proof (rule cp_loop.raw_induct [where P = "\<lambda>env src dst s r. fs_bounded s \<longrightarrow> fs_bounded (snd r)"])
  fix f env src dst s r
  assume IH: "\<And>env src dst s r. f env src dst s = Some r \<Longrightarrow> fs_bounded s \<longrightarrow> fs_bounded (snd r)"
    and body: "fs_read (Some src) True 512 s \<bind> (\<lambda>(s, bs). if length bs = 0 then Some (True, s)
      else fs_write (env_heap env s) (env_clock env s) (Some dst) (Some bs) (length bs) s \<bind>
        (\<lambda>(s, bytes_written). if bytes_written \<noteq> length bs then Some (False, s) else f env src dst s)) = Some r"
  show "fs_bounded s \<longrightarrow> fs_bounded (snd r)"
  proof
    assume s: "fs_bounded s"
    obtain t bs where t: "fs_read (Some src) True 512 s = Some (t, bs)" using body by (auto split: bind_splits)
    have b: "fs_bounded t" by (rule bounded_read [OF t s])
    show "fs_bounded (snd r)"
    proof (cases "length bs = 0")
      case True
      with t b body show ?thesis by auto
    next
      case False
      with body t obtain u n where u:
        "fs_write (env_heap env t) (env_clock env t) (Some dst) (Some bs) (length bs) t = Some (u, n)"
        by (auto split: bind_splits)
      have "fs_bounded u" by (rule bounded_write [OF u b])
      with body t u False IH [of env src dst u r] show ?thesis by (auto split: if_splits)
    qed
  qed
qed

lemma cat_bounded: "cat_main argv s = Some (code, out, t) \<Longrightarrow> fs_bounded s \<Longrightarrow> fs_bounded t"
  by (auto simp: cat_main_def Let_def dest!: fail_result cat_loop_bounded split: if_splits bind_splits prod.splits
      dest: bounded_pair)

lemma cp_bounded: "cp_main env argv s = Some (code, out, t) \<Longrightarrow> fs_bounded s \<Longrightarrow> fs_bounded t"
  by (auto simp: cp_main_def close2_def Let_def dest!: fail_result cp_loop_bounded split: if_splits bind_splits prod.splits
      dest: bounded_pair intro!: bounded_close)

lemma mv_bounded: "mv_main argv s = Some (code, out, t) \<Longrightarrow> fs_bounded s \<Longrightarrow> fs_bounded t"
  by (auto simp: mv_main_def Let_def dest!: fail_result split: if_splits bind_splits option.splits
      intro!: bounded_set_file bounded_parent dest: bounded_named)

lemma delete_all_bounded: "fs_bounded s \<Longrightarrow> fs_bounded (fst (delete_all nms s))"
  by (induction nms arbitrary: s) (auto simp: Let_def case_prod_unfold intro: bounded_delete)

lemma rm_bounded: "rm_main argv s = Some (code, out, t) \<Longrightarrow> fs_bounded s \<Longrightarrow> fs_bounded t"
  using rm_loop_result [of True "drop 2 argv" 0 s] rm_loop_result [of False "drop 1 argv" 0 s]
  by (auto simp: rm_main_def delete_all_bounded dest!: fail_result split: if_splits)

lemma rmdir_shift:
  "for_each (\<lambda>k files. do { g \<leftarrow> rd files (k + 1); wr files k g }) ks files = Some files' \<Longrightarrow>
   length files' = length files \<and> set files' \<subseteq> set files"
proof (induction ks arbitrary: files)
  case (Cons k ks)
  then obtain g m where m: "rd files (k + 1) = Some g" "wr files k g = Some m"
    "for_each (\<lambda>k files. do { g \<leftarrow> rd files (k + 1); wr files k g }) ks m = Some files'"
    by (auto split: bind_splits)
  then have "g \<in> set files" "m = files[k := g]" by (auto simp: rd_def wr_def split: if_splits)
  with Cons.IH [OF m(3)] set_update_subset_insert [of files k g] show ?case by auto
qed simp

lemma rmdir_bounded: "rmdir_main argv s = Some (code, out, t) \<Longrightarrow> fs_bounded s \<Longrightarrow> fs_bounded t"
proof -
  assume r: "rmdir_main argv s = Some (code, out, t)" and s: "fs_bounded s"
  have "t = s \<or> (\<exists>files. t = s\<lparr>fs_files := files, fs_count := fs_count s - 1\<rparr> \<and>
      length files = length (fs_files s) \<and> set files \<subseteq> set (fs_files s))"
    using r by (auto simp: rmdir_main_def Let_def dest!: fail_result dest: rmdir_shift [unfolded add.commute [of _ 1], simplified]
        split: if_splits bind_splits option.splits)
  then show ?thesis using s by (auto simp: fs_bounded_def used_def)
qed

lemma mkdir_bounded: "mkdir_main env argv s = Some (code, out, t) \<Longrightarrow> fs_bounded s \<Longrightarrow> fs_bounded t"
  by (auto simp: mkdir_main_def Let_def dest!: fail_result split: if_splits prod.splits dest: bounded_pair)

lemma touch_loop_bounded: "touch_loop env names n s = Some (m, out, t) \<Longrightarrow> fs_bounded s \<Longrightarrow> fs_bounded t"
proof (induction names arbitrary: n s m out t)
  case (Cons nm names)
  then show ?case by (auto simp: Let_def split: if_splits bind_splits prod.splits dest: bounded_pair)
qed simp

lemma touch_bounded: "touch_main env argv s = Some (code, out, t) \<Longrightarrow> fs_bounded s \<Longrightarrow> fs_bounded t"
  by (auto simp: touch_main_def dest!: fail_result split: if_splits bind_splits dest: touch_loop_bounded)

lemma cd_bounded: "cd_main argv s cwd = Some (code, out, t, cwd') \<Longrightarrow> fs_bounded s \<Longrightarrow> fs_bounded t"
proof -
  assume c: "cd_main argv s cwd = Some (code, out, t, cwd')" and s: "fs_bounded s"
  have "slot_ref (f_parent (fs_files s ! d))" if "fs_cwd s = Some d" for d
    using that s bounded_parent [OF s, of d] by (simp add: fs_bounded_def)
  moreover have "i < MAX_FILES" if "find_first P [0..<fs_count s] = Some i" for P i
    using that bounded_count [OF s] by (auto dest: find_first_Some)
  ultimately show ?thesis
    using c s by (auto simp: cd_main_def Let_def split: if_splits bind_splits option.splits intro!: bounded_cwd)
qed

lemma pwd_same: "pwd_main s = Some (code, out, t) \<Longrightarrow> t = s"
  by (auto simp: pwd_main_def Let_def dest!: fail_result split: if_splits bind_splits)

section \<open>The editor\<close>

lemma say_all_fs: "say_all ls e = Some e' \<Longrightarrow> ed_fs e' = ed_fs e"
  by (drule say_all_put) auto

lemma grow_fs: "grow_buffer alloc n e = Some (left, e') \<Longrightarrow> ed_fs e' = ed_fs e"
  by (auto simp: grow_buffer_def Let_def split: if_splits bind_splits option.splits dest: say_fields)

lemma insert_text_fs: "insert_text alloc txt e = Some (left, e') \<Longrightarrow> ed_fs e' = ed_fs e"
  by (auto simp: insert_text_def Let_def split: if_splits bind_splits) (erule grow_fs)+

lemma insert_line_fs: "insert_line alloc l e = Some (a, e') \<Longrightarrow> ed_fs e' = ed_fs e"
  by (auto simp: insert_line_def split: if_splits bind_splits dest: insert_text_fs say_fields)

lemma write_to_file_bounded:
  "write_to_file alloc now nm e = Some (rc, e') \<Longrightarrow> fs_bounded (ed_fs e) \<Longrightarrow> fs_bounded (ed_fs e')"
  by (auto simp: write_to_file_def Let_def split: if_splits bind_splits prod.splits ed_block.splits
      dest!: say_fields(6) dest: bounded_pair intro!: bounded_close; metis bounded_pair bounded_write)

lemma command_line_bounded:
  "command_line alloc now l e = Some (a, e') \<Longrightarrow> fs_bounded (ed_fs e) \<Longrightarrow> fs_bounded (ed_fs e')"
  by (auto simp: command_line_def print_help_def Let_def split: if_splits bind_splits
      dest!: say_fields(6) say_all_fs write_to_file_bounded)

lemma ed_step_bounded: "ed_step alloc now e = Some (a, e') \<Longrightarrow> fs_bounded (ed_fs e) \<Longrightarrow> fs_bounded (ed_fs e')"
  by (auto simp: ed_step_def Let_def split: if_splits bind_splits dest!: insert_line_fs command_line_bounded)

lemma ed_loop_bounded: "ed_loop alloc now e = Some (a, e') \<Longrightarrow> fs_bounded (ed_fs e) \<Longrightarrow> fs_bounded (ed_fs e')"
proof (induction alloc now e rule: ed_loop.induct)
  case (1 alloc now e)
  obtain b u where u: "ed_step alloc now e = Some (b, u)" "(if b = Stay then ed_loop alloc now u else Some (b, u)) = Some (a, e')"
    using "1.prems"(1) by (subst (asm) ed_loop.simps) (auto split: bind_splits)
  have "fs_bounded (ed_fs u)" by (rule ed_step_bounded [OF u(1) "1.prems"(2)])
  with "1.IH" [OF u(1) refl] u(2) show ?case by (cases "b = Stay") auto
qed

lemma ed_bounded: "ed_main alloc now e = Some (Finished status e') \<Longrightarrow> fs_bounded (ed_fs e) \<Longrightarrow> fs_bounded (ed_fs e')"
  by (auto simp: ed_main_def print_help_def split: if_splits bind_splits
      dest!: say_fields(6) say_all_fs grow_fs ed_loop_bounded)

end
