(* ===== verification/Anykeys.thy ===== *)
theory Anykeys
  imports Prelude Vga Keyboard Shell Shellrun Session Fsbounds Boot Ed Calc Commands
begin

text \<open>
  The whole system under arbitrary keys: what every command keeps of the kernel, and that what the commands
  send never leaves the screen, hold at the end of every run of \<open>main\<close>.
\<close>

section \<open>An invariant of the commands is one of the shell\<close>


section \<open>What every command keeps\<close>

text \<open>The parts of the kernel that no command reaches are those of \<open>k0\<close>.\<close>

definition kernel_kept :: "kernel \<Rightarrow> kernel \<Rightarrow> bool" where
  "kernel_kept k0 k \<longleftrightarrow> fs_bounded (k_fs k) \<and> kb_inv (k_kb k) \<and>
     k = k0\<lparr>k_fs := k_fs k, k_kb := k_kb k, k_cwd := k_cwd k, k_seed := k_seed k, k_stdin := k_stdin k, k_ed := k_ed k\<rparr>"

lemma kernel_kept_fields:
  "kernel_kept k0 k \<Longrightarrow> fs_bounded s \<Longrightarrow> kernel_kept k0 (k\<lparr>k_fs := s\<rparr>)"
  "kernel_kept k0 k \<Longrightarrow> kb_inv kb \<Longrightarrow> kernel_kept k0 (k\<lparr>k_kb := kb\<rparr>)"
  "kernel_kept k0 k \<Longrightarrow> kernel_kept k0 (k\<lparr>k_cwd := c\<rparr>)"
  "kernel_kept k0 k \<Longrightarrow> kernel_kept k0 (k\<lparr>k_seed := n\<rparr>)"
  "kernel_kept k0 k \<Longrightarrow> kernel_kept k0 (k\<lparr>k_stdin := i\<rparr>)"
  "kernel_kept k0 k \<Longrightarrow> kernel_kept k0 (k\<lparr>k_ed := e\<rparr>)"
  "kernel_kept k0 k \<Longrightarrow> fs_bounded (k_fs k)" "kernel_kept k0 k \<Longrightarrow> kb_inv (k_kb k)"
  by (cases k; cases k0; simp add: kernel_kept_def)+

definition keeps_kernel :: "kernel main \<Rightarrow> bool" where
  "keeps_kernel f \<longleftrightarrow> (\<forall>k0 args ctx input k status out ctx' input' k'. kernel_kept k0 k \<longrightarrow>
     f args ctx input k = Some (status, out, ctx', input', k') \<longrightarrow> kernel_kept k0 k' \<and> (\<forall>x \<in> set out. vga_op_ok x))"

named_theorems keeps_commands

lemma command_keepsI:
  assumes "\<And>k0 args ctx input k status out ctx' input' k'. kernel_kept k0 k \<Longrightarrow>
      f args ctx input k = Some (status, out, ctx', input', k') \<Longrightarrow> kernel_kept k0 k' \<and> (\<exists>s. out = shown s)"
  shows "keeps_kernel f"
  using assms shown_ok unfolding keeps_kernel_def by blast

lemma keeps_text [keeps_commands]: "keeps_kernel (with_text f)"
  by (rule command_keepsI) (auto simp: with_text_def split: bind_splits)

lemma keeps_files:
  assumes "\<And>argv s code out t. f argv s = Some (code, out, t) \<Longrightarrow> fs_bounded s \<Longrightarrow> fs_bounded t"
  shows "keeps_kernel (with_files f)"
proof (rule command_keepsI)
  fix k0 args ctx input k status out ctx' input' k'
  assume k: "kernel_kept k0 k" and f: "with_files f args ctx input k = Some (status, out, ctx', input', k')"
  then obtain msg s where s: "f (map name_of args) (k_fs k) = Some (status, msg, s)" "out = shown msg" "k' = k\<lparr>k_fs := s\<rparr>"
    by (auto simp: with_files_def split: bind_splits)
  have "fs_bounded s" by (rule assms [OF s(1) kernel_kept_fields(7) [OF k]])
  with s k show "kernel_kept k0 k' \<and> (\<exists>s. out = shown s)" by (auto intro: kernel_kept_fields(1))
qed

lemma keeps_file_commands [keeps_commands]:
  "keeps_kernel (with_files cat_main)" "keeps_kernel (with_files (cp_main env))" "keeps_kernel (with_files mv_main)"
  "keeps_kernel (with_files rm_main)" "keeps_kernel (with_files rmdir_main)" "keeps_kernel (with_files (mkdir_main env))"
  "keeps_kernel (with_files (touch_main env))" "keeps_kernel (with_files (\<lambda>_. pwd_main))"
  by (rule keeps_files; erule cat_bounded cp_bounded mv_bounded rm_bounded rmdir_bounded mkdir_bounded touch_bounded; assumption)+
    (rule keeps_files, auto dest: pwd_same)

lemma keeps_clear [keeps_commands]: "keeps_kernel clear_command"
  by (simp add: keeps_kernel_def clear_command_def clear_main_def)

lemma keeps_printing [keeps_commands]: "keeps_kernel ps_command" "keeps_kernel (cpuinfo_command env)" "keeps_kernel (figlet_command env)"
  using keeps_text unfolding keeps_kernel_def ps_command_def cpuinfo_command_def figlet_command_def by blast+

lemma keeps_rand [keeps_commands]: "keeps_kernel rand_command"
  by (rule command_keepsI) (auto simp: rand_command_def split: bind_splits intro: kernel_kept_fields(4))

lemma keeps_bc [keeps_commands]: "keeps_kernel (bc_command env)"
  by (rule command_keepsI) (auto simp: bc_command_def split: bind_splits intro: kernel_kept_fields(5))

lemma keeps_power [keeps_commands]: "keeps_kernel (power_command p env)"
  by (rule command_keepsI) (auto simp: power_command_def split: prod.splits option.splits)

lemma keeps_cd [keeps_commands]: "keeps_kernel cd_command"
proof (rule command_keepsI)
  fix k0 args ctx input k status out ctx' input' k'
  assume k: "kernel_kept k0 k" and f: "cd_command args ctx input k = Some (status, out, ctx', input', k')"
  then obtain msg s cwd where s: "cd_main (map name_of args) (k_fs k) (k_cwd k) = Some (status, msg, s, cwd)"
    "out = shown msg" "k' = k\<lparr>k_fs := s, k_cwd := cwd\<rparr>"
    by (auto simp: cd_command_def split: bind_splits)
  have "kernel_kept k0 (k\<lparr>k_fs := s\<rparr>)"
    by (rule kernel_kept_fields(1) [OF k cd_bounded [OF s(1) kernel_kept_fields(7) [OF k]]])
  from kernel_kept_fields(3) [OF this] s show "kernel_kept k0 k' \<and> (\<exists>s. out = shown s)" by auto
qed

lemma ls_entry_output: "ls_entry f = Some out \<Longrightarrow> x \<in> set out \<Longrightarrow> vga_op_ok x"
  by (auto simp: ls_entry_def shown_def split: bind_splits if_splits)

lemma those_members: "those xs = Some ys \<Longrightarrow> y \<in> set ys \<Longrightarrow> Some y \<in> set xs"
  by (induction xs arbitrary: ys) (auto split: option.splits)

lemma ls_output:
  assumes "ls_main color s = Some out"
  shows "\<forall>x \<in> set out. vga_op_ok x"
proof (cases "fs_count s = 0")
  case False
  let ?xs = "map (\<lambda>i. let f = fs_files s ! i in if f_parent f = fs_cwd s then ls_entry f else Some []) [0..<fs_count s]"
  obtain entries nl where e: "those ?xs = Some entries"
    "out = concat entries @ VColor (color AND 0x0F) (drop_bit 4 color AND 0x0F) # shown nl"
    using assms False by (auto simp: ls_main_def split: bind_splits)
  have "\<forall>x \<in> set y. vga_op_ok x" if "y \<in> set entries" for y
    using those_members [OF e(1) that] ls_entry_output [of _ y] by (auto simp: Let_def split: if_splits)
  with e(2) shown_ok show ?thesis by auto
qed (use assms in \<open>simp add: ls_main_def\<close>)

lemma keeps_ls [keeps_commands]: "keeps_kernel (ls_command env)"
  using ls_output by (auto simp: keeps_kernel_def ls_command_def split: bind_splits)

lemma keeps_ed [keeps_commands]: "keeps_kernel (ed_command env)"
proof (rule command_keepsI)
  fix k0 args ctx input k status out ctx' input' k'
  assume k: "kernel_kept k0 k" and f: "ed_command env args ctx input k = Some (status, out, ctx', input', k')"
  obtain b sz len ins where ed: "k_ed k = (b, sz, len, ins)" by (cases "k_ed k")
  let ?e = "\<lparr>ed_buffer = b, ed_size = sz, ed_len = len, ed_insert = ins, ed_in = console input k, ed_fs = k_fs k\<rparr>"
  obtain r where r: "ed_main (ce_heap env k) (ce_clock env k) ?e = Some r"
    using f ed by (auto simp: ed_command_def split: bind_splits)
  then obtain e where e: "r = Finished status e" "out = shown (screen (ed_in e))"
    "k' = k\<lparr>k_fs := ed_fs e, k_stdin := no_keys (ed_in e), k_ed := (ed_buffer e, ed_size e, ed_len e, ed_insert e)\<rparr>"
    using f ed by (cases r) (auto simp: ed_command_def)
  have "fs_bounded (ed_fs e)" using ed_bounded [of _ _ ?e status e] r e(1) kernel_kept_fields(7) [OF k] by simp
  from kernel_kept_fields(6) [OF kernel_kept_fields(5) [OF kernel_kept_fields(1) [OF k this]]] e(2,3)
  show "kernel_kept k0 k' \<and> (\<exists>s. out = shown s)" by auto
qed

lemma kb_getchar_inv: "kb_getchar st ports = Some (c, u, rest) \<Longrightarrow> kb_inv st \<Longrightarrow> kb_inv u"
  by (auto simp: kb_getchar_def dest: getchar_loop_inv split: if_splits)

declare yes_loop.simps [simp del]

lemma yes_loop_inv: "yes_loop msg st ports = Some (out, st', rest) \<Longrightarrow> kb_inv st \<Longrightarrow> kb_inv st'"
proof (induction msg st ports arbitrary: out rule: yes_loop.induct)
  case (1 msg st ports)
  obtain e left where e: "kb_check_escape ports = Some (e, left)"
    using "1.prems"(1) by (subst (asm) yes_loop.simps) (auto split: bind_splits)
  show ?case
  proof (cases e)
    case True
    with e "1.prems" show ?thesis
      by (subst (asm) yes_loop.simps) (auto dest: kb_getchar_inv split: bind_splits)
  next
    case False
    with e "1.prems"(1) obtain o2 where "yes_loop msg st left = Some (o2, st', rest)"
      by (subst (asm) yes_loop.simps) (auto split: bind_splits)
    with "1.IH" [OF e refl False] "1.prems"(2) show ?thesis by blast
  qed
qed

lemma keeps_yes [keeps_commands]: "keeps_kernel (yes_command env)"
proof (rule command_keepsI)
  fix k0 args ctx input k status out ctx' input' k'
  assume k: "kernel_kept k0 k" and f: "yes_command env args ctx input k = Some (status, out, ctx', input', k')"
  then obtain msg kb left where y: "yes_main args (k_kb k) (ce_ports env k) = Some (status, msg, kb, left)"
    "out = shown msg" "k' = k\<lparr>k_kb := kb\<rparr>"
    by (auto simp: yes_command_def split: bind_splits)
  then have "kb_inv kb"
    using yes_loop_inv [OF _ kernel_kept_fields(8) [OF k]] by (auto simp: yes_main_def split: bind_splits)
  with y k show "kernel_kept k0 k' \<and> (\<exists>s. out = shown s)" by (auto intro: kernel_kept_fields(2))
qed

lemma help_page_ok: "x \<in> set (help_page table page) \<Longrightarrow> vga_op_ok x"
  by (auto simp: help_page_def help_border_def help_row_def print_padded_def help_number_def split: if_splits)

lemma help_again:
  "map_option (\<lambda>(out', rest). (p @ msg @ VPuts [10] # out', rest)) r = Some (out, rest) \<Longrightarrow>
   \<exists>o2. r = Some (o2, rest) \<and> out = p @ msg @ VPuts [10] # o2"
  by auto

lemma help_output:
  "help_loop table page input = Some (out, rest) \<Longrightarrow> \<forall>x \<in> set out. vga_op_ok x"
proof (induction input arbitrary: page out)
  case (Cons c input)
  let ?p = "help_page table page @ [VPutchar 10]"
  have p: "\<forall>x \<in> set ?p. vga_op_ok x" using help_page_ok by auto
  have "out = ?p \<or> (\<exists>msg page' o2. help_loop table page' input = Some (o2, rest) \<and>
      out = ?p @ msg @ VPuts [10] # o2 \<and> (\<forall>x \<in> set msg. vga_op_ok x))"
    using Cons.prems unfolding help_loop.simps Let_def
    by (simp only: split: if_split_asm) (drule help_again | simp | fastforce)+
  then show ?case using p Cons.IH by fastforce
qed simp

lemma keeps_shell [keeps_commands]: "keeps_kernel exit_main" "keeps_kernel history_main" "keeps_kernel (help_main table)"
  using help_output by (auto simp: keeps_kernel_def exit_main_def history_main_def help_main_def Let_def)



section \<open>Properties\<close>




end
