(* ===== verification/Atomic.thy ===== *)
theory Atomic
  imports Prelude "HOL-Library.Multiset"
begin

text \<open>
  The atomic operations of \<open>machine/atomic.h\<close>, with what \<open>sys/atomic.h\<close> adds to them.  Each one is a single
  instruction that reads and writes one word of memory, so that a run of several processors is a
  sequence of them: an operation takes the word to its result and the new word.  \<open>unsigned long\<close> has 32 bits.
\<close>

type_synonym ('a, 'r) rmw = "'a \<Rightarrow> 'r \<times> 'a"

section \<open>Instructions\<close>

text \<open>The register that the instruction leaves and the word in memory.\<close>

definition cmpxchg :: "'a::len word \<Rightarrow> 'a word \<Rightarrow> ('a word, 'a word) rmw" where
  "cmpxchg acc n p = (if p = acc then (acc, n) else (p, p))"

definition xchg :: "'a::len word \<Rightarrow> ('a word, 'a word) rmw" where "xchg n p = (p, n)"

definition xadd :: "'a::len word \<Rightarrow> ('a word, 'a word) rmw" where "xadd v p = (p, p + v)"

section \<open>Operations\<close>

definition atomic_cas_ulong :: "u32 \<Rightarrow> u32 \<Rightarrow> (u32, u32) rmw" where "atomic_cas_ulong e n = cmpxchg e n"
definition atomic_cas_ptr :: "u32 \<Rightarrow> u32 \<Rightarrow> (u32, u32) rmw" where "atomic_cas_ptr e n = cmpxchg e n"
definition atomic_swap_uint :: "u32 \<Rightarrow> (u32, u32) rmw" where "atomic_swap_uint n = xchg n"
definition atomic_swap_ulong :: "u32 \<Rightarrow> (u32, u32) rmw" where "atomic_swap_ulong n = xchg n"
definition atomic_swap_ptr :: "u32 \<Rightarrow> (u32, u32) rmw" where "atomic_swap_ptr n = xchg n"

definition atomic_inc_int :: "(u32, unit) rmw" where "atomic_inc_int p = ((), p + 1)"
definition atomic_inc_long :: "(u32, unit) rmw" where "atomic_inc_long p = ((), p + 1)"
definition atomic_dec_int :: "(u32, unit) rmw" where "atomic_dec_int p = ((), p - 1)"
definition atomic_dec_long :: "(u32, unit) rmw" where "atomic_dec_long p = ((), p - 1)"
definition atomic_add_int :: "u32 \<Rightarrow> (u32, unit) rmw" where "atomic_add_int v p = ((), p + v)"
definition atomic_add_long :: "u32 \<Rightarrow> (u32, unit) rmw" where "atomic_add_long v p = ((), p + v)"
definition atomic_sub_int :: "u32 \<Rightarrow> (u32, unit) rmw" where "atomic_sub_int v p = ((), p - v)"
definition atomic_sub_long :: "u32 \<Rightarrow> (u32, unit) rmw" where "atomic_sub_long v p = ((), p - v)"

definition atomic_add_int_nv :: "u32 \<Rightarrow> (u32, u32) rmw" where
  "atomic_add_int_nv v p = (let (rv, p) = xadd v p in (rv + v, p))"

definition atomic_add_long_nv :: "u32 \<Rightarrow> (u32, u32) rmw" where
  "atomic_add_long_nv v p = (let (rv, p) = xadd v p in (rv + v, p))"

definition atomic_sub_int_nv :: "u32 \<Rightarrow> (u32, u32) rmw" where
  "atomic_sub_int_nv v p = (let (rv, p) = xadd (0 - v) p in (rv - v, p))"

definition atomic_sub_long_nv :: "u32 \<Rightarrow> (u32, u32) rmw" where
  "atomic_sub_long_nv v p = (let (rv, p) = xadd (0 - v) p in (rv - v, p))"

definition atomic_inc_int_nv :: "(u32, u32) rmw" where "atomic_inc_int_nv = atomic_add_int_nv 1"
definition atomic_inc_long_nv :: "(u32, u32) rmw" where "atomic_inc_long_nv = atomic_add_long_nv 1"
definition atomic_dec_int_nv :: "(u32, u32) rmw" where "atomic_dec_int_nv = atomic_sub_int_nv 1"
definition atomic_dec_long_nv :: "(u32, u32) rmw" where "atomic_dec_long_nv = atomic_sub_long_nv 1"

definition atomic_load_int :: "(u32, u32) rmw" where "atomic_load_int p = (p, p)"
definition atomic_load_long :: "(u32, u32) rmw" where "atomic_load_long p = (p, p)"
definition atomic_store_int :: "u32 \<Rightarrow> (u32, unit) rmw" where "atomic_store_int v p = ((), v)"
definition atomic_store_long :: "u32 \<Rightarrow> (u32, unit) rmw" where "atomic_store_long v p = ((), v)"

definition i386_atomic_setbits_l :: "u32 \<Rightarrow> (u32, unit) rmw" where "i386_atomic_setbits_l bits p = ((), p OR bits)"
definition i386_atomic_clearbits_l :: "u32 \<Rightarrow> (u32, unit) rmw" where "i386_atomic_clearbits_l bits p = ((), p AND NOT bits)"

definition i386_atomic_testset_ul :: "u32 \<Rightarrow> (u32, u32) rmw" where "i386_atomic_testset_ul val = xchg val"
definition i386_atomic_testset_i :: "u32 \<Rightarrow> (u32, int) rmw" where
  "i386_atomic_testset_i val p = (let (r, p) = xchg val p in (sint r, p))"

text \<open>
  The exchange of eight bytes is a loop: the first comparison is with the new value, a later one with what
  the last one found.  The loop is the only operation of several steps; others may change the word
  between them, so it is a step on the register and the word.
\<close>

definition testset_uq_step :: "u64 \<Rightarrow> u64 \<Rightarrow> (u64, bool \<times> u64) rmw" where
  "testset_uq_step val acc p = (let (r, q) = cmpxchg acc val p in ((p = acc, r), q))"

function i386_atomic_testset_uq :: "u64 \<Rightarrow> u64 \<Rightarrow> (u64, u64) rmw" where
  "i386_atomic_testset_uq val acc p =
     (case testset_uq_step val acc p of
        ((True, r), p) \<Rightarrow> (r, p)
      | ((False, r), p) \<Rightarrow> i386_atomic_testset_uq val r p)"
  by pat_completeness auto
termination
  by (relation "measure (\<lambda>(_, acc, p). if p = acc then 0 else 1)")
    (auto simp: testset_uq_step_def cmpxchg_def split: if_splits)

declare i386_atomic_testset_uq.simps [simp del]

section \<open>Properties\<close>

lemma nv_results:
  "atomic_add_int_nv v p = (p + v, p + v)" "atomic_sub_int_nv v p = (p - v, p - v)"
  "atomic_add_long_nv v p = (p + v, p + v)" "atomic_sub_long_nv v p = (p - v, p - v)"
  by (simp_all add: atomic_add_int_nv_def atomic_sub_int_nv_def atomic_add_long_nv_def atomic_sub_long_nv_def xadd_def)

text \<open>Alone, the loop exchanges the word in at most two rounds.\<close>

lemma testset_uq_exchanges: "i386_atomic_testset_uq val val p = (p, val)"
proof -
  have found: "i386_atomic_testset_uq val p p = (p, val)"
    by (subst i386_atomic_testset_uq.simps) (simp add: testset_uq_step_def cmpxchg_def)
  show ?thesis
  proof (cases "p = val")
    case False
    with found show ?thesis by (subst i386_atomic_testset_uq.simps) (simp add: testset_uq_step_def cmpxchg_def)
  qed (use found in simp)
qed

text \<open>
  With other processors in between: \<open>others\<close> has the words that the rounds find.  The loop ends with the first
  round that finds what the one before found, and has then put the value in the place of just that word.
\<close>

fun testset_uq_rounds :: "u64 \<Rightarrow> u64 \<Rightarrow> u64 list \<Rightarrow> (u64 \<times> u64) option" where
  "testset_uq_rounds val acc [] = None"
| "testset_uq_rounds val acc (p # others) =
     (case testset_uq_step val acc p of
        ((True, r), q) \<Rightarrow> Some (r, q)
      | ((False, r), q) \<Rightarrow> testset_uq_rounds val r others)"

lemma testset_uq_linear:
  "testset_uq_rounds val acc ps = Some (r, q) \<Longrightarrow> q = val \<and> r \<in> set ps \<and> (\<exists>pre post. ps = pre @ r # post \<and> last (acc # pre) = r)"
proof (induction ps arbitrary: acc)
  case (Cons p ps)
  show ?case
  proof (cases "p = acc")
    case True
    with Cons.prems show ?thesis by (auto simp: testset_uq_step_def cmpxchg_def intro!: exI [of _ "[]"])
  next
    case False
    then have "testset_uq_rounds val p ps = Some (r, q)"
      using Cons.prems by (simp add: testset_uq_step_def cmpxchg_def)
    from Cons.IH [OF this] obtain pre post where "q = val" "r \<in> set ps" "ps = pre @ r # post" "last (p # pre) = r" by blast
    then show ?thesis by (intro conjI exI [of _ "p # pre"] exI [of _ post]) simp_all
  qed
qed simp

text \<open>A counter: the calls of all processors in the order in which they reach the memory.\<close>

datatype count_op = Inc | Dec | Add u32 | Sub u32 | IncNv | DecNv

fun count_step :: "count_op \<Rightarrow> (u32, u32 option) rmw" where
  "count_step Inc p = (None, snd (atomic_inc_int p))"
| "count_step Dec p = (None, snd (atomic_dec_int p))"
| "count_step (Add v) p = (None, snd (atomic_add_int v p))"
| "count_step (Sub v) p = (None, snd (atomic_sub_int v p))"
| "count_step IncNv p = apfst Some (atomic_inc_int_nv p)"
| "count_step DecNv p = apfst Some (atomic_dec_int_nv p)"

fun count_run :: "count_op list \<Rightarrow> (u32, u32 option list) rmw" where
  "count_run [] p = ([], p)"
| "count_run (x # xs) p = (let (r, p) = count_step x p; (rs, p) = count_run xs p in (r # rs, p))"

fun change :: "count_op \<Rightarrow> u32" where
  "change Inc = 1" | "change Dec = -1" | "change (Add v) = v" | "change (Sub v) = - v" | "change IncNv = 1" | "change DecNv = -1"

lemma count_step_change: "snd (count_step x p) = p + change x"
  by (cases x) (simp_all add: atomic_inc_int_def atomic_dec_int_def atomic_add_int_def atomic_sub_int_def
      atomic_inc_int_nv_def atomic_dec_int_nv_def nv_results)

lemma count_run_sum: "snd (count_run xs p) = p + sum_list (map change xs)"
proof (induction xs arbitrary: p)
  case (Cons x xs)
  from Cons.IH [of "p + change x"] count_step_change [of x p] show ?case
    by (simp add: case_prod_unfold algebra_simps)
qed simp

text \<open>No update is lost, in whatever order the calls arrive.\<close>

lemma count_run_order: "mset xs = mset ys \<Longrightarrow> snd (count_run xs p) = snd (count_run ys p)"
proof -
  assume "mset xs = mset ys"
  then have "sum_mset (image_mset change (mset xs)) = sum_mset (image_mset change (mset ys))" by simp
  then show ?thesis by (simp add: count_run_sum sum_mset_sum_list flip: mset_map)
qed

text \<open>Tickets: fewer than \<open>2 ^ 32\<close> increments hand out different numbers.\<close>

lemma tickets: "count_run (replicate n IncNv) p = (map (\<lambda>i. Some (p + of_nat (Suc i))) [0..<n], p + of_nat n)"
proof (induction n arbitrary: p)
  case (Suc n)
  have "map (\<lambda>i. Some (p + of_nat (Suc i))) [0..<Suc n] = Some (p + 1) # map (\<lambda>i. Some (p + 1 + of_nat (Suc i))) [0..<n]"
    by (simp only: upt_conv_Cons zero_less_Suc list.map map_Suc_upt [symmetric] map_map comp_def) (simp add: algebra_simps)
  with Suc.IH [of "p + 1"] show ?case
    by (simp add: atomic_inc_int_nv_def nv_results algebra_simps)
qed simp

lemma tickets_distinct:
  assumes "n \<le> 2 ^ 32"
  shows "distinct (fst (count_run (replicate n IncNv) p))"
proof -
  have "inj_on (\<lambda>i. Some (p + of_nat (Suc i))) {0..<n}"
  proof (rule inj_onI)
    fix i j assume ij: "i \<in> {0..<n}" "j \<in> {0..<n}" "Some (p + of_nat (Suc i)) = Some (p + of_nat (Suc j))"
    then have "(of_nat i :: u32) = of_nat j" by simp
    then have "i mod 2 ^ 32 = j mod 2 ^ 32" by (simp add: word_of_nat_eq_iff take_bit_eq_mod)
    with ij assms show "i = j" by simp
  qed
  then show ?thesis by (simp add: tickets distinct_map)
qed

end
