(* ===== verification/Srplist.thy ===== *)
theory Srplist
  imports Prelude Kern
begin

text \<open>
  Lists of shared reference pointers, the macros of \<open>sys/srp.h\<close>: the head and the next pointer of every element are
  pointers of \<open>Kern\<close> that share one \<open>srp_gc\<close>.  An element is known by its address; \<open>ref_calls\<close> are the calls of
  the function \<open>srpl_ref\<close> of the client, the last one first.
\<close>

record srpl =
  sl_head :: "nat option"
  se_next :: "nat \<Rightarrow> nat option"
  sl_gc :: "nat srp_gc"
  ref_calls :: "nat list"

section \<open>The macros\<close>

text \<open>\<open>srp_enter\<close> and \<open>srp_follow\<close> on one processor; with several they are stubs that return a null pointer.\<close>

definition srp_enter :: "nat option \<Rightarrow> nat option" where "srp_enter srp = srp"
definition srp_follow :: "nat option \<Rightarrow> nat option" where "srp_follow = srp_enter"
definition srp_enter_mp :: "nat option \<Rightarrow> nat option" where "srp_enter_mp srp = None"
definition srp_follow_mp :: "nat option \<Rightarrow> nat option" where "srp_follow_mp srp = None"

definition SRPL_INIT :: "srpl \<Rightarrow> srpl" where "SRPL_INIT l = l\<lparr>sl_head := srp_init\<rparr>"
definition SRPL_FIRST :: "srpl \<Rightarrow> nat option" where "SRPL_FIRST l = srp_enter (sl_head l)"
definition SRPL_NEXT :: "srpl \<Rightarrow> nat \<Rightarrow> nat option" where "SRPL_NEXT l e = srp_enter (se_next l e)"
definition SRPL_FOLLOW :: "srpl \<Rightarrow> nat \<Rightarrow> nat option" where "SRPL_FOLLOW l e = srp_follow (se_next l e)"
definition SRPL_FIRST_LOCKED :: "srpl \<Rightarrow> nat option" where "SRPL_FIRST_LOCKED l = srp_get_locked (sl_head l)"
definition SRPL_EMPTY_LOCKED :: "srpl \<Rightarrow> bool" where "SRPL_EMPTY_LOCKED l \<longleftrightarrow> SRPL_FIRST_LOCKED l = None"
definition SRPL_NEXT_LOCKED :: "srpl \<Rightarrow> nat \<Rightarrow> nat option" where "SRPL_NEXT_LOCKED l e = srp_get_locked (se_next l e)"

text \<open>The elements that a loop visits, from a pointer on.\<close>

partial_function (option) foreach_from :: "(nat \<Rightarrow> nat option) \<Rightarrow> nat option \<Rightarrow> nat list option" where
  "foreach_from follow c =
     (case c of None \<Rightarrow> Some [] | Some e \<Rightarrow> do { es \<leftarrow> foreach_from follow (follow e); Some (e # es) })"

definition SRPL_FOREACH :: "srpl \<Rightarrow> nat list option" where
  "SRPL_FOREACH l = foreach_from (SRPL_FOLLOW l) (SRPL_FIRST l)"

definition SRPL_FOREACH_LOCKED :: "srpl \<Rightarrow> nat list option" where
  "SRPL_FOREACH_LOCKED l = foreach_from (SRPL_NEXT_LOCKED l) (SRPL_FIRST_LOCKED l)"

text \<open>A call of the client's function, and the update of the head or of a next pointer.\<close>

definition srpl_ref :: "nat \<Rightarrow> srpl \<Rightarrow> srpl" where "srpl_ref e l = l\<lparr>ref_calls := e # ref_calls l\<rparr>"

definition update_head :: "nat option \<Rightarrow> srpl \<Rightarrow> srpl" where
  "update_head p l = (let (gc, q) = srp_update_locked (sl_gc l) (sl_head l) p in l\<lparr>sl_gc := gc, sl_head := q\<rparr>)"

definition update_next :: "nat \<Rightarrow> nat option \<Rightarrow> srpl \<Rightarrow> srpl" where
  "update_next e p l =
     (let (gc, q) = srp_update_locked (sl_gc l) (se_next l e) p in l\<lparr>sl_gc := gc, se_next := (se_next l)(e := q)\<rparr>)"

definition SRPL_INSERT_HEAD_LOCKED :: "nat \<Rightarrow> srpl \<Rightarrow> srpl" where
  "SRPL_INSERT_HEAD_LOCKED e l =
     (let l = l\<lparr>se_next := (se_next l)(e := srp_init)\<rparr>;
          l = (case SRPL_FIRST_LOCKED l of None \<Rightarrow> l | Some head \<Rightarrow> update_next e (Some head) (srpl_ref head l))
      in update_head (Some e) (srpl_ref e l))"

definition SRPL_INSERT_AFTER_LOCKED :: "nat \<Rightarrow> nat \<Rightarrow> srpl \<Rightarrow> srpl" where
  "SRPL_INSERT_AFTER_LOCKED se e l =
     (let l = l\<lparr>se_next := (se_next l)(e := srp_init)\<rparr>;
          l = (case SRPL_NEXT_LOCKED l se of None \<Rightarrow> l | Some nxt \<Rightarrow> update_next e (Some nxt) (srpl_ref nxt l))
      in update_next se (Some e) (srpl_ref e l))"

text \<open>The loop that finds the pointer to an element: None for the head, else the element before.  At the end of
  the list it follows a null pointer.\<close>

partial_function (option) find_ref :: "(nat \<Rightarrow> nat option) \<Rightarrow> nat \<Rightarrow> nat option \<Rightarrow> nat option \<Rightarrow> nat option option" where
  "find_ref nxt e ref c =
     do { x \<leftarrow> c; if x = e then Some ref else find_ref nxt e (Some x) (nxt x) }"

definition SRPL_REMOVE_LOCKED :: "nat \<Rightarrow> srpl \<Rightarrow> srpl option" where
  "SRPL_REMOVE_LOCKED e l =
     do { ref \<leftarrow> find_ref (se_next l) e None (SRPL_FIRST_LOCKED l);
          let n = SRPL_NEXT_LOCKED l e;
              l = (case n of None \<Rightarrow> l | Some x \<Rightarrow> srpl_ref x l);
              l = (case ref of None \<Rightarrow> update_head n l | Some x \<Rightarrow> update_next x n l)
          in Some (update_next e None l) }"

section \<open>The list behind the pointers\<close>

fun leads :: "(nat \<Rightarrow> nat option) \<Rightarrow> nat option \<Rightarrow> nat list \<Rightarrow> nat option \<Rightarrow> bool" where
  "leads nxt p [] q \<longleftrightarrow> p = q"
| "leads nxt p (x # xs) q \<longleftrightarrow> p = Some x \<and> leads nxt (nxt x) xs q"

definition counts :: "nat \<Rightarrow> 'p srp_gc \<Rightarrow> bool" where
  "counts n gc \<longleftrightarrow> unat (r_refs (gc_refcnt gc)) = Suc n \<and> gc_dtor_calls gc = []"

text \<open>The pointers of the elements outside the list are null, and the count is one more than the elements.\<close>

definition srpl_holds :: "srpl \<Rightarrow> nat list \<Rightarrow> bool" where
  "srpl_holds l xs \<longleftrightarrow> leads (se_next l) (sl_head l) xs None \<and> distinct xs \<and>
     (\<forall>e. e \<notin> set xs \<longrightarrow> se_next l e = None) \<and> length xs < 2 ^ 31 \<and> counts (length xs) (sl_gc l)"

lemma leads_append: "leads f p (xs @ ys) q \<longleftrightarrow> (\<exists>r. leads f p xs r \<and> leads f r ys q)"
  by (induction xs arbitrary: p) auto

lemma leads_outside [simp]: "e \<notin> set xs \<Longrightarrow> leads (f(e := r)) p xs q = leads f p xs q"
  by (induction xs arbitrary: p) auto

lemma leads_target: "leads f p xs q \<Longrightarrow> leads f p xs r \<Longrightarrow> xs \<noteq> [] \<Longrightarrow> q = r"
  by (induction xs arbitrary: p) (auto split: if_splits, (case_tac xs; auto)+)

lemma leads_first: "leads f p xs q \<Longrightarrow> p = (case xs of [] \<Rightarrow> q | x # _ \<Rightarrow> Some x)"
  by (cases xs) auto

text \<open>The pointer behind the last element of a part of the list.\<close>

lemma leads_snoc: "leads f p (xs @ [x]) q \<longleftrightarrow> leads f p xs (Some x) \<and> f x = q"
  by (auto simp: leads_append)

lemma update_counts:
  assumes "counts k gc" "Suc (Suc k) < 2 ^ 32" "old \<noteq> None \<longrightarrow> 0 < k"
  shows "\<exists>gc'. srp_update_locked gc old ptr = (gc', ptr) \<and>
    counts (k + (if ptr \<noteq> None then 1 else 0) - (if old \<noteq> None then 1 else 0)) gc'"
proof -
  from srp_update_refs [of gc k old ptr] assms obtain gc' where
    g: "srp_update_locked gc old ptr = (gc', ptr)" "gc_dtor_calls gc' = []"
    "unat (r_refs (gc_refcnt gc')) + (if old \<noteq> None then 1 else 0) = Suc k + (if ptr \<noteq> None then 1 else 0)"
    by (auto simp: counts_def)
  with assms(3) show ?thesis by (intro exI [of _ gc']) (auto simp: counts_def split: if_splits)
qed

lemma update_next_counts:
  assumes "counts k (sl_gc l)" "Suc (Suc k) < 2 ^ 32" "se_next l e \<noteq> None \<longrightarrow> 0 < k"
  shows "\<exists>gc. update_next e p l = l\<lparr>sl_gc := gc, se_next := (se_next l)(e := p)\<rparr> \<and>
    counts (k + (if p \<noteq> None then 1 else 0) - (if se_next l e \<noteq> None then 1 else 0)) gc"
  using update_counts [OF assms, of p] by (auto simp: update_next_def)

lemma update_head_counts:
  assumes "counts k (sl_gc l)" "Suc (Suc k) < 2 ^ 32" "sl_head l \<noteq> None \<longrightarrow> 0 < k"
  shows "\<exists>gc. update_head p l = l\<lparr>sl_gc := gc, sl_head := p\<rparr> \<and>
    counts (k + (if p \<noteq> None then 1 else 0) - (if sl_head l \<noteq> None then 1 else 0)) gc"
  using update_counts [OF assms, of p] by (auto simp: update_head_def)

section \<open>Insertion\<close>

lemma insert_head_holds:
  assumes "srpl_holds l xs" "e \<notin> set xs" "length xs + 1 < 2 ^ 31"
  shows "srpl_holds (SRPL_INSERT_HEAD_LOCKED e l) (e # xs)"
proof -
  have h: "leads (se_next l) (sl_head l) xs None" "se_next l e = None" "counts (length xs) (sl_gc l)"
    using assms(1,2) by (auto simp: srpl_holds_def)
  let ?l = "l\<lparr>se_next := (se_next l)(e := None)\<rparr>"
  have same: "(se_next l)(e := None) = se_next l" using h(2) by auto
  show ?thesis
  proof (cases "sl_head l")
    case None
    then have xs: "xs = []" using h(1) by (cases xs) auto
    obtain gc where "update_head (Some e) (srpl_ref e ?l) = (srpl_ref e ?l)\<lparr>sl_gc := gc, sl_head := Some e\<rparr>" "counts 1 gc"
      using update_head_counts [of 0 "srpl_ref e ?l" "Some e"] h(3) None xs by (auto simp: srpl_ref_def)
    with None xs assms h show ?thesis
      by (auto simp: SRPL_INSERT_HEAD_LOCKED_def SRPL_FIRST_LOCKED_def srp_get_locked_def srp_init_def srpl_holds_def srpl_ref_def)
  next
    case (Some hd)
    then have pos: "0 < length xs" using h(1) by (cases xs) auto
    let ?m = "srpl_ref hd ?l"
    obtain g1 where 1: "update_next e (Some hd) ?m = ?m\<lparr>sl_gc := g1, se_next := (se_next l)(e := Some hd)\<rparr>" "counts (Suc (length xs)) g1"
      using update_next_counts [of "length xs" ?m e "Some hd"] h(2,3) assms(3) by (auto simp: srpl_ref_def same)
    let ?n = "srpl_ref e (?m\<lparr>sl_gc := g1, se_next := (se_next l)(e := Some hd)\<rparr>)"
    obtain g2 where 2: "update_head (Some e) ?n = ?n\<lparr>sl_gc := g2, sl_head := Some e\<rparr>" "counts (Suc (length xs)) g2"
      using update_head_counts [of "Suc (length xs)" ?n "Some e"] 1(2) assms(3) Some by (auto simp: srpl_ref_def)
    show ?thesis
      using Some 1(1) 2 assms h(1)
      by (auto simp: SRPL_INSERT_HEAD_LOCKED_def SRPL_FIRST_LOCKED_def srp_get_locked_def srp_init_def srpl_holds_def srpl_ref_def)
  qed
qed

lemma insert_after_holds:
  assumes "srpl_holds l (as @ se # bs)" "e \<notin> set (as @ se # bs)" "length (as @ se # bs) + 1 < 2 ^ 31"
  shows "srpl_holds (SRPL_INSERT_AFTER_LOCKED se e l) (as @ se # e # bs)"
proof -
  let ?k = "length (as @ se # bs)"
  have h: "leads (se_next l) (sl_head l) as (Some se)" "leads (se_next l) (se_next l se) bs None"
    "se_next l e = None" "counts ?k (sl_gc l)" "distinct (as @ se # bs)"
    using assms(1,2) by (auto simp: srpl_holds_def leads_append)
  let ?l = "l\<lparr>se_next := (se_next l)(e := None)\<rparr>"
  have same: "(se_next l)(e := None) = se_next l" using h(3) by auto
  have ne: "e \<noteq> se" using assms(2) by auto
  show ?thesis
  proof (cases "se_next l se")
    case None
    then have bs: "bs = []" using h(2) by (cases bs) auto
    obtain gc where "update_next se (Some e) (srpl_ref e ?l) =
        (srpl_ref e ?l)\<lparr>sl_gc := gc, se_next := (se_next l)(se := Some e)\<rparr>" "counts (Suc ?k) gc"
      using update_next_counts [of ?k "srpl_ref e ?l" se "Some e"] h(4) None assms(3) by (auto simp: srpl_ref_def same)
    with None bs assms h ne show ?thesis
      by (auto simp: SRPL_INSERT_AFTER_LOCKED_def SRPL_NEXT_LOCKED_def srp_get_locked_def srp_init_def srpl_holds_def
          srpl_ref_def same leads_append)
  next
    case (Some nx)
    let ?m = "srpl_ref nx ?l"
    obtain g1 where 1: "update_next e (Some nx) ?m = ?m\<lparr>sl_gc := g1, se_next := (se_next l)(e := Some nx)\<rparr>" "counts (Suc ?k) g1"
      using update_next_counts [of ?k ?m e "Some nx"] h(3,4) assms(3) by (auto simp: srpl_ref_def same)
    let ?n = "srpl_ref e (?m\<lparr>sl_gc := g1, se_next := (se_next l)(e := Some nx)\<rparr>)"
    obtain g2 where 2: "update_next se (Some e) ?n = ?n\<lparr>sl_gc := g2, se_next := (se_next l)(e := Some nx, se := Some e)\<rparr>"
        "counts (Suc ?k) g2"
      using update_next_counts [of "Suc ?k" ?n se "Some e"] 1(2) assms(3) Some ne by (auto simp: srpl_ref_def)
    show ?thesis
      using Some 1(1) 2 assms h ne
      by (auto simp: SRPL_INSERT_AFTER_LOCKED_def SRPL_NEXT_LOCKED_def srp_get_locked_def srp_init_def srpl_holds_def
          srpl_ref_def same leads_append)
  qed
qed

section \<open>Removal\<close>

lemma find_ref_leads:
  "leads f c (as @ e # bs) q \<Longrightarrow> e \<notin> set as \<Longrightarrow> find_ref f e ref c = Some (if as = [] then ref else Some (last as))"
proof (induction as arbitrary: c ref)
  case Nil
  then show ?case by (subst find_ref.simps) simp
next
  case (Cons a as)
  then have "c = Some a" "leads f (f a) (as @ e # bs) q" "a \<noteq> e" "e \<notin> set as" by auto
  with Cons.IH [of "f a" "Some a"] show ?case by (subst find_ref.simps) simp
qed

lemma remove_holds:
  assumes "srpl_holds l (as @ e # bs)"
  shows "\<exists>m. SRPL_REMOVE_LOCKED e l = Some m \<and> srpl_holds m (as @ bs)"
proof -
  let ?k = "length (as @ e # bs)"
  have h: "leads (se_next l) (sl_head l) as (Some e)" "leads (se_next l) (se_next l e) bs None" "counts ?k (sl_gc l)"
    "distinct (as @ e # bs)" "\<forall>x. x \<notin> set (as @ e # bs) \<longrightarrow> se_next l x = None" "?k < 2 ^ 31"
    using assms by (auto simp: srpl_holds_def leads_append)
  have f: "find_ref (se_next l) e None (SRPL_FIRST_LOCKED l) = Some (if as = [] then None else Some (last as))"
    using find_ref_leads [of "se_next l" "sl_head l" as e bs None] h by (auto simp: leads_append SRPL_FIRST_LOCKED_def srp_get_locked_def)
  define n where "n = se_next l e"
  let ?m = "case n of None \<Rightarrow> l | Some x \<Rightarrow> srpl_ref x l"
  have m: "sl_gc ?m = sl_gc l" "se_next ?m = se_next l" "sl_head ?m = sl_head l"
    by (simp_all add: srpl_ref_def split: option.split)
  have n: "n = None \<longleftrightarrow> bs = []" using h(2) by (cases bs) (auto simp: n_def)
  let ?j = "?k + (if n \<noteq> None then 1 else 0) - 1"
  have j: "?j = length (as @ bs) + (if n \<noteq> None then 1 else 0)" by simp
  have "\<exists>g. (case (if as = [] then None else Some (last as)) of None \<Rightarrow> update_head n ?m | Some x \<Rightarrow> update_next x n ?m) =
      ?m\<lparr>sl_gc := g, sl_head := (if as = [] then n else sl_head l),
         se_next := (if as = [] then se_next l else (se_next l)(last as := n))\<rparr> \<and> counts ?j g"
  proof (cases "as = []")
    case True
    obtain g where "update_head n ?m = ?m\<lparr>sl_gc := g, sl_head := n\<rparr>" "counts ?j g"
      using update_head_counts [of ?k ?m n] h(1,3,6) True by (auto simp: m)
    moreover have "?m\<lparr>sl_gc := g, sl_head := n\<rparr> = ?m\<lparr>sl_gc := g, sl_head := n, se_next := se_next l\<rparr>"
      using m(2) by (cases ?m) simp
    ultimately show ?thesis using True by auto
  next
    case False
    have "se_next l (last as) = Some e"
      using h(1) False leads_snoc [of "se_next l" "sl_head l" "butlast as" "last as" "Some e"] by simp
    then obtain g where "update_next (last as) n ?m = ?m\<lparr>sl_gc := g, se_next := (se_next l)(last as := n)\<rparr>" "counts ?j g"
      using update_next_counts [of ?k ?m "last as" n] h(3,6) by (auto simp: m)
    moreover have "?m\<lparr>sl_gc := g, se_next := (se_next l)(last as := n)\<rparr> =
        ?m\<lparr>sl_gc := g, sl_head := sl_head l, se_next := (se_next l)(last as := n)\<rparr>"
      using m(3) by (cases ?m) simp
    ultimately show ?thesis using False by auto
  qed
  then obtain g where g: "(case (if as = [] then None else Some (last as)) of None \<Rightarrow> update_head n ?m | Some x \<Rightarrow> update_next x n ?m) =
      ?m\<lparr>sl_gc := g, sl_head := (if as = [] then n else sl_head l),
         se_next := (if as = [] then se_next l else (se_next l)(last as := n))\<rparr>" "counts ?j g" by blast
  let ?r = "?m\<lparr>sl_gc := g, sl_head := (if as = [] then n else sl_head l),
         se_next := (if as = [] then se_next l else (se_next l)(last as := n))\<rparr>"
  have nl: "as \<noteq> [] \<Longrightarrow> last as \<noteq> e" using h(4) by auto
  have re: "se_next ?r e = n" using nl by (auto simp: n_def)
  obtain g2 where g2: "update_next e None ?r = ?r\<lparr>sl_gc := g2, se_next := (se_next ?r)(e := None)\<rparr>" "counts (length (as @ bs)) g2"
    using update_next_counts [of ?j ?r e None] g(2) re h(6) by (cases n) auto
  have r: "SRPL_REMOVE_LOCKED e l = Some (?r\<lparr>sl_gc := g2, se_next := (se_next ?r)(e := None)\<rparr>)"
    using f g(1) g2(1) by (simp add: SRPL_REMOVE_LOCKED_def SRPL_NEXT_LOCKED_def srp_get_locked_def Let_def flip: n_def)
  have "leads ((se_next ?r)(e := None)) (sl_head ?r) (as @ bs) None"
  proof (cases "as = []")
    case True
    with h(2,4) show ?thesis by (simp add: n_def)
  next
    case False
    let ?i = "butlast as" and ?x = "last as"
    have as: "as = ?i @ [?x]" using False by simp
    have "leads (se_next l) (sl_head l) ?i (Some ?x)" using h(1) leads_snoc [of "se_next l" "sl_head l" ?i ?x "Some e"] as by simp
    moreover have "?x \<in> set as" using False by simp
    moreover have "distinct (?i @ [?x])" using h(4) as by simp
    moreover have "e \<notin> set ?i" using h(4) by (auto dest: in_set_butlastD)
    ultimately have "leads (se_next l) (sl_head l) ?i (Some ?x)" "?x \<notin> set ?i" "e \<notin> set ?i" "?x \<notin> set bs" "e \<notin> set bs" "?x \<noteq> e"
      using h(4) by auto
    then have "leads ((se_next l)(?x := n, e := None)) (sl_head l) (?i @ [?x] @ bs) None"
      using h(2) by (auto simp: leads_append n_def)
    moreover have "?i @ [?x] @ bs = as @ bs" using as by (metis append.assoc)
    ultimately have "leads ((se_next l)(?x := n, e := None)) (sl_head l) (as @ bs) None" by (simp only:)
    with False show ?thesis by simp
  qed
  moreover have "se_next (?r\<lparr>sl_gc := g2, se_next := (se_next ?r)(e := None)\<rparr>) x = None" if "x \<notin> set (as @ bs)" for x
    using that h(5) by (cases "as = []") auto
  ultimately show ?thesis using r h(4,6) g2(2) by (auto simp: srpl_holds_def)
qed

section \<open>Walks\<close>

lemma foreach_leads: "leads f p xs None \<Longrightarrow> foreach_from f p = Some xs"
  by (induction xs arbitrary: p) (subst foreach_from.simps, auto)+

lemma foreach_holds: "srpl_holds l xs \<Longrightarrow> SRPL_FOREACH l = Some xs \<and> SRPL_FOREACH_LOCKED l = Some xs"
  by (auto simp: srpl_holds_def SRPL_FOREACH_def SRPL_FOREACH_LOCKED_def SRPL_FIRST_def SRPL_FIRST_LOCKED_def srp_enter_def
      srp_get_locked_def SRPL_FOLLOW_def [abs_def] SRPL_NEXT_LOCKED_def [abs_def] srp_follow_def intro!: foreach_leads)

lemma first_holds: "srpl_holds l xs \<Longrightarrow> SRPL_EMPTY_LOCKED l = (xs = [])"
  by (cases xs) (auto simp: srpl_holds_def SRPL_EMPTY_LOCKED_def SRPL_FIRST_LOCKED_def srp_get_locked_def)

section \<open>Refinement\<close>

datatype srpl_op = SInit | SInsertHead nat | SInsertAfter nat nat | SRemove nat

fun srpl_step :: "srpl_op \<Rightarrow> srpl \<Rightarrow> srpl option" where
  "srpl_step SInit l = Some (SRPL_INIT l)"
| "srpl_step (SInsertHead e) l = Some (SRPL_INSERT_HEAD_LOCKED e l)"
| "srpl_step (SInsertAfter se e) l = Some (SRPL_INSERT_AFTER_LOCKED se e l)"
| "srpl_step (SRemove e) l = SRPL_REMOVE_LOCKED e l"

text \<open>The operations on lists; a list is made once, and elements are inserted that are not in it.\<close>

fun list_edit :: "srpl_op \<Rightarrow> nat list \<Rightarrow> nat list option" where
  "list_edit SInit xs = (if xs = [] then Some [] else None)"
| "list_edit (SInsertHead e) xs = (if e \<notin> set xs \<and> length xs + 1 < 2 ^ 31 then Some (e # xs) else None)"
| "list_edit (SInsertAfter se e) xs =
     (if se \<in> set xs \<and> e \<notin> set xs \<and> length xs + 1 < 2 ^ 31
      then Some (takeWhile (\<lambda>x. x \<noteq> se) xs @ se # e # tl (dropWhile (\<lambda>x. x \<noteq> se) xs)) else None)"
| "list_edit (SRemove e) xs =
     (if e \<in> set xs then Some (takeWhile (\<lambda>x. x \<noteq> e) xs @ tl (dropWhile (\<lambda>x. x \<noteq> e) xs)) else None)"

lemma split_first:
  assumes "e \<in> set xs"
  shows "xs = takeWhile (\<lambda>x. x \<noteq> e) xs @ e # tl (dropWhile (\<lambda>x. x \<noteq> e) xs)"
  using assms by (induction xs) auto

lemma srpl_step_holds:
  assumes "srpl_holds l xs" "list_edit x xs = Some ys"
  shows "\<exists>m. srpl_step x l = Some m \<and> srpl_holds m ys"
proof (cases x)
  case SInit
  with assms show ?thesis by (auto simp: SRPL_INIT_def srp_init_def srpl_holds_def split: if_splits)
next
  case (SInsertHead e)
  with assms insert_head_holds [OF assms(1), of e] show ?thesis by (auto split: if_splits)
next
  case (SInsertAfter se e)
  with assms(2) have m: "se \<in> set xs" "e \<notin> set xs" "length xs + 1 < 2 ^ 31"
    and ys: "ys = takeWhile (\<lambda>x. x \<noteq> se) xs @ se # e # tl (dropWhile (\<lambda>x. x \<noteq> se) xs)" by (auto split: if_splits)
  note xs = split_first [OF m(1)]
  have "srpl_holds (SRPL_INSERT_AFTER_LOCKED se e l) ys"
    unfolding ys by (rule insert_after_holds) (use assms(1) m(2,3) xs in \<open>simp_all flip: xs\<close>)
  with SInsertAfter show ?thesis by simp
next
  case (SRemove e)
  with assms(2) have m: "e \<in> set xs" and ys: "ys = takeWhile (\<lambda>x. x \<noteq> e) xs @ tl (dropWhile (\<lambda>x. x \<noteq> e) xs)"
    by (auto split: if_splits)
  have "\<exists>m. SRPL_REMOVE_LOCKED e l = Some m \<and> srpl_holds m ys"
    unfolding ys by (rule remove_holds) (use assms(1) split_first [OF m] in simp)
  with SRemove show ?thesis by simp
qed

text \<open>The list of pointers refines a list: after every sequence of operations the walks visit the elements of the list
  in order.  The count is one more than their number, so that the destructor is never called: the reference
  that an element got when it was inserted is not given back when it is removed.\<close>

theorem srpl_refines_list:
  assumes "srpl_holds l xs" "run_ops list_edit es xs = Some ys"
  shows "\<exists>m. run_ops srpl_step es l = Some m \<and> SRPL_FOREACH m = Some ys \<and> SRPL_FOREACH_LOCKED m = Some ys \<and>
    SRPL_EMPTY_LOCKED m = (ys = []) \<and> unat (r_refs (gc_refcnt (sl_gc m))) = Suc (length ys) \<and> gc_dtor_calls (sl_gc m) = []"
proof -
  have "\<exists>m. run_ops srpl_step es l = Some m \<and> srpl_holds m ys"
    using assms
  proof (induction es arbitrary: l xs)
    case (Cons x es)
    then obtain zs where zs: "list_edit x xs = Some zs" "run_ops list_edit es zs = Some ys" by (auto split: bind_splits)
    from srpl_step_holds [OF Cons.prems(1) zs(1)] obtain m where "srpl_step x l = Some m" "srpl_holds m zs" by blast
    with Cons.IH [OF _ zs(2)] show ?case by simp
  qed simp
  then obtain m where m: "run_ops srpl_step es l = Some m" "srpl_holds m ys" by blast
  with foreach_holds [OF m(2)] first_holds [OF m(2)] show ?thesis by (auto simp: srpl_holds_def counts_def)
qed

definition demo_srpl :: srpl where
  "demo_srpl = \<lparr>sl_head = None, se_next = \<lambda>_. None, sl_gc = \<lparr>gc_refcnt = \<lparr>r_refs = 1, r_traceidx = 0\<rparr>, gc_dtor_calls = []\<rparr>, ref_calls = []\<rparr>"

theorem srpl_refines_list_witness:
  "\<exists>m. run_ops srpl_step [SInsertHead 3, SInsertHead 2, SInsertAfter 2 5, SRemove 2] demo_srpl = Some m \<and>
    SRPL_FOREACH m = Some [5, 3] \<and> gc_dtor_calls (sl_gc m) = []"
proof -
  have "srpl_holds demo_srpl []" by (simp add: srpl_holds_def demo_srpl_def counts_def)
  moreover have "run_ops list_edit [SInsertHead 3, SInsertHead 2, SInsertAfter 2 5, SRemove 2] [] = Some [5, 3]" by simp
  ultimately show ?thesis using srpl_refines_list by blast
qed

end
