(* ===== verification/Spec2Isabelle.thy ===== *)
theory Spec2Isabelle
  imports Pmm Vmm Fs Process Kern Pclock Cstring Ctype Strconv Sort Sha2 Arc4 Stdio Scan Timelib Fnmatch Vga Keyboard Shell Shellrun Paging Heap Console Login Fstools Fscmds Unistd Format Hdmi Queue Squeue History Cpu Boot Ed Calc Figlet Bitstr Poweroff Sysinfo Termios Session Commands Fsbounds Anykeys Atomic Srplist
begin

text \<open>
  Unics is a small kernel for the i686 with its own C library, drivers, a login prompt, a shell and
  some thirty commands, all linked into one image and run in one address space.  This library models
  the C code as HOL functions and proves what makes its parts correct.

  \<^bold>\<open>The program.\<close>  The boot loader enters \<open>boot/boot.s\<close>, which calls \<open>main\<close> in \<open>sbin/init/init.c\<close>.  It starts
  the screen, the HDMI controller, paging, the processor, the file system, the memory managers, the
  null device, the process table and the keyboard, asks for a name and a password, and runs the shell.
  The shell reads lines with the keyboard driver, edits them on the screen, keeps a history and calls
  the command that is named by the first word.  The commands use the C library (\<open>lib/libc\<close>), whose
  input and output end in the keyboard and the screen and whose files end in the file system
  (\<open>usr/drivers/fs.c\<close>).  The kernel services in \<open>kern\<close> and the ciphers in \<open>usr/drivers\<close> stand beside this.

  \<^bold>\<open>How the code is modelled.\<close>  A structure is a record, its arrays are lists, a bit field or an unsigned
  integer of w bits is a word of w bits.  \<open>size_t\<close> has 32 bits: it is a 32-bit word, or a natural number
  with the wrap-around written out where the code can reach it.  The C type \<open>int\<close> is an integer with
  \<open>wrap32\<close> after each operation that may overflow, \<open>long\<close> too, \<open>long long\<close> with \<open>wrap64\<close>.  A function that can
  go wrong returns an option: None is an access out of bounds or through a null pointer, use of freed
  memory, a division fault, or waiting for input that never comes.  The error codes of the C functions
  are values of the result.  State is passed explicitly; what the hardware, the heap and the clock answer
  is an argument, and hypotheses on it (as \<open>alloc_ok\<close>: a block has the size asked for) say what they are
  trusted for.  Strings are lists of bytes without the zero; the file system and the commands use HOL
  strings for names.  Where aliasing matters (pointer lists, pages of page tables, the heap) the store is
  explicit.

  \<^bold>\<open>The theories.\<close>
  \<^item> \<open>Prelude\<close>: types, array access, the loops of C as \<open>for_all\<close>, \<open>for_each\<close> and \<open>find_first\<close>, and the two locales
    that turn "every operation keeps the invariant" into "every run does", \<open>op_system\<close> (with faults) and
    \<open>inv_system\<close>.  \<open>Bits\<close>: alignment and leading zeros of words, the locale \<open>bitmap\<close>.
  \<^item> \<open>Pmm\<close> (\<open>usr/drivers/pmm.c\<close>): regions with bitmaps of pages.  Every run of calls stays in bounds; contiguous
    allocation succeeds exactly when there is a run of free pages; freeing restores the bitmaps.  \<open>Vmm\<close>
    (\<open>usr/drivers/vmm.c\<close>): a table of pages with blocks; allocations never overlap, first fit is complete.
    \<open>Paging\<close> (\<open>usr/drivers/paging.c\<close>): page tables in physical memory refine a map from pages to entries.
    \<open>Heap\<close> (\<open>lib/libc/stdlib.c\<close>): malloc to realloc on memory, \<open>atexit\<close>, wide characters.
  \<^item> \<open>Fs\<close> (\<open>usr/drivers/fs.c\<close>): 64 entries with a tree of directories; the invariant of every run, reading back
    what was written, and where the code overruns.  \<open>Unistd\<close> (\<open>lib/libc/unistd.c\<close>): descriptors on it.
    \<open>Fstools\<close> and \<open>Fscmds\<close>: the commands on files in \<open>bin\<close>; \<open>Ed\<close>: the line editor \<open>bin/ed.c\<close>, whose session refines a
    text.  \<open>Calc\<close> and \<open>Figlet\<close>: the commands that compute or print (\<open>factor\<close>, \<open>expr\<close>, \<open>bc\<close>, \<open>rand\<close>, \<open>echo\<close>, \<open>cowsay\<close>,
    \<open>yes\<close>, \<open>figlet\<close>); \<open>factor\<close> prints prime factors, the loop of \<open>rand\<close> ends for every seed.  \<open>Sysinfo\<close>: what reports
    on the machine (\<open>uname\<close>, \<open>whoami\<close>, \<open>tty\<close>, \<open>clear\<close>, \<open>ps\<close>, \<open>cpuinfo\<close>, \<open>fetch\<close>, \<open>panic.c\<close>, \<open>syscall.c\<close>).  \<open>Poweroff\<close>:
    \<open>shutdown\<close> and \<open>reboot\<close> as the requests they make to the hardware; \<open>shutdown\<close> never comes back.
  \<^item> \<open>Process\<close> (\<open>usr/sbin/process/process.c\<close>), \<open>Kern\<close> (\<open>kern/refcnt.c\<close>, \<open>srp.c\<close>, \<open>intrmap.c\<close>, \<open>poll.c\<close>) and \<open>Pclock\<close>
    (\<open>kern/pclock.c\<close>, each access to the shared word a step of an interleaving).  \<open>Atomic\<close>: the operations of
    \<open>machine/atomic.h\<close> and \<open>sys/atomic.h\<close>; the calls of several processors lose no update in any order, and fewer
    than \<open>2 ^ 32\<close> increments hand out different tickets.  \<open>Srplist\<close>: the lists of \<open>sys/srp.h\<close> refine lists and
    keep their reference count.
  \<^item> \<open>Cstring\<close>, \<open>Ctype\<close>, \<open>Strconv\<close>, \<open>Sort\<close>, \<open>Stdio\<close>, \<open>Scan\<close>, \<open>Timelib\<close>, \<open>Fnmatch\<close>, \<open>Console\<close> and \<open>Format\<close>: the C library.  Parsing
    reads back what printing wrote, sorting sorts and searching finds, \<open>fnmatch\<close> decides the relation of
    glob patterns, and a format has a type: \<open>vprintf\<close> has a result exactly on arguments of that type.
    Locales: \<open>int_width\<close> (for \<open>int\<close> and \<open>long long\<close>), \<open>comparator\<close> (what \<open>qsort\<close> needs of the comparison).
  \<^item> \<open>Bitstr\<close>: the bit strings of \<open>bitstring.h\<close>, the second interpretation of \<open>bitmap\<close>, and the byte orders of
    \<open>sys/_endian.h\<close>.  \<open>Termios\<close> (\<open>termios.c\<close>, \<open>errno.c\<close>, \<open>lib/db/db.c\<close>): the requests behind an \<open>ioctl\<close> that is an
    argument, because the repository has no definition of it.
  \<^item> \<open>Sha2\<close> and \<open>Arc4\<close>: the hash function against its one-shot definition, the stream cipher and its inverse
    (locale \<open>keystream\<close>).
  \<^item> \<open>Vga\<close>, \<open>Keyboard\<close>, \<open>Hdmi\<close>, \<open>Cpu\<close>: the drivers.  Every run of the screen stays inside its buffer, every
    printable character can be typed, the registers of the HDMI controller mirror the structure of the
    driver, and a feature byte says which bits of the processor it really reads.
  \<^item> \<open>Login\<close>, \<open>Shell\<close>, \<open>Shellrun\<close>: the prompt admits exactly after the right names and hides the password;
    the line editor of the shell refines a line with a cursor and stays in its buffers; the command loop
    over any table of commands (locale \<open>shell_env\<close>).
  \<^item> \<open>Queue\<close> and \<open>Squeue\<close>: the macros of \<open>sys/queue.h\<close> on a store of pointers refine lists; locale \<open>fifo\<close> is what
    a client of a queue relies on, with the three double ended kinds as its interpretations.  \<open>History\<close>:
    the history of the shell on the tail queue simulates the one on lists (locale \<open>simulation\<close>).
  \<^item> \<open>Boot\<close> (\<open>sbin/init/init.c\<close>, \<open>usr/drivers/null.c\<close>): \<open>main\<close> over all of these.  The boot sequence reaches the
    prompt with the invariants of all components in place, and the shell runs exactly after a login.
  \<^item> \<open>Session\<close> and \<open>Commands\<close>: the composition.  A typed line runs the command of its first word, and a typed
    script acts as its commands do one after the other (locale \<open>shell_script\<close>); \<open>Commands\<close> has the table of
    \<open>dev/shell/shell.c\<close> with every command on the state of the kernel, interprets the locale on it and follows a
    session from power-on through the login to \<open>exit\<close>.  \<open>Fsbounds\<close> says what the file system keeps even under
    \<open>rmdir\<close> and \<open>cd\<close>, and \<open>Anykeys\<close> that no keys, typed anywhere, take the system out of its bounds (locale
    \<open>shell_world\<close>: an invariant of the commands is one of the shell).
  \<^bold>\<open>Loops.\<close>  A loop over an index is a fold over the list of indices.  A loop that ends by a measure is a
  \<open>function\<close> with its termination proof; for input loops the measure is the input that is left, so that
  they end or wait for a key.  A loop that may not end is a \<open>partial_function (option)\<close>: the command loop of
  the shell, the loops of \<open>cat\<close>, \<open>cp\<close> and \<open>pwd\<close>, walks over pointer lists, the delay loops.  Fuel is used where
  the code counts anyway or a bound is proved: the digits of an integer (33 for \<open>int\<close>, 65 for \<open>long long\<close>,
  and \<open>itoa_ends\<close> shows that they are enough), the polls of the keyboard ports (10000, as in the code).

  \<^bold>\<open>Not modelled.\<close>  Functions on \<open>double\<close> and \<open>math.h\<close>, which have no counterpart among the theories used
  here; assembly without state in the model (\<open>boot.s\<close>, ports, \<open>hlt\<close>, \<open>invlpg\<close>); the
  arithmetic of \<open>sleep\<close>, which is an argument;
  the headers of OpenBSD that declare registers and structures of drivers that are not in the
  repository, and prototypes and constants; stubs without behaviour (\<open>err.c\<close>).  The
  trees of \<open>sys/tree.h\<close> are not modelled: nothing in the repository includes them.
  Concurrency is modelled where the code has it, in \<open>Pclock\<close>; the machine has one processor, and the
  remaining code runs to completion.
\<close>

end
